(* ===== verification/Prelude.thy ===== *)
theory Prelude
  imports Main "HOL-Library.Word" "HOL-Library.List_Lexorder" "HOL-Library.Char_ord"
begin

unbundle bit_operations_syntax

text \<open>
  Shared ground of the development: the collections of facts the component
  theories extend, the model of Go's clock values, and generic lemmas on
  lists, maps and association lists that several components use.

  A \<open>time.Time\<close> is an integer number of nanoseconds counted from Go's zero
  time, so \<open>IsZero\<close> is equality with 0. A \<open>time.Duration\<close> is the integer
  value of an \<open>int64\<close> number of nanoseconds; where the source multiplies
  durations the wrap-around is written out with \<open>int64_wrap\<close>, and
  \<open>Time.Sub\<close>, which saturates in Go, is \<open>time_Sub\<close>.
\<close>

named_theorems netip_defs \<open>defining equations of the operations on addresses\<close>
named_theorems dns_consts \<open>the numeric codes of the DNS protocol\<close>
named_theorems lru_op_defs \<open>defining equations of the operations on linked nodes\<close>

type_synonym gtime = int
type_synonym duration = int

definition second :: duration where
  "second = 1000000000"

definition int64_wrap :: "int \<Rightarrow> int" where
  "int64_wrap x = (x + 2 ^ 63) mod 2 ^ 64 - 2 ^ 63"

definition maxDuration :: duration where
  "maxDuration = 2 ^ 63 - 1"

definition minDuration :: duration where
  "minDuration = - (2 ^ 63)"

text \<open>\<open>t.Sub(u)\<close>: saturating at the ends of the duration range.\<close>

definition time_Sub :: "gtime \<Rightarrow> gtime \<Rightarrow> duration" where
  "time_Sub t u = max minDuration (min maxDuration (t - u))"

lemma int64_wrap_id [simp]: "- (2 ^ 63) \<le> x \<Longrightarrow> x < 2 ^ 63 \<Longrightarrow> int64_wrap x = x"
  by (simp add: int64_wrap_def)

lemma time_Sub_pos [simp]: "0 < time_Sub t u \<longleftrightarrow> u < t"
  by (auto simp: time_Sub_def maxDuration_def minDuration_def)

lemma time_Sub_le: "0 \<le> t - u \<Longrightarrow> time_Sub t u \<le> t - u"
  by (auto simp: time_Sub_def maxDuration_def minDuration_def)

lemma time_Sub_ge: "d \<le> time_Sub t u \<Longrightarrow> 0 \<le> d \<Longrightarrow> d \<le> t - u"
  by (auto simp: time_Sub_def maxDuration_def minDuration_def)

lemma time_Sub_exact: "minDuration \<le> t - u \<Longrightarrow> t - u \<le> maxDuration \<Longrightarrow> time_Sub t u = t - u"
  by (auto simp: time_Sub_def)

section \<open>Generic lemmas on lists\<close>

text \<open>A loop that returns the first value its body yields.\<close>

fun first_some :: "('a \<Rightarrow> 'b option) \<Rightarrow> 'a list \<Rightarrow> 'b option" where
  "first_some f [] = None"
| "first_some f (x # xs) = (case f x of Some y \<Rightarrow> Some y | None \<Rightarrow> first_some f xs)"

lemma first_some_SomeD: "first_some f xs = Some y \<Longrightarrow> \<exists>x \<in> set xs. f x = Some y"
  by (induction xs) (auto split: option.splits)

lemma first_some_None: "first_some f xs = None \<longleftrightarrow> (\<forall>x \<in> set xs. f x = None)"
  by (induction xs) (auto split: option.splits)

lemma map_eq_take_iff:
  "n \<le> m \<Longrightarrow>
   take n (map f [0..<m]) = take n (map g [0..<m]) \<longleftrightarrow> (\<forall>i<n. f i = g i)"
  by (auto simp: list_eq_iff_nth_eq)

lemma distinct_remove1_set [simp]: "distinct xs \<Longrightarrow> set (remove1 x xs) = set xs - {x}"
  by (rule set_remove1_eq)

lemma sum_list_remove1:
  fixes f :: "'a \<Rightarrow> int"
  shows "x \<in> set xs \<Longrightarrow> sum_list (map f (remove1 x xs)) = sum_list (map f xs) - f x"
  by (induction xs) auto

lemma foldl_invariant:
  "P s \<Longrightarrow> (\<And>s x. P s \<Longrightarrow> x \<in> set xs \<Longrightarrow> P (f s x)) \<Longrightarrow> P (foldl f s xs)"
  by (induction xs arbitrary: s) auto

lemma sum_list_bound: "\<forall>x \<in> set xs. int (f x) \<le> m \<Longrightarrow> int (sum_list (map f xs)) \<le> int (length xs) * m"
  by (induction xs) (auto simp: algebra_simps)

lemma foldl_plus_sum_list: "foldl (\<lambda>n x. n + f x) (a :: nat) xs = a + sum_list (map f xs)"
  by (induction xs arbitrary: a) simp_all

lemma int_mult_div_le: "0 < (n :: int) \<Longrightarrow> n * (m div n) \<le> m"
  using mult_div_mod_eq [of n m] pos_mod_sign [of n m] by linarith

lemma map_of_functional:
  assumes "\<And>d d'. (x, d) \<in> set ps \<Longrightarrow> (x, d') \<in> set ps \<Longrightarrow> d = d'"
  shows "map_of ps x = Some d \<longleftrightarrow> (x, d) \<in> set ps"
proof
  assume "(x, d) \<in> set ps"
  then obtain d' where d': "map_of ps x = Some d'" by (metis weak_map_of_SomeI)
  then have "(x, d') \<in> set ps" by (rule map_of_SomeD)
  with assms \<open>(x, d) \<in> set ps\<close> d' show "map_of ps x = Some d" by simp
qed (rule map_of_SomeD)

lemma option_ext: "(\<And>d. a = Some d \<longleftrightarrow> b = Some d) \<Longrightarrow> a = b"
  by (cases a; cases b) auto

lemma image_the_Collect:
  "(\<lambda>x. the (f x)) ` {x. f x \<noteq> None \<and> P x (the (f x))} = {r. \<exists>x. f x = Some r \<and> P x r}"
  by force

end
