(* ===== verification/Netip.thy ===== *)
theory Netip
  imports Prelude
begin

text \<open>
  The part of Go's \<open>net/netip\<close> the program uses: addresses (the zero
  \<open>Addr\<close>, IPv4, IPv6 with a zone) and prefixes (an address and a bit
  count, \<open>-1\<close> for an invalid prefix), with the operations the components
  call. \<open>covers\<close> is the specification of "prefix contains address" the
  tables below are proved against: the addresses are compared as numbers
  after dropping the host bits.
\<close>

datatype addr = AddrZero | AddrV4 "32 word" | AddrV6 "128 word" string

definition Is4 :: "addr \<Rightarrow> bool" where
  "Is4 a = (case a of AddrV4 _ \<Rightarrow> True | _ \<Rightarrow> False)"

definition Is6 :: "addr \<Rightarrow> bool" where
  "Is6 a = (case a of AddrV6 _ _ \<Rightarrow> True | _ \<Rightarrow> False)"

definition IsValid :: "addr \<Rightarrow> bool" where
  "IsValid a = (a \<noteq> AddrZero)"

definition Is4In6 :: "addr \<Rightarrow> bool" where
  "Is4In6 a = (case a of AddrV6 w _ \<Rightarrow> drop_bit 32 w = 0xffff | _ \<Rightarrow> False)"

definition Unmap :: "addr \<Rightarrow> addr" where
  "Unmap a = (case a of
       AddrV6 w z \<Rightarrow> (if Is4In6 a then AddrV4 (ucast w) else a)
     | _ \<Rightarrow> a)"

definition IsLoopback :: "addr \<Rightarrow> bool" where
  "IsLoopback a = (case Unmap a of
       AddrZero \<Rightarrow> False
     | AddrV4 w \<Rightarrow> drop_bit 24 w = 127
     | AddrV6 w _ \<Rightarrow> w = 1)"

definition IsUnspecified :: "addr \<Rightarrow> bool" where
  "IsUnspecified a = (case a of
       AddrZero \<Rightarrow> False
     | AddrV4 w \<Rightarrow> w = 0
     | AddrV6 w z \<Rightarrow> w = 0 \<and> z = [])"

definition BitLen :: "addr \<Rightarrow> int" where
  "BitLen a = (case a of AddrZero \<Rightarrow> 0 | AddrV4 _ \<Rightarrow> 32 | AddrV6 _ _ \<Rightarrow> 128)"

text \<open>\<open>As4\<close> and \<open>As16\<close> as words; their byte forms, most significant first.
  \<open>As16\<close> of the zero address is all zeroes, as in Go.\<close>

definition v4_of :: "addr \<Rightarrow> 32 word" where
  "v4_of a = (case a of AddrV4 w \<Rightarrow> w | _ \<Rightarrow> 0)"

definition v6_of :: "addr \<Rightarrow> 128 word" where
  "v6_of a = (case a of
       AddrZero \<Rightarrow> 0
     | AddrV4 w \<Rightarrow> 0xffff00000000 + ucast w
     | AddrV6 w _ \<Rightarrow> w)"

definition As4 :: "addr \<Rightarrow> 8 word list" where
  "As4 a = map (\<lambda>j. ucast (drop_bit (8 * (3 - j)) (v4_of a))) [0..<4]"

definition As16 :: "addr \<Rightarrow> 8 word list" where
  "As16 a = map (\<lambda>j. ucast (drop_bit (8 * (15 - j)) (v6_of a))) [0..<16]"

record prefix =
  pfx_ip :: addr
  pfx_bits :: int

definition ZeroPrefix :: prefix where
  "ZeroPrefix = \<lparr>pfx_ip = AddrZero, pfx_bits = -1\<rparr>"

definition withoutZone :: "addr \<Rightarrow> addr" where
  "withoutZone a = (case a of AddrV6 w _ \<Rightarrow> AddrV6 w [] | _ \<Rightarrow> a)"

definition PrefixFrom :: "addr \<Rightarrow> int \<Rightarrow> prefix" where
  "PrefixFrom a b =
     \<lparr>pfx_ip = withoutZone a, pfx_bits = (if 0 \<le> b \<and> b \<le> BitLen a \<and> IsValid a then b else -1)\<rparr>"

text \<open>\<open>addr.Prefix(b)\<close>: \<open>None\<close> is its error return.\<close>

definition addr_Prefix :: "addr \<Rightarrow> int \<Rightarrow> prefix option" where
  "addr_Prefix a b = (if b < 0 then None else
     case a of
       AddrZero \<Rightarrow> Some ZeroPrefix
     | AddrV4 w \<Rightarrow> if b > 32 then None
         else Some \<lparr>pfx_ip = AddrV4 (push_bit (32 - nat b) (drop_bit (32 - nat b) w)), pfx_bits = b\<rparr>
     | AddrV6 w _ \<Rightarrow> if b > 128 then None
         else Some \<lparr>pfx_ip = AddrV6 (push_bit (128 - nat b) (drop_bit (128 - nat b) w)) [], pfx_bits = b\<rparr>)"

definition Masked :: "prefix \<Rightarrow> prefix" where
  "Masked p = (case addr_Prefix (pfx_ip p) (pfx_bits p) of None \<Rightarrow> ZeroPrefix | Some q \<Rightarrow> q)"

definition covers :: "prefix \<Rightarrow> addr \<Rightarrow> bool" where
  "covers p a = (let q = Masked p; b = Unmap a; n = nat (pfx_bits q) in
     if Is4 (pfx_ip q)
     then Is4 b \<and> drop_bit (32 - n) (v4_of (pfx_ip q)) = drop_bit (32 - n) (v4_of b)
     else \<not> Is4 b \<and> drop_bit (128 - n) (v6_of (pfx_ip q)) = drop_bit (128 - n) (v6_of b))"

definition prefix_len :: "prefix \<Rightarrow> nat" where
  "prefix_len p = nat (pfx_bits (Masked p))"

declare Is4_def [netip_defs] Is6_def [netip_defs] IsValid_def [netip_defs] Is4In6_def [netip_defs] Unmap_def [netip_defs]
   v4_of_def [netip_defs] v6_of_def [netip_defs]

section \<open>Addresses from byte slices\<close>

definition bytes_num :: "8 word list \<Rightarrow> int" where
  "bytes_num bs = foldl (\<lambda>n b. n * 256 + uint b) 0 bs"

definition AddrFromSlice :: "8 word list \<Rightarrow> addr option" where
  "AddrFromSlice bs =
     (if length bs = 4 then Some (AddrV4 (word_of_int (bytes_num bs)))
      else if length bs = 16 then Some (AddrV6 (word_of_int (bytes_num bs)) [])
      else None)"

text \<open>\<open>net.IP.To4\<close> and \<open>To16\<close>.\<close>

definition To4 :: "8 word list \<Rightarrow> 8 word list option" where
  "To4 ip = (if length ip = 4 then Some ip
     else if length ip = 16 \<and> take 10 ip = replicate 10 0 \<and> ip ! 10 = 0xff \<and> ip ! 11 = 0xff then Some (drop 12 ip)
     else None)"

definition To16 :: "8 word list \<Rightarrow> 8 word list option" where
  "To16 ip = (if length ip = 4 then Some (replicate 10 0 @ [0xff, 0xff] @ ip) else if length ip = 16 then Some ip else None)"

lemma Unmap_V4 [simp]: "Unmap (AddrV4 w) = AddrV4 w"
  by (simp add: Unmap_def)

lemma Unmap_Zero [simp]: "Unmap AddrZero = AddrZero"
  by (simp add: Unmap_def)

lemma Is4In6_V4 [simp]: "\<not> Is4In6 (AddrV4 w)" "\<not> Is4In6 AddrZero"
  by (simp_all add: Is4In6_def)

lemma Is4_simps [simp]: "Is4 (AddrV4 w)" "\<not> Is4 AddrZero" "\<not> Is4 (AddrV6 u z)"
  by (simp_all add: Is4_def)

lemma Unmap_not_4In6: "\<not> Is4In6 a \<Longrightarrow> Unmap a = a"
  by (cases a) (simp_all add: Unmap_def)

lemma Unmap_idem [simp]: "Unmap (Unmap a) = Unmap a"
  by (cases a) (auto simp: Unmap_def Is4In6_def)

lemma covers_Unmap [simp]: "covers p (Unmap a) = covers p a"
  by (simp add: covers_def Let_def)

lemma Masked_Zero [simp]: "Masked ZeroPrefix = ZeroPrefix"
  by (simp add: Masked_def addr_Prefix_def ZeroPrefix_def)

lemma Masked_bits_le:
  "pfx_bits (Masked p) \<le> (if Is4 (pfx_ip (Masked p)) then 32 else 128)"
  by (auto simp: Masked_def addr_Prefix_def ZeroPrefix_def split: addr.splits)

end
