(* ===== verification/Prefixmap.thy ===== *)
theory Prefixmap
  imports Netip
begin

text \<open>
  \<open>internal/prefixmap\<close>: a binary radix trie per address family with
  longest-prefix-match lookup. A Go node's \<open>val\<close>/\<open>has\<close> pair is one
  \<open>option\<close>; the two child pointers are \<open>option\<close>s. The loops of
  \<open>Insert\<close> and \<open>Lookup\<close> run over the bit index \<open>i\<close> exactly as in the
  source, reading bits out of the big-endian byte form of the address.

  The locale \<open>lpm_table\<close> is the interface the subscriber classifier and
  the source ACLs rely on; the trie is its interpretation.
\<close>

section \<open>The trie\<close>

datatype 'v node = Node (child0: "'v node option") (child1: "'v node option") (node_val: "'v option")

definition emptyNode :: "'v node" where
  "emptyNode = Node None None None"

record 'v pmap =
  pm_v4 :: "'v node"
  pm_v6 :: "'v node"
  pm_len :: nat

definition pm_New :: "'v pmap" where
  "pm_New = \<lparr>pm_v4 = emptyNode, pm_v6 = emptyNode, pm_len = 0\<rparr>"

definition pm_Len :: "'v pmap \<Rightarrow> nat" where
  "pm_Len m = pm_len m"

text \<open>\<open>int(b[i>>3]>>(7-uint(i&7))) & 1\<close>.\<close>

definition bitAt :: "8 word list \<Rightarrow> nat \<Rightarrow> nat" where
  "bitAt b i = unat (drop_bit (7 - i mod 8) (b ! (i div 8)) AND 1)"

definition child :: "'v node \<Rightarrow> nat \<Rightarrow> 'v node option" where
  "child n b = (if b = 0 then child0 n else child1 n)"

definition set_child :: "'v node \<Rightarrow> nat \<Rightarrow> 'v node \<Rightarrow> 'v node" where
  "set_child n b c = (if b = 0 then Node (Some c) (child1 n) (node_val n)
                      else Node (child0 n) (Some c) (node_val n))"

text \<open>The descent of \<open>Insert\<close>: the updated subtree, and whether the target
  node already held a value.\<close>

function insertAt :: "8 word list \<Rightarrow> int \<Rightarrow> 'v \<Rightarrow> nat \<Rightarrow> 'v node \<Rightarrow> 'v node \<times> bool" where
  "insertAt key bits v i cur =
     (if int i < bits then
        let b = bitAt key i;
            next = (case child cur b of None \<Rightarrow> emptyNode | Some n \<Rightarrow> n);
            (next', had) = insertAt key bits v (Suc i) next
        in (set_child cur b next', had)
      else (Node (child0 cur) (child1 cur) (Some v), node_val cur \<noteq> None))"
  by pat_completeness auto
termination
  by (relation "measure (\<lambda>(key, bits, v, i, cur). nat (bits - int i))") auto

definition pm_Insert :: "prefix \<Rightarrow> 'v \<Rightarrow> 'v pmap \<Rightarrow> 'v pmap" where
  "pm_Insert p0 v m =
     (let p = Masked p0; a = pfx_ip p; bits = pfx_bits p in
      if Is4 a then
        let (root, had) = insertAt (As4 a) bits v 0 (pm_v4 m)
        in m\<lparr>pm_v4 := root, pm_len := (if had then pm_len m else Suc (pm_len m))\<rparr>
      else
        let (root, had) = insertAt (As16 a) bits v 0 (pm_v6 m)
        in m\<lparr>pm_v6 := root, pm_len := (if had then pm_len m else Suc (pm_len m))\<rparr>)"

text \<open>The descent of \<open>Lookup\<close>, with \<open>best\<close> the deepest value seen so far.\<close>

function lookupFrom :: "8 word list \<Rightarrow> nat \<Rightarrow> nat \<Rightarrow> 'v node \<Rightarrow> 'v option \<Rightarrow> 'v option" where
  "lookupFrom key bits i cur best =
     (if i < bits then
        case child cur (bitAt key i) of
          None \<Rightarrow> best
        | Some n \<Rightarrow> lookupFrom key bits (Suc i) n
             (case node_val n of Some v \<Rightarrow> Some v | None \<Rightarrow> best)
      else best)"
  by pat_completeness auto
termination
  by (relation "measure (\<lambda>(key, bits, i, cur, best). bits - i)") auto

definition pm_Lookup :: "'v pmap \<Rightarrow> addr \<Rightarrow> 'v option" where
  "pm_Lookup m addr =
     (let a = (if Is4In6 addr then Unmap addr else addr) in
      if Is4 a then lookupFrom (As4 a) 32 0 (pm_v4 m) (node_val (pm_v4 m))
      else lookupFrom (As16 a) 128 0 (pm_v6 m) (node_val (pm_v6 m)))"

definition pm_Contains :: "'v pmap \<Rightarrow> addr \<Rightarrow> bool" where
  "pm_Contains m a = (pm_Lookup m a \<noteq> None)"

declare insertAt.simps [simp del] lookupFrom.simps [simp del]

section \<open>Bits of an address\<close>

text \<open>The key bits \<open>i..<n\<close> of a byte string, and the two families' keys.\<close>

definition key_bits :: "8 word list \<Rightarrow> nat \<Rightarrow> nat \<Rightarrow> bool list" where
  "key_bits key i n = map (\<lambda>j. 0 < bitAt key j) [i..<n]"

lemma bitAt_pos: "0 < bitAt b i \<longleftrightarrow> bit (b ! (i div 8)) (7 - i mod 8)"
  by (auto simp: bitAt_def and_one_eq mod_2_eq_odd bit_iff_odd_drop_bit)

lemma byte_bit_index:
  fixes i :: nat
  assumes "i < 8 * k"
  shows "i div 8 < k" and "8 * (k - 1 - i div 8) + (7 - i mod 8) = 8 * k - 1 - i"
proof -
  obtain q r where i: "i = 8 * q + r" and r: "r < 8"
    by (metis mod_less_divisor mult_div_mod_eq zero_less_numeral)
  then have q: "i div 8 = q" "i mod 8 = r" by simp_all
  show "i div 8 < k" using assms i q by linarith
  then show "8 * (k - 1 - i div 8) + (7 - i mod 8) = 8 * k - 1 - i"
    unfolding q using i r by arith
qed

lemma bit_ucast_byte: "bit (ucast (drop_bit m w) :: 8 word) (7 - n) = bit w (m + (7 - n))"
  for w :: "'a::len word"
proof -
  have "7 - n < LENGTH(8)" by simp
  then show ?thesis by (simp only: bit_ucast_iff bit_drop_bit_eq o_def simp_thms)
qed

lemma As4_bit: "i < 32 \<Longrightarrow> 0 < bitAt (As4 a) i \<longleftrightarrow> bit (v4_of a) (31 - i)"
  using byte_bit_index [of i 4] by (simp add: bitAt_pos As4_def bit_ucast_byte del: upt_Suc)

lemma As16_bit: "i < 128 \<Longrightarrow> 0 < bitAt (As16 a) i \<longleftrightarrow> bit (v6_of a) (127 - i)"
  using byte_bit_index [of i 16] by (simp add: bitAt_pos As16_def bit_ucast_byte del: upt_Suc)

section \<open>The trie as a map from bit strings\<close>

fun node_map :: "'v node \<Rightarrow> bool list \<Rightarrow> 'v option" where
  "node_map n [] = node_val n"
| "node_map n (b # bs) =
     (case (if b then child1 n else child0 n) of None \<Rightarrow> None | Some c \<Rightarrow> node_map c bs)"

lemma node_map_empty [simp]: "node_map emptyNode bs = None"
  by (cases bs) (simp_all add: emptyNode_def)

lemma key_bits_Cons: "i < n \<Longrightarrow> key_bits key i n = (0 < bitAt key i) # key_bits key (Suc i) n"
  by (simp add: key_bits_def upt_conv_Cons)

lemma key_bits_Nil [simp]: "n \<le> i \<Longrightarrow> key_bits key i n = []"
  by (simp add: key_bits_def)

lemma length_key_bits [simp]: "length (key_bits key i n) = n - i"
  by (simp add: key_bits_def)

lemma insertAt_map:
  "node_map (fst (insertAt key bits v i cur)) =
     (node_map cur)(key_bits key i (nat bits) \<mapsto> v)
   \<and> (snd (insertAt key bits v i cur) \<longleftrightarrow> node_map cur (key_bits key i (nat bits)) \<noteq> None)"
proof (induction key bits v i cur rule: insertAt.induct)
  case (1 key bits v i cur)
  show ?case
  proof (cases "int i < bits")
    case False
    then have "node_map (Node (child0 cur) (child1 cur) (Some v)) bs = ((node_map cur)([] \<mapsto> v)) bs"
      for bs by (cases bs) auto
    with False show ?thesis by (auto simp: insertAt.simps [of key bits v i cur])
  next
    case True
    let ?b = "bitAt key i"
    let ?c = "case child cur ?b of None \<Rightarrow> emptyNode | Some n \<Rightarrow> n"
    let ?ks = "key_bits key (Suc i) (nat bits)"
    obtain c' had where r: "insertAt key bits v (Suc i) ?c = (c', had)" by fastforce
    have IH: "node_map c' = (node_map ?c)(?ks \<mapsto> v)" "had \<longleftrightarrow> node_map ?c ?ks \<noteq> None"
      using "1.IH" [OF True refl refl] r by auto
    have c: "node_map ?c bs = node_map cur ((0 < ?b) # bs)" for bs
      by (auto simp: child_def split: option.splits)
    have k: "key_bits key i (nat bits) = (0 < ?b) # ?ks"
      using True by (intro key_bits_Cons) simp
    have "node_map (set_child cur ?b c') bs = ((node_map cur)((0 < ?b) # ?ks \<mapsto> v)) bs" for bs
      using c IH(1) by (cases bs) (auto simp: set_child_def fun_upd_def)
    with r True IH(2) show ?thesis
      unfolding insertAt.simps [of key bits v i cur] k by (auto simp: Let_def c simp del: node_map.simps)
  qed
qed

text \<open>\<open>Lookup\<close> keeps the last value seen on the way down.\<close>

definition keep_last :: "'v option \<Rightarrow> 'v option \<Rightarrow> 'v option" where
  "keep_last best x = (case x of None \<Rightarrow> best | Some v \<Rightarrow> Some v)"

definition last_some :: "(nat \<Rightarrow> 'v option) \<Rightarrow> nat \<Rightarrow> 'v option" where
  "last_some f n = foldl keep_last None (map f [0..<n])"

lemma foldl_keep_last_None: "\<forall>x \<in> set xs. x = None \<Longrightarrow> foldl keep_last best xs = best"
  by (induction xs) (auto simp: keep_last_def)

lemma last_some_Suc: "last_some f (Suc n) = keep_last (last_some f n) (f n)"
  by (simp add: last_some_def)

lemma last_some_Some:
  "last_some f n = Some v \<longleftrightarrow> (\<exists>k<n. f k = Some v \<and> (\<forall>j<n. k < j \<longrightarrow> f j = None))"
proof (induction n)
  case 0
  show ?case by (simp add: last_some_def)
next
  case (Suc n)
  show ?case
  proof (cases "f n")
    case None
    with Suc show ?thesis by (auto simp: last_some_Suc keep_last_def less_Suc_eq)
  next
    case (Some w)
    then show ?thesis by (auto simp: last_some_Suc keep_last_def less_Suc_eq)
  qed
qed

lemma last_some_None: "last_some f n = None \<longleftrightarrow> (\<forall>k<n. f k = None)"
  by (induction n) (auto simp: last_some_Suc keep_last_def less_Suc_eq last_some_def [of _ 0] split: option.splits)

lemma lookupFrom_foldl:
  "lookupFrom key n i cur best =
     foldl keep_last best
       (map (\<lambda>k. node_map cur (take (Suc k) (key_bits key i n))) [0..<n - i])"
proof (induction key n i cur best rule: lookupFrom.induct)
  case (1 key n i cur best)
  show ?case
  proof (cases "i < n")
    case False
    then show ?thesis by (simp add: lookupFrom.simps [of key n i cur best])
  next
    case True
    let ?b = "0 < bitAt key i"
    let ?bs = "key_bits key (Suc i) n"
    have k: "key_bits key i n = ?b # ?bs" by (rule key_bits_Cons [OF True])
    have r: "[0..<n - i] = 0 # map Suc [0..<n - Suc i]"
      using True by (simp add: map_Suc_upt upt_conv_Cons Suc_diff_Suc)
    show ?thesis
    proof (cases "child cur (bitAt key i)")
      case None
      then have "node_map cur (?b # xs) = None" for xs
        by (auto simp: child_def split: if_splits)
      with None True show ?thesis
        by (simp add: lookupFrom.simps [of key n i cur best] k foldl_keep_last_None)
    next
      case (Some c)
      then have m: "node_map cur (?b # xs) = node_map c xs" for xs
        by (auto simp: child_def split: if_splits)
      have "lookupFrom key n i cur best =
          lookupFrom key n (Suc i) c (keep_last best (node_val c))"
        using True Some by (simp add: lookupFrom.simps [of key n i cur best] keep_last_def)
      also have "\<dots> = foldl keep_last (keep_last best (node_val c))
          (map (\<lambda>k. node_map c (take (Suc k) ?bs)) [0..<n - Suc i])"
        using "1.IH" [OF True Some, folded keep_last_def] .
      finally show ?thesis by (simp add: k r m o_def del: node_map.simps(2))
    qed
  qed
qed

lemma lookupFrom_last_some:
  "lookupFrom key n 0 cur (node_val cur) =
     last_some (\<lambda>k. node_map cur (take k (key_bits key 0 n))) (Suc n)"
proof -
  have "[0..<Suc n] = 0 # map Suc [0..<n]" by (simp add: map_Suc_upt upt_conv_Cons del: upt_Suc)
  then show ?thesis
    by (cases "node_val cur")
       (simp_all add: lookupFrom_foldl last_some_def o_def keep_last_def del: upt_Suc)
qed

section \<open>The interface: a longest-prefix-match table\<close>

text \<open>
  The contract of a prefix table, over the prefixes as the trie keys them:
  the family and the network bits. \<open>table m\<close> is the finite map the table
  holds; a lookup returns the value of the longest key that is a prefix of
  the address's bits.
\<close>

type_synonym pkey = "bool \<times> bool list"

definition addr_key :: "addr \<Rightarrow> pkey" where
  "addr_key a = (let b = Unmap a in
     if Is4 b then (True, key_bits (As4 b) 0 32) else (False, key_bits (As16 b) 0 128))"

definition prefix_key :: "prefix \<Rightarrow> pkey" where
  "prefix_key p = (let q = Masked p; n = nat (pfx_bits q) in
     if Is4 (pfx_ip q) then (True, key_bits (As4 (pfx_ip q)) 0 n)
     else (False, key_bits (As16 (pfx_ip q)) 0 n))"

definition key_covers :: "pkey \<Rightarrow> pkey \<Rightarrow> bool" where
  "key_covers p a = (fst p = fst a \<and> length (snd p) \<le> length (snd a)
                     \<and> snd p = take (length (snd p)) (snd a))"

lemma drop_bit_eq_top_bits:
  fixes w v :: "'a::len word"
  assumes "n \<le> LENGTH('a)"
  shows "drop_bit (LENGTH('a) - n) w = drop_bit (LENGTH('a) - n) v \<longleftrightarrow>
     (\<forall>i<n. bit w (LENGTH('a) - 1 - i) = bit v (LENGTH('a) - 1 - i))" (is "?L \<longleftrightarrow> ?R")
proof
  assume e: ?L
  show ?R
  proof (intro allI impI)
    fix i assume "i < n"
    then have "LENGTH('a) - n + (n - 1 - i) = LENGTH('a) - 1 - i"
      using assms by linarith
    with arg_cong [OF e, of "\<lambda>x. bit x (n - 1 - i)"]
    show "bit w (LENGTH('a) - 1 - i) = bit v (LENGTH('a) - 1 - i)"
      by (simp add: bit_drop_bit_eq)
  qed
next
  assume r: ?R
  have "bit w (LENGTH('a) - n + m) = bit v (LENGTH('a) - n + m)" for m
  proof (cases "m < n")
    case True
    then have "LENGTH('a) - 1 - (n - 1 - m) = LENGTH('a) - n + m" "n - 1 - m < n"
      using assms by linarith+
    with r show ?thesis by metis
  next
    case False
    then show ?thesis using assms by (auto dest!: bit_imp_le_length)
  qed
  then show ?L by (auto intro!: bit_word_eqI simp: bit_drop_bit_eq)
qed

lemma key_bits_take_eq:
  "n \<le> L \<Longrightarrow> key_bits k 0 n = take n (key_bits k' 0 L) \<longleftrightarrow>
     (\<forall>i<n. (0 < bitAt k i) = (0 < bitAt k' i))"
  by (auto simp: key_bits_def list_eq_iff_nth_eq)

text \<open>Agreeing on the key's bits is the numeric \<open>covers\<close>.\<close>

lemma key_covers_iff: "key_covers (prefix_key p) (addr_key a) \<longleftrightarrow> covers p a"
proof (cases "Is4 (pfx_ip (Masked p))")
  case True
  let ?n = "nat (pfx_bits (Masked p))"
  have n: "?n \<le> 32" using Masked_bits_le [of p] True by simp
  have "(\<forall>i<?n. (0 < bitAt (As4 x) i) = (0 < bitAt (As4 y) i)) \<longleftrightarrow>
      drop_bit (32 - ?n) (v4_of x) = drop_bit (32 - ?n) (v4_of y)" for x y
    using n drop_bit_eq_top_bits [of ?n "v4_of x" "v4_of y"] As4_bit by simp
  with True n show ?thesis
    by (auto simp: key_covers_def prefix_key_def addr_key_def covers_def Let_def key_bits_take_eq)
next
  case False
  let ?n = "nat (pfx_bits (Masked p))"
  have n: "?n \<le> 128" using Masked_bits_le [of p] False by simp
  have "(\<forall>i<?n. (0 < bitAt (As16 x) i) = (0 < bitAt (As16 y) i)) \<longleftrightarrow>
      drop_bit (128 - ?n) (v6_of x) = drop_bit (128 - ?n) (v6_of y)" for x y
    using n drop_bit_eq_top_bits [of ?n "v6_of x" "v6_of y"] As16_bit by simp
  with False n show ?thesis
    by (auto simp: key_covers_def prefix_key_def addr_key_def covers_def Let_def key_bits_take_eq)
qed

lemma length_prefix_key [simp]: "length (snd (prefix_key p)) = prefix_len p"
  by (simp add: prefix_key_def prefix_len_def Let_def)

lemma prefix_key_eq_take:
  "k \<le> length (snd (addr_key a)) \<Longrightarrow>
   prefix_key p = (fst (addr_key a), take k (snd (addr_key a))) \<longleftrightarrow> covers p a \<and> prefix_len p = k"
  by (auto simp: key_covers_iff [symmetric] key_covers_def prod_eq_iff
           simp flip: length_prefix_key)

lemma covers_len_le: "covers p a \<Longrightarrow> prefix_len p \<le> length (snd (addr_key a))"
  by (auto simp: key_covers_iff [symmetric] key_covers_def)

locale lpm_table =
  fixes empty :: "'m"
    and insert :: "prefix \<Rightarrow> 'v \<Rightarrow> 'm \<Rightarrow> 'm"
    and lookup :: "'m \<Rightarrow> addr \<Rightarrow> 'v option"
    and table :: "'m \<Rightarrow> pkey \<Rightarrow> 'v option"
  assumes table_empty: "table empty = Map.empty"
    and table_insert: "table (insert p v m) = (table m)(prefix_key p \<mapsto> v)"
    and lookup_table: "lookup m a =
      last_some (\<lambda>k. table m (fst (addr_key a), take k (snd (addr_key a))))
        (Suc (length (snd (addr_key a))))"
begin

definition build :: "(prefix \<times> 'v) list \<Rightarrow> 'm" where
  "build es = foldl (\<lambda>m (p, v). insert p v m) empty es"

lemma build_Nil: "build [] = empty"
  by (simp add: build_def)

lemma build_snoc: "build (es @ [(p, v)]) = insert p v (build es)"
  by (simp add: build_def)

text \<open>A key holds the value of the last entry inserted under it.\<close>

lemma table_build:
  "table (build es) k = Some v \<longleftrightarrow>
     (\<exists>i < length es. prefix_key (fst (es ! i)) = k \<and> snd (es ! i) = v
        \<and> (\<forall>j < length es. i < j \<longrightarrow> prefix_key (fst (es ! j)) \<noteq> k))"
proof (induction es rule: rev_induct)
  case Nil
  show ?case by (simp add: build_Nil table_empty)
next
  case (snoc e es)
  obtain p w where e: "e = (p, w)" by fastforce
  have ex: "(\<exists>i<Suc (length es). P i) \<longleftrightarrow> P (length es) \<or> (\<exists>i<length es. P i)" for P
    by (auto simp: less_Suc_eq)
  have all: "(\<forall>j<Suc (length es). P j) \<longleftrightarrow> P (length es) \<and> (\<forall>j<length es. P j)" for P
    by (auto simp: less_Suc_eq)
  have nth: "i < length es \<Longrightarrow> (es @ [e]) ! i = es ! i" for i
    by (simp add: nth_append)
  show ?case
  proof (cases "prefix_key p = k")
    case True
    then show ?thesis
      by (auto simp: e build_snoc table_insert ex all nth)
  next
    case False
    then show ?thesis
      using snoc by (simp add: e build_snoc table_insert ex all) (auto simp: nth_append)
  qed
qed

lemma table_build_None:
  "table (build es) k = None \<longleftrightarrow> (\<forall>e \<in> set es. prefix_key (fst e) \<noteq> k)"
  by (induction es rule: rev_induct)
     (auto simp: build_Nil table_empty build_snoc table_insert split: if_splits)

lemma lookup_None: "lookup (build es) a = None \<longleftrightarrow> (\<forall>e \<in> set es. \<not> covers (fst e) a)"
proof -
  have "lookup (build es) a = None \<longleftrightarrow>
      (\<forall>k \<le> length (snd (addr_key a)). \<forall>e \<in> set es. \<not> (covers (fst e) a \<and> prefix_len (fst e) = k))"
    by (auto simp: lookup_table last_some_None table_build_None less_Suc_eq_le prefix_key_eq_take)
  then show ?thesis using covers_len_le by blast
qed

text \<open>The most specific covering entry wins, the last one among equals.\<close>

lemma lookup_Some:
  "lookup (build es) a = Some v \<longleftrightarrow>
     (\<exists>i < length es. covers (fst (es ! i)) a \<and> snd (es ! i) = v
        \<and> (\<forall>j < length es. covers (fst (es ! j)) a \<longrightarrow>
             prefix_len (fst (es ! j)) < prefix_len (fst (es ! i))
             \<or> prefix_len (fst (es ! j)) = prefix_len (fst (es ! i)) \<and> j \<le> i))"
    (is "_ \<longleftrightarrow> (\<exists>i < ?n. ?best i)")
proof -
  let ?L = "length (snd (addr_key a))"
  let ?len = "\<lambda>i. prefix_len (fst (es ! i))"
  let ?cov = "\<lambda>i. covers (fst (es ! i)) a"
  have "lookup (build es) a = Some v \<longleftrightarrow>
      (\<exists>k \<le> ?L. (\<exists>i < ?n. (?cov i \<and> ?len i = k) \<and> snd (es ! i) = v
            \<and> (\<forall>j < ?n. i < j \<longrightarrow> \<not> (?cov j \<and> ?len j = k)))
         \<and> (\<forall>k' \<le> ?L. k < k' \<longrightarrow> (\<forall>j < ?n. \<not> (?cov j \<and> ?len j = k'))))"
    by (simp add: lookup_table last_some_Some table_build table_build_None less_Suc_eq_le
        prefix_key_eq_take all_set_conv_all_nth cong: conj_cong)
  also have "\<dots> \<longleftrightarrow> (\<exists>i < ?n. ?best i)"
  proof (intro iffI; elim exE conjE)
    fix i assume i: "i < ?n" and best: "?cov i" "snd (es ! i) = v"
      "\<forall>j < ?n. ?cov j \<longrightarrow> ?len j < ?len i \<or> ?len j = ?len i \<and> j \<le> i"
    have "?len i \<le> ?L" using best(1) by (rule covers_len_le)
    with i best show "\<exists>k \<le> ?L. (\<exists>i < ?n. (?cov i \<and> ?len i = k) \<and> snd (es ! i) = v
            \<and> (\<forall>j < ?n. i < j \<longrightarrow> \<not> (?cov j \<and> ?len j = k)))
         \<and> (\<forall>k' \<le> ?L. k < k' \<longrightarrow> (\<forall>j < ?n. \<not> (?cov j \<and> ?len j = k')))"
      by (intro exI [of _ "?len i"] conjI exI [of _ i]) (force dest: leD)+
  next
    fix k i assume i: "i < ?n" "?cov i" "?len i = k" "snd (es ! i) = v"
      and later: "\<forall>j < ?n. i < j \<longrightarrow> \<not> (?cov j \<and> ?len j = k)"
      and longer: "\<forall>k' \<le> ?L. k < k' \<longrightarrow> (\<forall>j < ?n. \<not> (?cov j \<and> ?len j = k'))"
    have "?len j < ?len i \<or> ?len j = ?len i \<and> j \<le> i" if "j < ?n" "?cov j" for j
      using that later longer i(3) covers_len_le [OF that(2)] by (metis linorder_less_linear not_less)
    with i show "\<exists>i < ?n. ?best i" by blast
  qed
  finally show ?thesis .
qed

end

section \<open>The trie provides the interface\<close>

definition trie_table :: "'v pmap \<Rightarrow> pkey \<Rightarrow> 'v option" where
  "trie_table m k = node_map (if fst k then pm_v4 m else pm_v6 m) (snd k)"

interpretation trie: lpm_table pm_New pm_Insert pm_Lookup trie_table
proof unfold_locales
  show "trie_table (pm_New :: 'a pmap) = Map.empty"
    by (auto simp: trie_table_def pm_New_def fun_eq_iff)
next
  fix p and v :: 'a and m
  show "trie_table (pm_Insert p v m) = (trie_table m)(prefix_key p \<mapsto> v)"
    using insertAt_map [of "As4 (pfx_ip (Masked p))" "pfx_bits (Masked p)" v 0 "pm_v4 m"]
      insertAt_map [of "As16 (pfx_ip (Masked p))" "pfx_bits (Masked p)" v 0 "pm_v6 m"]
    by (auto simp: trie_table_def pm_Insert_def prefix_key_def Let_def fun_eq_iff
        split: prod.splits if_splits)
next
  fix m :: "'a pmap" and a
  have "(if Is4In6 a then Unmap a else a) = Unmap a"
    by (simp add: Unmap_not_4In6)
  then show "pm_Lookup m a =
      last_some (\<lambda>k. trie_table m (fst (addr_key a), take k (snd (addr_key a))))
        (Suc (length (snd (addr_key a))))"
    by (simp add: pm_Lookup_def Let_def addr_key_def trie_table_def lookupFrom_last_some)
qed

section \<open>Properties of the table\<close>

abbreviation insert_all :: "(prefix \<times> 'v) list \<Rightarrow> 'v pmap" where
  "insert_all es \<equiv> foldl (\<lambda>m (p, v). pm_Insert p v m) pm_New es"

text \<open>
  C31. Longest-prefix match: after any sequence of inserts, \<open>Lookup\<close> returns
  a value exactly when some inserted prefix contains the (unmapped) address,
  and it is the value of the most specific such prefix, the one inserted
  last when the same prefix was inserted more than once.
\<close>

theorem prefixmap_lookup_lpm:
  "(pm_Lookup (insert_all es) a = None) = (\<forall>e \<in> set es. \<not> covers (fst e) a)
   \<and> (pm_Lookup (insert_all es) a = Some v) =
     (\<exists>i < length es. covers (fst (es ! i)) a \<and> snd (es ! i) = v
        \<and> (\<forall>j < length es. covers (fst (es ! j)) a \<longrightarrow>
             prefix_len (fst (es ! j)) < prefix_len (fst (es ! i))
             \<or> prefix_len (fst (es ! j)) = prefix_len (fst (es ! i)) \<and> j \<le> i))"
  by (rule conjI [OF trie.lookup_None [unfolded trie.build_def] trie.lookup_Some [unfolded trie.build_def]])

theorem prefixmap_lookup_lpm_witness:
  "pm_Lookup (insert_all
      [(\<lparr>pfx_ip = AddrV4 0x0a000000, pfx_bits = 8\<rparr>, ''wide''),
       (\<lparr>pfx_ip = AddrV4 0x0a010000, pfx_bits = 16\<rparr>, ''narrow'')]) (AddrV4 0x0a010203)
   = Some ''narrow''"
  (is "pm_Lookup (insert_all ?es) ?a = _")
proof -
  have "covers (fst (?es ! 0)) ?a" "covers (fst (?es ! 1)) ?a"
    "prefix_len (fst (?es ! 0)) = 8" "prefix_len (fst (?es ! 1)) = 16"
    by (simp_all add: covers_def prefix_len_def Masked_def addr_Prefix_def v4_of_def)
  then show ?thesis
    using prefixmap_lookup_lpm [of ?es ?a "''narrow''"] by (auto simp: less_Suc_eq)
qed

text \<open>Distinct prefixes are counted once: \<open>Len\<close> is the number of keys held.\<close>

lemma trie_table_insert: "trie_table (pm_Insert p v m) = (trie_table m)(prefix_key p \<mapsto> v)"
  by (rule trie.table_insert)

lemma pm_Insert_len:
  "pm_len (pm_Insert p v m) =
     (if trie_table m (prefix_key p) = None then Suc (pm_len m) else pm_len m)"
  using insertAt_map [of "As4 (pfx_ip (Masked p))" "pfx_bits (Masked p)" v 0 "pm_v4 m"]
    insertAt_map [of "As16 (pfx_ip (Masked p))" "pfx_bits (Masked p)" v 0 "pm_v6 m"]
  by (auto simp: pm_Insert_def trie_table_def prefix_key_def Let_def split: prod.splits if_splits)

lemma insert_all_dom: "dom (trie_table (insert_all es)) = prefix_key ` fst ` set es"
proof (induction es rule: rev_induct)
  case Nil
  show ?case by (simp add: trie.table_empty)
next
  case (snoc e es)
  obtain p v where e: "e = (p, v)" by fastforce
  have "dom ((trie_table (insert_all es))(prefix_key p \<mapsto> v))
      = insert (prefix_key p) (dom (trie_table (insert_all es)))"
    by (auto simp: dom_def split: if_splits)
  with snoc show ?case by (simp only: e foldl_append foldl.simps case_prod_conv trie_table_insert) simp
qed

text \<open>
  \<open>Len\<close> counts distinct prefixes: after any sequence of inserts it is the
  number of different networks (family and masked bits) among them, so
  replacing a value never counts twice.
\<close>

theorem prefixmap_len_distinct:
  "pm_Len (insert_all es) = card (prefix_key ` fst ` set es)"
proof (induction es rule: rev_induct)
  case Nil
  show ?case by (simp add: pm_Len_def pm_New_def)
next
  case (snoc e es)
  obtain p v where e: "e = (p, v)" by fastforce
  have "trie_table (insert_all es) (prefix_key p) = None
      \<longleftrightarrow> prefix_key p \<notin> prefix_key ` fst ` set es"
    using insert_all_dom [of es] by auto
  with snoc show ?case
    by (auto simp: e pm_Len_def pm_Insert_len insert_absorb)
qed

end
