(* ===== verification/Netacl.thy ===== *)
theory Netacl
  imports Prefixmap
begin

text \<open>
  \<open>internal/netacl\<close>: the source-address allow list of the management and
  metrics planes. An ACL pointer is an \<open>option\<close> (\<open>None\<close> is \<open>nil\<close>). The
  listener's \<open>Accept\<close> loop is a recursion over the results the inner
  listener delivers; running out of them is the loop still waiting. The
  standard library's address parsers are arguments of \<open>addrOf2\<close>.
\<close>

record acl =
  acl_allow :: "unit pmap"
  acl_allowLoopback :: bool

definition acl_New :: "prefix list \<Rightarrow> bool \<Rightarrow> acl" where
  "acl_New allow lb =
     \<lparr>acl_allow = foldl (\<lambda>m p. pm_Insert p () m) pm_New allow, acl_allowLoopback = lb\<rparr>"

definition acl_Allows :: "acl option \<Rightarrow> addr \<Rightarrow> bool" where
  "acl_Allows ac addr0 = (case ac of
       None \<Rightarrow> False
     | Some l \<Rightarrow>
         let addr = (if Is4In6 addr0 then Unmap addr0 else addr0) in
         if acl_allowLoopback l \<and> IsLoopback addr then True
         else pm_Contains (acl_allow l) addr)"

definition acl_Len :: "acl option \<Rightarrow> nat" where
  "acl_Len ac = (case ac of None \<Rightarrow> 0 | Some l \<Rightarrow> pm_Len (acl_allow l))"

text \<open>A peer address as \<open>net.Addr\<close> presents it.\<close>

datatype net_addr = TCPAddr "8 word list" | UDPAddr "8 word list" | OtherAddr string

text \<open>The parsers: \<open>netip.ParseAddrPort\<close> (its address), \<open>net.SplitHostPort\<close>
  (its host) and \<open>netip.ParseAddr\<close>.\<close>

record parsers =
  ParseAddrPort :: "string \<Rightarrow> addr option"
  SplitHostPort :: "string \<Rightarrow> string option"
  ParseAddr :: "string \<Rightarrow> addr option"

definition addrOf2 :: "parsers \<Rightarrow> string \<Rightarrow> addr option" where
  "addrOf2 P hostport = (case ParseAddrPort P hostport of
       Some ap \<Rightarrow> Some (Unmap ap)
     | None \<Rightarrow>
         let host = (case SplitHostPort P hostport of None \<Rightarrow> hostport | Some h \<Rightarrow> h)
         in map_option Unmap (ParseAddr P host))"

definition addrOf :: "parsers \<Rightarrow> net_addr \<Rightarrow> addr option" where
  "addrOf P a = (case a of
       TCPAddr ip \<Rightarrow> map_option Unmap (AddrFromSlice ip)
     | UDPAddr ip \<Rightarrow> map_option Unmap (AddrFromSlice ip)
     | OtherAddr s \<Rightarrow> addrOf2 P s)"

text \<open>\<open>Accept\<close>: each inner result is an error or a connection (here its
  remote address). The result carries the connections closed on the way.\<close>

datatype 'e accepted = AcceptErr 'e | AcceptConn net_addr | AcceptWaiting

fun acl_Accept :: "parsers \<Rightarrow> acl option \<Rightarrow> ('e + net_addr) list \<Rightarrow> 'e accepted \<times> net_addr list" where
  "acl_Accept P ac [] = (AcceptWaiting, [])"
| "acl_Accept P ac (Inl e # rs) = (AcceptErr e, [])"
| "acl_Accept P ac (Inr c # rs) =
     (if (case addrOf P c of Some a \<Rightarrow> acl_Allows ac a | None \<Rightarrow> False) then (AcceptConn c, [])
      else let (r, closed) = acl_Accept P ac rs in (r, c # closed))"

datatype 'r http_outcome = Forbidden | Served 'r

definition acl_Middleware :: "parsers \<Rightarrow> acl option \<Rightarrow> ('q \<Rightarrow> string) \<Rightarrow> ('q \<Rightarrow> 'r) \<Rightarrow> 'q \<Rightarrow> 'r http_outcome" where
  "acl_Middleware P ac remoteAddr next r =
     (case addrOf2 P (remoteAddr r) of
        None \<Rightarrow> Forbidden
      | Some addr \<Rightarrow> if \<not> acl_Allows ac addr then Forbidden else Served (next r))"

section \<open>Properties\<close>

lemma acl_allow_insert_all:
  "acl_allow (acl_New allow lb) = insert_all (map (\<lambda>p. (p, ())) allow)"
  by (simp add: acl_New_def foldl_map)

lemma IsLoopback_Unmap [simp]: "IsLoopback (Unmap a) = IsLoopback a"
  by (simp add: IsLoopback_def)

lemma pm_Contains_insert_all: "pm_Contains (insert_all es) a \<longleftrightarrow> (\<exists>e \<in> set es. covers (fst e) a)"
  using trie.lookup_None [of es a] by (auto simp: pm_Contains_def trie.build_def)

lemma acl_allow_Contains:
  "pm_Contains (acl_allow (acl_New allow lb)) a \<longleftrightarrow> (\<exists>p \<in> set allow. covers p a)"
  unfolding acl_allow_insert_all pm_Contains_insert_all by simp

lemma acl_Allows_New:
  "acl_Allows (Some (acl_New allow lb)) a \<longleftrightarrow> lb \<and> IsLoopback a \<or> (\<exists>p \<in> set allow. covers p a)"
proof -
  have u: "(if Is4In6 a then Unmap a else a) = Unmap a" by (simp add: Unmap_not_4In6)
  have l: "acl_allowLoopback (acl_New allow lb) = lb" by (simp add: acl_New_def)
  show ?thesis
    unfolding acl_Allows_def by (auto simp: u l acl_allow_Contains)
qed

text \<open>
  The access decision, default deny: an ACL built from \<open>allow\<close> admits
  exactly the addresses an allow prefix contains, plus loopback addresses
  when that is enabled; an empty list admits nothing else and a missing ACL
  admits nothing at all. An IPv4-mapped address is judged as the IPv4
  address it carries.
\<close>

theorem acl_decision:
  "acl_Allows (Some (acl_New allow lb)) a = (lb \<and> IsLoopback a \<or> (\<exists>p \<in> set allow. covers p a))
   \<and> acl_Allows None a = False
   \<and> acl_Allows (Some (acl_New [] lb)) a = (lb \<and> IsLoopback a)
   \<and> acl_Allows ac (Unmap a) = acl_Allows ac a"
proof -
  have "acl_Allows ac (Unmap a) = acl_Allows ac a"
    by (auto simp: acl_Allows_def Unmap_not_4In6 Let_def split: option.splits)
  moreover have "\<not> acl_Allows None a" by (simp add: acl_Allows_def)
  ultimately show ?thesis by (simp add: acl_Allows_New)
qed

text \<open>
  The listener never hands out a connection from a disallowed source,
  and closes every one it skipped: a connection is returned only if its
  address could be read and is allowed, and every connection closed on the
  way was one the ACL refuses.
\<close>

theorem acl_accept_only_allowed:
  "(fst (acl_Accept P ac rs) = AcceptConn c \<longrightarrow>
      (\<exists>a. addrOf P c = Some a \<and> acl_Allows ac a) \<and> Inr c \<in> set rs)
   \<and> (\<forall>d \<in> set (snd (acl_Accept P ac rs)). \<forall>a. addrOf P d = Some a \<longrightarrow> \<not> acl_Allows ac a)
   \<and> (fst (acl_Accept P ac rs) = AcceptWaiting \<longrightarrow> snd (acl_Accept P ac rs) = map projr rs)"
proof (induction P ac rs rule: acl_Accept.induct)
  case (3 P ac d rs)
  then show ?case
    by (cases "addrOf P d") (auto split: prod.splits)
qed auto

abbreviation "test_parsers \<equiv> \<lparr>ParseAddrPort = (\<lambda>_. None), SplitHostPort = (\<lambda>_. None), ParseAddr = (\<lambda>_. None)\<rparr>"

theorem acl_accept_only_allowed_witness:
  "fst (acl_Accept test_parsers (Some (acl_New [] True))
       ([Inr (TCPAddr [8, 8, 8, 8]), Inr (TCPAddr [127, 0, 0, 1])] :: (string + net_addr) list))
     = AcceptConn (TCPAddr [127, 0, 0, 1])
   \<and> (\<exists>a. addrOf test_parsers (TCPAddr [127, 0, 0, 1]) = Some a \<and> acl_Allows (Some (acl_New [] True)) a)"
proof -
  have r: "fst (acl_Accept test_parsers (Some (acl_New [] True))
       ([Inr (TCPAddr [8, 8, 8, 8]), Inr (TCPAddr [127, 0, 0, 1])] :: (string + net_addr) list))
     = AcceptConn (TCPAddr [127, 0, 0, 1])"
    by (simp add: addrOf_def AddrFromSlice_def bytes_num_def acl_Allows_New IsLoopback_def)
  then show ?thesis
    using acl_accept_only_allowed [of test_parsers "Some (acl_New [] True)"
      "[Inr (TCPAddr [8, 8, 8, 8]), Inr (TCPAddr [127, 0, 0, 1])] :: (string + net_addr) list"
      "TCPAddr [127, 0, 0, 1]"] by blast
qed

end
