(* ===== verification/Gostrings.thy ===== *)
theory Gostrings
  imports Main "HOL-Library.Sublist" "HOL-Library.Char_ord"
begin

text \<open>
  The functions of Go's \<open>strings\<close> and \<open>bufio\<close> that the parsers use, on byte strings. Whitespace is ASCII whitespace; a scanner
  delivers the lines of its input up to a maximal length and then reports whether it stopped early.
\<close>

definition isSpace :: "char \<Rightarrow> bool" where
  "isSpace c = (of_char c \<in> {9, 10, 11, 12, 13, 32 :: nat})"

definition TrimSpace :: "string \<Rightarrow> string" where
  "TrimSpace s = rev (dropWhile isSpace (rev (dropWhile isSpace s)))"

function strFields :: "string \<Rightarrow> string list" where
  "strFields s = (case dropWhile isSpace s of
       [] \<Rightarrow> []
     | c # cs \<Rightarrow> (c # takeWhile (\<lambda>x. \<not> isSpace x) cs)
                  # strFields (dropWhile (\<lambda>x. \<not> isSpace x) cs))"
  by pat_completeness auto
termination
proof (relation "measure length", goal_cases)
  case (2 s c cs)
  have "length (dropWhile (\<lambda>x. \<not> isSpace x) cs) < length (c # cs)"
    by (simp add: le_imp_less_Suc length_dropWhile_le)
  also have "\<dots> \<le> length s" using length_dropWhile_le [of isSpace s] 2 by simp
  finally show ?case by simp
qed simp

declare strFields.simps [simp del]

definition TrimPrefix :: "string \<Rightarrow> string \<Rightarrow> string" where
  "TrimPrefix s p = (if prefix p s then drop (length p) s else s)"

definition TrimSuffix :: "string \<Rightarrow> string \<Rightarrow> string" where
  "TrimSuffix s p = (if suffix p s then take (length s - length p) s else s)"

text \<open>\<open>strings.Trim(s, cutset)\<close>.\<close>

definition TrimSet :: "char set \<Rightarrow> string \<Rightarrow> string" where
  "TrimSet cs s = rev (dropWhile (\<lambda>c. c \<in> cs) (rev (dropWhile (\<lambda>c. c \<in> cs) s)))"

lemma set_TrimSet: "set (TrimSet cs s) \<subseteq> set s"
  by (auto simp: TrimSet_def dest!: set_dropWhileD)

lemma hd_TrimSet: "TrimSet cs s \<noteq> [] \<Longrightarrow> hd (TrimSet cs s) \<notin> cs"
proof -
  let ?t = "dropWhile (\<lambda>c. c \<in> cs) s"
  assume ne: "TrimSet cs s \<noteq> []"
  then have t: "?t \<noteq> []" unfolding TrimSet_def by (metis dropWhile.simps(1) rev.simps(1))
  obtain u where u: "?t = TrimSet cs s @ u"
    unfolding TrimSet_def by (metis rev_append rev_rev_ident takeWhile_dropWhile_id)
  have "hd ?t \<notin> cs" using hd_dropWhile [OF t] by blast
  with u ne show ?thesis by simp
qed

text \<open>The cases \<open>lo <= c && c <= hi\<close> of a character switch.\<close>

definition char_in :: "char \<Rightarrow> char \<Rightarrow> char \<Rightarrow> bool" where
  "char_in lo hi c = (lo \<le> c \<and> c \<le> hi)"

text \<open>\<open>strings.Split(s, c)\<close> for a separator of one character.\<close>

fun split_on :: "char \<Rightarrow> string \<Rightarrow> string list" where
  "split_on c [] = [[]]"
| "split_on c (x # xs) = (if x = c then [] # split_on c xs
     else case split_on c xs of [] \<Rightarrow> [[x]] | p # ps \<Rightarrow> (x # p) # ps)"

lemma split_on_nonempty: "split_on c xs \<noteq> []"
  by (cases xs) (auto split: list.splits)

lemma split_on_append: "c \<notin> set xs \<Longrightarrow> split_on c (xs @ c # ys) = xs # split_on c ys"
  by (induction xs) auto

lemma split_on_single: "c \<notin> set xs \<Longrightarrow> split_on c xs = [xs]"
  by (induction xs) auto

section \<open>Scanning lines\<close>

function raw_lines :: "string \<Rightarrow> string list" where
  "raw_lines [] = []"
| "raw_lines (c # s) = takeWhile (\<lambda>x. x \<noteq> CHR 0x0A) (c # s)
     # raw_lines (drop 1 (dropWhile (\<lambda>x. x \<noteq> CHR 0x0A) (c # s)))"
  by pat_completeness auto
termination
proof (relation "measure length", goal_cases)
  case (2 c s)
  have "length (dropWhile (\<lambda>x. x \<noteq> CHR 0x0A) s) \<le> length s" by (rule length_dropWhile_le)
  then show ?case by auto
qed simp

definition drop_cr :: "string \<Rightarrow> string" where
  "drop_cr l = (if l \<noteq> [] \<and> last l = CHR 0x0D then butlast l else l)"

text \<open>The lines a \<open>bufio.Scanner\<close> with a buffer of at most \<open>limit\<close> bytes delivers, and whether it ended with an
  error: a line that does not fit, or the reader's own error after the content.\<close>

definition scan_lines :: "nat \<Rightarrow> string \<times> bool \<Rightarrow> string list \<times> bool" where
  "scan_lines limit r = (let ls = raw_lines (fst r); fit = takeWhile (\<lambda>l. length l < limit) ls
     in (map drop_cr fit, length fit < length ls \<or> snd r))"

end
