(* ===== verification/Subscriber.thy ===== *)
theory Subscriber
  imports Prefixmap Gostrings
begin

text \<open>
  \<open>internal/subscriber\<close>: the classifier that maps a client address to the
  subscriber and policy class of its longest matching prefix, and the parser
  of the subscriber prefix file. The atomic table pointer is a plain field:
  \<open>Replace\<close> swaps it whole.
\<close>

record subscriber =
  sub_ID :: string
  sub_Class :: string

record sub_entry =
  ent_Prefix :: prefix
  ent_Sub :: subscriber

record classifier =
  cl_table :: "subscriber pmap"
  cl_defaultClass :: string
  cl_entries :: nat

definition classifier_New :: "string \<Rightarrow> classifier" where
  "classifier_New dc = \<lparr>cl_table = pm_New, cl_defaultClass = dc, cl_entries = 0\<rparr>"

definition withDefault :: "string \<Rightarrow> subscriber \<Rightarrow> subscriber" where
  "withDefault dc s = (if sub_Class s = [] then s\<lparr>sub_Class := dc\<rparr> else s)"

definition classifier_Replace :: "classifier \<Rightarrow> sub_entry list \<Rightarrow> classifier" where
  "classifier_Replace c es =
     (let m = foldl (\<lambda>m e. pm_Insert (ent_Prefix e) (withDefault (cl_defaultClass c) (ent_Sub e)) m)
                pm_New es
      in c\<lparr>cl_table := m, cl_entries := pm_Len m\<rparr>)"

definition classifier_Classify :: "classifier \<Rightarrow> addr \<Rightarrow> subscriber" where
  "classifier_Classify c a = (case pm_Lookup (cl_table c) a of
       Some s \<Rightarrow> s
     | None \<Rightarrow> \<lparr>sub_ID = [], sub_Class = cl_defaultClass c\<rparr>)"

definition classifier_DefaultClass :: "classifier \<Rightarrow> string" where
  "classifier_DefaultClass c = cl_defaultClass c"

definition classifier_Len :: "classifier \<Rightarrow> nat" where
  "classifier_Len c = cl_entries c"

section \<open>The prefix file\<close>

text \<open>
  \<open>LoadFile\<close> over the lines the scanner delivers and whether it then
  reported an error. Whitespace is the ASCII whitespace of
  \<open>strings.TrimSpace\<close> and \<open>strings.Fields\<close>; \<open>netip.ParsePrefix\<close> is an
  argument.
\<close>

datatype load_error = OpenError | FieldCount nat | BadPrefix nat | HostBitsSet nat | ReadError

definition loadLine :: "(string \<Rightarrow> prefix option) \<Rightarrow> nat \<Rightarrow> string \<Rightarrow> load_error + sub_entry option" where
  "loadLine ParsePrefix line raw =
     (let text = TrimSpace raw in
      if text = [] \<or> hd text = CHR ''#'' then Inr None
      else let fields = strFields text in
        if length fields < 2 \<or> length fields > 3 then Inl (FieldCount line)
        else case ParsePrefix (fields ! 0) of
            None \<Rightarrow> Inl (BadPrefix line)
          | Some p \<Rightarrow>
              if Masked p \<noteq> p then Inl (HostBitsSet line)
              else Inr (Some \<lparr>ent_Prefix = p,
                     ent_Sub = \<lparr>sub_ID = (if length fields = 3 then fields ! 2 else []),
                                sub_Class = fields ! 1\<rparr>\<rparr>))"

fun loadLines :: "(string \<Rightarrow> prefix option) \<Rightarrow> nat \<Rightarrow> string list \<Rightarrow> load_error + sub_entry list" where
  "loadLines ParsePrefix line [] = Inr []"
| "loadLines ParsePrefix line (raw # rest) =
     (case loadLine ParsePrefix (Suc line) raw of
        Inl e \<Rightarrow> Inl e
      | Inr r \<Rightarrow> (case loadLines ParsePrefix (Suc line) rest of
            Inl e \<Rightarrow> Inl e
          | Inr es \<Rightarrow> Inr ((case r of None \<Rightarrow> [] | Some e \<Rightarrow> [e]) @ es)))"

definition LoadFile :: "(string \<Rightarrow> prefix option) \<Rightarrow> (string list \<times> bool) option \<Rightarrow> load_error + sub_entry list" where
  "LoadFile ParsePrefix file = (case file of
       None \<Rightarrow> Inl OpenError
     | Some (ls, failed) \<Rightarrow> (case loadLines ParsePrefix 0 ls of
           Inl e \<Rightarrow> Inl e
         | Inr es \<Rightarrow> if failed then Inl ReadError else Inr es))"

section \<open>Properties\<close>

lemma cl_table_Replace:
  "cl_table (classifier_Replace c es) =
     insert_all (map (\<lambda>e. (ent_Prefix e, withDefault (cl_defaultClass c) (ent_Sub e))) es)"
  by (simp add: classifier_Replace_def Let_def foldl_map)

lemma classify_table:
  "classifier_Classify c a = (case pm_Lookup (cl_table c) a of
     Some s \<Rightarrow> s | None \<Rightarrow> \<lparr>sub_ID = [], sub_Class = cl_defaultClass c\<rparr>)"
  by (rule classifier_Classify_def)

lemma cl_defaultClass_Replace [simp]: "cl_defaultClass (classifier_Replace c es) = cl_defaultClass c"
  by (simp add: classifier_Replace_def Let_def)

text \<open>
  Classification after a reload: an address no entry covers gets the
  default class and no subscriber identity; otherwise the address gets the
  subscriber of the most specific covering entry (the later one when a
  prefix is listed twice), with the default class filled in where the entry
  names none.
\<close>

theorem classify_after_replace:
  "((\<forall>e \<in> set es. \<not> covers (ent_Prefix e) a) \<longrightarrow>
      classifier_Classify (classifier_Replace c es) a = \<lparr>sub_ID = [], sub_Class = cl_defaultClass c\<rparr>)
   \<and> (i < length es \<and> covers (ent_Prefix (es ! i)) a
       \<and> (\<forall>j < length es. covers (ent_Prefix (es ! j)) a \<longrightarrow>
            prefix_len (ent_Prefix (es ! j)) < prefix_len (ent_Prefix (es ! i))
            \<or> prefix_len (ent_Prefix (es ! j)) = prefix_len (ent_Prefix (es ! i)) \<and> j \<le> i)
      \<longrightarrow> classifier_Classify (classifier_Replace c es) a = withDefault (cl_defaultClass c) (ent_Sub (es ! i)))"
proof -
  let ?es = "map (\<lambda>e. (ent_Prefix e, withDefault (cl_defaultClass c) (ent_Sub e))) es"
  have none: "pm_Lookup (insert_all ?es) a = None \<longleftrightarrow> (\<forall>e \<in> set ?es. \<not> covers (fst e) a)"
    by (rule trie.lookup_None [unfolded trie.build_def])
  note some = trie.lookup_Some [unfolded trie.build_def, of ?es a]
  show ?thesis
  proof (intro conjI impI)
    assume "\<forall>e \<in> set es. \<not> covers (ent_Prefix e) a"
    then have "pm_Lookup (insert_all ?es) a = None" unfolding none by simp
    then show "classifier_Classify (classifier_Replace c es) a = \<lparr>sub_ID = [], sub_Class = cl_defaultClass c\<rparr>"
      by (simp only: classifier_Classify_def cl_table_Replace cl_defaultClass_Replace option.case)
  next
    assume "i < length es \<and> covers (ent_Prefix (es ! i)) a
       \<and> (\<forall>j < length es. covers (ent_Prefix (es ! j)) a \<longrightarrow>
            prefix_len (ent_Prefix (es ! j)) < prefix_len (ent_Prefix (es ! i))
            \<or> prefix_len (ent_Prefix (es ! j)) = prefix_len (ent_Prefix (es ! i)) \<and> j \<le> i)"
    then have "pm_Lookup (insert_all ?es) a = Some (withDefault (cl_defaultClass c) (ent_Sub (es ! i)))"
      unfolding some by (intro exI [of _ i]) auto
    then show "classifier_Classify (classifier_Replace c es) a = withDefault (cl_defaultClass c) (ent_Sub (es ! i))"
      by (simp only: classifier_Classify_def cl_table_Replace option.case)
  qed
qed

abbreviation "test_entry \<equiv> \<lparr>ent_Prefix = \<lparr>pfx_ip = AddrV4 0x0a000000, pfx_bits = 8\<rparr>,
  ent_Sub = \<lparr>sub_ID = ''cust'', sub_Class = []\<rparr>\<rparr>"

theorem classify_after_replace_witness:
  "classifier_Classify (classifier_Replace (classifier_New ''base'') [test_entry]) (AddrV4 0x0a010203)
     = \<lparr>sub_ID = ''cust'', sub_Class = ''base''\<rparr>
   \<and> classifier_Classify (classifier_Replace (classifier_New ''base'') [test_entry]) (AddrV4 0x0b000000)
     = \<lparr>sub_ID = [], sub_Class = ''base''\<rparr>"
proof -
  have "covers (ent_Prefix test_entry) (AddrV4 0x0a010203)"
    "\<not> covers (ent_Prefix test_entry) (AddrV4 0x0b000000)"
    by (simp_all add: covers_def Masked_def addr_Prefix_def v4_of_def)
  then show ?thesis
    using classify_after_replace [of "[test_entry]" "AddrV4 0x0a010203" "classifier_New ''base''" 0]
      classify_after_replace [of "[test_entry]" "AddrV4 0x0b000000" "classifier_New ''base''" 0]
    by (simp add: withDefault_def classifier_New_def)
qed

lemma loadLine_Some:
  "loadLine PP n raw = Inr (Some e) \<Longrightarrow> Masked (ent_Prefix e) = ent_Prefix e \<and> (\<exists>f. PP f = Some (ent_Prefix e))"
  by (auto simp: loadLine_def Let_def split: if_splits option.splits)

lemma loadLines_length: "loadLines PP n ls = Inr es \<Longrightarrow> length es \<le> length ls"
  by (induction ls arbitrary: n es) (fastforce split: sum.splits option.splits)+

lemma loadLines_masked:
  "loadLines PP n ls = Inr es \<Longrightarrow> e \<in> set es \<Longrightarrow>
   Masked (ent_Prefix e) = ent_Prefix e \<and> (\<exists>f. PP f = Some (ent_Prefix e))"
proof (induction ls arbitrary: n es)
  case (Cons l ls)
  from Cons.prems obtain r es' where r: "loadLine PP (Suc n) l = Inr r"
    and es': "loadLines PP (Suc n) ls = Inr es'"
    and es: "es = (case r of None \<Rightarrow> [] | Some e \<Rightarrow> [e]) @ es'"
    by (auto split: sum.splits)
  from Cons.prems(2) es consider "r = Some e" | "e \<in> set es'"
    by (auto split: option.splits)
  then show ?case
    by cases (use r es' Cons.IH loadLine_Some in auto)
qed simp

text \<open>
  The prefix file is all or nothing, and only canonical prefixes are
  taken from it: a read error, or the first bad line, refuses the whole
  file; otherwise every entry loaded is a prefix the parser produced, with
  no host bits set, and there are no more entries than lines.
\<close>

theorem load_file_canonical:
  "LoadFile PP file = Inr es \<longrightarrow>
     (\<exists>ls. file = Some (ls, False) \<and> length es \<le> length ls
        \<and> (\<forall>e \<in> set es. Masked (ent_Prefix e) = ent_Prefix e \<and> (\<exists>f. PP f = Some (ent_Prefix e))))"
  by (auto simp: LoadFile_def loadLines_length dest: loadLines_masked
      split: option.splits prod.splits sum.splits if_splits)

theorem load_file_canonical_witness:
  "\<exists>es. LoadFile (\<lambda>f. if f = ''10.0.0.0/8'' then Some \<lparr>pfx_ip = AddrV4 0x0a000000, pfx_bits = 8\<rparr> else None)
      (Some ([''# header'', ''10.0.0.0/8 gold cust'', []], False)) = Inr es
   \<and> (\<forall>e \<in> set es. Masked (ent_Prefix e) = ent_Prefix e) \<and> length es \<le> 3"
  (is "\<exists>es. LoadFile ?pp ?f = Inr es \<and> _ \<and> _")
proof -
  let ?es = "[\<lparr>ent_Prefix = \<lparr>pfx_ip = AddrV4 0x0a000000, pfx_bits = 8\<rparr>,
      ent_Sub = \<lparr>sub_ID = ''cust'', sub_Class = ''gold''\<rparr>\<rparr>]"
  have "LoadFile ?pp ?f = Inr ?es"
    by (simp add: LoadFile_def loadLine_def TrimSpace_def isSpace_def strFields.simps Let_def
        Masked_def addr_Prefix_def)
  then show ?thesis
    using load_file_canonical [of ?pp ?f ?es] by auto
qed

end
