(* ===== verification/Dns.thy ===== *)
theory Dns
  imports Prelude Netip "HOL-Library.Sublist"
begin

text \<open>
  The DNS vocabulary shared by the components: resource records and
  messages with the fields the program reads and writes, and the functions
  of the \<open>miekg/dns\<close> package the program calls. That package is not part
  of the repository, so its functions are fields of a record \<open>dnslib\<close>, an
  argument of every definition that calls them. What the program relies on
  is the locale \<open>dns_names\<close>: the documented behaviour of the name
  functions, relative to an abstraction \<open>labels\<close> of a name into its labels
  and a predicate \<open>valid\<close> of well-formed names. The end of the theory
  gives one concrete library that satisfies it.
\<close>

section \<open>Records and messages\<close>

type_synonym u16 = "16 word"
type_synonym u32 = "32 word"

record rr_header =
  rh_Name :: string
  rh_Rrtype :: u16
  rh_Class :: u16
  rh_Ttl :: u32
  rh_Rdlength :: u16

text \<open>The record data, one constructor per concrete Go record type the
  program distinguishes; every other type is \<open>ROther\<close>.\<close>

datatype edns_option = EDE u16 string | TCPKeepalive | OtherOption string

record nsec3 =
  n3_Hash :: "8 word"
  n3_Flags :: "8 word"
  n3_Iterations :: u16
  n3_Salt :: string
  n3_NextDomain :: string
  n3_TypeBitMap :: "u16 list"

record rrsig =
  sig_TypeCovered :: u16
  sig_Algorithm :: "8 word"
  sig_Labels :: "8 word"
  sig_Expiration :: u32
  sig_Inception :: u32
  sig_KeyTag :: u16
  sig_SignerName :: string
  sig_Signature :: string

record dnskey =
  key_Flags :: u16
  key_Protocol :: "8 word"
  key_Algorithm :: "8 word"
  key_PublicKey :: string

record ds =
  ds_KeyTag :: u16
  ds_Algorithm :: "8 word"
  ds_DigestType :: "8 word"
  ds_Digest :: string

datatype rdata =
    RA "8 word list"
  | RAAAA "8 word list"
  | RNS string
  | RCNAME string
  | RDNAME string
  | RPTR string
  | RMX u16 string
  | RSRV string
  | RSOA string string u32
  | RNSEC string "u16 list"
  | RNSEC3 nsec3
  | RRRSIG rrsig
  | RDNSKEY dnskey
  | RDS ds
  | ROPT u16 "edns_option list"
  | ROther string

record rr =
  rr_hdr :: rr_header
  rr_data :: rdata

record question =
  q_Name :: string
  q_Qtype :: u16
  q_Qclass :: u16

record dmsg =
  m_Id :: u16
  m_Response :: bool
  m_Opcode :: int
  m_Truncated :: bool
  m_RecursionDesired :: bool
  m_RecursionAvailable :: bool
  m_AuthenticatedData :: bool
  m_Rcode :: int
  m_Question :: "question list"
  m_Answer :: "rr list"
  m_Ns :: "rr list"
  m_Extra :: "rr list"

definition TypeA :: u16 where "TypeA = 1"
definition TypeNS :: u16 where "TypeNS = 2"
definition TypeCNAME :: u16 where "TypeCNAME = 5"
definition TypeSOA :: u16 where "TypeSOA = 6"
definition TypeAAAA :: u16 where "TypeAAAA = 28"
definition TypeOPT :: u16 where "TypeOPT = 41"
definition TypeDS :: u16 where "TypeDS = 43"
definition TypeRRSIG :: u16 where "TypeRRSIG = 46"
definition TypeDNSKEY :: u16 where "TypeDNSKEY = 48"
definition TypeIXFR :: u16 where "TypeIXFR = 251"
definition TypeAXFR :: u16 where "TypeAXFR = 252"
definition TypeNSEC :: u16 where "TypeNSEC = 47"
definition TypeNSEC3 :: u16 where "TypeNSEC3 = 50"
definition ClassINET :: u16 where "ClassINET = 1"

definition RcodeSuccess :: int where "RcodeSuccess = 0"
definition RcodeFormatError :: int where "RcodeFormatError = 1"
definition RcodeNotImplemented :: int where "RcodeNotImplemented = 4"
definition RcodeRefused :: int where "RcodeRefused = 5"
definition RcodeServerFailure :: int where "RcodeServerFailure = 2"
definition RcodeNameError :: int where "RcodeNameError = 3"

definition ExtendedErrorCodeUnsupportedDNSKEYAlgorithm :: u16 where "ExtendedErrorCodeUnsupportedDNSKEYAlgorithm = 1"
definition ExtendedErrorCodeDNSBogus :: u16 where "ExtendedErrorCodeDNSBogus = 6"
definition ExtendedErrorCodeSignatureExpired :: u16 where "ExtendedErrorCodeSignatureExpired = 7"
definition ExtendedErrorCodeDNSKEYMissing :: u16 where "ExtendedErrorCodeDNSKEYMissing = 9"
definition ExtendedErrorCodeRRSIGsMissing :: u16 where "ExtendedErrorCodeRRSIGsMissing = 10"
definition ExtendedErrorCodeNSECMissing :: u16 where "ExtendedErrorCodeNSECMissing = 12"
definition ExtendedErrorCodeNoReachableAuthority :: u16 where "ExtendedErrorCodeNoReachableAuthority = 22"
definition ExtendedErrorCodeNetworkError :: u16 where "ExtendedErrorCodeNetworkError = 23"
definition ExtendedErrorCodeUnsupportedNSEC3IterValue :: u16 where "ExtendedErrorCodeUnsupportedNSEC3IterValue = 27"
definition ExtendedErrorCodeStaleAnswer :: u16 where "ExtendedErrorCodeStaleAnswer = 3"
definition ExtendedErrorCodeForgedAnswer :: u16 where "ExtendedErrorCodeForgedAnswer = 4"
definition ExtendedErrorCodeBlocked :: u16 where "ExtendedErrorCodeBlocked = 15"

declare TypeA_def [dns_consts] TypeNS_def [dns_consts] TypeCNAME_def [dns_consts] TypeSOA_def [dns_consts]
   TypeAAAA_def [dns_consts] TypeOPT_def [dns_consts] TypeDS_def [dns_consts] TypeRRSIG_def [dns_consts]
   TypeDNSKEY_def [dns_consts] TypeIXFR_def [dns_consts] TypeAXFR_def [dns_consts] RcodeFormatError_def [dns_consts]
   RcodeNotImplemented_def [dns_consts] RcodeRefused_def [dns_consts] TypeNSEC_def [dns_consts] TypeNSEC3_def [dns_consts]
   ClassINET_def [dns_consts] RcodeSuccess_def [dns_consts] RcodeServerFailure_def [dns_consts] RcodeNameError_def [dns_consts]
   ExtendedErrorCodeStaleAnswer_def [dns_consts] ExtendedErrorCodeForgedAnswer_def [dns_consts]
   ExtendedErrorCodeBlocked_def [dns_consts]

section \<open>The library\<close>

text \<open>\<open>SetReply L req\<close> is the message after \<open>new(dns.Msg).SetReply(req)\<close>, and
  \<open>SetRcode\<close>, \<open>SetQuestion\<close> and \<open>SetEdns0\<close> stand for the methods of these names in the same way;
  \<open>IsEdns0 L m\<close> is the position in the additional section of the OPT record
  \<open>m.IsEdns0()\<close> points at.\<close>

record dnslib =
  CanonicalName :: "string \<Rightarrow> string"
  NextLabel :: "string \<Rightarrow> nat \<Rightarrow> nat \<times> bool"
  CountLabel :: "string \<Rightarrow> nat"
  IsSubDomain :: "string \<Rightarrow> string \<Rightarrow> bool"
  Copy :: "rr \<Rightarrow> rr"
  Fqdn :: "string \<Rightarrow> string"
  SetReply :: "dmsg \<Rightarrow> dmsg"
  SetRcode :: "dmsg \<Rightarrow> int \<Rightarrow> dmsg"
  SetQuestion :: "string \<Rightarrow> u16 \<Rightarrow> dmsg"
  SetEdns0 :: "u16 \<Rightarrow> bool \<Rightarrow> dmsg \<Rightarrow> dmsg"
  IsEdns0 :: "dmsg \<Rightarrow> nat option"

definition lower :: "char \<Rightarrow> char" where
  "lower c = (if CHR ''A'' \<le> c \<and> c \<le> CHR ''Z'' then char_of (of_char c + 32 :: nat) else c)"

definition is_letter :: "char \<Rightarrow> bool" where
  "is_letter c = (CHR ''A'' \<le> c \<and> c \<le> CHR ''Z'' \<or> CHR ''a'' \<le> c \<and> c \<le> CHR ''z'')"

text \<open>What every loop over the labels of a name relies on: \<open>NextLabel\<close> moves on.\<close>

locale name_steps =
  fixes L :: dnslib
  assumes label_progress: "NextLabel L n 0 = (i, False) \<Longrightarrow> 0 < i \<and> i < length n"

locale dns_names =
  fixes L :: "dnslib"
    and labels :: "string \<Rightarrow> string list"
    and valid :: "string \<Rightarrow> bool"
  assumes canon_idem [simp]: "CanonicalName L (CanonicalName L s) = CanonicalName L s"
    and canon_valid: "valid s \<Longrightarrow> valid (CanonicalName L s)"
    and canon_case: "map lower s = map lower t \<Longrightarrow> CanonicalName L s = CanonicalName L t"
    and root_canon [simp]: "CanonicalName L ''.'' = ''.''"
    and root_valid [simp]: "valid ''.''"
    and canon_nonempty: "CanonicalName L s \<noteq> []"
    and labels_Nil: "valid s \<Longrightarrow> CanonicalName L s = s \<Longrightarrow> labels s = [] \<longleftrightarrow> s = ''.''"
    and labels_inj: "valid s \<Longrightarrow> CanonicalName L s = s \<Longrightarrow> valid t \<Longrightarrow> CanonicalName L t = t \<Longrightarrow>
      labels s = labels t \<Longrightarrow> s = t"
    and next_end: "valid s \<Longrightarrow> CanonicalName L s = s \<Longrightarrow> s \<noteq> ''.'' \<Longrightarrow>
      snd (NextLabel L s 0) \<longleftrightarrow> length (labels s) = 1"
    and next_label: "valid s \<Longrightarrow> CanonicalName L s = s \<Longrightarrow> NextLabel L s 0 = (i, False) \<Longrightarrow>
      0 < i \<and> i < length s \<and> s ! (i - 1) = CHR ''.'' \<and> valid (drop i s)
      \<and> CanonicalName L (drop i s) = drop i s \<and> labels (drop i s) = tl (labels s)"
    and next_offset: "valid s \<Longrightarrow> 0 < k \<Longrightarrow> k < length s \<Longrightarrow> s ! (k - 1) = CHR ''.'' \<Longrightarrow>
      NextLabel L s k = (case NextLabel L (drop k s) 0 of (i, e) \<Rightarrow> (k + i, e))"
    and count_label: "valid s \<Longrightarrow> CanonicalName L s = s \<Longrightarrow> CountLabel L s = length (labels s)"
    and sub_domain: "valid p \<Longrightarrow> CanonicalName L p = p \<Longrightarrow> valid c \<Longrightarrow> CanonicalName L c = c \<Longrightarrow>
      IsSubDomain L p c \<longleftrightarrow> suffix (labels p) (labels c)"
begin

lemma labels_root [simp]: "labels ''.'' = []"
  by (simp add: labels_Nil)

lemma suffix_antisym_canon:
  "valid s \<Longrightarrow> CanonicalName L s = s \<Longrightarrow> valid t \<Longrightarrow> CanonicalName L t = t \<Longrightarrow>
   suffix (labels s) (labels t) \<Longrightarrow> s \<noteq> t \<Longrightarrow> length (labels s) < length (labels t)"
  using labels_inj suffix_length_le [of "labels s" "labels t"]
  by (metis nat_less_le same_suffix_nil suffix_def append_eq_conv_conj length_append
      add_cancel_left_left length_0_conv append_Nil)

end

section \<open>A concrete library\<close>

text \<open>Names without escapes, split at their dots: one library that meets the
  contract, used where a concrete one is needed.\<close>

function chunks :: "string \<Rightarrow> string list" where
  "chunks [] = []"
| "chunks (c # s) = takeWhile (\<lambda>x. x \<noteq> CHR ''.'') (c # s)
      # chunks (drop 1 (dropWhile (\<lambda>x. x \<noteq> CHR ''.'') (c # s)))"
  by pat_completeness auto
termination
proof (relation "measure length", goal_cases)
  case (2 c s)
  have "length (dropWhile (\<lambda>x. x \<noteq> CHR ''.'') s) \<le> length s" by (rule length_dropWhile_le)
  then show ?case by auto
qed simp

definition ref_canon :: "string \<Rightarrow> string" where
  "ref_canon s = (let t = map lower s in
     if t \<noteq> [] \<and> last t = CHR ''.'' then t else t @ ''.'')"

definition ref_labels :: "string \<Rightarrow> string list" where
  "ref_labels s = (if s = ''.'' then [] else chunks s)"

definition ref_valid :: "string \<Rightarrow> bool" where
  "ref_valid s = (s = ''.'' \<or> s \<noteq> [] \<and> [] \<notin> set (chunks s))"

definition ref_next :: "string \<Rightarrow> nat \<Rightarrow> nat \<times> bool" where
  "ref_next s off = (let i = off + length (takeWhile (\<lambda>x. x \<noteq> CHR ''.'') (drop off s)) in
     if Suc i < length s then (Suc i, False) else (length s, True))"

definition reply_to :: "dmsg \<Rightarrow> dmsg" where
  "reply_to q = \<lparr>m_Id = m_Id q, m_Response = True, m_Opcode = m_Opcode q, m_Truncated = False, m_RecursionDesired = m_RecursionDesired q,
     m_RecursionAvailable = False, m_AuthenticatedData = False, m_Rcode = 0,
     m_Question = take 1 (m_Question q), m_Answer = [], m_Ns = [], m_Extra = []\<rparr>"

definition ask_for :: "string \<Rightarrow> u16 \<Rightarrow> dmsg" where
  "ask_for n t = \<lparr>m_Id = 0, m_Response = False, m_Opcode = 0, m_Truncated = False, m_RecursionDesired = True,
     m_RecursionAvailable = False, m_AuthenticatedData = False, m_Rcode = 0,
     m_Question = [\<lparr>q_Name = n, q_Qtype = t, q_Qclass = ClassINET\<rparr>], m_Answer = [], m_Ns = [], m_Extra = []\<rparr>"

definition ref_lib :: dnslib where
  "ref_lib = \<lparr>CanonicalName = ref_canon, NextLabel = ref_next,
     CountLabel = (\<lambda>s. length (ref_labels s)),
     IsSubDomain = (\<lambda>p c. suffix (ref_labels p) (ref_labels c)),
     Copy = (\<lambda>r. r), Fqdn = (\<lambda>s. if s \<noteq> [] \<and> last s = CHR ''.'' then s else s @ ''.''),
     SetReply = reply_to, SetRcode = (\<lambda>q rc. (reply_to q)\<lparr>m_Rcode := rc\<rparr>), SetQuestion = ask_for,
     SetEdns0 = (\<lambda>_ _ m. m), IsEdns0 = (\<lambda>_. None)\<rparr>"

lemma of_char_lower: "(of_char (lower c) :: nat) =
    (if 65 \<le> (of_char c :: nat) \<and> (of_char c :: nat) \<le> 90 then of_char c + 32 else of_char c)"
  by (auto simp: lower_def less_eq_char_def)

lemma lower_idem [simp]: "lower (lower c) = lower c"
  by (rule injD [OF inj_of_char [where 'a = nat]]) (simp add: of_char_lower)

lemma char_eq_dot: "c = CHR ''.'' \<longleftrightarrow> (of_char c :: nat) = 46"
proof -
  have "(of_char (CHR ''.'') :: nat) = 46" by simp
  then show ?thesis by (metis of_char_eq_iff)
qed

lemma lower_eq_dot [simp]: "lower c = CHR ''.'' \<longleftrightarrow> c = CHR ''.''"
  by (auto simp: char_eq_dot of_char_lower)

lemma lower_dot [simp]: "lower (CHR ''.'') = CHR ''.''"
  by simp

lemma chunks_single: "s \<noteq> [] \<Longrightarrow> CHR ''.'' \<notin> set s \<Longrightarrow> chunks s = [s]"
proof (cases s)
  case (Cons c t)
  assume "CHR ''.'' \<notin> set s"
  then have "takeWhile (\<lambda>x. x \<noteq> CHR ''.'') s = s" "dropWhile (\<lambda>x. x \<noteq> CHR ''.'') s = []"
    by (auto simp: takeWhile_eq_all_conv dropWhile_eq_Nil_conv)
  with Cons show ?thesis by simp
qed simp

lemma chunks_dot: "CHR ''.'' \<notin> set l \<Longrightarrow> chunks (l @ CHR ''.'' # r) = l # chunks r"
proof -
  assume l: "CHR ''.'' \<notin> set l"
  then have "takeWhile (\<lambda>x. x \<noteq> CHR ''.'') (l @ CHR ''.'' # r) = l"
    "dropWhile (\<lambda>x. x \<noteq> CHR ''.'') (l @ CHR ''.'' # r) = CHR ''.'' # r"
    by (auto simp: takeWhile_append dropWhile_append)
  then show ?thesis by (cases "l @ CHR ''.'' # r") simp_all
qed

text \<open>Every name is a dot-free string, or one up to its first dot.\<close>

lemma name_cases:
  obtains "s = []" | "s \<noteq> []" "CHR ''.'' \<notin> set s"
  | l r where "s = l @ CHR ''.'' # r" "CHR ''.'' \<notin> set l"
  by (metis split_list_first)

lemma chunks_dot_free: "l \<in> set (chunks s) \<Longrightarrow> CHR ''.'' \<notin> set l"
  by (induction s arbitrary: l rule: chunks.induct) (auto dest: set_takeWhileD)

lemma map_lower_dot [simp]: "CHR ''.'' \<in> lower ` A \<longleftrightarrow> CHR ''.'' \<in> A"
  by (metis imageE imageI lower_eq_dot)

lemma chunks_map_lower: "chunks (map lower s) = map (map lower) (chunks s)"
proof (induction s rule: length_induct)
  case (1 s)
  show ?case
  proof (cases rule: name_cases [of s])
    case 2
    then show ?thesis by (simp add: chunks_single)
  next
    case (3 l r)
    with 1 show ?thesis by (simp add: chunks_dot del: lower_eq_dot)
  qed simp
qed

lemma chunks_snoc_dot: "s \<noteq> [] \<Longrightarrow> last s \<noteq> CHR ''.'' \<Longrightarrow> chunks (s @ ''.'') = chunks s"
proof (induction s rule: length_induct)
  case (1 s)
  show ?case
  proof (cases rule: name_cases [of s])
    case 2
    then show ?thesis using chunks_dot [of s "[]"] by (simp add: chunks_single)
  next
    case (3 l r)
    with 1 have "r \<noteq> []" "last r \<noteq> CHR ''.''" by (auto split: if_splits)
    with 1 3 have "chunks (r @ ''.'') = chunks r" by auto
    with 3 show ?thesis by (simp add: chunks_dot)
  qed (use 1 in simp)
qed

lemma unchunk: "s \<noteq> [] \<Longrightarrow> last s = CHR ''.'' \<Longrightarrow> s = concat (map (\<lambda>l. l @ ''.'') (chunks s))"
proof (induction s rule: length_induct)
  case (1 s)
  show ?case
  proof (cases rule: name_cases [of s])
    case 2
    with 1 show ?thesis using last_in_set [of s] by simp
  next
    case (3 l r)
    show ?thesis
    proof (cases "r = []")
      case True
      with 3 show ?thesis by (simp add: chunks_dot)
    next
      case False
      with 1 3 have "last r = CHR ''.''" by simp
      with 1 3 False have "r = concat (map (\<lambda>l. l @ ''.'') (chunks r))" by simp
      with 3 show ?thesis by (simp add: chunks_dot)
    qed
  qed (use 1 in simp)
qed

lemma ref_canon_fix: "ref_canon s = s \<longleftrightarrow> map lower s = s \<and> s \<noteq> [] \<and> last s = CHR ''.''"
proof
  assume e: "ref_canon s = s"
  have "length (ref_canon s) = length s" using e by simp
  then have "map lower s \<noteq> [] \<and> last (map lower s) = CHR ''.''"
    by (auto simp: ref_canon_def Let_def split: if_splits)
  with e show "map lower s = s \<and> s \<noteq> [] \<and> last s = CHR ''.''"
    by (auto simp: ref_canon_def Let_def)
qed (auto simp: ref_canon_def Let_def)

lemma ref_decompose:
  assumes "ref_valid s" "ref_canon s = s" "s \<noteq> ''.''"
  obtains l r where "s = l @ CHR ''.'' # r" "CHR ''.'' \<notin> set l" "l \<noteq> []"
    "chunks s = l # chunks r" "r \<noteq> ''.''"
    "r = [] \<or> ref_valid r \<and> ref_canon r = r"
proof -
  from assms have s: "s \<noteq> []" "last s = CHR ''.''" "map lower s = s" "[] \<notin> set (chunks s)"
    by (auto simp: ref_canon_fix ref_valid_def)
  then have "CHR ''.'' \<in> set s" using last_in_set by fastforce
  then obtain l r where lr: "s = l @ CHR ''.'' # r" "CHR ''.'' \<notin> set l"
    by (metis split_list_first)
  then have c: "chunks s = l # chunks r" by (simp add: chunks_dot)
  have "chunks ''.'' = [[]]" by simp
  then have "r \<noteq> ''.''" using c s(4) by auto
  moreover have "ref_valid r \<and> ref_canon r = r" if "r \<noteq> []"
    using that s c lr by (auto simp: ref_valid_def ref_canon_fix)
  ultimately show ?thesis using that lr c s(4) by auto
qed

lemma ref_next_0:
  assumes "s = l @ CHR ''.'' # r" "CHR ''.'' \<notin> set l"
  shows "ref_next s 0 = (if r = [] then (length s, True) else (Suc (length l), False))"
proof -
  have "takeWhile (\<lambda>x. x \<noteq> CHR ''.'') s = l"
    using assms by (auto simp: takeWhile_append)
  with assms(1) show ?thesis by (simp add: ref_next_def)
qed

lemma chunks_eq_Nil [simp]: "chunks s = [] \<longleftrightarrow> s = []"
  by (cases s) auto

interpretation ref: dns_names ref_lib ref_labels ref_valid
proof (unfold_locales, unfold ref_lib_def dnslib.select_convs, goal_cases)
  case (1 s)
  show ?case by (auto simp: ref_canon_def Let_def o_def last_map)
next
  case (2 s)
  then show ?case
    by (auto simp: ref_valid_def ref_canon_def Let_def chunks_map_lower chunks_snoc_dot last_map
        simp del: chunks.simps)
next
  case (3 s t)
  then show ?case by (simp add: ref_canon_def)
next
  case (7 s)
  then show ?case by (simp add: ref_labels_def ref_canon_fix)
next
  case (8 s t)
  then show ?case
    using unchunk [of s] unchunk [of t]
    by (auto simp: ref_labels_def ref_canon_fix split: if_splits)
next
  case (9 s)
  then obtain l r where "s = l @ CHR ''.'' # r" "CHR ''.'' \<notin> set l" "chunks s = l # chunks r"
    using ref_decompose [of s] by metis
  with 9 show ?case by (simp add: ref_labels_def ref_next_0)
next
  case (10 s i)
  then have "s \<noteq> ''.''" by (auto simp: ref_next_def)
  with 10 obtain l r where "s = l @ CHR ''.'' # r" "CHR ''.'' \<notin> set l" "chunks s = l # chunks r"
    "r \<noteq> ''.''" "r = [] \<or> ref_valid r \<and> ref_canon r = r"
    using ref_decompose [of s] by metis
  with 10 \<open>s \<noteq> ''.''\<close> show ?case
    by (auto simp: ref_labels_def ref_next_0 nth_append split: if_splits)
next
  case (11 s k)
  then show ?case by (auto simp: ref_next_def Let_def)
qed (auto simp: ref_canon_def ref_valid_def ref_labels_def Let_def)

interpretation ref_steps: name_steps ref_lib
  by unfold_locales (auto simp: ref_lib_def ref_next_def Let_def split: if_splits)

end
