(* ===== verification/Policy_Rules.thy ===== *)
theory Policy_Rules
  imports Dns "HOL-Library.Finite_Map" "HOL-Library.Monad_Syntax"
begin

text \<open>
  \<open>internal/policy/rule.go\<close>: rules, compiled rule sets and the registry
  that holds the class policies, the per-subscriber overrides and the
  mandatory tier. Go maps are finite maps; a possibly nil \<open>*Set\<close> is an
  \<open>option\<close>. \<open>Match\<close> walks towards the root one label at a time; the walk is
  a \<open>partial_function\<close>, so that a library whose \<open>NextLabel\<close> made no progress
  would be a walk that does not return (\<open>None\<close>). Class names are lowered by
  \<open>strings.ToLower\<close>, modelled on ASCII letters.
\<close>

datatype action =
    ActionNone | ActionNXDOMAIN | ActionNODATA | ActionPassthru | ActionDrop
  | ActionRedirect | ActionRewrite

fun action_String :: "action \<Rightarrow> string" where
  "action_String ActionNXDOMAIN = ''nxdomain''"
| "action_String ActionNODATA = ''nodata''"
| "action_String ActionPassthru = ''passthru''"
| "action_String ActionDrop = ''drop''"
| "action_String ActionRedirect = ''redirect''"
| "action_String ActionRewrite = ''rewrite''"
| "action_String ActionNone = ''none''"

record rule =
  r_Action :: action
  r_Addrs :: "addr list"
  r_Target :: string
  r_Feed :: string
  r_TTL :: u32

record polset =
  set_exact :: "(string, rule) fmap"
  set_wild :: "(string, rule) fmap"

definition NewSet :: polset where
  "NewSet = \<lparr>set_exact = fmempty, set_wild = fmempty\<rparr>"

definition set_Len :: "polset option \<Rightarrow> nat" where
  "set_Len s = (case s of None \<Rightarrow> 0
     | Some t \<Rightarrow> size (fmdom (set_exact t)) + size (fmdom (set_wild t)))"

definition AddExact :: "dnslib \<Rightarrow> string \<Rightarrow> rule \<Rightarrow> polset \<Rightarrow> polset" where
  "AddExact L name r s = s\<lparr>set_exact := fmupd (CanonicalName L name) r (set_exact s)\<rparr>"

definition AddWildcard :: "dnslib \<Rightarrow> string \<Rightarrow> rule \<Rightarrow> polset \<Rightarrow> polset" where
  "AddWildcard L parent r s = s\<lparr>set_wild := fmupd (CanonicalName L parent) r (set_wild s)\<rparr>"

definition parentOf :: "dnslib \<Rightarrow> string \<Rightarrow> string" where
  "parentOf L name = (if name = [] \<or> name = ''.'' then []
     else let (i, fin) = NextLabel L name 0 in if fin then ''.'' else drop i name)"

partial_function (option) matchWild :: "dnslib \<Rightarrow> (string, rule) fmap \<Rightarrow> string \<Rightarrow> rule option option" where
  "matchWild L wild cur =
     (let parent = parentOf L cur in
      if parent = [] then Some None
      else case fmlookup wild parent of
          Some r \<Rightarrow> Some (Some r)
        | None \<Rightarrow> if parent = ''.'' then Some None else matchWild L wild parent)"

definition set_Match :: "dnslib \<Rightarrow> polset option \<Rightarrow> string \<Rightarrow> rule option option" where
  "set_Match L s qname = (case s of
       None \<Rightarrow> Some None
     | Some t \<Rightarrow>
         let name = CanonicalName L qname in
         (case fmlookup (set_exact t) name of
            Some r \<Rightarrow> Some (Some r)
          | None \<Rightarrow> if fmdom (set_wild t) = {||} then Some None else matchWild L (set_wild t) name))"

record policy =
  pol_Class :: string
  pol_Rules :: "polset option"
  pol_RedirectTo :: "addr list"
  pol_Feeds :: "string list"

record overrides =
  ov_Allow :: "polset option"
  ov_Block :: "polset option"

definition ov_Len :: "overrides option \<Rightarrow> nat" where
  "ov_Len o' = (case o' of None \<Rightarrow> 0 | Some v \<Rightarrow> set_Len (ov_Allow v) + set_Len (ov_Block v))"

definition ov_Match :: "dnslib \<Rightarrow> overrides option \<Rightarrow> string \<Rightarrow> rule option option" where
  "ov_Match L o' qname = (case o' of
       None \<Rightarrow> Some None
     | Some v \<Rightarrow> do {
         m \<leftarrow> set_Match L (ov_Allow v) qname;
         case m of Some r \<Rightarrow> Some (Some (r\<lparr>r_Action := ActionPassthru\<rparr>))
         | None \<Rightarrow> set_Match L (ov_Block v) qname })"

record registry =
  reg_classes :: "(string, policy) fmap"
  reg_overrides :: "(string, overrides) fmap"
  reg_mandatory :: "policy option"

definition NewRegistry :: registry where
  "NewRegistry = \<lparr>reg_classes = fmempty, reg_overrides = fmempty, reg_mandatory = None\<rparr>"

definition ToLower :: "string \<Rightarrow> string" where
  "ToLower s = map lower s"

definition ReplaceMandatory :: "policy option \<Rightarrow> registry \<Rightarrow> registry" where
  "ReplaceMandatory p r = r\<lparr>reg_mandatory := p\<rparr>"

definition Mandatory :: "registry \<Rightarrow> policy option" where
  "Mandatory r = reg_mandatory r"

text \<open>The maps given to \<open>Replace\<close> and \<open>ReplaceOverrides\<close> are listed in the
  order the range loop visits them.\<close>

definition reg_Replace :: "(string \<times> policy) list \<Rightarrow> registry \<Rightarrow> registry" where
  "reg_Replace ps r = r\<lparr>reg_classes := foldl (\<lambda>m (k, v). fmupd (ToLower k) v m) fmempty ps\<rparr>"

definition reg_ReplaceOverrides :: "(string \<times> overrides) list \<Rightarrow> registry \<Rightarrow> registry" where
  "reg_ReplaceOverrides os r = r\<lparr>reg_overrides := foldl (\<lambda>m (k, v). fmupd k v m) fmempty os\<rparr>"

definition reg_For :: "registry \<Rightarrow> string \<Rightarrow> policy option" where
  "reg_For r cls = fmlookup (reg_classes r) (ToLower cls)"

definition OverridesFor :: "registry \<Rightarrow> string \<Rightarrow> overrides option" where
  "OverridesFor r sid = (if sid = [] then None else fmlookup (reg_overrides r) sid)"

definition SubscribersWithOverrides :: "registry \<Rightarrow> nat" where
  "SubscribersWithOverrides r = size (fmdom (reg_overrides r))"

section \<open>Matching finds the most specific rule\<close>

text \<open>\<open>below labels p c\<close>: the name \<open>c\<close> lies strictly below \<open>p\<close>.\<close>

definition below :: "dnslib \<Rightarrow> (string \<Rightarrow> string list) \<Rightarrow> (string \<Rightarrow> bool) \<Rightarrow> string \<Rightarrow> string \<Rightarrow> bool" where
  "below L labels valid p c \<longleftrightarrow>
     valid p \<and> CanonicalName L p = p \<and> strict_suffix (labels p) (labels c)"

definition most_specific :: "dnslib \<Rightarrow> (string \<Rightarrow> string list) \<Rightarrow> (string \<Rightarrow> bool) \<Rightarrow>
    (string, rule) fmap \<Rightarrow> string \<Rightarrow> rule option \<Rightarrow> bool" where
  "most_specific L labels valid wild c res \<longleftrightarrow> (case res of
       None \<Rightarrow> (\<forall>p. below L labels valid p c \<longrightarrow> fmlookup wild p = None)
     | Some r \<Rightarrow> (\<exists>p. below L labels valid p c \<and> fmlookup wild p = Some r
           \<and> (\<forall>q. below L labels valid q c \<and> length (labels p) < length (labels q)
                \<longrightarrow> fmlookup wild q = None)))"

lemma strict_suffix_Cons: "strict_suffix ys (x # xs) \<longleftrightarrow> ys = xs \<or> strict_suffix ys xs"
  by (auto simp: strict_suffix_def suffix_Cons dest: suffix_length_le)

context dns_names
begin

lemma parentOf_labels:
  assumes "valid c" "CanonicalName L c = c" "c \<noteq> ''.''"
  shows "valid (parentOf L c) \<and> CanonicalName L (parentOf L c) = parentOf L c
    \<and> parentOf L c \<noteq> [] \<and> labels (parentOf L c) = tl (labels c)"
proof -
  have ne: "c \<noteq> []" using assms(2) canon_nonempty [of c] by auto
  obtain i e where n: "NextLabel L c 0 = (i, e)" by fastforce
  show ?thesis
  proof (cases e)
    case True
    with next_end [OF assms] n have "length (labels c) = 1" by simp
    then have "tl (labels c) = []" by (cases "labels c") auto
    with True n ne assms(3) show ?thesis by (simp add: parentOf_def)
  next
    case False
    with next_label [OF assms(1,2)] n ne assms(3) show ?thesis
      by (auto simp: parentOf_def)
  qed
qed

lemma below_parent:
  assumes "valid c" "CanonicalName L c = c" "c \<noteq> ''.''"
  shows "below L labels valid p c \<longleftrightarrow> p = parentOf L c \<or> below L labels valid p (parentOf L c)"
proof -
  have "labels c \<noteq> []" using assms labels_Nil by blast
  then obtain x where c: "labels c = x # labels (parentOf L c)"
    using parentOf_labels [OF assms] by (cases "labels c") auto
  show ?thesis
    using parentOf_labels [OF assms] labels_inj [of p "parentOf L c"]
    by (auto simp: below_def c strict_suffix_Cons)
qed

lemma below_longer: "below L labels valid p c \<Longrightarrow> length (labels p) < length (labels c)"
  by (auto simp: below_def strict_suffix_def suffix_def)

lemma matchWild_most_specific:
  "valid c \<Longrightarrow> CanonicalName L c = c \<Longrightarrow>
   \<exists>res. matchWild L wild c = Some res \<and> most_specific L labels valid wild c res"
proof (induction "length (labels c)" arbitrary: c rule: less_induct)
  case less
  show ?case
  proof (cases "c = ''.''")
    case True
    then have "\<not> below L labels valid p c" for p by (auto simp: below_def strict_suffix_def)
    then have "most_specific L labels valid wild c None" by (simp add: most_specific_def)
    moreover have "matchWild L wild c = Some None"
      by (simp add: True matchWild.simps [of L wild "''.''"] parentOf_def)
    ultimately show ?thesis by blast
  next
    case False
    let ?p = "parentOf L c"
    note P = parentOf_labels [OF less.prems False] and B = below_parent [OF less.prems False]
    have b: "below L labels valid ?p c" using B by blast
    show ?thesis
    proof (cases "fmlookup wild ?p")
      case (Some r)
      have "\<not> (below L labels valid q c \<and> length (labels ?p) < length (labels q))" for q
        using B [of q] below_longer [of q ?p] by auto
      with Some b P show ?thesis
        by (auto simp: matchWild.simps [of L wild c] most_specific_def)
    next
      case None
      show ?thesis
      proof (cases "?p = ''.''")
        case True
        then have "below L labels valid q c \<Longrightarrow> q = ?p" for q
          using B [of q] by (auto simp: below_def strict_suffix_def)
        with None True P show ?thesis
          by (auto simp: matchWild.simps [of L wild c] most_specific_def)
      next
        case nr: False
        have "length (labels ?p) < length (labels c)" by (rule below_longer [OF b])
        with less.hyps [of ?p] P obtain res where res: "matchWild L wild ?p = Some res"
          "most_specific L labels valid wild ?p res" by blast
        have "most_specific L labels valid wild c res"
          using res(2) None B by (auto simp: most_specific_def split: option.splits) 
        with res(1) None nr P show ?thesis
          by (simp add: matchWild.simps [of L wild c])
      qed
    qed
  qed
qed

lemma set_Match_returns:
  assumes "valid qname"
  shows "\<exists>res. set_Match L s qname = Some res"
proof -
  have "\<exists>res. matchWild L w (CanonicalName L qname) = Some res" for w
    using matchWild_most_specific [OF canon_valid [OF assms] canon_idem] by blast
  then show ?thesis by (auto simp: set_Match_def Let_def split: option.splits)
qed

lemma set_Match_spec:
  assumes "valid qname"
  shows "set_Match L (Some s) qname = Some res \<Longrightarrow>
    (case fmlookup (set_exact s) (CanonicalName L qname) of
       Some r \<Rightarrow> res = Some r
     | None \<Rightarrow> most_specific L labels valid (set_wild s) (CanonicalName L qname) res)"
proof -
  assume m: "set_Match L (Some s) qname = Some res"
  obtain r where r: "matchWild L (set_wild s) (CanonicalName L qname) = Some r"
    "most_specific L labels valid (set_wild s) (CanonicalName L qname) r"
    using matchWild_most_specific [OF canon_valid [OF assms] canon_idem] by blast
  have e: "fmdom (set_wild s) = {||} \<Longrightarrow> fmlookup (set_wild s) p = None" for p
    by (simp add: fmdom_notD)
  show ?thesis
    using m r e by (auto simp: set_Match_def Let_def most_specific_def split: option.splits if_splits)
qed

end

text \<open>
  \<open>Match\<close> always returns and picks the most specific rule: an exact rule
  for the name wins; otherwise the rule of the deepest wildcard strictly
  above the name; and no rule exactly when no exact rule and no wildcard
  covers it.
\<close>

theorem match_most_specific:
  assumes "dns_names L labels valid" and "valid qname"
  shows "\<exists>res. set_Match L (Some s) qname = Some res
    \<and> (case fmlookup (set_exact s) (CanonicalName L qname) of
         Some r \<Rightarrow> res = Some r
       | None \<Rightarrow> most_specific L labels valid (set_wild s) (CanonicalName L qname) res)"
  using dns_names.set_Match_returns [OF assms] dns_names.set_Match_spec [OF assms] by blast

abbreviation "blk \<equiv> \<lparr>r_Action = ActionNXDOMAIN, r_Addrs = [], r_Target = [], r_Feed = ''f'', r_TTL = 0\<rparr>"
abbreviation "okr \<equiv> \<lparr>r_Action = ActionPassthru, r_Addrs = [], r_Target = [], r_Feed = ''f'', r_TTL = 0\<rparr>"

theorem match_most_specific_witness:
  "ref_valid ''www.Example.com'' \<and>
   (\<exists>res. set_Match ref_lib (Some (AddWildcard ref_lib ''com'' blk (AddWildcard ref_lib ''example.com'' okr NewSet)))
       ''www.Example.com'' = Some res)"
proof -
  have "ref_valid ''www.Example.com''" by (simp add: ref_valid_def)
  with match_most_specific [OF ref.dns_names_axioms this] show ?thesis by blast
qed

end
