(* ===== verification/Transport.thy ===== *)
theory Transport
  imports Dns
begin

text \<open>
  \<open>internal/transport/transport.go\<close>: the request a listener hands to the
  handler chain, and the handler interface. A handler may change the state
  \<open>'s\<close> behind it, so it is a state-passing function; \<open>None\<close> is a nil
  \<open>*dns.Msg\<close>, which drops the query. The outer \<open>option\<close> of a handler's
  result is \<open>None\<close> when the call does not return a message or nil at all (it
  panics or never ends).
\<close>

datatype proto = ProtoUDP | ProtoTCP | ProtoDoT | ProtoDoH | ProtoDoQ

fun proto_String :: "proto \<Rightarrow> string" where
  "proto_String ProtoUDP = ''udp''"
| "proto_String ProtoTCP = ''tcp''"
| "proto_String ProtoDoT = ''dot''"
| "proto_String ProtoDoH = ''doh''"
| "proto_String ProtoDoQ = ''doq''"

record request =
  rq_Msg :: dmsg
  rq_Client :: addr
  rq_Local :: addr
  rq_Proto :: proto
  rq_Internal :: bool
  rq_Received :: gtime
  rq_MaxResponseSize :: int

type_synonym 's handler = "request \<Rightarrow> 's \<Rightarrow> (dmsg option \<times> 's) option"

definition minUDPSize :: int where
  "minUDPSize = 512"

definition MaxMsgSize :: int where
  "MaxMsgSize = 65535"

definition opt_UDPSize :: "rr \<Rightarrow> int" where
  "opt_UDPSize r = (case rr_data r of ROPT sz _ \<Rightarrow> uint sz | _ \<Rightarrow> 0)"

definition responseSizeFor :: "dnslib \<Rightarrow> dmsg \<Rightarrow> proto \<Rightarrow> u16 \<Rightarrow> int" where
  "responseSizeFor L msg pr limit =
     (if pr \<noteq> ProtoUDP then MaxMsgSize
      else case IsEdns0 L msg of
          None \<Rightarrow> minUDPSize
        | Some i \<Rightarrow>
            let size0 = opt_UDPSize (m_Extra msg ! i);
                size1 = (if size0 < minUDPSize then minUDPSize else size0);
                size2 = (if size1 > uint limit then uint limit else size1)
            in size2)"

text \<open>A small request, used where a concrete one is needed.\<close>

definition test_msg :: "string \<Rightarrow> dmsg" where
  "test_msg name = \<lparr>m_Id = 1, m_Response = False, m_Opcode = 0, m_Truncated = False, m_RecursionDesired = False,
       m_RecursionAvailable = False, m_AuthenticatedData = False, m_Rcode = 0,
       m_Question = [\<lparr>q_Name = name, q_Qtype = TypeA, q_Qclass = ClassINET\<rparr>],
       m_Answer = [], m_Ns = [], m_Extra = []\<rparr>"

definition test_request :: "string \<Rightarrow> request" where
  "test_request name = \<lparr>rq_Msg = test_msg name,
     rq_Client = AddrV4 0x0a010203, rq_Local = AddrV4 0, rq_Proto = ProtoUDP, rq_Internal = False,
     rq_Received = 0, rq_MaxResponseSize = 512\<rparr>"

text \<open>
  A UDP client never makes the server send more than the operator's
  ceiling: whatever size it advertises, the response limit is the advertised
  size raised to the 512-byte floor and cut to the ceiling, and 512 without
  an OPT record; over a stream transport it is the protocol maximum.
\<close>

theorem response_size_bounds:
  "responseSizeFor L msg pr limit =
     (if pr \<noteq> ProtoUDP then 65535
      else case IsEdns0 L msg of None \<Rightarrow> 512
        | Some i \<Rightarrow> min (uint limit) (max 512 (opt_UDPSize (m_Extra msg ! i))))
   \<and> responseSizeFor L msg ProtoUDP limit \<le> max 512 (uint limit)
   \<and> 0 \<le> responseSizeFor L msg pr limit"
  by (auto simp: responseSizeFor_def MaxMsgSize_def minUDPSize_def Let_def split: option.splits)

end
