(* ===== verification/Policy_Enforcer.thy ===== *)
theory Policy_Enforcer
  imports Policy_Rules Subscriber Transport
begin

text \<open>
  \<open>internal/policy/enforcer.go\<close>: the handler that applies subscriber policy
  in front of the resolver. \<open>lookup\<close> keeps the source's order: the mandatory
  tier, the subscriber's own allow and block lists, the class feeds. The
  metrics are the enforcer's state; log lines are left out. The first
  question is read by index, so a request without one panics (\<open>None\<close>).
\<close>

record pol_metrics =
  pm_Evaluated :: nat
  pm_Blocked :: nat
  pm_Redirected :: nat
  pm_Rewritten :: nat
  pm_Dropped :: nat
  pm_Passthru :: nat
  pm_OverrideAllowed :: nat
  pm_OverrideBlocked :: nat
  pm_MandatoryApplied :: nat

record enforcer =
  en_classifier :: "classifier option"
  en_registry :: "registry option"

definition DefaultTTL :: u32 where
  "DefaultTTL = 60"

definition addEDE :: "dmsg \<Rightarrow> u16 \<Rightarrow> string \<Rightarrow> dmsg" where
  "addEDE resp code text =
     (let opt = \<lparr>rr_hdr = \<lparr>rh_Name = ''.'', rh_Rrtype = TypeOPT, rh_Class = 0, rh_Ttl = 0, rh_Rdlength = 0\<rparr>,
                 rr_data = ROPT 1232 [EDE code text]\<rparr>
      in resp\<lparr>m_Extra := m_Extra resp @ [opt]\<rparr>)"

definition en_lookup :: "dnslib \<Rightarrow> registry \<Rightarrow> subscriber \<Rightarrow> string \<Rightarrow> pol_metrics \<Rightarrow> (rule option \<times> pol_metrics) option" where
  "en_lookup L reg sub qname mt = do {
     mand \<leftarrow> (case Mandatory reg of None \<Rightarrow> Some None | Some m \<Rightarrow> set_Match L (pol_Rules m) qname);
     (case mand of
        Some r \<Rightarrow> if r_Action r \<noteq> ActionPassthru
                   then Some (Some (Some r, mt\<lparr>pm_MandatoryApplied := Suc (pm_MandatoryApplied mt)\<rparr>))
                   else Some None
      | None \<Rightarrow> Some None) \<bind> (\<lambda>decided.
     case decided of Some d \<Rightarrow> Some d
     | None \<Rightarrow> do {
         ovr \<leftarrow> (case OverridesFor reg (sub_ID sub) of
            None \<Rightarrow> Some None
          | Some ov \<Rightarrow> do {
              al \<leftarrow> set_Match L (ov_Allow ov) qname;
              case al of
                Some r \<Rightarrow> Some (Some (Some (r\<lparr>r_Action := ActionPassthru\<rparr>),
                            mt\<lparr>pm_OverrideAllowed := Suc (pm_OverrideAllowed mt)\<rparr>))
              | None \<Rightarrow> do {
                  bl \<leftarrow> set_Match L (ov_Block ov) qname;
                  Some (case bl of
                      Some r \<Rightarrow> Some (Some r, mt\<lparr>pm_OverrideBlocked := Suc (pm_OverrideBlocked mt)\<rparr>)
                    | None \<Rightarrow> None) } });
         case ovr of Some d \<Rightarrow> Some d
         | None \<Rightarrow> (case reg_For reg (sub_Class sub) of
             None \<Rightarrow> Some (None, mt)
           | Some pol \<Rightarrow> do {
               m \<leftarrow> set_Match L (pol_Rules pol) qname;
               Some (map_option (\<lambda>r. if r_Action r = ActionRedirect \<and> r_Addrs r = []
                                      then r\<lparr>r_Addrs := pol_RedirectTo pol\<rparr> else r) m, mt) }) }) }"

definition redirectRR :: "question \<Rightarrow> u32 \<Rightarrow> addr \<Rightarrow> rr list" where
  "redirectRR q ttl a =
     (if Is4 a \<and> q_Qtype q = TypeA then
        [\<lparr>rr_hdr = \<lparr>rh_Name = q_Name q, rh_Rrtype = TypeA, rh_Class = ClassINET, rh_Ttl = ttl, rh_Rdlength = 0\<rparr>,
          rr_data = RA (As4 a)\<rparr>]
      else if Is6 a \<and> q_Qtype q = TypeAAAA then
        [\<lparr>rr_hdr = \<lparr>rh_Name = q_Name q, rh_Rrtype = TypeAAAA, rh_Class = ClassINET, rh_Ttl = ttl, rh_Rdlength = 0\<rparr>,
          rr_data = RAAAA (As16 a)\<rparr>]
      else [])"

definition en_apply :: "dnslib \<Rightarrow> request \<Rightarrow> question \<Rightarrow> rule \<Rightarrow> pol_metrics \<Rightarrow> dmsg option \<times> pol_metrics" where
  "en_apply L req q r mt =
     (let ttl = (if r_TTL r = 0 then DefaultTTL else r_TTL r);
          resp = (SetReply L (rq_Msg req))\<lparr>m_RecursionAvailable := True, m_AuthenticatedData := False\<rparr>
      in case r_Action r of
        ActionDrop \<Rightarrow> (None, mt\<lparr>pm_Dropped := Suc (pm_Dropped mt)\<rparr>)
      | ActionNXDOMAIN \<Rightarrow>
          (Some (addEDE (resp\<lparr>m_Rcode := RcodeNameError\<rparr>) ExtendedErrorCodeBlocked ''blocked by subscriber policy''),
           mt\<lparr>pm_Blocked := Suc (pm_Blocked mt)\<rparr>)
      | ActionNODATA \<Rightarrow>
          (Some (addEDE resp ExtendedErrorCodeBlocked ''blocked by subscriber policy''),
           mt\<lparr>pm_Blocked := Suc (pm_Blocked mt)\<rparr>)
      | ActionRedirect \<Rightarrow>
          (Some (addEDE (resp\<lparr>m_Answer := m_Answer resp @ concat (map (redirectRR q ttl) (r_Addrs r))\<rparr>)
             ExtendedErrorCodeForgedAnswer ''redirected by subscriber policy''),
           mt\<lparr>pm_Redirected := Suc (pm_Redirected mt)\<rparr>)
      | ActionRewrite \<Rightarrow>
          (Some (addEDE (resp\<lparr>m_Answer := m_Answer resp @
               [\<lparr>rr_hdr = \<lparr>rh_Name = q_Name q, rh_Rrtype = TypeCNAME, rh_Class = ClassINET, rh_Ttl = ttl, rh_Rdlength = 0\<rparr>,
                 rr_data = RCNAME (r_Target r)\<rparr>]\<rparr>)
             ExtendedErrorCodeForgedAnswer ''rewritten by subscriber policy''),
           mt\<lparr>pm_Rewritten := Suc (pm_Rewritten mt)\<rparr>)
      | _ \<Rightarrow> (Some resp, mt))"

definition en_ServeDNS :: "dnslib \<Rightarrow> enforcer \<Rightarrow> 's handler \<Rightarrow> (pol_metrics \<times> 's) handler" where
  "en_ServeDNS L e next req st = (case st of (mt, s) \<Rightarrow>
     (case (en_classifier e, en_registry e) of
        (Some cl, Some reg) \<Rightarrow> (case m_Question (rq_Msg req) of
            [] \<Rightarrow> None
          | q # _ \<Rightarrow>
              let sub = classifier_Classify cl (rq_Client req) in
              do {
                (found, mt1) \<leftarrow> en_lookup L reg sub (q_Name q) (mt\<lparr>pm_Evaluated := Suc (pm_Evaluated mt)\<rparr>);
                case found of
                  Some r \<Rightarrow>
                    if r_Action r = ActionPassthru then do {
                      (resp, s') \<leftarrow> next req s;
                      Some (resp, (mt1\<lparr>pm_Passthru := Suc (pm_Passthru mt1)\<rparr>, s')) }
                    else (case en_apply L req q r mt1 of (resp, mt2) \<Rightarrow> Some (resp, (mt2, s)))
                | None \<Rightarrow> do { (resp, s') \<leftarrow> next req s; Some (resp, (mt1, s')) } })
      | _ \<Rightarrow> do { (resp, s') \<leftarrow> next req s; Some (resp, (mt, s')) }))"

section \<open>Properties\<close>

lemma en_lookup_mandatory:
  assumes "Mandatory reg = Some m" "set_Match L (pol_Rules m) qname = Some (Some r)"
    "r_Action r \<noteq> ActionPassthru"
  shows "en_lookup L reg sub qname mt =
    Some (Some r, mt\<lparr>pm_MandatoryApplied := Suc (pm_MandatoryApplied mt)\<rparr>)"
  using assms by (simp add: en_lookup_def)

text \<open>Below the mandatory tier, the subscriber's allow list decides first.\<close>

definition mandatory_silent :: "dnslib \<Rightarrow> registry \<Rightarrow> string \<Rightarrow> bool" where
  "mandatory_silent L reg qname = (case Mandatory reg of
       None \<Rightarrow> True
     | Some m \<Rightarrow> (case set_Match L (pol_Rules m) qname of
           Some None \<Rightarrow> True
         | Some (Some r) \<Rightarrow> r_Action r = ActionPassthru
         | None \<Rightarrow> False))"

lemma en_lookup_allow:
  assumes "mandatory_silent L reg qname"
    and "OverridesFor reg (sub_ID sub) = Some ov"
    and "set_Match L (ov_Allow ov) qname = Some (Some r)"
  shows "en_lookup L reg sub qname mt =
    Some (Some (r\<lparr>r_Action := ActionPassthru\<rparr>), mt\<lparr>pm_OverrideAllowed := Suc (pm_OverrideAllowed mt)\<rparr>)"
  using assms by (auto simp: en_lookup_def mandatory_silent_def split: option.splits)

lemma en_lookup_unassigned:
  assumes "mandatory_silent L reg qname"
    and "OverridesFor reg (sub_ID sub) = None" and "reg_For reg (sub_Class sub) = None"
  shows "en_lookup L reg sub qname mt = Some (None, mt)"
  using assms by (auto simp: en_lookup_def mandatory_silent_def split: option.splits)

text \<open>
  C24. The compliance tier cannot be opted out of: when a mandatory rule other
  than a passthru matches the queried name, the answer is that rule's,
  whatever the client's address, subscriber overrides or class, and the
  resolver behind the enforcer is never asked (the result does not depend on
  \<open>next\<close> and its state is untouched).
\<close>

theorem mandatory_not_overridable:
  assumes "en_registry e = Some reg" "en_classifier e = Some cl"
    and "Mandatory reg = Some m" "set_Match L (pol_Rules m) (q_Name q) = Some (Some r)"
    and "r_Action r \<noteq> ActionPassthru" and "m_Question (rq_Msg req) = q # qs"
  shows "en_ServeDNS L e next req (mt, s) =
    (let mt1 = mt\<lparr>pm_Evaluated := Suc (pm_Evaluated mt), pm_MandatoryApplied := Suc (pm_MandatoryApplied mt)\<rparr>
     in Some (fst (en_apply L req q r mt1), (snd (en_apply L req q r mt1), s)))"
  using assms by (simp add: en_ServeDNS_def en_lookup_mandatory Let_def split: prod.splits)

definition test_query :: "string \<Rightarrow> request" where
  "test_query name = \<lparr>rq_Msg = \<lparr>m_Id = 1, m_Response = False, m_Opcode = 0, m_Truncated = False, m_RecursionDesired = False,
       m_RecursionAvailable = False, m_AuthenticatedData = False, m_Rcode = 0,
       m_Question = [\<lparr>q_Name = name, q_Qtype = TypeA, q_Qclass = ClassINET\<rparr>],
       m_Answer = [], m_Ns = [], m_Extra = []\<rparr>,
     rq_Client = AddrV4 0x0a010203, rq_Local = AddrV4 0, rq_Proto = ProtoUDP, rq_Internal = False,
     rq_Received = 0, rq_MaxResponseSize = 512\<rparr>"

definition zero_metrics :: pol_metrics where
  "zero_metrics = \<lparr>pm_Evaluated = 0, pm_Blocked = 0, pm_Redirected = 0, pm_Rewritten = 0, pm_Dropped = 0,
      pm_Passthru = 0, pm_OverrideAllowed = 0, pm_OverrideBlocked = 0, pm_MandatoryApplied = 0\<rparr>"

definition test_policy :: "polset \<Rightarrow> policy" where
  "test_policy s = \<lparr>pol_Class = ''c'', pol_Rules = Some s, pol_RedirectTo = [], pol_Feeds = []\<rparr>"

theorem mandatory_not_overridable_witness:
  "\<exists>mt' s'. en_ServeDNS ref_lib
      \<lparr>en_classifier = Some (classifier_New ''base''),
       en_registry = Some (ReplaceMandatory (Some (test_policy (AddExact ref_lib ''bad.example.''
          (blk\<lparr>r_Action := ActionDrop\<rparr>) NewSet))) NewRegistry)\<rparr>
      (\<lambda>_ s. None) (test_query ''Bad.Example'') (zero_metrics, ()) = Some (None, (mt', s'))"
proof -
  let ?reg = "ReplaceMandatory (Some (test_policy (AddExact ref_lib ''bad.example.''
          (blk\<lparr>r_Action := ActionDrop\<rparr>) NewSet))) NewRegistry"
  let ?e = "\<lparr>en_classifier = Some (classifier_New ''base''), en_registry = Some ?reg\<rparr>"
  let ?pol = "test_policy (AddExact ref_lib ''bad.example.'' (blk\<lparr>r_Action := ActionDrop\<rparr>) NewSet)"
  let ?q = "\<lparr>q_Name = ''Bad.Example'', q_Qtype = TypeA, q_Qclass = ClassINET\<rparr>"
  let ?r = "blk\<lparr>r_Action := ActionDrop\<rparr>"
  have c: "ref_canon ''Bad.Example'' = ''bad.example.''" "ref_canon ''bad.example.'' = ''bad.example.''"
    by code_simp+
  have "set_Match ref_lib (pol_Rules ?pol) (q_Name ?q) = Some (Some ?r)"
    by (simp add: test_policy_def set_Match_def AddExact_def NewSet_def ref_lib_def c)
  moreover have "Mandatory ?reg = Some ?pol"
    by (simp add: Mandatory_def ReplaceMandatory_def)
  ultimately show ?thesis
    using mandatory_not_overridable [of ?e ?reg "classifier_New ''base''" ?pol ref_lib ?q ?r
        "test_query ''Bad.Example''" "[]" "\<lambda>_ s. None" zero_metrics "()"]
    by (simp add: test_query_def Let_def en_apply_def)
qed

text \<open>
  A subscriber's own allow entry beats every class feed, and a client
  nobody assigned a policy is not filtered: below a silent mandatory tier,
  in both cases the answer is exactly the resolver's.
\<close>

theorem allow_and_unassigned_pass:
  assumes "en_registry e = Some reg" "en_classifier e = Some cl"
    and "m_Question (rq_Msg req) = q # qs" and "mandatory_silent L reg (q_Name q)"
    and "(\<exists>ov r. OverridesFor reg (sub_ID (classifier_Classify cl (rq_Client req))) = Some ov
            \<and> set_Match L (ov_Allow ov) (q_Name q) = Some (Some r))
         \<or> (OverridesFor reg (sub_ID (classifier_Classify cl (rq_Client req))) = None
            \<and> reg_For reg (sub_Class (classifier_Classify cl (rq_Client req))) = None)"
    and "next req s = Some (resp, s')"
  shows "\<exists>mt'. en_ServeDNS L e next req (mt, s) = Some (resp, (mt', s'))"
  using assms(5)
proof (elim disjE exE conjE)
  fix ov r assume "OverridesFor reg (sub_ID (classifier_Classify cl (rq_Client req))) = Some ov"
    "set_Match L (ov_Allow ov) (q_Name q) = Some (Some r)"
  then show ?thesis
    using assms by (simp add: en_ServeDNS_def en_lookup_allow [OF assms(4)] Let_def)
next
  assume "OverridesFor reg (sub_ID (classifier_Classify cl (rq_Client req))) = None"
    "reg_For reg (sub_Class (classifier_Classify cl (rq_Client req))) = None"
  then show ?thesis
    using assms by (simp add: en_ServeDNS_def en_lookup_unassigned [OF assms(4)] Let_def)
qed

theorem allow_and_unassigned_pass_witness:
  "\<exists>mt'. en_ServeDNS ref_lib
      \<lparr>en_classifier = Some (classifier_New ''base''), en_registry = Some NewRegistry\<rparr>
      (\<lambda>req s. Some (Some (reply_to (rq_Msg req)), s)) (test_query ''a.b'') (zero_metrics, ())
    = Some (Some (reply_to (rq_Msg (test_query ''a.b''))), (mt', ()))"
proof -
  have m: "mandatory_silent ref_lib NewRegistry n" for n
    by (simp add: mandatory_silent_def Mandatory_def NewRegistry_def)
  have n: "OverridesFor NewRegistry i = None \<and> reg_For NewRegistry c = None" for i c
    by (simp add: OverridesFor_def reg_For_def NewRegistry_def)
  show ?thesis
    by (rule allow_and_unassigned_pass [where reg = NewRegistry and cl = "classifier_New ''base''"
          and q = "\<lparr>q_Name = ''a.b'', q_Qtype = TypeA, q_Qclass = ClassINET\<rparr>" and qs = "[]"])
       (simp_all add: m n test_query_def)
qed

lemma m_AD_addEDE [simp]: "m_AuthenticatedData (addEDE m c t) = m_AuthenticatedData m"
  "m_Rcode (addEDE m c t) = m_Rcode m" "m_Answer (addEDE m c t) = m_Answer m"
  by (simp_all add: addEDE_def)

lemma redirectRR_shape:
  "x \<in> set (redirectRR q ttl a) \<Longrightarrow>
   rh_Rrtype (rr_hdr x) = q_Qtype q \<and> rh_Name (rr_hdr x) = q_Name q \<and> rh_Ttl (rr_hdr x) = ttl
   \<and> (rr_data x = RA (As4 a) \<and> Is4 a \<or> rr_data x = RAAAA (As16 a) \<and> Is6 a)"
  by (auto simp: redirectRR_def split: if_splits)

text \<open>
  What a policy answer looks like: a drop sends nothing; any other
  action sends a reply that never claims to be authenticated; a block
  carries NXDOMAIN (or NODATA) and extended error 15; a redirect answers
  only with walled-garden addresses of the family asked for, under the
  queried name, with the rule's TTL or 60 seconds when it has none.
\<close>

theorem policy_answer_shape:
  "(fst (en_apply L req q r mt) = None \<longleftrightarrow> r_Action r = ActionDrop)
   \<and> (\<forall>m. fst (en_apply L req q r mt) = Some m \<longrightarrow> \<not> m_AuthenticatedData m
        \<and> (r_Action r = ActionNXDOMAIN \<longrightarrow> m_Rcode m = RcodeNameError)
        \<and> (r_Action r \<in> {ActionNXDOMAIN, ActionNODATA} \<longrightarrow>
             (\<exists>o' t. last (m_Extra m) = o' \<and> rr_data o' = ROPT 1232 [EDE 15 t])
             \<and> m_Answer m = m_Answer (SetReply L (rq_Msg req)))
        \<and> (r_Action r = ActionRedirect \<longrightarrow>
             (\<exists>rrs. m_Answer m = m_Answer (SetReply L (rq_Msg req)) @ rrs
               \<and> (\<forall>x \<in> set rrs. rh_Rrtype (rr_hdr x) = q_Qtype q \<and> rh_Name (rr_hdr x) = q_Name q
                    \<and> rh_Ttl (rr_hdr x) = (if r_TTL r = 0 then 60 else r_TTL r)
                    \<and> (\<exists>a \<in> set (r_Addrs r). rr_data x = RA (As4 a) \<and> Is4 a
                          \<or> rr_data x = RAAAA (As16 a) \<and> Is6 a)))))"
proof (cases "r_Action r")
  case ActionRedirect
  then show ?thesis
    by (auto simp: en_apply_def DefaultTTL_def Let_def dest!: redirectRR_shape)
qed (auto simp: en_apply_def addEDE_def dns_consts Let_def)

theorem policy_answer_shape_witness:
  "\<exists>m. fst (en_apply ref_lib (test_query ''a.b'') \<lparr>q_Name = ''a.b'', q_Qtype = TypeA, q_Qclass = ClassINET\<rparr>
       blk zero_metrics) = Some m \<and> \<not> m_AuthenticatedData m \<and> m_Rcode m = RcodeNameError"
  using policy_answer_shape [of ref_lib "test_query ''a.b''"
      "\<lparr>q_Name = ''a.b'', q_Qtype = TypeA, q_Qclass = ClassINET\<rparr>" blk zero_metrics]
  by (auto simp: not_None_eq [symmetric] simp del: not_None_eq)

end
