(* ===== verification/Policy_Feeds.thy ===== *)
theory Policy_Feeds
  imports Policy_Rules Gostrings
begin

text \<open>
  The feeds behind the policy rules: \<open>internal/policy/rpz.go\<close> (parsing RPZ zones and domain lists, merging), \<open>load.go\<close> (compiling feeds and
  classes, the overrides file), \<open>guard.go\<close> (what may replace a live feed) and \<open>fetch.go\<close> (refreshing it).

  A reader is its content and whether it then fails; a file that cannot be opened is \<open>None\<close>. The zone parser of
  the DNS library is a function from the origin and the content to the records it delivers and whether it stops with an
  error. URL parsing, HTTP, SHA-256 and the file system calls of a refresh are parameters, so every early return of \<open>fetchOne\<close> can
  be taken. \<open>float64\<close> ratios are rationals; the wording of an error is left out.
\<close>

type_synonym reader = "string \<times> bool"
type_synonym zone_parser = "string \<Rightarrow> string \<Rightarrow> reader \<Rightarrow> rr list \<times> bool"

datatype feed_error = RPZParse | NotADomain nat | ReadFailed | UnknownFeed string string | OpenFailed | UnknownFormat string
  | OverrideFields nat | OverrideVerb nat | UnknownAction string

section \<open>RPZ zones and domain lists\<close>

definition DefaultTTL :: u32 where
  "DefaultTTL = 60"

definition stripZone :: "dnslib \<Rightarrow> string \<Rightarrow> string \<Rightarrow> (string \<times> bool) option" where
  "stripZone L owner zone =
     (if owner = zone then None
      else if \<not> suffix (CHR ''.'' # zone) owner \<and> \<not> suffix zone owner then None
      else let trimmed = TrimSuffix (TrimSuffix owner zone) ''.'' in
        if trimmed = [] then None
        else if prefix ''*.'' trimmed then Some (Fqdn L (TrimPrefix trimmed ''*.''), True)
        else Some (Fqdn L trimmed, False))"

definition rule0 :: "string \<Rightarrow> u32 \<Rightarrow> rule" where
  "rule0 feed ttl = \<lparr>r_Action = ActionNone, r_Addrs = [], r_Target = [], r_Feed = feed, r_TTL = ttl\<rparr>"

definition ruleFromRR :: "dnslib \<Rightarrow> rr \<Rightarrow> string \<Rightarrow> rule option" where
  "ruleFromRR L r feed =
     (let ttl = (if rh_Ttl (rr_hdr r) = 0 then DefaultTTL else rh_Ttl (rr_hdr r)); base = rule0 feed ttl in
      case rr_data r of
        RCNAME t \<Rightarrow>
          let target = CanonicalName L t in
          if target = ''.'' then Some (base\<lparr>r_Action := ActionNXDOMAIN\<rparr>)
          else if target = ''*.'' then Some (base\<lparr>r_Action := ActionNODATA\<rparr>)
          else if target = ''rpz-passthru.'' then Some (base\<lparr>r_Action := ActionPassthru\<rparr>)
          else if target = ''rpz-drop.'' then Some (base\<lparr>r_Action := ActionDrop\<rparr>)
          else if prefix ''rpz-'' target then None
          else Some (base\<lparr>r_Action := ActionRewrite, r_Target := target\<rparr>)
      | RA ip \<Rightarrow> (case Option.bind (To4 ip) AddrFromSlice of
            None \<Rightarrow> None | Some a \<Rightarrow> Some (base\<lparr>r_Action := ActionRedirect, r_Addrs := [a]\<rparr>))
      | RAAAA ip \<Rightarrow> (case Option.bind (To16 ip) AddrFromSlice of
            None \<Rightarrow> None | Some a \<Rightarrow> Some (base\<lparr>r_Action := ActionRedirect, r_Addrs := [Unmap a]\<rparr>))
      | _ \<Rightarrow> None)"

fun rpz_loop :: "dnslib \<Rightarrow> string \<Rightarrow> string \<Rightarrow> rr list \<Rightarrow> string \<Rightarrow> polset \<Rightarrow> polset" where
  "rpz_loop L zoneName feed [] origin s = s"
| "rpz_loop L zoneName feed (r # rs) origin s =
     (let owner = CanonicalName L (rh_Name (rr_hdr r)) in
      case rr_data r of
        RSOA _ _ _ \<Rightarrow> rpz_loop L zoneName feed rs (if zoneName = [] then owner else origin) s
      | RNS _ \<Rightarrow> rpz_loop L zoneName feed rs origin s
      | _ \<Rightarrow> (case stripZone L owner origin of
            None \<Rightarrow> rpz_loop L zoneName feed rs origin s
          | Some (policed, wildcard) \<Rightarrow> (case ruleFromRR L r feed of
                None \<Rightarrow> rpz_loop L zoneName feed rs origin s
              | Some rl \<Rightarrow> rpz_loop L zoneName feed rs origin
                  (if wildcard then AddWildcard L policed rl s else AddExact L policed rl s))))"

definition ParseRPZ :: "dnslib \<Rightarrow> zone_parser \<Rightarrow> reader \<Rightarrow> string \<Rightarrow> string \<Rightarrow> feed_error + polset" where
  "ParseRPZ L zp r zoneName feed =
     (let origin0 = CanonicalName L zoneName;
          origin = (if origin0 = ''.'' then ''rpz.invalid.'' else origin0);
          (rrs, err) = zp origin feed r;
          s = rpz_loop L zoneName feed rrs origin NewSet
      in if err then Inl RPZParse else Inr s)"

definition hostname_char :: "char \<Rightarrow> bool" where
  "hostname_char c = (char_in CHR ''a'' CHR ''z'' c \<or> char_in CHR ''A'' CHR ''Z'' c \<or> char_in CHR ''0'' CHR ''9'' c
     \<or> c = CHR ''.'' \<or> c = CHR ''-'' \<or> c = CHR ''_'')"

definition plausibleDomain :: "string \<Rightarrow> bool" where
  "plausibleDomain text =
     (if text = [] \<or> length text > 253 then False
      else if \<not> list_all hostname_char text then False
      else CHR ''.'' \<in> set (TrimSuffix text ''.''))"

text \<open>What one line of a domain list asks to block: nothing, a name, or an error.\<close>

definition list_entry :: "(string \<Rightarrow> bool) \<Rightarrow> string \<Rightarrow> string option" where
  "list_entry isAddr raw =
     (let text0 = TrimSpace raw in
      if text0 = [] \<or> prefix ''#'' text0 \<or> prefix ''!'' text0 then None
      else let fields = strFields text0;
               text1 = (if length fields = 2 \<and> isAddr (fields ! 0) then fields ! 1 else text0);
               text = TrimPrefix text1 ''*.''
           in if text = [] \<or> text = ''.'' then None else Some text)"

fun list_loop :: "dnslib \<Rightarrow> (string \<Rightarrow> bool) \<Rightarrow> rule \<Rightarrow> nat \<Rightarrow> string list \<Rightarrow> polset \<Rightarrow> feed_error + polset" where
  "list_loop L isAddr rl line [] s = Inr s"
| "list_loop L isAddr rl line (raw # rest) s = (case list_entry isAddr raw of
       None \<Rightarrow> list_loop L isAddr rl (Suc line) rest s
     | Some text \<Rightarrow>
         if \<not> plausibleDomain text then Inl (NotADomain (Suc line))
         else let name = CanonicalName L text in
           list_loop L isAddr rl (Suc line) rest (AddWildcard L name rl (AddExact L name rl s)))"

definition ParseDomainList :: "dnslib \<Rightarrow> (string \<Rightarrow> bool) \<Rightarrow> reader \<Rightarrow> string \<Rightarrow> action \<Rightarrow> addr list \<Rightarrow> feed_error + polset" where
  "ParseDomainList L isAddr r feed act redirect =
     (let (ls, err) = scan_lines 1048576 r in
      case list_loop L isAddr ((rule0 feed DefaultTTL)\<lparr>r_Action := act, r_Addrs := redirect\<rparr>) 0 ls NewSet of
        Inl e \<Rightarrow> Inl e
      | Inr s \<Rightarrow> if err then Inl ReadFailed else Inr s)"

definition set_Merge :: "polset \<Rightarrow> polset option \<Rightarrow> polset" where
  "set_Merge s other = (case other of
       None \<Rightarrow> s
     | Some t \<Rightarrow> s\<lparr>set_exact := set_exact t ++\<^sub>f set_exact s, set_wild := set_wild t ++\<^sub>f set_wild s\<rparr>)"

section \<open>Compiling feeds and classes\<close>

record feed_entry =
  fd_Name :: string
  fd_Action :: action
  fd_To :: "addr list"

record feed_spec =
  fs_Name :: string
  fs_Format :: string
  fs_File :: string
  fs_RPZZone :: string
  fs_Entries :: "feed_entry list"

definition FormatDomainList :: string where "FormatDomainList = ''domain-list''"
definition FormatRPZ :: string where "FormatRPZ = ''rpz''"

record class_spec =
  cs_Name :: string
  cs_Feeds :: "string list"
  cs_Action :: action
  cs_RedirectTo :: "addr list"

definition entrySet :: "dnslib \<Rightarrow> feed_spec \<Rightarrow> polset" where
  "entrySet L f = foldl (\<lambda>s e.
      let rl = (rule0 (fs_Name f) 0)\<lparr>r_Action := fd_Action e, r_Addrs := fd_To e\<rparr>; n = CanonicalName L (fd_Name e)
      in AddWildcard L n rl (AddExact L n rl s)) NewSet (fs_Entries f)"

text \<open>What the parsers need of the world: the zone parser, \<open>netip.ParseAddr\<close> and the files.\<close>

record feed_env =
  fe_zone :: zone_parser
  fe_isAddr :: "string \<Rightarrow> bool"
  fe_open :: "string \<Rightarrow> reader option"

definition compileFeedFile :: "dnslib \<Rightarrow> feed_env \<Rightarrow> feed_spec \<Rightarrow> feed_error + polset" where
  "compileFeedFile L E f = (case fe_open E (fs_File f) of
       None \<Rightarrow> Inl OpenFailed
     | Some r \<Rightarrow>
         if fs_Format f = FormatRPZ then ParseRPZ L (fe_zone E) r (fs_RPZZone f) (fs_Name f)
         else if fs_Format f = FormatDomainList \<or> fs_Format f = [] then ParseDomainList L (fe_isAddr E) r (fs_Name f) ActionNXDOMAIN []
         else Inl (UnknownFormat (fs_Format f)))"

definition compileFeed :: "dnslib \<Rightarrow> feed_env \<Rightarrow> feed_spec \<Rightarrow> feed_error + polset" where
  "compileFeed L E f =
     (if fs_File f = [] then Inr (entrySet L f)
      else case compileFeedFile L E f of
        Inl e \<Rightarrow> Inl e
      | Inr s \<Rightarrow> Inr (set_Merge s (Some (entrySet L f))))"

fun compile_feeds :: "dnslib \<Rightarrow> feed_env \<Rightarrow> feed_spec list \<Rightarrow> (string \<rightharpoonup> polset) \<Rightarrow> feed_error + (string \<rightharpoonup> polset)" where
  "compile_feeds L E [] m = Inr m"
| "compile_feeds L E (f # fs) m = (case compileFeed L E f of
       Inl e \<Rightarrow> Inl e
     | Inr s \<Rightarrow> compile_feeds L E fs (m(fs_Name f \<mapsto> s)))"

fun merge_feeds :: "(string \<rightharpoonup> polset) \<Rightarrow> string \<Rightarrow> string list \<Rightarrow> polset \<Rightarrow> feed_error + polset" where
  "merge_feeds compiled cls [] rules = Inr rules"
| "merge_feeds compiled cls (name # names) rules = (case compiled name of
       None \<Rightarrow> Inl (UnknownFeed cls name)
     | Some s \<Rightarrow> merge_feeds compiled cls names (set_Merge rules (Some s)))"

fun compile_classes :: "(string \<rightharpoonup> polset) \<Rightarrow> class_spec list \<Rightarrow> (string \<rightharpoonup> policy) \<Rightarrow> feed_error + (string \<rightharpoonup> policy)" where
  "compile_classes compiled [] out = Inr out"
| "compile_classes compiled (c # cs) out = (case merge_feeds compiled (cs_Name c) (cs_Feeds c) NewSet of
       Inl e \<Rightarrow> Inl e
     | Inr rules \<Rightarrow> compile_classes compiled cs
         (out(cs_Name c \<mapsto> \<lparr>pol_Class = cs_Name c, pol_Rules = Some rules, pol_RedirectTo = cs_RedirectTo c, pol_Feeds = cs_Feeds c\<rparr>)))"

definition Compile :: "dnslib \<Rightarrow> feed_env \<Rightarrow> feed_spec list \<Rightarrow> class_spec list \<Rightarrow> feed_error + (string \<rightharpoonup> policy)" where
  "Compile L E feeds classes = (case compile_feeds L E feeds Map.empty of
       Inl e \<Rightarrow> Inl e
     | Inr compiled \<Rightarrow> compile_classes compiled classes Map.empty)"

section \<open>The overrides file\<close>

definition new_overrides :: overrides where
  "new_overrides = \<lparr>ov_Allow = Some NewSet, ov_Block = Some NewSet\<rparr>"

definition add_both :: "dnslib \<Rightarrow> string \<Rightarrow> rule \<Rightarrow> polset option \<Rightarrow> polset option" where
  "add_both L domain r s = map_option (\<lambda>t. AddWildcard L domain r (AddExact L domain r t)) s"

fun override_loop :: "dnslib \<Rightarrow> nat \<Rightarrow> string list \<Rightarrow> (string \<rightharpoonup> overrides) \<Rightarrow> feed_error + (string \<rightharpoonup> overrides)" where
  "override_loop L line [] out = Inr out"
| "override_loop L line (raw # rest) out =
     (let text = TrimSpace raw in
      if text = [] \<or> prefix ''#'' text then override_loop L (Suc line) rest out
      else let fields = strFields text in
        if length fields \<noteq> 3 then Inl (OverrideFields (Suc line))
        else
          let id = fields ! 0; verb = ToLower (fields ! 1); domain = TrimPrefix (fields ! 2) ''*.'' in
          if \<not> plausibleDomain domain then Inl (NotADomain (Suc line))
          else
            let ov = (case out id of Some ov \<Rightarrow> ov | None \<Rightarrow> new_overrides); base = rule0 (''override:'' @ id) 0 in
            if verb = ''allow''
            then override_loop L (Suc line) rest (out(id \<mapsto> ov\<lparr>ov_Allow := add_both L domain (base\<lparr>r_Action := ActionPassthru\<rparr>) (ov_Allow ov)\<rparr>))
            else if verb = ''block''
            then override_loop L (Suc line) rest (out(id \<mapsto> ov\<lparr>ov_Block := add_both L domain (base\<lparr>r_Action := ActionNXDOMAIN\<rparr>) (ov_Block ov)\<rparr>))
            else Inl (OverrideVerb (Suc line)))"

definition LoadOverridesFile :: "dnslib \<Rightarrow> reader option \<Rightarrow> feed_error + (string \<rightharpoonup> overrides)" where
  "LoadOverridesFile L file = (case file of
       None \<Rightarrow> Inl OpenFailed
     | Some r \<Rightarrow>
         let (ls, err) = scan_lines 65536 r in
         (case override_loop L 0 ls Map.empty of
            Inl e \<Rightarrow> Inl e
          | Inr out \<Rightarrow> if err then Inl ReadFailed else Inr out))"

definition ParseAction :: "string \<Rightarrow> feed_error + action" where
  "ParseAction s =
     (let t = ToLower s in
      if t = ''nxdomain'' \<or> t = [] then Inr ActionNXDOMAIN
      else if t = ''nodata'' then Inr ActionNODATA
      else if t = ''redirect'' then Inr ActionRedirect
      else if t = ''drop'' then Inr ActionDrop
      else Inl (UnknownAction s))"

section \<open>The guard\<close>

record guard =
  gd_MaxChangeRatio :: rat
  gd_MinRules :: int
  gd_Protected :: "string list"

datatype guard_reason = NoReason | BelowMinimum | MovedTooFar

record guard_result =
  gr_Accepted :: bool
  gr_Reason :: guard_reason
  gr_NewRules :: int
  gr_OldRules :: int
  gr_Stripped :: "string list"

definition protected_set :: "dnslib \<Rightarrow> string list \<Rightarrow> string set" where
  "protected_set L ps = set (map (CanonicalName L) ps)"

text \<open>The name a line is about, for both readers of it.\<close>

definition line_name :: "dnslib \<Rightarrow> string \<Rightarrow> string option" where
  "line_name L l = (case strFields l of [] \<Rightarrow> None | f # _ \<Rightarrow> Some (CanonicalName L (TrimSuffix f ''.'')))"

definition counted :: "string \<Rightarrow> bool" where
  "counted l = (let t = TrimSpace l in \<not> (t = [] \<or> prefix '';'' t \<or> prefix ''#'' t \<or> prefix ''$'' t \<or> prefix ''@'' t))"

fun scan_loop :: "dnslib \<Rightarrow> string set \<Rightarrow> string list \<Rightarrow> int \<Rightarrow> string list \<Rightarrow> int \<times> string list" where
  "scan_loop L want [] n hits = (n, hits)"
| "scan_loop L want (l # ls) n hits =
     (if \<not> counted l then scan_loop L want ls n hits
      else if want = {} then scan_loop L want ls (n + 1) hits
      else case line_name L (TrimSpace l) of
        None \<Rightarrow> scan_loop L want ls (n + 1) hits
      | Some name \<Rightarrow> scan_loop L want ls (n + 1) (if name \<in> want then hits @ [name] else hits))"

definition guard_scan :: "dnslib \<Rightarrow> reader \<Rightarrow> string list \<Rightarrow> int \<times> string list \<times> bool" where
  "guard_scan L r protected =
     (let (ls, err) = scan_lines 4194304 r; (n, hits) = scan_loop L (protected_set L protected) ls 0 [] in (n, hits, err))"

definition guard_Check :: "dnslib \<Rightarrow> guard \<Rightarrow> reader \<Rightarrow> reader option \<Rightarrow> guard_result option" where
  "guard_Check L g incoming live =
     (let (newCount, hits, err) = guard_scan L incoming (gd_Protected g) in
      if err then None
      else
        let res = \<lparr>gr_Accepted = False, gr_Reason = NoReason, gr_NewRules = newCount, gr_OldRules = 0, gr_Stripped = hits\<rparr> in
        if gd_MinRules g > 0 \<and> newCount < gd_MinRules g then Some (res\<lparr>gr_Reason := BelowMinimum\<rparr>)
        else
          let oldCount = (case live of None \<Rightarrow> 0 | Some r \<Rightarrow> fst (guard_scan L r []));
              res1 = res\<lparr>gr_OldRules := oldCount\<rparr>
          in if oldCount = 0 then Some (res1\<lparr>gr_Accepted := True\<rparr>)
             else if gd_MaxChangeRatio g > 0 \<and> \<bar>of_int (newCount - oldCount) / of_int oldCount\<bar> > gd_MaxChangeRatio g
             then Some (res1\<lparr>gr_Reason := MovedTooFar\<rparr>)
             else Some (res1\<lparr>gr_Accepted := True\<rparr>))"

partial_function (option) coveredByProtected :: "dnslib \<Rightarrow> string set \<Rightarrow> string \<Rightarrow> bool option" where
  "coveredByProtected L want suf =
     (if suf = ''.'' \<or> suf = [] then Some False
      else if suf \<in> want then Some True
      else case NextLabel L suf 0 of (i, fin) \<Rightarrow> if fin then Some False else coveredByProtected L want (drop i suf))"

definition strips :: "dnslib \<Rightarrow> string set \<Rightarrow> string \<Rightarrow> bool option" where
  "strips L want l =
     (let t = TrimSpace l in
      if t = [] \<or> prefix '';'' t \<or> prefix ''#'' t then Some False
      else case line_name L t of
        None \<Rightarrow> Some False
      | Some name \<Rightarrow> if name \<in> want then Some True else coveredByProtected L want name)"

text \<open>The buffered writer reports a failure at the write that has to flush; \<open>fails k\<close> says that the write at offset
  \<open>k\<close> does. What the last, deferred flush meets is not reported.\<close>

fun strip_loop :: "dnslib \<Rightarrow> string set \<Rightarrow> (nat \<Rightarrow> bool) \<Rightarrow> string list \<Rightarrow> nat \<Rightarrow> string \<Rightarrow> (nat \<times> string \<times> bool) option" where
  "strip_loop L want fails [] removed out = Some (removed, out, False)"
| "strip_loop L want fails (l # ls) removed out = do {
     s \<leftarrow> strips L want l;
     if s then strip_loop L want fails ls (Suc removed) out
     else if fails (length out) then Some (removed, out, True)
     else strip_loop L want fails ls removed (out @ l @ [CHR 0x0A]) }"

definition StripProtected :: "dnslib \<Rightarrow> (nat \<Rightarrow> bool) \<Rightarrow> reader \<Rightarrow> string list \<Rightarrow> (nat \<times> string \<times> bool) option" where
  "StripProtected L fails r protected =
     (let (ls, err) = scan_lines 4194304 r in
      map_option (\<lambda>(n, out, werr). (n, out, werr \<or> err)) (strip_loop L (protected_set L protected) fails ls 0 []))"

section \<open>Refreshing a feed\<close>

record fetch_metrics =
  fm_Attempts :: nat
  fm_Updated :: nat
  fm_Unchanged :: nat
  fm_Failures :: nat
  fm_Rejected :: nat
  fm_Protected :: nat
  fm_HashMismatches :: nat
  fm_LastSuccess :: int

record pfeed =
  pf_Name :: string
  pf_URL :: string
  pf_SHA256 :: string

record fetcher_options =
  fo_Dir :: string
  fo_MaxBytes :: int
  fo_Timeout :: duration
  fo_Guard :: guard

datatype fetch_error = BadURL | ErrInsecureFeed | BadScheme string | RequestFailed | BadStatus int | TempFailed | CopyFailed
  | TooLarge | EmptyFeed | ErrHashMismatch | CheckFailed | GuardRejected guard_reason | StripFailed | InstallFailed

text \<open>The calls out of a refresh: \<open>url.Parse\<close> (its scheme), building and sending the request (status and body), SHA-256 in
  hexadecimal, which file system step succeeds, the buffered writer, how many bytes of the stripped content the deferred flush leaves in the
  file, and the time.\<close>

datatype fs_step = StepRequest | StepCreate | StepCopy | StepSeek | StepHashLive | StepReadBack | StepOpenLive | StepSeekStrip | StepCreateClean
  | StepCloseClean | StepChmodClean | StepRenameClean | StepClose | StepChmod | StepRename

record fetch_world =
  fw_scheme :: "string \<Rightarrow> string option"
  fw_do :: "pfeed \<Rightarrow> (int \<times> reader) option"
  fw_sha :: "string \<Rightarrow> string"
  fw_ok :: "fs_step \<Rightarrow> bool"
  fw_fails :: "nat \<Rightarrow> bool"
  fw_kept :: "string \<Rightarrow> nat"
  fw_unix :: int

type_synonym fetch_state = "(string \<rightharpoonup> string) \<times> fetch_metrics"

definition NewFetcher :: "bool \<Rightarrow> fetcher_options \<Rightarrow> fetcher_options option" where
  "NewFetcher mkdirOK o0 =
     (if fo_Dir o0 = [] then None
      else
        let o1 = (if fo_MaxBytes o0 \<le> 0 then o0\<lparr>fo_MaxBytes := 256 * 2 ^ 20\<rparr> else o0);
            o2 = (if fo_Timeout o1 \<le> 0 then o1\<lparr>fo_Timeout := 120 * second\<rparr> else o1)
        in if \<not> mkdirOK then None else Some o2)"

definition safe_char :: "char \<Rightarrow> bool" where
  "safe_char c = (char_in CHR ''a'' CHR ''z'' c \<or> char_in CHR ''0'' CHR ''9'' c \<or> c = CHR ''-'' \<or> c = CHR ''_'' \<or> c = CHR ''.'')"

definition sanitiseName :: "string \<Rightarrow> string" where
  "sanitiseName name0 =
     (let out = TrimSet {CHR ''.''} (map (\<lambda>c. if safe_char c then c else CHR ''_'') (TrimSpace (ToLower name0)))
      in if out = [] then ''unnamed'' else out)"

text \<open>\<open>filepath.Join\<close> of a clean directory and a single clean element.\<close>

definition feed_Path :: "fetcher_options \<Rightarrow> string \<Rightarrow> string" where
  "feed_Path opts name = fo_Dir opts @ ''/'' @ sanitiseName name"

definition EqualFold :: "string \<Rightarrow> string \<Rightarrow> bool" where
  "EqualFold a b = (ToLower a = ToLower b)"

definition install :: "fetch_world \<Rightarrow> string \<Rightarrow> string \<Rightarrow> fetch_state \<Rightarrow> (bool \<times> fetch_error option) \<times> fetch_state" where
  "install W dst content st = (case st of (files, m) \<Rightarrow>
     ((True, None), files(dst \<mapsto> content), m\<lparr>fm_Updated := Suc (fm_Updated m), fm_LastSuccess := fw_unix W\<rparr>))"

definition bail :: "fetch_error \<Rightarrow> fetch_state \<Rightarrow> (bool \<times> fetch_error option) \<times> fetch_state" where
  "bail e st = ((False, Some e), st)"

text \<open>The last part of \<open>fetchOne\<close>: a guarded download goes live, stripped if the guard saw a protected name.\<close>

definition go_live :: "dnslib \<Rightarrow> fetch_world \<Rightarrow> fetcher_options \<Rightarrow> string \<Rightarrow> string \<Rightarrow> fetch_state
    \<Rightarrow> ((bool \<times> fetch_error option) \<times> fetch_state) option" where
  "go_live L W opts dst content st = (case st of (files, m) \<Rightarrow>
     if \<not> fw_ok W StepSeek then Some (bail TempFailed st)
     else case guard_Check L (fo_Guard opts) (content, \<not> fw_ok W StepReadBack)
         (if fw_ok W StepOpenLive then map_option (\<lambda>c. (c, False)) (files dst) else None) of
       None \<Rightarrow> Some (bail CheckFailed st)
     | Some verdict \<Rightarrow>
         if \<not> gr_Accepted verdict
         then Some (bail (GuardRejected (gr_Reason verdict)) (files, m\<lparr>fm_Rejected := Suc (fm_Rejected m)\<rparr>))
         else if length (gr_Stripped verdict) > 0
         then
           let st1 = (files, m\<lparr>fm_Protected := fm_Protected m + length (gr_Stripped verdict)\<rparr>) in
           if \<not> fw_ok W StepSeekStrip then Some (bail TempFailed st1)
           else if \<not> fw_ok W StepCreateClean then Some (bail TempFailed st1)
           else (case StripProtected L (fw_fails W) (content, \<not> fw_ok W StepReadBack) (gd_Protected (fo_Guard opts)) of
               None \<Rightarrow> None
             | Some (removed, out, err) \<Rightarrow>
                 if err then Some (bail StripFailed st1)
                 else if \<not> fw_ok W StepCloseClean then Some (bail InstallFailed st1)
                 else if \<not> fw_ok W StepChmodClean then Some (bail InstallFailed st1)
                 else if \<not> fw_ok W StepRenameClean then Some (bail InstallFailed st1)
                 else Some (install W dst (take (fw_kept W out) out) st1))
         else if \<not> fw_ok W StepClose then Some (bail InstallFailed st)
         else if \<not> fw_ok W StepChmod then Some (bail InstallFailed st)
         else if \<not> fw_ok W StepRename then Some (bail InstallFailed st)
         else Some (install W dst content st))"

definition fetchOne :: "dnslib \<Rightarrow> fetch_world \<Rightarrow> fetcher_options \<Rightarrow> pfeed \<Rightarrow> fetch_state
    \<Rightarrow> ((bool \<times> fetch_error option) \<times> fetch_state) option" where
  "fetchOne L W opts feed st0 = (case st0 of (files, m0) \<Rightarrow>
     let m = m0\<lparr>fm_Attempts := Suc (fm_Attempts m0)\<rparr>; st = (files, m) in
     case fw_scheme W (pf_URL feed) of
       None \<Rightarrow> Some (bail BadURL st)
     | Some scheme \<Rightarrow>
         if scheme \<noteq> ''https'' \<and> scheme \<noteq> ''http'' then Some (bail (BadScheme scheme) st)
         else if scheme = ''http'' \<and> pf_SHA256 feed = [] then Some (bail ErrInsecureFeed st)
         else if \<not> fw_ok W StepRequest then Some (bail RequestFailed st)
         else case fw_do W feed of
           None \<Rightarrow> Some (bail RequestFailed st)
         | Some (code, body, readErr) \<Rightarrow>
             if code \<noteq> 200 then Some (bail (BadStatus code) st)
             else if \<not> fw_ok W StepCreate then Some (bail TempFailed st)
             else
               let content = take (nat (fo_MaxBytes opts + 1)) body; written = int (length content) in
               if readErr \<and> int (length body) \<le> fo_MaxBytes opts \<or> \<not> fw_ok W StepCopy then Some (bail CopyFailed st)
               else if written > fo_MaxBytes opts then Some (bail TooLarge st)
               else if written = 0 then Some (bail EmptyFeed st)
               else
                 let got = fw_sha W content; dst = feed_Path opts (pf_Name feed) in
                 if pf_SHA256 feed \<noteq> [] \<and> \<not> EqualFold got (pf_SHA256 feed)
                 then Some (bail ErrHashMismatch (files, m\<lparr>fm_HashMismatches := Suc (fm_HashMismatches m)\<rparr>))
                 else if fw_ok W StepHashLive \<and> (case files dst of Some c \<Rightarrow> EqualFold (fw_sha W c) got | None \<Rightarrow> False)
                 then Some ((False, None), files, m\<lparr>fm_Unchanged := Suc (fm_Unchanged m), fm_LastSuccess := fw_unix W\<rparr>)
                 else go_live L W opts dst content st)"

record fetch_result =
  fr_Name :: string
  fr_Path :: string
  fr_Updated :: bool
  fr_Err :: "fetch_error option"

fun feeds_Refresh :: "dnslib \<Rightarrow> fetch_world \<Rightarrow> fetcher_options \<Rightarrow> pfeed list \<Rightarrow> fetch_state \<Rightarrow> (fetch_result list \<times> fetch_state) option" where
  "feeds_Refresh L W opts [] st = Some ([], st)"
| "feeds_Refresh L W opts (f # fs) st =
     (if pf_URL f = [] then feeds_Refresh L W opts fs st
      else do {
        ((updated, err), st1) \<leftarrow> fetchOne L W opts f st;
        let st2 = (if err \<noteq> None then (fst st1, (snd st1)\<lparr>fm_Failures := Suc (fm_Failures (snd st1))\<rparr>) else st1);
        (rs, st3) \<leftarrow> feeds_Refresh L W opts fs st2;
        Some (\<lparr>fr_Name = pf_Name f, fr_Path = feed_Path opts (pf_Name f), fr_Updated = updated, fr_Err = err\<rparr> # rs, st3) })"

end
