(* ===== verification/Policy_Feeds_Correct.thy ===== *)
theory Policy_Feeds_Correct
  imports Policy_Feeds
begin

text \<open>
  What the feed pipeline guarantees: a domain list blocks exactly the subtrees it names, a class takes each rule from the first of its feeds
  that has one, a refresh replaces the live copy only with content that passed every check, and the protected names are
  removed from content that is stripped.
\<close>

section \<open>Domain lists\<close>

definition listed :: "dnslib \<Rightarrow> (string \<Rightarrow> bool) \<Rightarrow> string list \<Rightarrow> string set" where
  "listed L isAddr ls = {CanonicalName L t | t. \<exists>l \<in> set ls. list_entry isAddr l = Some t}"

lemma listed_simps [simp]: "listed L isAddr [] = {}"
  "listed L isAddr (l # ls) = (case list_entry isAddr l of None \<Rightarrow> {} | Some t \<Rightarrow> {CanonicalName L t}) \<union> listed L isAddr ls"
  by (auto simp: listed_def split: option.splits)

lemma list_loop_maps:
  assumes "\<And>s. CanonicalName L (CanonicalName L s) = CanonicalName L s"
  shows "list_loop L isAddr rl n ls s = Inr s' \<Longrightarrow>
    fmlookup (set_exact s') x = (if x \<in> listed L isAddr ls then Some rl else fmlookup (set_exact s) x)
    \<and> fmlookup (set_wild s') x = (if x \<in> listed L isAddr ls then Some rl else fmlookup (set_wild s) x)"
proof (induction ls arbitrary: n s)
  case (Cons l ls)
  show ?case
  proof (cases "list_entry isAddr l")
    case None
    with Cons show ?thesis by simp
  next
    case (Some t)
    with Cons.prems have "list_loop L isAddr rl (Suc n) ls (AddWildcard L (CanonicalName L t) rl (AddExact L (CanonicalName L t) rl s)) = Inr s'"
      by (simp add: Let_def split: if_splits)
    from Cons.IH [OF this] Some show ?thesis
      by (auto simp: AddWildcard_def AddExact_def assms)
  qed
qed simp

context dns_names
begin

lemma match_subtrees:
  assumes q: "valid q" and s: "\<And>x. fmlookup (set_exact s) x = (if x \<in> N then Some rl else None)"
      "\<And>x. fmlookup (set_wild s) x = (if x \<in> N then Some rl else None)"
    and N: "\<And>x. x \<in> N \<Longrightarrow> valid x \<and> CanonicalName L x = x"
  shows "set_Match L (Some s) q = Some (if \<exists>x \<in> N. suffix (labels x) (labels (CanonicalName L q)) then Some rl else None)"
proof -
  let ?c = "CanonicalName L q"
  obtain res where res: "set_Match L (Some s) q = Some res" using set_Match_returns [OF q] by blast
  note spec = set_Match_spec [OF q res]
  have sub: "suffix (labels x) (labels ?c) \<longleftrightarrow> x = ?c \<or> below L labels valid x ?c" if "x \<in> N" for x
    using N [OF that] canon_valid [OF q] labels_inj [of x ?c] by (auto simp: below_def strict_suffix_def)
  show ?thesis
  proof (cases "?c \<in> N")
    case True
    with spec res show ?thesis by (auto simp: s)
  next
    case False
    with spec have m: "most_specific L labels valid (set_wild s) ?c res" by (simp add: s)
    show ?thesis
    proof (cases res)
      case None
      with m have "\<forall>x. below L labels valid x ?c \<longrightarrow> x \<notin> N" by (auto simp: most_specific_def s split: if_splits)
      with sub False res None show ?thesis by auto
    next
      case (Some r)
      with m obtain p where "below L labels valid p ?c" "p \<in> N" "r = rl" by (auto simp: most_specific_def s split: if_splits)
      with sub res Some show ?thesis by auto
    qed
  qed
qed

end

text \<open>A domain list blocks exactly the subtrees it names: once a list has been parsed, a query matches the feed's rule if and
  only if its name is one of the listed names or lies below one, whatever the case of the query and however the line was
  written (a bare name, with \<open>*.\<close> in front, or in hosts-file form); comments and blank lines block nothing.\<close>

theorem domain_list_blocks_subtrees:
  assumes "dns_names L labels valid" and "ParseDomainList L isAddr r feed act redirect = Inr s" and "valid q"
    and "\<forall>l \<in> set (fst (scan_lines 1048576 r)). \<forall>t. list_entry isAddr l = Some t \<longrightarrow> valid t"
  shows "set_Match L (Some s) q = Some
    (if \<exists>l \<in> set (fst (scan_lines 1048576 r)). \<exists>t. list_entry isAddr l = Some t \<and> suffix (labels (CanonicalName L t)) (labels (CanonicalName L q))
     then Some ((rule0 feed DefaultTTL)\<lparr>r_Action := act, r_Addrs := redirect\<rparr>) else None)"
proof -
  let ?rl = "(rule0 feed DefaultTTL)\<lparr>r_Action := act, r_Addrs := redirect\<rparr>"
  let ?ls = "fst (scan_lines 1048576 r)"
  let ?N = "listed L isAddr ?ls"
  have "list_loop L isAddr ?rl 0 ?ls NewSet = Inr s"
    using assms(2) by (auto simp: ParseDomainList_def split: prod.splits sum.splits if_splits)
  note maps = list_loop_maps [OF dns_names.canon_idem [OF assms(1)] this]
  have N: "valid x \<and> CanonicalName L x = x" if "x \<in> ?N" for x
    using that assms(4) dns_names.canon_valid [OF assms(1)] dns_names.canon_idem [OF assms(1)] by (auto simp: listed_def)
  have "set_Match L (Some s) q = Some (if \<exists>x \<in> ?N. suffix (labels x) (labels (CanonicalName L q)) then Some ?rl else None)"
    by (rule dns_names.match_subtrees [OF assms(1,3) _ _ N]) (simp_all add: maps NewSet_def)
  moreover have "(\<exists>x \<in> ?N. suffix (labels x) (labels (CanonicalName L q))) \<longleftrightarrow>
      (\<exists>l \<in> set ?ls. \<exists>t. list_entry isAddr l = Some t \<and> suffix (labels (CanonicalName L t)) (labels (CanonicalName L q)))"
    by (auto simp: listed_def)
  ultimately show ?thesis by simp
qed

section \<open>Compilation\<close>

lemma merge_feeds_first:
  "merge_feeds compiled cls names rules = Inr s \<Longrightarrow>
    set names \<subseteq> dom compiled
    \<and> fmlookup (set_exact s) x = (case fmlookup (set_exact rules) x of Some r \<Rightarrow> Some r
        | None \<Rightarrow> first_some (\<lambda>f. fmlookup (set_exact (the (compiled f))) x) names)
    \<and> fmlookup (set_wild s) x = (case fmlookup (set_wild rules) x of Some r \<Rightarrow> Some r
        | None \<Rightarrow> first_some (\<lambda>f. fmlookup (set_wild (the (compiled f))) x) names)"
proof (induction names arbitrary: rules)
  case (Cons f names)
  then obtain t where t: "compiled f = Some t" "merge_feeds compiled cls names (set_Merge rules (Some t)) = Inr s"
    by (auto split: option.splits)
  from Cons.IH [OF t(2)] t(1) show ?case
    by (auto simp: set_Merge_def dom_def fmdom'_notI split: option.splits)
qed (auto split: option.splits)

lemma compile_classes_out:
  "compile_classes compiled cs out = Inr out' \<Longrightarrow> out' cls = Some p \<Longrightarrow>
    out cls = Some p \<or> (\<exists>c \<in> set cs. cs_Name c = cls \<and> pol_Feeds p = cs_Feeds c \<and> pol_RedirectTo p = cs_RedirectTo c
       \<and> (\<exists>s. pol_Rules p = Some s \<and> merge_feeds compiled cls (cs_Feeds c) NewSet = Inr s))"
proof (induction cs arbitrary: out)
  case (Cons c cs)
  then obtain s where s: "merge_feeds compiled (cs_Name c) (cs_Feeds c) NewSet = Inr s"
    "compile_classes compiled cs (out(cs_Name c \<mapsto> \<lparr>pol_Class = cs_Name c, pol_Rules = Some s, pol_RedirectTo = cs_RedirectTo c, pol_Feeds = cs_Feeds c\<rparr>)) = Inr out'"
    by (auto split: sum.splits)
  from Cons.IH [OF s(2) Cons.prems(2)] s(1) show ?case by (auto split: if_splits)
qed simp

text \<open>Compilation respects the order of the feeds: every policy produced belongs to a configured class, all its feeds were
  compiled, and each of its rules, exact or wildcard, is the one of the first feed in the class's list that has a rule for that
  name; a feed error or an unknown feed refuses the whole compilation.\<close>

theorem compile_first_feed_wins:
  assumes "Compile L E feeds classes = Inr out" and "out cls = Some p"
  shows "\<exists>compiled c. compile_feeds L E feeds Map.empty = Inr compiled \<and> c \<in> set classes \<and> cs_Name c = cls
    \<and> set (cs_Feeds c) \<subseteq> dom compiled
    \<and> (\<forall>n. fmlookup (set_exact (the (pol_Rules p))) n = first_some (\<lambda>f. fmlookup (set_exact (the (compiled f))) n) (cs_Feeds c))
    \<and> (\<forall>n. fmlookup (set_wild (the (pol_Rules p))) n = first_some (\<lambda>f. fmlookup (set_wild (the (compiled f))) n) (cs_Feeds c))"
proof -
  obtain compiled where c: "compile_feeds L E feeds Map.empty = Inr compiled" "compile_classes compiled classes Map.empty = Inr out"
    using assms(1) by (auto simp: Compile_def split: sum.splits)
  from compile_classes_out [OF c(2) assms(2)] obtain k s where "k \<in> set classes" "cs_Name k = cls" "pol_Rules p = Some s"
    "merge_feeds compiled cls (cs_Feeds k) NewSet = Inr s" by auto
  with merge_feeds_first [OF this(4)] c(1) show ?thesis by (auto simp: NewSet_def)
qed

section \<open>Protected names\<close>

text \<open>\<open>at_or_below labels want n\<close>: the name \<open>n\<close> is a name of \<open>want\<close> other than the root, or below one.\<close>

definition at_or_below :: "(string \<Rightarrow> string list) \<Rightarrow> string set \<Rightarrow> string \<Rightarrow> bool" where
  "at_or_below labels want n \<longleftrightarrow> (\<exists>p \<in> want. p \<noteq> ''.'' \<and> suffix (labels p) (labels n))"

context dns_names
begin

lemma covered_spec:
  assumes W: "\<And>p. p \<in> want \<Longrightarrow> valid p \<and> CanonicalName L p = p"
  shows "valid n \<Longrightarrow> CanonicalName L n = n \<Longrightarrow> coveredByProtected L want n = Some (at_or_below labels want n)"
proof (induction "length (labels n)" arbitrary: n rule: less_induct)
  case less
  note V = less.prems
  show ?case
  proof (cases "n = ''.''")
    case True
    with W labels_Nil have "\<not> at_or_below labels want n" by (auto simp: at_or_below_def)
    with True show ?thesis by (simp add: coveredByProtected.simps [of L want "''.''"])
  next
    case False
    then have ne: "n \<noteq> []" "labels n \<noteq> []" using V canon_nonempty [of n] labels_Nil [OF V] by auto
    show ?thesis
    proof (cases "n \<in> want")
      case True
      with False ne show ?thesis by (auto simp: coveredByProtected.simps [of L want n] at_or_below_def)
    next
      case notin: False
      have eq: "labels p = labels n \<Longrightarrow> p \<notin> want" for p using labels_inj [of p n] W V notin by blast
      obtain i e where step: "NextLabel L n 0 = (i, e)" by fastforce
      obtain l ls where nl: "labels n = l # ls" using ne by (cases "labels n") auto
      show ?thesis
      proof (cases e)
        case True
        then have "ls = []" using next_end [OF V False] step nl by simp
        then have "\<not> at_or_below labels want n" using eq W labels_Nil nl by (auto simp: at_or_below_def suffix_Cons)
        with True step ne False notin show ?thesis by (simp add: coveredByProtected.simps [of L want n])
      next
        case False
        then have "NextLabel L n 0 = (i, False)" using step by simp
        note N = next_label [OF V this]
        have "coveredByProtected L want (drop i n) = Some (at_or_below labels want (drop i n))"
          by (rule less.hyps) (use N nl False step in auto)
        moreover have "at_or_below labels want (drop i n) = at_or_below labels want n"
          using N nl False step eq by (auto simp: at_or_below_def suffix_Cons)
        ultimately show ?thesis using step False ne \<open>n \<noteq> ''.''\<close> notin by (simp add: coveredByProtected.simps [of L want n])
      qed
    qed
  qed
qed

lemma strips_spec:
  assumes "\<And>p. p \<in> set protected \<Longrightarrow> valid p" and "\<And>n. line_name L (TrimSpace l) = Some n \<Longrightarrow> valid n"
  shows "strips L (protected_set L protected) l = Some (let t = TrimSpace l in t \<noteq> [] \<and> \<not> prefix '';'' t \<and> \<not> prefix ''#'' t
    \<and> (\<exists>n. line_name L t = Some n \<and> (n \<in> protected_set L protected \<or> at_or_below labels (protected_set L protected) n)))"
proof -
  have W: "p \<in> protected_set L protected \<Longrightarrow> valid p \<and> CanonicalName L p = p" for p
    using assms(1) canon_valid by (auto simp: protected_set_def)
  have c: "line_name L t = Some n \<Longrightarrow> CanonicalName L n = n" for t n by (auto simp: line_name_def split: list.splits)
  show ?thesis
    using covered_spec [OF W] assms(2) c by (auto simp: strips_def Let_def split: option.splits)
qed

end

lemma strip_loop_filter:
  assumes "\<And>l. l \<in> set ls \<Longrightarrow> strips L want l = Some (b l)"
  shows "strip_loop L want (\<lambda>_. False) ls n out
    = Some (n + length (filter b ls), out @ concat (map (\<lambda>l. l @ [CHR 0x0A]) (filter (\<lambda>l. \<not> b l) ls)), False)"
  using assms by (induction ls arbitrary: n out) auto

lemma strip_loop_returns:
  assumes "\<And>l. l \<in> set ls \<Longrightarrow> \<exists>b. strips L want l = Some b"
  shows "\<exists>r. strip_loop L want fails ls n out = Some r"
  using assms
proof (induction ls arbitrary: n out)
  case (Cons l ls)
  obtain b where "strips L want l = Some b" using Cons.prems [of l] by auto
  with Cons show ?case by auto
qed auto

context name_steps
begin

lemma covered_returns: "\<exists>b. coveredByProtected L want s = Some b"
proof (induction "length s" arbitrary: s rule: less_induct)
  case less
  obtain i e where step: "NextLabel L s 0 = (i, e)" by fastforce
  show ?case
  proof (cases "s = ''.'' \<or> s = [] \<or> s \<in> want \<or> e")
    case True
    with step show ?thesis by (auto simp: coveredByProtected.simps [of L want s])
  next
    case False
    with step label_progress [of s i] less [of "drop i s"] show ?thesis
      by (auto simp: coveredByProtected.simps [of L want s])
  qed
qed

lemma strips_returns: "\<exists>b. strips L want l = Some b"
  using covered_returns by (auto simp: strips_def Let_def split: option.splits)

lemma StripProtected_returns: "\<exists>x. StripProtected L fails r ps = Some x"
  using strip_loop_returns strips_returns by (auto simp: StripProtected_def split: prod.splits)

end

text \<open>Stripping removes exactly the rules for protected names: of the lines of the feed, those whose first field names a
  protected name or a name below one (the root apart) are dropped and counted, and every other line is kept, in order; so no line
  of the result is about a protected name.\<close>

theorem strip_removes_protected:
  assumes "dns_names L labels valid" and "\<forall>p \<in> set protected. valid p"
    and "scan_lines 4194304 r = (ls, False)" and "\<forall>l \<in> set ls. \<forall>n. line_name L (TrimSpace l) = Some n \<longrightarrow> valid n"
  shows "\<exists>b. StripProtected L (\<lambda>_. False) r protected
      = Some (length (filter b ls), concat (map (\<lambda>l. l @ [CHR 0x0A]) (filter (\<lambda>l. \<not> b l) ls)), False)
    \<and> (\<forall>l \<in> set ls. b l \<longleftrightarrow> (let t = TrimSpace l in t \<noteq> [] \<and> \<not> prefix '';'' t \<and> \<not> prefix ''#'' t
         \<and> (\<exists>n. line_name L t = Some n \<and> (n \<in> protected_set L protected \<or> at_or_below labels (protected_set L protected) n))))"
proof -
  let ?b = "\<lambda>l. let t = TrimSpace l in t \<noteq> [] \<and> \<not> prefix '';'' t \<and> \<not> prefix ''#'' t
         \<and> (\<exists>n. line_name L t = Some n \<and> (n \<in> protected_set L protected \<or> at_or_below labels (protected_set L protected) n))"
  have "strip_loop L (protected_set L protected) (\<lambda>_. False) ls 0 []
      = Some (0 + length (filter ?b ls), [] @ concat (map (\<lambda>l. l @ [CHR 0x0A]) (filter (\<lambda>l. \<not> ?b l) ls)), False)"
    by (rule strip_loop_filter) (use dns_names.strips_spec [OF assms(1)] assms(2,4) in blast)
  then show ?thesis by (intro exI [of _ ?b]) (simp add: StripProtected_def assms(3))
qed

section \<open>A refresh\<close>

text \<open>How a refresh ends: without an update nothing has changed, with one the files satisfy \<open>P\<close>.\<close>

definition settled :: "(string \<rightharpoonup> string) \<Rightarrow> ((string \<rightharpoonup> string) \<Rightarrow> bool) \<Rightarrow> ((bool \<times> fetch_error option) \<times> fetch_state) option \<Rightarrow> bool" where
  "settled files P r \<longleftrightarrow> (\<exists>upd err files' m'. r = Some ((upd, err), files', m')
     \<and> (upd \<longrightarrow> err = None \<and> P files') \<and> (\<not> upd \<longrightarrow> files' = files))"

lemma settled_bail: "settled files P (Some (bail e (files, m)))"
  by (auto simp: settled_def bail_def)

lemma settled_install: "P (files(dst \<mapsto> c)) \<Longrightarrow> settled files P (Some (install W dst c (files, m)))"
  by (auto simp: settled_def install_def)

lemma settled_if: "(b \<Longrightarrow> settled files P x) \<Longrightarrow> (\<not> b \<Longrightarrow> settled files P y) \<Longrightarrow> settled files P (if b then x else y)"
  by simp

lemma settled_option: "(x = None \<Longrightarrow> settled files P a) \<Longrightarrow> (\<And>y. x = Some y \<Longrightarrow> settled files P (f y)) \<Longrightarrow>
    settled files P (case x of None \<Rightarrow> a | Some y \<Rightarrow> f y)"
  by (cases x) simp_all

lemma settled_prod: "(\<And>a b. x = (a, b) \<Longrightarrow> settled files P (f a b)) \<Longrightarrow> settled files P (case x of (a, b) \<Rightarrow> f a b)"
  by (cases x) simp

lemma settled_unchanged: "settled files P (Some ((False, e), files, m))"
  by (auto simp: settled_def)

lemma settled_mono: "settled files P r \<Longrightarrow> (\<And>x. P x \<Longrightarrow> Q x) \<Longrightarrow> settled files Q r"
  by (auto simp: settled_def)

lemmas settled_rules = settled_bail settled_unchanged settled_if settled_option settled_prod

text \<open>What may go live in place of the feed at \<open>dst\<close>.\<close>

definition passed :: "dnslib \<Rightarrow> fetch_world \<Rightarrow> guard \<Rightarrow> (string \<rightharpoonup> string) \<Rightarrow> string \<Rightarrow> string \<Rightarrow> (string \<rightharpoonup> string) \<Rightarrow> bool" where
  "passed L W g files dst content files' \<longleftrightarrow> (\<exists>v. guard_Check L g (content, \<not> fw_ok W StepReadBack)
       (if fw_ok W StepOpenLive then map_option (\<lambda>c. (c, False)) (files dst) else None) = Some v \<and> gr_Accepted v
     \<and> (if gr_Stripped v = [] then files' = files(dst \<mapsto> content)
        else \<exists>n out. StripProtected L (fw_fails W) (content, \<not> fw_ok W StepReadBack) (gd_Protected g) = Some (n, out, False)
          \<and> files' = files(dst \<mapsto> take (fw_kept W out) out)))"

lemma go_live_settled:
  assumes "name_steps L"
  shows "settled files (passed L W (fo_Guard opts) files dst content) (go_live L W opts dst content (files, m))"
proof -
  have "\<exists>x. StripProtected L (fw_fails W) (content, \<not> fw_ok W StepReadBack) (gd_Protected (fo_Guard opts)) = Some x"
    by (rule name_steps.StripProtected_returns [OF assms])
  then show ?thesis
    unfolding go_live_def prod.case Let_def
    by (intro settled_rules settled_install) (auto simp: passed_def)
qed

text \<open>C11. A refresh replaces the live feed only with content that passed every check: \<open>fetchOne\<close> always returns; unless it reports an
  update without an error, every file is as before; and after an update only the feed's own file has changed, the download came over
  HTTPS or matched its pinned digest, it matched the digest if one is pinned, it is not empty and not over the size limit, the
  guard accepted it, and what is live is the download or, if the guard found protected names in it, the part of its stripped form that the file system kept: a
  write error at the end of stripping is not reported, so that part may be cut short.\<close>

theorem refresh_keeps_previous:
  assumes "name_steps L"
  shows "\<exists>upd err files' m'. fetchOne L W opts feed (files, m) = Some ((upd, err), files', m')
    \<and> (upd \<longrightarrow> err = None \<and> (\<exists>body readErr. fw_do W feed = Some (200, body, readErr)
        \<and> (fw_scheme W (pf_URL feed) = Some ''https'' \<or> fw_scheme W (pf_URL feed) = Some ''http'' \<and> pf_SHA256 feed \<noteq> [])
        \<and> (pf_SHA256 feed \<noteq> [] \<longrightarrow> EqualFold (fw_sha W body) (pf_SHA256 feed))
        \<and> 0 < length body \<and> int (length body) \<le> fo_MaxBytes opts
        \<and> passed L W (fo_Guard opts) files (feed_Path opts (pf_Name feed)) body files'))
    \<and> (\<not> upd \<longrightarrow> files' = files)"
proof -
  let ?P = "\<lambda>files'. \<exists>body readErr. fw_do W feed = Some (200, body, readErr)
        \<and> (fw_scheme W (pf_URL feed) = Some ''https'' \<or> fw_scheme W (pf_URL feed) = Some ''http'' \<and> pf_SHA256 feed \<noteq> [])
        \<and> (pf_SHA256 feed \<noteq> [] \<longrightarrow> EqualFold (fw_sha W body) (pf_SHA256 feed))
        \<and> 0 < length body \<and> int (length body) \<le> fo_MaxBytes opts
        \<and> passed L W (fo_Guard opts) files (feed_Path opts (pf_Name feed)) body files'"
  have all: "take (nat (n + 1)) body = body" if "int (length (take (nat (n + 1)) body)) \<le> n" for n and body :: string
    using that by (cases "length body \<le> nat (n + 1)") (auto split: if_splits)
  have "settled files ?P (fetchOne L W opts feed (files, m))"
    unfolding fetchOne_def prod.case Let_def
    by (intro settled_rules settled_mono [OF go_live_settled [OF assms]]) (auto simp: all not_less split: if_splits)
  then show ?thesis unfolding settled_def .
qed

text \<open>A feed's file cannot leave the feed directory: whatever the name, its file name is not empty, does not start with a dot, and has
  only lower-case letters, digits, dashes, underscores and dots, so no separator.\<close>

theorem feed_path_safe:
  "sanitiseName name \<noteq> [] \<and> hd (sanitiseName name) \<noteq> CHR ''.'' \<and> list_all safe_char (sanitiseName name)
   \<and> CHR ''/'' \<notin> set (sanitiseName name)"
proof -
  let ?t = "map (\<lambda>c. if safe_char c then c else CHR ''_'') (TrimSpace (ToLower name))"
  have c: "safe_char (CHR ''_'')" "\<not> safe_char (CHR ''/'')" "list_all safe_char ''unnamed''" by (simp_all add: safe_char_def char_in_def)
  have "list_all safe_char (TrimSet {CHR ''.''} ?t)" using set_TrimSet [of "{CHR ''.''}" ?t] c(1) by (auto simp: list_all_iff)
  then have s: "list_all safe_char (sanitiseName name)" unfolding sanitiseName_def Let_def using c(3) by presburger
  moreover have "sanitiseName name \<noteq> []" "hd (sanitiseName name) \<noteq> CHR ''.''"
    using hd_TrimSet [of "{CHR ''.''}" ?t] by (auto simp: sanitiseName_def Let_def)
  moreover have "CHR ''/'' \<notin> set (sanitiseName name)" using s c(2) by (auto simp: list_all_iff)
  ultimately show ?thesis by blast
qed

text \<open>What the guard admits: content is accepted exactly if it can be read, has at least the minimum of rules, if one is set, and,
  if a live copy has rules and a ratio is set, changes their number by at most that ratio.\<close>

theorem guard_accepts_iff:
  "(\<exists>v. guard_Check L g incoming live = Some v \<and> gr_Accepted v) \<longleftrightarrow>
    (let (new, hits, err) = guard_scan L incoming (gd_Protected g);
         old = (case live of None \<Rightarrow> 0 | Some r \<Rightarrow> fst (guard_scan L r []))
     in \<not> err \<and> (gd_MinRules g \<le> 0 \<or> gd_MinRules g \<le> new)
        \<and> (old = 0 \<or> gd_MaxChangeRatio g \<le> 0 \<or> \<bar>of_int (new - old)\<bar> \<le> gd_MaxChangeRatio g * \<bar>of_int old\<bar>))"
proof -
  have r: "\<bar>of_int (new - old) / of_int old\<bar> > ratio \<longleftrightarrow> \<not> \<bar>of_int (new - old)\<bar> \<le> ratio * \<bar>of_int old\<bar>"
    if "old \<noteq> 0" for new old :: int and ratio :: rat using that by (simp add: abs_divide less_divide_eq not_le)
  obtain new hits err where n: "guard_scan L incoming (gd_Protected g) = (new, hits, err)" by (metis prod_cases3)
  define old where "old = (case live of None \<Rightarrow> 0 | Some r \<Rightarrow> fst (guard_scan L r []))"
  show ?thesis
    unfolding guard_Check_def n prod.case Let_def old_def [symmetric]
    by (cases "old = 0") (auto simp: r not_le simp del: of_int_diff abs_divide)
qed

section \<open>Instances\<close>

definition test_guard :: guard where
  "test_guard = \<lparr>gd_MaxChangeRatio = 0, gd_MinRules = 0, gd_Protected = [''my.gov.au'']\<rparr>"

definition test_fopts :: fetcher_options where
  "test_fopts = \<lparr>fo_Dir = ''/feeds'', fo_MaxBytes = 1000, fo_Timeout = second, fo_Guard = test_guard\<rparr>"

definition test_feed :: pfeed where
  "test_feed = \<lparr>pf_Name = ''ads'', pf_URL = ''https://lists.example/ads'', pf_SHA256 = []\<rparr>"

definition test_fetch :: "string \<Rightarrow> fetch_world" where
  "test_fetch body = \<lparr>fw_scheme = (\<lambda>_. Some ''https''), fw_do = (\<lambda>_. Some (200, body, False)), fw_sha = (\<lambda>c. c), fw_ok = (\<lambda>_. True),
     fw_fails = (\<lambda>_. False), fw_kept = length, fw_unix = 7\<rparr>"

definition test_fmetrics :: fetch_metrics where
  "test_fmetrics = \<lparr>fm_Attempts = 0, fm_Updated = 0, fm_Unchanged = 0, fm_Failures = 0, fm_Rejected = 0, fm_Protected = 0,
     fm_HashMismatches = 0, fm_LastSuccess = 0\<rparr>"

abbreviation sub_line :: string where "sub_line \<equiv> ''login.my.gov.au CNAME .''"
abbreviation sub_feed :: string where "sub_feed \<equiv> sub_line @ [CHR 0x0A]"

lemma sub_feed_lines: "scan_lines 4194304 (sub_feed, False) = ([sub_line], False)"
  by (simp add: scan_lines_def drop_cr_def)

lemma sub_line_name: "line_name ref_lib (TrimSpace sub_line) = Some ''login.my.gov.au.''"
  by (simp add: line_name_def TrimSpace_def isSpace_def strFields.simps TrimSuffix_def suffix_def ref_lib_def ref_canon_def lower_def)

lemma sub_line_counted: "counted sub_line"
  by (simp add: counted_def TrimSpace_def isSpace_def)

lemma test_protected: "protected_set ref_lib [''my.gov.au''] = {''my.gov.au.''}"
  by (simp add: protected_set_def ref_lib_def ref_canon_def lower_def)

lemma test_path: "feed_Path test_fopts (pf_Name test_feed) = ''/feeds/ads''"
  by (simp add: test_fopts_def test_feed_def feed_Path_def sanitiseName_def TrimSpace_def isSpace_def ToLower_def lower_def safe_char_def char_in_def TrimSet_def)

lemma test_refresh:
  "map_option (\<lambda>(r, files, m). (r, files ''/feeds/ads'')) (fetchOne ref_lib (test_fetch sub_feed) test_fopts test_feed (Map.empty, test_fmetrics))
     = Some ((True, None), Some sub_feed)"
proof -
  have "guard_Check ref_lib test_guard (sub_feed, False) None
      = Some \<lparr>gr_Accepted = True, gr_Reason = NoReason, gr_NewRules = 1, gr_OldRules = 0, gr_Stripped = []\<rparr>"
    by (simp add: guard_Check_def guard_scan_def test_guard_def sub_feed_lines sub_line_name sub_line_counted test_protected del: append.simps append_Cons)
  then show ?thesis
    by (simp add: fetchOne_def go_live_def install_def test_fetch_def test_fopts_def test_feed_def feed_Path_def sanitiseName_def
        TrimSpace_def isSpace_def ToLower_def lower_def safe_char_def char_in_def TrimSet_def)
qed

text \<open>A rule below a protected name can go live: the refresh strips a feed only if the guard reported a protected name, and the
  guard looks for the protected names themselves; a feed that blocks a name below one and none of them is installed as it
  was downloaded, although stripping would have removed that rule.\<close>

theorem protected_subdomain_goes_live:
  "map_option (\<lambda>(r, files, m). (r, files ''/feeds/ads'')) (fetchOne ref_lib (test_fetch sub_feed) test_fopts test_feed (Map.empty, test_fmetrics))
     = Some ((True, None), Some sub_feed)
   \<and> strips ref_lib (protected_set ref_lib (gd_Protected test_guard)) sub_line = Some True"
proof (rule conjI [OF test_refresh])
  have "at_or_below ref_labels {''my.gov.au.''} ''login.my.gov.au.''"
    by (simp add: at_or_below_def ref_labels_def suffix_def)
  then show "strips ref_lib (protected_set ref_lib (gd_Protected test_guard)) sub_line = Some True"
    using ref.strips_spec [of "[''my.gov.au'']" sub_line]
    by (simp add: sub_line_name test_protected test_guard_def ref_valid_def) (simp add: TrimSpace_def isSpace_def)
qed

theorem domain_list_blocks_subtrees_witness:
  "\<exists>s. ParseDomainList ref_lib (\<lambda>_. False) (''*.Evil.example'', False) ''ads'' ActionNXDOMAIN [] = Inr s
    \<and> set_Match ref_lib (Some s) ''www.evil.EXAMPLE'' = Some (Some ((rule0 ''ads'' DefaultTTL)\<lparr>r_Action := ActionNXDOMAIN\<rparr>))
    \<and> set_Match ref_lib (Some s) ''good.example'' = Some None"
proof -
  let ?r = "(''*.Evil.example'', False)"
  have l: "scan_lines 1048576 ?r = ([''*.Evil.example''], False)" by (simp add: scan_lines_def drop_cr_def)
  have e: "list_entry (\<lambda>_. False) ''*.Evil.example'' = Some ''Evil.example''"
    by (simp add: list_entry_def TrimSpace_def isSpace_def TrimPrefix_def)
  have "plausibleDomain ''Evil.example''" by (simp add: plausibleDomain_def hostname_char_def char_in_def TrimSuffix_def suffix_def)
  then obtain s where s: "ParseDomainList ref_lib (\<lambda>_. False) ?r ''ads'' ActionNXDOMAIN [] = Inr s"
    by (simp add: ParseDomainList_def l e Let_def)
  have v: "ref_valid ''www.evil.EXAMPLE''" "ref_valid ''good.example''" "ref_valid ''Evil.example''" by (simp_all add: ref_valid_def)
  have "\<forall>l \<in> set (fst (scan_lines 1048576 ?r)). \<forall>t. list_entry (\<lambda>_. False) l = Some t \<longrightarrow> ref_valid t"
    using v(3) unfolding l by (auto simp: e)
  note D = domain_list_blocks_subtrees [OF ref.dns_names_axioms s _ this]
  have c: "CanonicalName ref_lib ''www.evil.EXAMPLE'' = ''www.evil.example.''" "CanonicalName ref_lib ''good.example'' = ''good.example.''"
    "CanonicalName ref_lib ''Evil.example'' = ''evil.example.''" by code_simp+
  show ?thesis
    using s D [of "''www.evil.EXAMPLE''"] D [of "''good.example''"]
    by (simp add: l e v c ref_labels_def suffix_def rule0_def)
qed

definition test_env :: feed_env where
  "test_env = \<lparr>fe_zone = (\<lambda>_ _ _. ([], False)), fe_isAddr = (\<lambda>_. False), fe_open = (\<lambda>_. None)\<rparr>"

definition test_spec :: "string \<Rightarrow> action \<Rightarrow> feed_spec" where
  "test_spec n a = \<lparr>fs_Name = n, fs_Format = [], fs_File = [], fs_RPZZone = [],
     fs_Entries = [\<lparr>fd_Name = ''evil.example'', fd_Action = a, fd_To = []\<rparr>]\<rparr>"

theorem compile_first_feed_wins_witness:
  "\<exists>out p. Compile ref_lib test_env [test_spec ''a'' ActionNXDOMAIN, test_spec ''b'' ActionDrop]
      [\<lparr>cs_Name = ''gold'', cs_Feeds = [''b'', ''a''], cs_Action = ActionNone, cs_RedirectTo = []\<rparr>] = Inr out
    \<and> out ''gold'' = Some p \<and> map_option r_Action (fmlookup (set_exact (the (pol_Rules p))) ''evil.example.'') = Some ActionDrop"
    (is "\<exists>out p. Compile _ _ ?fs ?cs = Inr out \<and> _ \<and> _")
proof -
  have e: "compileFeed ref_lib test_env (test_spec n a) = Inr (entrySet ref_lib (test_spec n a))" for n a
    by (simp add: compileFeed_def test_spec_def)
  have l: "fmlookup (set_exact (entrySet ref_lib (test_spec n a))) ''evil.example.'' = Some ((rule0 n 0)\<lparr>r_Action := a\<rparr>)" for n a
    by (simp add: entrySet_def test_spec_def AddExact_def AddWildcard_def ref_lib_def ref_canon_def lower_def rule0_def Let_def)
  have n: "fs_Name (test_spec n a) = n" for n a by (simp add: test_spec_def)
  obtain out p where o: "Compile ref_lib test_env ?fs ?cs = Inr out" "out ''gold'' = Some p" by (simp add: Compile_def e n)
  have c: "compile_feeds ref_lib test_env ?fs Map.empty = Inr [''a'' \<mapsto> entrySet ref_lib (test_spec ''a'' ActionNXDOMAIN), ''b'' \<mapsto> entrySet ref_lib (test_spec ''b'' ActionDrop)]"
    by (simp add: e n)
  from compile_first_feed_wins [OF o] o show ?thesis by (auto simp: e n l)
qed

theorem strip_removes_protected_witness:
  "\<exists>n out. StripProtected ref_lib (\<lambda>_. False) (sub_feed, False) [''my.gov.au''] = Some (n, out, False) \<and> (n = 1 \<or> out = sub_feed)"
proof -
  have v: "\<forall>p \<in> set [''my.gov.au'']. ref_valid p" by (simp add: ref_valid_def)
  have w: "\<forall>l \<in> set [sub_line]. \<forall>n. line_name ref_lib (TrimSpace l) = Some n \<longrightarrow> ref_valid n"
    by (auto simp: sub_line_name ref_valid_def)
  obtain b where "StripProtected ref_lib (\<lambda>_. False) (sub_feed, False) [''my.gov.au'']
      = Some (length (filter b [sub_line]), concat (map (\<lambda>l. l @ [CHR 0x0A]) (filter (\<lambda>l. \<not> b l) [sub_line])), False)"
    using strip_removes_protected [OF ref.dns_names_axioms v sub_feed_lines w] by blast
  then show ?thesis by (cases "b sub_line") simp_all
qed

theorem refresh_keeps_previous_witness:
  "\<exists>files m. fetchOne ref_lib (test_fetch sub_feed) test_fopts test_feed (Map.empty, test_fmetrics) = Some ((True, None), files, m)
    \<and> passed ref_lib (test_fetch sub_feed) test_guard Map.empty ''/feeds/ads'' sub_feed files \<and> files ''/feeds/ads'' = Some sub_feed"
proof -
  obtain files m where f: "fetchOne ref_lib (test_fetch sub_feed) test_fopts test_feed (Map.empty, test_fmetrics) = Some ((True, None), files, m)"
    and l: "files ''/feeds/ads'' = Some sub_feed" using test_refresh by (auto simp del: append.simps append_Cons)
  have d: "fw_do (test_fetch sub_feed) test_feed = Some (200, sub_feed, False)" "fo_Guard test_fopts = test_guard"
    by (simp_all add: test_fetch_def test_fopts_def)
  from refresh_keeps_previous [OF ref_steps.name_steps_axioms, of "test_fetch sub_feed" test_fopts test_feed Map.empty test_fmetrics]
  have "passed ref_lib (test_fetch sub_feed) test_guard Map.empty ''/feeds/ads'' sub_feed files"
    unfolding f test_path d by (auto simp del: append.simps append_Cons)
  with f l show ?thesis by blast
qed

end
