(* ===== verification/Lru.thy ===== *)
theory Lru
  imports Prelude "HOL-Library.Finite_Map"
begin

text \<open>
  The intrusive, doubly linked LRU list that \<open>internal/cache\<close> uses twice
  (cache shards and infrastructure-cache shards), modelled at pointer level.
  A node pointer is a natural number, \<open>nil\<close> is \<open>None\<close>, and the nodes live in
  a heap; the record \<open>lru\<close> holds the map, the two list ends and the next
  free address, and the shard records of the caches extend it. The four
  operations mutate links exactly in the source's order.

  \<open>lru_rep s ps\<close> says the shard's pointers form the list \<open>ps\<close>, most recently
  used first, and that the map indexes exactly those nodes by key;
  \<open>lru_list\<close> reads the keys and values off. The lemmas at the end are the
  list behaviour of each pointer operation, which the cache theories use.
\<close>

section \<open>Nodes, heap and operations\<close>

record ('k, 'v) lnode =
  ln_key :: 'k
  ln_val :: 'v
  ln_prev :: "nat option"
  ln_next :: "nat option"

record ('k, 'v) lru =
  lru_heap :: "nat \<Rightarrow> ('k, 'v) lnode option"
  lru_m :: "('k, nat) fmap"
  lru_head :: "nat option"
  lru_tail :: "nat option"
  lru_free :: nat

definition upd_node :: "nat \<Rightarrow> (('k, 'v) lnode \<Rightarrow> ('k, 'v) lnode) \<Rightarrow> ('k, 'v, 'z) lru_scheme \<Rightarrow> ('k, 'v, 'z) lru_scheme" where
  "upd_node p f s = s\<lparr>lru_heap := (lru_heap s)(p := map_option f (lru_heap s p))\<rparr>"

definition set_prev :: "nat \<Rightarrow> nat option \<Rightarrow> ('k, 'v, 'z) lru_scheme \<Rightarrow> ('k, 'v, 'z) lru_scheme" where
  "set_prev p q = upd_node p (\<lambda>n. n\<lparr>ln_prev := q\<rparr>)"

definition set_next :: "nat \<Rightarrow> nat option \<Rightarrow> ('k, 'v, 'z) lru_scheme \<Rightarrow> ('k, 'v, 'z) lru_scheme" where
  "set_next p q = upd_node p (\<lambda>n. n\<lparr>ln_next := q\<rparr>)"

definition prev_of :: "nat \<Rightarrow> ('k, 'v, 'z) lru_scheme \<Rightarrow> nat option" where
  "prev_of p s = Option.bind (lru_heap s p) ln_prev"

definition next_of :: "nat \<Rightarrow> ('k, 'v, 'z) lru_scheme \<Rightarrow> nat option" where
  "next_of p s = Option.bind (lru_heap s p) ln_next"

definition pushFront :: "nat \<Rightarrow> ('k, 'v, 'z) lru_scheme \<Rightarrow> ('k, 'v, 'z) lru_scheme" where
  "pushFront n s0 =
     (let s1 = set_next n (lru_head s0) (set_prev n None s0);
          s2 = (case lru_head s1 of None \<Rightarrow> s1 | Some h \<Rightarrow> set_prev h (Some n) s1);
          s3 = s2\<lparr>lru_head := Some n\<rparr>
      in if lru_tail s3 = None then s3\<lparr>lru_tail := Some n\<rparr> else s3)"

definition unlink :: "nat \<Rightarrow> ('k, 'v, 'z) lru_scheme \<Rightarrow> ('k, 'v, 'z) lru_scheme" where
  "unlink n s0 =
     (let s1 = (case prev_of n s0 of
                  Some p \<Rightarrow> set_next p (next_of n s0) s0
                | None \<Rightarrow> s0\<lparr>lru_head := next_of n s0\<rparr>);
          s2 = (case next_of n s1 of
                  Some q \<Rightarrow> set_prev q (prev_of n s1) s1
                | None \<Rightarrow> s1\<lparr>lru_tail := prev_of n s1\<rparr>)
      in set_next n None (set_prev n None s2))"

definition moveToFront :: "nat \<Rightarrow> ('k, 'v, 'z) lru_scheme \<Rightarrow> ('k, 'v, 'z) lru_scheme" where
  "moveToFront n s = (if lru_head s = Some n then s else pushFront n (unlink n s))"

text \<open>Unlinking a node and dropping its key from the map.\<close>

definition lru_remove :: "nat \<Rightarrow> ('k, 'v, 'z) lru_scheme \<Rightarrow> ('k, 'v, 'z) lru_scheme" where
  "lru_remove n s = (case lru_heap s n of
       None \<Rightarrow> s
     | Some nd \<Rightarrow> let s' = unlink n s in s'\<lparr>lru_m := fmdrop (ln_key nd) (lru_m s')\<rparr>)"

text \<open>Allocating a node: a fresh heap address with nil links.\<close>

definition alloc :: "'k \<Rightarrow> 'v \<Rightarrow> ('k, 'v, 'z) lru_scheme \<Rightarrow> nat \<times> ('k, 'v, 'z) lru_scheme" where
  "alloc k v s = (lru_free s,
     s\<lparr>lru_heap := (lru_heap s)(lru_free s \<mapsto> \<lparr>ln_key = k, ln_val = v, ln_prev = None, ln_next = None\<rparr>),
       lru_free := Suc (lru_free s)\<rparr>)"

text \<open>Storing a new node: the map entry, then the front of the list.\<close>

definition lru_insert :: "'k \<Rightarrow> 'v \<Rightarrow> ('k, 'v, 'z) lru_scheme \<Rightarrow> ('k, 'v, 'z) lru_scheme" where
  "lru_insert k v s = (let (n, s1) = alloc k v s in
     pushFront n (s1\<lparr>lru_m := fmupd k n (lru_m s1)\<rparr>))"

definition set_val :: "nat \<Rightarrow> 'v \<Rightarrow> ('k, 'v, 'z) lru_scheme \<Rightarrow> ('k, 'v, 'z) lru_scheme" where
  "set_val n v = upd_node n (\<lambda>nd. nd\<lparr>ln_val := v\<rparr>)"

definition lru_empty :: "('k, 'v) lru" where
  "lru_empty = \<lparr>lru_heap = Map.empty, lru_m = fmempty, lru_head = None, lru_tail = None, lru_free = 0\<rparr>"

declare pushFront_def [lru_op_defs] unlink_def [lru_op_defs] moveToFront_def [lru_op_defs] lru_remove_def [lru_op_defs]
   alloc_def [lru_op_defs] lru_insert_def [lru_op_defs] set_val_def [lru_op_defs] set_prev_def [lru_op_defs]
   set_next_def [lru_op_defs] upd_node_def [lru_op_defs] prev_of_def [lru_op_defs] next_of_def [lru_op_defs]

section \<open>Linked segments\<close>

fun seg :: "(nat \<Rightarrow> ('k, 'v) lnode option) \<Rightarrow> nat option \<Rightarrow> nat list \<Rightarrow> nat option \<Rightarrow> bool" where
  "seg h p [] q = True"
| "seg h p (x # xs) q =
     ((\<exists>n. h x = Some n \<and> ln_prev n = p \<and> ln_next n = (if xs = [] then q else Some (hd xs)))
      \<and> seg h (Some x) xs q)"

lemma seg_append:
  "seg h p (xs @ ys) q \<longleftrightarrow>
     seg h p xs (if ys = [] then q else Some (hd ys))
     \<and> seg h (if xs = [] then p else Some (last xs)) ys q"
  by (induction xs arbitrary: p) auto

lemma seg_frame [simp]: "a \<notin> set xs \<Longrightarrow> seg (h(a := v)) p xs q = seg h p xs q"
  by (induction xs arbitrary: p) auto

section \<open>The representation\<close>

definition hd_opt :: "'a list \<Rightarrow> 'a option" where
  "hd_opt xs = (if xs = [] then None else Some (hd xs))"

definition last_opt :: "'a list \<Rightarrow> 'a option" where
  "last_opt xs = (if xs = [] then None else Some (last xs))"

definition key_at :: "('k, 'v, 'z) lru_scheme \<Rightarrow> nat \<Rightarrow> 'k" where
  "key_at s p = ln_key (the (lru_heap s p))"

definition val_at :: "('k, 'v, 'z) lru_scheme \<Rightarrow> nat \<Rightarrow> 'v" where
  "val_at s p = ln_val (the (lru_heap s p))"

definition dll :: "('k, 'v, 'z) lru_scheme \<Rightarrow> nat list \<Rightarrow> bool" where
  "dll s ps \<longleftrightarrow> distinct ps \<and> seg (lru_heap s) None ps None
     \<and> lru_head s = hd_opt ps \<and> lru_tail s = last_opt ps
     \<and> (\<forall>p \<ge> lru_free s. lru_heap s p = None)"

definition indexed :: "('k, 'v, 'z) lru_scheme \<Rightarrow> nat list \<Rightarrow> bool" where
  "indexed s ps \<longleftrightarrow> (\<forall>k p. fmlookup (lru_m s) k = Some p \<longleftrightarrow> p \<in> set ps \<and> key_at s p = k)"

definition lru_rep :: "('k, 'v, 'z) lru_scheme \<Rightarrow> nat list \<Rightarrow> bool" where
  "lru_rep s ps \<longleftrightarrow> dll s ps \<and> indexed s ps"

definition lru_list :: "('k, 'v, 'z) lru_scheme \<Rightarrow> nat list \<Rightarrow> ('k \<times> 'v) list" where
  "lru_list s ps = map (\<lambda>p. (key_at s p, val_at s p)) ps"

lemma seg_alloc: "seg h p xs q \<Longrightarrow> x \<in> set xs \<Longrightarrow> \<exists>n. h x = Some n"
  by (induction xs arbitrary: p) auto

lemma dll_allocated: "dll s ps \<Longrightarrow> p \<in> set ps \<Longrightarrow> \<exists>n. lru_heap s p = Some n"
  unfolding dll_def using seg_alloc by fast

text \<open>Relinking changes neither keys nor values.\<close>

definition same_data :: "('k, 'v, 'z) lru_scheme \<Rightarrow> ('k, 'v, 'y) lru_scheme \<Rightarrow> bool" where
  "same_data s s' \<longleftrightarrow> (\<forall>p. map_option (\<lambda>n. (ln_key n, ln_val n)) (lru_heap s' p)
                            = map_option (\<lambda>n. (ln_key n, ln_val n)) (lru_heap s p))"

lemma same_data_at:
  assumes "same_data s s'" "lru_heap s p = Some n"
  shows "key_at s' p = key_at s p \<and> val_at s' p = val_at s p"
proof -
  have "map_option (\<lambda>n. (ln_key n, ln_val n)) (lru_heap s' p) = Some (ln_key n, ln_val n)"
    using assms unfolding same_data_def by simp
  with assms(2) show ?thesis by (auto simp: key_at_def val_at_def)
qed

lemma same_data_Some: "same_data s s' \<Longrightarrow> lru_heap s p = Some n \<Longrightarrow> \<exists>n'. lru_heap s' p = Some n'"
  unfolding same_data_def by (erule allE [of _ p]) auto

lemma same_data_None: "same_data s s' \<Longrightarrow> lru_heap s p = None \<Longrightarrow> lru_heap s' p = None"
  unfolding same_data_def by (erule allE [of _ p]) simp

lemma same_data_unlink: "same_data s (unlink p s)"
  by (auto simp: same_data_def lru_op_defs Let_def option.map_comp o_def split: option.splits)

lemma same_data_pushFront: "same_data s (pushFront p s)"
  by (auto simp: same_data_def lru_op_defs Let_def option.map_comp o_def split: option.splits)

lemma lru_m_relink [simp]:
  "lru_m (unlink p s) = lru_m s" "lru_m (pushFront p s) = lru_m s" "lru_m (moveToFront p s) = lru_m s"
  by (auto simp: lru_op_defs Let_def split: option.splits)

lemma lru_more_relink [simp]:
  "lru.more (unlink p s) = lru.more s" "lru.more (pushFront p s) = lru.more s"
  "lru.more (moveToFront p s) = lru.more s"
  by (auto simp: lru_op_defs Let_def split: option.splits)

section \<open>The pointer operations on lists\<close>

lemma dll_pushFront:
  assumes "dll s ps" "n \<notin> set ps" "lru_heap s n = Some nd"
  shows "dll (pushFront n s) (n # ps)"
proof (cases ps)
  case Nil
  with assms show ?thesis
    by (auto simp: dll_def lru_op_defs Let_def hd_opt_def last_opt_def)
next
  case (Cons x xs)
  with assms show ?thesis
    by (auto simp: dll_def lru_op_defs Let_def hd_opt_def last_opt_def)
qed

lemma unlink_node:
  assumes "dll s (ys @ p # zs)"
  shows "\<exists>n. lru_heap s p = Some n \<and> ln_prev n = last_opt ys \<and> ln_next n = hd_opt zs"
  using assms by (auto simp: dll_def seg_append hd_opt_def last_opt_def)

lemma unlink_heap:
  assumes "lru_heap s p = Some n" "ln_prev n = pv" "ln_next n = nx" "pv \<noteq> Some p" "nx \<noteq> Some p"
  shows "lru_heap (unlink p s) =
      (let h1 = (case pv of None \<Rightarrow> lru_heap s
                 | Some a \<Rightarrow> (lru_heap s)(a := map_option (\<lambda>n. n\<lparr>ln_next := nx\<rparr>) (lru_heap s a)));
           h2 = (case nx of None \<Rightarrow> h1
                 | Some b \<Rightarrow> h1(b := map_option (\<lambda>n. n\<lparr>ln_prev := pv\<rparr>) (h1 b)))
       in h2(p := Some (n\<lparr>ln_prev := None, ln_next := None\<rparr>)))"
    and "lru_head (unlink p s) = (if pv = None then nx else lru_head s)"
    and "lru_tail (unlink p s) = (if nx = None then pv else lru_tail s)"
    and "lru_free (unlink p s) = lru_free s"
  using assms by (auto simp: lru_op_defs Let_def split: option.splits)

lemma dll_unlink:
  assumes d: "dll s (ys @ p # zs)"
  shows "dll (unlink p s) (ys @ zs)"
proof -
  obtain n where n: "lru_heap s p = Some n" "ln_prev n = last_opt ys" "ln_next n = hd_opt zs"
    using unlink_node [OF d] by blast
  have dist: "distinct (ys @ p # zs)" using d by (simp add: dll_def)
  have np: "last_opt ys \<noteq> Some p" "hd_opt zs \<noteq> Some p"
    using dist by (auto simp: last_opt_def hd_opt_def)
  note U = unlink_heap [OF n np]
  have segs: "seg (lru_heap s) None ys (Some p)" "seg (lru_heap s) (Some p) zs None"
    using d by (auto simp: dll_def seg_append)
  have ends: "lru_head s = hd_opt (ys @ p # zs)" "lru_tail s = last_opt (ys @ p # zs)"
    and free: "\<forall>q \<ge> lru_free s. lru_heap s q = None"
    using d by (simp_all add: dll_def)
  have "seg (lru_heap (unlink p s)) None (ys @ zs) None"
  proof (cases ys rule: rev_cases)
    case Nil
    show ?thesis
    proof (cases zs)
      case (Cons z zs')
      with Nil segs dist show ?thesis by (auto simp: U(1) hd_opt_def last_opt_def Let_def)
    qed (simp add: Nil)
  next
    case (snoc ys' y)
    show ?thesis
    proof (cases zs)
      case Nil
      with snoc segs dist show ?thesis
        by (auto simp: U(1) hd_opt_def last_opt_def Let_def seg_append)
    next
      case (Cons z zs')
      with snoc segs dist show ?thesis
        by (auto simp: U(1) hd_opt_def last_opt_def Let_def seg_append)
    qed
  qed
  moreover have "lru_head (unlink p s) = hd_opt (ys @ zs)" "lru_tail (unlink p s) = last_opt (ys @ zs)"
    using ends by (auto simp: U hd_opt_def last_opt_def)
  moreover have "\<forall>q \<ge> lru_free (unlink p s). lru_heap (unlink p s) q = None"
    using free same_data_None [OF same_data_unlink] unfolding U(4) by blast
  ultimately show ?thesis using dist by (simp add: dll_def)
qed

lemma split_at: "p \<in> set ps \<Longrightarrow> distinct ps \<Longrightarrow> \<exists>ys zs. ps = ys @ p # zs \<and> remove1 p ps = ys @ zs"
  using split_list_first [of p ps] by (force simp: remove1_append)

lemma dll_unlink_remove1: "dll s ps \<Longrightarrow> p \<in> set ps \<Longrightarrow> dll (unlink p s) (remove1 p ps)"
  using split_at [of p ps] dll_unlink by (metis dll_def)

lemma dll_moveToFront:
  assumes d: "dll s ps" and p: "p \<in> set ps"
  shows "dll (moveToFront p s) (p # remove1 p ps)"
proof (cases "lru_head s = Some p")
  case True
  with d obtain xs where "ps = p # xs" by (cases ps) (auto simp: dll_def hd_opt_def)
  with True d show ?thesis by (simp add: moveToFront_def)
next
  case False
  have "p \<notin> set (remove1 p ps)" using d by (simp add: dll_def)
  moreover obtain n where "lru_heap (unlink p s) p = Some n"
    using dll_allocated [OF d p] same_data_Some [OF same_data_unlink] by blast
  ultimately show ?thesis
    using False dll_pushFront [OF dll_unlink_remove1 [OF d p]] by (simp add: moveToFront_def)
qed

lemma same_data_trans: "same_data s t \<Longrightarrow> same_data t u \<Longrightarrow> same_data s u"
  by (simp add: same_data_def)

lemma same_data_moveToFront: "same_data s (moveToFront p s)"
  using same_data_trans [OF same_data_unlink same_data_pushFront]
  by (auto simp: moveToFront_def same_data_def [of s s])

lemma lru_list_cong:
  "same_data s s' \<Longrightarrow> dll s ps \<Longrightarrow> set qs \<subseteq> set ps \<Longrightarrow> lru_list s' qs = lru_list s qs"
proof -
  assume sd: "same_data s s'" and d: "dll s ps" and sub: "set qs \<subseteq> set ps"
  have "key_at s' q = key_at s q \<and> val_at s' q = val_at s q" if "q \<in> set qs" for q
    using dll_allocated [OF d, of q] same_data_at [OF sd] that sub by blast
  then show ?thesis by (simp add: lru_list_def)
qed

text \<open>Reading a key: the map agrees with the list.\<close>

lemma rep_lookup:
  assumes "lru_rep s ps"
  shows "fmlookup (lru_m s) k = Some p \<Longrightarrow> p \<in> set ps \<and> key_at s p = k"
    and "fmlookup (lru_m s) k = None \<Longrightarrow> k \<notin> key_at s ` set ps"
  using assms by (auto simp: lru_rep_def indexed_def) (metis option.distinct(1))

lemma rep_keys_inj: "lru_rep s ps \<Longrightarrow> inj_on (key_at s) (set ps)"
  unfolding lru_rep_def indexed_def inj_on_def by (metis option.inject)

lemma rep_size:
  assumes "lru_rep s ps"
  shows "size (fmdom (lru_m s)) = length ps"
proof -
  have "fset (fmdom (lru_m s)) = key_at s ` set ps"
    using assms by (auto simp: lru_rep_def indexed_def fmlookup_dom_iff)
  then have "card (fset (fmdom (lru_m s))) = card (set ps)"
    using rep_keys_inj [OF assms] by (simp add: card_image)
  with assms show ?thesis by (simp add: lru_rep_def dll_def distinct_card fcard.rep_eq)
qed

lemma rep_distinct_keys: "lru_rep s ps \<Longrightarrow> distinct (map fst (lru_list s ps))"
  using rep_keys_inj [of s ps]
  by (auto simp: lru_list_def o_def distinct_map lru_rep_def dll_def)

lemma rep_moveToFront:
  assumes r: "lru_rep s ps" and p: "p \<in> set ps"
  shows "lru_rep (moveToFront p s) (p # remove1 p ps)"
    and "lru_list (moveToFront p s) (p # remove1 p ps) = lru_list s (p # remove1 p ps)"
proof -
  have d: "dll s ps" "distinct ps" using r by (simp_all add: lru_rep_def dll_def)
  have e: "set (p # remove1 p ps) = set ps" using p d by auto
  have k: "q \<in> set ps \<Longrightarrow> key_at (moveToFront p s) q = key_at s q" for q
    using dll_allocated [OF d(1)] same_data_at [OF same_data_moveToFront] by blast
  show "lru_rep (moveToFront p s) (p # remove1 p ps)"
    using r dll_moveToFront [OF d(1) p] e k
    by (auto simp: lru_rep_def indexed_def simp del: set_remove1_eq)
  show "lru_list (moveToFront p s) (p # remove1 p ps) = lru_list s (p # remove1 p ps)"
    by (rule lru_list_cong [OF same_data_moveToFront d(1)]) (simp only: e)
qed

lemma rep_head_tail:
  "lru_rep s ps \<Longrightarrow> lru_tail s = last_opt ps" "lru_rep s ps \<Longrightarrow> lru_head s = hd_opt ps"
  by (simp_all add: lru_rep_def dll_def)

lemma rep_distinct: "lru_rep s ps \<Longrightarrow> distinct ps"
  by (simp add: lru_rep_def dll_def)

lemma rep_allocated: "lru_rep s ps \<Longrightarrow> p \<in> set ps \<Longrightarrow> \<exists>n. lru_heap s p = Some n"
  by (auto simp: lru_rep_def dest: dll_allocated)

text \<open>The representation depends on the list fields only.\<close>

lemma rep_cong:
  assumes "lru_heap s' = lru_heap s" "lru_m s' = lru_m s" "lru_head s' = lru_head s"
    "lru_tail s' = lru_tail s" "lru_free s' = lru_free s"
  shows "lru_rep s' ps = lru_rep s ps" and "lru_list s' ps = lru_list s ps"
  using assms by (simp_all add: lru_rep_def dll_def indexed_def lru_list_def key_at_def val_at_def)

lemma rep_remove:
  assumes r: "lru_rep s ps" and p: "p \<in> set ps"
  shows "lru_rep (lru_remove p s) (remove1 p ps)"
    and "lru_list (lru_remove p s) (remove1 p ps) = lru_list s (remove1 p ps)"
proof -
  let ?u = "unlink p s"
  obtain n where n: "lru_heap s p = Some n" using rep_allocated [OF r p] by blast
  have d: "dll s ps" "distinct ps" using r by (simp_all add: lru_rep_def dll_def)
  have rm: "lru_remove p s = ?u\<lparr>lru_m := fmdrop (key_at s p) (lru_m s)\<rparr>"
    by (simp add: lru_remove_def n Let_def key_at_def)
  have k: "key_at ?u q = key_at s q" if "q \<in> set ps" for q
    using dll_allocated [OF d(1) that] same_data_at [OF same_data_unlink] by blast
  have sub: "set (remove1 p ps) \<subseteq> set ps" by (rule set_remove1_subset)
  have l: "lru_list ?u (remove1 p ps) = lru_list s (remove1 p ps)"
    by (rule lru_list_cong [OF same_data_unlink d(1) sub])
  have dd: "dll ?u (remove1 p ps)" by (rule dll_unlink_remove1 [OF d(1) p])
  have "fmlookup (fmdrop (key_at s p) (lru_m s)) a = Some q
      \<longleftrightarrow> q \<in> set (remove1 p ps) \<and> key_at ?u q = a" for a q
    using r k rep_keys_inj [OF r] p d(2)
    by (auto simp: lru_rep_def indexed_def inj_on_def)
  with dd show "lru_rep (lru_remove p s) (remove1 p ps)"
    by (simp add: rm lru_rep_def dll_def indexed_def key_at_def)
  show "lru_list (lru_remove p s) (remove1 p ps) = lru_list s (remove1 p ps)"
    using l by (simp add: rm lru_list_def key_at_def val_at_def)
qed

lemma rep_insert:
  assumes r: "lru_rep s ps" and k: "k \<notin> key_at s ` set ps"
  shows "lru_rep (lru_insert k v s) (lru_free s # ps)"
    and "lru_list (lru_insert k v s) (lru_free s # ps) = (k, v) # lru_list s ps"
proof -
  let ?n = "lru_free s"
  define t where "t = s\<lparr>lru_heap := (lru_heap s)(?n \<mapsto> \<lparr>ln_key = k, ln_val = v, ln_prev = None, ln_next = None\<rparr>),
      lru_free := Suc ?n, lru_m := fmupd k ?n (lru_m s)\<rparr>"
  have fresh: "?n \<notin> set ps" using rep_allocated [OF r, of ?n] r by (auto simp: lru_rep_def dll_def)
  have dt: "dll t ps" using r fresh by (auto simp: t_def lru_rep_def dll_def)
  have tn: "lru_heap t ?n = Some \<lparr>ln_key = k, ln_val = v, ln_prev = None, ln_next = None\<rparr>"
    by (simp add: t_def)
  have at: "key_at t ?n = k" "val_at t ?n = v" using tn by (simp_all add: key_at_def val_at_def)
  have old: "key_at t q = key_at s q \<and> val_at t q = val_at s q" if "q \<in> set ps" for q
    using that fresh by (auto simp: t_def key_at_def val_at_def)
  have ins: "lru_insert k v s = pushFront ?n t"
    by (simp add: lru_insert_def alloc_def t_def)
  have d: "dll (pushFront ?n t) (?n # ps)" by (rule dll_pushFront [OF dt fresh tn])
  have data: "key_at (pushFront ?n t) q = key_at t q \<and> val_at (pushFront ?n t) q = val_at t q"
    if "q \<in> set (?n # ps)" for q
    using that tn dll_allocated [OF dt] same_data_at [OF same_data_pushFront, of t q] by fastforce
  have m: "lru_m (pushFront ?n t) = fmupd k ?n (lru_m s)" by (simp add: t_def)
  have kn: "key_at (pushFront ?n t) ?n = k" using data at by simp
  have kk: "q \<in> set ps \<Longrightarrow> key_at (pushFront ?n t) q = key_at s q" for q using data old by simp
  have ix: "fmlookup (lru_m s) a = Some q \<longleftrightarrow> q \<in> set ps \<and> key_at s q = a" for a q
    using r by (simp add: lru_rep_def indexed_def)
  have "fmlookup (fmupd k ?n (lru_m s)) a = Some q
      \<longleftrightarrow> q \<in> set (?n # ps) \<and> key_at (pushFront ?n t) q = a" for a q
    using k kn kk ix [of a q] fresh by (cases "q = ?n") auto
  then have "indexed (pushFront ?n t) (?n # ps)" unfolding indexed_def m by blast
  with d show "lru_rep (lru_insert k v s) (?n # ps)" by (simp add: lru_rep_def ins)
  show "lru_list (lru_insert k v s) (?n # ps) = (k, v) # lru_list s ps"
    using data old at by (simp add: ins lru_list_def)
qed

lemma rep_set_val:
  assumes r: "lru_rep s ps"
  shows "lru_rep (set_val p v s) ps"
    and "lru_list (set_val p v s) ps = map (\<lambda>q. (key_at s q, if q = p then v else val_at s q)) ps"
proof -
  have seg: "seg (lru_heap (set_val p v s)) a xs b = seg (lru_heap s) a xs b" for a xs b
    by (induction xs arbitrary: a) (auto simp: set_val_def upd_node_def)
  have k: "key_at (set_val p v s) q = key_at s q
      \<and> val_at (set_val p v s) q = (if q = p then v else val_at s q)" if "q \<in> set ps" for q
    using rep_allocated [OF r that] by (auto simp: set_val_def upd_node_def key_at_def val_at_def)
  have f: "lru_m (set_val p v s) = lru_m s" "lru_head (set_val p v s) = lru_head s"
    "lru_tail (set_val p v s) = lru_tail s" "lru_free (set_val p v s) = lru_free s"
    by (simp_all add: set_val_def upd_node_def)
  have "lru_heap s q = None \<Longrightarrow> lru_heap (set_val p v s) q = None" for q
    by (auto simp: set_val_def upd_node_def)
  then show "lru_rep (set_val p v s) ps"
    using r k by (auto simp: lru_rep_def dll_def indexed_def seg f)
  show "lru_list (set_val p v s) ps = map (\<lambda>q. (key_at s q, if q = p then v else val_at s q)) ps"
    using k by (simp add: lru_list_def)
qed

lemma lru_more_ops [simp]:
  "lru.more (lru_remove p s) = lru.more s" "lru.more (lru_insert k v s) = lru.more s"
  "lru.more (set_val p v s) = lru.more s"
  by (auto simp: lru_remove_def lru_insert_def alloc_def set_val_def upd_node_def Let_def split: option.splits)

section \<open>The list view\<close>

text \<open>\<open>lru_abs s xs\<close>: the structure represents the key-value list \<open>xs\<close>, most
  recently used first. The operations in list terms.\<close>

definition lru_abs :: "('k, 'v, 'z) lru_scheme \<Rightarrow> ('k \<times> 'v) list \<Rightarrow> bool" where
  "lru_abs s xs \<longleftrightarrow> (\<exists>ps. lru_rep s ps \<and> lru_list s ps = xs)"

definition del :: "'k \<Rightarrow> ('k \<times> 'v) list \<Rightarrow> ('k \<times> 'v) list" where
  "del k xs = filter (\<lambda>x. fst x \<noteq> k) xs"

lemma abs_cong:
  assumes "lru_heap s' = lru_heap s" "lru_m s' = lru_m s" "lru_head s' = lru_head s"
    "lru_tail s' = lru_tail s" "lru_free s' = lru_free s"
  shows "lru_abs s' xs = lru_abs s xs"
  unfolding lru_abs_def using rep_cong [OF assms] by simp

lemma abs_len: "lru_abs s xs \<Longrightarrow> size (fmdom (lru_m s)) = length xs"
  unfolding lru_abs_def using rep_size by (metis length_map lru_list_def)

lemma abs_distinct: "lru_abs s xs \<Longrightarrow> distinct (map fst xs)"
  by (auto simp: lru_abs_def rep_distinct_keys)

lemma rep_nodeD:
  "lru_rep s ps \<Longrightarrow> fmlookup (lru_m s) k = Some n \<Longrightarrow> n \<in> set ps \<and> key_at s n = k"
  by (rule rep_lookup(1))

lemma list_remove1:
  assumes r: "lru_rep s ps" and n: "n \<in> set ps"
  shows "lru_list s (remove1 n ps) = del (key_at s n) (lru_list s ps)"
proof -
  have "remove1 n ps = filter (\<lambda>q. key_at s q \<noteq> key_at s n) ps"
    using rep_keys_inj [OF r] rep_distinct [OF r] n
    by (auto simp: distinct_remove1_removeAll removeAll_filter_not_eq inj_on_def intro: filter_cong)
  then show ?thesis by (simp add: lru_list_def del_def filter_map o_def)
qed

lemma abs_lookup: "lru_abs s xs \<Longrightarrow> map_of xs k = map_option (val_at s) (fmlookup (lru_m s) k)"
proof -
  assume "lru_abs s xs"
  then obtain ps where r: "lru_rep s ps" and xs: "xs = lru_list s ps" by (auto simp: lru_abs_def)
  show ?thesis
  proof (cases "fmlookup (lru_m s) k")
    case None
    then show ?thesis using rep_lookup(2) [OF r] by (force simp: xs lru_list_def map_of_eq_None_iff)
  next
    case (Some n)
    then have "(k, val_at s n) \<in> set xs" using rep_nodeD [OF r Some] by (auto simp: xs lru_list_def)
    with Some rep_distinct_keys [OF r] show ?thesis by (simp add: xs)
  qed
qed

lemma abs_move:
  assumes a: "lru_abs s xs" and k: "fmlookup (lru_m s) k = Some n"
  shows "lru_abs (moveToFront n s) ((k, val_at s n) # del k xs)"
    and "val_at (moveToFront n s) n = val_at s n"
proof -
  obtain ps where r: "lru_rep s ps" and xs: "xs = lru_list s ps" using a by (auto simp: lru_abs_def)
  have n: "n \<in> set ps" "key_at s n = k" using rep_nodeD [OF r k] by auto
  have "lru_list s (n # remove1 n ps) = (k, val_at s n) # del k xs"
    using list_remove1 [OF r n(1)] n by (simp add: lru_list_def xs)
  with rep_moveToFront [OF r n(1)] show "lru_abs (moveToFront n s) ((k, val_at s n) # del k xs)"
    by (auto simp: lru_abs_def)
  show "val_at (moveToFront n s) n = val_at s n"
    using rep_allocated [OF r n(1)] same_data_at [OF same_data_moveToFront] by blast
qed

lemma abs_remove:
  assumes a: "lru_abs s xs" and k: "fmlookup (lru_m s) k = Some n"
  shows "lru_abs (lru_remove n s) (del k xs)"
proof -
  obtain ps where r: "lru_rep s ps" and xs: "xs = lru_list s ps" using a by (auto simp: lru_abs_def)
  have n: "n \<in> set ps" "key_at s n = k" using rep_nodeD [OF r k] by auto
  with rep_remove [OF r n(1)] list_remove1 [OF r n(1)] show ?thesis
    by (auto simp: lru_abs_def xs)
qed

lemma abs_tail_None: "lru_abs s xs \<Longrightarrow> lru_tail s = None \<longleftrightarrow> xs = []"
  by (auto simp: lru_abs_def lru_list_def rep_head_tail last_opt_def split: if_splits)

lemma abs_tail:
  assumes a: "lru_abs s xs" and t: "lru_tail s = Some t"
  shows "lru_abs (lru_remove t s) (butlast xs)" and "xs \<noteq> []" and "val_at s t = snd (last xs)"
proof -
  obtain ps where r: "lru_rep s ps" and xs: "xs = lru_list s ps" using a by (auto simp: lru_abs_def)
  have ps: "ps \<noteq> []" "t = last ps"
    using t rep_head_tail(1) [OF r] by (auto simp: last_opt_def split: if_splits)
  then have "remove1 t ps = butlast ps"
    using rep_distinct [OF r] by (metis append_butlast_last_id distinct_butlast
        distinct_remove1_removeAll not_distinct_conv_prefix remove1_append remove1.simps(2) append_Nil2
        remove1.simps(1))
  with rep_remove [OF r, of t] ps show "lru_abs (lru_remove t s) (butlast xs)"
    unfolding lru_abs_def xs by (intro exI [of _ "butlast ps"]) (simp add: lru_list_def map_butlast [symmetric])
  show "xs \<noteq> []" "val_at s t = snd (last xs)" using ps by (auto simp: xs lru_list_def last_map)
qed

lemma abs_insert:
  assumes a: "lru_abs s xs" and k: "fmlookup (lru_m s) k = None"
  shows "lru_abs (lru_insert k v s) ((k, v) # xs)"
  using a rep_insert rep_lookup(2) [OF _ k] by (fastforce simp: lru_abs_def)

lemma abs_set_val:
  assumes a: "lru_abs s xs" and k: "fmlookup (lru_m s) k = Some n"
  shows "lru_abs (set_val n v s) (map (\<lambda>(k', v'). (k', if k' = k then v else v')) xs)"
    and "fmlookup (lru_m (set_val n v s)) k = Some n" and "val_at (set_val n v s) n = v"
proof -
  obtain ps where r: "lru_rep s ps" and xs: "xs = lru_list s ps" using a by (auto simp: lru_abs_def)
  have n: "n \<in> set ps" "key_at s n = k" using rep_nodeD [OF r k] by auto
  have "q \<in> set ps \<Longrightarrow> q = n \<longleftrightarrow> key_at s q = k" for q
    using n rep_keys_inj [OF r] by (auto simp: inj_on_def)
  then have "map (\<lambda>q. (key_at s q, if q = n then v else val_at s q)) ps
      = map (\<lambda>(k', v'). (k', if k' = k then v else v')) xs"
    by (auto simp: xs lru_list_def)
  with rep_set_val [OF r, of n v] show "lru_abs (set_val n v s) (map (\<lambda>(k', v'). (k', if k' = k then v else v')) xs)"
    by (auto simp: lru_abs_def)
  show "fmlookup (lru_m (set_val n v s)) k = Some n" using k by (simp add: set_val_def upd_node_def)
  show "val_at (set_val n v s) n = v"
    using rep_allocated [OF r n(1)] by (auto simp: set_val_def upd_node_def val_at_def)
qed

lemma del_map_val [simp]: "del k (map (\<lambda>(k', v'). (k', if k' = k then v else v')) xs) = del k xs"
  by (induction xs) (auto simp: del_def)

lemma abs_empty: "lru_m s = fmempty \<Longrightarrow> lru_head s = None \<Longrightarrow> lru_tail s = None \<Longrightarrow>
   lru_heap s = Map.empty \<Longrightarrow> lru_abs s []"
  by (auto simp: lru_abs_def lru_rep_def dll_def indexed_def hd_opt_def last_opt_def lru_list_def intro!: exI [of _ "[]"])

section \<open>Eviction loops\<close>

text \<open>
  Both caches shrink a shard with a loop that removes the tail while a
  bound is exceeded. The contract of such a loop: it is its own unfolding,
  and under the invariant each eviction keeps the invariant and shortens the
  list. Such a loop always ends, in a state within bounds, after evicting
  only from states that were over them.
\<close>

locale eviction_loop =
  fixes inv :: "'s \<Rightarrow> bool" and over :: "'s \<Rightarrow> bool" and evict :: "'s \<Rightarrow> 's"
    and loop :: "'s \<Rightarrow> 's option" and len :: "'s \<Rightarrow> nat"
  assumes loop_unfold: "inv s \<Longrightarrow> loop s = (if over s then loop (evict s) else Some s)"
    and evict_inv: "inv s \<Longrightarrow> over s \<Longrightarrow> inv (evict s)"
    and evict_len: "inv s \<Longrightarrow> over s \<Longrightarrow> len (evict s) < len s"
begin

lemma loop_ends:
  "inv s \<Longrightarrow> \<exists>n. loop s = Some ((evict ^^ n) s) \<and> inv ((evict ^^ n) s) \<and> \<not> over ((evict ^^ n) s)
     \<and> (\<forall>m<n. over ((evict ^^ m) s))"
proof (induction "len s" arbitrary: s rule: less_induct)
  case less
  show ?case
  proof (cases "over s")
    case False
    with less.prems show ?thesis by (intro exI [of _ 0]) (simp add: loop_unfold)
  next
    case True
    have "inv (evict s)" "len (evict s) < len s"
      using True less.prems by (simp_all add: evict_inv evict_len)
    from less.hyps [OF this(2,1)] obtain n where n:
      "loop (evict s) = Some ((evict ^^ n) (evict s))" "inv ((evict ^^ n) (evict s))"
      "\<not> over ((evict ^^ n) (evict s))" "\<forall>m<n. over ((evict ^^ m) (evict s))" by blast
    have "over ((evict ^^ m) s)" if "m < Suc n" for m
      using that True n(4) by (cases m) (auto simp: funpow_swap1)
    with n True less.prems show ?thesis
      by (intro exI [of _ "Suc n"]) (simp add: loop_unfold funpow_swap1)
  qed
qed

lemma loop_result:
  assumes "inv s" "P s" "\<And>t. inv t \<Longrightarrow> over t \<Longrightarrow> P t \<Longrightarrow> P (evict t)"
  shows "\<exists>s'. loop s = Some s' \<and> inv s' \<and> \<not> over s' \<and> P s'"
  using assms(1,2)
proof (induction "len s" arbitrary: s rule: less_induct)
  case less
  show ?case
  proof (cases "over s")
    case True
    with less evict_len evict_inv assms(3) show ?thesis by (simp add: loop_unfold)
  qed (use less in \<open>simp add: loop_unfold\<close>)
qed

end

end
