(* ===== verification/Cache.thy ===== *)
theory Cache
  imports Lru Dns
begin

text \<open>
  \<open>internal/cache/cache.go\<close>: the sharded RRset cache. A shard extends the
  pointer-level LRU of theory \<open>Lru\<close> with its bounds and counters; a node's
  value is the entry with the size it was charged. The seeded hash is an
  argument \<open>H\<close>, the clock an argument \<open>now\<close> of each operation, and each
  operation runs under its shard's lock, so it is one state transition.
  \<open>trim\<close> is a \<open>partial_function\<close>; that it ends is proved from the shard
  invariant. Counters and byte totals are unbounded integers. Records of an
  entry are never nil.
\<close>

datatype kind = KindAnswer | KindNegative

record ckey =
  ck_Name :: string
  ck_Type :: u16
  ck_Class :: u16

record centry =
  e_RRs :: "rr list"
  e_Kind :: kind
  e_Rcode :: int
  e_Authenticated :: bool
  e_Validated :: bool
  e_Stored :: gtime
  e_Expiry :: gtime

text \<open>The package's own \<open>CanonicalName\<close>: lower the ASCII letters, without
  copying when there is none to lower.\<close>

definition cache_CanonicalName :: "string \<Rightarrow> string" where
  "cache_CanonicalName s =
     (if \<not> (\<exists>c \<in> set s. CHR ''A'' \<le> c \<and> c \<le> CHR ''Z'') then s
      else map (\<lambda>c. if CHR ''A'' \<le> c \<and> c \<le> CHR ''Z'' then char_of (of_char c + 32 :: nat) else c) s)"

definition NewKey :: "string \<Rightarrow> u16 \<Rightarrow> u16 \<Rightarrow> ckey" where
  "NewKey name qtype qclass = \<lparr>ck_Name = cache_CanonicalName name, ck_Type = qtype, ck_Class = qclass\<rparr>"

definition TTLAt :: "centry \<Rightarrow> gtime \<Rightarrow> u32" where
  "TTLAt e now = (let d = time_Sub (e_Expiry e) now in
     if d \<le> 0 then 0 else word_of_int (d div second))"

definition withTtl :: "dnslib \<Rightarrow> u32 \<Rightarrow> rr \<Rightarrow> rr" where
  "withTtl L ttl r = (let c = Copy L r in c\<lparr>rr_hdr := (rr_hdr c)\<lparr>rh_Ttl := ttl\<rparr>\<rparr>)"

definition RRsAt :: "dnslib \<Rightarrow> centry \<Rightarrow> gtime \<Rightarrow> rr list" where
  "RRsAt L e now = (if e_RRs e = [] then [] else map (withTtl L (TTLAt e now)) (e_RRs e))"

definition StaleRRs :: "dnslib \<Rightarrow> centry \<Rightarrow> duration \<Rightarrow> rr list" where
  "StaleRRs L e ttl = (if e_RRs e = [] then []
     else let secs0 = (word_of_int (sgn ttl * (\<bar>ttl\<bar> div second)) :: u32);
              secs = (if secs0 = 0 then 1 else secs0)
          in map (withTtl L secs) (e_RRs e))"

record coptions =
  co_MaxEntries :: int
  co_MaxBytes :: int
  co_Shards :: int
  co_MinTTL :: duration
  co_MaxTTL :: duration
  co_MaxNegativeTTL :: duration
  co_MaxStale :: duration

record shard = "(ckey, centry \<times> int) lru" +
  sh_max :: int
  sh_maxBytes :: int
  sh_bytes :: int
  sh_hits :: nat
  sh_misses :: nat
  sh_expired :: nat
  sh_evictions :: nat
  sh_inserts :: nat

record cache =
  ca_shards :: "shard list"
  ca_mask :: "64 word"
  ca_opts :: coptions

record cstats =
  st_Entries :: nat
  st_Bytes :: int
  st_Hits :: nat
  st_Misses :: nat
  st_Expired :: nat
  st_Evictions :: nat
  st_Inserts :: nat

definition entryBaseCost :: int where "entryBaseCost = 176"
definition recordBaseCost :: int where "recordBaseCost = 72"
definition rdataFallback :: int where "rdataFallback = 24"

definition entrySize :: "ckey \<Rightarrow> centry \<Rightarrow> int" where
  "entrySize k e = foldl (\<lambda>size r.
       let h = rr_hdr r;
           rdata0 = uint (rh_Rdlength h);
           rdata = (if rdata0 = 0 then rdataFallback else rdata0)
       in size + (recordBaseCost + int (length (rh_Name h)) + rdata))
     (entryBaseCost + int (length (ck_Name k))) (e_RRs e)"

datatype option_error = OptionError string string

definition new_shard :: "int \<Rightarrow> int \<Rightarrow> shard" where
  "new_shard mx mb = lru.extend lru_empty
     (shard.fields mx mb 0 0 0 0 0 0)"

definition cache_New :: "coptions \<Rightarrow> option_error + cache" where
  "cache_New opts =
     (if co_Shards opts \<le> 0 \<or> (co_Shards opts AND (co_Shards opts - 1)) \<noteq> 0
        then Inl (OptionError ''Shards'' ''must be a power of two'')
      else if co_MaxEntries opts < co_Shards opts then Inl (OptionError ''MaxEntries'' ''must be >= Shards'')
      else if co_MaxTTL opts \<le> 0 then Inl (OptionError ''MaxTTL'' ''must be > 0'')
      else if co_MaxNegativeTTL opts \<le> 0 then Inl (OptionError ''MaxNegativeTTL'' ''must be > 0'')
      else
        let perShard = co_MaxEntries opts div co_Shards opts;
            perShardBytes = (if co_MaxBytes opts > 0
               then (let b = co_MaxBytes opts div co_Shards opts in if b < 1 then 1 else b) else 0)
        in Inr \<lparr>ca_shards = replicate (nat (co_Shards opts)) (new_shard perShard perShardBytes),
                ca_mask = word_of_int (co_Shards opts - 1), ca_opts = opts\<rparr>)"

definition shardFor :: "(ckey \<Rightarrow> 64 word) \<Rightarrow> cache \<Rightarrow> ckey \<Rightarrow> nat" where
  "shardFor H c k = unat (H k AND ca_mask c)"

definition put_shard :: "nat \<Rightarrow> shard \<Rightarrow> cache \<Rightarrow> cache" where
  "put_shard i s c = c\<lparr>ca_shards := (ca_shards c)[i := s]\<rparr>"

section \<open>Operations on a shard\<close>

definition entry_at :: "shard \<Rightarrow> nat \<Rightarrow> centry" where
  "entry_at s p = fst (val_at s p)"

definition shard_remove :: "nat \<Rightarrow> shard \<Rightarrow> shard" where
  "shard_remove n s =
     (let size = snd (val_at s n);
          s1 = lru_remove n s;
          s2 = s1\<lparr>sh_bytes := sh_bytes s1 - size\<rparr>
      in if sh_bytes s2 < 0 then s2\<lparr>sh_bytes := 0\<rparr> else s2)"

definition shard_len :: "shard \<Rightarrow> int" where
  "shard_len s = int (size (fmdom (lru_m s)))"

partial_function (option) trim :: "shard \<Rightarrow> shard option" where
  "trim s = (case lru_tail s of
       None \<Rightarrow> Some s
     | Some t \<Rightarrow>
         let overCount = shard_len s > sh_max s;
             overBytes = (sh_maxBytes s > 0 \<and> sh_bytes s > sh_maxBytes s)
         in if \<not> overCount \<and> \<not> overBytes then Some s
            else if overBytes \<and> \<not> overCount \<and> shard_len s \<le> 1 then Some s
            else let s1 = shard_remove t s
                 in trim (s1\<lparr>sh_evictions := Suc (sh_evictions s1)\<rparr>))"

definition shard_get :: "coptions \<Rightarrow> gtime \<Rightarrow> ckey \<Rightarrow> shard \<Rightarrow> centry option \<times> shard" where
  "shard_get opts now k s = (case fmlookup (lru_m s) k of
       None \<Rightarrow> (None, s\<lparr>sh_misses := Suc (sh_misses s)\<rparr>)
     | Some n \<Rightarrow>
         let e = entry_at s n in
         if \<not> now < e_Expiry e then
           let s1 = (if co_MaxStale opts \<le> 0 \<or> \<not> now < e_Expiry e + co_MaxStale opts
                     then shard_remove n s else s)
           in (None, s1\<lparr>sh_expired := Suc (sh_expired s1), sh_misses := Suc (sh_misses s1)\<rparr>)
         else
           let s1 = moveToFront n s in (Some (entry_at s1 n), s1\<lparr>sh_hits := Suc (sh_hits s1)\<rparr>))"

definition shard_getStale :: "coptions \<Rightarrow> gtime \<Rightarrow> ckey \<Rightarrow> shard \<Rightarrow> centry option \<times> shard" where
  "shard_getStale opts now k s = (case fmlookup (lru_m s) k of
       None \<Rightarrow> (None, s)
     | Some n \<Rightarrow>
         let e = entry_at s n in
         if now < e_Expiry e then (None, s)
         else if \<not> now < e_Expiry e + co_MaxStale opts then (None, shard_remove n s)
         else (Some e, s))"

definition shard_put :: "ckey \<Rightarrow> centry \<Rightarrow> shard \<Rightarrow> shard option" where
  "shard_put k e s =
     (let size = entrySize k e in
      case fmlookup (lru_m s) k of
        Some n \<Rightarrow>
          let s1 = s\<lparr>sh_bytes := sh_bytes s + (size - snd (val_at s n))\<rparr>;
              s2 = moveToFront n (set_val n (e, size) s1)
          in trim (s2\<lparr>sh_inserts := Suc (sh_inserts s2)\<rparr>)
      | None \<Rightarrow>
          let s1 = lru_insert k (e, size) s;
              s2 = s1\<lparr>sh_bytes := sh_bytes s1 + size\<rparr>
          in trim (s2\<lparr>sh_inserts := Suc (sh_inserts s2)\<rparr>))"

section \<open>Operations on the cache\<close>

definition cache_Get :: "(ckey \<Rightarrow> 64 word) \<Rightarrow> gtime \<Rightarrow> ckey \<Rightarrow> cache \<Rightarrow> centry option \<times> cache" where
  "cache_Get H now k c =
     (let i = shardFor H c k; (r, s) = shard_get (ca_opts c) now k (ca_shards c ! i)
      in (r, put_shard i s c))"

definition cache_GetStale :: "(ckey \<Rightarrow> 64 word) \<Rightarrow> gtime \<Rightarrow> ckey \<Rightarrow> cache \<Rightarrow> centry option \<times> cache" where
  "cache_GetStale H now k c =
     (if co_MaxStale (ca_opts c) \<le> 0 then (None, c)
      else let i = shardFor H c k; (r, s) = shard_getStale (ca_opts c) now k (ca_shards c ! i)
           in (r, put_shard i s c))"

definition cache_Peek :: "(ckey \<Rightarrow> 64 word) \<Rightarrow> gtime \<Rightarrow> ckey \<Rightarrow> cache \<Rightarrow> centry option" where
  "cache_Peek H now k c =
     (let s = ca_shards c ! shardFor H c k in
      case fmlookup (lru_m s) k of
        None \<Rightarrow> None
      | Some n \<Rightarrow> if \<not> now < e_Expiry (entry_at s n) then None else Some (entry_at s n))"

definition clamp :: "coptions \<Rightarrow> kind \<Rightarrow> duration \<Rightarrow> duration" where
  "clamp opts kd ttl =
     (if kd = KindNegative then (if ttl > co_MaxNegativeTTL opts then co_MaxNegativeTTL opts else ttl)
      else let ttl1 = (if ttl < co_MinTTL opts then co_MinTTL opts else ttl)
           in if ttl1 > co_MaxTTL opts then co_MaxTTL opts else ttl1)"

definition cache_Put :: "(ckey \<Rightarrow> 64 word) \<Rightarrow> gtime \<Rightarrow> ckey \<Rightarrow> centry \<Rightarrow> duration \<Rightarrow> cache \<Rightarrow> cache option" where
  "cache_Put H now k e ttl0 c =
     (let ttl = clamp (ca_opts c) (e_Kind e) ttl0 in
      if ttl \<le> 0 then Some c
      else let e1 = e\<lparr>e_Stored := now, e_Expiry := now + ttl\<rparr>; i = shardFor H c k
           in map_option (\<lambda>s. put_shard i s c) (shard_put k e1 (ca_shards c ! i)))"

definition minTtl :: "rr \<Rightarrow> rr list \<Rightarrow> u32" where
  "minTtl r0 rest = foldl (\<lambda>m r. if rh_Ttl (rr_hdr r) < m then rh_Ttl (rr_hdr r) else m)
     (rh_Ttl (rr_hdr r0)) rest"

definition putRRset :: "(ckey \<Rightarrow> 64 word) \<Rightarrow> gtime \<Rightarrow> ckey \<Rightarrow> rr list \<Rightarrow> bool \<Rightarrow> bool \<Rightarrow> cache \<Rightarrow> cache option" where
  "putRRset H now k rrs authenticated validated c = (case rrs of
       [] \<Rightarrow> Some c
     | r0 # rest \<Rightarrow>
         cache_Put H now k \<lparr>e_RRs = rrs, e_Kind = KindAnswer, e_Rcode = RcodeSuccess,
           e_Authenticated = authenticated, e_Validated = validated, e_Stored = 0, e_Expiry = 0\<rparr>
           (uint (minTtl r0 rest) * second) c)"

definition PutValidated :: "(ckey \<Rightarrow> 64 word) \<Rightarrow> gtime \<Rightarrow> ckey \<Rightarrow> rr list \<Rightarrow> bool \<Rightarrow> cache \<Rightarrow> cache option" where
  "PutValidated H now k rrs authenticated c = putRRset H now k rrs authenticated True c"

definition PutRRset :: "(ckey \<Rightarrow> 64 word) \<Rightarrow> gtime \<Rightarrow> ckey \<Rightarrow> rr list \<Rightarrow> bool \<Rightarrow> cache \<Rightarrow> cache option" where
  "PutRRset H now k rrs authenticated c = putRRset H now k rrs authenticated False c"

definition PutNegative :: "(ckey \<Rightarrow> 64 word) \<Rightarrow> gtime \<Rightarrow> ckey \<Rightarrow> int \<Rightarrow> rr list \<Rightarrow> duration \<Rightarrow> bool \<Rightarrow> cache \<Rightarrow> cache option" where
  "PutNegative H now k rcode soa ttl authenticated c =
     cache_Put H now k \<lparr>e_RRs = soa, e_Kind = KindNegative, e_Rcode = rcode,
       e_Authenticated = authenticated, e_Validated = False, e_Stored = 0, e_Expiry = 0\<rparr> ttl c"

definition cache_Remove :: "(ckey \<Rightarrow> 64 word) \<Rightarrow> ckey \<Rightarrow> cache \<Rightarrow> bool \<times> cache" where
  "cache_Remove H k c =
     (let i = shardFor H c k; s = ca_shards c ! i in
      case fmlookup (lru_m s) k of
        None \<Rightarrow> (False, c)
      | Some n \<Rightarrow> (True, put_shard i (shard_remove n s) c))"

definition cache_Len :: "cache \<Rightarrow> nat" where
  "cache_Len c = sum_list (map (\<lambda>s. size (fmdom (lru_m s))) (ca_shards c))"

definition cache_Stats :: "cache \<Rightarrow> cstats" where
  "cache_Stats c = foldl (\<lambda>st s. \<lparr>st_Entries = st_Entries st + size (fmdom (lru_m s)),
       st_Bytes = st_Bytes st + sh_bytes s, st_Hits = st_Hits st + sh_hits s,
       st_Misses = st_Misses st + sh_misses s, st_Expired = st_Expired st + sh_expired s,
       st_Evictions = st_Evictions st + sh_evictions s, st_Inserts = st_Inserts st + sh_inserts s\<rparr>)
     \<lparr>st_Entries = 0, st_Bytes = 0, st_Hits = 0, st_Misses = 0, st_Expired = 0, st_Evictions = 0, st_Inserts = 0\<rparr>
     (ca_shards c)"

end
