(* ===== verification/Cache_Correct.thy ===== *)
theory Cache_Correct
  imports Cache
begin

text \<open>
  The cache against its specification. A shard specifies a list of keyed
  entries, most recently used first; \<open>shard_abs\<close> relates the pointer-level
  shard to that list and to the byte total. \<open>a_trim\<close>, \<open>a_put\<close> and the
  lookups below are the list-level operations; the refinement lemmas carry
  the pointer operations over to them, and the properties of the cache
  (bounds, freshness, LRU order) are then facts about lists.
\<close>

section \<open>The specification\<close>

type_synonym clist = "(ckey \<times> centry \<times> int) list"

definition a_bytes :: "clist \<Rightarrow> int" where
  "a_bytes xs = sum_list (map (\<lambda>x. snd (snd x)) xs)"

definition a_over :: "int \<Rightarrow> int \<Rightarrow> clist \<Rightarrow> bool" where
  "a_over mx mb xs \<longleftrightarrow> xs \<noteq> [] \<and>
     (int (length xs) > mx \<or> (mb > 0 \<and> a_bytes xs > mb \<and> length xs > 1))"

function a_trim :: "int \<Rightarrow> int \<Rightarrow> clist \<Rightarrow> clist" where
  "a_trim mx mb xs = (if a_over mx mb xs then a_trim mx mb (butlast xs) else xs)"
  by pat_completeness auto
termination
  by (relation "measure (\<lambda>(mx, mb, xs). length xs)") (auto simp: a_over_def)

declare a_trim.simps [simp del]

definition a_put :: "int \<Rightarrow> int \<Rightarrow> ckey \<Rightarrow> centry \<Rightarrow> clist \<Rightarrow> clist" where
  "a_put mx mb k e xs = a_trim mx mb ((k, e, entrySize k e) # del k xs)"

definition shard_abs :: "shard \<Rightarrow> clist \<Rightarrow> bool" where
  "shard_abs s xs \<longleftrightarrow> lru_abs s xs \<and> sh_bytes s = a_bytes xs \<and> (\<forall>x \<in> set xs. 0 \<le> snd (snd x))"

section \<open>Refinement\<close>

lemma lru_abs_fields [simp]:
  "lru_abs (s\<lparr>sh_misses := a\<rparr>) xs = lru_abs s xs" "lru_abs (s\<lparr>sh_hits := a\<rparr>) xs = lru_abs s xs"
  "lru_abs (s\<lparr>sh_expired := a\<rparr>) xs = lru_abs s xs" "lru_abs (s\<lparr>sh_evictions := a\<rparr>) xs = lru_abs s xs"
  "lru_abs (s\<lparr>sh_inserts := a\<rparr>) xs = lru_abs s xs" "lru_abs (s\<lparr>sh_bytes := b\<rparr>) xs = lru_abs s xs"
  for s :: shard
  by (rule abs_cong; simp)+

lemma shard_abs_fields [simp]:
  "shard_abs (s\<lparr>sh_misses := a\<rparr>) xs = shard_abs s xs"
  "shard_abs (s\<lparr>sh_hits := a\<rparr>) xs = shard_abs s xs"
  "shard_abs (s\<lparr>sh_expired := a\<rparr>) xs = shard_abs s xs"
  "shard_abs (s\<lparr>sh_evictions := a\<rparr>) xs = shard_abs s xs"
  "shard_abs (s\<lparr>sh_inserts := a\<rparr>) xs = shard_abs s xs"
  by (simp_all add: shard_abs_def)

lemma entrySize_nonneg: "0 \<le> entrySize k e"
proof -
  let ?f = "\<lambda>size (r :: rr). let h = rr_hdr r; rdata0 = uint (rh_Rdlength h);
      rdata = (if rdata0 = 0 then rdataFallback else rdata0)
    in size + (recordBaseCost + int (length (rh_Name h)) + rdata)"
  have "0 \<le> (b :: int) \<Longrightarrow> 0 \<le> foldl ?f b rs" for b rs
    by (rule foldl_invariant) (auto simp: recordBaseCost_def rdataFallback_def Let_def)
  then show ?thesis unfolding entrySize_def entryBaseCost_def by simp
qed

lemma a_bytes_nonneg: "\<forall>x \<in> set xs. 0 \<le> snd (snd x) \<Longrightarrow> 0 \<le> a_bytes xs"
  by (induction xs) (auto simp: a_bytes_def)

lemma a_bytes_del:
  "distinct (map fst xs) \<Longrightarrow> map_of xs k = Some v \<Longrightarrow> a_bytes (del k xs) = a_bytes xs - snd v"
proof (induction xs)
  case (Cons x xs)
  show ?case
  proof (cases "fst x = k")
    case True
    with Cons.prems(1) have "k \<notin> fst ` set xs" by simp
    then have "del k xs = xs" unfolding del_def by (intro filter_True) auto
    with True Cons.prems show ?thesis by (auto simp: del_def a_bytes_def)
  next
    case False
    with Cons show ?thesis by (cases x) (auto simp: del_def a_bytes_def)
  qed
qed simp

lemma a_bytes_butlast: "xs \<noteq> [] \<Longrightarrow> a_bytes (butlast xs) = a_bytes xs - snd (snd (last xs))"
  by (induction xs rule: rev_induct) (auto simp: a_bytes_def)

lemma shard_config_relink [simp]:
  "sh_max (unlink n s) = sh_max s" "sh_maxBytes (unlink n s) = sh_maxBytes s" "sh_bytes (unlink n s) = sh_bytes s"
  "sh_max (pushFront n s) = sh_max s" "sh_maxBytes (pushFront n s) = sh_maxBytes s" "sh_bytes (pushFront n s) = sh_bytes s"
  for s :: shard
  by (auto simp: lru_op_defs Let_def split: option.splits)

lemma shard_config_ops [simp]:
  "sh_max (moveToFront n s) = sh_max s" "sh_maxBytes (moveToFront n s) = sh_maxBytes s"
  "sh_bytes (moveToFront n s) = sh_bytes s"
  "sh_max (lru_remove n s) = sh_max s" "sh_maxBytes (lru_remove n s) = sh_maxBytes s"
  "sh_bytes (lru_remove n s) = sh_bytes s"
  "sh_max (lru_insert k v s) = sh_max s" "sh_maxBytes (lru_insert k v s) = sh_maxBytes s"
  "sh_bytes (lru_insert k v s) = sh_bytes s"
  "sh_max (set_val n v s) = sh_max s" "sh_maxBytes (set_val n v s) = sh_maxBytes s"
  "sh_bytes (set_val n v s) = sh_bytes s"
  for s :: shard
  by (auto simp: moveToFront_def lru_remove_def lru_insert_def alloc_def set_val_def upd_node_def
      Let_def split: option.splits)

lemma shard_config_remove [simp]:
  "sh_max (shard_remove n s) = sh_max s" "sh_maxBytes (shard_remove n s) = sh_maxBytes s"
  by (auto simp: shard_remove_def Let_def)

lemma set_del: "set (del k xs) \<subseteq> set xs"
  by (auto simp: del_def)

lemma abs_remove_key:
  assumes a: "shard_abs s xs" and k: "fmlookup (lru_m s) k = Some n"
  shows "shard_abs (shard_remove n s) (del k xs)"
proof -
  have l: "lru_abs s xs" using a by (simp add: shard_abs_def)
  have v: "map_of xs k = Some (val_at s n)" using abs_lookup [OF l, of k] k by simp
  have b: "a_bytes (del k xs) = sh_bytes s - snd (val_at s n)"
    using a_bytes_del [OF abs_distinct [OF l] v] a by (simp add: shard_abs_def)
  have nn: "\<forall>x \<in> set (del k xs). 0 \<le> snd (snd x)" using a set_del by (fastforce simp: shard_abs_def)
  show ?thesis
    using abs_remove [OF l k] b nn a_bytes_nonneg [OF nn]
    by (simp add: shard_abs_def shard_remove_def Let_def)
qed

lemma abs_evict:
  assumes a: "shard_abs s xs" and t: "lru_tail s = Some t"
  shows "shard_abs (shard_remove t s) (butlast xs)"
proof -
  have l: "lru_abs s xs" using a by (simp add: shard_abs_def)
  note T = abs_tail [OF l t]
  have nn: "\<forall>x \<in> set (butlast xs). 0 \<le> snd (snd x)"
    using a by (auto simp: shard_abs_def dest: in_set_butlastD)
  have b: "a_bytes (butlast xs) = sh_bytes s - snd (val_at s t)"
    using a_bytes_butlast [OF T(2)] a T(3) by (simp add: shard_abs_def)
  show ?thesis
    using T(1) b nn a_bytes_nonneg [OF nn] by (simp add: shard_abs_def shard_remove_def Let_def)
qed

lemma abs_move_key:
  assumes a: "shard_abs s xs" and k: "fmlookup (lru_m s) k = Some n"
  shows "shard_abs (moveToFront n s) ((k, val_at s n) # del k xs)"
proof -
  have l: "lru_abs s xs" using a by (simp add: shard_abs_def)
  have v: "map_of xs k = Some (val_at s n)" using abs_lookup [OF l, of k] k by simp
  have "a_bytes ((k, val_at s n) # del k xs) = a_bytes xs"
    using a_bytes_del [OF abs_distinct [OF l] v] by (simp add: a_bytes_def)
  moreover have "0 \<le> snd (val_at s n)"
    using map_of_SomeD [OF v] a by (fastforce simp: shard_abs_def)
  ultimately show ?thesis
    using abs_move(1) [OF l k] a set_del by (fastforce simp: shard_abs_def)
qed

subsection \<open>The eviction loop\<close>

definition sh_over :: "shard \<Rightarrow> bool" where
  "sh_over s \<longleftrightarrow> lru_tail s \<noteq> None \<and>
     (shard_len s > sh_max s \<or> (sh_maxBytes s > 0 \<and> sh_bytes s > sh_maxBytes s \<and> shard_len s > 1))"

definition sh_evict :: "shard \<Rightarrow> shard" where
  "sh_evict s = (let s1 = shard_remove (the (lru_tail s)) s in s1\<lparr>sh_evictions := Suc (sh_evictions s1)\<rparr>)"

lemma sh_over_abs: "shard_abs s xs \<Longrightarrow> sh_over s = a_over (sh_max s) (sh_maxBytes s) xs"
  using abs_len [of s xs] abs_tail_None [of s xs]
  by (auto simp: sh_over_def a_over_def shard_abs_def shard_len_def)

lemma sh_evict_abs: "shard_abs s xs \<Longrightarrow> sh_over s \<Longrightarrow> shard_abs (sh_evict s) (butlast xs)"
  using abs_evict by (auto simp: sh_evict_def sh_over_def Let_def)

lemma sh_evict_config [simp]: "sh_max (sh_evict s) = sh_max s" "sh_maxBytes (sh_evict s) = sh_maxBytes s"
  by (simp_all add: sh_evict_def Let_def)

lemma trim_step: "trim s = (if sh_over s then trim (sh_evict s) else Some s)"
  by (subst trim.simps) (auto simp: sh_over_def sh_evict_def Let_def split: option.splits)

interpretation trim_loop: eviction_loop "\<lambda>s. \<exists>xs. shard_abs s xs" sh_over sh_evict trim
  "\<lambda>s. size (fmdom (lru_m s))"
proof unfold_locales
  fix s :: shard
  show "trim s = (if sh_over s then trim (sh_evict s) else Some s)" by (rule trim_step)
  assume "\<exists>xs. shard_abs s xs" "sh_over s"
  then obtain xs where xs: "shard_abs s xs" "shard_abs (sh_evict s) (butlast xs)"
    using sh_evict_abs by blast
  then show "\<exists>xs. shard_abs (sh_evict s) xs" by blast
  have "xs \<noteq> []" using sh_over_abs [OF xs(1)] \<open>sh_over s\<close> by (simp add: a_over_def)
  with xs show "size (fmdom (lru_m (sh_evict s))) < size (fmdom (lru_m s))"
    using abs_len [of s xs] abs_len [of "sh_evict s" "butlast xs"] by (simp add: shard_abs_def)
qed

lemma trim_refines:
  assumes "shard_abs s xs"
  shows "\<exists>s'. trim s = Some s' \<and> shard_abs s' (a_trim (sh_max s) (sh_maxBytes s) xs)
    \<and> sh_max s' = sh_max s \<and> sh_maxBytes s' = sh_maxBytes s"
proof -
  let ?P = "\<lambda>t. \<exists>ys. shard_abs t ys \<and> a_trim (sh_max s) (sh_maxBytes s) ys = a_trim (sh_max s) (sh_maxBytes s) xs
    \<and> sh_max t = sh_max s \<and> sh_maxBytes t = sh_maxBytes s"
  have step: "?P (sh_evict t)" if "?P t" "sh_over t" for t
  proof -
    obtain ys where ys: "shard_abs t ys" "a_trim (sh_max s) (sh_maxBytes s) ys = a_trim (sh_max s) (sh_maxBytes s) xs"
      "sh_max t = sh_max s" "sh_maxBytes t = sh_maxBytes s" using \<open>?P t\<close> by blast
    have "a_over (sh_max s) (sh_maxBytes s) ys" using sh_over_abs [OF ys(1)] that(2) ys(3,4) by simp
    then have "a_trim (sh_max s) (sh_maxBytes s) (butlast ys) = a_trim (sh_max s) (sh_maxBytes s) xs"
      using ys(2) a_trim.simps [of "sh_max s" "sh_maxBytes s" ys] by simp
    with sh_evict_abs [OF ys(1) that(2)] ys(3,4) show ?thesis by (intro exI [of _ "butlast ys"]) simp
  qed
  obtain s' ys where s': "trim s = Some s'" "\<not> sh_over s'" "shard_abs s' ys"
      "a_trim (sh_max s) (sh_maxBytes s) ys = a_trim (sh_max s) (sh_maxBytes s) xs"
      "sh_max s' = sh_max s" "sh_maxBytes s' = sh_maxBytes s"
    using trim_loop.loop_result [of s ?P] assms step by blast
  have "\<not> a_over (sh_max s) (sh_maxBytes s) ys"
    using sh_over_abs [OF s'(3)] s'(2,5,6) by simp
  then have "a_trim (sh_max s) (sh_maxBytes s) ys = ys"
    using a_trim.simps [of "sh_max s" "sh_maxBytes s" ys] by simp
  with s' show ?thesis by auto
qed

subsection \<open>Put and Get\<close>

lemma put_refines:
  assumes a: "shard_abs s xs"
  shows "\<exists>s'. shard_put k e s = Some s' \<and> shard_abs s' (a_put (sh_max s) (sh_maxBytes s) k e xs)
    \<and> sh_max s' = sh_max s \<and> sh_maxBytes s' = sh_maxBytes s"
proof -
  let ?z = "entrySize k e"
  have l: "lru_abs s xs" and b: "sh_bytes s = a_bytes xs" and nn: "\<forall>x \<in> set xs. 0 \<le> snd (snd x)"
    using a by (simp_all add: shard_abs_def)
  have nd: "\<forall>x \<in> set (del k xs). 0 \<le> snd (snd x)" using nn set_del by fastforce
  show ?thesis
  proof (cases "fmlookup (lru_m s) k")
    case None
    let ?t = "(lru_insert k (e, ?z) s)\<lparr>sh_bytes := sh_bytes s + ?z\<rparr>"
    have "map_of xs k = None" using abs_lookup [OF l, of k] None by simp
    then have d: "del k xs = xs" by (force simp: del_def map_of_eq_None_iff intro!: filter_True)
    have "shard_abs ?t ((k, e, ?z) # del k xs)"
      using abs_insert [OF l None] nn entrySize_nonneg [of k e] b
      by (simp add: shard_abs_def a_bytes_def d)
    then have "shard_abs (?t\<lparr>sh_inserts := n\<rparr>) ((k, e, ?z) # del k xs)" for n by simp
    from trim_refines [OF this] None show ?thesis
      by (simp add: shard_put_def a_put_def Let_def)
  next
    case (Some n)
    let ?s1 = "s\<lparr>sh_bytes := sh_bytes s + (?z - snd (val_at s n))\<rparr>"
    let ?s2 = "set_val n (e, ?z) ?s1"
    let ?t = "moveToFront n ?s2"
    have v: "map_of xs k = Some (val_at s n)" using abs_lookup [OF l, of k] Some by simp
    have l1: "lru_abs ?s1 xs" and m1: "fmlookup (lru_m ?s1) k = Some n" using l Some by simp_all
    note S = abs_set_val [OF l1 m1, of "(e, ?z)"]
    have "lru_abs ?t ((k, e, ?z) # del k xs)" using abs_move(1) [OF S(1,2)] S(3) by simp
    moreover have "sh_bytes ?t = a_bytes ((k, e, ?z) # del k xs)"
      using a_bytes_del [OF abs_distinct [OF l] v] b by (simp add: a_bytes_def)
    ultimately have "shard_abs ?t ((k, e, ?z) # del k xs)"
      using nd entrySize_nonneg [of k e] by (simp add: shard_abs_def)
    then have "shard_abs (?t\<lparr>sh_inserts := j\<rparr>) ((k, e, ?z) # del k xs)" for j by simp
    from trim_refines [OF this] Some show ?thesis
      by (simp add: shard_put_def a_put_def Let_def)
  qed
qed

definition a_get :: "coptions \<Rightarrow> gtime \<Rightarrow> ckey \<Rightarrow> clist \<Rightarrow> centry option \<times> clist" where
  "a_get opts now k xs = (case map_of xs k of
       None \<Rightarrow> (None, xs)
     | Some (e, z) \<Rightarrow>
         if now < e_Expiry e then (Some e, (k, e, z) # del k xs)
         else (None, if co_MaxStale opts \<le> 0 \<or> \<not> now < e_Expiry e + co_MaxStale opts then del k xs else xs))"

definition a_getStale :: "coptions \<Rightarrow> gtime \<Rightarrow> ckey \<Rightarrow> clist \<Rightarrow> centry option \<times> clist" where
  "a_getStale opts now k xs = (case map_of xs k of
       None \<Rightarrow> (None, xs)
     | Some (e, z) \<Rightarrow>
         if now < e_Expiry e then (None, xs)
         else if now < e_Expiry e + co_MaxStale opts then (Some e, xs) else (None, del k xs))"

lemma get_refines:
  assumes a: "shard_abs s xs"
  shows "fst (shard_get opts now k s) = fst (a_get opts now k xs)
    \<and> shard_abs (snd (shard_get opts now k s)) (snd (a_get opts now k xs))
    \<and> sh_max (snd (shard_get opts now k s)) = sh_max s \<and> sh_maxBytes (snd (shard_get opts now k s)) = sh_maxBytes s"
proof -
  have l: "lru_abs s xs" using a by (simp add: shard_abs_def)
  show ?thesis
  proof (cases "fmlookup (lru_m s) k")
    case None
    then show ?thesis using abs_lookup [OF l, of k] a by (simp add: shard_get_def a_get_def)
  next
    case (Some n)
    obtain e z where v: "val_at s n = (e, z)" by fastforce
    have m: "map_of xs k = Some (e, z)" using abs_lookup [OF l, of k] Some v by simp
    have e: "entry_at s n = e" "entry_at (moveToFront n s) n = e"
      using v abs_move(2) [OF l Some] by (simp_all add: entry_at_def)
    show ?thesis
      using a abs_remove_key [OF a Some] abs_move_key [OF a Some] Some e m v
      by (auto simp: shard_get_def a_get_def Let_def)
  qed
qed

lemma getStale_refines:
  assumes a: "shard_abs s xs"
  shows "fst (shard_getStale opts now k s) = fst (a_getStale opts now k xs)
    \<and> shard_abs (snd (shard_getStale opts now k s)) (snd (a_getStale opts now k xs))
    \<and> sh_max (snd (shard_getStale opts now k s)) = sh_max s
    \<and> sh_maxBytes (snd (shard_getStale opts now k s)) = sh_maxBytes s"
proof -
  have l: "lru_abs s xs" using a by (simp add: shard_abs_def)
  show ?thesis
  proof (cases "fmlookup (lru_m s) k")
    case None
    then show ?thesis using abs_lookup [OF l, of k] a by (simp add: shard_getStale_def a_getStale_def)
  next
    case (Some n)
    obtain e z where v: "val_at s n = (e, z)" by fastforce
    have m: "map_of xs k = Some (e, z)" using abs_lookup [OF l, of k] Some v by simp
    have e: "entry_at s n = e" using v by (simp add: entry_at_def)
    show ?thesis
      using a abs_remove_key [OF a Some] Some e m
      by (auto simp: shard_getStale_def a_getStale_def Let_def)
  qed
qed

section \<open>Facts about the specification\<close>

lemma a_trim_prefix: "\<exists>n. a_trim mx mb xs = take n xs"
proof (induction mx mb xs rule: a_trim.induct)
  case (1 mx mb xs)
  show ?case
  proof (cases "a_over mx mb xs")
    case True
    with 1 obtain n where "a_trim mx mb (butlast xs) = take n (butlast xs)" by blast
    with True show ?thesis
      by (simp add: a_trim.simps [of mx mb xs] butlast_conv_take) blast
  next
    case False
    then show ?thesis by (simp add: a_trim.simps [of mx mb xs]) (metis take_all_iff order_refl)
  qed
qed

lemma a_trim_not_over: "\<not> a_over mx mb (a_trim mx mb xs)"
  by (induction mx mb xs rule: a_trim.induct) (simp add: a_trim.simps)

lemma a_trim_Cons: "1 \<le> mx \<Longrightarrow> \<exists>ys n. a_trim mx mb (x # xs) = x # ys \<and> ys = take n xs"
proof (induction xs rule: rev_induct)
  case Nil
  then show ?case by (simp add: a_trim.simps [of mx mb "[x]"] a_over_def)
next
  case (snoc y xs)
  show ?case
  proof (cases "a_over mx mb (x # xs @ [y])")
    case True
    from snoc obtain n where n: "a_trim mx mb (x # xs) = x # take n xs" by blast
    have "a_trim mx mb (x # xs @ [y]) = a_trim mx mb (x # xs)"
      using True by (simp add: a_trim.simps [of mx mb "x # xs @ [y]"] butlast_append)
    moreover have "take n xs = take (min n (length xs)) (xs @ [y])" by (simp add: min_def)
    ultimately show ?thesis using n by (intro exI [of _ "take n xs"] exI [of _ "min n (length xs)"]) simp
  next
    case False
    then show ?thesis
      by (intro exI [of _ "xs @ [y]"] exI [of _ "Suc (length xs)"]) (simp add: a_trim.simps [of mx mb "x # xs @ [y]"])
  qed
qed

definition within :: "int \<Rightarrow> int \<Rightarrow> clist \<Rightarrow> bool" where
  "within mx mb xs \<longleftrightarrow> int (length xs) \<le> mx \<and> (mb > 0 \<longrightarrow> a_bytes xs \<le> mb \<or> length xs \<le> 1)"

lemma a_put_within: "1 \<le> mx \<Longrightarrow> within mx mb (a_put mx mb k e xs)"
  using a_trim_not_over [of mx mb "(k, e, entrySize k e) # del k xs"]
  by (auto simp: within_def a_put_def a_over_def)

lemma a_put_front:
  assumes "1 \<le> mx"
  shows "\<exists>n. a_put mx mb k e xs = (k, e, entrySize k e) # take n (del k xs)"
  using a_trim_Cons [OF assms, of mb "(k, e, entrySize k e)" "del k xs"] by (auto simp: a_put_def)

lemma length_del: "length (del k xs) \<le> length xs"
  by (simp add: del_def)

lemma a_bytes_filter_le: "\<forall>x \<in> set xs. 0 \<le> snd (snd x) \<Longrightarrow> a_bytes (filter P xs) \<le> a_bytes xs"
  by (induction xs) (auto simp: a_bytes_def)

lemma within_del: "\<forall>x \<in> set xs. 0 \<le> snd (snd x) \<Longrightarrow> within mx mb xs \<Longrightarrow> within mx mb (del k xs)"
  using length_del [of k xs] a_bytes_filter_le [of xs "\<lambda>x. fst x \<noteq> k"] unfolding within_def del_def by linarith

lemma map_of_del: "map_of (del k xs) = (map_of xs)(k := None)"
  by (induction xs) (auto simp: del_def)

lemma length_del_Some: "map_of xs k \<noteq> None \<Longrightarrow> length (del k xs) < length xs"
  by (induction xs) (auto simp: del_def le_imp_less_Suc)

lemma a_bytes_front:
  "distinct (map fst xs) \<Longrightarrow> map_of xs k = Some v \<Longrightarrow> a_bytes ((k, v) # del k xs) = a_bytes xs"
  using a_bytes_del [of xs k v] by (simp add: a_bytes_def)

section \<open>The invariant of the cache\<close>

text \<open>Every shard represents a list within its bounds, and holds only keys that
  hash to it.\<close>

definition owned :: "(ckey \<Rightarrow> 64 word) \<Rightarrow> cache \<Rightarrow> nat \<Rightarrow> ckey set" where
  "owned H c i = {k. shardFor H c k = i}"

lemma owned_self [simp]: "k \<in> owned H c (shardFor H c k)"
  by (simp add: owned_def)

definition shard_ok :: "(ckey \<Rightarrow> 64 word) \<Rightarrow> cache \<Rightarrow> nat \<Rightarrow> clist \<Rightarrow> bool" where
  "shard_ok H c i xs \<longleftrightarrow> (let s = ca_shards c ! i in
     shard_abs s xs \<and> within (sh_max s) (sh_maxBytes s) xs \<and> fst ` set xs \<subseteq> owned H c i)"

definition cache_ok :: "(ckey \<Rightarrow> 64 word) \<Rightarrow> cache \<Rightarrow> bool" where
  "cache_ok H c \<longleftrightarrow> length (ca_shards c) = Suc (unat (ca_mask c))
     \<and> (\<forall>s \<in> set (ca_shards c). 1 \<le> sh_max s \<and> sh_max s = co_MaxEntries (ca_opts c) div int (length (ca_shards c)))
     \<and> (\<forall>i < length (ca_shards c). \<exists>xs. shard_ok H c i xs)"

lemma shardFor_bound: "cache_ok H c \<Longrightarrow> shardFor H c k < length (ca_shards c)"
  using word_and_le1 [of "H k" "ca_mask c"]
  by (simp add: cache_ok_def shardFor_def word_le_nat_alt word_and_le1 word_and_le2 le_imp_less_Suc)

lemma put_shard_simps [simp]:
  "ca_mask (put_shard i s c) = ca_mask c" "ca_opts (put_shard i s c) = ca_opts c"
  "ca_shards (put_shard i s c) = (ca_shards c)[i := s]" "shardFor H (put_shard i s c) = shardFor H c"
  "owned H (put_shard i s c) j = owned H c j"
  by (simp_all add: put_shard_def shardFor_def owned_def fun_eq_iff)

text \<open>An operation on one shard that keeps the shard's bounds and its
  membership condition keeps the invariant of the whole cache.\<close>

lemma cache_ok_put_shard:
  assumes ok: "cache_ok H c" and i: "i < length (ca_shards c)"
    and cfg: "sh_max s = sh_max (ca_shards c ! i)"
    and xs: "shard_abs s xs" "within (sh_max s) (sh_maxBytes s) xs" "fst ` set xs \<subseteq> owned H c i"
  shows "cache_ok H (put_shard i s c)"
proof -
  have "\<exists>xs. shard_ok H (put_shard i s c) j xs" if "j < length (ca_shards c)" for j
  proof (cases "j = i")
    case True
    with xs i show ?thesis by (auto simp: shard_ok_def)
  next
    case False
    with ok that show ?thesis by (auto simp: shard_ok_def cache_ok_def)
  qed
  moreover have "1 \<le> sh_max t \<and> sh_max t = co_MaxEntries (ca_opts c) div int (length (ca_shards c))"
    if "t \<in> set ((ca_shards c)[i := s])" for t
  proof -
    have "t = s \<or> t \<in> set (ca_shards c)" using that set_update_subset_insert by fastforce
    moreover have "ca_shards c ! i \<in> set (ca_shards c)" using i by simp
    ultimately show ?thesis using ok cfg unfolding cache_ok_def by (metis (no_types, lifting))
  qed
  moreover have "length ((ca_shards c)[i := s]) = Suc (unat (ca_mask c))"
    using ok by (simp add: cache_ok_def)
  ultimately show ?thesis unfolding cache_ok_def put_shard_simps length_list_update by blast
qed

text \<open>The list a cache holds for the shard of a key.\<close>

lemma cache_okD:
  assumes "cache_ok H c"
  shows "\<exists>xs. shard_abs (ca_shards c ! shardFor H c k) xs
    \<and> within (sh_max (ca_shards c ! shardFor H c k)) (sh_maxBytes (ca_shards c ! shardFor H c k)) xs
    \<and> fst ` set xs \<subseteq> owned H c (shardFor H c k)
    \<and> 1 \<le> sh_max (ca_shards c ! shardFor H c k) \<and> shardFor H c k < length (ca_shards c)"
proof -
  have i: "shardFor H c k < length (ca_shards c)" by (rule shardFor_bound [OF assms])
  moreover have "ca_shards c ! shardFor H c k \<in> set (ca_shards c)" using i by simp
  ultimately show ?thesis using assms unfolding cache_ok_def shard_ok_def Let_def by fast
qed

section \<open>The operations keep the invariant\<close>

lemma shard_abs_new: "shard_abs (new_shard mx mb) []"
proof -
  have "lru_abs (new_shard mx mb) []"
    by (rule abs_empty) (simp_all add: new_shard_def lru_empty_def lru.defs shard.defs)
  then show ?thesis by (simp add: shard_abs_def a_bytes_def new_shard_def lru.defs shard.defs)
qed

lemma new_shard_config [simp]: "sh_max (new_shard mx mb) = mx" "sh_maxBytes (new_shard mx mb) = mb"
  by (simp_all add: new_shard_def lru.defs shard.defs)

lemma cache_ok_New:
  assumes n: "cache_New opts = Inr c" and sz: "co_Shards opts < 2 ^ 63"
  shows "cache_ok H c \<and> ca_opts c = opts"
proof -
  have p: "0 < co_Shards opts" "co_Shards opts \<le> co_MaxEntries opts"
    using n by (auto simp: cache_New_def split: if_splits)
  define mb where "mb = (if co_MaxBytes opts > 0
     then (let b = co_MaxBytes opts div co_Shards opts in if b < 1 then 1 else b) else 0)"
  have c: "c = \<lparr>ca_shards = replicate (nat (co_Shards opts)) (new_shard (co_MaxEntries opts div co_Shards opts) mb),
                ca_mask = word_of_int (co_Shards opts - 1), ca_opts = opts\<rparr>"
    using n by (auto simp: cache_New_def mb_def Let_def split: if_splits)
  have m: "uint (word_of_int (co_Shards opts - 1) :: 64 word) = co_Shards opts - 1"
    using p sz by (subst uint_word_of_int) (simp add: take_bit_int_eq_self_iff)
  have "nat (co_Shards opts) = Suc (unat (word_of_int (co_Shards opts - 1) :: 64 word))"
    using p by (simp only: unat_eq_nat_uint m)
  moreover have "1 \<le> co_MaxEntries opts div co_Shards opts"
    using p by (simp add: pos_imp_zdiv_pos_iff int_one_le_iff_zero_less)
  moreover have "\<exists>xs. shard_ok H c i xs" if "i < nat (co_Shards opts)" for i
    using that shard_abs_new calculation(2) by (intro exI [of _ "[]"]) (auto simp: c shard_ok_def within_def)
  moreover have "uint (word_of_int (co_Shards opts) - 1 :: 64 word) = co_Shards opts - 1" using m by simp
  ultimately show ?thesis using p by (auto simp: cache_ok_def c)
qed

lemma a_get_keeps:
  assumes "within mx mb xs" "\<forall>x \<in> set xs. 0 \<le> snd (snd x)" "distinct (map fst xs)"
  shows "within mx mb (snd (a_get opts now k xs)) \<and> fst ` set (snd (a_get opts now k xs)) \<subseteq> fst ` set xs"
proof (cases "map_of xs k")
  case None
  with assms show ?thesis by (simp add: a_get_def)
next
  case (Some v)
  obtain e z where v: "v = (e, z)" by fastforce
  have "length (del k xs) < length xs" using length_del_Some [of xs k] Some by simp
  then have "within mx mb ((k, v) # del k xs)"
    using assms(1) a_bytes_front [OF assms(3) Some] unfolding within_def by (simp only: list.size) linarith
  moreover have "k \<in> fst ` set xs" using map_of_SomeD [OF Some] by force
  ultimately show ?thesis
    using Some v within_del [OF assms(2,1)] set_del [of k xs] assms(1) by (auto simp: a_get_def)
qed

lemma a_getStale_keeps:
  assumes "within mx mb xs" "\<forall>x \<in> set xs. 0 \<le> snd (snd x)"
  shows "within mx mb (snd (a_getStale opts now k xs)) \<and> fst ` set (snd (a_getStale opts now k xs)) \<subseteq> fst ` set xs"
  using assms within_del [OF assms(2,1)] set_del [of k xs]
  by (auto simp: a_getStale_def split: option.splits)

lemma shard_absD: "shard_abs s xs \<Longrightarrow> \<forall>x \<in> set xs. 0 \<le> snd (snd x)" "shard_abs s xs \<Longrightarrow> distinct (map fst xs)"
  by (auto simp: shard_abs_def abs_distinct)

lemma cache_Get_ok: "cache_ok H c \<Longrightarrow> cache_ok H (snd (cache_Get H now k c))"
proof -
  assume ok: "cache_ok H c"
  let ?s = "ca_shards c ! shardFor H c k"
  obtain xs where xs: "shard_abs ?s xs" "within (sh_max ?s) (sh_maxBytes ?s) xs"
      "fst ` set xs \<subseteq> owned H c (shardFor H c k)" "shardFor H c k < length (ca_shards c)"
    using cache_okD [OF ok, of k] by blast
  note G = get_refines [OF xs(1), of "ca_opts c" now k]
  note K = a_get_keeps [OF xs(2) shard_absD [OF xs(1)], of "ca_opts c" now k]
  have "cache_ok H (put_shard (shardFor H c k) (snd (shard_get (ca_opts c) now k ?s)) c)"
    using G K order_trans [OF _ xs(3)]
    by (intro cache_ok_put_shard [OF ok xs(4), where xs = "snd (a_get (ca_opts c) now k xs)"]) simp_all
  then show ?thesis by (simp add: cache_Get_def Let_def split_beta)
qed

lemma cache_GetStale_ok: "cache_ok H c \<Longrightarrow> cache_ok H (snd (cache_GetStale H now k c))"
proof -
  assume ok: "cache_ok H c"
  let ?s = "ca_shards c ! shardFor H c k"
  obtain xs where xs: "shard_abs ?s xs" "within (sh_max ?s) (sh_maxBytes ?s) xs"
      "fst ` set xs \<subseteq> owned H c (shardFor H c k)" "shardFor H c k < length (ca_shards c)"
    using cache_okD [OF ok, of k] by blast
  note G = getStale_refines [OF xs(1), of "ca_opts c" now k]
  note K = a_getStale_keeps [OF xs(2) shard_absD(1) [OF xs(1)], of "ca_opts c" now k]
  have "cache_ok H (put_shard (shardFor H c k) (snd (shard_getStale (ca_opts c) now k ?s)) c)"
    using G K order_trans [OF _ xs(3)]
    by (intro cache_ok_put_shard [OF ok xs(4), where xs = "snd (a_getStale (ca_opts c) now k xs)"]) simp_all
  then show ?thesis using ok by (simp add: cache_GetStale_def Let_def split_beta)
qed

lemma cache_Remove_ok: "cache_ok H c \<Longrightarrow> cache_ok H (snd (cache_Remove H k c))"
proof -
  assume ok: "cache_ok H c"
  let ?s = "ca_shards c ! shardFor H c k"
  obtain xs where xs: "shard_abs ?s xs" "within (sh_max ?s) (sh_maxBytes ?s) xs"
      "fst ` set xs \<subseteq> owned H c (shardFor H c k)" "shardFor H c k < length (ca_shards c)"
    using cache_okD [OF ok, of k] by blast
  have "cache_ok H (put_shard (shardFor H c k) (shard_remove n ?s) c)" if "fmlookup (lru_m ?s) k = Some n" for n
    using abs_remove_key [OF xs(1) that] within_del [OF shard_absD(1) [OF xs(1)] xs(2), of k]
      order_trans [OF image_mono [OF set_del] xs(3)]
    by (intro cache_ok_put_shard [OF ok xs(4), where xs = "del k xs"]) simp_all
  with ok show ?thesis by (auto simp: cache_Remove_def Let_def split: option.splits)
qed

text \<open>Put always returns, and what it leaves in the key's shard.\<close>

lemma cache_Put_shard:
  fixes now :: gtime
  assumes ok: "cache_ok H c" and ttl: "0 < clamp (ca_opts c) (e_Kind e) ttl0"
    and xs: "shard_abs (ca_shards c ! shardFor H c k) xs"
  defines "e1 \<equiv> e\<lparr>e_Stored := now, e_Expiry := now + clamp (ca_opts c) (e_Kind e) ttl0\<rparr>"
  shows "\<exists>s n. cache_Put H now k e ttl0 c = Some (put_shard (shardFor H c k) s c)
    \<and> shard_abs s ((k, e1, entrySize k e1) # take n (del k xs))
    \<and> within (sh_max s) (sh_maxBytes s) ((k, e1, entrySize k e1) # take n (del k xs))
    \<and> sh_max s = sh_max (ca_shards c ! shardFor H c k)"
proof -
  let ?s = "ca_shards c ! shardFor H c k"
  have mx: "1 \<le> sh_max ?s" using cache_okD [OF ok, of k] by blast
  obtain s where s: "shard_put k e1 ?s = Some s" "shard_abs s (a_put (sh_max ?s) (sh_maxBytes ?s) k e1 xs)"
      "sh_max s = sh_max ?s" "sh_maxBytes s = sh_maxBytes ?s" using put_refines [OF xs] by blast
  obtain n where n: "a_put (sh_max ?s) (sh_maxBytes ?s) k e1 xs = (k, e1, entrySize k e1) # take n (del k xs)"
    using a_put_front [OF mx] by blast
  have "cache_Put H now k e ttl0 c = Some (put_shard (shardFor H c k) s c)"
    using ttl s(1) by (simp add: cache_Put_def Let_def e1_def)
  with s n a_put_within [OF mx, of "sh_maxBytes ?s" k e1 xs] show ?thesis by metis
qed

lemma cache_Put_ok:
  assumes ok: "cache_ok H c"
  shows "\<exists>c'. cache_Put H now k e ttl0 c = Some c' \<and> cache_ok H c' \<and> ca_opts c' = ca_opts c"
proof (cases "0 < clamp (ca_opts c) (e_Kind e) ttl0")
  case False
  with ok show ?thesis by (simp add: cache_Put_def Let_def)
next
  case True
  let ?s = "ca_shards c ! shardFor H c k"
  obtain xs where xs: "shard_abs ?s xs" "fst ` set xs \<subseteq> owned H c (shardFor H c k)"
      "shardFor H c k < length (ca_shards c)"
    using cache_okD [OF ok, of k] by blast
  obtain s n e1 where s: "cache_Put H now k e ttl0 c = Some (put_shard (shardFor H c k) s c)"
      "shard_abs s ((k, e1, entrySize k e1) # take n (del k xs))"
      "within (sh_max s) (sh_maxBytes s) ((k, e1, entrySize k e1) # take n (del k xs))"
      "sh_max s = sh_max ?s"
    using cache_Put_shard [OF ok True xs(1)] by blast
  have "fst ` set (take n (del k xs)) \<subseteq> owned H c (shardFor H c k)"
    using set_take_subset [of n "del k xs"] set_del [of k xs] xs(2) by blast
  then have "cache_ok H (put_shard (shardFor H c k) s c)"
    by (intro cache_ok_put_shard [OF ok xs(3) s(4) s(2,3)]) simp
  with s(1) show ?thesis by simp
qed


section \<open>Properties of the cache\<close>

text \<open>Every state of a running cache: built by \<open>New\<close>, changed by the operations
  in any order at any times. \<open>Shards\<close> is a Go \<open>int\<close>.\<close>

inductive cache_reach :: "(ckey \<Rightarrow> 64 word) \<Rightarrow> coptions \<Rightarrow> cache \<Rightarrow> bool" for H opts where
  reach_New: "cache_New opts = Inr c \<Longrightarrow> co_Shards opts < 2 ^ 63 \<Longrightarrow> cache_reach H opts c"
| reach_Get: "cache_reach H opts c \<Longrightarrow> cache_reach H opts (snd (cache_Get H now k c))"
| reach_GetStale: "cache_reach H opts c \<Longrightarrow> cache_reach H opts (snd (cache_GetStale H now k c))"
| reach_Remove: "cache_reach H opts c \<Longrightarrow> cache_reach H opts (snd (cache_Remove H k c))"
| reach_Put: "cache_reach H opts c \<Longrightarrow> cache_Put H now k e ttl c = Some c' \<Longrightarrow> cache_reach H opts c'"

lemma cache_opts_ops [simp]:
  "ca_opts (snd (cache_Get H now k c)) = ca_opts c" "ca_opts (snd (cache_GetStale H now k c)) = ca_opts c"
  "ca_opts (snd (cache_Remove H k c)) = ca_opts c"
  by (auto simp: cache_Get_def cache_GetStale_def cache_Remove_def Let_def split_beta split: option.splits)

lemma reach_ok: "cache_reach H opts c \<Longrightarrow> cache_ok H c \<and> ca_opts c = opts"
proof (induction rule: cache_reach.induct)
  case (reach_Put c now k e ttl c')
  then show ?case using cache_Put_ok [of H c now k e ttl] by auto
qed (auto simp: cache_Get_ok cache_GetStale_ok cache_Remove_ok dest: cache_ok_New [of _ _ H])

lemma shard_len_within:
  assumes "cache_ok H c" "s \<in> set (ca_shards c)"
  shows "int (size (fmdom (lru_m s))) \<le> sh_max s
    \<and> (sh_maxBytes s > 0 \<longrightarrow> sh_bytes s \<le> sh_maxBytes s \<or> size (fmdom (lru_m s)) \<le> 1)"
proof -
  obtain i where i: "i < length (ca_shards c)" "s = ca_shards c ! i" using assms(2) by (auto simp: in_set_conv_nth)
  then obtain xs where xs: "shard_abs s xs" "within (sh_max s) (sh_maxBytes s) xs"
    using assms(1) unfolding cache_ok_def shard_ok_def Let_def by blast
  then show ?thesis using abs_len [of s xs] unfolding within_def shard_abs_def by simp
qed

text \<open>The share of the byte budget a shard gets, and the accounting behind its byte total: every entry counts with its size.\<close>

definition byte_share :: "coptions \<Rightarrow> int" where
  "byte_share opts = (if co_MaxBytes opts > 0 then max 1 (co_MaxBytes opts div co_Shards opts) else 0)"

definition sized :: "clist \<Rightarrow> bool" where
  "sized xs \<longleftrightarrow> (\<forall>x \<in> set xs. snd (snd x) = entrySize (fst x) (fst (snd x)))"

definition priced :: "coptions \<Rightarrow> cache \<Rightarrow> bool" where
  "priced opts c \<longleftrightarrow> int (length (ca_shards c)) = co_Shards opts
     \<and> (\<forall>i < length (ca_shards c). sh_maxBytes (ca_shards c ! i) = byte_share opts \<and> (\<exists>xs. shard_abs (ca_shards c ! i) xs \<and> sized xs))"

lemma sized_subset: "sized xs \<Longrightarrow> set ys \<subseteq> set xs \<Longrightarrow> sized ys"
  by (auto simp: sized_def)

lemma sized_a_get: "sized xs \<Longrightarrow> sized (snd (a_get opts now k xs))" "sized xs \<Longrightarrow> sized (snd (a_getStale opts now k xs))"
  using set_del [of k xs] by (auto simp: a_get_def a_getStale_def sized_def dest!: map_of_SomeD split: option.splits)

lemma sized_a_put: "sized xs \<Longrightarrow> sized (a_put mx mb k e xs)"
proof -
  assume "sized xs"
  then have "sized ((k, e, entrySize k e) # del k xs)" using set_del [of k xs] by (auto simp: sized_def dest!: subsetD)
  then show ?thesis unfolding a_put_def
    using a_trim_prefix [of mx mb "(k, e, entrySize k e) # del k xs"] by (metis sized_subset set_take_subset)
qed

lemma priced_put_shard:
  assumes "priced opts c" and "sh_maxBytes s = sh_maxBytes (ca_shards c ! i)" and "i < length (ca_shards c)" and "shard_abs s xs" and "sized xs"
  shows "priced opts (put_shard i s c)"
  using assms by (auto simp: priced_def nth_list_update)

lemma priced_New: "cache_New opts = Inr c \<Longrightarrow> priced opts c"
proof -
  have "\<exists>xs. shard_abs (new_shard mx mb) xs \<and> sized xs" for mx mb using shard_abs_new [of mx mb] by (intro exI [of _ "[]"]) (simp add: sized_def)
  then show "cache_New opts = Inr c \<Longrightarrow> priced opts c"
    by (auto simp: cache_New_def priced_def byte_share_def Let_def split: if_splits)
qed

lemma pricedD: "priced opts c \<Longrightarrow> i < length (ca_shards c) \<Longrightarrow> \<exists>xs. shard_abs (ca_shards c ! i) xs \<and> sized xs"
  by (simp add: priced_def)

lemma reach_priced: "cache_reach H opts c \<Longrightarrow> priced opts c"
proof (induction rule: cache_reach.induct)
  case (reach_Get c now k)
  have i: "shardFor H c k < length (ca_shards c)" using shardFor_bound reach_ok [OF reach_Get(1)] by blast
  obtain xs where "shard_abs (ca_shards c ! shardFor H c k) xs" "sized xs" using pricedD [OF reach_Get.IH i] by blast
  with get_refines [of "ca_shards c ! shardFor H c k" xs "ca_opts c" now k] sized_a_get(1) [of xs "ca_opts c" now k] show ?case
    unfolding cache_Get_def Let_def split_beta snd_conv by (intro priced_put_shard [OF reach_Get.IH _ i]) auto
next
  case (reach_GetStale c now k)
  have i: "shardFor H c k < length (ca_shards c)" using shardFor_bound reach_ok [OF reach_GetStale(1)] by blast
  obtain xs where "shard_abs (ca_shards c ! shardFor H c k) xs" "sized xs" using pricedD [OF reach_GetStale.IH i] by blast
  with getStale_refines [of "ca_shards c ! shardFor H c k" xs "ca_opts c" now k] sized_a_get(2) [of xs "ca_opts c" now k]
  have "priced opts (put_shard (shardFor H c k) (snd (shard_getStale (ca_opts c) now k (ca_shards c ! shardFor H c k))) c)"
    by (intro priced_put_shard [OF reach_GetStale.IH _ i]) auto
  with reach_GetStale.IH show ?case by (simp add: cache_GetStale_def Let_def split_beta)
next
  case (reach_Remove c k)
  have i: "shardFor H c k < length (ca_shards c)" using shardFor_bound reach_ok [OF reach_Remove(1)] by blast
  obtain xs where "shard_abs (ca_shards c ! shardFor H c k) xs" "sized xs" using pricedD [OF reach_Remove.IH i] by blast
  with abs_remove_key [of "ca_shards c ! shardFor H c k" xs k] sized_subset [OF _ set_del, of xs k]
  have "priced opts (put_shard (shardFor H c k) (shard_remove n (ca_shards c ! shardFor H c k)) c)"
    if "fmlookup (lru_m (ca_shards c ! shardFor H c k)) k = Some n" for n
    using that by (intro priced_put_shard [OF reach_Remove.IH _ i]) auto
  with reach_Remove.IH show ?case by (auto simp: cache_Remove_def Let_def split: option.splits)
next
  case (reach_Put c now k e ttl c')
  have i: "shardFor H c k < length (ca_shards c)" using shardFor_bound reach_ok [OF reach_Put(1)] by blast
  obtain xs where xs: "shard_abs (ca_shards c ! shardFor H c k) xs" "sized xs" using pricedD [OF reach_Put.IH i] by blast
  have "priced opts (put_shard (shardFor H c k) s c)" if "shard_put k e1 (ca_shards c ! shardFor H c k) = Some s" for s e1
    using put_refines [OF xs(1), of k e1] that by (auto intro: priced_put_shard [OF reach_Put.IH _ i] sized_a_put [OF xs(2)])
  with reach_Put show ?case by (auto simp: cache_Put_def Let_def split: if_splits)
qed (rule priced_New)

lemma entrySize_base: "entryBaseCost \<le> entrySize k e"
proof -
  let ?f = "\<lambda>size (r :: rr). let h = rr_hdr r; rdata0 = uint (rh_Rdlength h);
      rdata = (if rdata0 = 0 then rdataFallback else rdata0)
    in size + (recordBaseCost + int (length (rh_Name h)) + rdata)"
  have "(a :: int) \<le> b \<Longrightarrow> a \<le> foldl ?f b rs" for a b rs
    by (rule foldl_invariant) (auto simp: recordBaseCost_def rdataFallback_def Let_def intro: order_trans)
  then show ?thesis unfolding entrySize_def by simp
qed

lemma sized_bytes: "sized xs \<Longrightarrow> int (length xs) * entryBaseCost \<le> a_bytes xs"
  using entrySize_base by (induction xs) (auto simp: sized_def a_bytes_def algebra_simps intro: add_mono)

text \<open>The byte total of a shard is the cost of what it stores.\<close>

lemma shard_cost:
  assumes "shard_abs s xs" and "sized xs"
  shows "sh_bytes s = (\<Sum>k \<in> fset (fmdom (lru_m s)). entrySize k (entry_at s (the (fmlookup (lru_m s) k))))"
proof -
  have l: "lru_abs s xs" and b: "sh_bytes s = a_bytes xs" using assms(1) by (simp_all add: shard_abs_def)
  note d = abs_distinct [OF l]
  have m: "fset (fmdom (lru_m s)) = fst ` set xs" using abs_lookup [OF l] by (auto simp: fmdom.rep_eq dom_map_of_conv_image_fst [symmetric] dom_def)
  have e: "entrySize (fst x) (entry_at s (the (fmlookup (lru_m s) (fst x)))) = snd (snd x)" if "x \<in> set xs" for x
  proof -
    have "map_of xs (fst x) = Some (snd x)" using d that by simp
    then have "val_at s (the (fmlookup (lru_m s) (fst x))) = snd x" using abs_lookup [OF l, of "fst x"] by auto
    then show ?thesis using assms(2) that by (simp add: sized_def entry_at_def)
  qed
  have "(\<Sum>k \<in> fst ` set xs. entrySize k (entry_at s (the (fmlookup (lru_m s) k)))) = (\<Sum>x \<in> set xs. snd (snd x))"
    using d e by (subst sum.reindex) (simp_all add: distinct_map)
  also have "\<dots> = a_bytes xs" unfolding a_bytes_def using d by (subst sum_list_distinct_conv_sum_set) (auto simp: distinct_map)
  finally show ?thesis using b m by simp
qed

text \<open>C5. The cache never exceeds its configured bounds: in every state reachable
  from \<open>New\<close> by any sequence of operations, at most \<open>MaxEntries\<close> entries are
  stored and each shard is within its share of \<open>MaxEntries\<close>. The byte total of a shard is exactly the cost of the entries it stores; when a byte
  budget is set, a shard that holds more than one entry is within its share of \<open>MaxBytes\<close>, and all of these
  together are within \<open>MaxBytes\<close>. A shard whose only entry is larger than the share keeps it.\<close>

theorem cache_bounded:
  assumes "cache_reach H opts c"
  shows "int (cache_Len c) \<le> co_MaxEntries opts
    \<and> (\<forall>s \<in> set (ca_shards c). shard_len s \<le> co_MaxEntries opts div co_Shards opts
         \<and> sh_bytes s = (\<Sum>k \<in> fset (fmdom (lru_m s)). entrySize k (entry_at s (the (fmlookup (lru_m s) k))))
         \<and> (0 < co_MaxBytes opts \<and> 1 < shard_len s \<longrightarrow> sh_bytes s \<le> co_MaxBytes opts div co_Shards opts))
    \<and> (0 < co_MaxBytes opts \<longrightarrow> sum_list (map sh_bytes (filter (\<lambda>s. 1 < shard_len s) (ca_shards c))) \<le> co_MaxBytes opts)"
proof -
  have ok: "cache_ok H c" and o: "ca_opts c = opts" using reach_ok [OF assms] by simp_all
  note pr = reach_priced [OF assms]
  have n: "int (length (ca_shards c)) = co_Shards opts" using pr by (simp add: priced_def)
  have pos: "0 < co_Shards opts" using shardFor_bound [OF ok] n by (metis gr_implies_not0 of_nat_0_less_iff gr0I)
  let ?m = "co_MaxEntries opts div co_Shards opts" and ?b = "co_MaxBytes opts div co_Shards opts"
  have mx: "sh_max s = ?m" if "s \<in> set (ca_shards c)" for s using ok that unfolding cache_ok_def o n by metis
  have len: "shard_len s \<le> ?m" if "s \<in> set (ca_shards c)" for s
    using shard_len_within [OF ok that] mx [OF that] unfolding shard_len_def by simp
  have bytes: "sh_bytes s = (\<Sum>k \<in> fset (fmdom (lru_m s)). entrySize k (entry_at s (the (fmlookup (lru_m s) k))))
      \<and> (0 < co_MaxBytes opts \<and> 1 < shard_len s \<longrightarrow> sh_bytes s \<le> ?b)" if "s \<in> set (ca_shards c)" for s
  proof -
    obtain i where i: "i < length (ca_shards c)" "s = ca_shards c ! i" using \<open>s \<in> set (ca_shards c)\<close> by (auto simp: in_set_conv_nth)
    obtain xs where xs: "shard_abs s xs" "sized xs" using pricedD [OF pr i(1)] i(2) by blast
    have share: "sh_maxBytes s = byte_share opts" using pr i by (simp add: priced_def)
    have "int (length xs) * entryBaseCost \<le> sh_bytes s" using sized_bytes [OF xs(2)] xs(1) by (simp add: shard_abs_def)
    moreover have "shard_len s = int (length xs)" using abs_len [of s xs] xs(1) by (simp add: shard_abs_def shard_len_def)
    ultimately have "1 < shard_len s \<Longrightarrow> 1 < sh_bytes s" by (simp add: entryBaseCost_def)
    with shard_len_within [OF ok \<open>s \<in> set (ca_shards c)\<close>] share shard_cost [OF xs] show ?thesis
      by (auto simp: byte_share_def shard_len_def max_def split: if_splits)
  qed
  have "int (cache_Len c) \<le> int (length (ca_shards c)) * ?m"
    unfolding cache_Len_def by (rule sum_list_bound) (use len in \<open>simp add: shard_len_def\<close>)
  also have "\<dots> \<le> co_MaxEntries opts" unfolding n by (rule int_mult_div_le [OF pos])
  finally have total: "int (cache_Len c) \<le> co_MaxEntries opts" .
  have "sum_list (map sh_bytes (filter (\<lambda>s. 1 < shard_len s) (ca_shards c))) \<le> co_MaxBytes opts" if "0 < co_MaxBytes opts"
  proof -
    have "0 \<le> ?b" using that pos by (simp add: pos_imp_zdiv_nonneg_iff)
    then have "(\<forall>s \<in> set ss. 1 < shard_len s \<longrightarrow> sh_bytes s \<le> ?b) \<Longrightarrow> sum_list (map sh_bytes (filter (\<lambda>s. 1 < shard_len s) ss)) \<le> int (length ss) * ?b" for ss
      by (induction ss) (auto simp: algebra_simps)
    then have "sum_list (map sh_bytes (filter (\<lambda>s. 1 < shard_len s) (ca_shards c))) \<le> int (length (ca_shards c)) * ?b" using bytes that by blast
    also have "\<dots> \<le> co_MaxBytes opts" unfolding n by (rule int_mult_div_le [OF pos])
    finally show ?thesis .
  qed
  with total len bytes show ?thesis by blast
qed

text \<open>What the cache stores for a key, fresh or not.\<close>

definition stored :: "(ckey \<Rightarrow> 64 word) \<Rightarrow> cache \<Rightarrow> ckey \<Rightarrow> centry option" where
  "stored H c k = (let s = ca_shards c ! shardFor H c k in map_option (entry_at s) (fmlookup (lru_m s) k))"

lemma stored_abs: "shard_abs (ca_shards c ! shardFor H c k) xs \<Longrightarrow> stored H c k = map_option fst (map_of xs k)"
  using abs_lookup [of "ca_shards c ! shardFor H c k" xs k]
  by (simp add: stored_def shard_abs_def Let_def option.map_comp o_def entry_at_def [abs_def])

lemma Peek_stored:
  "cache_Peek H now k c = (case stored H c k of None \<Rightarrow> None | Some e \<Rightarrow> if now < e_Expiry e then Some e else None)"
  by (simp add: cache_Peek_def stored_def Let_def split: option.splits)

lemma stored_put_shard:
  assumes i: "shardFor H c k < length (ca_shards c)" and s: "shard_abs s ys"
    and xs: "shard_abs (ca_shards c ! shardFor H c k) xs"
    and other: "shardFor H c k' = shardFor H c k \<Longrightarrow> map_of ys k' = map_of xs k'"
  shows "stored H (put_shard (shardFor H c k) s c) k' = stored H c k'"
proof (cases "shardFor H c k' = shardFor H c k")
  case True
  with i s xs show ?thesis
    using stored_abs [of c H k' xs] stored_abs [of "put_shard (shardFor H c k) s c" H k' ys] other by simp
next
  case False
  then show ?thesis by (simp add: stored_def)
qed

lemma stored_put_shard_self:
  assumes "shardFor H c k < length (ca_shards c)" "shard_abs s ys"
  shows "stored H (put_shard (shardFor H c k) s c) k = map_option fst (map_of ys k)"
  using assms stored_abs [of "put_shard (shardFor H c k) s c" H k ys] by simp

lemma map_of_a_get: "k' \<noteq> k \<Longrightarrow> map_of (snd (a_get opts now k xs)) k' = map_of xs k'"
  by (auto simp: a_get_def map_of_del split: option.splits)

lemma map_of_a_getStale: "k' \<noteq> k \<Longrightarrow> map_of (snd (a_getStale opts now k xs)) k' = map_of xs k'"
  by (auto simp: a_getStale_def map_of_del split: option.splits)

text \<open>How each operation changes \<open>stored\<close>.\<close>

definition dead :: "coptions \<Rightarrow> gtime \<Rightarrow> centry \<Rightarrow> bool" where
  "dead opts now e \<longleftrightarrow> \<not> now < e_Expiry e \<and> (co_MaxStale opts \<le> 0 \<or> \<not> now < e_Expiry e + co_MaxStale opts)"

definition purge :: "coptions \<Rightarrow> gtime \<Rightarrow> centry option \<Rightarrow> centry option" where
  "purge opts now r = (case r of None \<Rightarrow> None | Some e \<Rightarrow> if dead opts now e then None else Some e)"

lemma Get_stored:
  assumes ok: "cache_ok H c"
  shows "fst (cache_Get H now k c) = cache_Peek H now k c"
    and "stored H (snd (cache_Get H now k c)) k' = (if k' = k then purge (ca_opts c) now (stored H c k) else stored H c k')"
proof -
  let ?s = "ca_shards c ! shardFor H c k"
  obtain xs where xs: "shard_abs ?s xs" "shardFor H c k < length (ca_shards c)" using cache_okD [OF ok, of k] by blast
  note G = get_refines [OF xs(1), of "ca_opts c" now k]
  have g: "cache_Get H now k c = (fst (shard_get (ca_opts c) now k ?s),
      put_shard (shardFor H c k) (snd (shard_get (ca_opts c) now k ?s)) c)"
    by (simp add: cache_Get_def Let_def split_beta)
  show "fst (cache_Get H now k c) = cache_Peek H now k c"
    using G stored_abs [OF xs(1)] by (auto simp: g Peek_stored a_get_def split: option.splits)
  have sa: "shard_abs (snd (shard_get (ca_opts c) now k ?s)) (snd (a_get (ca_opts c) now k xs))" using G by blast
  show "stored H (snd (cache_Get H now k c)) k' = (if k' = k then purge (ca_opts c) now (stored H c k) else stored H c k')"
  proof (cases "k' = k")
    case True
    then show ?thesis using stored_put_shard_self [OF xs(2) sa] stored_abs [OF xs(1)]
      by (auto simp: g purge_def dead_def a_get_def map_of_del split: option.splits)
  next
    case False
    then show ?thesis using stored_put_shard [OF xs(2) sa xs(1), of k'] map_of_a_get [OF False] by (simp add: g)
  qed
qed

lemma GetStale_stored:
  assumes ok: "cache_ok H c"
  shows "fst (cache_GetStale H now k c) = (case stored H c k of None \<Rightarrow> None
      | Some e \<Rightarrow> if \<not> now < e_Expiry e \<and> now < e_Expiry e + co_MaxStale (ca_opts c) then Some e else None)"
    and "stored H (snd (cache_GetStale H now k c)) k' =
      (if k' = k \<and> 0 < co_MaxStale (ca_opts c) then purge (ca_opts c) now (stored H c k) else stored H c k')"
proof -
  let ?s = "ca_shards c ! shardFor H c k"
  obtain xs where xs: "shard_abs ?s xs" "shardFor H c k < length (ca_shards c)" using cache_okD [OF ok, of k] by blast
  note G = getStale_refines [OF xs(1), of "ca_opts c" now k]
  have g: "cache_GetStale H now k c = (if co_MaxStale (ca_opts c) \<le> 0 then (None, c)
      else (fst (shard_getStale (ca_opts c) now k ?s),
            put_shard (shardFor H c k) (snd (shard_getStale (ca_opts c) now k ?s)) c))"
    by (simp add: cache_GetStale_def Let_def split_beta)
  show "fst (cache_GetStale H now k c) = (case stored H c k of None \<Rightarrow> None
      | Some e \<Rightarrow> if \<not> now < e_Expiry e \<and> now < e_Expiry e + co_MaxStale (ca_opts c) then Some e else None)"
    using G stored_abs [OF xs(1)] by (auto simp: g a_getStale_def split: option.splits)
  have sa: "shard_abs (snd (shard_getStale (ca_opts c) now k ?s)) (snd (a_getStale (ca_opts c) now k xs))"
    using G by blast
  show "stored H (snd (cache_GetStale H now k c)) k' =
      (if k' = k \<and> 0 < co_MaxStale (ca_opts c) then purge (ca_opts c) now (stored H c k) else stored H c k')"
  proof (cases "k' = k")
    case True
    then show ?thesis using stored_put_shard_self [OF xs(2) sa] stored_abs [OF xs(1)]
      by (auto simp: g purge_def dead_def a_getStale_def map_of_del split: option.splits)
  next
    case False
    then show ?thesis using stored_put_shard [OF xs(2) sa xs(1), of k'] map_of_a_getStale [OF False] by (simp add: g)
  qed
qed

lemma map_of_take: "distinct (map fst xs) \<Longrightarrow> map_of (take n xs) k = Some v \<Longrightarrow> map_of xs k = Some v"
  using map_of_SomeD [of "take n xs" k v] by (auto intro: map_of_is_SomeI dest: in_set_takeD)

lemma Put_stored:
  assumes ok: "cache_ok H c" and ttl: "0 < clamp (ca_opts c) (e_Kind e) ttl0"
  shows "\<exists>c'. cache_Put H now k e ttl0 c = Some c'
    \<and> stored H c' k = Some (e\<lparr>e_Stored := now, e_Expiry := now + clamp (ca_opts c) (e_Kind e) ttl0\<rparr>)
    \<and> (\<forall>k'. k' \<noteq> k \<longrightarrow> stored H c' k' \<in> {stored H c k', None})"
proof -
  let ?s = "ca_shards c ! shardFor H c k"
  obtain xs where xs: "shard_abs ?s xs" "shardFor H c k < length (ca_shards c)" using cache_okD [OF ok, of k] by blast
  obtain s n where s: "cache_Put H now k e ttl0 c = Some (put_shard (shardFor H c k) s c)"
      "shard_abs s ((k, e\<lparr>e_Stored := now, e_Expiry := now + clamp (ca_opts c) (e_Kind e) ttl0\<rparr>,
         entrySize k (e\<lparr>e_Stored := now, e_Expiry := now + clamp (ca_opts c) (e_Kind e) ttl0\<rparr>)) # take n (del k xs))"
    using cache_Put_shard [OF ok ttl xs(1)] by blast
  let ?ys = "(k, e\<lparr>e_Stored := now, e_Expiry := now + clamp (ca_opts c) (e_Kind e) ttl0\<rparr>,
         entrySize k (e\<lparr>e_Stored := now, e_Expiry := now + clamp (ca_opts c) (e_Kind e) ttl0\<rparr>)) # take n (del k xs)"
  have "stored H (put_shard (shardFor H c k) s c) k' \<in> {stored H c k', None}" if "k' \<noteq> k" for k'
  proof (cases "shardFor H c k' = shardFor H c k \<and> map_of ?ys k' = None")
    case True
    then have "stored H (put_shard (shardFor H c k) s c) k' = None"
      using stored_abs [of "put_shard (shardFor H c k) s c" H k' ?ys] s(2) xs(2) by simp
    then show ?thesis by simp
  next
    case False
    have "distinct (map fst (del k xs))" using shard_absD(2) [OF xs(1)] by (simp add: del_def distinct_map_filter)
    then have "map_of ?ys k' = map_of xs k'" if "map_of ?ys k' \<noteq> None"
      using that \<open>k' \<noteq> k\<close> map_of_take [of "del k xs" n k'] by (auto simp: map_of_del)
    with False show ?thesis using stored_put_shard [OF xs(2) s(2) xs(1), of k'] by auto
  qed
  with s stored_put_shard_self [OF xs(2) s(2)] show ?thesis by simp
qed


text \<open>A small running cache for the witnesses: two entries, one shard, one hour of
  serve-stale.\<close>

definition test_opts :: coptions where
  "test_opts = \<lparr>co_MaxEntries = 2, co_MaxBytes = 0, co_Shards = 1, co_MinTTL = 5 * second,
     co_MaxTTL = 100 * second, co_MaxNegativeTTL = 10 * second, co_MaxStale = 3600 * second\<rparr>"

definition test_cache :: cache where
  "test_cache = \<lparr>ca_shards = [new_shard 2 0], ca_mask = 0, ca_opts = test_opts\<rparr>"

definition test_key :: ckey where
  "test_key = NewKey ''Example.com.'' 1 1"

definition test_entry :: centry where
  "test_entry = \<lparr>e_RRs = [], e_Kind = KindAnswer, e_Rcode = 0, e_Authenticated = False,
     e_Validated = False, e_Stored = 0, e_Expiry = 0\<rparr>"

lemma test_cache_reach: "cache_reach (\<lambda>_. 0) test_opts test_cache"
  by (rule reach_New) (simp_all add: cache_New_def test_opts_def test_cache_def second_def)

lemma test_clamp: "clamp test_opts (e_Kind test_entry) second = 5 * second"
  by (simp add: clamp_def test_opts_def test_entry_def second_def)

theorem cache_bounded_witness:
  "\<exists>c. cache_Put (\<lambda>_. 0) 7 test_key test_entry second test_cache = Some c \<and> cache_reach (\<lambda>_. 0) test_opts c \<and> int (cache_Len c) \<le> 2
     \<and> stored (\<lambda>_. 0) c test_key \<noteq> None"
proof -
  have ok: "cache_ok (\<lambda>_. 0) test_cache" and o: "ca_opts test_cache = test_opts" using reach_ok [OF test_cache_reach] by simp_all
  have "0 < clamp (ca_opts test_cache) (e_Kind test_entry) second" unfolding o test_clamp by (simp add: second_def)
  from Put_stored [OF ok this, of 7 test_key] obtain c where c: "cache_Put (\<lambda>_. 0) 7 test_key test_entry second test_cache = Some c"
    "stored (\<lambda>_. 0) c test_key \<noteq> None" by auto
  from reach_Put [OF test_cache_reach c(1)] have r: "cache_reach (\<lambda>_. 0) test_opts c" .
  from cache_bounded [OF r] c r show ?thesis by (auto simp: test_opts_def)
qed

text \<open>C32. A positive TTL after clamping makes a stored answer visible at once and until
  exactly its expiry, whatever the cache held; a TTL clamped to zero or less stores
  nothing; Put always returns; and storing one key never alters another key's
  entry, it can only evict it.\<close>

theorem cache_put_visible:
  assumes "cache_reach H opts c"
  shows "\<exists>c'. cache_Put H now k e ttl c = Some c'
    \<and> (if clamp opts (e_Kind e) ttl \<le> 0 then c' = c
       else \<forall>t. cache_Peek H t k c' =
              (if t < now + clamp opts (e_Kind e) ttl
               then Some (e\<lparr>e_Stored := now, e_Expiry := now + clamp opts (e_Kind e) ttl\<rparr>) else None))
    \<and> (\<forall>k' t. k' \<noteq> k \<longrightarrow> cache_Peek H t k' c' \<in> {cache_Peek H t k' c, None})"
proof (cases "clamp opts (e_Kind e) ttl \<le> 0")
  case True
  then show ?thesis using reach_ok [OF assms] by (simp add: cache_Put_def Let_def)
next
  case False
  have ok: "cache_ok H c" and o: "ca_opts c = opts" using reach_ok [OF assms] by simp_all
  from Put_stored [OF ok, of e ttl now k] False obtain c' where c':
      "cache_Put H now k e ttl c = Some c'"
      "stored H c' k = Some (e\<lparr>e_Stored := now, e_Expiry := now + clamp opts (e_Kind e) ttl\<rparr>)"
      "\<forall>k'. k' \<noteq> k \<longrightarrow> stored H c' k' \<in> {stored H c k', None}" by (auto simp: o)
  have "cache_Peek H t k' c' \<in> {cache_Peek H t k' c, None}" if "k' \<noteq> k" for k' t
    using c'(3) that by (auto simp: Peek_stored)
  then show ?thesis using c'(1,2) False by (auto simp: Peek_stored)
qed

theorem cache_put_visible_witness:
  "cache_reach (\<lambda>_. 0) test_opts test_cache
   \<and> (\<exists>c'. cache_Put (\<lambda>_. 0) 7 test_key test_entry second test_cache = Some c'
        \<and> cache_Peek (\<lambda>_. 0) (5 * second) test_key c' \<noteq> None
        \<and> cache_Peek (\<lambda>_. 0) (7 + 5 * second) test_key c' = None)"
proof -
  have "\<not> clamp test_opts (e_Kind test_entry) second \<le> 0"
    unfolding test_clamp by (simp add: second_def)
  with cache_put_visible [OF test_cache_reach, of 7 test_key test_entry second] test_cache_reach
  show ?thesis by (auto simp: test_clamp)
qed

text \<open>Get answers exactly with the stored entry while it is fresh and never with an
  expired one, and a lookup disturbs nothing: at any later time every key,
  including the one looked up, reads the same, fresh or stale, as if the lookup had
  not happened.\<close>

theorem cache_get_fresh:
  assumes "cache_reach H opts c"
  shows "fst (cache_Get H now k c) = cache_Peek H now k c
    \<and> (\<forall>e. fst (cache_Get H now k c) = Some e \<longrightarrow> now < e_Expiry e)
    \<and> (\<forall>k' t. now \<le> t \<longrightarrow> cache_Peek H t k' (snd (cache_Get H now k c)) = cache_Peek H t k' c
         \<and> fst (cache_GetStale H t k' (snd (cache_Get H now k c))) = fst (cache_GetStale H t k' c))"
proof -
  have ok: "cache_ok H c" using reach_ok [OF assms] by simp
  note G = Get_stored [OF ok, of now k]
  have "\<forall>e. fst (cache_Get H now k c) = Some e \<longrightarrow> now < e_Expiry e"
    by (auto simp: G(1) Peek_stored split: option.splits if_splits)
  moreover have "cache_Peek H t k' (snd (cache_Get H now k c)) = cache_Peek H t k' c" if "now \<le> t" for k' t
    using that by (auto simp: Peek_stored G(2) purge_def dead_def split: option.splits)
  moreover have "fst (cache_GetStale H t k' (snd (cache_Get H now k c))) = fst (cache_GetStale H t k' c)"
    if "now \<le> t" for k' t
    using that GetStale_stored(1) [OF ok, of t k'] GetStale_stored(1) [OF cache_Get_ok [OF ok], of t k' now k]
    by (auto simp: G(2) purge_def dead_def split: option.splits)
  ultimately show ?thesis using G(1) by blast
qed

theorem cache_get_fresh_witness:
  "cache_reach (\<lambda>_. 0) test_opts test_cache
   \<and> cache_Peek (\<lambda>_. 0) 9 test_key (snd (cache_Get (\<lambda>_. 0) 8 test_key test_cache))
       = cache_Peek (\<lambda>_. 0) 9 test_key test_cache"
  using cache_get_fresh [OF test_cache_reach, of 8 test_key] test_cache_reach by simp

text \<open>Serve-stale hands out an entry only in its stale window: after a Put, GetStale
  finds the entry exactly from its expiry until \<open>MaxStale\<close> after it, in every
  configuration that has a positive \<open>MaxStale\<close>, and never otherwise.\<close>

theorem cache_stale_window:
  assumes "cache_reach H opts c" and "0 < clamp opts (e_Kind e) ttl"
  shows "\<exists>c'. cache_Put H now k e ttl c = Some c'
    \<and> (\<forall>t. fst (cache_GetStale H t k c') \<noteq> None \<longleftrightarrow>
         now + clamp opts (e_Kind e) ttl \<le> t \<and> t < now + clamp opts (e_Kind e) ttl + co_MaxStale opts)"
proof -
  have ok: "cache_ok H c" and o: "ca_opts c = opts" using reach_ok [OF assms(1)] by simp_all
  obtain c' where c': "cache_Put H now k e ttl c = Some c'" "cache_ok H c'" "ca_opts c' = opts"
    using cache_Put_ok [OF ok, of now k e ttl] o by auto
  have "stored H c' k = Some (e\<lparr>e_Stored := now, e_Expiry := now + clamp opts (e_Kind e) ttl\<rparr>)"
    using Put_stored [OF ok, of e ttl now k] assms(2) c'(1) by (auto simp: o)
  then have "fst (cache_GetStale H t k c') \<noteq> None \<longleftrightarrow>
      now + clamp opts (e_Kind e) ttl \<le> t \<and> t < now + clamp opts (e_Kind e) ttl + co_MaxStale opts" for t
    using GetStale_stored(1) [OF c'(2), of t k] c'(3) by auto
  with c'(1) show ?thesis by blast
qed

theorem cache_stale_window_witness:
  "cache_reach (\<lambda>_. 0) test_opts test_cache \<and> 0 < clamp test_opts (e_Kind test_entry) second
   \<and> (\<exists>c'. cache_Put (\<lambda>_. 0) 7 test_key test_entry second test_cache = Some c'
        \<and> fst (cache_GetStale (\<lambda>_. 0) (7 + 5 * second) test_key c') \<noteq> None
        \<and> fst (cache_GetStale (\<lambda>_. 0) 7 test_key c') = None)"
proof -
  have p: "0 < clamp test_opts (e_Kind test_entry) second"
    unfolding test_clamp by (simp add: second_def)
  obtain c' where c': "cache_Put (\<lambda>_. 0) 7 test_key test_entry second test_cache = Some c'"
      "\<And>t. fst (cache_GetStale (\<lambda>_. 0) t test_key c') \<noteq> None \<longleftrightarrow> 7 + 5 * second \<le> t \<and> t < 7 + 5 * second + co_MaxStale test_opts"
    using cache_stale_window [OF test_cache_reach p, of 7 test_key] unfolding test_clamp by blast
  have "fst (cache_GetStale (\<lambda>_. 0) (7 + 5 * second) test_key c') \<noteq> None"
    "fst (cache_GetStale (\<lambda>_. 0) 7 test_key c') = None"
    using c'(2) [of "7 + 5 * second"] c'(2) [of 7] by (auto simp: test_opts_def second_def)
  with c'(1) p test_cache_reach show ?thesis by blast
qed


text \<open>Eviction drops no more than it must.\<close>

lemma a_trim_maximal:
  "\<exists>n. a_trim mx mb xs = take n xs \<and> n \<le> length xs \<and> (n < length xs \<longrightarrow> a_over mx mb (take (Suc n) xs))"
proof (induction mx mb xs rule: a_trim.induct)
  case (1 mx mb xs)
  show ?case
  proof (cases "a_over mx mb xs")
    case True
    then have ne: "xs \<noteq> []" by (simp add: a_over_def)
    from 1 [OF True] obtain n where n: "a_trim mx mb (butlast xs) = take n (butlast xs)" "n \<le> length (butlast xs)"
        "n < length (butlast xs) \<longrightarrow> a_over mx mb (take (Suc n) (butlast xs))" by blast
    have "a_over mx mb (take (Suc n) xs)"
      using n ne True by (cases "n < length (butlast xs)") (simp_all add: take_butlast)
    moreover have lt: "n < length xs" using n(2) length_greater_0_conv [of xs] ne unfolding length_butlast by linarith
    moreover have "take n (butlast xs) = take n xs" by (rule take_butlast [OF lt])
    ultimately show ?thesis
      using n(1) True by (intro exI [of _ n]) (simp add: a_trim.simps [of mx mb xs])
  next
    case False
    then show ?thesis by (intro exI [of _ "length xs"]) (simp add: a_trim.simps [of mx mb xs])
  qed
qed

lemma a_over_within: "xs \<noteq> [] \<Longrightarrow> a_over mx mb xs \<longleftrightarrow> \<not> within mx mb xs"
  by (auto simp: a_over_def within_def)

text \<open>C33. A shard is a least-recently-used list: put on a shard that represents the
  list \<open>xs\<close> (most recently used first) always returns, puts the new entry at the
  front, removes the key's old entry, and keeps the longest prefix of the rest
  that fits the entry and byte bounds, so it evicts from the least recently used
  end and never more than needed.\<close>

theorem shard_put_lru:
  assumes "shard_abs s xs" and "1 \<le> sh_max s"
  shows "\<exists>s' n. shard_put k e s = Some s'
    \<and> shard_abs s' ((k, e, entrySize k e) # take n (del k xs))
    \<and> within (sh_max s) (sh_maxBytes s) ((k, e, entrySize k e) # take n (del k xs))
    \<and> (n < length (del k xs) \<longrightarrow>
         \<not> within (sh_max s) (sh_maxBytes s) ((k, e, entrySize k e) # take (Suc n) (del k xs)))"
proof -
  let ?x = "(k, e, entrySize k e)" and ?mx = "sh_max s" and ?mb = "sh_maxBytes s"
  obtain s' where s': "shard_put k e s = Some s'" "shard_abs s' (a_put ?mx ?mb k e xs)"
    using put_refines [OF assms(1)] by blast
  obtain n where n: "a_put ?mx ?mb k e xs = take n (?x # del k xs)" "n \<le> Suc (length (del k xs))"
      "n < Suc (length (del k xs)) \<longrightarrow> a_over ?mx ?mb (take (Suc n) (?x # del k xs))"
    using a_trim_maximal [of ?mx ?mb "?x # del k xs"] by (auto simp: a_put_def)
  have "n \<noteq> 0" using n(1) a_put_front [OF assms(2), of ?mb k e xs] by (cases n) auto
  then obtain m where m: "n = Suc m" by (cases n) auto
  have "within ?mx ?mb (?x # take m (del k xs))"
    using a_put_within [OF assms(2), of ?mb k e xs] n(1) m by simp
  with s' n m show ?thesis by (intro exI [of _ s'] exI [of _ m]) (auto simp: a_over_within)
qed

theorem shard_put_lru_witness:
  "shard_abs (new_shard 2 0) [] \<and> 1 \<le> sh_max (new_shard 2 0)
   \<and> (\<exists>s'. shard_put test_key test_entry (new_shard 2 0) = Some s'
         \<and> shard_abs s' [(test_key, test_entry, entrySize test_key test_entry)])"
  using shard_put_lru [OF shard_abs_new, of 2 0 test_key test_entry] shard_abs_new [of 2 0]
  by (auto simp: del_def)

lemma Remove_stored:
  assumes ok: "cache_ok H c"
  shows "stored H (snd (cache_Remove H k c)) k' = (if k' = k then None else stored H c k')"
proof -
  let ?s = "ca_shards c ! shardFor H c k"
  obtain xs where xs: "shard_abs ?s xs" "shardFor H c k < length (ca_shards c)" using cache_okD [OF ok, of k] by blast
  show ?thesis
  proof (cases "fmlookup (lru_m ?s) k")
    case None
    then show ?thesis by (auto simp: cache_Remove_def Let_def stored_def)
  next
    case (Some n)
    note R = abs_remove_key [OF xs(1) Some]
    have "stored H (put_shard (shardFor H c k) (shard_remove n ?s) c) k = None"
      using stored_put_shard_self [OF xs(2) R] by (simp add: map_of_del)
    with Some show ?thesis
      using stored_put_shard [OF xs(2) R xs(1), of k'] by (auto simp: cache_Remove_def Let_def map_of_del)
  qed
qed

lemma New_stored: "cache_New opts = Inr c \<Longrightarrow> co_Shards opts < 2 ^ 63 \<Longrightarrow> stored H c k = None"
proof -
  assume n: "cache_New opts = Inr c" and z: "co_Shards opts < 2 ^ 63"
  have "cache_ok H c" using cache_ok_New [OF n z] by blast
  then have "ca_shards c ! shardFor H c k \<in> set (ca_shards c)" using shardFor_bound by simp
  then have "lru_m (ca_shards c ! shardFor H c k) = fmempty"
    using n by (auto simp: cache_New_def Let_def new_shard_def lru_empty_def lru.defs shard.defs split: if_splits)
  then show ?thesis by (simp add: stored_def)
qed

definition ttl_cap :: "coptions \<Rightarrow> kind \<Rightarrow> duration" where
  "ttl_cap opts kd = (if kd = KindNegative then co_MaxNegativeTTL opts else co_MaxTTL opts)"

lemma clamp_cap: "clamp opts kd ttl \<le> ttl_cap opts kd"
  by (auto simp: clamp_def ttl_cap_def Let_def)

lemma stored_lifetime:
  "cache_reach H opts c \<Longrightarrow> stored H c k = Some e \<Longrightarrow>
    0 < e_Expiry e - e_Stored e \<and> e_Expiry e - e_Stored e \<le> ttl_cap opts (e_Kind e)"
proof (induction arbitrary: e rule: cache_reach.induct)
  case (reach_New c)
  then show ?case by (simp add: New_stored)
next
  case (reach_Get c now k')
  have ok: "cache_ok H c" using reach_ok [OF reach_Get.hyps] by simp
  show ?case using reach_Get.prems reach_Get.IH
    by (auto simp: Get_stored(2) [OF ok] purge_def split: if_splits option.splits)
next
  case (reach_GetStale c now k')
  have ok: "cache_ok H c" using reach_ok [OF reach_GetStale.hyps] by simp
  show ?case using reach_GetStale.prems reach_GetStale.IH
    by (auto simp: GetStale_stored(2) [OF ok] purge_def split: if_splits option.splits)
next
  case (reach_Remove c k')
  have ok: "cache_ok H c" using reach_ok [OF reach_Remove.hyps] by simp
  show ?case using reach_Remove.prems reach_Remove.IH by (auto simp: Remove_stored [OF ok] split: if_splits)
next
  case (reach_Put c now k' e' ttl c')
  have ok: "cache_ok H c" and o: "ca_opts c = opts" using reach_ok [OF reach_Put.hyps(1)] by simp_all
  show ?case
  proof (cases "0 < clamp opts (e_Kind e') ttl")
    case False
    then have "c' = c" using reach_Put.hyps(2) by (simp add: cache_Put_def Let_def o)
    then show ?thesis using reach_Put.IH reach_Put.prems by simp
  next
    case True
    then show ?thesis
      using Put_stored [OF ok, of e' ttl now k'] reach_Put clamp_cap [of opts "e_Kind e'" ttl]
      by (cases "k = k'") (auto simp: o)
  qed
qed

text \<open>No entry outlives its cap: whatever TTL it arrived with, an entry a lookup
  returns was stored for a positive time of at most \<open>MaxTTL\<close>, or
  \<open>MaxNegativeTTL\<close> for a negative entry, and is returned before that time is up.\<close>

theorem cache_ttl_capped:
  assumes "cache_reach H opts c" and "fst (cache_Get H now k c) = Some e"
  shows "0 < e_Expiry e - e_Stored e
    \<and> now - e_Stored e < (if e_Kind e = KindNegative then co_MaxNegativeTTL opts else co_MaxTTL opts)"
proof -
  have ok: "cache_ok H c" using reach_ok [OF assms(1)] by simp
  have "stored H c k = Some e" "now < e_Expiry e"
    using assms(2) by (auto simp: Get_stored(1) [OF ok] Peek_stored split: option.splits if_splits)
  with stored_lifetime [OF assms(1)] show ?thesis by (fastforce simp: ttl_cap_def)
qed


theorem cache_ttl_capped_witness:
  "\<exists>c'. cache_reach (\<lambda>_. 0) test_opts c' \<and> fst (cache_Get (\<lambda>_. 0) 8 test_key c') \<noteq> None
    \<and> (\<forall>e. fst (cache_Get (\<lambda>_. 0) 8 test_key c') = Some e \<longrightarrow> 0 < e_Expiry e - e_Stored e)"
proof -
  have ok: "cache_ok (\<lambda>_. 0) test_cache" and o: "ca_opts test_cache = test_opts"
    using reach_ok [OF test_cache_reach] by simp_all
  have "0 < clamp (ca_opts test_cache) (e_Kind test_entry) second"
    unfolding o test_clamp by (simp add: second_def)
  from Put_stored [OF ok this, of 7 test_key] obtain c' where
    c': "cache_Put (\<lambda>_. 0) 7 test_key test_entry second test_cache = Some c'"
      "stored (\<lambda>_. 0) c' test_key = Some (test_entry\<lparr>e_Stored := 7, e_Expiry := 7 + 5 * second\<rparr>)"
    unfolding o test_clamp by blast
  have r: "cache_reach (\<lambda>_. 0) test_opts c'" using reach_Put [OF test_cache_reach c'(1)] .
  then have "fst (cache_Get (\<lambda>_. 0) 8 test_key c') \<noteq> None"
    using reach_ok [OF r] c'(2) by (simp add: Get_stored(1) Peek_stored second_def)
  with r cache_ttl_capped [OF r, of 8 test_key] show ?thesis by blast
qed

text \<open>The TTL a client sees counts down: every record a fresh entry hands out carries
  the whole seconds the entry has left, rounded down, as long as that fits the
  32-bit field; an expired entry hands out TTL 0.\<close>

theorem rrs_ttl_countdown:
  assumes "e_Expiry e - now < 2 ^ 32 * second"
  shows "length (RRsAt L e now) = length (e_RRs e)
    \<and> (\<forall>r \<in> set (RRsAt L e now). uint (rh_Ttl (rr_hdr r)) = max 0 (e_Expiry e - now) div second)"
proof -
  have t: "uint (TTLAt e now) = max 0 (e_Expiry e - now) div second"
  proof (cases "now < e_Expiry e")
    case False
    then have "time_Sub (e_Expiry e) now \<le> 0" using time_Sub_pos [of "e_Expiry e" now] by linarith
    with False show ?thesis by (simp add: TTLAt_def Let_def)
  next
    case True
    have d: "time_Sub (e_Expiry e) now = e_Expiry e - now"
      using assms True by (simp add: time_Sub_def maxDuration_def minDuration_def second_def)
    have "(e_Expiry e - now) div second < 2 ^ 32"
      using assms by (simp add: second_def div_less_iff_less_mult)
    with True d show ?thesis
      by (simp add: TTLAt_def Let_def uint_word_of_int take_bit_int_eq_self_iff second_def pos_imp_zdiv_nonneg_iff)
  qed
  then show ?thesis by (auto simp: RRsAt_def withTtl_def Let_def)
qed

theorem rrs_ttl_countdown_witness:
  "e_Expiry (test_entry\<lparr>e_Expiry := 5 * second\<rparr>) - 2 * second < 2 ^ 32 * second
   \<and> length (RRsAt ref_lib (test_entry\<lparr>e_Expiry := 5 * second\<rparr>) (2 * second)) = 0"
  using rrs_ttl_countdown [of "test_entry\<lparr>e_Expiry := 5 * second\<rparr>" "2 * second" ref_lib]
  by (simp add: test_entry_def second_def)

lemma CanonicalName_lower: "cache_CanonicalName s = map lower s"
proof (cases "\<exists>c \<in> set s. CHR ''A'' \<le> c \<and> c \<le> CHR ''Z''")
  case True
  then show ?thesis unfolding cache_CanonicalName_def lower_def by simp
next
  case False
  then have "map lower s = s" by (intro map_idI) (auto simp: lower_def)
  with False show ?thesis by (simp add: cache_CanonicalName_def)
qed

text \<open>Cache keys are case-insensitive in the name and in nothing else: two questions
  share a key exactly when their names agree after lowering ASCII letters and their
  type and class are equal.\<close>

theorem newkey_case_insensitive:
  "NewKey n t c = NewKey n' t' c' \<longleftrightarrow> map lower n = map lower n' \<and> t = t' \<and> c = c'"
  by (simp add: NewKey_def CanonicalName_lower)

end
