(* ===== verification/Infra.thy ===== *)
theory Infra
  imports Lru Netip Cache
begin

text \<open>
  \<open>internal/cache/infra.go\<close>: what is known of each authoritative server, in
  sharded LRU tables of the same pointer structure as the RRset cache
  (theory \<open>Lru\<close>). The seeded hash of the 16-byte address is an argument
  \<open>H\<close>. Times count from Go's zero time, so \<open>time.Time{}\<close> is 0. The smoothed
  RTT is kept at its 64-bit width; the backoff, computed in floating point,
  is exact here, as it is there for a \<open>MaxBackoff\<close> below \<open>2^53\<close>
  nanoseconds. The part after the operations relates a shard to the list it
  represents and proves the table's bound and the backoff behaviour.
\<close>

record infra_options =
  io_MaxEntries :: int
  io_Shards :: int
  io_InitialRTT :: duration
  io_MaxRTT :: duration
  io_MaxBackoff :: duration

record server_stat =
  ss_SRTT :: duration
  ss_Failures :: int
  ss_DownUntil :: gtime
  ss_EDNSBroken :: bool
  ss_LastSeen :: gtime

record infra_shard = "(addr, server_stat) lru" +
  is_max :: int

record infra =
  in_shards :: "infra_shard list"
  in_mask :: "64 word"
  in_opts :: infra_options

definition millisecond :: duration where "millisecond = 1000000"

definition new_infra_shard :: "int \<Rightarrow> infra_shard" where
  "new_infra_shard per = lru.extend lru_empty (infra_shard.fields per)"

definition NewInfra :: "infra_options \<Rightarrow> option_error + infra" where
  "NewInfra opts0 =
     (if io_Shards opts0 \<le> 0 \<or> (io_Shards opts0 AND (io_Shards opts0 - 1)) \<noteq> 0
        then Inl (OptionError ''Shards'' ''must be a power of two'')
      else if io_MaxEntries opts0 < io_Shards opts0 then Inl (OptionError ''MaxEntries'' ''must be >= Shards'')
      else
        let opts1 = (if io_InitialRTT opts0 \<le> 0 then opts0\<lparr>io_InitialRTT := 100 * millisecond\<rparr> else opts0);
            opts2 = (if io_MaxRTT opts1 \<le> 0 then opts1\<lparr>io_MaxRTT := 3 * second\<rparr> else opts1);
            opts = (if io_MaxBackoff opts2 \<le> 0 then opts2\<lparr>io_MaxBackoff := 30 * second\<rparr> else opts2);
            per = io_MaxEntries opts div io_Shards opts
        in Inr \<lparr>in_shards = replicate (nat (io_Shards opts)) (new_infra_shard per),
                in_mask = word_of_int (io_Shards opts - 1), in_opts = opts\<rparr>)"

definition infra_shardFor :: "(8 word list \<Rightarrow> 64 word) \<Rightarrow> infra \<Rightarrow> addr \<Rightarrow> nat" where
  "infra_shardFor H i a = unat (H (As16 a) AND in_mask i)"

definition put_infra_shard :: "nat \<Rightarrow> infra_shard \<Rightarrow> infra \<Rightarrow> infra" where
  "put_infra_shard j s i = i\<lparr>in_shards := (in_shards i)[j := s]\<rparr>"

definition stat_zero :: server_stat where
  "stat_zero = \<lparr>ss_SRTT = 0, ss_Failures = 0, ss_DownUntil = 0, ss_EDNSBroken = False, ss_LastSeen = 0\<rparr>"

definition infra_Stat :: "(8 word list \<Rightarrow> 64 word) \<Rightarrow> addr \<Rightarrow> infra \<Rightarrow> (server_stat \<times> bool) \<times> infra" where
  "infra_Stat H a i =
     (let j = infra_shardFor H i a; s = in_shards i ! j in
      case fmlookup (lru_m s) a of
        None \<Rightarrow> ((stat_zero\<lparr>ss_SRTT := io_InitialRTT (in_opts i)\<rparr>, False), i)
      | Some n \<Rightarrow> let s1 = moveToFront n s in ((val_at s1 n, True), put_infra_shard j s1 i))"

definition infra_RTT :: "(8 word list \<Rightarrow> 64 word) \<Rightarrow> addr \<Rightarrow> infra \<Rightarrow> duration \<times> infra" where
  "infra_RTT H a i = (let ((st, _), i1) = infra_Stat H a i in
     (if ss_SRTT st \<le> 0 then io_InitialRTT (in_opts i) else ss_SRTT st, i1))"

definition infra_Usable :: "(8 word list \<Rightarrow> 64 word) \<Rightarrow> gtime \<Rightarrow> addr \<Rightarrow> infra \<Rightarrow> bool \<times> infra" where
  "infra_Usable H now a i = (let ((st, known), i1) = infra_Stat H a i in
     (if \<not> known then True else \<not> now < ss_DownUntil st, i1))"

definition infra_EDNSBroken :: "(8 word list \<Rightarrow> 64 word) \<Rightarrow> addr \<Rightarrow> infra \<Rightarrow> bool \<times> infra" where
  "infra_EDNSBroken H a i = (let ((st, _), i1) = infra_Stat H a i in (ss_EDNSBroken st, i1))"

partial_function (option) infra_evict :: "infra_shard \<Rightarrow> infra_shard option" where
  "infra_evict s = (if int (size (fmdom (lru_m s))) > is_max s
     then (case lru_tail s of None \<Rightarrow> Some s | Some t \<Rightarrow> infra_evict (lru_remove t s))
     else Some s)"

definition infra_update :: "(8 word list \<Rightarrow> 64 word) \<Rightarrow> gtime \<Rightarrow> addr \<Rightarrow> (server_stat \<Rightarrow> server_stat) \<Rightarrow> infra \<Rightarrow> infra option" where
  "infra_update H now a f i =
     (let j = infra_shardFor H i a; s = in_shards i ! j;
          fin = (\<lambda>n t. put_infra_shard j (set_val n ((f (val_at t n))\<lparr>ss_LastSeen := now\<rparr>) t) i)
      in case fmlookup (lru_m s) a of
           None \<Rightarrow>
             let n = lru_free s;
                 s1 = lru_insert a (stat_zero\<lparr>ss_SRTT := io_InitialRTT (in_opts i)\<rparr>) s
             in map_option (fin n) (infra_evict s1)
         | Some n \<Rightarrow> Some (fin n (moveToFront n s)))"

definition success_stat :: "duration \<Rightarrow> server_stat \<Rightarrow> server_stat" where
  "success_stat rtt st =
     (let v = int64_wrap (int64_wrap (ss_SRTT st * 7) + rtt);
          st1 = (if ss_SRTT st \<le> 0 then st\<lparr>ss_SRTT := rtt\<rparr>
                 else st\<lparr>ss_SRTT := sgn v * (\<bar>v\<bar> div 8)\<rparr>)
      in st1\<lparr>ss_Failures := 0, ss_DownUntil := 0\<rparr>)"

definition infra_Success :: "(8 word list \<Rightarrow> 64 word) \<Rightarrow> gtime \<Rightarrow> addr \<Rightarrow> duration \<Rightarrow> infra \<Rightarrow> infra option" where
  "infra_Success H now a rtt i = infra_update H now a (success_stat rtt) i"

definition failure_stat :: "infra_options \<Rightarrow> gtime \<Rightarrow> server_stat \<Rightarrow> server_stat" where
  "failure_stat opts now st =
     (let st1 = st\<lparr>ss_Failures := ss_Failures st + 1\<rparr>;
          st2 = (if ss_SRTT st1 \<le> 0 then st1\<lparr>ss_SRTT := io_InitialRTT opts\<rparr> else st1);
          st3 = st2\<lparr>ss_SRTT := int64_wrap (ss_SRTT st2 * 2)\<rparr>;
          st4 = (if ss_SRTT st3 > io_MaxRTT opts then st3\<lparr>ss_SRTT := io_MaxRTT opts\<rparr> else st3)
      in if ss_Failures st4 \<ge> 2
         then st4\<lparr>ss_DownUntil := now + min (second * 2 ^ nat (ss_Failures st4 - 2)) (io_MaxBackoff opts)\<rparr>
         else st4)"

definition infra_Failure :: "(8 word list \<Rightarrow> 64 word) \<Rightarrow> gtime \<Rightarrow> addr \<Rightarrow> infra \<Rightarrow> infra option" where
  "infra_Failure H now a i = infra_update H now a (failure_stat (in_opts i) now) i"

definition MarkEDNSBroken :: "(8 word list \<Rightarrow> 64 word) \<Rightarrow> gtime \<Rightarrow> addr \<Rightarrow> infra \<Rightarrow> infra option" where
  "MarkEDNSBroken H now a i = infra_update H now a (\<lambda>st. st\<lparr>ss_EDNSBroken := True\<rparr>) i"

definition infra_Len :: "infra \<Rightarrow> nat" where
  "infra_Len i = foldl (\<lambda>n s. n + size (fmdom (lru_m s))) 0 (in_shards i)"

section \<open>A shard and the list it represents\<close>

type_synonym ilist = "(addr \<times> server_stat) list"

lemma infra_max_ops [simp]:
  "is_max (unlink n s) = is_max s" "is_max (pushFront n s) = is_max s" "is_max (moveToFront n s) = is_max s"
  "is_max (lru_remove n s) = is_max s" "is_max (lru_insert k v s) = is_max s" "is_max (set_val n v s) = is_max s"
  for s :: infra_shard
  by (auto simp: lru_op_defs Let_def split: option.splits)

definition infra_over :: "infra_shard \<Rightarrow> bool" where
  "infra_over s \<longleftrightarrow> int (size (fmdom (lru_m s))) > is_max s \<and> lru_tail s \<noteq> None"

interpretation infra_loop: eviction_loop "\<lambda>s. \<exists>xs. lru_abs s xs" infra_over
  "\<lambda>s. lru_remove (the (lru_tail s)) s" infra_evict "\<lambda>s. size (fmdom (lru_m s))"
proof unfold_locales
  fix s :: infra_shard
  show "infra_evict s = (if infra_over s then infra_evict (lru_remove (the (lru_tail s)) s) else Some s)"
    by (subst infra_evict.simps) (auto simp: infra_over_def split: option.splits)
  assume "\<exists>xs. lru_abs s xs" "infra_over s"
  then obtain xs t where xs: "lru_abs s xs" "lru_tail s = Some t" by (auto simp: infra_over_def)
  note T = abs_tail [OF xs]
  show "\<exists>xs. lru_abs (lru_remove (the (lru_tail s)) s) xs" using T(1) xs(2) by auto
  show "size (fmdom (lru_m (lru_remove (the (lru_tail s)) s))) < size (fmdom (lru_m s))"
    using abs_len [OF T(1)] abs_len [OF xs(1)] T(2) xs(2) by simp
qed

lemma remove_lookup: "fmlookup (lru_m (lru_remove n s)) k = None \<or> fmlookup (lru_m (lru_remove n s)) k = fmlookup (lru_m s) k"
  by (auto simp: lru_remove_def Let_def split: option.splits)

lemma abs_front_lookup: "lru_abs s ((k, v) # xs) \<Longrightarrow> \<exists>p. fmlookup (lru_m s) k = Some p \<and> val_at s p = v"
  using abs_lookup [of s "(k, v) # xs" k] by (cases "fmlookup (lru_m s) k") auto

lemma evict_refines:
  assumes a: "lru_abs s ((k, v) # xs)" and m: "1 \<le> is_max s"
  shows "\<exists>s' n. infra_evict s = Some s' \<and> lru_abs s' ((k, v) # take n xs) \<and> is_max s' = is_max s
    \<and> int (length ((k, v) # take n xs)) \<le> is_max s \<and> fmlookup (lru_m s') k = fmlookup (lru_m s) k"
proof -
  let ?P = "\<lambda>t. \<exists>n. lru_abs t ((k, v) # take n xs) \<and> is_max t = is_max s \<and> fmlookup (lru_m t) k = fmlookup (lru_m s) k"
  have step: "?P (lru_remove (the (lru_tail t)) t)" if P: "?P t" and ov: "infra_over t" for t
  proof -
    obtain n where n: "lru_abs t ((k, v) # take n xs)" "is_max t = is_max s" "fmlookup (lru_m t) k = fmlookup (lru_m s) k"
      using P by blast
    obtain p where p: "lru_tail t = Some p" using ov by (auto simp: infra_over_def)
    have ne: "take n xs \<noteq> []" using abs_len [OF n(1)] ov n(2) m by (auto simp: infra_over_def)
    have "butlast ((k, v) # take n xs) = (k, v) # butlast (take n xs)" using ne by simp
    also have "butlast (take n xs) = take (min n (length xs) - 1) xs" by (simp add: butlast_conv_take min_def)
    finally have b: "butlast ((k, v) # take n xs) = (k, v) # take (min n (length xs) - 1) xs" .
    have r: "lru_abs (lru_remove p t) ((k, v) # take (min n (length xs) - 1) xs)" using abs_tail(1) [OF n(1) p] b by simp
    have "fmlookup (lru_m (lru_remove p t)) k = fmlookup (lru_m s) k"
      using abs_front_lookup [OF r] remove_lookup [of p t k] n(3) by auto
    with r n(2) p show ?thesis by auto
  qed
  have "?P s" using a by (intro exI [of _ "length xs"]) simp
  then obtain s' n where s': "infra_evict s = Some s'" "\<not> infra_over s'" "lru_abs s' ((k, v) # take n xs)"
      "is_max s' = is_max s" "fmlookup (lru_m s') k = fmlookup (lru_m s) k"
    using infra_loop.loop_result [of s ?P] a step by blast
  have "lru_tail s' \<noteq> None" using abs_tail_None [OF s'(3)] by simp
  then have "int (length ((k, v) # take n xs)) \<le> is_max s"
    using s'(2,4) abs_len [OF s'(3)] by (simp add: infra_over_def)
  with s' show ?thesis by blast
qed

text \<open>Whatever the table held, an update leaves the server's record at the front,
  computed from its old record or from the initial one, and a prefix of the rest.\<close>

definition old_stat :: "infra_options \<Rightarrow> addr \<Rightarrow> ilist \<Rightarrow> server_stat" where
  "old_stat opts a xs = (case map_of xs a of None \<Rightarrow> stat_zero\<lparr>ss_SRTT := io_InitialRTT opts\<rparr> | Some st \<Rightarrow> st)"

lemma insert_lookup: "fmlookup (lru_m (lru_insert k v s)) k = Some (lru_free s)"
  by (auto simp: lru_insert_def alloc_def pushFront_def set_prev_def set_next_def upd_node_def Let_def split: option.splits)

lemma set_val_front:
  assumes "lru_abs s ((k, v) # xs)" "fmlookup (lru_m s) k = Some n"
  shows "lru_abs (set_val n w s) ((k, w) # xs)"
proof -
  have "k \<notin> fst ` set xs" using abs_distinct [OF assms(1)] by simp
  then have "map (\<lambda>(k', v'). (k', if k' = k then w else v')) xs = xs" by (intro map_idI) force
  with abs_set_val(1) [OF assms, of w] show ?thesis by simp
qed

lemma update_refines:
  assumes a: "lru_abs (in_shards i ! infra_shardFor H i a) xs"
    and m: "1 \<le> is_max (in_shards i ! infra_shardFor H i a)"
    and len: "int (length xs) \<le> is_max (in_shards i ! infra_shardFor H i a)"
  shows "\<exists>s n. infra_update H now a f i = Some (put_infra_shard (infra_shardFor H i a) s i)
    \<and> lru_abs s ((a, (f (old_stat (in_opts i) a xs))\<lparr>ss_LastSeen := now\<rparr>) # take n (del a xs))
    \<and> is_max s = is_max (in_shards i ! infra_shardFor H i a)
    \<and> int (length ((a, f (old_stat (in_opts i) a xs)) # take n (del a xs))) \<le> is_max s"
proof -
  let ?s = "in_shards i ! infra_shardFor H i a"
  let ?z = "stat_zero\<lparr>ss_SRTT := io_InitialRTT (in_opts i)\<rparr>"
  show ?thesis
  proof (cases "fmlookup (lru_m ?s) a")
    case None
    have no: "map_of xs a = None" using abs_lookup [OF a, of a] None by simp
    then have d: "del a xs = xs" unfolding del_def by (intro filter_True) (auto simp: map_of_eq_None_iff)
    obtain s' n where s': "infra_evict (lru_insert a ?z ?s) = Some s'" "lru_abs s' ((a, ?z) # take n xs)"
        "is_max s' = is_max ?s" "int (length ((a, ?z) # take n xs)) \<le> is_max ?s"
        "fmlookup (lru_m s') a = Some (lru_free ?s)"
      using evict_refines [OF abs_insert [OF a None, of ?z]] m
      unfolding insert_lookup infra_max_ops by blast
    have v: "val_at s' (lru_free ?s) = ?z" using abs_front_lookup [OF s'(2)] s'(5) by auto
    show ?thesis using None s' v set_val_front [OF s'(2,5)] no d
      by (intro exI [of _ "set_val (lru_free ?s) ((f ?z)\<lparr>ss_LastSeen := now\<rparr>) s'"] exI [of _ n])
         (simp add: infra_update_def Let_def old_stat_def)
  next
    case (Some p)
    have v: "map_of xs a = Some (val_at ?s p)" using abs_lookup [OF a, of a] Some by simp
    note M = abs_move [OF a Some]
    have "length (del a xs) < length xs"
      using map_of_SomeD [OF v] unfolding del_def by (intro length_filter_less [of "(a, val_at ?s p)"]) auto
    moreover have "fmlookup (lru_m (moveToFront p ?s)) a = Some p" using Some by simp
    ultimately show ?thesis using Some v M(2) set_val_front [OF M(1)] len
      by (intro exI [of _ "set_val p ((f (val_at ?s p))\<lparr>ss_LastSeen := now\<rparr>) (moveToFront p ?s)"] exI [of _ "length xs"])
         (simp add: infra_update_def Let_def old_stat_def)
  qed
qed


section \<open>The invariant of the table\<close>

definition infra_ok :: "infra \<Rightarrow> bool" where
  "infra_ok i \<longleftrightarrow> length (in_shards i) = Suc (unat (in_mask i))
     \<and> (\<forall>s \<in> set (in_shards i). 1 \<le> is_max s \<and> is_max s = io_MaxEntries (in_opts i) div int (length (in_shards i))
          \<and> (\<exists>xs. lru_abs s xs \<and> int (length xs) \<le> is_max s))"

lemma put_infra_shard_simps [simp]:
  "in_mask (put_infra_shard j s i) = in_mask i" "in_opts (put_infra_shard j s i) = in_opts i"
  "in_shards (put_infra_shard j s i) = (in_shards i)[j := s]"
  "infra_shardFor H (put_infra_shard j s i) = infra_shardFor H i"
  by (simp_all add: put_infra_shard_def infra_shardFor_def fun_eq_iff)

lemma infra_shardFor_bound: "infra_ok i \<Longrightarrow> infra_shardFor H i a < length (in_shards i)"
  using word_and_le1 [of "H (As16 a)" "in_mask i"]
  by (simp add: infra_ok_def infra_shardFor_def word_le_nat_alt le_imp_less_Suc)

lemma infra_okD:
  assumes "infra_ok i"
  shows "\<exists>xs. lru_abs (in_shards i ! infra_shardFor H i a) xs
    \<and> int (length xs) \<le> is_max (in_shards i ! infra_shardFor H i a)
    \<and> 1 \<le> is_max (in_shards i ! infra_shardFor H i a)"
proof -
  have "in_shards i ! infra_shardFor H i a \<in> set (in_shards i)" using infra_shardFor_bound [OF assms] by simp
  then show ?thesis using assms unfolding infra_ok_def by blast
qed

lemma infra_ok_put:
  assumes ok: "infra_ok i" and m: "is_max s = is_max (in_shards i ! infra_shardFor H i a)"
    and xs: "lru_abs s xs" "int (length xs) \<le> is_max s"
  shows "infra_ok (put_infra_shard (infra_shardFor H i a) s i)"
proof -
  let ?j = "infra_shardFor H i a"
  have j: "in_shards i ! ?j \<in> set (in_shards i)" using infra_shardFor_bound [OF ok] by simp
  have "t = s \<or> t \<in> set (in_shards i)" if "t \<in> set ((in_shards i)[?j := s])" for t
    using that set_update_subset_insert by fastforce
  then show ?thesis using ok j m xs unfolding infra_ok_def put_infra_shard_simps length_list_update
    by (metis (no_types, lifting))
qed

lemma infra_Stat_state:
  assumes ok: "infra_ok i"
  shows "infra_ok (snd (infra_Stat H a i)) \<and> in_opts (snd (infra_Stat H a i)) = in_opts i"
proof -
  let ?s = "in_shards i ! infra_shardFor H i a"
  obtain xs where xs: "lru_abs ?s xs" "int (length xs) \<le> is_max ?s" using infra_okD [OF ok] by blast
  show ?thesis
  proof (cases "fmlookup (lru_m ?s) a")
    case None
    then show ?thesis using ok by (simp add: infra_Stat_def Let_def)
  next
    case (Some p)
    note M = abs_move(1) [OF xs(1) Some]
    have "int (length ((a, val_at ?s p) # del a xs)) \<le> is_max (moveToFront p ?s)"
      using abs_len [OF M] abs_len [OF xs(1)] xs(2) by simp
    from infra_ok_put [OF ok _ M this] Some show ?thesis by (simp add: infra_Stat_def Let_def)
  qed
qed

lemma infra_update_ok:
  assumes ok: "infra_ok i"
  shows "\<exists>i'. infra_update H now a f i = Some i' \<and> infra_ok i' \<and> in_opts i' = in_opts i"
proof -
  obtain xs where xs: "lru_abs (in_shards i ! infra_shardFor H i a) xs"
      "int (length xs) \<le> is_max (in_shards i ! infra_shardFor H i a)"
      "1 \<le> is_max (in_shards i ! infra_shardFor H i a)" using infra_okD [OF ok] by blast
  obtain s n where s: "infra_update H now a f i = Some (put_infra_shard (infra_shardFor H i a) s i)"
      "lru_abs s ((a, (f (old_stat (in_opts i) a xs))\<lparr>ss_LastSeen := now\<rparr>) # take n (del a xs))"
      "is_max s = is_max (in_shards i ! infra_shardFor H i a)"
      "int (length ((a, f (old_stat (in_opts i) a xs)) # take n (del a xs))) \<le> is_max s"
    using update_refines [OF xs(1,3,2)] by blast
  have "int (length ((a, (f (old_stat (in_opts i) a xs))\<lparr>ss_LastSeen := now\<rparr>) # take n (del a xs))) \<le> is_max s"
    using s(4) by simp
  from infra_ok_put [OF ok s(3,2) this] s(1) show ?thesis by simp
qed

text \<open>The record the table holds for a server.\<close>

definition known_stat :: "(8 word list \<Rightarrow> 64 word) \<Rightarrow> infra \<Rightarrow> addr \<Rightarrow> server_stat option" where
  "known_stat H i a = (let s = in_shards i ! infra_shardFor H i a in map_option (val_at s) (fmlookup (lru_m s) a))"

definition stat_of :: "(8 word list \<Rightarrow> 64 word) \<Rightarrow> infra \<Rightarrow> addr \<Rightarrow> server_stat" where
  "stat_of H i a = (case known_stat H i a of
     None \<Rightarrow> stat_zero\<lparr>ss_SRTT := io_InitialRTT (in_opts i)\<rparr> | Some st \<Rightarrow> st)"

lemma infra_Stat_value:
  assumes ok: "infra_ok i"
  shows "fst (infra_Stat H a i) = (stat_of H i a, known_stat H i a \<noteq> None)"
proof -
  obtain xs where "lru_abs (in_shards i ! infra_shardFor H i a) xs" using infra_okD [OF ok] by blast
  from abs_move(2) [OF this] show ?thesis
    by (auto simp: infra_Stat_def stat_of_def known_stat_def Let_def split: option.splits)
qed

lemma infra_update_stat:
  assumes ok: "infra_ok i"
  shows "\<exists>i'. infra_update H now a f i = Some i' \<and> infra_ok i' \<and> in_opts i' = in_opts i
    \<and> known_stat H i' a = Some ((f (stat_of H i a))\<lparr>ss_LastSeen := now\<rparr>)"
proof -
  obtain xs where xs: "lru_abs (in_shards i ! infra_shardFor H i a) xs"
      "int (length xs) \<le> is_max (in_shards i ! infra_shardFor H i a)"
      "1 \<le> is_max (in_shards i ! infra_shardFor H i a)" using infra_okD [OF ok] by blast
  have o: "old_stat (in_opts i) a xs = stat_of H i a"
    using abs_lookup [OF xs(1), of a] by (auto simp: old_stat_def stat_of_def known_stat_def Let_def split: option.splits)
  obtain s n where s: "infra_update H now a f i = Some (put_infra_shard (infra_shardFor H i a) s i)"
      "lru_abs s ((a, (f (stat_of H i a))\<lparr>ss_LastSeen := now\<rparr>) # take n (del a xs))"
    using update_refines [OF xs(1,3,2)] unfolding o by blast
  have "known_stat H (put_infra_shard (infra_shardFor H i a) s i) a = Some ((f (stat_of H i a))\<lparr>ss_LastSeen := now\<rparr>)"
    using abs_front_lookup [OF s(2)] infra_shardFor_bound [OF ok, of H a] by (auto simp: known_stat_def)
  with s(1) infra_update_ok [OF ok, of H now a f] show ?thesis by auto
qed

section \<open>Properties\<close>

inductive infra_reach :: "(8 word list \<Rightarrow> 64 word) \<Rightarrow> infra_options \<Rightarrow> infra \<Rightarrow> bool" for H opts where
  ireach_New: "NewInfra opts = Inr i \<Longrightarrow> io_Shards opts < 2 ^ 63 \<Longrightarrow> infra_reach H opts i"
| ireach_Stat: "infra_reach H opts i \<Longrightarrow> infra_reach H opts (snd (infra_Stat H a i))"
| ireach_Success: "infra_reach H opts i \<Longrightarrow> infra_Success H now a rtt i = Some i' \<Longrightarrow> infra_reach H opts i'"
| ireach_Failure: "infra_reach H opts i \<Longrightarrow> infra_Failure H now a i = Some i' \<Longrightarrow> infra_reach H opts i'"
| ireach_EDNS: "infra_reach H opts i \<Longrightarrow> MarkEDNSBroken H now a i = Some i' \<Longrightarrow> infra_reach H opts i'"

lemma infra_ok_New:
  assumes n: "NewInfra opts = Inr i" and sz: "io_Shards opts < 2 ^ 63"
  shows "infra_ok i \<and> io_MaxEntries (in_opts i) = io_MaxEntries opts \<and> 0 < io_InitialRTT (in_opts i)
    \<and> 0 < io_MaxRTT (in_opts i) \<and> 0 < io_MaxBackoff (in_opts i)"
proof -
  have p: "0 < io_Shards opts" "io_Shards opts \<le> io_MaxEntries opts"
    using n by (auto simp: NewInfra_def split: if_splits)
  define o' where "o' = in_opts i"
  have i: "i = \<lparr>in_shards = replicate (nat (io_Shards opts)) (new_infra_shard (io_MaxEntries opts div io_Shards opts)),
                in_mask = word_of_int (io_Shards opts - 1), in_opts = o'\<rparr>"
    and o: "io_MaxEntries o' = io_MaxEntries opts" "0 < io_InitialRTT o'" "0 < io_MaxRTT o'" "0 < io_MaxBackoff o'"
    using n by (auto simp: NewInfra_def o'_def Let_def millisecond_def second_def split: if_splits)
  have m: "uint (word_of_int (io_Shards opts - 1) :: 64 word) = io_Shards opts - 1"
    using p sz by (subst uint_word_of_int) (simp add: take_bit_int_eq_self_iff)
  have k: "nat (io_Shards opts) = Suc (unat (word_of_int (io_Shards opts - 1) :: 64 word))"
    using p by (simp only: unat_eq_nat_uint m)
  have l: "1 \<le> io_MaxEntries opts div io_Shards opts"
    using p by (simp add: pos_imp_zdiv_pos_iff int_one_le_iff_zero_less)
  have e: "lru_abs (new_infra_shard per) []" for per
    by (rule abs_empty) (simp_all add: new_infra_shard_def lru_empty_def lru.defs infra_shard.defs)
  have "is_max (new_infra_shard per) = per" for per
    by (simp add: new_infra_shard_def lru.defs infra_shard.defs)
  moreover have "uint (word_of_int (io_Shards opts) - 1 :: 64 word) = io_Shards opts - 1" using m by simp
  moreover have "\<exists>xs. lru_abs (new_infra_shard per) xs \<and> int (length xs) \<le> per" if "1 \<le> per" for per
    using e that by (intro exI [of _ "[]"]) simp
  ultimately have "infra_ok i" using k l o p by (auto simp: infra_ok_def i)
  then show ?thesis using o by (simp add: o'_def)
qed

lemma infra_reach_ok:
  "infra_reach H opts i \<Longrightarrow> infra_ok i \<and> io_MaxEntries (in_opts i) = io_MaxEntries opts \<and> 0 < io_InitialRTT (in_opts i)
    \<and> 0 < io_MaxRTT (in_opts i) \<and> 0 < io_MaxBackoff (in_opts i)"
proof (induction rule: infra_reach.induct)
  case (ireach_New i)
  then show ?case by (rule infra_ok_New)
next
  case (ireach_Stat i a)
  then show ?case using infra_Stat_state [of i H a] by simp
next
  case (ireach_Success i now a rtt i')
  then show ?case using infra_update_ok [of i H now a "success_stat rtt"] by (auto simp: infra_Success_def)
next
  case (ireach_Failure i now a i')
  then show ?case using infra_update_ok [of i H now a "failure_stat (in_opts i) now"] by (auto simp: infra_Failure_def)
next
  case (ireach_EDNS i now a i')
  then show ?case using infra_update_ok [of i H now a "\<lambda>st. st\<lparr>ss_EDNSBroken := True\<rparr>"]
    by (auto simp: MarkEDNSBroken_def)
qed


text \<open>The infrastructure table is bounded: in every reachable state it tracks at most
  \<open>MaxEntries\<close> servers, and recording an outcome always succeeds.\<close>

theorem infra_bounded:
  assumes "infra_reach H opts i"
  shows "int (infra_Len i) \<le> io_MaxEntries opts
    \<and> infra_Success H now a rtt i \<noteq> None \<and> infra_Failure H now a i \<noteq> None \<and> MarkEDNSBroken H now a i \<noteq> None"
proof -
  have ok: "infra_ok i" and o: "io_MaxEntries (in_opts i) = io_MaxEntries opts" using infra_reach_ok [OF assms] by simp_all
  let ?m = "io_MaxEntries opts div int (length (in_shards i))"
  have "int (size (fmdom (lru_m s))) \<le> ?m" if "s \<in> set (in_shards i)" for s
  proof -
    have "is_max s = ?m" "\<exists>xs. lru_abs s xs \<and> int (length xs) \<le> is_max s"
      using ok that unfolding infra_ok_def o by (blast, blast)
    then obtain xs where "lru_abs s xs" "int (length xs) \<le> ?m" by auto
    then show ?thesis using abs_len [of s xs] by simp
  qed
  then have "int (infra_Len i) \<le> int (length (in_shards i)) * ?m"
    unfolding infra_Len_def foldl_plus_sum_list add_0 by (intro sum_list_bound) blast
  also have "\<dots> \<le> io_MaxEntries opts"
    by (rule int_mult_div_le) (use infra_shardFor_bound [OF ok, of H a] in linarith)
  finally show ?thesis
    using infra_update_ok [OF ok] by (force simp: infra_Success_def infra_Failure_def MarkEDNSBroken_def)
qed

definition test_iopts :: infra_options where
  "test_iopts = \<lparr>io_MaxEntries = 4, io_Shards = 2, io_InitialRTT = 0, io_MaxRTT = 0, io_MaxBackoff = 0\<rparr>"

definition test_infra :: infra where
  "test_infra = \<lparr>in_shards = [new_infra_shard 2, new_infra_shard 2], in_mask = 1,
     in_opts = test_iopts\<lparr>io_InitialRTT := 100 * millisecond, io_MaxRTT := 3 * second, io_MaxBackoff := 30 * second\<rparr>\<rparr>"

definition test_server :: addr where "test_server = AddrV4 0xC0000201"

lemma test_infra_New: "NewInfra test_iopts = Inr test_infra"
proof -
  have "(2 :: int) AND 1 = 0" "replicate 2 x = [x, x]" for x :: infra_shard
    by (code_simp, simp add: eval_nat_numeral)
  then show ?thesis by (simp add: NewInfra_def test_iopts_def test_infra_def Let_def)
qed

lemma test_infra_reach: "infra_reach (\<lambda>_. 0) test_iopts test_infra"
  by (rule ireach_New [OF test_infra_New]) (simp add: test_iopts_def)

theorem infra_bounded_witness:
  "infra_reach (\<lambda>_. 0) test_iopts test_infra \<and> int (infra_Len test_infra) \<le> 4
   \<and> infra_Failure (\<lambda>_. 0) 7 test_server test_infra \<noteq> None"
  using infra_bounded [OF test_infra_reach, of 7 test_server 1] test_infra_reach by (simp add: test_iopts_def)

lemma Usable_stat:
  assumes "infra_ok i"
  shows "fst (infra_Usable H t a i) \<longleftrightarrow> known_stat H i a = None \<or> ss_DownUntil (stat_of H i a) \<le> t"
  using infra_Stat_value [OF assms, of H a]
  by (cases "infra_Stat H a i") (auto simp: infra_Usable_def Let_def split_beta)

lemma RTT_stat:
  assumes "infra_ok i"
  shows "fst (infra_RTT H a i) = (let r = ss_SRTT (stat_of H i a) in if r \<le> 0 then io_InitialRTT (in_opts i) else r)"
  using infra_Stat_value [OF assms, of H a]
  by (cases "infra_Stat H a i") (auto simp: infra_RTT_def Let_def split_beta)

text \<open>Backoff: a failure always records; with it the server's second or later in a
  row, the server is refused until exactly \<open>2^(n-2)\<close> seconds, at most
  \<open>MaxBackoff\<close>, have passed, and its RTT estimate stays within the larger of
  \<open>MaxRTT\<close> and \<open>InitialRTT\<close>.\<close>

theorem infra_backoff:
  assumes "infra_reach H opts i"
  shows "\<exists>i'. infra_Failure H now a i = Some i'
      \<and> ss_Failures (stat_of H i' a) = ss_Failures (stat_of H i a) + 1
      \<and> (1 \<le> ss_Failures (stat_of H i a) \<longrightarrow> (\<forall>t. fst (infra_Usable H t a i') \<longleftrightarrow>
           now + min (second * 2 ^ nat (ss_Failures (stat_of H i a) - 1)) (io_MaxBackoff (in_opts i)) \<le> t))
      \<and> fst (infra_RTT H a i') \<le> max (io_MaxRTT (in_opts i)) (io_InitialRTT (in_opts i))"
proof -
  have ok: "infra_ok i" using infra_reach_ok [OF assms] by simp
  obtain i' where i': "infra_Failure H now a i = Some i'" "infra_ok i'" "in_opts i' = in_opts i"
      "known_stat H i' a = Some ((failure_stat (in_opts i) now (stat_of H i a))\<lparr>ss_LastSeen := now\<rparr>)"
    using infra_update_stat [OF ok] unfolding infra_Failure_def by blast
  have st: "stat_of H i' a = (failure_stat (in_opts i) now (stat_of H i a))\<lparr>ss_LastSeen := now\<rparr>"
    using i'(4) by (simp add: stat_of_def)
  show ?thesis
    using i' by (intro exI [of _ i']) (auto simp: Usable_stat RTT_stat st failure_stat_def Let_def)
qed

theorem infra_backoff_witness:
  "infra_reach (\<lambda>_. 0) test_iopts test_infra
   \<and> (\<exists>i'. infra_Failure (\<lambda>_. 0) 7 test_server test_infra = Some i'
         \<and> fst (infra_RTT (\<lambda>_. 0) test_server i') \<le> 3 * second)"
  using infra_backoff [OF test_infra_reach, of 7 test_server] test_infra_reach
  by (auto simp: test_infra_def second_def millisecond_def)

text \<open>Recovery: one successful exchange always records, clears the failure count
  and makes the server usable at every later time, whatever its history.\<close>

theorem infra_recovers:
  assumes "infra_reach H opts i"
  shows "\<exists>i'. infra_Success H now a rtt i = Some i'
      \<and> ss_Failures (stat_of H i' a) = 0 \<and> (\<forall>t. 0 \<le> t \<longrightarrow> fst (infra_Usable H t a i'))"
proof -
  have ok: "infra_ok i" using infra_reach_ok [OF assms] by simp
  obtain j where j: "infra_Success H now a rtt i = Some j" "infra_ok j"
      "known_stat H j a = Some ((success_stat rtt (stat_of H i a))\<lparr>ss_LastSeen := now\<rparr>)"
    using infra_update_stat [OF ok] unfolding infra_Success_def by blast
  have "stat_of H j a = (success_stat rtt (stat_of H i a))\<lparr>ss_LastSeen := now\<rparr>" using j(3) by (simp add: stat_of_def)
  with j show ?thesis by (intro exI [of _ j]) (auto simp: Usable_stat success_stat_def Let_def)
qed

theorem infra_recovers_witness:
  "infra_reach (\<lambda>_. 0) test_iopts test_infra
   \<and> (\<exists>i'. infra_Success (\<lambda>_. 0) 7 test_server 5 test_infra = Some i' \<and> fst (infra_Usable (\<lambda>_. 0) 8 test_server i'))"
  using infra_recovers [OF test_infra_reach, of 7 test_server 5] test_infra_reach by auto

end
