(* ===== verification/Serve_Stale.thy ===== *)
theory Serve_Stale
  imports Cache_Correct Transport
begin

text \<open>
  \<open>internal/servestale/servestale.go\<close>: answer from expired cache data once
  resolution has failed. The handler knows the cache through the \<open>Cache\<close>
  interface only: \<open>GetStale\<close> is an argument, and the locale \<open>stale_source\<close>
  is what that interface promises. The RRset cache is interpreted as one. The
  cache is shared with the handlers behind this one, so it is part of the
  state they change. \<open>now\<close> is the clock \<open>GetStale\<close> reads.
\<close>

record stale_metrics =
  sm_Served :: nat
  sm_Eligible :: nat
  sm_Unavailable :: nat

definition DefaultMsgSize :: u16 where "DefaultMsgSize = 4096"

definition stale_answerTTL :: "duration \<Rightarrow> duration" where
  "stale_answerTTL ttl = (if ttl \<le> 0 then 30 * second else ttl)"

definition add_option :: "edns_option \<Rightarrow> rr \<Rightarrow> rr" where
  "add_option o' r = (case rr_data r of ROPT sz os \<Rightarrow> r\<lparr>rr_data := ROPT sz (os @ [o'])\<rparr> | _ \<Rightarrow> r)"

definition setEDE :: "dnslib \<Rightarrow> dmsg \<Rightarrow> u16 \<Rightarrow> string \<Rightarrow> dmsg" where
  "setEDE L m code text = (case IsEdns0 L m of
       None \<Rightarrow> m\<lparr>m_Extra := m_Extra m @
         [add_option (EDE code text)
            \<lparr>rr_hdr = \<lparr>rh_Name = ''.'', rh_Rrtype = TypeOPT, rh_Class = 0, rh_Ttl = 0, rh_Rdlength = 0\<rparr>,
             rr_data = ROPT DefaultMsgSize []\<rparr>]\<rparr>
     | Some i \<Rightarrow> m\<lparr>m_Extra := (m_Extra m)[i := add_option (EDE code text) (m_Extra m ! i)]\<rparr>)"

definition stale_failed :: "dmsg option \<Rightarrow> bool" where
  "stale_failed resp = (case resp of None \<Rightarrow> True | Some m \<Rightarrow> m_Rcode m = RcodeServerFailure)"

definition stale_answer :: "dnslib \<Rightarrow> duration \<Rightarrow> dmsg \<Rightarrow> centry \<Rightarrow> dmsg" where
  "stale_answer L ttl req e =
     (let m1 = (SetReply L req)\<lparr>m_Rcode := e_Rcode e\<rparr>;
          m2 = (case e_Kind e of
                  KindAnswer \<Rightarrow> m1\<lparr>m_Answer := StaleRRs L e ttl\<rparr>
                | KindNegative \<Rightarrow> m1\<lparr>m_Ns := StaleRRs L e ttl\<rparr>);
          m3 = m2\<lparr>m_AuthenticatedData := False\<rparr>
      in setEDE L m3 ExtendedErrorCodeStaleAnswer
           ''answering from expired cache: the authoritative could not be reached'')"

definition stale_ServeDNS :: "dnslib \<Rightarrow> (gtime \<Rightarrow> ckey \<Rightarrow> 'c \<Rightarrow> centry option \<times> 'c) \<Rightarrow> duration \<Rightarrow> gtime
    \<Rightarrow> ('c \<times> 's) handler \<Rightarrow> (stale_metrics \<times> 'c \<times> 's) handler" where
  "stale_ServeDNS L getStale ttl now next req st = (case st of (mt, cs) \<Rightarrow>
     (case next req cs of
        None \<Rightarrow> None
      | Some (resp, c1, s1) \<Rightarrow>
          if \<not> stale_failed resp \<or> length (m_Question (rq_Msg req)) \<noteq> 1 then Some (resp, mt, c1, s1)
          else
            let mt1 = mt\<lparr>sm_Eligible := Suc (sm_Eligible mt)\<rparr>;
                q = m_Question (rq_Msg req) ! 0;
                (entry, c2) = getStale now (NewKey (q_Name q) (q_Qtype q) (q_Qclass q)) c1
            in case entry of
                 None \<Rightarrow> Some (resp, mt1\<lparr>sm_Unavailable := Suc (sm_Unavailable mt1)\<rparr>, c2, s1)
               | Some e \<Rightarrow> Some (Some (stale_answer L ttl (rq_Msg req) e),
                                 mt1\<lparr>sm_Served := Suc (sm_Served mt1)\<rparr>, c2, s1)))"

section \<open>The interface\<close>

text \<open>A source of stale entries: it hands out only entries that have expired, by less
  than a fixed bound, and keeps its invariant.\<close>

locale stale_source =
  fixes inv :: "'c \<Rightarrow> bool" and window :: "'c \<Rightarrow> duration"
    and getStale :: "gtime \<Rightarrow> ckey \<Rightarrow> 'c \<Rightarrow> centry option \<times> 'c"
  assumes stale_inv: "inv c \<Longrightarrow> inv (snd (getStale now k c))"
    and stale_expired: "inv c \<Longrightarrow> fst (getStale now k c) = Some e \<Longrightarrow>
      e_Expiry e \<le> now \<and> now < e_Expiry e + window c"
begin

lemma replaced_only_by_stale:
  assumes "next req cs = Some (resp, c1, s1)" "inv c1"
    and "stale_ServeDNS L getStale ttl now next req (mt, cs) = Some (resp', mt', c2, s2)"
  shows "s2 = s1 \<and> inv c2
    \<and> (resp' = resp \<or> stale_failed resp
        \<and> (\<exists>e. resp' = Some (stale_answer L ttl (rq_Msg req) e) \<and> e_Expiry e \<le> now \<and> now < e_Expiry e + window c1))"
proof -
  let ?q = "m_Question (rq_Msg req) ! 0"
  let ?g = "getStale now (NewKey (q_Name ?q) (q_Qtype ?q) (q_Qclass ?q)) c1"
  show ?thesis
    using assms stale_inv [OF assms(2), of now "NewKey (q_Name ?q) (q_Qtype ?q) (q_Qclass ?q)"]
      stale_expired [OF assms(2), of now "NewKey (q_Name ?q) (q_Qtype ?q) (q_Qclass ?q)"]
    by (cases ?g) (auto simp: stale_ServeDNS_def Let_def split: if_splits option.splits)
qed

end

interpretation rrcache: stale_source "cache_ok H" "\<lambda>c. co_MaxStale (ca_opts c)" "cache_GetStale H" for H
proof unfold_locales
  fix c now k e
  assume ok: "cache_ok H c"
  show "cache_ok H (snd (cache_GetStale H now k c))" by (rule cache_GetStale_ok [OF ok])
  assume "fst (cache_GetStale H now k c) = Some e"
  then show "e_Expiry e \<le> now \<and> now < e_Expiry e + co_MaxStale (ca_opts c)"
    by (auto simp: GetStale_stored(1) [OF ok] split: option.splits if_splits)
qed

section \<open>Properties\<close>

text \<open>Stale data never competes with an answer: in front of any resolver that keeps
  the cache's invariant, the handler returns the resolver's own response unless
  that was a drop or SERVFAIL, and then it may return instead the answer built
  from an entry that has expired less than \<open>MaxStale\<close> ago. It leaves the
  resolver's state alone and keeps the cache's invariant.\<close>

theorem stale_only_after_failure:
  assumes "next req (c, s) = Some (resp, c1, s1)" and "cache_ok H c1"
    and "stale_ServeDNS L (cache_GetStale H) ttl now next req (mt, c, s) = Some (resp', mt', c2, s2)"
  shows "s2 = s1 \<and> cache_ok H c2
    \<and> (resp' = resp \<or> (resp = None \<or> (\<exists>m. resp = Some m \<and> m_Rcode m = RcodeServerFailure))
        \<and> (\<exists>e. resp' = Some (stale_answer L ttl (rq_Msg req) e) \<and> e_Expiry e \<le> now
             \<and> now < e_Expiry e + co_MaxStale (ca_opts c1)))"
  using rrcache.replaced_only_by_stale [OF assms] by (auto simp: stale_failed_def split: option.splits)

lemma m_setEDE [simp]:
  "m_AuthenticatedData (setEDE L m c t) = m_AuthenticatedData m" "m_Rcode (setEDE L m c t) = m_Rcode m"
  "m_Answer (setEDE L m c t) = m_Answer m" "m_Ns (setEDE L m c t) = m_Ns m"
  by (simp_all add: setEDE_def split: option.splits)

lemma StaleRRs_ttl:
  assumes "r \<in> set (StaleRRs L e ttl)" "0 < ttl" "ttl < 2 ^ 32 * second"
  shows "uint (rh_Ttl (rr_hdr r)) = max 1 (ttl div second)"
proof -
  have b: "0 \<le> ttl div second" "ttl div second < 2 ^ 32"
    using assms(2,3) by (simp_all add: second_def div_less_iff_less_mult pos_imp_zdiv_nonneg_iff)
  then have u: "uint (word_of_int (ttl div second) :: u32) = ttl div second"
    by (simp add: uint_word_of_int take_bit_int_eq_self_iff)
  have z: "(word_of_int (ttl div second) :: u32) = 0 \<longleftrightarrow> ttl div second = 0" using u by (metis uint_0_iff)
  show ?thesis using assms(1,2) b u z by (auto simp: StaleRRs_def withTtl_def Let_def split: if_splits)
qed

text \<open>What a stale answer looks like: it never claims to be authenticated, carries
  the entry's rcode, every record has the configured short TTL in whole seconds and
  at least 1, and the message is marked with extended error 3 (stale answer) on the
  OPT record it already has or on a new one.\<close>

theorem stale_answer_shape:
  assumes "0 < ttl" and "ttl < 2 ^ 32 * second" and "m_Answer (SetReply L req) = []" and "m_Ns (SetReply L req) = []"
  shows "let m = stale_answer L ttl req e in \<not> m_AuthenticatedData m \<and> m_Rcode m = e_Rcode e
    \<and> length (m_Answer m @ m_Ns m) = length (e_RRs e)
    \<and> (\<forall>r \<in> set (m_Answer m @ m_Ns m). uint (rh_Ttl (rr_hdr r)) = max 1 (ttl div second))
    \<and> (IsEdns0 L (SetReply L req) = None \<and> (\<forall>m m'. m_Extra m = m_Extra m' \<longrightarrow> IsEdns0 L m = IsEdns0 L m') \<longrightarrow>
        (\<exists>t. rr_data (last (m_Extra m)) = ROPT 4096 [EDE 3 t]))"
proof -
  have len: "length (StaleRRs L e ttl) = length (e_RRs e)" by (simp add: StaleRRs_def Let_def)
  show ?thesis
  proof (cases "e_Kind e")
    case KindAnswer
    then show ?thesis using assms len StaleRRs_ttl [OF _ assms(1,2), of _ L e]
      by (auto simp: stale_answer_def Let_def setEDE_def add_option_def DefaultMsgSize_def
          ExtendedErrorCodeStaleAnswer_def split: option.splits)
  next
    case KindNegative
    then show ?thesis using assms len StaleRRs_ttl [OF _ assms(1,2), of _ L e]
      by (auto simp: stale_answer_def Let_def setEDE_def add_option_def DefaultMsgSize_def
          ExtendedErrorCodeStaleAnswer_def split: option.splits)
  qed
qed


definition zero_stale :: stale_metrics where
  "zero_stale = \<lparr>sm_Served = 0, sm_Eligible = 0, sm_Unavailable = 0\<rparr>"

theorem stale_only_after_failure_witness:
  "\<exists>resp' mt' c2. stale_ServeDNS ref_lib (cache_GetStale (\<lambda>_. 0)) second 7 (\<lambda>_ s. Some (None, s))
       (test_request ''a.b'') (zero_stale, test_cache, ()) = Some (resp', mt', c2, ()) \<and> cache_ok (\<lambda>_. 0) c2"
proof -
  let ?next = "\<lambda>_ s. Some (None, s)"
  have ok: "cache_ok (\<lambda>_. 0) test_cache" using reach_ok [OF test_cache_reach] by simp
  obtain resp' mt' c2 where r: "stale_ServeDNS ref_lib (cache_GetStale (\<lambda>_. 0)) second 7 ?next
       (test_request ''a.b'') (zero_stale, test_cache, ()) = Some (resp', mt', c2, ())"
    by (cases "stale_ServeDNS ref_lib (cache_GetStale (\<lambda>_. 0)) second 7 ?next
       (test_request ''a.b'') (zero_stale, test_cache, ())")
       (auto simp: stale_ServeDNS_def Let_def split: prod.splits if_splits option.splits)
  with stale_only_after_failure [OF _ ok r] show ?thesis by blast
qed

theorem stale_answer_shape_witness:
  "(0 :: duration) < 30 * second \<and> \<not> m_AuthenticatedData (stale_answer ref_lib (30 * second) (test_msg ''a.b'') test_entry)"
  using stale_answer_shape [of "30 * second" ref_lib "test_msg ''a.b''" test_entry]
  by (simp add: second_def ref_lib_def reply_to_def Let_def)

end
