(* ===== verification/Ratelimit.thy ===== *)
theory Ratelimit
  imports Netacl Transport "HOL-Library.Finite_Map"
begin

text \<open>
  \<open>internal/ratelimit\<close>: response rate limiting. \<open>ratelimit.go\<close> is the
  token-bucket table, \<open>handler.go\<close> the decorator around the resolver. Credits
  and rates are float64 in the source and exact rationals here: rounding and
  the non-finite values are outside the model. Go leaves the iteration order
  of a map open, so the orders of the two loops of \<open>evictLocked\<close> are
  arguments; the facts that need them ask that they enumerate the shard's
  keys. Each call runs under its shard's lock and is one transition.
  \<open>roundUpPow2\<close> loops on a 64-bit \<open>int\<close> and is a \<open>partial_function\<close>.
\<close>

type_synonym rclass = "8 word"

definition numClasses :: int where "numClasses = 3"
definition ClassAnswer :: rclass where "ClassAnswer = 0"
definition ClassDenial :: rclass where "ClassDenial = 1"
definition ClassError :: rclass where "ClassError = 2"

definition class_String :: "rclass \<Rightarrow> string" where
  "class_String c = (if c = ClassAnswer then ''answer'' else if c = ClassDenial then ''denial''
     else if c = ClassError then ''error'' else ''unknown'')"

datatype raction = RActionAllow | RActionDrop | RActionSlip

fun raction_String :: "raction \<Rightarrow> string" where
  "raction_String RActionAllow = ''allow''"
| "raction_String RActionDrop = ''drop''"
| "raction_String RActionSlip = ''slip''"

record rkey =
  rk_Prefix :: prefix
  rk_Class :: rclass
  rk_Name :: string
  rk_Type :: u16

record rl_metrics =
  rm_Evaluated :: nat
  rm_Allowed :: nat
  rm_Dropped :: nat
  rm_Slipped :: nat
  rm_Buckets :: int
  rm_Evictions :: nat

record rl_options =
  ro_ResponsesPerSecond :: rat
  ro_DenialsPerSecond :: rat
  ro_ErrorsPerSecond :: rat
  ro_Window :: duration
  ro_SlipRatio :: u32
  ro_IPv4PrefixLen :: int
  ro_IPv6PrefixLen :: int
  ro_MaxBuckets :: int
  ro_Shards :: int

definition idleWindows :: int where "idleWindows = 2"
definition sweepBatch :: nat where "sweepBatch = 64"
definition evictSample :: nat where "evictSample = 8"

record bucket =
  bk_credit :: rat
  bk_last :: gtime
  bk_slipped :: u32

type_synonym rshard = "(rkey, bucket) fmap"

record limiter =
  rl_opts :: rl_options
  rl_shards :: "rshard list"
  rl_shardMask :: "64 word"
  rl_perShardCap :: int
  rl_rates :: "rat list"
  rl_windowCredit :: "rat list"
  rl_metrics :: rl_metrics

partial_function (option) pow2_loop :: "int \<Rightarrow> int \<Rightarrow> int option" where
  "pow2_loop n p = (if p < n then pow2_loop n (int64_wrap (p * 2)) else Some p)"

definition roundUpPow2 :: "int \<Rightarrow> int option" where
  "roundUpPow2 n = (if n \<le> 1 then Some 1 else pow2_loop n 1)"

definition Seconds :: "duration \<Rightarrow> rat" where
  "Seconds d = of_int d / of_int second"

definition rl_fill :: "rl_options \<Rightarrow> rl_options" where
  "rl_fill o0 =
     (let o1 = (if ro_Window o0 \<le> 0 then o0\<lparr>ro_Window := 15 * second\<rparr> else o0);
          o2 = (if ro_IPv4PrefixLen o1 \<le> 0 \<or> ro_IPv4PrefixLen o1 > 32 then o1\<lparr>ro_IPv4PrefixLen := 24\<rparr> else o1);
          o3 = (if ro_IPv6PrefixLen o2 \<le> 0 \<or> ro_IPv6PrefixLen o2 > 128 then o2\<lparr>ro_IPv6PrefixLen := 56\<rparr> else o2);
          o4 = (if ro_MaxBuckets o3 \<le> 0 then o3\<lparr>ro_MaxBuckets := 100000\<rparr> else o3)
      in if ro_Shards o4 \<le> 0 then o4\<lparr>ro_Shards := 16\<rparr> else o4)"

definition zero_rl_metrics :: rl_metrics where
  "zero_rl_metrics = \<lparr>rm_Evaluated = 0, rm_Allowed = 0, rm_Dropped = 0, rm_Slipped = 0, rm_Buckets = 0, rm_Evictions = 0\<rparr>"

definition rl_New :: "rl_options \<Rightarrow> (string + limiter) option" where
  "rl_New o0 =
     (if ro_ResponsesPerSecond o0 < 0 \<or> ro_DenialsPerSecond o0 < 0 \<or> ro_ErrorsPerSecond o0 < 0
      then Some (Inl ''ratelimit: rates must not be negative'')
      else let o1 = rl_fill o0 in
        map_option (\<lambda>n.
          let opts = o1\<lparr>ro_Shards := n\<rparr>;
              rates = [ro_ResponsesPerSecond opts, ro_DenialsPerSecond opts, ro_ErrorsPerSecond opts]
          in Inr \<lparr>rl_opts = opts, rl_shards = replicate (nat n) fmempty, rl_shardMask = word_of_int (n - 1),
                  rl_perShardCap = max 1 (ro_MaxBuckets opts div n), rl_rates = rates,
                  rl_windowCredit = map (\<lambda>rate. rate * Seconds (ro_Window opts)) rates,
                  rl_metrics = zero_rl_metrics\<rparr>)
          (roundUpPow2 (ro_Shards o1)))"

definition rl_Mask :: "limiter \<Rightarrow> addr \<Rightarrow> prefix" where
  "rl_Mask l a0 =
     (let bits = (if Is6 a0 \<and> \<not> Is4In6 a0 then ro_IPv6PrefixLen (rl_opts l) else ro_IPv4PrefixLen (rl_opts l));
          a = Unmap a0
      in case addr_Prefix a bits of None \<Rightarrow> PrefixFrom a (BitLen a) | Some p \<Rightarrow> p)"

definition rl_shardFor :: "limiter \<Rightarrow> rkey \<Rightarrow> nat" where
  "rl_shardFor l k =
     (let h = foldl (\<lambda>h b. (h XOR ucast b) * 1099511628211) (14695981039346656037 :: 64 word)
                (As16 (pfx_ip (rk_Prefix k)))
      in unat (h AND rl_shardMask l))"

fun sweep_loop :: "gtime \<Rightarrow> rkey list \<Rightarrow> nat \<Rightarrow> rshard \<Rightarrow> nat \<times> rshard" where
  "sweep_loop idle [] freed m = (freed, m)"
| "sweep_loop idle (k # ks) freed m = (case fmlookup m k of
     None \<Rightarrow> sweep_loop idle ks freed m
   | Some b \<Rightarrow> if bk_last b < idle
               then (if Suc freed \<ge> sweepBatch then (Suc freed, fmdrop k m)
                     else sweep_loop idle ks (Suc freed) (fmdrop k m))
               else sweep_loop idle ks freed m)"

fun sample_loop :: "rshard \<Rightarrow> rkey list \<Rightarrow> nat \<Rightarrow> (rkey \<times> gtime) option \<Rightarrow> (rkey \<times> gtime) option" where
  "sample_loop m [] sampled old = old"
| "sample_loop m (k # ks) sampled old = (case fmlookup m k of
     None \<Rightarrow> sample_loop m ks sampled old
   | Some b \<Rightarrow>
       let old' = (case old of None \<Rightarrow> Some (k, bk_last b)
                   | Some (_, t) \<Rightarrow> if bk_last b < t then Some (k, bk_last b) else old)
       in if Suc sampled \<ge> evictSample then old' else sample_loop m ks (Suc sampled) old')"

definition evictLocked :: "rkey list \<Rightarrow> rkey list \<Rightarrow> gtime \<Rightarrow> duration \<Rightarrow> rshard \<Rightarrow> rl_metrics \<Rightarrow> rshard \<times> rl_metrics" where
  "evictLocked ord1 ord2 now window m mt =
     (let idle = now - idleWindows * window; (freed, m1) = sweep_loop idle ord1 0 m in
      if freed > 0 then
        (m1, mt\<lparr>rm_Buckets := rm_Buckets mt - int freed, rm_Evictions := rm_Evictions mt + freed\<rparr>)
      else case sample_loop m1 ord2 0 None of
          None \<Rightarrow> (m1, mt)
        | Some (k, _) \<Rightarrow> (fmdrop k m1, mt\<lparr>rm_Buckets := rm_Buckets mt - 1, rm_Evictions := rm_Evictions mt + 1\<rparr>))"

definition newBucketLocked :: "limiter \<Rightarrow> rkey list \<Rightarrow> rkey list \<Rightarrow> rkey \<Rightarrow> gtime \<Rightarrow> rat \<Rightarrow> rshard \<Rightarrow> rl_metrics
    \<Rightarrow> bucket \<times> rshard \<times> rl_metrics" where
  "newBucketLocked l ord1 ord2 key now rate m mt =
     (let (m1, mt1) = (if int (size (fmdom m)) \<ge> rl_perShardCap l
                       then evictLocked ord1 ord2 now (ro_Window (rl_opts l)) m mt else (m, mt));
          b = \<lparr>bk_credit = min rate (rl_windowCredit l ! unat (rk_Class key)), bk_last = now, bk_slipped = 0\<rparr>
      in (b, fmupd key b m1, mt1\<lparr>rm_Buckets := rm_Buckets mt1 + 1\<rparr>))"

definition rl_Allow :: "rkey list \<Rightarrow> rkey list \<Rightarrow> rkey \<Rightarrow> gtime \<Rightarrow> limiter \<Rightarrow> raction \<times> limiter" where
  "rl_Allow ord1 ord2 key now l =
     (if uint (rk_Class key) \<ge> numClasses then (RActionAllow, l)
      else let rate = rl_rates l ! unat (rk_Class key) in
      if rate \<le> 0 then (RActionAllow, l)
      else
        let mt0 = (rl_metrics l)\<lparr>rm_Evaluated := Suc (rm_Evaluated (rl_metrics l))\<rparr>;
            i = rl_shardFor l key;
            m0 = rl_shards l ! i;
            (b, m1, mt1) = (case fmlookup m0 key of
                None \<Rightarrow> newBucketLocked l ord1 ord2 key now rate m0 mt0
              | Some b0 \<Rightarrow>
                  let elapsed = Seconds (time_Sub now (bk_last b0));
                      b1 = (if elapsed > 0
                            then b0\<lparr>bk_credit := min (bk_credit b0 + elapsed * rate) (rl_windowCredit l ! unat (rk_Class key))\<rparr>
                            else b0)
                  in (b1\<lparr>bk_last := now\<rparr>, m0, mt0));
            put = (\<lambda>b' mt'. l\<lparr>rl_shards := (rl_shards l)[i := fmupd key b' m1], rl_metrics := mt'\<rparr>)
        in if bk_credit b \<ge> 1
           then (RActionAllow, put (b\<lparr>bk_credit := bk_credit b - 1\<rparr>) (mt1\<lparr>rm_Allowed := Suc (rm_Allowed mt1)\<rparr>))
           else
             let b' = b\<lparr>bk_slipped := bk_slipped b + 1\<rparr>; ratio = ro_SlipRatio (rl_opts l)
             in if ratio > 0 \<and> bk_slipped b' mod ratio = 0
                then (RActionSlip, put b' (mt1\<lparr>rm_Slipped := Suc (rm_Slipped mt1)\<rparr>))
                else (RActionDrop, put b' (mt1\<lparr>rm_Dropped := Suc (rm_Dropped mt1)\<rparr>)))"

definition rl_Sweep :: "gtime \<Rightarrow> limiter \<Rightarrow> int \<times> limiter" where
  "rl_Sweep now l =
     (let idle = now - idleWindows * ro_Window (rl_opts l);
          keep = (\<lambda>m. fmfilter (\<lambda>k. case fmlookup m k of Some b \<Rightarrow> \<not> bk_last b < idle | None \<Rightarrow> False) m);
          removed = sum_list (map (\<lambda>m. int (size (fmdom m)) - int (size (fmdom (keep m)))) (rl_shards l));
          l1 = l\<lparr>rl_shards := map keep (rl_shards l)\<rparr>
      in (removed, if removed > 0
            then l1\<lparr>rl_metrics := (rl_metrics l1)\<lparr>rm_Buckets := rm_Buckets (rl_metrics l1) - removed\<rparr>\<rparr> else l1))"

definition rl_Len :: "limiter \<Rightarrow> nat" where
  "rl_Len l = foldl (\<lambda>n m. n + size (fmdom m)) 0 (rl_shards l)"

section \<open>The handler\<close>

definition isNoData :: "dmsg \<Rightarrow> bool" where
  "isNoData resp \<longleftrightarrow> m_Rcode resp = RcodeSuccess \<and> length (m_Answer resp) = 0"

text \<open>The loop of \<open>cutLabel\<close>: the index of the first unescaped dot.\<close>

function cut_index :: "string \<Rightarrow> nat \<Rightarrow> nat option" where
  "cut_index name i = (if i < length name
     then if name ! i = CHR 0x5C then cut_index name (i + 2)
          else if name ! i = CHR ''.'' then Some i else cut_index name (Suc i)
     else None)"
  by pat_completeness auto
termination by (relation "measure (\<lambda>(name, i). length name - i)") auto

declare cut_index.simps [simp del]

definition cutLabel :: "string \<Rightarrow> string \<times> string \<times> bool" where
  "cutLabel name = (if name = [] \<or> name = ''.'' then ([], ''.'', False)
     else case cut_index name 0 of
         Some i \<Rightarrow> (take i name, if drop (Suc i) name = [] then ''.'' else drop (Suc i) name, True)
       | None \<Rightarrow> (name, ''.'', False))"

definition is_SOA :: "rr \<Rightarrow> bool" where
  "is_SOA r = (case rr_data r of RSOA _ _ _ \<Rightarrow> True | _ \<Rightarrow> False)"

definition denialZone :: "dmsg \<Rightarrow> dmsg \<Rightarrow> string" where
  "denialZone req resp = (case find is_SOA (m_Ns resp) of
       Some r \<Rightarrow> rh_Name (rr_hdr r)
     | None \<Rightarrow> if length (m_Question req) \<noteq> 1 then ''.''
               else let name = q_Name (m_Question req ! 0); (_, after, found) = cutLabel name
                    in if found then after else name)"

definition keyFor :: "limiter \<Rightarrow> request \<Rightarrow> dmsg \<Rightarrow> rkey" where
  "keyFor l req resp =
     (let key = \<lparr>rk_Prefix = rl_Mask l (rq_Client req), rk_Class = 0, rk_Name = [], rk_Type = 0\<rparr> in
      if m_Rcode resp = RcodeNameError \<or> isNoData resp
        then key\<lparr>rk_Class := ClassDenial, rk_Name := denialZone (rq_Msg req) resp\<rparr>
      else if m_Rcode resp \<noteq> RcodeSuccess then key\<lparr>rk_Class := ClassError\<rparr>
      else let key1 = key\<lparr>rk_Class := ClassAnswer\<rparr> in
        if length (m_Question (rq_Msg req)) = 1
        then key1\<lparr>rk_Name := q_Name (m_Question (rq_Msg req) ! 0), rk_Type := q_Qtype (m_Question (rq_Msg req) ! 0)\<rparr>
        else key1)"

definition truncatedResponse :: "dnslib \<Rightarrow> dmsg \<Rightarrow> dmsg" where
  "truncatedResponse L req = (SetReply L req)\<lparr>m_Truncated := True, m_Answer := [], m_Ns := [], m_Extra := []\<rparr>"

record rl_state =
  rs_limiter :: limiter
  rs_Exempted :: nat

definition rl_ServeDNS :: "dnslib \<Rightarrow> acl option \<Rightarrow> rkey list \<Rightarrow> rkey list \<Rightarrow> gtime \<Rightarrow> 's handler \<Rightarrow> (rl_state \<times> 's) handler" where
  "rl_ServeDNS L exempt ord1 ord2 now next req st = (case st of (rs, s) \<Rightarrow>
     (case next req s of
        None \<Rightarrow> None
      | Some (None, s1) \<Rightarrow> Some (None, rs, s1)
      | Some (Some resp, s1) \<Rightarrow>
          if rq_Proto req \<noteq> ProtoUDP then Some (Some resp, rs, s1)
          else if exempt \<noteq> None \<and> acl_Allows exempt (rq_Client req)
            then Some (Some resp, rs\<lparr>rs_Exempted := Suc (rs_Exempted rs)\<rparr>, s1)
          else let key = keyFor (rs_limiter rs) req resp;
                   (act, l1) = rl_Allow ord1 ord2 key now (rs_limiter rs);
                   rs1 = rs\<lparr>rs_limiter := l1\<rparr>
               in case act of
                    RActionAllow \<Rightarrow> Some (Some resp, rs1, s1)
                  | RActionSlip \<Rightarrow> Some (Some (truncatedResponse L (rq_Msg req)), rs1, s1)
                  | RActionDrop \<Rightarrow> Some (None, rs1, s1)))"


section \<open>The loops\<close>

lemma fmdrop_size: "fmlookup m k = Some b \<Longrightarrow> Suc (size (fmdom (fmdrop k m))) = size (fmdom m)"
proof -
  assume "fmlookup m k = Some b"
  then have "k |\<in>| fmdom m" by (rule fmdomI)
  moreover from this have "0 < card (fset (fmdom m))" by (auto simp: card_gt_0_iff)
  ultimately show ?thesis by (simp add: fcard.rep_eq)
qed

lemma fmupd_size: "size (fmdom (fmupd k b m)) \<le> Suc (size (fmdom m))"
  "fmlookup m k = Some c \<Longrightarrow> size (fmdom (fmupd k b m)) = size (fmdom m)"
proof -
  show "size (fmdom (fmupd k b m)) \<le> Suc (size (fmdom m))"
    by (simp add: fcard.rep_eq card_insert_if)
  assume "fmlookup m k = Some c"
  then have "finsert k (fmdom m) = fmdom m" using fmdomI by fast
  then show "size (fmdom (fmupd k b m)) = size (fmdom m)" by simp
qed

lemma sweep_loop_sub:
  "sweep_loop idle ks f m = (f', m') \<Longrightarrow> size (fmdom m') + f' = size (fmdom m) + f
    \<and> (\<forall>k b. fmlookup m' k = Some b \<longrightarrow> fmlookup m k = Some b)"
proof (induction idle ks f m rule: sweep_loop.induct)
  case (2 idle k ks freed m)
  show ?case
  proof (cases "fmlookup m k")
    case None
    with 2 show ?thesis by simp
  next
    case (Some b)
    with 2 fmdrop_size [OF Some] show ?thesis by (auto split: if_splits) (metis option.distinct(1))
  qed
qed simp

lemma sample_loop_dom:
  "\<forall>k t. old = Some (k, t) \<longrightarrow> fmlookup m k \<noteq> None \<Longrightarrow> sample_loop m ks n old = Some (k, t) \<Longrightarrow> fmlookup m k \<noteq> None"
proof (induction m ks n old rule: sample_loop.induct)
  case (2 m k' ks sampled old)
  then show ?case by (cases "fmlookup m k'"; cases old) (auto simp: Let_def split: if_splits)
qed simp

lemma sample_loop_some:
  "(\<exists>k \<in> set ks. fmlookup m k \<noteq> None) \<or> old \<noteq> None \<Longrightarrow> sample_loop m ks n old \<noteq> None"
proof (induction m ks n old rule: sample_loop.induct)
  case (2 m k' ks sampled old)
  then show ?case by (cases "fmlookup m k'"; cases old) (auto simp: Let_def)
qed simp

lemma evict_shrinks:
  assumes "evictLocked o1 o2 now w m mt = (m', mt')"
  shows "\<forall>k b. fmlookup m' k = Some b \<longrightarrow> fmlookup m k = Some b" "size (fmdom m') \<le> size (fmdom m)"
    and "m \<noteq> fmempty \<Longrightarrow> set o2 = fset (fmdom m) \<Longrightarrow> size (fmdom m') < size (fmdom m)"
proof -
  obtain f m1 where s: "sweep_loop (now - idleWindows * w) o1 0 m = (f, m1)" by fastforce
  note S = sweep_loop_sub [OF s]
  show "\<forall>k b. fmlookup m' k = Some b \<longrightarrow> fmlookup m k = Some b"
    using assms s S by (auto simp: evictLocked_def Let_def split: if_splits option.splits)
  have drop: "size (fmdom (fmdrop k m1)) \<le> size (fmdom m1)" for k
    by (simp add: fcard.rep_eq card_Diff1_le)
  show "size (fmdom m') \<le> size (fmdom m)"
    using assms s S drop by (auto simp: evictLocked_def Let_def split: if_splits option.splits intro: order_trans)
  assume ne: "m \<noteq> fmempty" and o2: "set o2 = fset (fmdom m)"
  show "size (fmdom m') < size (fmdom m)"
  proof (cases "f = 0")
    case False
    then show ?thesis using assms s S by (simp add: evictLocked_def Let_def)
  next
    case True
    have "\<forall>k. fmlookup m1 k = fmlookup m k"
    proof -
      have "fset (fmdom m1) \<subseteq> fset (fmdom m)" using S by (metis fmdomE fmdomI subsetI)
      moreover have "card (fset (fmdom m1)) = card (fset (fmdom m))" using S True by (simp add: fcard.rep_eq)
      ultimately have "fset (fmdom m1) = fset (fmdom m)" by (simp add: card_subset_eq)
      then show ?thesis using S by (metis fmdom_notD fmdomE fmdomI not_None_eq)
    qed
    then have m1: "m1 = m" by (auto intro: fmap_ext)
    obtain k0 where "k0 |\<in>| fmdom m" using ne by (metis fmrestrict_fset_dom fmrestrict_fset_null fempty_iff equalsffemptyI)
    then have "\<exists>k \<in> set o2. fmlookup m k \<noteq> None" using o2 by (metis fmdom_notI)
    then obtain k t where k: "sample_loop m o2 0 None = Some (k, t)"
      using sample_loop_some [of o2 m None 0] by auto
    have "fmlookup m k \<noteq> None" using sample_loop_dom [OF _ k] by simp
    then obtain b where "fmlookup m k = Some b" by auto
    from fmdrop_size [OF this] show ?thesis
      using assms s True m1 k by (auto simp: evictLocked_def Let_def)
  qed
qed


section \<open>The invariant of the table\<close>

definition bucket_ok :: "limiter \<Rightarrow> rkey \<Rightarrow> bucket \<Rightarrow> bool" where
  "bucket_ok l k b \<longleftrightarrow> uint (rk_Class k) < numClasses \<and> 0 \<le> bk_credit b
     \<and> bk_credit b \<le> rl_windowCredit l ! unat (rk_Class k)"

definition shard_fits :: "limiter \<Rightarrow> rshard \<Rightarrow> bool" where
  "shard_fits l m \<longleftrightarrow> int (size (fmdom m)) \<le> rl_perShardCap l \<and> (\<forall>k b. fmlookup m k = Some b \<longrightarrow> bucket_ok l k b)"

definition rl_ok :: "limiter \<Rightarrow> bool" where
  "rl_ok l \<longleftrightarrow> length (rl_shards l) = Suc (unat (rl_shardMask l)) \<and> 1 \<le> rl_perShardCap l
     \<and> 0 < ro_Window (rl_opts l) \<and> length (rl_rates l) = 3
     \<and> (\<forall>r \<in> set (rl_rates l). 0 \<le> r)
     \<and> rl_windowCredit l = map (\<lambda>rate. rate * Seconds (ro_Window (rl_opts l))) (rl_rates l)
     \<and> (\<forall>m \<in> set (rl_shards l). shard_fits l m)"

lemma rl_shardFor_bound: "rl_ok l \<Longrightarrow> rl_shardFor l k < length (rl_shards l)"
  unfolding rl_ok_def rl_shardFor_def Let_def
  using word_and_le1 by (metis (no_types, lifting) le_imp_less_Suc word_le_nat_alt)

lemma bucket_ok_cong: "rl_windowCredit l' = rl_windowCredit l \<Longrightarrow> bucket_ok l' = bucket_ok l"
  by (simp add: bucket_ok_def fun_eq_iff)

lemma class_index: "uint (c :: rclass) < numClasses \<Longrightarrow> unat c < 3"
proof -
  assume "uint c < numClasses"
  moreover have "int (unat c) = uint c" by simp
  ultimately show ?thesis unfolding numClasses_def by linarith
qed

text \<open>One call in two stages: the bucket it charges, then the decision.\<close>

definition charged :: "rkey list \<Rightarrow> rkey list \<Rightarrow> rkey \<Rightarrow> gtime \<Rightarrow> limiter \<Rightarrow> rl_metrics \<Rightarrow> bucket \<times> rshard \<times> rl_metrics" where
  "charged ord1 ord2 key now l mt0 =
     (let m0 = rl_shards l ! rl_shardFor l key; rate = rl_rates l ! unat (rk_Class key) in
      case fmlookup m0 key of
        None \<Rightarrow> newBucketLocked l ord1 ord2 key now rate m0 mt0
      | Some b0 \<Rightarrow>
          let elapsed = Seconds (time_Sub now (bk_last b0));
              b1 = (if elapsed > 0
                    then b0\<lparr>bk_credit := min (bk_credit b0 + elapsed * rate) (rl_windowCredit l ! unat (rk_Class key))\<rparr>
                    else b0)
          in (b1\<lparr>bk_last := now\<rparr>, m0, mt0))"

definition limited :: "limiter \<Rightarrow> rkey \<Rightarrow> bool" where
  "limited l k \<longleftrightarrow> uint (rk_Class k) < numClasses \<and> 0 < rl_rates l ! unat (rk_Class k)"

lemma Allow_unlimited: "\<not> limited l k \<Longrightarrow> rl_Allow o1 o2 k now l = (RActionAllow, l)"
  by (auto simp: rl_Allow_def limited_def Let_def)

definition decided :: "limiter \<Rightarrow> bucket \<Rightarrow> raction \<times> bucket" where
  "decided l b = (if bk_credit b \<ge> 1 then (RActionAllow, b\<lparr>bk_credit := bk_credit b - 1\<rparr>)
     else let b' = b\<lparr>bk_slipped := bk_slipped b + 1\<rparr> in
       (if ro_SlipRatio (rl_opts l) > 0 \<and> bk_slipped b' mod ro_SlipRatio (rl_opts l) = 0
        then RActionSlip else RActionDrop, b'))"

lemma Allow_limited:
  assumes "limited l k"
  obtains b m1 mt1 mt2 where
    "charged o1 o2 k now l ((rl_metrics l)\<lparr>rm_Evaluated := Suc (rm_Evaluated (rl_metrics l))\<rparr>) = (b, m1, mt1)"
    "rl_Allow o1 o2 k now l = (fst (decided l b),
       l\<lparr>rl_shards := (rl_shards l)[rl_shardFor l k := fmupd k (snd (decided l b)) m1], rl_metrics := mt2\<rparr>)"
proof -
  let ?mt = "(rl_metrics l)\<lparr>rm_Evaluated := Suc (rm_Evaluated (rl_metrics l))\<rparr>"
  obtain b m1 mt1 where c: "charged o1 o2 k now l ?mt = (b, m1, mt1)" by (metis prod_cases3)
  have c': "(case fmlookup (rl_shards l ! rl_shardFor l k) k of
        None \<Rightarrow> newBucketLocked l o1 o2 k now (rl_rates l ! unat (rk_Class k)) (rl_shards l ! rl_shardFor l k) ?mt
      | Some b0 \<Rightarrow>
          let elapsed = Seconds (time_Sub now (bk_last b0));
              b1 = (if elapsed > 0
                    then b0\<lparr>bk_credit := min (bk_credit b0 + elapsed * (rl_rates l ! unat (rk_Class k))) (rl_windowCredit l ! unat (rk_Class k))\<rparr>
                    else b0)
          in (b1\<lparr>bk_last := now\<rparr>, rl_shards l ! rl_shardFor l k, ?mt)) = (b, m1, mt1)"
    using c unfolding charged_def Let_def .
  have "\<not> numClasses \<le> uint (rk_Class k)" "\<not> rl_rates l ! unat (rk_Class k) \<le> 0"
    using assms by (simp_all add: limited_def)
  then have "\<exists>mt2. rl_Allow o1 o2 k now l = (fst (decided l b),
       l\<lparr>rl_shards := (rl_shards l)[rl_shardFor l k := fmupd k (snd (decided l b)) m1], rl_metrics := mt2\<rparr>)"
    unfolding rl_Allow_def Let_def decided_def using c' [unfolded Let_def]
    by (simp only: if_False prod.case) (auto split: if_splits)
  then show thesis using c that by blast
qed


lemma window_nth:
  assumes "rl_ok l" "uint (rk_Class k) < numClasses"
  shows "rl_windowCredit l ! unat (rk_Class k) = rl_rates l ! unat (rk_Class k) * Seconds (ro_Window (rl_opts l))"
    and "0 \<le> rl_rates l ! unat (rk_Class k)" and "0 \<le> rl_windowCredit l ! unat (rk_Class k)"
proof -
  have n: "unat (rk_Class k) < length (rl_rates l)" using class_index [OF assms(2)] assms(1) by (simp add: rl_ok_def)
  show r: "0 \<le> rl_rates l ! unat (rk_Class k)" using assms(1) nth_mem [OF n] by (simp add: rl_ok_def)
  show w: "rl_windowCredit l ! unat (rk_Class k) = rl_rates l ! unat (rk_Class k) * Seconds (ro_Window (rl_opts l))"
    using n assms(1) by (simp add: rl_ok_def)
  have "0 < Seconds (ro_Window (rl_opts l))" using assms(1) by (simp add: rl_ok_def Seconds_def second_def)
  then show "0 \<le> rl_windowCredit l ! unat (rk_Class k)" using r w by simp
qed

text \<open>The orders of the eviction loops enumerate the shard's keys.\<close>

definition orders_ok :: "limiter \<Rightarrow> rkey \<Rightarrow> rkey list \<Rightarrow> rkey list \<Rightarrow> bool" where
  "orders_ok l k o1 o2 \<longleftrightarrow> set o1 = fset (fmdom (rl_shards l ! rl_shardFor l k)) \<and> distinct o1
     \<and> set o2 = fset (fmdom (rl_shards l ! rl_shardFor l k)) \<and> distinct o2"

lemma charged_ok:
  assumes ok: "rl_ok l" and lim: "limited l k" and ord: "orders_ok l k o1 o2"
    and c: "charged o1 o2 k now l mt = (b, m1, mt1)"
  shows "bucket_ok l k b" "\<forall>k' b'. fmlookup m1 k' = Some b' \<longrightarrow> bucket_ok l k' b'"
    and "\<And>b'. int (size (fmdom (fmupd k b' m1))) \<le> rl_perShardCap l" and "bk_last b = now"
proof -
  let ?m = "rl_shards l ! rl_shardFor l k"
  have m: "shard_fits l ?m" using ok rl_shardFor_bound [OF ok, of k] by (simp add: rl_ok_def)
  have cl: "uint (rk_Class k) < numClasses" using lim by (simp add: limited_def)
  note W = window_nth [OF ok cl]
  have "bucket_ok l k b \<and> (\<forall>k' b'. fmlookup m1 k' = Some b' \<longrightarrow> bucket_ok l k' b')
    \<and> (\<forall>b'. int (size (fmdom (fmupd k b' m1))) \<le> rl_perShardCap l) \<and> bk_last b = now"
  proof (cases "fmlookup ?m k")
    case (Some b0)
    have b0: "bucket_ok l k b0" using m Some by (simp add: shard_fits_def)
    have "Seconds (time_Sub now (bk_last b0)) > 0 \<Longrightarrow>
        0 \<le> Seconds (time_Sub now (bk_last b0)) * rl_rates l ! unat (rk_Class k)" using W(2) by simp
    then have "bucket_ok l k b" "m1 = ?m" "bk_last b = now"
      using c b0 Some W(3) by (auto simp: charged_def Let_def bucket_ok_def split: if_splits)
    with m Some fmupd_size(2) [OF Some] show ?thesis by (auto simp: shard_fits_def simp del: fmdom_fmupd)
  next
    case None
    define ev where "ev = (if int (size (fmdom ?m)) \<ge> rl_perShardCap l
        then evictLocked o1 o2 now (ro_Window (rl_opts l)) ?m mt else (?m, mt))"
    obtain me mte where e: "ev = (me, mte)" by fastforce
    have b: "b = \<lparr>bk_credit = min (rl_rates l ! unat (rk_Class k)) (rl_windowCredit l ! unat (rk_Class k)), bk_last = now, bk_slipped = 0\<rparr>"
      and m1: "m1 = fmupd k b me"
      using c None e by (auto simp: charged_def newBucketLocked_def ev_def Let_def split_beta)
    have sub: "\<forall>k' b'. fmlookup me k' = Some b' \<longrightarrow> fmlookup ?m k' = Some b'"
      using e evict_shrinks(1) by (auto simp: ev_def split: if_splits)
    have bk: "bucket_ok l k b" using W cl by (simp add: b bucket_ok_def)
    have "int (size (fmdom me)) < rl_perShardCap l"
    proof (cases "int (size (fmdom ?m)) \<ge> rl_perShardCap l")
      case True
      have "1 \<le> rl_perShardCap l" using ok by (simp add: rl_ok_def)
      then have "?m \<noteq> fmempty" using True by auto
      then have "size (fmdom me) < size (fmdom ?m)"
        using evict_shrinks(3) e True ord unfolding ev_def orders_ok_def by (metis (full_types))
      with m show ?thesis by (simp add: shard_fits_def)
    qed (use e in \<open>auto simp: ev_def\<close>)
    then have "int (size (fmdom (fmupd k b' m1))) \<le> rl_perShardCap l" for b'
      using fmupd_size(1) [of k b' me] unfolding m1 fmupd_idem by (simp add: fmupd_reorder_neq)
    moreover have "\<forall>k' b'. fmlookup m1 k' = Some b' \<longrightarrow> bucket_ok l k' b'"
      using sub m bk by (auto simp: m1 shard_fits_def)
    ultimately show ?thesis using bk b by simp
  qed
  then show "bucket_ok l k b" "\<forall>k' b'. fmlookup m1 k' = Some b' \<longrightarrow> bucket_ok l k' b'"
    "\<And>b'. int (size (fmdom (fmupd k b' m1))) \<le> rl_perShardCap l" "bk_last b = now" by blast+
qed

lemma decided_ok: "bucket_ok l k b \<Longrightarrow> bucket_ok l k (snd (decided l b))"
  by (auto simp: decided_def bucket_ok_def Let_def)

lemma rl_ok_update:
  assumes ok: "rl_ok l" and m: "shard_fits l m"
  shows "rl_ok (l\<lparr>rl_shards := (rl_shards l)[i := m], rl_metrics := mt\<rparr>)"
proof -
  have "shard_fits (l\<lparr>rl_shards := xs, rl_metrics := mt\<rparr>) = shard_fits l" for xs
    by (simp add: shard_fits_def bucket_ok_def fun_eq_iff)
  moreover have "t = m \<or> t \<in> set (rl_shards l)" if "t \<in> set ((rl_shards l)[i := m])" for t
    using that set_update_subset_insert by fastforce
  ultimately show ?thesis using ok m by (auto simp: rl_ok_def)
qed

lemma Allow_ok:
  assumes ok: "rl_ok l" and ord: "orders_ok l k o1 o2"
  shows "rl_ok (snd (rl_Allow o1 o2 k now l))"
proof (cases "limited l k")
  case False
  then show ?thesis using ok by (simp add: Allow_unlimited)
next
  case True
  obtain b m1 mt1 mt2 where c:
    "charged o1 o2 k now l ((rl_metrics l)\<lparr>rm_Evaluated := Suc (rm_Evaluated (rl_metrics l))\<rparr>) = (b, m1, mt1)"
    "rl_Allow o1 o2 k now l = (fst (decided l b),
       l\<lparr>rl_shards := (rl_shards l)[rl_shardFor l k := fmupd k (snd (decided l b)) m1], rl_metrics := mt2\<rparr>)"
    using Allow_limited [OF True] by blast
  note C = charged_ok [OF ok True ord c(1)]
  have "shard_fits l (fmupd k (snd (decided l b)) m1)"
    using C decided_ok [OF C(1)] by (auto simp: shard_fits_def simp del: fmdom_fmupd)
  from rl_ok_update [OF ok this] show ?thesis by (simp add: c(2))
qed


lemma Sweep_ok: "rl_ok l \<Longrightarrow> rl_ok (snd (rl_Sweep now l))"
proof -
  assume ok: "rl_ok l"
  have f: "shard_fits l (fmfilter P m)" if "shard_fits l m" for P m
  proof -
    have "size (fmdom (fmfilter P m)) \<le> size (fmdom m)"
      unfolding fmdom_filter by (simp add: fcard.rep_eq) (intro card_mono, auto)
    with that show ?thesis by (auto simp: shard_fits_def)
  qed
  have g: "shard_fits (l\<lparr>rl_shards := xs, rl_metrics := mt\<rparr>) = shard_fits l"
    "shard_fits (l\<lparr>rl_shards := xs\<rparr>) = shard_fits l" for xs mt
    by (simp_all add: shard_fits_def bucket_ok_def fun_eq_iff)
  show ?thesis using ok f by (auto simp: rl_Sweep_def Let_def rl_ok_def g)
qed

lemma pow2_loop_ends:
  assumes "n \<le> 2 ^ 62"
  shows "j \<le> 62 \<Longrightarrow> \<exists>k. pow2_loop n (2 ^ j) = Some (2 ^ k) \<and> k \<le> 62 \<and> n \<le> 2 ^ k \<and> (\<forall>i. j \<le> i \<and> i < k \<longrightarrow> 2 ^ i < n)"
proof (induction "62 - j" arbitrary: j)
  case 0
  then have "j = 62" by simp
  then have "pow2_loop n (2 ^ j) = Some (2 ^ 62)" using assms by (subst pow2_loop.simps) simp
  with assms \<open>j = 62\<close> show ?case by (intro exI [of _ 62]) auto
next
  case (Suc d)
  show ?case
  proof (cases "(2 :: int) ^ j < n")
    case False
    then show ?thesis using Suc by (subst pow2_loop.simps) auto
  next
    case True
    have j: "Suc j \<le> 62" "d = 62 - Suc j" using Suc by linarith+
    have "(2 :: int) ^ j * 2 \<le> 2 ^ 62" using power_increasing [OF j(1), of "2 :: int"] by simp
    then have "(2 :: int) ^ j * 2 < 2 ^ 63" by simp
    moreover have "- (2 ^ 63) \<le> (2 :: int) ^ j * 2" by (rule order_trans [of _ 0]) simp_all
    ultimately have "int64_wrap (2 ^ j * 2) = 2 ^ j * 2" by (intro int64_wrap_id)
    then have "int64_wrap (2 ^ j * 2) = 2 ^ Suc j" by simp
    then have "pow2_loop n (2 ^ j) = pow2_loop n (2 ^ Suc j)" using True by (subst pow2_loop.simps) simp
    with Suc.hyps(1) [OF j(2,1)] obtain k where k: "pow2_loop n (2 ^ j) = Some (2 ^ k)" "k \<le> 62" "n \<le> 2 ^ k"
        "\<forall>i. Suc j \<le> i \<and> i < k \<longrightarrow> 2 ^ i < n" by auto
    then show ?thesis using True le_eq_less_or_eq [of j] Suc_le_eq [of j] by (intro exI [of _ k]) auto
  qed
qed

lemma roundUpPow2_least:
  assumes "n \<le> 2 ^ 62"
  shows "\<exists>k. roundUpPow2 n = Some (2 ^ k) \<and> k \<le> 62 \<and> n \<le> 2 ^ k \<and> (\<forall>i < k. 2 ^ i < n)"
proof (cases "n \<le> 1")
  case True
  then show ?thesis by (intro exI [of _ 0]) (simp add: roundUpPow2_def)
next
  case False
  then show ?thesis using pow2_loop_ends [OF assms, of 0] by (auto simp: roundUpPow2_def)
qed

lemma rl_New_ok:
  assumes n: "rl_New o0 = Some (Inr l)" and sz: "ro_Shards o0 \<le> 2 ^ 62"
  shows "rl_ok l \<and> rl_perShardCap l = max 1 (ro_MaxBuckets (rl_opts l) div int (length (rl_shards l)))"
proof -
  define o1 where "o1 = rl_fill o0"
  have f: "ro_Shards o1 \<le> 2 ^ 62" "0 < ro_Window o1" "ro_ResponsesPerSecond o1 = ro_ResponsesPerSecond o0"
      "ro_DenialsPerSecond o1 = ro_DenialsPerSecond o0" "ro_ErrorsPerSecond o1 = ro_ErrorsPerSecond o0"
    using sz by (auto simp: o1_def rl_fill_def Let_def second_def)
  obtain j where j: "roundUpPow2 (ro_Shards o1) = Some (2 ^ j)" "j \<le> 62" using roundUpPow2_least [OF f(1)] by blast
  have r: "0 \<le> ro_ResponsesPerSecond o0" "0 \<le> ro_DenialsPerSecond o0" "0 \<le> ro_ErrorsPerSecond o0"
    using n by (auto simp: rl_New_def split: if_splits)
  have p: "(1 :: int) \<le> 2 ^ j" "(2 :: int) ^ j \<le> 2 ^ 62" using power_increasing [OF j(2), of "2 :: int"] by simp_all
  have m: "uint (word_of_int (2 ^ j - 1) :: 64 word) = 2 ^ j - 1"
    using p by (subst uint_word_of_int) (simp add: take_bit_int_eq_self_iff)
  have k: "nat (2 ^ j) = Suc (unat (word_of_int (2 ^ j - 1) :: 64 word))"
    using p by (simp only: unat_eq_nat_uint m)
  have l: "l = \<lparr>rl_opts = o1\<lparr>ro_Shards := 2 ^ j\<rparr>, rl_shards = replicate (nat (2 ^ j)) fmempty,
      rl_shardMask = word_of_int (2 ^ j - 1), rl_perShardCap = max 1 (ro_MaxBuckets o1 div 2 ^ j),
      rl_rates = [ro_ResponsesPerSecond o1, ro_DenialsPerSecond o1, ro_ErrorsPerSecond o1],
      rl_windowCredit = map (\<lambda>rate. rate * Seconds (ro_Window o1))
        [ro_ResponsesPerSecond o1, ro_DenialsPerSecond o1, ro_ErrorsPerSecond o1],
      rl_metrics = zero_rl_metrics\<rparr>"
    using n j(1) r by (simp add: rl_New_def Let_def o1_def)
  have e: "shard_fits l fmempty" by (simp add: shard_fits_def l)
  have "length (rl_shards l) = Suc (unat (rl_shardMask l))" using k by (simp add: l del: of_int_diff)
  moreover have "\<forall>m \<in> set (rl_shards l). shard_fits l m" using e by (simp add: l)
  moreover have "int (length (rl_shards l)) = 2 ^ j" by (simp add: l)
  moreover have "rl_perShardCap l = max 1 (ro_MaxBuckets (rl_opts l) div 2 ^ j)" by (simp add: l)
  moreover have "0 < ro_Window (rl_opts l)" "length (rl_rates l) = 3" "\<forall>r \<in> set (rl_rates l). 0 \<le> r"
    "rl_windowCredit l = map (\<lambda>rate. rate * Seconds (ro_Window (rl_opts l))) (rl_rates l)"
    using f r by (simp_all add: l)
  ultimately show ?thesis unfolding rl_ok_def by (simp del: of_nat_Suc)
qed


section \<open>Properties of the limiter\<close>

inductive rl_reach :: "rl_options \<Rightarrow> limiter \<Rightarrow> bool" for o0 where
  rl_reach_New: "rl_New o0 = Some (Inr l) \<Longrightarrow> ro_Shards o0 \<le> 2 ^ 62 \<Longrightarrow> rl_reach o0 l"
| rl_reach_Allow: "rl_reach o0 l \<Longrightarrow> orders_ok l k o1 o2 \<Longrightarrow> rl_reach o0 (snd (rl_Allow o1 o2 k now l))"
| rl_reach_Sweep: "rl_reach o0 l \<Longrightarrow> rl_reach o0 (snd (rl_Sweep now l))"

definition same_config :: "limiter \<Rightarrow> limiter \<Rightarrow> bool" where
  "same_config l l' \<longleftrightarrow> rl_opts l' = rl_opts l \<and> rl_shardMask l' = rl_shardMask l \<and> rl_perShardCap l' = rl_perShardCap l
     \<and> rl_rates l' = rl_rates l \<and> rl_windowCredit l' = rl_windowCredit l \<and> length (rl_shards l') = length (rl_shards l)"

lemma Allow_config: "same_config l (snd (rl_Allow o1 o2 k now l))"
proof (cases "limited l k")
  case True
  obtain b m1 mt1 mt2 where
    "rl_Allow o1 o2 k now l = (fst (decided l b),
       l\<lparr>rl_shards := (rl_shards l)[rl_shardFor l k := fmupd k (snd (decided l b)) m1], rl_metrics := mt2\<rparr>)"
    using Allow_limited [OF True] by blast
  then show ?thesis by (simp add: same_config_def)
qed (simp add: Allow_unlimited same_config_def)

lemma Sweep_config: "same_config l (snd (rl_Sweep now l))"
  by (simp add: rl_Sweep_def Let_def same_config_def)

lemma rl_reach_ok:
  "rl_reach o0 l \<Longrightarrow> rl_ok l \<and> rl_perShardCap l = max 1 (ro_MaxBuckets (rl_opts l) div int (length (rl_shards l)))"
proof (induction rule: rl_reach.induct)
  case (rl_reach_New l)
  then show ?case by (rule rl_New_ok)
next
  case (rl_reach_Allow l k o1 o2 now)
  then show ?case using Allow_ok [of l k o1 o2 now] Allow_config [of l o1 o2 k now] unfolding same_config_def by simp
next
  case (rl_reach_Sweep l now)
  then show ?case using Sweep_ok [of l now] Sweep_config [of l now] unfolding same_config_def by simp
qed

text \<open>The limiter's memory is bounded whatever is sent: in every reachable state it
  holds at most \<open>MaxBuckets\<close> buckets (or one per shard, when that is more), for any
  map iteration order, and no bucket ever banks less than nothing or more than its
  window's allowance.\<close>

theorem limiter_bounded:
  assumes "rl_reach o0 l"
  shows "int (rl_Len l) \<le> max (ro_MaxBuckets (rl_opts l)) (int (length (rl_shards l)))
    \<and> (\<forall>m \<in> set (rl_shards l). \<forall>k b. fmlookup m k = Some b \<longrightarrow>
         0 \<le> bk_credit b \<and> bk_credit b \<le> rl_rates l ! unat (rk_Class k) * Seconds (ro_Window (rl_opts l)))"
proof -
  have ok: "rl_ok l" and cap: "rl_perShardCap l = max 1 (ro_MaxBuckets (rl_opts l) div int (length (rl_shards l)))"
    using rl_reach_ok [OF assms] by simp_all
  let ?n = "int (length (rl_shards l))"
  have n: "0 < ?n" using rl_shardFor_bound [OF ok] by fastforce
  have "int (rl_Len l) \<le> ?n * rl_perShardCap l"
    unfolding rl_Len_def foldl_plus_sum_list add_0
    by (rule sum_list_bound) (use ok in \<open>auto simp: rl_ok_def shard_fits_def\<close>)
  also have "\<dots> = max ?n (?n * (ro_MaxBuckets (rl_opts l) div ?n))"
    using n unfolding cap by (simp add: max_mult_distrib_left)
  also have "\<dots> \<le> max (ro_MaxBuckets (rl_opts l)) ?n" using int_mult_div_le [OF n, of "ro_MaxBuckets (rl_opts l)"] by simp
  finally have len: "int (rl_Len l) \<le> max (ro_MaxBuckets (rl_opts l)) ?n" .
  have "0 \<le> bk_credit b \<and> bk_credit b \<le> rl_rates l ! unat (rk_Class k) * Seconds (ro_Window (rl_opts l))"
    if "m \<in> set (rl_shards l)" "fmlookup m k = Some b" for m k b
  proof -
    have "bucket_ok l k b" using ok that by (auto simp: rl_ok_def shard_fits_def)
    then show ?thesis using window_nth(1) [OF ok, of k] by (simp add: bucket_ok_def)
  qed
  with len show ?thesis by blast
qed


text \<open>A run of responses charged to one bucket.\<close>

fun rl_run :: "rkey \<Rightarrow> (gtime \<times> rkey list \<times> rkey list) list \<Rightarrow> limiter \<Rightarrow> raction list \<times> limiter" where
  "rl_run k [] l = ([], l)"
| "rl_run k ((now, o1, o2) # ts) l =
     (let (a, l1) = rl_Allow o1 o2 k now l; (as, l2) = rl_run k ts l1 in (a # as, l2))"

definition cost :: "raction \<Rightarrow> rat" where
  "cost a = (if a = RActionAllow then 1 else 0)"

lemma decided_cost: "bk_credit (snd (decided l b)) + cost (fst (decided l b)) = bk_credit b"
  "bk_last (snd (decided l b)) = bk_last b"
  by (simp_all add: decided_def cost_def Let_def)

lemma shardFor_same: "same_config l l' \<Longrightarrow> rl_shardFor l' k = rl_shardFor l k"
  by (simp add: same_config_def rl_shardFor_def)

lemma Allow_bucket:
  assumes lim: "limited l k" and i: "rl_shardFor l k < length (rl_shards l)"
    and c: "charged o1 o2 k now l ((rl_metrics l)\<lparr>rm_Evaluated := Suc (rm_Evaluated (rl_metrics l))\<rparr>) = (b, m1, mt1)"
  shows "\<exists>b'. fmlookup (rl_shards (snd (rl_Allow o1 o2 k now l)) ! rl_shardFor l k) k = Some b'
    \<and> bk_last b' = bk_last b \<and> bk_credit b' + cost (fst (rl_Allow o1 o2 k now l)) = bk_credit b
    \<and> (0 \<le> bk_credit b \<longrightarrow> 0 \<le> bk_credit b')"
proof -
  obtain b1 m2 mt3 mt2 where
    "charged o1 o2 k now l ((rl_metrics l)\<lparr>rm_Evaluated := Suc (rm_Evaluated (rl_metrics l))\<rparr>) = (b1, m2, mt3)"
    "rl_Allow o1 o2 k now l = (fst (decided l b1),
       l\<lparr>rl_shards := (rl_shards l)[rl_shardFor l k := fmupd k (snd (decided l b1)) m2], rl_metrics := mt2\<rparr>)"
    using Allow_limited [OF lim] by blast
  moreover have "0 \<le> bk_credit b \<longrightarrow> 0 \<le> bk_credit (snd (decided l b))" by (simp add: decided_def Let_def)
  ultimately show ?thesis using c i decided_cost [of l b] by simp
qed

lemma Seconds_mono: "a \<le> b \<Longrightarrow> Seconds a \<le> Seconds b"
  by (simp add: Seconds_def second_def divide_right_mono)

lemma Seconds_add: "Seconds (a + b) = Seconds a + Seconds b"
  by (simp add: Seconds_def add_divide_distrib)

lemma charged_present:
  assumes "fmlookup (rl_shards l ! rl_shardFor l k) k = Some b0" "bk_last b0 \<le> now" "limited l k"
  shows "\<exists>b m mt'. charged o1 o2 k now l mt = (b, m, mt') \<and> bk_last b = now
    \<and> bk_credit b \<le> bk_credit b0 + rl_rates l ! unat (rk_Class k) * Seconds (now - bk_last b0)
    \<and> (0 \<le> bk_credit b0 \<longrightarrow> 0 \<le> rl_windowCredit l ! unat (rk_Class k) \<longrightarrow> 0 \<le> bk_credit b)"
proof -
  let ?r = "rl_rates l ! unat (rk_Class k)" and ?e = "Seconds (time_Sub now (bk_last b0))"
  have r: "0 < ?r" using assms(3) by (simp add: limited_def)
  have "?e \<le> Seconds (now - bk_last b0)" using assms(2) by (intro Seconds_mono time_Sub_le) simp
  then have "?e * ?r \<le> ?r * Seconds (now - bk_last b0)" using r by (simp add: mult.commute)
  moreover have "0 \<le> Seconds (now - bk_last b0)" using assms(2) by (simp add: Seconds_def second_def)
  then have "0 \<le> ?r * Seconds (now - bk_last b0)" using r by simp
  ultimately show ?thesis using assms(1) r by (auto simp: charged_def Let_def min.coboundedI1)
qed


lemma run_rate:
  assumes "fmlookup (rl_shards l ! rl_shardFor l k) k = Some b0" "limited l k" "rl_shardFor l k < length (rl_shards l)"
    and "0 \<le> bk_credit b0" "0 \<le> rl_windowCredit l ! unat (rk_Class k)" and "sorted (bk_last b0 # map fst ts)"
  shows "sum_list (map cost (fst (rl_run k ts l)))
    \<le> bk_credit b0 + rl_rates l ! unat (rk_Class k) * Seconds (last (bk_last b0 # map fst ts) - bk_last b0)"
  using assms
proof (induction ts arbitrary: l b0)
  case Nil
  then show ?case by (simp add: Seconds_def)
next
  case (Cons t ts)
  obtain now o1 o2 where t: "t = (now, o1, o2)" by (metis prod_cases3)
  let ?l = "snd (rl_Allow o1 o2 k now l)" and ?a = "fst (rl_Allow o1 o2 k now l)" and ?r = "rl_rates l ! unat (rk_Class k)"
  have le: "bk_last b0 \<le> now" using Cons.prems(6) t by simp
  obtain b m mt' where c: "charged o1 o2 k now l ((rl_metrics l)\<lparr>rm_Evaluated := Suc (rm_Evaluated (rl_metrics l))\<rparr>) = (b, m, mt')"
      "bk_last b = now" "bk_credit b \<le> bk_credit b0 + ?r * Seconds (now - bk_last b0)" "0 \<le> bk_credit b"
    using charged_present [OF Cons.prems(1) le Cons.prems(2)] Cons.prems(4,5) by blast
  obtain b' where b': "fmlookup (rl_shards ?l ! rl_shardFor l k) k = Some b'" "bk_last b' = now"
      "bk_credit b' + cost ?a = bk_credit b" "0 \<le> bk_credit b'"
    using Allow_bucket [OF Cons.prems(2,3) c(1)] c(2,4) by auto
  have cfg: "same_config l ?l" by (rule Allow_config)
  note S = cfg [unfolded same_config_def]
  have IH: "sum_list (map cost (fst (rl_run k ts ?l)))
      \<le> bk_credit b' + ?r * Seconds (last (now # map fst ts) - now)"
    using Cons.IH [of ?l b'] b' Cons.prems S shardFor_same [OF cfg, of k] t by (simp add: limited_def)
  have "Seconds (last (now # map fst ts) - bk_last b0) = Seconds (last (now # map fst ts) - now) + Seconds (now - bk_last b0)"
    using Seconds_add [of "last (now # map fst ts) - now" "now - bk_last b0"] by simp
  then have "sum_list (map cost (fst (rl_run k ts ?l))) + cost ?a
      \<le> bk_credit b0 + ?r * Seconds (last (now # map fst ts) - bk_last b0)"
    using IH b'(3) c(3) by (simp add: distrib_left)
  then show ?case by (simp add: t split_beta Let_def add.commute)
qed

lemma sum_cost: "sum_list (map cost as) = of_nat (count_list as RActionAllow)"
  by (induction as) (auto simp: cost_def)

text \<open>C27. The rate holds: of any run of responses charged to one bucket of a limited
  class, at nondecreasing times, at most \<open>rate\<close> per second of the run's span are
  sent in full, plus a burst of the rate times the window for a client with a
  bucket, or of one second's rate for a client never seen, in every reachable
  state.\<close>

theorem limiter_rate:
  assumes "rl_reach o0 l" and "limited l k" and "sorted (map fst ts)" and "ts \<noteq> []"
  shows "rat_of_nat (count_list (fst (rl_run k ts l)) RActionAllow)
    \<le> rl_rates l ! unat (rk_Class k) *
       ((if fmlookup (rl_shards l ! rl_shardFor l k) k = None then 1 else Seconds (ro_Window (rl_opts l)))
        + Seconds (fst (last ts) - fst (hd ts)))"
proof -
  let ?r = "rl_rates l ! unat (rk_Class k)" and ?w = "rl_windowCredit l ! unat (rk_Class k)"
  let ?burst = "if fmlookup (rl_shards l ! rl_shardFor l k) k = None then 1 else Seconds (ro_Window (rl_opts l))"
  have ok: "rl_ok l" using rl_reach_ok [OF assms(1)] by simp
  obtain now o1 o2 ts' where ts: "ts = (now, o1, o2) # ts'" using assms(4) by (metis list.exhaust prod_cases3)
  have cl: "uint (rk_Class k) < numClasses" using assms(2) by (simp add: limited_def)
  note W = window_nth [OF ok cl]
  let ?mt = "(rl_metrics l)\<lparr>rm_Evaluated := Suc (rm_Evaluated (rl_metrics l))\<rparr>"
  obtain b m1 mt1 where c: "charged o1 o2 k now l ?mt = (b, m1, mt1)" by (metis prod_cases3)
  have b: "bk_last b = now \<and> 0 \<le> bk_credit b \<and> bk_credit b \<le> ?r * ?burst"
  proof (cases "fmlookup (rl_shards l ! rl_shardFor l k) k")
    case None
    then show ?thesis using c W by (auto simp: charged_def newBucketLocked_def Let_def split_beta)
  next
    case (Some b0)
    have "rl_shards l ! rl_shardFor l k \<in> set (rl_shards l)" using rl_shardFor_bound [OF ok] by (rule nth_mem)
    then have "bucket_ok l k b0" using ok Some unfolding rl_ok_def shard_fits_def by blast
    then show ?thesis using c Some W by (auto simp: charged_def Let_def bucket_ok_def)
  qed
  let ?l = "snd (rl_Allow o1 o2 k now l)" and ?a = "fst (rl_Allow o1 o2 k now l)"
  obtain b' where b': "fmlookup (rl_shards ?l ! rl_shardFor l k) k = Some b'" "bk_last b' = now"
      "bk_credit b' + cost ?a = bk_credit b" "0 \<le> bk_credit b'"
    using Allow_bucket [OF assms(2) rl_shardFor_bound [OF ok] c] b by auto
  have cfg: "same_config l ?l" by (rule Allow_config)
  note S = cfg [unfolded same_config_def]
  have "sum_list (map cost (fst (rl_run k ts' ?l))) \<le> bk_credit b' + ?r * Seconds (last (now # map fst ts') - now)"
    using run_rate [of ?l k b' ts'] b' S shardFor_same [OF cfg, of k] W(3) assms(2,3) ts rl_shardFor_bound [OF ok, of k]
    by (simp add: limited_def)
  then have "cost ?a + sum_list (map cost (fst (rl_run k ts' ?l))) \<le> ?r * ?burst + ?r * Seconds (last (now # map fst ts') - now)"
    using b' b by linarith
  moreover have "last (now # map fst ts') = fst (last ts)" by (simp add: ts last_map)
  moreover have "fst (rl_run k ts l) = ?a # fst (rl_run k ts' ?l)" by (simp add: ts split_beta Let_def)
  moreover have "fst (hd ts) = now" by (simp add: ts)
  ultimately show ?thesis unfolding sum_cost [symmetric] distrib_left by simp
qed

definition test_ropts :: rl_options where
  "test_ropts = \<lparr>ro_ResponsesPerSecond = 5, ro_DenialsPerSecond = 2, ro_ErrorsPerSecond = 0, ro_Window = 0,
     ro_SlipRatio = 2, ro_IPv4PrefixLen = 24, ro_IPv6PrefixLen = 56, ro_MaxBuckets = 10, ro_Shards = 1\<rparr>"

definition test_limiter :: limiter where
  "test_limiter = \<lparr>rl_opts = test_ropts\<lparr>ro_Window := 15 * second\<rparr>, rl_shards = [fmempty], rl_shardMask = 0,
     rl_perShardCap = 10, rl_rates = [5, 2, 0], rl_windowCredit = [75, 30, 0], rl_metrics = zero_rl_metrics\<rparr>"

definition test_rkey :: rkey where
  "test_rkey = \<lparr>rk_Prefix = \<lparr>pfx_ip = AddrV4 0xC0000200, pfx_bits = 24\<rparr>, rk_Class = ClassDenial,
     rk_Name = ''victim.example.'', rk_Type = 0\<rparr>"

lemma test_limiter_reach: "rl_reach test_ropts test_limiter"
  by (rule rl_reach_New)
     (simp_all add: rl_New_def rl_fill_def test_ropts_def test_limiter_def roundUpPow2_def Let_def Seconds_def second_def)

theorem limiter_bounded_witness:
  "rl_reach test_ropts test_limiter \<and> int (rl_Len test_limiter) \<le> 10"
  using limiter_bounded [OF test_limiter_reach] test_limiter_reach by (simp add: test_limiter_def test_ropts_def)

theorem limiter_rate_witness:
  "rl_reach test_ropts test_limiter \<and> limited test_limiter test_rkey
   \<and> rat_of_nat (count_list (fst (rl_run test_rkey [(0, [], []), (0, [], []), (0, [], []), (second, [], [])] test_limiter))
        RActionAllow) \<le> 4"
proof -
  have "limited test_limiter test_rkey"
    by (simp add: limited_def test_limiter_def test_rkey_def ClassDenial_def numClasses_def)
  then show ?thesis
    using limiter_rate [OF test_limiter_reach, of test_rkey "[(0, [], []), (0, [], []), (0, [], []), (second, [], [])]"]
      test_limiter_reach
    by (simp add: test_limiter_def test_rkey_def ClassDenial_def Seconds_def second_def rl_shardFor_def Let_def
        del: rl_run.simps)
qed

section \<open>Properties of the handler\<close>

text \<open>Rate limiting touches only spoofable traffic: over any transport but UDP, or for
  an exempt client, the resolver's response goes out unchanged and no bucket is
  charged; over UDP what goes out is that response, nothing, or an empty
  truncated reply to the same query.\<close>

theorem ratelimit_only_udp:
  assumes "next req s = Some (resp, s1)"
  shows "\<exists>out rs'. rl_ServeDNS L exempt o1 o2 now next req (rs, s) = Some (out, rs', s1)
    \<and> (rq_Proto req \<noteq> ProtoUDP \<or> exempt \<noteq> None \<and> acl_Allows exempt (rq_Client req)
        \<longrightarrow> out = resp \<and> rs_limiter rs' = rs_limiter rs)
    \<and> (out = resp \<or> out = None \<or>
        (\<exists>m. out = Some m \<and> m = truncatedResponse L (rq_Msg req) \<and> m_Truncated m \<and> m_Answer m = [] \<and> m_Ns m = []
             \<and> m_Extra m = []))"
proof (cases resp)
  case None
  then show ?thesis using assms by (simp add: rl_ServeDNS_def)
next
  case (Some r)
  obtain act l1 where a: "rl_Allow o1 o2 (keyFor (rs_limiter rs) req r) now (rs_limiter rs) = (act, l1)" by fastforce
  show ?thesis using assms Some a
    by (cases act) (auto simp: rl_ServeDNS_def Let_def truncatedResponse_def)
qed

theorem ratelimit_only_udp_witness:
  "\<exists>out rs'. rl_ServeDNS ref_lib None [] [] 0 (\<lambda>req s. Some (Some (reply_to (rq_Msg req)), s))
     (test_request ''a.b'') (\<lparr>rs_limiter = test_limiter, rs_Exempted = 0\<rparr>, 7 :: nat) = Some (out, rs', 7)"
  using ratelimit_only_udp [of "\<lambda>req s. Some (Some (reply_to (rq_Msg req)), s)" "test_request ''a.b''" "7 :: nat"
      "Some (reply_to (rq_Msg (test_request ''a.b'')))" 7 ref_lib None "[]" "[]" 0
      "\<lparr>rs_limiter = test_limiter, rs_Exempted = 0\<rparr>"]
  by auto

lemma cut_index_plain:
  "{CHR ''.'', CHR 0x5C} \<inter> set x = {} \<Longrightarrow> i \<le> length x \<Longrightarrow> cut_index (x @ CHR ''.'' # z) i = Some (length x)"
proof (induction "length x - i" arbitrary: i)
  case 0
  then show ?case by (subst cut_index.simps) (simp add: nth_append)
next
  case (Suc d)
  then have i: "i < length x" by linarith
  then have "x ! i \<in> set x" by simp
  then have "x ! i \<noteq> CHR ''.''" "x ! i \<noteq> CHR 0x5C" using Suc.prems(1) by blast+
  with i Suc show ?case by (subst cut_index.simps) (simp add: nth_append)
qed

lemma denialZone_plain:
  assumes "m_Question m = [q]" "q_Name q = x @ CHR ''.'' # z" "{CHR ''.'', CHR 0x5C} \<inter> set x = {}" "z \<noteq> []"
    and "find is_SOA (m_Ns resp) = None"
  shows "denialZone m resp = z"
  using assms cut_index_plain [OF assms(3), of 0 z] by (simp add: denialZone_def cutLabel_def Let_def append_eq_Cons_conv)

text \<open>A random-subdomain flood is one bucket: any two denials to clients of one prefix
  that name the same zone in their SOA are charged to the same key, whatever the
  names asked for; and without an SOA the key of a denial of \<open>label.zone\<close> is
  the zone's, for any label without dots or escapes.\<close>

theorem flood_one_bucket:
  assumes "m_Rcode resp = RcodeNameError \<or> isNoData resp" and "m_Rcode resp' = RcodeNameError \<or> isNoData resp'"
    and "rl_Mask l (rq_Client req) = rl_Mask l (rq_Client req')"
    and "(\<exists>r r'. find is_SOA (m_Ns resp) = Some r \<and> find is_SOA (m_Ns resp') = Some r'
            \<and> rh_Name (rr_hdr r) = rh_Name (rr_hdr r'))
         \<or> (\<exists>q q' x x' zone. find is_SOA (m_Ns resp) = None \<and> find is_SOA (m_Ns resp') = None
            \<and> m_Question (rq_Msg req) = [q] \<and> m_Question (rq_Msg req') = [q'] \<and> zone \<noteq> []
            \<and> q_Name q = x @ CHR ''.'' # zone \<and> q_Name q' = x' @ CHR ''.'' # zone
            \<and> {CHR ''.'', CHR 0x5C} \<inter> set x = {} \<and> {CHR ''.'', CHR 0x5C} \<inter> set x' = {})"
  shows "keyFor l req resp = keyFor l req' resp'"
proof -
  have "denialZone (rq_Msg req) resp = denialZone (rq_Msg req') resp'"
    using assms(4) denialZone_plain by (elim disjE exE conjE) (simp add: denialZone_def, metis)
  with assms(1-3) show ?thesis by (auto simp: keyFor_def Let_def)
qed

definition nx_reply :: "string \<Rightarrow> dmsg" where
  "nx_reply name = (reply_to (test_msg name))\<lparr>m_Rcode := RcodeNameError\<rparr>"

theorem flood_one_bucket_witness:
  "keyFor test_limiter (test_request ''r1.victim.'') (nx_reply ''r1.victim.'')
   = keyFor test_limiter (test_request ''r2.victim.'') (nx_reply ''r2.victim.'')"
  by (rule flood_one_bucket, unfold nx_reply_def reply_to_def test_request_def test_msg_def, simp, simp, simp, rule disjI2,
      rule exI [of _ "\<lparr>q_Name = ''r1.victim.'', q_Qtype = TypeA, q_Qclass = ClassINET\<rparr>"],
      rule exI [of _ "\<lparr>q_Name = ''r2.victim.'', q_Qtype = TypeA, q_Qclass = ClassINET\<rparr>"],
      rule exI [of _ "''r1''"], rule exI [of _ "''r2''"], rule exI [of _ "''victim.''"], simp)

text \<open>Answers are grouped by the question name as the client spelled it: two requests of
  one client whose names differ, if only in letter case, are charged to different
  buckets, so each spelling of a name has an allowance of its own.\<close>

theorem answer_key_case_sensitive:
  assumes "m_Rcode resp = RcodeSuccess" and "m_Answer resp \<noteq> []"
    and "m_Question (rq_Msg req) = [q]" and "m_Question (rq_Msg req') = [q']"
    and "q_Name q \<noteq> q_Name q'"
  shows "keyFor l req resp \<noteq> keyFor l req' resp"
  using assms by (auto simp: keyFor_def isNoData_def Let_def RcodeSuccess_def RcodeNameError_def)

definition a_reply :: dmsg where
  "a_reply = (reply_to (test_msg ''x''))\<lparr>m_Answer := [\<lparr>rr_hdr = \<lparr>rh_Name = ''x'', rh_Rrtype = 1, rh_Class = 1,
     rh_Ttl = 1, rh_Rdlength = 4\<rparr>, rr_data = RA []\<rparr>]\<rparr>"

theorem answer_key_case_sensitive_witness:
  "keyFor test_limiter (test_request ''www.example.'') a_reply \<noteq> keyFor test_limiter (test_request ''WWW.example.'') a_reply"
  by (rule answer_key_case_sensitive [where q = "\<lparr>q_Name = ''www.example.'', q_Qtype = TypeA, q_Qclass = ClassINET\<rparr>"
        and q' = "\<lparr>q_Name = ''WWW.example.'', q_Qtype = TypeA, q_Qclass = ClassINET\<rparr>"])
     (simp_all add: a_reply_def reply_to_def test_request_def test_msg_def RcodeSuccess_def)

end
