(* ===== verification/Health.thy ===== *)
theory Health
  imports Prelude
begin

text \<open>
  \<open>internal/health/health.go\<close>: the monitor that decides whether this node
  advertises the anycast prefix. A round of \<open>Run\<close> is one \<open>evaluate\<close> with
  the outcome of every check, the clock readings it takes (\<open>now1\<close> under the
  lock, \<open>now2\<close> in \<open>apply\<close>) and whether the routing daemon's answer to a
  call, should one be made, is an error. Each round returns the calls it
  makes on the \<open>Advertiser\<close> with their outcome; \<open>hm_run\<close> collects them
  over a whole run. Times count from Go's zero time. Logging is left out.
\<close>

datatype hstate = StateStarting | StateHealthy | StateUnhealthy

fun hstate_String :: "hstate \<Rightarrow> string" where
  "hstate_String StateHealthy = ''healthy''"
| "hstate_String StateUnhealthy = ''unhealthy''"
| "hstate_String StateStarting = ''starting''"

datatype acall = CallAdvertise | CallWithdraw

record hmetrics =
  hx_Checks :: nat
  hx_CheckFailures :: nat
  hx_Advertisements :: nat
  hx_Withdrawals :: nat
  hx_AdvertiseErrs :: nat
  hx_Flaps :: nat

record hoptions =
  ho_Checks :: nat
  ho_Advertiser :: bool
  ho_Interval :: duration
  ho_Timeout :: duration
  ho_FailureThreshold :: int
  ho_SuccessThreshold :: int
  ho_MinHold :: duration
  ho_MaxHold :: duration
  ho_StableAfter :: duration

record monitor =
  hm_state :: hstate
  hm_consecFail :: int
  hm_consecOK :: int
  hm_withdrawnAt :: gtime
  hm_healthySince :: gtime
  hm_hold :: duration
  hm_lastFailures :: "string list"
  hm_metrics :: hmetrics

definition minute :: duration where "minute = 60 * second"

definition ho_fill :: "hoptions \<Rightarrow> hoptions" where
  "ho_fill o0 =
     (let o1 = (if ho_Interval o0 \<le> 0 then o0\<lparr>ho_Interval := 5 * second\<rparr> else o0);
          o2 = (if ho_Timeout o1 \<le> 0 then o1\<lparr>ho_Timeout := 2 * second\<rparr> else o1);
          o3 = (if ho_FailureThreshold o2 \<le> 0 then o2\<lparr>ho_FailureThreshold := 2\<rparr> else o2);
          o4 = (if ho_SuccessThreshold o3 \<le> 0 then o3\<lparr>ho_SuccessThreshold := 3\<rparr> else o3);
          o5 = (if ho_MinHold o4 \<le> 0 then o4\<lparr>ho_MinHold := 30 * second\<rparr> else o4);
          o6 = (if ho_MaxHold o5 \<le> 0 then o5\<lparr>ho_MaxHold := 5 * minute\<rparr> else o5)
      in if ho_StableAfter o6 \<le> 0 then o6\<lparr>ho_StableAfter := int64_wrap (10 * ho_MinHold o6)\<rparr> else o6)"

definition hm_New :: "hoptions \<Rightarrow> string + hoptions \<times> monitor" where
  "hm_New o0 =
     (if ho_Checks o0 = 0 then Inl ''health: at least one check is required''
      else if \<not> ho_Advertiser o0 then Inl ''health: an advertiser is required''
      else let opts = ho_fill o0 in
        Inr (opts, \<lparr>hm_state = StateStarting, hm_consecFail = 0, hm_consecOK = 0, hm_withdrawnAt = 0,
                    hm_healthySince = 0, hm_hold = ho_MinHold opts, hm_lastFailures = [],
                    hm_metrics = \<lparr>hx_Checks = 0, hx_CheckFailures = 0, hx_Advertisements = 0, hx_Withdrawals = 0,
                                  hx_AdvertiseErrs = 0, hx_Flaps = 0\<rparr>\<rparr>))"

text \<open>A check is its name and its outcome: the text of its error, if any.\<close>

definition runChecks :: "(string \<times> string option) list \<Rightarrow> string list" where
  "runChecks cs = concat (map (\<lambda>(name, err). case err of None \<Rightarrow> [] | Some e \<Rightarrow> [name @ '': '' @ e]) cs)"

definition readyToReadvertise :: "gtime \<Rightarrow> monitor \<Rightarrow> bool" where
  "readyToReadvertise now m = (if hm_withdrawnAt m = 0 then True
     else time_Sub now (hm_withdrawnAt m) \<ge> hm_hold m)"

definition hm_apply :: "hoptions \<Rightarrow> hstate \<Rightarrow> hstate \<Rightarrow> gtime \<Rightarrow> bool \<Rightarrow> monitor \<Rightarrow> monitor \<times> (acall \<times> bool) list" where
  "hm_apply opts from to now err m = (let mt = hm_metrics m in case to of
     StateUnhealthy \<Rightarrow>
       if err then (m\<lparr>hm_metrics := mt\<lparr>hx_AdvertiseErrs := Suc (hx_AdvertiseErrs mt)\<rparr>\<rparr>, [(CallWithdraw, False)])
       else
         let mt1 = mt\<lparr>hx_Withdrawals := Suc (hx_Withdrawals mt)\<rparr> in
         if from = StateHealthy then
           let mt2 = mt1\<lparr>hx_Flaps := Suc (hx_Flaps mt1)\<rparr>;
               stable = (hm_healthySince m \<noteq> 0 \<and> time_Sub now (hm_healthySince m) \<ge> ho_StableAfter opts);
               hold = (if stable then ho_MinHold opts
                       else let h = int64_wrap (hm_hold m * 2) in if h > ho_MaxHold opts then ho_MaxHold opts else h)
           in (m\<lparr>hm_hold := hold, hm_metrics := mt2\<rparr>, [(CallWithdraw, True)])
         else (m\<lparr>hm_metrics := mt1\<rparr>, [(CallWithdraw, True)])
   | StateHealthy \<Rightarrow>
       if err then (m\<lparr>hm_state := from, hm_metrics := mt\<lparr>hx_AdvertiseErrs := Suc (hx_AdvertiseErrs mt)\<rparr>\<rparr>,
                    [(CallAdvertise, False)])
       else (m\<lparr>hm_healthySince := now, hm_metrics := mt\<lparr>hx_Advertisements := Suc (hx_Advertisements mt)\<rparr>\<rparr>,
             [(CallAdvertise, True)])
   | StateStarting \<Rightarrow> (m, []))"

definition hm_evaluate :: "hoptions \<Rightarrow> (string \<times> string option) list \<Rightarrow> gtime \<Rightarrow> gtime \<Rightarrow> bool \<Rightarrow> monitor
    \<Rightarrow> monitor \<times> (acall \<times> bool) list" where
  "hm_evaluate opts checks now1 now2 err m0 =
     (let failures = runChecks checks;
          mt = hm_metrics m0;
          mt1 = mt\<lparr>hx_Checks := Suc (hx_Checks mt)\<rparr>;
          mt2 = (if length failures > 0 then mt1\<lparr>hx_CheckFailures := Suc (hx_CheckFailures mt1)\<rparr> else mt1);
          m1 = m0\<lparr>hm_lastFailures := failures, hm_metrics := mt2\<rparr>;
          m2 = (if length failures = 0 then m1\<lparr>hm_consecOK := hm_consecOK m1 + 1, hm_consecFail := 0\<rparr>
                else m1\<lparr>hm_consecFail := hm_consecFail m1 + 1, hm_consecOK := 0\<rparr>);
          want = (if hm_consecFail m2 \<ge> ho_FailureThreshold opts \<and> hm_state m2 \<noteq> StateUnhealthy then StateUnhealthy
                  else if hm_consecOK m2 \<ge> ho_SuccessThreshold opts \<and> hm_state m2 \<noteq> StateHealthy
                    then (if readyToReadvertise now1 m2 then StateHealthy else hm_state m2)
                  else hm_state m2);
          from = hm_state m2
      in if want = from then (m2, [])
         else
           let m3 = m2\<lparr>hm_state := want\<rparr>;
               m4 = (if want = StateUnhealthy then m3\<lparr>hm_withdrawnAt := now1\<rparr> else m3)
           in hm_apply opts from want now2 err m4)"

definition shutdownWithdraw :: "bool \<Rightarrow> monitor \<Rightarrow> monitor \<times> (acall \<times> bool) list" where
  "shutdownWithdraw err m =
     (let advertising = (hm_state m = StateHealthy); m1 = m\<lparr>hm_state := StateUnhealthy\<rparr>; mt = hm_metrics m1 in
      if \<not> advertising then (m1, [])
      else if err then (m1\<lparr>hm_metrics := mt\<lparr>hx_AdvertiseErrs := Suc (hx_AdvertiseErrs mt)\<rparr>\<rparr>, [(CallWithdraw, False)])
      else (m1\<lparr>hm_metrics := mt\<lparr>hx_Withdrawals := Suc (hx_Withdrawals mt)\<rparr>\<rparr>, [(CallWithdraw, True)]))"

section \<open>Runs\<close>

text \<open>The trace holds every call with the two clock readings of the round that made it,
  latest first. The clock does not run backwards and has left Go's zero time.\<close>

type_synonym htrace = "(gtime \<times> gtime \<times> acall \<times> bool) list"

inductive hm_run :: "hoptions \<Rightarrow> gtime \<Rightarrow> htrace \<Rightarrow> monitor \<Rightarrow> bool" for opts where
  hm_start: "hm_New o0 = Inr (opts, m) \<Longrightarrow> hm_run opts 0 [] m"
| hm_round: "hm_run opts t tr m \<Longrightarrow> t \<le> now1 \<Longrightarrow> 0 < now1 \<Longrightarrow> now1 \<le> now2 \<Longrightarrow>
     hm_evaluate opts checks now1 now2 err m = (m', calls) \<Longrightarrow>
     hm_run opts now2 (map (\<lambda>(c, ok). (now1, now2, c, ok)) calls @ tr) m'"

text \<open>The ways a round can end.\<close>

lemma evaluate_cases:
  assumes e: "hm_evaluate opts checks now1 now2 err m = (m', calls)"
    and pos: "0 < ho_FailureThreshold opts" "0 < ho_SuccessThreshold opts"
  shows "calls = [] \<and> hm_state m' = hm_state m \<and> hm_hold m' = hm_hold m \<and> hm_withdrawnAt m' = hm_withdrawnAt m
        \<and> hm_healthySince m' = hm_healthySince m
    \<or> calls = [(CallWithdraw, \<not> err)] \<and> hm_state m \<noteq> StateUnhealthy \<and> hm_state m' = StateUnhealthy
        \<and> hm_withdrawnAt m' = now1 \<and> runChecks checks \<noteq> [] \<and> hm_consecFail m + 1 \<ge> ho_FailureThreshold opts
        \<and> hm_healthySince m' = hm_healthySince m
        \<and> hm_hold m' = (if \<not> err \<and> hm_state m = StateHealthy
             then if hm_healthySince m \<noteq> 0 \<and> ho_StableAfter opts \<le> time_Sub now2 (hm_healthySince m) then ho_MinHold opts
                  else min (int64_wrap (hm_hold m * 2)) (ho_MaxHold opts)
             else hm_hold m)
    \<or> calls = [(CallAdvertise, \<not> err)] \<and> hm_state m \<noteq> StateHealthy
        \<and> hm_state m' = (if err then hm_state m else StateHealthy)
        \<and> hm_withdrawnAt m' = hm_withdrawnAt m \<and> hm_hold m' = hm_hold m \<and> runChecks checks = []
        \<and> hm_healthySince m' = (if err then hm_healthySince m else now2)
        \<and> hm_consecOK m + 1 \<ge> ho_SuccessThreshold opts \<and> readyToReadvertise now1 m"
proof (cases "runChecks checks = []")
  case True
  have r: "readyToReadvertise now1 (m\<lparr>hm_lastFailures := fs, hm_metrics := x, hm_consecOK := a, hm_consecFail := b\<rparr>)
      = readyToReadvertise now1 m" for fs x a b by (simp add: readyToReadvertise_def)
  show ?thesis
  proof (cases "ho_SuccessThreshold opts \<le> hm_consecOK m + 1 \<and> hm_state m \<noteq> StateHealthy \<and> readyToReadvertise now1 m")
    case go: True
    with True e pos show ?thesis by (cases err) (auto simp: hm_evaluate_def hm_apply_def r Let_def)
  next
    case False
    with True e pos show ?thesis by (simp add: hm_evaluate_def r Let_def split: if_splits) auto
  qed
next
  case False
  show ?thesis
  proof (cases "ho_FailureThreshold opts \<le> hm_consecFail m + 1 \<and> hm_state m \<noteq> StateUnhealthy")
    case go: True
    with False e pos show ?thesis
      by (cases err; cases "hm_state m") (auto simp: hm_evaluate_def hm_apply_def min_def Let_def)
  next
    case stay: False
    with False e pos show ?thesis by (simp add: hm_evaluate_def Let_def split: if_splits) auto
  qed
qed

section \<open>The hold-down a history owes\<close>

text \<open>What the documentation of the package promises, as a function of the calls alone:
  the hold-down starts at \<open>MinHold\<close>; a withdrawal that ends a period of service
  doubles it up to \<open>MaxHold\<close>, or resets it to \<open>MinHold\<close> when the period lasted
  \<open>StableAfter\<close>. A node is in service when its last call was a successful advertisement.\<close>

definition up_since :: "htrace \<Rightarrow> gtime option" where
  "up_since tr = (case tr of [] \<Rightarrow> None | (_, u, c, ok) # _ \<Rightarrow> if c = CallAdvertise \<and> ok then Some u else None)"

fun owed :: "hoptions \<Rightarrow> htrace \<Rightarrow> duration" where
  "owed opts [] = ho_MinHold opts"
| "owed opts ((_, now, c, ok) # tr) = (if c = CallWithdraw \<and> ok then
     (case up_since tr of None \<Rightarrow> owed opts tr
      | Some u \<Rightarrow> if ho_StableAfter opts \<le> time_Sub now u then ho_MinHold opts
                  else min (2 * owed opts tr) (ho_MaxHold opts))
     else owed opts tr)"

definition h_opts_ok :: "hoptions \<Rightarrow> bool" where
  "h_opts_ok opts \<longleftrightarrow> 0 < ho_FailureThreshold opts \<and> 0 < ho_SuccessThreshold opts
     \<and> 0 < ho_MinHold opts \<and> 0 < ho_MaxHold opts"

definition least_hold :: "hoptions \<Rightarrow> duration" where
  "least_hold opts = min (ho_MinHold opts) (ho_MaxHold opts)"

definition most_hold :: "hoptions \<Rightarrow> duration" where
  "most_hold opts = max (ho_MinHold opts) (ho_MaxHold opts)"

lemma fill_ok: "h_opts_ok (ho_fill o0)"
  by (simp add: h_opts_ok_def ho_fill_def minute_def second_def Let_def)

lemma hm_New_ok: "hm_New o0 = Inr (opts, m) \<Longrightarrow> h_opts_ok opts \<and> hm_hold m = ho_MinHold opts
    \<and> hm_state m = StateStarting \<and> hm_withdrawnAt m = 0"
  using fill_ok by (auto simp: hm_New_def Let_def split: if_splits)

lemma owed_bounds: "h_opts_ok opts \<Longrightarrow> least_hold opts \<le> owed opts tr \<and> owed opts tr \<le> most_hold opts"
  by (induction opts tr rule: owed.induct) (auto simp: least_hold_def most_hold_def h_opts_ok_def min_def split: option.splits)

section \<open>The invariant\<close>

text \<open>The monitor's fields are what the trace says: its hold is the one owed, it is healthy
  exactly while in service, and no withdrawal is later than \<open>withdrawnAt\<close>.\<close>

definition trace_ok :: "hoptions \<Rightarrow> gtime \<Rightarrow> htrace \<Rightarrow> monitor \<Rightarrow> bool" where
  "trace_ok opts t tr m \<longleftrightarrow>
     (\<forall>(u, v, c, ok) \<in> set tr. 0 < u \<and> u \<le> t \<and> (c = CallWithdraw \<longrightarrow> u \<le> hm_withdrawnAt m))
     \<and> hm_withdrawnAt m \<le> t \<and> 0 \<le> hm_withdrawnAt m \<and> hm_hold m = owed opts tr
     \<and> (case up_since tr of None \<Rightarrow> hm_state m \<noteq> StateHealthy
         | Some u \<Rightarrow> hm_state m = StateHealthy \<and> hm_healthySince m = u \<and> 0 < u)"

lemma wrap_double: "0 < h \<Longrightarrow> h < 2 ^ 62 \<Longrightarrow> int64_wrap (h * 2) = 2 * h"
  by (simp add: int64_wrap_id mult.commute)

lemma trace_ok_round:
  assumes ok: "h_opts_ok opts" "trace_ok opts t tr m" "most_hold opts < 2 ^ 62"
    and t: "t \<le> now1" "0 < now1" "now1 \<le> now2"
    and e: "hm_evaluate opts checks now1 now2 err m = (m', calls)"
  shows "trace_ok opts now2 (map (\<lambda>(c, ok). (now1, now2, c, ok)) calls @ tr) m'"
proof -
  have b: "0 < owed opts tr" "owed opts tr < 2 ^ 62"
    using owed_bounds [OF ok(1), of tr] ok(1,3) by (auto simp: h_opts_ok_def least_hold_def)
  have w: "int64_wrap (hm_hold m * 2) = 2 * owed opts tr" using wrap_double [OF b] ok(2) by (simp add: trace_ok_def)
  have p: "0 < ho_FailureThreshold opts" "0 < ho_SuccessThreshold opts" using ok(1) by (simp_all add: h_opts_ok_def)
  from evaluate_cases [OF e p] show ?thesis
  proof (elim disjE)
    assume "calls = [] \<and> hm_state m' = hm_state m \<and> hm_hold m' = hm_hold m \<and> hm_withdrawnAt m' = hm_withdrawnAt m
        \<and> hm_healthySince m' = hm_healthySince m"
    then show ?thesis using ok(2) t by (fastforce simp: trace_ok_def split: option.splits)
  qed (use ok(2) t w in \<open>force simp: trace_ok_def up_since_def split: option.splits\<close>)+
qed

lemma run_ok:
  assumes "hm_run opts t tr m" "most_hold opts < 2 ^ 62"
  shows "h_opts_ok opts \<and> trace_ok opts t tr m"
  using assms
proof (induction rule: hm_run.induct)
  case (hm_start o0 m)
  then show ?case using hm_New_ok [of o0 opts m] by (simp add: trace_ok_def up_since_def)
next
  case (hm_round t tr m now1 now2 checks err m' calls)
  then show ?case using trace_ok_round [of opts t tr m now1 now2 checks err m' calls] by simp
qed

section \<open>Properties\<close>

definition held :: "hoptions \<Rightarrow> htrace \<Rightarrow> bool" where
  "held opts tr \<longleftrightarrow> (\<forall>xs t2 u2 ok2 ys t1 u1 ok1. tr = xs @ (t2, u2, CallAdvertise, ok2) # ys
     \<and> (t1, u1, CallWithdraw, ok1) \<in> set ys \<longrightarrow> owed opts ys \<le> t2 - t1)"

lemma held_Cons:
  assumes "held opts tr"
    and "c = CallAdvertise \<Longrightarrow> \<forall>(u, v, c', ok') \<in> set tr. c' = CallWithdraw \<longrightarrow> owed opts tr \<le> t - u"
  shows "held opts ((t, v, c, ok) # tr)"
  unfolding held_def
proof (intro allI impI, elim conjE)
  fix xs t2 u2 ok2 ys t1 u1 ok1
  assume s: "(t, v, c, ok) # tr = xs @ (t2, u2, CallAdvertise, ok2) # ys" and w: "(t1, u1, CallWithdraw, ok1) \<in> set ys"
  show "owed opts ys \<le> t2 - t1"
  proof (cases xs)
    case Nil
    then show ?thesis using s w assms(2) by auto
  next
    case (Cons x xs')
    then have "tr = xs' @ (t2, u2, CallAdvertise, ok2) # ys" using s by simp
    then show ?thesis using assms(1) w unfolding held_def by blast
  qed
qed

lemma run_held:
  assumes "hm_run opts t tr m" "most_hold opts < 2 ^ 62"
  shows "held opts tr"
  using assms
proof (induction rule: hm_run.induct)
  case (hm_start o0 m)
  then show ?case by (simp add: held_def)
next
  case (hm_round t tr m now1 now2 checks err m' calls)
  have ok: "h_opts_ok opts" "trace_ok opts t tr m"
    using run_ok [OF hm_round.hyps(1) hm_round.prems] by simp_all
  have old: "held opts tr" using hm_round by simp
  have adv: "\<forall>(u, v, c', ok') \<in> set tr. c' = CallWithdraw \<longrightarrow> owed opts tr \<le> now1 - u"
    if r: "readyToReadvertise now1 m"
  proof clarify
    fix u v b assume u: "(u, v, CallWithdraw, b) \<in> set tr"
    then have u': "0 < u" "u \<le> hm_withdrawnAt m" using ok(2) by (auto simp: trace_ok_def)
    then have "owed opts tr \<le> time_Sub now1 (hm_withdrawnAt m)" using r ok(2) by (simp add: readyToReadvertise_def trace_ok_def)
    also have "\<dots> \<le> now1 - hm_withdrawnAt m"
      using ok(2) hm_round.hyps(2) by (intro time_Sub_le) (simp add: trace_ok_def)
    finally show "owed opts tr \<le> now1 - u" using u'(2) by simp
  qed
  have "held opts ((now1, now2, CallWithdraw, b) # tr)" for b by (rule held_Cons [OF old]) simp
  moreover have "held opts ((now1, now2, CallAdvertise, b) # tr)" if "readyToReadvertise now1 m" for b
    using adv [OF that] by (intro held_Cons [OF old])
  ultimately show ?case using evaluate_cases [OF hm_round.hyps(5)] ok(1) old by (auto simp: h_opts_ok_def)
qed

text \<open>C26. Withdrawal is damped: in every run, whatever the checks and the routing daemon do, an
  advertisement never follows an earlier withdrawal by less than the hold-down the calls before it
  owe: \<open>MinHold\<close> at first, doubled up to \<open>MaxHold\<close> by every withdrawal that ends a
  period of service shorter than \<open>StableAfter\<close>, back to \<open>MinHold\<close> after a longer one. The
  monitor's hold is exactly the one owed and stays between \<open>MinHold\<close> and \<open>MaxHold\<close>. Both are
  assumed below \<open>2 ^ 62\<close> nanoseconds, so that doubling does not wrap.\<close>

theorem readvertise_after_hold:
  assumes "hm_run opts t tr m" and "most_hold opts < 2 ^ 62"
  shows "(\<forall>xs t2 u2 ok2 ys t1 u1 ok1. tr = xs @ (t2, u2, CallAdvertise, ok2) # ys
       \<and> (t1, u1, CallWithdraw, ok1) \<in> set ys \<longrightarrow> owed opts ys \<le> t2 - t1)
    \<and> hm_hold m = owed opts tr
    \<and> min (ho_MinHold opts) (ho_MaxHold opts) \<le> hm_hold m \<and> hm_hold m \<le> max (ho_MinHold opts) (ho_MaxHold opts)"
  using run_held [OF assms] run_ok [OF assms] owed_bounds [of opts tr]
  by (simp add: held_def trace_ok_def least_hold_def most_hold_def)

definition test_hopts :: hoptions where
  "test_hopts = \<lparr>ho_Checks = 1, ho_Advertiser = True, ho_Interval = 0, ho_Timeout = 0, ho_FailureThreshold = 1,
     ho_SuccessThreshold = 1, ho_MinHold = 10, ho_MaxHold = 40, ho_StableAfter = 0\<rparr>"

definition test_monitor :: monitor where
  "test_monitor = snd (projr (hm_New test_hopts))"

definition passing :: "(string \<times> string option) list" where "passing = [(''probe'', None)]"
definition failing :: "(string \<times> string option) list" where "failing = [(''probe'', Some ''timeout'')]"

lemma test_New: "hm_New test_hopts = Inr (ho_fill test_hopts, test_monitor)"
  by (simp add: test_monitor_def hm_New_def test_hopts_def Let_def)

text \<open>Up at 5, down at 20, which doubles the hold-down of 10, and up again at 45.\<close>

definition test_trace :: htrace where
  "test_trace = [(45, 45, CallAdvertise, True), (20, 20, CallWithdraw, True), (5, 5, CallAdvertise, True)]"

lemma test_run:
  "\<exists>m. hm_run (ho_fill test_hopts) 45 test_trace m"
proof -
  let ?o = "ho_fill test_hopts"
  define s1 where "s1 = hm_evaluate ?o passing 5 5 False test_monitor"
  define s2 where "s2 = hm_evaluate ?o failing 20 20 False (fst s1)"
  define s3 where "s3 = hm_evaluate ?o passing 45 45 False (fst s2)"
  have c: "snd s1 = [(CallAdvertise, True)]" "snd s2 = [(CallWithdraw, True)]" "snd s3 = [(CallAdvertise, True)]"
    unfolding s3_def s2_def s1_def by code_simp+
  have "hm_run ?o 5 (map (\<lambda>(c, ok). (5, 5, c, ok)) [(CallAdvertise, True)] @ []) (fst s1)"
    by (rule hm_round [OF hm_start [OF test_New]]) (use c in \<open>simp_all add: s1_def prod_eq_iff\<close>)
  then have "hm_run ?o 20 (map (\<lambda>(c, ok). (20, 20, c, ok)) [(CallWithdraw, True)] @ map (\<lambda>(c, ok). (5, 5, c, ok)) [(CallAdvertise, True)] @ []) (fst s2)"
    by (rule hm_round) (use c in \<open>simp_all add: s2_def prod_eq_iff\<close>)
  then have "hm_run ?o 45 (map (\<lambda>(c, ok). (45, 45, c, ok)) [(CallAdvertise, True)] @ map (\<lambda>(c, ok). (20, 20, c, ok)) [(CallWithdraw, True)]
      @ map (\<lambda>(c, ok). (5, 5, c, ok)) [(CallAdvertise, True)] @ []) (fst s3)"
    by (rule hm_round) (use c in \<open>simp_all add: s3_def prod_eq_iff\<close>)
  then show ?thesis by (auto simp: test_trace_def)
qed

theorem readvertise_after_hold_witness:
  "\<exists>m. hm_run (ho_fill test_hopts) 45 test_trace m \<and> most_hold (ho_fill test_hopts) < 2 ^ 62
    \<and> owed (ho_fill test_hopts) (tl test_trace) = 20 \<and> (20 :: int) \<le> 45 - 20 \<and> hm_hold m = 20"
proof -
  have o: "most_hold (ho_fill test_hopts) < 2 ^ 62" "owed (ho_fill test_hopts) (tl test_trace) = 20"
    "owed (ho_fill test_hopts) test_trace = 20" by code_simp+
  obtain m where m: "hm_run (ho_fill test_hopts) 45 test_trace m" using test_run by blast
  have "test_trace = [] @ (45, 45, CallAdvertise, True) # tl test_trace" "(20, 20, CallWithdraw, True) \<in> set (tl test_trace)"
    by (simp_all add: test_trace_def)
  with readvertise_after_hold [OF m o(1)] have "owed (ho_fill test_hopts) (tl test_trace) \<le> 45 - 20" "hm_hold m = 20"
    unfolding o(3) by blast+
  with m o show ?thesis by auto
qed

fun failing_rounds :: "hoptions \<Rightarrow> ((string \<times> string option) list \<times> gtime \<times> gtime \<times> bool) list \<Rightarrow> monitor
    \<Rightarrow> monitor \<times> (acall \<times> bool) list" where
  "failing_rounds opts [] m = (m, [])"
| "failing_rounds opts ((checks, n1, n2, err) # rs) m =
     (let (m1, c1) = hm_evaluate opts checks n1 n2 err m; (m2, c2) = failing_rounds opts rs m1 in (m2, c1 @ c2))"

lemma evaluate_failing:
  assumes "runChecks checks \<noteq> []" "0 < ho_FailureThreshold opts" "0 < ho_SuccessThreshold opts"
    and e: "hm_evaluate opts checks n1 n2 err m = (m', calls)"
  shows "hm_consecFail m' = hm_consecFail m + 1"
    and "hm_state m = StateUnhealthy \<Longrightarrow> hm_state m' = StateUnhealthy \<and> calls = []"
    and "hm_state m \<noteq> StateUnhealthy \<Longrightarrow> hm_consecFail m + 1 \<ge> ho_FailureThreshold opts \<Longrightarrow>
      hm_state m' = StateUnhealthy \<and> calls = [(CallWithdraw, \<not> err)]"
  using assms by (auto simp: hm_evaluate_def hm_apply_def Let_def split: if_splits)

lemma failing_stays:
  "\<forall>(checks, _) \<in> set rs. runChecks checks \<noteq> [] \<Longrightarrow> 0 < ho_FailureThreshold opts \<Longrightarrow> 0 < ho_SuccessThreshold opts \<Longrightarrow>
   hm_state m = StateUnhealthy \<Longrightarrow> hm_state (fst (failing_rounds opts rs m)) = StateUnhealthy \<and> snd (failing_rounds opts rs m) = []"
proof (induction rs arbitrary: m)
  case (Cons r rs)
  obtain checks n1 n2 err where r: "r = (checks, n1, n2, err)" by (metis prod_cases4)
  obtain m' calls where e: "hm_evaluate opts checks n1 n2 err m = (m', calls)" by fastforce
  have "hm_state m' = StateUnhealthy \<and> calls = []" using evaluate_failing(2) [OF _ _ _ e] Cons.prems r by auto
  with Cons.IH [of m'] Cons.prems e r show ?case by (auto simp: split_beta)
qed simp

lemma failing_withdraws:
  "\<forall>(checks, _) \<in> set rs. runChecks checks \<noteq> [] \<Longrightarrow> 0 < ho_FailureThreshold opts \<Longrightarrow> 0 < ho_SuccessThreshold opts \<Longrightarrow>
   ho_FailureThreshold opts \<le> hm_consecFail m + int (length rs) \<Longrightarrow> rs \<noteq> [] \<Longrightarrow>
   hm_state (fst (failing_rounds opts rs m)) = StateUnhealthy
   \<and> (hm_state m \<noteq> StateUnhealthy \<longrightarrow> CallWithdraw \<in> fst ` set (snd (failing_rounds opts rs m)))"
proof (induction rs arbitrary: m)
  case (Cons r rs)
  obtain checks n1 n2 err where r: "r = (checks, n1, n2, err)" by (metis prod_cases4)
  obtain m' calls where e: "hm_evaluate opts checks n1 n2 err m = (m', calls)" by fastforce
  have f: "runChecks checks \<noteq> []" using Cons.prems r by auto
  note E = evaluate_failing [OF f Cons.prems(2,3) e]
  have fr: "failing_rounds opts (r # rs) m = (fst (failing_rounds opts rs m'), calls @ snd (failing_rounds opts rs m'))"
    by (simp add: r e split_beta)
  show ?case
  proof (cases "hm_state m' = StateUnhealthy")
    case True
    have "hm_state m \<noteq> StateUnhealthy \<Longrightarrow> CallWithdraw \<in> fst ` set calls"
      using True f evaluate_cases [OF e Cons.prems(2,3)] by auto
    then show ?thesis using failing_stays [of rs opts m'] Cons.prems True by (auto simp: fr)
  next
    case False
    then have "hm_state m \<noteq> StateUnhealthy" using E(2) by blast
    then have s: "rs \<noteq> []" using E(3) False Cons.prems(4) by (intro notI) simp
    have "hm_state (fst (failing_rounds opts rs m')) = StateUnhealthy
        \<and> (hm_state m' \<noteq> StateUnhealthy \<longrightarrow> CallWithdraw \<in> fst ` set (snd (failing_rounds opts rs m')))"
      using Cons.IH [of m'] Cons.prems E(1) s by simp
    then show ?thesis using False by (auto simp: fr)
  qed
qed simp

lemma run_opts: "hm_run opts t tr m \<Longrightarrow> h_opts_ok opts \<and> 0 \<le> hm_consecFail m"
proof (induction rule: hm_run.induct)
  case (hm_start o0 m)
  then show ?case using fill_ok by (auto simp: hm_New_def Let_def split: if_splits)
next
  case (hm_round t tr m now1 now2 checks err m' calls)
  then show ?case by (auto simp: hm_evaluate_def hm_apply_def Let_def split: if_splits)
qed

text \<open>Failure is acted on at once: in every run, after \<open>FailureThreshold\<close> failing rounds
  in a row, at any times and whatever the routing daemon answers, the monitor is
  unhealthy, and it called \<open>Withdraw\<close> during them unless it already was.\<close>

theorem failures_withdraw:
  assumes "hm_run opts t tr m" and "\<forall>(checks, _) \<in> set rs. runChecks checks \<noteq> []"
    and "ho_FailureThreshold opts \<le> int (length rs)"
  shows "hm_state (fst (failing_rounds opts rs m)) = StateUnhealthy
    \<and> (hm_state m \<noteq> StateUnhealthy \<longrightarrow> CallWithdraw \<in> fst ` set (snd (failing_rounds opts rs m)))"
proof -
  have ok: "0 < ho_FailureThreshold opts" "0 < ho_SuccessThreshold opts" "0 \<le> hm_consecFail m"
    using run_opts [OF assms(1)] by (simp_all add: h_opts_ok_def)
  moreover have "rs \<noteq> []" using ok(1) assms(3) by auto
  ultimately show ?thesis using failing_withdraws [OF assms(2) ok(1,2)] assms(3) by simp
qed

theorem failures_withdraw_witness:
  "hm_run (ho_fill test_hopts) 0 [] test_monitor
   \<and> CallWithdraw \<in> fst ` set (snd (failing_rounds (ho_fill test_hopts) [(failing, 1, 1, True)] test_monitor))"
proof -
  have r: "hm_run (ho_fill test_hopts) 0 [] test_monitor" by (rule hm_start [OF test_New])
  have "hm_state test_monitor \<noteq> StateUnhealthy" "runChecks failing \<noteq> []" "ho_FailureThreshold (ho_fill test_hopts) = 1"
    by code_simp+
  with failures_withdraw [OF r, of "[(failing, 1, 1, True)]"] r show ?thesis by (auto simp del: failing_rounds.simps)
qed

text \<open>The routing daemon's view: the last call that succeeded.\<close>

fun advertised :: "htrace \<Rightarrow> bool" where
  "advertised [] = False"
| "advertised ((_, _, c, ok) # tr) = (if ok then c = CallAdvertise else advertised tr)"

text \<open>The monitor's state is the routing state as long as no withdrawal failed: then, in
  every run, the node is advertised exactly when its state is healthy, so a starting
  node is never advertised and a failed advertisement is not mistaken for one.\<close>

theorem state_matches_routing:
  assumes "hm_run opts t tr m" and "\<forall>(u, v, c, ok) \<in> set tr. c = CallWithdraw \<longrightarrow> ok"
  shows "advertised tr \<longleftrightarrow> hm_state m = StateHealthy"
  using assms
proof (induction rule: hm_run.induct)
  case (hm_start o0 m)
  then show ?case by (auto dest: hm_New_ok)
next
  case (hm_round t tr m now1 now2 checks err m' calls)
  have "h_opts_ok opts" using run_opts [OF hm_round.hyps(1)] by simp
  then show ?case
    using evaluate_cases [OF hm_round.hyps(5)] hm_round.IH hm_round.prems by (auto simp: h_opts_ok_def)
qed

theorem state_matches_routing_witness:
  "\<exists>m. hm_run (ho_fill test_hopts) 45 test_trace m
    \<and> hm_state m = StateHealthy"
proof -
  obtain m where m: "hm_run (ho_fill test_hopts) 45
      test_trace m" using test_run by blast
  with state_matches_routing [OF m] show ?thesis by (auto simp: test_trace_def)
qed

text \<open>A failed withdrawal is final: when the round that turns the node unhealthy gets an
  error from \<open>Withdraw\<close>, no later failing round calls \<open>Withdraw\<close> again, and
  neither does the shutdown, so the prefix stays advertised by an unhealthy or a
  stopped node.\<close>

theorem failed_withdraw_not_retried:
  assumes "hm_run opts t tr m" and "hm_evaluate opts checks now1 now2 True m = (m', [(CallWithdraw, False)])"
    and "\<forall>(cs, _) \<in> set rs. runChecks cs \<noteq> []"
  shows "snd (failing_rounds opts rs m') = [] \<and> snd (shutdownWithdraw err (fst (failing_rounds opts rs m'))) = []"
proof -
  have ok: "0 < ho_FailureThreshold opts" "0 < ho_SuccessThreshold opts"
    using run_opts [OF assms(1)] by (simp_all add: h_opts_ok_def)
  then have "hm_state m' = StateUnhealthy" using evaluate_cases [OF assms(2)] by auto
  then show ?thesis using failing_stays [OF assms(3) ok] by (simp add: shutdownWithdraw_def Let_def)
qed

theorem failed_withdraw_not_retried_witness:
  "snd (hm_evaluate (ho_fill test_hopts) failing 1 1 True test_monitor) = [(CallWithdraw, False)]
   \<and> snd (failing_rounds (ho_fill test_hopts) [(failing, 2, 2, False), (failing, 3, 3, False)]
        (fst (hm_evaluate (ho_fill test_hopts) failing 1 1 True test_monitor))) = []"
proof -
  have r: "hm_run (ho_fill test_hopts) 0 [] test_monitor" by (rule hm_start [OF test_New])
  have c: "snd (hm_evaluate (ho_fill test_hopts) failing 1 1 True test_monitor) = [(CallWithdraw, False)]" "runChecks failing \<noteq> []"
    by code_simp+
  then have "hm_evaluate (ho_fill test_hopts) failing 1 1 True test_monitor
      = (fst (hm_evaluate (ho_fill test_hopts) failing 1 1 True test_monitor), [(CallWithdraw, False)])"
    by (simp add: prod_eq_iff)
  from failed_withdraw_not_retried [OF r this, of "[(failing, 2, 2, False), (failing, 3, 3, False)]"] c
  show ?thesis by (simp del: failing_rounds.simps)
qed

end
