(* ===== verification/Control_Store.thy ===== *)
theory Control_Store
  imports Prelude "HOL-Library.Finite_Map" "HOL-Library.Product_Lexorder"
begin

text \<open>
  \<open>internal/control/store.go\<close>: the replicated control-plane store of a node,
  a last-write-wins map ordered by Lamport time and node name. JSON encoding
  of a payload or of the whole store, and SHA-256, are parameters; the clock
  is an argument. Lamport times and versions keep their 64 bits. Each
  operation holds the store's lock and is one transition; the condition
  variable that wakes a waiting flusher has no state of its own. Go iterates
  a map in any order and then sorts by ID, so the enumeration starts from the
  key order. A write to disk ends in one of the outcomes of \<open>flush_io\<close>.
\<close>

type_synonym u64 = "64 word"
type_synonym record_kind = "8 word"

definition KindSubscriber :: record_kind where "KindSubscriber = 1"
definition KindOverride :: record_kind where "KindOverride = 2"
definition KindFeed :: record_kind where "KindFeed = 3"
definition KindClass :: record_kind where "KindClass = 4"
definition KindToken :: record_kind where "KindToken = 5"
definition KindUser :: record_kind where "KindUser = 6"

definition kind_String :: "record_kind \<Rightarrow> string" where
  "kind_String k = (if k = KindSubscriber then ''subscriber'' else if k = KindOverride then ''override''
     else if k = KindFeed then ''feed'' else if k = KindClass then ''class''
     else if k = KindToken then ''token'' else if k = KindUser then ''user'' else ''unknown'')"

record crecord =
  cr_Kind :: record_kind
  cr_Key :: string
  cr_Lamport :: u64
  cr_Origin :: string
  cr_Deleted :: bool
  cr_Updated :: gtime
  cr_Payload :: string

text \<open>The decimal digits \<open>%d\<close> prints.\<close>

fun decimal :: "nat \<Rightarrow> string" where
  "decimal n = (if n < 10 then [char_of (48 + n)] else decimal (n div 10) @ [char_of (48 + n mod 10)])"

declare decimal.simps [simp del]

definition make_ID :: "record_kind \<Rightarrow> string \<Rightarrow> string" where
  "make_ID k key = decimal (unat k) @ '':'' @ key"

definition cr_ID :: "crecord \<Rightarrow> string" where
  "cr_ID r = make_ID (cr_Kind r) (cr_Key r)"

definition newerThan :: "crecord \<Rightarrow> crecord \<Rightarrow> bool" where
  "newerThan r other = (if cr_Lamport r \<noteq> cr_Lamport other then cr_Lamport r > cr_Lamport other
     else cr_Origin r > cr_Origin other)"

record digest =
  dg_Kind :: record_kind
  dg_Key :: string
  dg_Lamport :: u64
  dg_Origin :: string

definition TombstoneTTL :: duration where
  "TombstoneTTL = 7 * 24 * 3600 * second"

record store =
  st_records :: "(string, crecord) fmap"
  st_lamport :: u64
  st_nodeID :: string
  st_path :: string
  st_version :: u64
  st_dirty :: bool

datatype store_error = NodeIDRequired | ReadFailed | ParseFailed | EncodeFailed | MkdirFailed | WriteFailed | RenameFailed

datatype read_result = NotExist | ReadErr | Contents string

definition store_Open :: "(string \<Rightarrow> crecord list option) \<Rightarrow> string \<Rightarrow> string \<Rightarrow> read_result \<Rightarrow> store_error + store" where
  "store_Open unmarshal nodeID path file =
     (if nodeID = [] then Inl NodeIDRequired
      else let s = \<lparr>st_records = fmempty, st_lamport = 0, st_nodeID = nodeID, st_path = path, st_version = 0, st_dirty = False\<rparr> in
      if path = [] then Inr s
      else case file of
          NotExist \<Rightarrow> Inr s
        | ReadErr \<Rightarrow> Inl ReadFailed
        | Contents raw \<Rightarrow> (case unmarshal raw of
            None \<Rightarrow> Inl ParseFailed
          | Some rs \<Rightarrow> Inr (foldl (\<lambda>s r.
              let s1 = s\<lparr>st_records := fmupd (cr_ID r) r (st_records s)\<rparr>
              in if cr_Lamport r > st_lamport s1 then s1\<lparr>st_lamport := cr_Lamport r\<rparr> else s1) s rs)))"

definition bump :: "store \<Rightarrow> store" where
  "bump s = s\<lparr>st_version := st_version s + 1, st_dirty := True\<rparr>"

definition store_Put :: "gtime \<Rightarrow> record_kind \<Rightarrow> string \<Rightarrow> string option \<Rightarrow> store \<Rightarrow> (store_error + crecord) \<times> store" where
  "store_Put now kind key payload s = (case payload of
       None \<Rightarrow> (Inl EncodeFailed, s)
     | Some raw \<Rightarrow>
         let s1 = s\<lparr>st_lamport := st_lamport s + 1\<rparr>;
             r = \<lparr>cr_Kind = kind, cr_Key = key, cr_Lamport = st_lamport s1, cr_Origin = st_nodeID s1,
                  cr_Deleted = False, cr_Updated = now, cr_Payload = raw\<rparr>
         in (Inr r, bump (s1\<lparr>st_records := fmupd (cr_ID r) r (st_records s1)\<rparr>)))"

definition store_Delete :: "gtime \<Rightarrow> record_kind \<Rightarrow> string \<Rightarrow> store \<Rightarrow> crecord \<times> store" where
  "store_Delete now kind key s =
     (let s1 = s\<lparr>st_lamport := st_lamport s + 1\<rparr>;
          r = \<lparr>cr_Kind = kind, cr_Key = key, cr_Lamport = st_lamport s1, cr_Origin = st_nodeID s1,
               cr_Deleted = True, cr_Updated = now, cr_Payload = []\<rparr>
      in (r, bump (s1\<lparr>st_records := fmupd (cr_ID r) r (st_records s1)\<rparr>)))"

definition merge_one :: "store \<times> nat \<Rightarrow> crecord \<Rightarrow> store \<times> nat" where
  "merge_one = (\<lambda>(s, adopted) r.
     let s1 = (if cr_Lamport r > st_lamport s then s\<lparr>st_lamport := cr_Lamport r\<rparr> else s) in
     case fmlookup (st_records s1) (cr_ID r) of
       Some existing \<Rightarrow> if \<not> newerThan r existing then (s1, adopted)
         else (s1\<lparr>st_records := fmupd (cr_ID r) r (st_records s1)\<rparr>, Suc adopted)
     | None \<Rightarrow> (s1\<lparr>st_records := fmupd (cr_ID r) r (st_records s1)\<rparr>, Suc adopted))"

definition store_Merge :: "crecord list \<Rightarrow> store \<Rightarrow> nat \<times> store" where
  "store_Merge incoming s =
     (let (s1, adopted) = foldl merge_one (s, 0) incoming
      in (adopted, if adopted > 0 then bump s1 else s1))"

definition all_records :: "store \<Rightarrow> crecord list" where
  "all_records s = map (\<lambda>id. the (fmlookup (st_records s) id)) (sorted_list_of_fset (fmdom (st_records s)))"

definition Digests :: "store \<Rightarrow> digest list" where
  "Digests s = sort_key (\<lambda>d. (dg_Kind d, dg_Key d))
     (map (\<lambda>r. \<lparr>dg_Kind = cr_Kind r, dg_Key = cr_Key r, dg_Lamport = cr_Lamport r, dg_Origin = cr_Origin r\<rparr>) (all_records s))"

definition have_of :: "digest list \<Rightarrow> string \<Rightarrow> digest option" where
  "have_of peer = foldl (\<lambda>m d. m(make_ID (dg_Kind d) (dg_Key d) \<mapsto> d)) Map.empty peer"

definition theirs_of :: "digest \<Rightarrow> crecord" where
  "theirs_of d = \<lparr>cr_Kind = 0, cr_Key = [], cr_Lamport = dg_Lamport d, cr_Origin = dg_Origin d, cr_Deleted = False,
     cr_Updated = 0, cr_Payload = []\<rparr>"

definition Missing :: "digest list \<Rightarrow> store \<Rightarrow> crecord list" where
  "Missing peer s = sort_key cr_ID
     (map snd (filter (\<lambda>(id, r). case have_of peer id of None \<Rightarrow> True | Some d \<Rightarrow> newerThan r (theirs_of d))
        (map (\<lambda>id. (id, the (fmlookup (st_records s) id))) (sorted_list_of_fset (fmdom (st_records s))))))"

definition recordsLocked :: "bool \<Rightarrow> store \<Rightarrow> crecord list" where
  "recordsLocked includeDeleted s = sort_key cr_ID (filter (\<lambda>r. \<not> (cr_Deleted r \<and> \<not> includeDeleted)) (all_records s))"

definition store_Records :: "store \<Rightarrow> crecord list" where
  "store_Records s = recordsLocked False s"

definition store_All :: "store \<Rightarrow> crecord list" where
  "store_All s = recordsLocked True s"

definition store_Version :: "store \<Rightarrow> u64" where
  "store_Version s = st_version s"

definition bool_string :: "bool \<Rightarrow> string" where
  "bool_string b = (if b then ''true'' else ''false'')"

definition hash_input :: "(string \<Rightarrow> string option) \<Rightarrow> store \<Rightarrow> string" where
  "hash_input compact s = concat (map (\<lambda>r.
     cr_ID r @ ''|'' @ decimal (unat (cr_Lamport r)) @ ''|'' @ cr_Origin r @ ''|'' @ bool_string (cr_Deleted r) @ ''|'' @
     (if cr_Payload r = [] then [] else case compact (cr_Payload r) of Some c \<Rightarrow> c | None \<Rightarrow> cr_Payload r))
     (recordsLocked True s))"

definition store_Hash :: "(string \<Rightarrow> 8 word list) \<Rightarrow> (8 word list \<Rightarrow> string) \<Rightarrow> (string \<Rightarrow> string option) \<Rightarrow> store \<Rightarrow> string" where
  "store_Hash sha256 hex compact s = hex (take 16 (sha256 (hash_input compact s)))"

definition expired_tombstone :: "gtime \<Rightarrow> crecord \<Rightarrow> bool" where
  "expired_tombstone now r \<longleftrightarrow> cr_Deleted r \<and> time_Sub now (cr_Updated r) > TombstoneTTL"

definition CollectTombstones :: "gtime \<Rightarrow> store \<Rightarrow> nat \<times> store" where
  "CollectTombstones now s =
     (let keep = fmfilter (\<lambda>id. case fmlookup (st_records s) id of Some r \<Rightarrow> \<not> expired_tombstone now r | None \<Rightarrow> True) (st_records s);
          removed = size (fmdom (st_records s)) - size (fmdom keep);
          s1 = s\<lparr>st_records := keep\<rparr>
      in (removed, if removed > 0 then bump s1 else s1))"

text \<open>How the steps of a flush to disk go: the directory, the temporary file (left with
  whatever was written of it), the rename.\<close>

datatype flush_io = MkdirErr | WriteErr string | RenameErr | IoOK

definition store_Flush :: "(crecord list \<Rightarrow> string option) \<Rightarrow> flush_io \<Rightarrow> (string \<Rightarrow> string option) \<Rightarrow> store
    \<Rightarrow> store_error option \<times> (string \<Rightarrow> string option) \<times> store" where
  "store_Flush marshal io disk s =
     (if st_path s = [] \<or> \<not> st_dirty s then (None, disk, s)
      else
        let records = recordsLocked True s; s1 = s\<lparr>st_dirty := False\<rparr>; tmp = st_path s @ ''.tmp'' in
        case marshal records of
          None \<Rightarrow> (Some EncodeFailed, disk, s1)
        | Some raw \<Rightarrow> (case io of
              MkdirErr \<Rightarrow> (Some MkdirFailed, disk, s1)
            | WriteErr part \<Rightarrow> (Some WriteFailed, disk(tmp \<mapsto> part), s1)
            | RenameErr \<Rightarrow> (Some RenameFailed, disk(tmp \<mapsto> raw), s1)
            | IoOK \<Rightarrow> (None, (disk(st_path s \<mapsto> raw))(tmp := None), s1)))"

section \<open>Specification\<close>

text \<open>A store stands for the set of writes it has seen: for each ID it holds the write
  with the greatest stamp. \<open>holds S m\<close> relates the map to such a set.\<close>

definition stamp :: "crecord \<Rightarrow> u64 \<times> string" where
  "stamp r = (cr_Lamport r, cr_Origin r)"

lemma newer_stamp: "newerThan r r' \<longleftrightarrow> stamp r' < stamp r"
  by (auto simp: newerThan_def stamp_def less_prod_def)

definition holds :: "crecord set \<Rightarrow> (string \<Rightarrow> crecord option) \<Rightarrow> bool" where
  "holds S m \<longleftrightarrow> (\<forall>x. case m x of
       None \<Rightarrow> \<forall>r \<in> S. cr_ID r \<noteq> x
     | Some r \<Rightarrow> r \<in> S \<and> cr_ID r = x \<and> (\<forall>r' \<in> S. cr_ID r' = x \<longrightarrow> stamp r' \<le> stamp r))"

definition unique_stamps :: "crecord set \<Rightarrow> bool" where
  "unique_stamps S \<longleftrightarrow> (\<forall>r \<in> S. \<forall>r' \<in> S. cr_ID r = cr_ID r' \<and> stamp r = stamp r' \<longrightarrow> r = r')"

lemma holds_Some: "holds S m \<Longrightarrow> m x = Some r \<Longrightarrow> r \<in> S \<and> cr_ID r = x \<and> (\<forall>r' \<in> S. cr_ID r' = x \<longrightarrow> stamp r' \<le> stamp r)"
  unfolding holds_def by (erule allE [of _ x]) simp

lemma holds_None: "holds S m \<Longrightarrow> m x = None \<Longrightarrow> r \<in> S \<Longrightarrow> cr_ID r \<noteq> x"
  unfolding holds_def by (erule allE [of _ x]) simp

lemma holdsI:
  assumes "\<And>x. m x = None \<Longrightarrow> \<forall>r \<in> S. cr_ID r \<noteq> x"
    and "\<And>x r. m x = Some r \<Longrightarrow> r \<in> S \<and> cr_ID r = x \<and> (\<forall>r' \<in> S. cr_ID r' = x \<longrightarrow> stamp r' \<le> stamp r)"
  shows "holds S m"
  unfolding holds_def using assms by (auto split: option.split)

lemma holds_unique:
  assumes "holds S m" "holds S m'" "unique_stamps S"
  shows "m = m'"
proof
  fix x
  show "m x = m' x"
  proof (cases "m x")
    case None
    then have "m' x = None" using holds_Some [OF assms(2)] holds_None [OF assms(1) None] by (cases "m' x") auto
    with None show ?thesis by simp
  next
    case (Some r)
    note r = holds_Some [OF assms(1) Some]
    then obtain r' where r': "m' x = Some r'" using holds_None [OF assms(2)] by (cases "m' x") auto
    note s = holds_Some [OF assms(2) r']
    have in_S: "r \<in> S" "cr_ID r = x" "r' \<in> S" "cr_ID r' = x" using r s by auto
    then have "stamp r' \<le> stamp r" "stamp r \<le> stamp r'" using r s by blast+
    then have "stamp r = stamp r'" by (rule order_antisym [rotated])
    then have "r = r'" using assms(3) in_S by (simp add: unique_stamps_def)
    with Some r' show ?thesis by simp
  qed
qed

lemma holds_dominated:
  assumes h: "holds S m" and d: "\<And>r. r \<in> T \<Longrightarrow> \<exists>r' \<in> S. cr_ID r' = cr_ID r \<and> stamp r \<le> stamp r'"
  shows "holds (S \<union> T) m"
proof (rule holdsI)
  fix x assume "m x = None"
  then show "\<forall>r \<in> S \<union> T. cr_ID r \<noteq> x" using holds_None [OF h] d by (metis UnE)
next
  fix x r assume m: "m x = Some r"
  note r = holds_Some [OF h m]
  have "stamp r' \<le> stamp r" if r': "r' \<in> S \<union> T" "cr_ID r' = x" for r'
  proof (cases "r' \<in> S")
    case False
    then have "r' \<in> T" using r'(1) by blast
    then obtain r'' where "r'' \<in> S" "cr_ID r'' = x" "stamp r' \<le> stamp r''" using d [of r'] r'(2) by blast
    moreover from this have "stamp r'' \<le> stamp r" using r by blast
    ultimately show ?thesis by (meson order_trans)
  qed (use r r' in blast)
  with r show "r \<in> S \<union> T \<and> cr_ID r = x \<and> (\<forall>r' \<in> S \<union> T. cr_ID r' = x \<longrightarrow> stamp r' \<le> stamp r)" by blast
qed

lemma holds_insert_new:
  assumes "holds S m" "\<forall>r' \<in> S. cr_ID r' = cr_ID r \<longrightarrow> stamp r' \<le> stamp r"
  shows "holds (insert r S) (m(cr_ID r \<mapsto> r))"
proof (rule holdsI)
  fix x assume "(m(cr_ID r \<mapsto> r)) x = None"
  then show "\<forall>r' \<in> insert r S. cr_ID r' \<noteq> x" using holds_None [OF assms(1)] by (auto split: if_splits)
next
  fix x r0 assume m: "(m(cr_ID r \<mapsto> r)) x = Some r0"
  then show "r0 \<in> insert r S \<and> cr_ID r0 = x \<and> (\<forall>r' \<in> insert r S. cr_ID r' = x \<longrightarrow> stamp r' \<le> stamp r0)"
    using holds_Some [OF assms(1), of x r0] assms(2) by (auto split: if_splits)
qed

lemma holds_insert_old:
  "holds S m \<Longrightarrow> m (cr_ID r) = Some e \<Longrightarrow> stamp r \<le> stamp e \<Longrightarrow> holds (insert r S) m"
  using holds_dominated [of S m "{r}"] holds_Some [of S m "cr_ID r" e] by auto

section \<open>Refinement\<close>

abbreviation view :: "store \<Rightarrow> string \<Rightarrow> crecord option" where
  "view s \<equiv> fmlookup (st_records s)"

lemma bump_simps [simp]: "st_records (bump s) = st_records s" "st_lamport (bump s) = st_lamport s"
  "st_nodeID (bump s) = st_nodeID s"
  by (simp_all add: bump_def)

lemma view_upd: "fmlookup (fmupd k v m) = (fmlookup m)(k \<mapsto> v)"
  by (simp add: fun_eq_iff)

lemma merge_one_holds:
  assumes "holds S (view s)"
  shows "holds (insert r S) (view (fst (merge_one (s, n) r)))"
proof (cases "view s (cr_ID r)")
  case None
  then have "\<forall>r' \<in> S. cr_ID r' = cr_ID r \<longrightarrow> stamp r' \<le> stamp r" using holds_None [OF assms] by blast
  from holds_insert_new [OF assms this] None show ?thesis by (simp add: merge_one_def view_upd)
next
  case (Some e)
  note e = holds_Some [OF assms Some]
  show ?thesis
  proof (cases "newerThan r e")
    case True
    then have "\<forall>r' \<in> S. cr_ID r' = cr_ID r \<longrightarrow> stamp r' \<le> stamp r"
      using e by (meson newer_stamp order_less_imp_le order_trans)
    from holds_insert_new [OF assms this] True Some show ?thesis by (simp add: merge_one_def view_upd)
  next
    case False
    then have "stamp r \<le> stamp e" by (simp add: newer_stamp not_less)
    from holds_insert_old [OF assms Some this] False Some show ?thesis by (simp add: merge_one_def view_upd)
  qed
qed

lemma merge_holds: "holds S (view s) \<Longrightarrow> holds (S \<union> set rs) (view (snd (store_Merge rs s)))"
proof -
  have "holds S (view s) \<Longrightarrow> holds (S \<union> set rs) (view (fst (foldl merge_one (s, n) rs)))" for n S s
  proof (induction rs arbitrary: S s n)
    case (Cons r rs)
    obtain s' n' where m: "merge_one (s, n) r = (s', n')" by fastforce
    have "holds (insert r S) (view s')" using merge_one_holds [OF Cons.prems, of r n] m by simp
    from Cons.IH [OF this, of n'] m show ?case by simp
  qed simp
  then show "holds S (view s) \<Longrightarrow> holds (S \<union> set rs) (view (snd (store_Merge rs s)))"
    by (simp add: store_Merge_def split_beta Let_def)
qed

text \<open>A store keyed by ID stands for its own records.\<close>

definition keyed :: "store \<Rightarrow> bool" where
  "keyed s \<longleftrightarrow> (\<forall>x r. view s x = Some r \<longrightarrow> cr_ID r = x)"

lemma keyed_holds: "keyed s \<longleftrightarrow> holds (ran (view s)) (view s)"
proof
  assume k: "keyed s"
  show "holds (ran (view s)) (view s)"
  proof (rule holdsI)
    fix x assume "view s x = None"
    then show "\<forall>r \<in> ran (view s). cr_ID r \<noteq> x" using k by (auto simp: keyed_def ran_def)
  next
    fix x r assume v: "view s x = Some r"
    have "r' = r" if r': "r' \<in> ran (view s)" "cr_ID r' = x" for r'
    proof -
      obtain i where i: "view s i = Some r'" using r'(1) unfolding ran_def by blast
      then have "i = x" using k r'(2) unfolding keyed_def by blast
      with v i show ?thesis by simp
    qed
    then show "r \<in> ran (view s) \<and> cr_ID r = x \<and> (\<forall>r' \<in> ran (view s). cr_ID r' = x \<longrightarrow> stamp r' \<le> stamp r)"
      using k v ranI [where m = "view s" and a = x and b = r] unfolding keyed_def by (metis order_refl)
  qed
next
  assume "holds (ran (view s)) (view s)"
  then show "keyed s" by (auto simp: keyed_def dest: holds_Some)
qed

lemma merge_keyed: "keyed s \<Longrightarrow> keyed (snd (store_Merge rs s))"
  unfolding keyed_holds [of s] using merge_holds [of "ran (view s)" s rs]
  by (auto simp: keyed_def dest: holds_Some)

section \<open>The anti-entropy exchange\<close>

lemma set_all_records: "set (all_records s) = ran (view s)"
  unfolding all_records_def ran_def
  by (auto simp: image_iff fmlookup_dom_iff) (metis fmdomI option.sel)+

lemma have_of_map: "have_of ds = map_of (rev (map (\<lambda>d. (make_ID (dg_Kind d) (dg_Key d), d)) ds))"
proof -
  have "foldl (\<lambda>m d. m(make_ID (dg_Kind d) (dg_Key d) \<mapsto> d)) m ds
      = m ++ map_of (rev (map (\<lambda>d. (make_ID (dg_Kind d) (dg_Key d), d)) ds))" for m
    by (induction ds arbitrary: m) (simp_all add: map_add_assoc [symmetric] map_add_def fun_eq_iff split: option.splits)
  then show ?thesis by (simp add: have_of_def)
qed

definition digest_of :: "crecord \<Rightarrow> digest" where
  "digest_of r = \<lparr>dg_Kind = cr_Kind r, dg_Key = cr_Key r, dg_Lamport = cr_Lamport r, dg_Origin = cr_Origin r\<rparr>"

lemma digest_ID [simp]: "make_ID (dg_Kind (digest_of r)) (dg_Key (digest_of r)) = cr_ID r"
  by (simp add: digest_of_def cr_ID_def)

lemma have_of_Digests:
  assumes k: "keyed s"
  shows "have_of (Digests s) x = map_option digest_of (view s x)"
proof -
  let ?ps = "map (\<lambda>d. (make_ID (dg_Kind d) (dg_Key d), d)) (Digests s)"
  have D: "set (Digests s) = digest_of ` ran (view s)"
    using set_all_records [of s] by (auto simp: Digests_def digest_of_def [symmetric])
  have ps: "(y, d) \<in> set ?ps \<longleftrightarrow> view s y \<noteq> None \<and> d = digest_of (the (view s y))" for y d
    using k by (auto simp: D image_iff ran_def keyed_def)
  have val: "(y, d) \<in> set ?ps \<Longrightarrow> (y, d') \<in> set ?ps \<Longrightarrow> d = d'" for y d d' unfolding ps by simp
  have "map_of (rev ?ps) x = Some d \<longleftrightarrow> map_option digest_of (view s x) = Some d" for d
  proof -
    have "map_of (rev ?ps) x = Some d \<longleftrightarrow> (x, d) \<in> set (rev ?ps)"
      by (rule map_of_functional) (use val in \<open>simp only: set_rev\<close>)
    also have "\<dots> \<longleftrightarrow> view s x \<noteq> None \<and> d = digest_of (the (view s x))" unfolding set_rev by (rule ps)
    finally show ?thesis by auto
  qed
  then show ?thesis unfolding have_of_map by (rule option_ext)
qed

lemma theirs_stamp: "stamp (theirs_of (digest_of r)) = stamp r"
  by (simp add: stamp_def theirs_of_def digest_of_def)

lemma set_Missing:
  assumes "keyed p"
  shows "set (Missing (Digests p) s) =
    {r. \<exists>x. view s x = Some r \<and> (case view p x of None \<Rightarrow> True | Some e \<Rightarrow> stamp e < stamp r)}"
proof -
  have "(case have_of (Digests p) x of None \<Rightarrow> True | Some d \<Rightarrow> newerThan r (theirs_of d))
      = (case view p x of None \<Rightarrow> True | Some e \<Rightarrow> stamp e < stamp r)" for x r
    by (auto simp: have_of_Digests [OF assms] newer_stamp theirs_stamp split: option.splits)
  then have M: "set (Missing (Digests p) s) = (\<lambda>x. the (view s x)) `
      {x \<in> fset (fmdom (st_records s)). case view p x of None \<Rightarrow> True | Some e \<Rightarrow> stamp e < stamp (the (view s x))}"
    unfolding Missing_def by (simp add: filter_map o_def)
  have "fset (fmdom (st_records s)) = {x. view s x \<noteq> None}" by (auto simp: fmlookup_dom_iff)
  then have "{x \<in> fset (fmdom (st_records s)). Q x} = {x. view s x \<noteq> None \<and> Q x}" for Q by simp
  then show ?thesis unfolding M
    using image_the_Collect [of "view s" "\<lambda>x r. case view p x of None \<Rightarrow> True | Some e \<Rightarrow> stamp e < stamp r"] by simp
qed

lemma exchange_holds:
  assumes "keyed s" "keyed p"
  shows "holds (ran (view s) \<union> ran (view p)) (view (snd (store_Merge (Missing (Digests s) p) s)))"
proof -
  let ?M = "set (Missing (Digests s) p)"
  have h: "holds (ran (view s) \<union> ?M) (view (snd (store_Merge (Missing (Digests s) p) s)))"
    using merge_holds assms(1) by (simp add: keyed_holds)
  have d: "\<exists>r' \<in> ran (view s) \<union> ?M. cr_ID r' = cr_ID r \<and> stamp r \<le> stamp r'" if "r \<in> ran (view p)" for r
  proof (cases "r \<in> ?M")
    case False
    obtain x where x: "view p x = Some r" using \<open>r \<in> ran (view p)\<close> unfolding ran_def by blast
    have "cr_ID r = x" using assms(2) x by (simp add: keyed_def)
    moreover obtain e where e: "view s x = Some e" "\<not> stamp e < stamp r"
      using False x unfolding set_Missing [OF assms(1)] by (auto split: option.splits)
    moreover have "cr_ID e = x" using assms(1) e(1) by (simp add: keyed_def)
    ultimately show ?thesis using ranI [where m = "view s" and a = x and b = e] by (intro bexI [of _ e]) (auto simp: not_less)
  qed blast
  have "?M \<subseteq> ran (view p)" unfolding set_Missing [OF assms(1)] ran_def by blast
  then have "ran (view s) \<union> ran (view p) = (ran (view s) \<union> ?M) \<union> ran (view p)" by blast
  with holds_dominated [OF h d] show ?thesis by simp
qed

section \<open>Properties\<close>

text \<open>The pair converges: when two nodes exchange digests and each merges what the other
  finds missing, both hold exactly the same records, whatever each had missed, as long
  as no two different writes of one ID carry the same stamp.\<close>

theorem anti_entropy_converges:
  assumes "keyed s" and "keyed p" and "unique_stamps (ran (view s) \<union> ran (view p))"
  shows "st_records (snd (store_Merge (Missing (Digests s) p) s)) = st_records (snd (store_Merge (Missing (Digests p) s) p))"
proof -
  have "view (snd (store_Merge (Missing (Digests s) p) s)) = view (snd (store_Merge (Missing (Digests p) s) p))"
    using holds_unique [OF exchange_holds [OF assms(1,2)] _ assms(3)] exchange_holds [OF assms(2,1)]
    by (simp add: Un_commute)
  then show ?thesis by (simp add: fmap_ext fun_eq_iff)
qed

text \<open>Delivery order does not matter: any two sequences of replicated records with the
  same elements, in any order and with any repetitions, leave a store with the same
  records, under unique stamps.\<close>

theorem merge_order_free:
  assumes "keyed s" and "set rs = set rs'" and "unique_stamps (ran (view s) \<union> set rs)"
  shows "st_records (snd (store_Merge rs s)) = st_records (snd (store_Merge rs' s))"
proof -
  have "holds (ran (view s)) (view s)" using assms(1) by (simp add: keyed_holds)
  from merge_holds [OF this, of rs] merge_holds [OF this, of rs'] assms(2)
  have "view (snd (store_Merge rs s)) = view (snd (store_Merge rs' s))"
    by (intro holds_unique [OF _ _ assms(3)]) simp_all
  then show ?thesis by (simp add: fmap_ext fun_eq_iff)
qed

section \<open>Runs of a store\<close>

text \<open>Local writes stop when the 64-bit Lamport clock is used up; the rules for them ask that
  it is not.\<close>

inductive store_reach :: "store \<Rightarrow> bool" where
  sr_Open: "store_Open unmarshal n p f = Inr s \<Longrightarrow> store_reach s"
| sr_Put: "store_reach s \<Longrightarrow> st_lamport s \<noteq> - 1 \<Longrightarrow> store_reach (snd (store_Put now k key pl s))"
| sr_Delete: "store_reach s \<Longrightarrow> st_lamport s \<noteq> - 1 \<Longrightarrow> store_reach (snd (store_Delete now k key s))"
| sr_Merge: "store_reach s \<Longrightarrow> store_reach (snd (store_Merge rs s))"
| sr_Collect: "store_reach s \<Longrightarrow> store_reach (snd (CollectTombstones now s))"

definition bounded :: "store \<Rightarrow> bool" where
  "bounded s \<longleftrightarrow> (\<forall>x r. view s x = Some r \<longrightarrow> cr_Lamport r \<le> st_lamport s)"

lemma lamport_next: "(l :: u64) \<noteq> - 1 \<Longrightarrow> l < l + 1"
proof -
  assume "l \<noteq> - 1"
  then have "1 + l \<noteq> 0" by (metis add_eq_0_iff)
  then have "unat (1 + l) = Suc (unat l)" by (rule unatSuc)
  then show ?thesis by (simp add: word_less_nat_alt add.commute)
qed

lemma keyed_bounded_upd:
  assumes "keyed s" "bounded s" "st_lamport s \<le> l" "cr_Lamport r \<le> l"
  shows "keyed (s\<lparr>st_lamport := l, st_records := fmupd (cr_ID r) r (st_records s)\<rparr>)"
    and "bounded (s\<lparr>st_lamport := l, st_records := fmupd (cr_ID r) r (st_records s)\<rparr>)"
  using assms by (auto simp: keyed_def bounded_def) (metis order_trans)

lemma keyed_bounded_lamport:
  assumes "keyed s" "bounded s" "st_lamport s \<le> l"
  shows "keyed (s\<lparr>st_lamport := l\<rparr>)" and "bounded (s\<lparr>st_lamport := l\<rparr>)"
  using assms by (auto simp: keyed_def bounded_def) (metis order_trans)

lemma keyed_bounded_bump [simp]: "keyed (bump s) = keyed s" "bounded (bump s) = bounded s"
  by (simp_all add: keyed_def bounded_def)

lemma merge_one_ok:
  assumes "keyed s" "bounded s"
  shows "keyed (fst (merge_one (s, n) r)) \<and> bounded (fst (merge_one (s, n) r))"
proof -
  let ?l = "max (cr_Lamport r) (st_lamport s)"
  have s1: "(if cr_Lamport r > st_lamport s then s\<lparr>st_lamport := cr_Lamport r\<rparr> else s) = s\<lparr>st_lamport := ?l\<rparr>"
    by (simp add: max_def)
  have "keyed (s\<lparr>st_lamport := ?l\<rparr>) \<and> bounded (s\<lparr>st_lamport := ?l\<rparr>)"
    using keyed_bounded_lamport [OF assms, of ?l] by simp
  moreover have "keyed (s\<lparr>st_lamport := ?l, st_records := fmupd (cr_ID r) r (st_records s)\<rparr>)
      \<and> bounded (s\<lparr>st_lamport := ?l, st_records := fmupd (cr_ID r) r (st_records s)\<rparr>)"
    using keyed_bounded_upd [OF assms, of ?l r] by simp
  ultimately show ?thesis unfolding merge_one_def prod.case s1 Let_def by (simp split: option.split)
qed

lemma merge_ok: "keyed s \<Longrightarrow> bounded s \<Longrightarrow> keyed (snd (store_Merge rs s)) \<and> bounded (snd (store_Merge rs s))"
proof -
  have "keyed s \<Longrightarrow> bounded s \<Longrightarrow> keyed (fst (foldl merge_one (s, n) rs)) \<and> bounded (fst (foldl merge_one (s, n) rs))" for s n
  proof (induction rs arbitrary: s n)
    case (Cons r rs)
    then show ?case using merge_one_ok [of s n r] by (metis foldl_Cons prod.collapse)
  qed simp
  then show "keyed s \<Longrightarrow> bounded s \<Longrightarrow> keyed (snd (store_Merge rs s)) \<and> bounded (snd (store_Merge rs s))"
    by (simp add: store_Merge_def split_beta Let_def)
qed

lemma view_Collect:
  "view (snd (CollectTombstones now s)) x =
     (case view s x of Some r \<Rightarrow> if expired_tombstone now r then None else Some r | None \<Rightarrow> None)"
  by (auto simp: CollectTombstones_def Let_def split: option.splits)

lemma open_step_ok:
  assumes "keyed s" "bounded s"
  shows "keyed (let s1 = s\<lparr>st_records := fmupd (cr_ID r) r (st_records s)\<rparr>
              in if cr_Lamport r > st_lamport s1 then s1\<lparr>st_lamport := cr_Lamport r\<rparr> else s1)
    \<and> bounded (let s1 = s\<lparr>st_records := fmupd (cr_ID r) r (st_records s)\<rparr>
              in if cr_Lamport r > st_lamport s1 then s1\<lparr>st_lamport := cr_Lamport r\<rparr> else s1)"
  using assms by (auto simp: keyed_def bounded_def Let_def) (metis order_trans less_imp_le)

lemma open_ok: "store_Open unmarshal n p f = Inr s \<Longrightarrow> keyed s \<and> bounded s"
proof -
  let ?s0 = "\<lparr>st_records = fmempty, st_lamport = 0, st_nodeID = n, st_path = p, st_version = 0, st_dirty = False\<rparr>"
  let ?f = "\<lambda>s r. let s1 = s\<lparr>st_records := fmupd (cr_ID r) r (st_records s)\<rparr>
              in if cr_Lamport r > st_lamport s1 then s1\<lparr>st_lamport := cr_Lamport r\<rparr> else s1"
  have z: "keyed ?s0 \<and> bounded ?s0" by (simp add: keyed_def bounded_def)
  have f: "keyed (foldl ?f ?s0 rs) \<and> bounded (foldl ?f ?s0 rs)" for rs
    by (rule foldl_invariant [where P = "\<lambda>s. keyed s \<and> bounded s", OF z]) (use open_step_ok in blast)
  assume "store_Open unmarshal n p f = Inr s"
  then have "s = ?s0 \<or> (\<exists>rs. s = foldl ?f ?s0 rs)"
    by (auto simp: store_Open_def Let_def split: if_splits read_result.splits option.splits)
  then show ?thesis using z f by blast
qed

lemma reach_store_ok: "store_reach s \<Longrightarrow> keyed s \<and> bounded s"
proof (induction rule: store_reach.induct)
  case (sr_Open unmarshal n p f s)
  then show ?case by (rule open_ok)
next
  case (sr_Put s now k key pl)
  then show ?case using keyed_bounded_upd [of s "st_lamport s + 1"] lamport_next [of "st_lamport s"]
    by (auto simp: store_Put_def Let_def split: option.splits)
next
  case (sr_Delete s now k key)
  then show ?case using keyed_bounded_upd [of s "st_lamport s + 1"] lamport_next [of "st_lamport s"]
    by (auto simp: store_Delete_def Let_def)
next
  case (sr_Merge s rs)
  then show ?case using merge_ok by blast
next
  case (sr_Collect s now)
  have "st_lamport (snd (CollectTombstones now s)) = st_lamport s" by (simp add: CollectTombstones_def Let_def)
  then show ?case using sr_Collect.IH by (auto simp: keyed_def bounded_def view_Collect split: option.splits if_splits)
qed

text \<open>A write stamped after everything a store has seen stays, whatever older records arrive.\<close>

lemma newest_survives:
  assumes "keyed s" "view s x = Some d" "\<forall>r \<in> set rs. cr_Lamport r < cr_Lamport d"
  shows "view (snd (store_Merge rs s)) x = Some d"
proof -
  let ?S = "ran (view s) \<union> set rs"
  have "holds (ran (view s)) (view s)" using assms(1) by (simp add: keyed_holds)
  then have h: "holds ?S (view (snd (store_Merge rs s)))" by (rule merge_holds)
  have d: "d \<in> ?S" "cr_ID d = x"
    using assms(1,2) ranI [where m = "view s" and a = x and b = d] by (simp_all add: keyed_def)
  obtain r where r: "view (snd (store_Merge rs s)) x = Some r"
    using holds_None [OF h _ d(1)] d(2) by (cases "view (snd (store_Merge rs s)) x") auto
  note R = holds_Some [OF h r]
  have "r \<notin> set rs"
  proof
    assume "r \<in> set rs"
    then have "stamp r < stamp d" using assms(3) by (simp add: stamp_def less_prod_def)
    moreover have "stamp d \<le> stamp r" using R d by blast
    ultimately show False by simp
  qed
  then obtain y where "view s y = Some r" using R unfolding ran_def by blast
  then have "y = x" using assms(1) R by (simp add: keyed_def)
  with \<open>view s y = Some r\<close> assms(2) r show ?thesis by simp
qed

text \<open>A local write wins everywhere it matters: after a Put on a store in any reachable
  state, the new record is what the store returns for its ID, it is newer than every
  record the store had, and a peer that has seen no later Lamport time adopts it.\<close>

theorem put_supersedes:
  assumes "store_reach s" and "st_lamport s \<noteq> - 1" and "store_Put now k key (Some raw) s = (Inr r, s')"
    and "keyed p" and "\<forall>x e. view p x = Some e \<longrightarrow> cr_Lamport e \<le> st_lamport s"
  shows "view s' (make_ID k key) = Some r \<and> \<not> cr_Deleted r \<and> cr_Payload r = raw
    \<and> (\<forall>x e. view s x = Some e \<longrightarrow> newerThan r e)
    \<and> view (snd (store_Merge [r] p)) (make_ID k key) = Some r"
proof -
  have r: "cr_Lamport r = st_lamport s + 1" "cr_ID r = make_ID k key" "view s' (make_ID k key) = Some r"
      "\<not> cr_Deleted r" "cr_Payload r = raw"
    using assms(3) by (auto simp: store_Put_def Let_def cr_ID_def)
  have l: "st_lamport s < st_lamport s + 1" using lamport_next [OF assms(2)] .
  have nw: "newerThan r e" if "cr_Lamport e \<le> st_lamport s" for e
  proof -
    have "cr_Lamport e < cr_Lamport r" using le_less_trans [OF that l] r(1) by simp
    then show ?thesis unfolding newerThan_def by auto
  qed
  have "newerThan r e" if "view s x = Some e" for x e
    using that reach_store_ok [OF assms(1)] nw by (simp add: bounded_def)
  moreover have "view (snd (store_Merge [r] p)) (make_ID k key) = Some r"
  proof (cases "view p (cr_ID r)")
    case None
    then show ?thesis using r(2) by (simp add: store_Merge_def merge_one_def Let_def)
  next
    case (Some e)
    then have "newerThan r e" using assms(5) nw by blast
    with Some show ?thesis using r(2) by (simp add: store_Merge_def merge_one_def Let_def)
  qed
  ultimately show ?thesis using r by blast
qed

text \<open>A delete is not undone by late replication: after a Delete on a store in any
  reachable state, no batch of records written before it (with Lamport times the store
  had already seen), in any order, brings the record back.\<close>

theorem delete_not_resurrected:
  assumes "store_reach s" and "st_lamport s \<noteq> - 1" and "store_Delete now k key s = (d, s')"
    and "\<forall>r \<in> set rs. cr_Lamport r \<le> st_lamport s"
  shows "view (snd (store_Merge rs s')) (make_ID k key) = Some d \<and> cr_Deleted d"
proof -
  have d: "cr_Lamport d = st_lamport s + 1" "view s' (make_ID k key) = Some d" "cr_Deleted d"
    using assms(3) by (auto simp: store_Delete_def Let_def cr_ID_def)
  have "keyed s'" using reach_store_ok [OF sr_Delete [OF assms(1,2), of now k key]] assms(3) by simp
  moreover have "\<forall>r \<in> set rs. cr_Lamport r < cr_Lamport d"
    using assms(4) lamport_next [OF assms(2)] d(1) le_less_trans by fastforce
  ultimately show ?thesis using newest_survives d(2,3) by blast
qed

text \<open>Collecting tombstones forgets deletes only, and only after \<open>TombstoneTTL\<close>: live
  records and younger tombstones are untouched, older tombstones are gone, and the
  count returned is the number removed.\<close>

theorem collect_only_old_tombstones:
  "view (snd (CollectTombstones now s)) x =
     (case view s x of
        Some r \<Rightarrow> if cr_Deleted r \<and> time_Sub now (cr_Updated r) > 7 * 24 * 3600 * 1000000000 then None else Some r
      | None \<Rightarrow> None)
   \<and> fst (CollectTombstones now s) + size (fmdom (st_records (snd (CollectTombstones now s)))) = size (fmdom (st_records s))"
proof
  show "view (snd (CollectTombstones now s)) x =
     (case view s x of
        Some r \<Rightarrow> if cr_Deleted r \<and> time_Sub now (cr_Updated r) > 7 * 24 * 3600 * 1000000000 then None else Some r
      | None \<Rightarrow> None)"
    by (simp add: view_Collect expired_tombstone_def TombstoneTTL_def second_def split: option.split)
  have "size (fmdom (fmfilter P (st_records s))) \<le> size (fmdom (st_records s))" for P
    unfolding fmdom_filter by (simp add: fcard.rep_eq) (intro card_mono, auto)
  then show "fst (CollectTombstones now s) + size (fmdom (st_records (snd (CollectTombstones now s))))
      = size (fmdom (st_records s))"
    unfolding CollectTombstones_def Let_def by simp
qed

text \<open>Identities: the decimal kind, a colon, the key.\<close>

definition undecimal :: "string \<Rightarrow> nat" where
  "undecimal s = foldl (\<lambda>a c. a * 10 + (of_char c - 48)) 0 s"

lemma undecimal_decimal: "undecimal (decimal n) = n"
proof (induction n rule: decimal.induct)
  case (1 n)
  show ?case
  proof (cases "n < 10")
    case True
    then show ?thesis by (subst decimal.simps) (simp add: undecimal_def)
  next
    case False
    then have "undecimal (decimal n) = undecimal (decimal (n div 10)) * 10 + n mod 10"
      by (subst decimal.simps) (simp add: undecimal_def)
    with 1 False show ?thesis by simp
  qed
qed

lemma decimal_digit: "c \<in> set (decimal n) \<Longrightarrow> c \<noteq> CHR '':''"
proof (induction n rule: decimal.induct)
  case (1 n)
  have "(of_char c :: nat) \<noteq> of_char (CHR '':'')" if "c = char_of (48 + m :: nat)" "m < 10" for m
    using that by simp
  then have "c \<noteq> CHR '':''" if "c = char_of (48 + m :: nat)" "m < 10" for m using that by metis
  moreover have "c \<in> set (decimal (n div 10)) \<or> c = char_of (48 + n mod 10)" if "\<not> n < 10"
    using 1(2) that by (subst (asm) decimal.simps) auto
  moreover have "c = char_of (48 + n)" if "n < 10" using 1(2) that by (subst (asm) decimal.simps) auto
  ultimately show ?case using 1(1) by (metis mod_less_divisor zero_less_numeral)
qed

text \<open>Record identity is exact: two records have the same ID exactly when they have the
  same kind and key, whatever bytes the key holds.\<close>

theorem record_ID_injective: "cr_ID r = cr_ID r' \<longleftrightarrow> cr_Kind r = cr_Kind r' \<and> cr_Key r = cr_Key r'"
proof
  assume "cr_ID r = cr_ID r'"
  then have e: "decimal (unat (cr_Kind r)) @ CHR '':'' # cr_Key r = decimal (unat (cr_Kind r')) @ CHR '':'' # cr_Key r'"
    by (simp add: cr_ID_def make_ID_def)
  have "takeWhile (\<lambda>c. c \<noteq> CHR '':'') (decimal n @ CHR '':'' # t) = decimal n" for n t
    using decimal_digit by (subst takeWhile_append2) auto
  then have "decimal (unat (cr_Kind r)) = decimal (unat (cr_Kind r'))" by (metis e)
  then show "cr_Kind r = cr_Kind r' \<and> cr_Key r = cr_Key r'"
    using e undecimal_decimal by (metis append_eq_append_conv list.inject word_unat_eq_iff)
qed (simp add: cr_ID_def)

section \<open>Persistence\<close>

lemma set_recordsLocked: "set (recordsLocked True s) = ran (view s)"
  by (simp add: recordsLocked_def set_all_records)

lemma open_fold_view:
  "view (foldl (\<lambda>s r. let s1 = s\<lparr>st_records := fmupd (cr_ID r) r (st_records s)\<rparr>
      in if cr_Lamport r > st_lamport s1 then s1\<lparr>st_lamport := cr_Lamport r\<rparr> else s1) s rs) x
   = (case map_of (rev (map (\<lambda>r. (cr_ID r, r)) rs)) x of None \<Rightarrow> view s x | Some r \<Rightarrow> Some r)"
  by (induction rs arbitrary: s) (auto simp: Let_def map_add_def split: option.splits)

lemma reload_view:
  assumes "keyed s" "set rs = ran (view s)"
  shows "map_of (rev (map (\<lambda>r. (cr_ID r, r)) rs)) x = view s x"
proof (rule option_ext)
  fix d
  have m: "(x, d) \<in> set (rev (map (\<lambda>r. (cr_ID r, r)) rs)) \<longleftrightarrow> view s x = Some d" for x d
    using assms by (auto simp: keyed_def ran_def)
  have "map_of (rev (map (\<lambda>r. (cr_ID r, r)) rs)) x = Some d \<longleftrightarrow> (x, d) \<in> set (rev (map (\<lambda>r. (cr_ID r, r)) rs))"
    by (rule map_of_functional) (unfold m, simp)
  then show "map_of (rev (map (\<lambda>r. (cr_ID r, r)) rs)) x = Some d \<longleftrightarrow> view s x = Some d" unfolding m .
qed

text \<open>Restarting loses nothing that was flushed: when the encoder and decoder are inverse
  on the store's records, reopening the file a successful flush wrote gives a store
  with exactly the same records, tombstones included.\<close>

theorem flush_reopen:
  assumes "store_reach s" and "st_path s \<noteq> []" and "st_dirty s" and "st_nodeID s \<noteq> []"
    and "marshal (store_All s) = Some raw" and "unmarshal raw = Some (store_All s)"
  shows "\<exists>disk' s1 s2. store_Flush marshal IoOK disk s = (None, disk', s1) \<and> disk' (st_path s) = Some raw
    \<and> store_Open unmarshal (st_nodeID s) (st_path s) (Contents raw) = Inr s2 \<and> st_records s2 = st_records s"
proof -
  have k: "keyed s" using reach_store_ok [OF assms(1)] by simp
  let ?s0 = "\<lparr>st_records = fmempty, st_lamport = 0, st_nodeID = st_nodeID s, st_path = st_path s, st_version = 0, st_dirty = False\<rparr>"
  let ?s2 = "foldl (\<lambda>s r. let s1 = s\<lparr>st_records := fmupd (cr_ID r) r (st_records s)\<rparr>
      in if cr_Lamport r > st_lamport s1 then s1\<lparr>st_lamport := cr_Lamport r\<rparr> else s1) ?s0 (store_All s)"
  have "view ?s2 x = view s x" for x
    unfolding open_fold_view using reload_view [OF k, of "store_All s" x] set_recordsLocked [of s]
    by (simp add: store_All_def split: option.split)
  then have "st_records ?s2 = st_records s" by (rule fmap_ext)
  moreover have "store_Open unmarshal (st_nodeID s) (st_path s) (Contents raw) = Inr ?s2"
    using assms(2,4,6) by (simp add: store_Open_def)
  moreover have "store_Flush marshal IoOK disk s
      = (None, (disk(st_path s \<mapsto> raw))(st_path s @ ''.tmp'' := None), s\<lparr>st_dirty := False\<rparr>)"
    using assms(2,3,5) by (simp add: store_Flush_def store_All_def Let_def)
  ultimately show ?thesis by simp
qed

text \<open>A flush is atomic: however it ends, the store's file afterwards holds either what it
  held before or the complete new encoding, never a part of it.\<close>

theorem flush_atomic:
  assumes "store_Flush marshal io disk s = (e, disk', s')"
  shows "disk' (st_path s) = disk (st_path s)
    \<or> (\<exists>raw. marshal (store_All s) = Some raw \<and> disk' (st_path s) = Some raw \<and> e = None)"
  using assms by (auto simp: store_Flush_def store_All_def Let_def split: if_splits option.splits flush_io.splits)

text \<open>A failed flush is not repeated: the store clears its dirty mark before it writes, so
  after an error the next flush does nothing and reports success, and the change stays
  out of the file until something else is written.\<close>

theorem failed_flush_forgotten:
  assumes "store_Flush marshal io disk s = (Some e, disk', s')"
  shows "store_Flush marshal' io' disk' s' = (None, disk', s') \<and> disk' (st_path s) = disk (st_path s)"
  using assms by (auto simp: store_Flush_def Let_def split: if_splits option.splits flush_io.splits)

section \<open>Witnesses\<close>

definition node_a :: store where
  "node_a = \<lparr>st_records = fmempty, st_lamport = 0, st_nodeID = ''a'', st_path = ''/s'', st_version = 0, st_dirty = False\<rparr>"

definition node_b :: store where
  "node_b = node_a\<lparr>st_nodeID := ''b''\<rparr>"

definition rec_a :: crecord where
  "rec_a = \<lparr>cr_Kind = KindFeed, cr_Key = ''k'', cr_Lamport = 1, cr_Origin = ''a'', cr_Deleted = False,
     cr_Updated = 5, cr_Payload = ''x''\<rparr>"

definition rec_b :: crecord where
  "rec_b = rec_a\<lparr>cr_Origin := ''b'', cr_Payload := ''y''\<rparr>"

definition node_a1 :: store where
  "node_a1 = node_a\<lparr>st_records := fmupd (cr_ID rec_a) rec_a fmempty, st_lamport := 1, st_version := 1, st_dirty := True\<rparr>"

definition node_b1 :: store where
  "node_b1 = node_b\<lparr>st_records := fmupd (cr_ID rec_b) rec_b fmempty, st_lamport := 1, st_version := 1, st_dirty := True\<rparr>"

lemma node_a_reach: "store_reach node_a"
  by (rule sr_Open [where unmarshal = "\<lambda>_. None" and n = "''a''" and p = "''/s''" and f = NotExist])
     (simp add: store_Open_def node_a_def)

lemma node_a_Put: "store_Put 5 KindFeed ''k'' (Some ''x'') node_a = (Inr rec_a, node_a1)"
  by (simp add: store_Put_def node_a_def node_a1_def rec_a_def bump_def cr_ID_def Let_def)

lemma node_a1_reach: "store_reach node_a1"
  using sr_Put [OF node_a_reach, of 5 KindFeed "''k''" "Some ''x''"] by (simp add: node_a_Put) (simp add: node_a_def)

lemma node_keyed: "keyed node_a1" "keyed node_b1" "ran (view node_a1) = {rec_a}" "ran (view node_b1) = {rec_b}"
  by (auto simp: keyed_def node_a1_def node_b1_def ran_def)

lemma rec_stamps: "unique_stamps {rec_a, rec_b}"
  by (simp add: unique_stamps_def stamp_def rec_a_def rec_b_def)

theorem anti_entropy_converges_witness:
  "keyed node_a1 \<and> keyed node_b1 \<and> node_a1 \<noteq> node_b1
   \<and> st_records (snd (store_Merge (Missing (Digests node_a1) node_b1) node_a1))
     = st_records (snd (store_Merge (Missing (Digests node_b1) node_a1) node_b1))"
  using anti_entropy_converges [OF node_keyed(1,2)] node_keyed rec_stamps
  by (simp add: insert_commute) (simp add: node_a1_def node_b1_def node_a_def node_b_def)

theorem merge_order_free_witness:
  "st_records (snd (store_Merge [rec_a, rec_b] node_a1)) = st_records (snd (store_Merge [rec_b, rec_a, rec_b] node_a1))"
  by (rule merge_order_free [OF node_keyed(1)]) (use rec_stamps in \<open>auto simp: node_keyed(3) insert_commute\<close>)

theorem put_supersedes_witness:
  "view node_a1 (make_ID KindFeed ''k'') = Some rec_a
   \<and> view (snd (store_Merge [rec_a] node_b)) (make_ID KindFeed ''k'') = Some rec_a"
proof -
  have "st_lamport node_a \<noteq> - 1" "keyed node_b" "\<forall>x e. view node_b x = Some e \<longrightarrow> cr_Lamport e \<le> st_lamport node_a"
    by (simp_all add: node_a_def node_b_def keyed_def)
  from put_supersedes [OF node_a_reach this(1) node_a_Put this(2,3)] show ?thesis by simp
qed

theorem delete_not_resurrected_witness:
  "\<exists>d s'. store_Delete 9 KindFeed ''k'' node_a1 = (d, s') \<and> cr_Deleted d
    \<and> view (snd (store_Merge [rec_b, rec_a] s')) (make_ID KindFeed ''k'') = Some d"
proof -
  obtain d s' where d: "store_Delete 9 KindFeed ''k'' node_a1 = (d, s')" by fastforce
  have "st_lamport node_a1 \<noteq> - 1" "\<forall>r \<in> set [rec_b, rec_a]. cr_Lamport r \<le> st_lamport node_a1"
    by (simp_all add: node_a1_def rec_a_def rec_b_def)
  from delete_not_resurrected [OF node_a1_reach this(1) d this(2)] d show ?thesis by blast
qed

theorem flush_reopen_witness:
  "\<exists>disk' s1 s2. store_Flush (\<lambda>_. Some ''j'') IoOK Map.empty node_a1 = (None, disk', s1) \<and> disk' ''/s'' = Some ''j''
    \<and> store_Open (\<lambda>_. Some (store_All node_a1)) ''a'' ''/s'' (Contents ''j'') = Inr s2 \<and> st_records s2 = st_records node_a1"
  using flush_reopen [OF node_a1_reach, of "\<lambda>_. Some ''j''" "''j''" "\<lambda>_. Some (store_All node_a1)" Map.empty]
  by (simp add: node_a1_def node_a_def)

theorem flush_atomic_witness:
  "fst (snd (store_Flush (\<lambda>_. Some ''new'') (WriteErr ''n'') [''/s'' \<mapsto> ''old''] node_a1)) ''/s'' = Some ''old''"
  using flush_atomic [of "\<lambda>_. Some ''new''" "WriteErr ''n''" "[''/s'' \<mapsto> ''old'']" node_a1 "Some WriteFailed"
      "[''/s'' \<mapsto> ''old'', ''/s.tmp'' \<mapsto> ''n'']" "node_a1\<lparr>st_dirty := False\<rparr>"]
  by (simp add: store_Flush_def node_a1_def node_a_def Let_def)

theorem failed_flush_forgotten_witness:
  "fst (store_Flush (\<lambda>_. Some ''new'') MkdirErr Map.empty node_a1) = Some MkdirFailed
   \<and> store_Flush (\<lambda>_. Some ''new'') IoOK Map.empty (node_a1\<lparr>st_dirty := False\<rparr>)
       = (None, Map.empty, node_a1\<lparr>st_dirty := False\<rparr>)"
proof -
  have "store_Flush (\<lambda>_. Some ''new'') MkdirErr Map.empty node_a1 = (Some MkdirFailed, Map.empty, node_a1\<lparr>st_dirty := False\<rparr>)"
    by (simp add: store_Flush_def node_a1_def node_a_def Let_def)
  from failed_flush_forgotten [OF this, of "\<lambda>_. Some ''new''" IoOK] this show ?thesis by simp
qed

end
