(* ===== verification/Control_Records.thy ===== *)
theory Control_Records
  imports Control_Store Policy_Rules Gostrings "HOL-Library.Multiset"
begin

text \<open>
  \<open>internal/control/records.go\<close> and the projection \<open>State\<close> of \<open>store.go\<close>: the typed records of the control plane, their validation and
  normal form, the keys they are filed under, and the view of a store the publisher works on.

  JSON encoding and decoding of the four record types, \<open>netip.ParsePrefix\<close>, \<open>Prefix.String\<close>, \<open>netip.ParseAddr\<close> and the
  unstable \<open>sort.Slice\<close> of a feed's entries are the fields of \<open>control_env\<close>; the predicate \<open>codec_ok\<close> states what
  the proofs rely on. The maps of \<open>State\<close> are finite maps; the lists drawn from them are sorted by the key, so Go's iteration
  order does not show. The texts of errors are left out: a rejection is the kind and the key.
\<close>

record sub_rec =
  sr_Prefix :: string
  sr_ID :: string
  sr_Class :: string

record ovr_rec =
  or_SubscriberID :: string
  or_Allow :: "string list"
  or_Block :: "string list"

record managed_entry =
  me_Name :: string
  me_Action :: string
  me_To :: "string list"
  me_Note :: string

record feed_rec =
  fdr_Name :: string
  fdr_Format :: string
  fdr_URL :: string
  fdr_File :: string
  fdr_RPZZone :: string
  fdr_SHA256 :: string
  fdr_Version :: u64
  fdr_Category :: string
  fdr_Mandatory :: bool
  fdr_Managed :: bool
  fdr_Entries :: "managed_entry list"

record class_rec =
  clr_Name :: string
  clr_Feeds :: "string list"
  clr_Action :: string
  clr_RedirectTo :: "string list"

record control_env =
  ce_ParsePrefix :: "string \<Rightarrow> prefix option"
  ce_PrefixString :: "prefix \<Rightarrow> string"
  ce_ParseAddr :: "string \<Rightarrow> addr option"
  ce_sortEntries :: "managed_entry list \<Rightarrow> managed_entry list"
  ce_decSub :: "string \<Rightarrow> sub_rec option"
  ce_encSub :: "sub_rec \<Rightarrow> string option"
  ce_decOvr :: "string \<Rightarrow> ovr_rec option"
  ce_encOvr :: "ovr_rec \<Rightarrow> string option"
  ce_decFeed :: "string \<Rightarrow> feed_rec option"
  ce_encFeed :: "feed_rec \<Rightarrow> string option"
  ce_decClass :: "string \<Rightarrow> class_rec option"
  ce_encClass :: "class_rec \<Rightarrow> string option"

record control_state =
  cst_subscribers :: "(string, sub_rec) fmap"
  cst_overrides :: "(string, ovr_rec) fmap"
  cst_feeds :: "(string, feed_rec) fmap"
  cst_classes :: "(string, class_rec) fmap"
  cst_rejected :: "(record_kind \<times> string) list"

datatype record_error = BadJSON | BadPrefixText | HostBits | NoClass | NoSubscriberID | NoFeedName | BadFormat | NoContent
  | NoEntryName | BadEntryAction | RedirectsNowhere | BadEntryAddr | NoClassName | NoDerivedKey | CannotValidate | MarshalFailed

definition state_reject :: "record_kind \<Rightarrow> string \<Rightarrow> control_state \<Rightarrow> control_state" where
  "state_reject kind key s = s\<lparr>cst_rejected := cst_rejected s @ [(kind, key)]\<rparr>"

definition NewState :: control_state where
  "NewState = \<lparr>cst_subscribers = fmempty, cst_overrides = fmempty, cst_feeds = fmempty, cst_classes = fmempty, cst_rejected = []\<rparr>"

text \<open>The values of a Go map, each once.\<close>

definition map_values :: "(string, 'v) fmap \<Rightarrow> 'v list" where
  "map_values m = map (\<lambda>k. the (fmlookup m k)) (sorted_list_of_fset (fmdom m))"

definition state_Subscribers :: "control_state \<Rightarrow> sub_rec list" where
  "state_Subscribers s = sort_key sr_Prefix (map_values (cst_subscribers s))"

definition state_Overrides :: "control_state \<Rightarrow> ovr_rec list" where
  "state_Overrides s = sort_key or_SubscriberID (map_values (cst_overrides s))"

definition state_Feeds :: "control_state \<Rightarrow> feed_rec list" where
  "state_Feeds s = sort_key fdr_Name (map_values (cst_feeds s))"

definition state_Classes :: "control_state \<Rightarrow> class_rec list" where
  "state_Classes s = sort_key clr_Name (map_values (cst_classes s))"

definition state_Counts :: "control_state \<Rightarrow> nat \<times> nat \<times> nat \<times> nat" where
  "state_Counts s = (size (fmdom (cst_subscribers s)), size (fmdom (cst_overrides s)), size (fmdom (cst_feeds s)), size (fmdom (cst_classes s)))"

section \<open>Setting and deleting\<close>

definition norm_subscriber :: "control_env \<Rightarrow> sub_rec \<Rightarrow> record_error + sub_rec" where
  "norm_subscriber C r = (case ce_ParsePrefix C (sr_Prefix r) of
       None \<Rightarrow> Inl BadPrefixText
     | Some p \<Rightarrow> if Masked p \<noteq> p then Inl HostBits
         else if sr_Class r = [] then Inl NoClass
         else Inr (r\<lparr>sr_Prefix := ce_PrefixString C p\<rparr>))"

definition setSubscriber :: "control_env \<Rightarrow> sub_rec \<Rightarrow> control_state \<Rightarrow> record_error + control_state" where
  "setSubscriber C r s = map_sum id (\<lambda>r'. s\<lparr>cst_subscribers := fmupd (sr_Prefix r') r' (cst_subscribers s)\<rparr>) (norm_subscriber C r)"

definition deleteSubscriber :: "control_env \<Rightarrow> string \<Rightarrow> control_state \<Rightarrow> record_error + control_state" where
  "deleteSubscriber C pfx s = (case ce_ParsePrefix C pfx of
       None \<Rightarrow> Inl BadPrefixText
     | Some p \<Rightarrow> Inr (s\<lparr>cst_subscribers := fmdrop (ce_PrefixString C (Masked p)) (cst_subscribers s)\<rparr>))"

fun name_loop :: "string list \<Rightarrow> string list \<Rightarrow> string list" where
  "name_loop [] out = out"
| "name_loop (n0 # ns) out = (let n = ToLower (TrimSpace n0) in
     if n = [] \<or> n \<in> set out then name_loop ns out else name_loop ns (out @ [n]))"

definition normaliseNames :: "string list \<Rightarrow> string list" where
  "normaliseNames ns = sort (name_loop ns [])"

definition norm_override :: "ovr_rec \<Rightarrow> record_error + ovr_rec" where
  "norm_override r = (if or_SubscriberID r = [] then Inl NoSubscriberID
     else Inr (r\<lparr>or_Allow := normaliseNames (or_Allow r), or_Block := normaliseNames (or_Block r)\<rparr>))"

definition setOverride :: "ovr_rec \<Rightarrow> control_state \<Rightarrow> record_error + control_state" where
  "setOverride r s = map_sum id (\<lambda>r'. s\<lparr>cst_overrides := fmupd (or_SubscriberID r') r' (cst_overrides s)\<rparr>) (norm_override r)"

definition deleteOverride :: "string \<Rightarrow> control_state \<Rightarrow> record_error + control_state" where
  "deleteOverride i s = (if i = [] then Inl NoSubscriberID else Inr (s\<lparr>cst_overrides := fmdrop i (cst_overrides s)\<rparr>))"

definition check_entry :: "control_env \<Rightarrow> managed_entry \<Rightarrow> record_error option" where
  "check_entry C e =
     (if me_Name e = [] then Some NoEntryName
      else if me_Action e \<notin> {[], ''nxdomain'', ''nodata'', ''redirect''} then Some BadEntryAction
      else if me_Action e = ''redirect'' \<and> me_To e = [] then Some RedirectsNowhere
      else if \<exists>t \<in> set (me_To e). ce_ParseAddr C t = None then Some BadEntryAddr
      else None)"

definition norm_entry :: "managed_entry \<Rightarrow> managed_entry" where
  "norm_entry e = e\<lparr>me_Name := ToLower (TrimSuffix (me_Name e) ''.'')\<rparr>"

definition norm_feed :: "control_env \<Rightarrow> feed_rec \<Rightarrow> record_error + feed_rec" where
  "norm_feed C r =
     (if fdr_Name r = [] then Inl NoFeedName
      else if fdr_Format r \<notin> {[], ''domain-list'', ''rpz''} then Inl BadFormat
      else if fdr_URL r = [] \<and> fdr_File r = [] \<and> \<not> fdr_Managed r then Inl NoContent
      else case first_some (check_entry C) (fdr_Entries r) of
          Some e \<Rightarrow> Inl e
        | None \<Rightarrow> Inr (r\<lparr>fdr_Category := ToLower (TrimSpace (fdr_Category r)),
            fdr_Entries := ce_sortEntries C (map norm_entry (fdr_Entries r))\<rparr>))"

definition setFeed :: "control_env \<Rightarrow> feed_rec \<Rightarrow> control_state \<Rightarrow> record_error + control_state" where
  "setFeed C r s = map_sum id (\<lambda>r'. s\<lparr>cst_feeds := fmupd (fdr_Name r') r' (cst_feeds s)\<rparr>) (norm_feed C r)"

definition deleteFeed :: "string \<Rightarrow> control_state \<Rightarrow> record_error + control_state" where
  "deleteFeed n s = (if n = [] then Inl NoFeedName else Inr (s\<lparr>cst_feeds := fmdrop n (cst_feeds s)\<rparr>))"

definition norm_class :: "class_rec \<Rightarrow> record_error + class_rec" where
  "norm_class r = (if clr_Name r = [] then Inl NoClassName
     else Inr (r\<lparr>clr_Name := ToLower (clr_Name r), clr_Feeds := sort (clr_Feeds r)\<rparr>))"

definition setClass :: "class_rec \<Rightarrow> control_state \<Rightarrow> record_error + control_state" where
  "setClass r s = map_sum id (\<lambda>r'. s\<lparr>cst_classes := fmupd (clr_Name r') r' (cst_classes s)\<rparr>) (norm_class r)"

definition deleteClass :: "string \<Rightarrow> control_state \<Rightarrow> record_error + control_state" where
  "deleteClass n s = (if n = [] then Inl NoClassName else Inr (s\<lparr>cst_classes := fmdrop (ToLower n) (cst_classes s)\<rparr>))"

section \<open>Keys and canonical payloads\<close>

text \<open>\<open>json.Unmarshal\<close> and then a step, as every branch of the functions below does.\<close>

definition decoded :: "'r option \<Rightarrow> ('r \<Rightarrow> record_error + 'a) \<Rightarrow> record_error + 'a" where
  "decoded d f = (case d of None \<Rightarrow> Inl BadJSON | Some r \<Rightarrow> f r)"

definition KeyFor :: "control_env \<Rightarrow> record_kind \<Rightarrow> string \<Rightarrow> record_error + string" where
  "KeyFor C kind payload =
     (if kind = KindSubscriber then decoded (ce_decSub C payload) (\<lambda>v. case ce_ParsePrefix C (sr_Prefix v) of
          None \<Rightarrow> Inl BadPrefixText | Some p \<Rightarrow> Inr (ce_PrefixString C (Masked p)))
      else if kind = KindOverride then decoded (ce_decOvr C payload) (\<lambda>v. Inr (or_SubscriberID v))
      else if kind = KindFeed then decoded (ce_decFeed C payload) (\<lambda>v. Inr (fdr_Name v))
      else if kind = KindClass then decoded (ce_decClass C payload) (\<lambda>v. Inr (ToLower (clr_Name v)))
      else Inl NoDerivedKey)"

text \<open>\<open>Canonical\<close> stores the record into an empty state and marshals the only record of that state.\<close>

definition marshalled :: "('r \<Rightarrow> string option) \<Rightarrow> ('s \<Rightarrow> 'r list) \<Rightarrow> record_error + 's \<Rightarrow> record_error + string" where
  "marshalled enc list s = (case s of Inl e \<Rightarrow> Inl e
     | Inr s' \<Rightarrow> (case enc (list s' ! 0) of None \<Rightarrow> Inl MarshalFailed | Some b \<Rightarrow> Inr b))"

definition Canonical :: "control_env \<Rightarrow> record_kind \<Rightarrow> string \<Rightarrow> record_error + string" where
  "Canonical C kind payload =
     (if kind = KindSubscriber then decoded (ce_decSub C payload) (\<lambda>v. marshalled (ce_encSub C) state_Subscribers (setSubscriber C v NewState))
      else if kind = KindOverride then decoded (ce_decOvr C payload) (\<lambda>v. marshalled (ce_encOvr C) state_Overrides (setOverride v NewState))
      else if kind = KindFeed then decoded (ce_decFeed C payload) (\<lambda>v. marshalled (ce_encFeed C) state_Feeds (setFeed C v NewState))
      else if kind = KindClass then decoded (ce_decClass C payload) (\<lambda>v. marshalled (ce_encClass C) state_Classes (setClass v NewState))
      else Inl CannotValidate)"

definition Validate :: "control_env \<Rightarrow> record_kind \<Rightarrow> string \<Rightarrow> record_error option" where
  "Validate C kind payload = (case Canonical C kind payload of Inl e \<Rightarrow> Some e | Inr _ \<Rightarrow> None)"

section \<open>The state of a store\<close>

definition taken :: "crecord \<Rightarrow> control_state \<Rightarrow> record_error + control_state \<Rightarrow> control_state" where
  "taken r s res = (case res of Inl _ \<Rightarrow> state_reject (cr_Kind r) (cr_Key r) s | Inr s' \<Rightarrow> s')"

definition state_step :: "control_env \<Rightarrow> control_state \<Rightarrow> crecord \<Rightarrow> control_state" where
  "state_step C s r =
     (if cr_Kind r = KindSubscriber then taken r s (decoded (ce_decSub C (cr_Payload r)) (\<lambda>v. setSubscriber C v s))
      else if cr_Kind r = KindOverride then taken r s (decoded (ce_decOvr C (cr_Payload r)) (\<lambda>v. setOverride v s))
      else if cr_Kind r = KindFeed then taken r s (decoded (ce_decFeed C (cr_Payload r)) (\<lambda>v. setFeed C v s))
      else if cr_Kind r = KindClass then taken r s (decoded (ce_decClass C (cr_Payload r)) (\<lambda>v. setClass v s))
      else s)"

definition store_State :: "control_env \<Rightarrow> store \<Rightarrow> control_state \<times> u64" where
  "store_State C s = (foldl (state_step C) NewState (recordsLocked False s), st_version s)"


section \<open>One record, whatever its kind\<close>

text \<open>For the proofs: the four record types as one, the key and the normal form a payload gives, and the lookup of a record in a
  state. \<open>same_record\<close> leaves the order of a feed's entries open, which \<open>sort.Slice\<close> may choose for entries of one name.\<close>

datatype any_rec = SubR sub_rec | OvrR ovr_rec | FeedR feed_rec | ClassR class_rec

definition dec_any :: "control_env \<Rightarrow> record_kind \<Rightarrow> string \<Rightarrow> any_rec option" where
  "dec_any C kind payload =
     (if kind = KindSubscriber then map_option SubR (ce_decSub C payload)
      else if kind = KindOverride then map_option OvrR (ce_decOvr C payload)
      else if kind = KindFeed then map_option FeedR (ce_decFeed C payload)
      else if kind = KindClass then map_option ClassR (ce_decClass C payload) else None)"

fun enc_any :: "control_env \<Rightarrow> any_rec \<Rightarrow> string option" where
  "enc_any C (SubR r) = ce_encSub C r"
| "enc_any C (OvrR r) = ce_encOvr C r"
| "enc_any C (FeedR r) = ce_encFeed C r"
| "enc_any C (ClassR r) = ce_encClass C r"

fun any_key :: "any_rec \<Rightarrow> string" where
  "any_key (SubR r) = sr_Prefix r"
| "any_key (OvrR r) = or_SubscriberID r"
| "any_key (FeedR r) = fdr_Name r"
| "any_key (ClassR r) = clr_Name r"

fun norm_any :: "control_env \<Rightarrow> any_rec \<Rightarrow> record_error + any_rec" where
  "norm_any C (SubR r) = map_sum id SubR (norm_subscriber C r)"
| "norm_any C (OvrR r) = map_sum id OvrR (norm_override r)"
| "norm_any C (FeedR r) = map_sum id FeedR (norm_feed C r)"
| "norm_any C (ClassR r) = map_sum id ClassR (norm_class r)"

definition state_at :: "record_kind \<Rightarrow> control_state \<Rightarrow> string \<Rightarrow> any_rec option" where
  "state_at kind s k =
     (if kind = KindSubscriber then map_option SubR (fmlookup (cst_subscribers s) k)
      else if kind = KindOverride then map_option OvrR (fmlookup (cst_overrides s) k)
      else if kind = KindFeed then map_option FeedR (fmlookup (cst_feeds s) k)
      else if kind = KindClass then map_option ClassR (fmlookup (cst_classes s) k) else None)"

fun same_record :: "any_rec \<Rightarrow> any_rec \<Rightarrow> bool" where
  "same_record (FeedR r) (FeedR r') \<longleftrightarrow> r' = r\<lparr>fdr_Entries := fdr_Entries r'\<rparr> \<and> mset (fdr_Entries r') = mset (fdr_Entries r)"
| "same_record a a' \<longleftrightarrow> a' = a"

text \<open>What the code relies on of the JSON codec, of \<open>netip\<close> and of \<open>sort.Slice\<close>.\<close>

definition codec_ok :: "control_env \<Rightarrow> bool" where
  "codec_ok C \<longleftrightarrow>
     (\<forall>r b. ce_encSub C r = Some b \<longrightarrow> ce_decSub C b = Some r) \<and> (\<forall>r b. ce_encOvr C r = Some b \<longrightarrow> ce_decOvr C b = Some r)
     \<and> (\<forall>r b. ce_encFeed C r = Some b \<longrightarrow> ce_decFeed C b = Some r) \<and> (\<forall>r b. ce_encClass C r = Some b \<longrightarrow> ce_decClass C b = Some r)
     \<and> (\<forall>t p. ce_ParsePrefix C t = Some p \<longrightarrow> ce_ParsePrefix C (ce_PrefixString C p) = Some p)
     \<and> (\<forall>es. mset (ce_sortEntries C es) = mset es)"

lemma kinds_distinct [simp]:
  "KindSubscriber \<noteq> KindOverride" "KindSubscriber \<noteq> KindFeed" "KindSubscriber \<noteq> KindClass" "KindOverride \<noteq> KindFeed"
  "KindOverride \<noteq> KindClass" "KindFeed \<noteq> KindClass" "KindOverride \<noteq> KindSubscriber" "KindFeed \<noteq> KindSubscriber"
  "KindClass \<noteq> KindSubscriber" "KindFeed \<noteq> KindOverride" "KindClass \<noteq> KindOverride" "KindClass \<noteq> KindFeed"
  by (simp_all add: KindSubscriber_def KindOverride_def KindFeed_def KindClass_def)

lemma dec_any_cases:
  assumes "dec_any C kind payload = Some a"
  obtains (Sub) r where "kind = KindSubscriber" "a = SubR r" "ce_decSub C payload = Some r"
    | (Ovr) r where "kind = KindOverride" "a = OvrR r" "ce_decOvr C payload = Some r"
    | (Feed) r where "kind = KindFeed" "a = FeedR r" "ce_decFeed C payload = Some r"
    | (Class) r where "kind = KindClass" "a = ClassR r" "ce_decClass C payload = Some r"
  using assms by (auto simp: dec_any_def split: if_splits)

lemma map_values_single [simp]: "map_values (fmupd k v fmempty) = [v]"
  by (simp add: map_values_def sorted_list_of_fset.rep_eq)

lemmas set_defs = setSubscriber_def setOverride_def setFeed_def setClass_def
lemmas list_defs = state_Subscribers_def state_Overrides_def state_Feeds_def state_Classes_def

lemma marshalled_Inr:
  "marshalled enc list (map_sum id f n) = Inr c \<longleftrightarrow> (\<exists>r. n = Inr r \<and> enc (list (f r) ! 0) = Some c)"
  by (cases n) (auto simp: marshalled_def split: option.splits)

lemma decoded_Inr: "decoded d f = Inr c \<longleftrightarrow> (\<exists>r. d = Some r \<and> f r = Inr c)"
  by (auto simp: decoded_def split: option.splits)

lemma map_sum_Inr: "map_sum id f n = Inr a \<longleftrightarrow> (\<exists>r. n = Inr r \<and> a = f r)"
  by (cases n) auto

lemma Canonical_norm:
  assumes "Canonical C kind payload = Inr c"
  obtains a a' where "dec_any C kind payload = Some a" "norm_any C a = Inr a'" "enc_any C a' = Some c"
proof -
  have "\<exists>a. dec_any C kind payload = Some a \<and> (\<exists>a'. norm_any C a = Inr a' \<and> enc_any C a' = Some c)"
  proof (cases "kind = KindSubscriber \<or> kind = KindOverride")
    case True
    with assms show ?thesis
      by (elim disjE) (auto simp: Canonical_def decoded_Inr set_defs list_defs marshalled_Inr NewState_def dec_any_def map_sum_Inr)
  next
    case False
    with assms show ?thesis
      by (auto simp: Canonical_def decoded_Inr set_defs list_defs marshalled_Inr NewState_def dec_any_def map_sum_Inr split: if_splits)
  qed
  with that show ?thesis by blast
qed

lemma taken_keeps:
  "(\<And>s'. res = Inr s' \<Longrightarrow> g s' = g s) \<Longrightarrow> g (state_reject (cr_Kind r) (cr_Key r) s) = g s \<Longrightarrow> g (taken r s res) = g s"
  by (cases res) (simp_all add: taken_def)

definition normal :: "control_env \<Rightarrow> record_kind \<Rightarrow> string \<Rightarrow> any_rec option" where
  "normal C kind payload = Option.bind (dec_any C kind payload) (\<lambda>a. case norm_any C a of Inr a' \<Rightarrow> Some a' | Inl _ \<Rightarrow> None)"

lemma state_at_step:
  "state_at kind (state_step C s r) k =
     (case (if cr_Kind r = kind then normal C kind (cr_Payload r) else None) of
          Some a' \<Rightarrow> if any_key a' = k then Some a' else state_at kind s k
        | None \<Rightarrow> state_at kind s k)"
proof (cases "cr_Kind r = kind")
  case True
  consider "kind = KindSubscriber" | "kind = KindOverride" | "kind = KindFeed" | "kind = KindClass"
    | "kind \<notin> {KindSubscriber, KindOverride, KindFeed, KindClass}" by blast
  then show ?thesis
  proof cases
    case 1
    then show ?thesis using True
      by (cases "ce_decSub C (cr_Payload r)"; cases "norm_subscriber C (the (ce_decSub C (cr_Payload r)))")
        (auto simp: state_step_def state_at_def dec_any_def normal_def decoded_def set_defs state_reject_def taken_def)
  next
    case 2
    then show ?thesis using True
      by (cases "ce_decOvr C (cr_Payload r)"; cases "norm_override (the (ce_decOvr C (cr_Payload r)))")
        (auto simp: state_step_def state_at_def dec_any_def normal_def decoded_def set_defs state_reject_def taken_def)
  next
    case 3
    then show ?thesis using True
      by (cases "ce_decFeed C (cr_Payload r)"; cases "norm_feed C (the (ce_decFeed C (cr_Payload r)))")
        (auto simp: state_step_def state_at_def dec_any_def normal_def decoded_def set_defs state_reject_def taken_def)
  next
    case 4
    then show ?thesis using True
      by (cases "ce_decClass C (cr_Payload r)"; cases "norm_class (the (ce_decClass C (cr_Payload r)))")
        (auto simp: state_step_def state_at_def dec_any_def normal_def decoded_def set_defs state_reject_def taken_def)
  qed (use True in \<open>auto simp: state_step_def state_at_def dec_any_def normal_def\<close>)
next
  case False
  note keeps = decoded_Inr set_defs map_sum_Inr state_reject_def
  have "cst_subscribers (state_step C s r) = cst_subscribers s" if "cr_Kind r \<noteq> KindSubscriber"
    using that by (auto simp: state_step_def keeps intro!: taken_keeps [where g = cst_subscribers])
  moreover have "cst_overrides (state_step C s r) = cst_overrides s" if "cr_Kind r \<noteq> KindOverride"
    using that by (auto simp: state_step_def keeps intro!: taken_keeps [where g = cst_overrides])
  moreover have "cst_feeds (state_step C s r) = cst_feeds s" if "cr_Kind r \<noteq> KindFeed"
    using that by (auto simp: state_step_def keeps intro!: taken_keeps [where g = cst_feeds])
  moreover have "cst_classes (state_step C s r) = cst_classes s" if "cr_Kind r \<noteq> KindClass"
    using that by (auto simp: state_step_def keeps intro!: taken_keeps [where g = cst_classes])
  ultimately show ?thesis using False by (simp add: state_at_def)
qed

section \<open>What is written is what is in force\<close>

lemma ToLower_idem [simp]: "ToLower (ToLower s) = ToLower s"
  by (simp add: ToLower_def)

lemma ToLower_Nil [simp]: "ToLower s = [] \<longleftrightarrow> s = []"
  by (simp add: ToLower_def)

lemma isSpace_lower [simp]: "isSpace (lower c) = isSpace c"
  using of_char_lower [of c] by (auto simp: isSpace_def lower_def split: if_splits)

lemma TrimSpace_idem [simp]: "TrimSpace (TrimSpace s) = TrimSpace s"
proof -
  have d: "dropWhile P (rev (dropWhile P (rev (dropWhile P s)))) = rev (dropWhile P (rev (dropWhile P s)))" for P :: "char \<Rightarrow> bool"
  proof -
    let ?t = "dropWhile P s"
    have "rev (dropWhile P (rev ?t)) = [] \<or> \<not> P (hd (rev (dropWhile P (rev ?t))))"
    proof (cases "rev (dropWhile P (rev ?t))")
      case (Cons c cs)
      have "?t = rev (dropWhile P (rev ?t)) @ rev (takeWhile P (rev ?t))"
        by (metis rev_append rev_rev_ident takeWhile_dropWhile_id)
      then have t: "hd ?t = c" "?t \<noteq> []" using Cons by (metis append_Cons list.sel(1), metis append_is_Nil_conv list.simps(3))
      with hd_dropWhile [of P s] Cons show ?thesis by simp
    qed simp
    then show ?thesis by (simp only: dropWhile_eq_self_iff)
  qed
  show ?thesis by (simp add: TrimSpace_def d dropWhile_idem)
qed

lemma TrimSpace_map_lower: "TrimSpace (ToLower s) = ToLower (TrimSpace s)"
  by (simp add: TrimSpace_def ToLower_def rev_map dropWhile_map o_def)

lemma name_loop_set: "set (name_loop ns out) = set out \<union> {n \<in> (\<lambda>x. ToLower (TrimSpace x)) ` set ns. n \<noteq> []}"
  by (induction ns arbitrary: out) (auto simp: Let_def)

lemma name_loop_distinct: "distinct out \<Longrightarrow> distinct (name_loop ns out)"
  by (induction ns arbitrary: out) (auto simp: Let_def)

lemma name_loop_id:
  "distinct (out @ ns) \<Longrightarrow> (\<And>n. n \<in> set ns \<Longrightarrow> n \<noteq> [] \<and> ToLower (TrimSpace n) = n) \<Longrightarrow> name_loop ns out = out @ ns"
  by (induction ns arbitrary: out) (auto simp: Let_def)

lemma normaliseNames_idem [simp]: "normaliseNames (normaliseNames ns) = normaliseNames ns"
proof -
  let ?n = "normaliseNames ns"
  have "n \<noteq> [] \<and> ToLower (TrimSpace n) = n" if "n \<in> set ?n" for n
    using that by (auto simp: normaliseNames_def name_loop_set TrimSpace_map_lower [symmetric])
  moreover have "distinct ?n" by (simp add: normaliseNames_def name_loop_distinct)
  ultimately have "name_loop ?n [] = ?n" using name_loop_id [of "[]" ?n] by simp
  then show ?thesis by (simp add: normaliseNames_def sorted_sort_id)
qed

text \<open>Entry names with at most one dot at the end, and more than that dot: \<open>setFeed\<close> takes one dot away each time it sees a name.\<close>

definition single_dots :: "any_rec \<Rightarrow> bool" where
  "single_dots a = (case a of FeedR r \<Rightarrow> (\<forall>e \<in> set (fdr_Entries r). me_Name e \<noteq> ''.'' \<and> \<not> suffix ''..'' (me_Name e)) | _ \<Rightarrow> True)"

lemma norm_entry_idem:
  assumes "me_Name e \<noteq> ''.''" "\<not> suffix ''..'' (me_Name e)" "me_Name e \<noteq> []"
  shows "norm_entry (norm_entry e) = norm_entry e \<and> me_Name (norm_entry e) \<noteq> []"
proof -
  let ?t = "TrimSuffix (me_Name e) ''.''"
  have "\<not> suffix ''.'' ?t \<and> ?t \<noteq> []"
  proof (cases "suffix ''.'' (me_Name e)")
    case True
    then obtain u where u: "me_Name e = u @ ''.''" by (auto simp: suffix_def)
    then have "\<not> suffix ''.'' u" using assms(2) by (auto simp: suffix_def)
    with u assms(1) show ?thesis by (auto simp: TrimSuffix_def suffix_def)
  qed (use assms in \<open>simp add: TrimSuffix_def\<close>)
  moreover have "suffix ''.'' (ToLower s) = suffix ''.'' s" for s
    by (cases s rule: rev_cases) (auto simp: ToLower_def suffix_def)
  ultimately show ?thesis by (simp add: norm_entry_def TrimSuffix_def)
qed

lemma check_entry_norm: "check_entry C e = None \<Longrightarrow> me_Name (norm_entry e) \<noteq> [] \<Longrightarrow> check_entry C (norm_entry e) = None"
  by (auto simp: check_entry_def norm_entry_def split: if_splits)

lemma norm_feed_again:
  assumes C: "codec_ok C" and n: "norm_feed C r = Inr r'" and d: "single_dots (FeedR r)"
  shows "\<exists>r''. norm_feed C r' = Inr r'' \<and> same_record (FeedR r') (FeedR r'')"
proof -
  have perm: "mset (ce_sortEntries C es) = mset es" for es using C by (simp add: codec_ok_def)
  then have set_eq: "set (ce_sortEntries C es) = set es" for es by (metis set_mset_mset)
  have ok: "check_entry C e = None" if "e \<in> set (fdr_Entries r)" for e
    using n that by (auto simp: norm_feed_def first_some_None split: if_splits option.splits)
  have e: "norm_entry (norm_entry e) = norm_entry e \<and> check_entry C (norm_entry e) = None" if "e \<in> set (fdr_Entries r)" for e
  proof -
    have "me_Name e \<noteq> []" using ok [OF that] by (auto simp: check_entry_def split: if_splits)
    with norm_entry_idem [of e] d that check_entry_norm [OF ok [OF that]] show ?thesis by (auto simp: single_dots_def)
  qed
  have r': "fdr_Entries r' = ce_sortEntries C (map norm_entry (fdr_Entries r))" "fdr_Category r' = ToLower (TrimSpace (fdr_Category r))"
    "fdr_Name r' = fdr_Name r" "fdr_Format r' = fdr_Format r" "fdr_URL r' = fdr_URL r" "fdr_File r' = fdr_File r" "fdr_Managed r' = fdr_Managed r"
    using n by (auto simp: norm_feed_def split: if_splits option.splits)
  have m: "map norm_entry (fdr_Entries r') = fdr_Entries r'"
    by (rule map_idI) (use e in \<open>auto simp: r' set_eq\<close>)
  have "first_some (check_entry C) (fdr_Entries r') = None" using e by (auto simp: first_some_None r' set_eq)
  then have "norm_feed C r' = Inr (r'\<lparr>fdr_Category := ToLower (TrimSpace (fdr_Category r')), fdr_Entries := ce_sortEntries C (fdr_Entries r')\<rparr>)"
    using n m r' by (auto simp: norm_feed_def split: if_splits option.splits)
  moreover have "ToLower (TrimSpace (fdr_Category r')) = fdr_Category r'" by (simp add: r' TrimSpace_map_lower [symmetric])
  ultimately show ?thesis by (simp add: perm)
qed

lemma normal_Some: "normal C kind payload = Some a' \<longleftrightarrow> (\<exists>a. dec_any C kind payload = Some a \<and> norm_any C a = Inr a')"
  by (cases "dec_any C kind payload"; cases "norm_any C (the (dec_any C kind payload))") (auto simp: normal_def)

lemma normal_key:
  assumes "normal C kind payload = Some a"
  shows "KeyFor C kind payload = Inr (any_key a)"
proof -
  obtain a0 where a0: "dec_any C kind payload = Some a0" "norm_any C a0 = Inr a" using assms by (auto simp: normal_Some)
  from a0(1) show ?thesis
    by (cases rule: dec_any_cases)
      (use a0(2) in \<open>auto simp: KeyFor_def decoded_def map_sum_Inr norm_subscriber_def norm_override_def norm_feed_def norm_class_def
        split: if_splits option.splits\<close>)
qed

lemma canonical_normal:
  assumes C: "codec_ok C" and "Canonical C kind payload = Inr c" and "\<forall>a. dec_any C kind payload = Some a \<longrightarrow> single_dots a"
  shows "\<exists>a a'. dec_any C kind c = Some a \<and> normal C kind c = Some a' \<and> same_record a a' \<and> (kind \<noteq> KindFeed \<longrightarrow> Canonical C kind c = Inr c)"
proof -
  obtain a0 a where a: "dec_any C kind payload = Some a0" "norm_any C a0 = Inr a" "enc_any C a = Some c"
    using Canonical_norm [OF assms(2)] by blast
  from a(1) show ?thesis
  proof (cases rule: dec_any_cases)
    case (Sub r)
    with a obtain p where p: "ce_ParsePrefix C (sr_Prefix r) = Some p" "Masked p = p" "sr_Class r \<noteq> []" "a = SubR (r\<lparr>sr_Prefix := ce_PrefixString C p\<rparr>)"
      by (auto simp: map_sum_Inr norm_subscriber_def split: option.splits if_splits)
    have "ce_decSub C c = Some (r\<lparr>sr_Prefix := ce_PrefixString C p\<rparr>)" "ce_ParsePrefix C (ce_PrefixString C p) = Some p"
      using C a(3) p by (auto simp: codec_ok_def)
    with Sub p a(3) show ?thesis
      by (simp add: dec_any_def normal_def norm_subscriber_def Canonical_def decoded_def marshalled_def set_defs list_defs NewState_def)
  next
    case (Ovr r)
    with a have r: "or_SubscriberID r \<noteq> []" "a = OvrR (r\<lparr>or_Allow := normaliseNames (or_Allow r), or_Block := normaliseNames (or_Block r)\<rparr>)"
      by (auto simp: map_sum_Inr norm_override_def split: if_splits)
    have "ce_decOvr C c = Some (r\<lparr>or_Allow := normaliseNames (or_Allow r), or_Block := normaliseNames (or_Block r)\<rparr>)"
      using C a(3) r by (auto simp: codec_ok_def)
    with Ovr r a(3) show ?thesis
      by (simp add: dec_any_def normal_def norm_override_def Canonical_def decoded_def marshalled_def set_defs list_defs NewState_def)
  next
    case (Feed r)
    with a obtain r' where r': "norm_feed C r = Inr r'" "a = FeedR r'" by (auto simp: map_sum_Inr)
    have "ce_decFeed C c = Some r'" using C a(3) r' by (auto simp: codec_ok_def)
    moreover have "single_dots (FeedR r)" using assms(3) a(1) Feed by blast
    ultimately show ?thesis using norm_feed_again [OF C r'(1)] Feed(1) by (auto simp: dec_any_def normal_def)
  next
    case (Class r)
    with a have r: "clr_Name r \<noteq> []" "a = ClassR (r\<lparr>clr_Name := ToLower (clr_Name r), clr_Feeds := sort (clr_Feeds r)\<rparr>)"
      by (auto simp: map_sum_Inr norm_class_def split: if_splits)
    have "ce_decClass C c = Some (r\<lparr>clr_Name := ToLower (clr_Name r), clr_Feeds := sort (clr_Feeds r)\<rparr>)"
      using C a(3) r by (auto simp: codec_ok_def)
    with Class r a(3) show ?thesis
      by (simp add: dec_any_def normal_def norm_class_def Canonical_def decoded_def marshalled_def set_defs list_defs NewState_def sorted_sort_id)
  qed
qed

lemma fold_state_at:
  assumes "normal C kind (cr_Payload r) = Some a" "cr_Kind r = kind"
  shows "r \<in> set rs \<Longrightarrow> (\<And>r' a'. r' \<in> set rs \<Longrightarrow> cr_Kind r' = kind \<Longrightarrow> normal C kind (cr_Payload r') = Some a' \<Longrightarrow> any_key a' = any_key a \<Longrightarrow> r' = r)
    \<Longrightarrow> state_at kind (foldl (state_step C) s rs) (any_key a) = Some a"
proof (induction rs rule: rev_induct)
  case (snoc x rs)
  show ?case
  proof (cases "x = r")
    case True
    then show ?thesis using assms by (simp add: state_at_step)
  next
    case False
    then have "state_at kind (foldl (state_step C) s rs) (any_key a) = Some a" by (intro snoc.IH) (use snoc.prems in auto)
    with snoc.prems(2) [of x] False show ?thesis by (auto simp: state_at_step split: option.splits)
  qed
qed simp

lemma set_recordsLive: "set (recordsLocked False s) = {r \<in> ran (view s). \<not> cr_Deleted r}"
  by (auto simp: recordsLocked_def set_all_records)

text \<open>C16. What an operator is told was written is what is in force: when the API's \<open>Canonical\<close> has turned a payload into the form it stores, and the
  store holds that form, live, under the key derived from it, then the state the publisher reads has under that key exactly
  the record stored (the order of a feed's entries of one name apart), as long as the other records of the kind are filed under their own
  keys. A canonical subscriber, override or class is its own canonical form. For a feed, no entry name may be the root or end in two dots.\<close>

theorem canonical_in_force:
  assumes "codec_ok C" and "Canonical C kind payload = Inr c" and "\<forall>a. dec_any C kind payload = Some a \<longrightarrow> single_dots a"
    and "KeyFor C kind c = Inr key" and "keyed s" and "view s (make_ID kind key) = Some r" and "cr_Payload r = c" and "\<not> cr_Deleted r"
    and "\<forall>r' \<in> ran (view s). cr_Kind r' = kind \<longrightarrow> KeyFor C kind (cr_Payload r') = Inr (cr_Key r')"
  shows "(\<exists>a a'. dec_any C kind c = Some a \<and> state_at kind (fst (store_State C s)) key = Some a' \<and> same_record a a')
    \<and> (kind \<noteq> KindFeed \<longrightarrow> Canonical C kind c = Inr c)"
proof -
  obtain a a' where a: "dec_any C kind c = Some a" "normal C kind c = Some a'" "same_record a a'" "kind \<noteq> KindFeed \<longrightarrow> Canonical C kind c = Inr c"
    using canonical_normal [OF assms(1-3)] by blast
  have key: "any_key a' = key" using normal_key [OF a(2)] assms(4) by simp
  have "cr_ID r = cr_ID \<lparr>cr_Kind = kind, cr_Key = key, cr_Lamport = 0, cr_Origin = [], cr_Deleted = False, cr_Updated = 0, cr_Payload = []\<rparr>"
    using assms(5,6) by (simp add: keyed_def cr_ID_def)
  then have r: "cr_Kind r = kind" "cr_Key r = key" unfolding record_ID_injective by simp_all
  have same: "r' = r" if "r' \<in> ran (view s)" "cr_Kind r' = kind" "normal C kind (cr_Payload r') = Some b" "any_key b = key" for r' b
  proof -
    from that(1) obtain x where x: "view s x = Some r'" by (auto simp: ran_def)
    have "cr_Key r' = key" using normal_key [OF that(3)] assms(9) that by auto
    with that(2) r have "cr_ID r' = cr_ID r" by (simp add: cr_ID_def)
    with x assms(5,6) show "r' = r" by (auto simp: keyed_def)
  qed
  have "state_at kind (foldl (state_step C) NewState (recordsLocked False s)) (any_key a') = Some a'"
  proof (rule fold_state_at)
    show "normal C kind (cr_Payload r) = Some a'" "cr_Kind r = kind" using a(2) assms(7) r by simp_all
    show "r \<in> set (recordsLocked False s)" using assms(6,8) by (auto simp: set_recordsLive ran_def)
  qed (use same key in \<open>auto simp: set_recordsLive\<close>)
  with a key show ?thesis by (auto simp: store_State_def)
qed

text \<open>A managed feed with an entry for the root is accepted and never in force: \<open>setFeed\<close> takes the final dot off the name only after it
  has checked that there is one, so the canonical form \<open>Canonical\<close> returns for storing has an entry without a name, and the
  projection to the publisher's state rejects that record, wherever and whenever it is replayed.\<close>

theorem root_entry_never_in_force:
  assumes "codec_ok C" and "ce_decFeed C payload = Some r" and "e \<in> set (fdr_Entries r)" and "me_Name e = ''.''"
    and "Canonical C KindFeed payload = Inr c" and "cr_Kind rec = KindFeed" and "cr_Payload rec = c"
  shows "state_step C st rec = state_reject KindFeed (cr_Key rec) st"
proof -
  obtain a a' where a: "dec_any C KindFeed payload = Some a" "norm_any C a = Inr a'" "enc_any C a' = Some c"
    by (rule Canonical_norm [OF assms(5)])
  then have "a = FeedR r" using assms(2) by (simp add: dec_any_def)
  with a obtain r' where r': "norm_feed C r = Inr r'" "ce_encFeed C r' = Some c" by (auto simp: map_sum_Inr)
  have dec: "ce_decFeed C c = Some r'" and "mset (ce_sortEntries C (map norm_entry (fdr_Entries r))) = mset (map norm_entry (fdr_Entries r))"
    using assms(1) r'(2) by (simp_all add: codec_ok_def)
  moreover have "fdr_Entries r' = ce_sortEntries C (map norm_entry (fdr_Entries r))"
    using r'(1) by (auto simp: norm_feed_def split: if_splits option.splits)
  ultimately have "set (fdr_Entries r') = norm_entry ` set (fdr_Entries r)" by (metis list.set_map mset_eq_setD)
  then have "norm_entry e \<in> set (fdr_Entries r')" using assms(3) by blast
  moreover have "check_entry C (norm_entry e) = Some NoEntryName"
    by (simp add: check_entry_def norm_entry_def assms(4) TrimSuffix_def ToLower_def)
  ultimately have "first_some (check_entry C) (fdr_Entries r') \<noteq> None" by (auto simp: first_some_None)
  moreover have "norm_feed C r' = Inr x \<Longrightarrow> first_some (check_entry C) (fdr_Entries r') = None" for x
    by (auto simp: norm_feed_def split: if_splits option.splits)
  ultimately obtain x where "norm_feed C r' = Inl x" by (cases "norm_feed C r'") auto
  with dec assms(6,7) show ?thesis by (simp add: state_step_def taken_def decoded_def set_defs)
qed

section \<open>Witnesses\<close>

definition gold_typed :: class_rec where
  "gold_typed = \<lparr>clr_Name = ''Gold'', clr_Feeds = [''b'', ''a''], clr_Action = [], clr_RedirectTo = []\<rparr>"

definition gold_kept :: class_rec where
  "gold_kept = \<lparr>clr_Name = ''gold'', clr_Feeds = [''a'', ''b''], clr_Action = [], clr_RedirectTo = []\<rparr>"

definition root_feed :: "string \<Rightarrow> feed_rec" where
  "root_feed n = \<lparr>fdr_Name = ''f'', fdr_Format = [], fdr_URL = [], fdr_File = [], fdr_RPZZone = [], fdr_SHA256 = [], fdr_Version = 0, fdr_Category = [],
     fdr_Mandatory = True, fdr_Managed = True, fdr_Entries = [\<lparr>me_Name = n, me_Action = [], me_To = [], me_Note = []\<rparr>]\<rparr>"

definition test_ctl :: control_env where
  "test_ctl = \<lparr>ce_ParsePrefix = \<lambda>_. None, ce_PrefixString = \<lambda>_. [], ce_ParseAddr = \<lambda>_. None, ce_sortEntries = sort_key me_Name,
     ce_decSub = \<lambda>_. None, ce_encSub = \<lambda>_. None, ce_decOvr = \<lambda>_. None, ce_encOvr = \<lambda>_. None,
     ce_decFeed = (\<lambda>b. if b = ''P'' then Some (root_feed ''.'') else if b = ''Q'' then Some (root_feed []) else None),
     ce_encFeed = (\<lambda>r. if r = root_feed [] then Some ''Q'' else None),
     ce_decClass = (\<lambda>b. if b = ''P'' then Some gold_typed else if b = ''Q'' then Some gold_kept else None),
     ce_encClass = (\<lambda>r. if r = gold_kept then Some ''Q'' else None)\<rparr>"

definition gold_record :: crecord where
  "gold_record = \<lparr>cr_Kind = KindClass, cr_Key = ''gold'', cr_Lamport = 1, cr_Origin = ''a'', cr_Deleted = False, cr_Updated = 0, cr_Payload = ''Q''\<rparr>"

definition gold_store :: store where
  "gold_store = \<lparr>st_records = fmupd (cr_ID gold_record) gold_record fmempty, st_lamport = 1, st_nodeID = ''a'', st_path = [], st_version = 1, st_dirty = True\<rparr>"

lemma test_codec: "codec_ok test_ctl"
  by (auto simp: codec_ok_def test_ctl_def split: if_splits)

lemma gold_canonical: "Canonical test_ctl KindClass ''P'' = Inr ''Q''"
proof -
  have "norm_class gold_typed = Inr gold_kept" by code_simp
  then show ?thesis
    by (simp add: Canonical_def decoded_def marshalled_def set_defs list_defs NewState_def test_ctl_def)
qed

lemma gold_key: "KeyFor test_ctl KindClass ''Q'' = Inr ''gold''"
  by (simp add: KeyFor_def decoded_def test_ctl_def gold_kept_def ToLower_def lower_def)

theorem canonical_in_force_witness:
  "\<exists>a'. state_at KindClass (fst (store_State test_ctl gold_store)) ''gold'' = Some a' \<and> same_record (ClassR gold_kept) a'"
proof -
  note key = gold_key
  have id: "cr_ID gold_record = make_ID KindClass ''gold''" by (simp add: cr_ID_def gold_record_def)
  have dots: "\<forall>a. dec_any test_ctl KindClass ''P'' = Some a \<longrightarrow> single_dots a" by (auto simp: dec_any_def single_dots_def)
  have "keyed gold_store" "view gold_store (make_ID KindClass ''gold'') = Some gold_record" "ran (view gold_store) = {gold_record}"
    by (auto simp: keyed_def gold_store_def id ran_def)
  moreover have "cr_Payload gold_record = ''Q''" "\<not> cr_Deleted gold_record" "cr_Key gold_record = ''gold''" by (simp_all add: gold_record_def)
  moreover have "dec_any test_ctl KindClass ''Q'' = Some (ClassR gold_kept)" by (simp add: dec_any_def test_ctl_def)
  ultimately show ?thesis
    using canonical_in_force [OF test_codec gold_canonical dots key, of gold_store gold_record] key by auto
qed

theorem root_entry_never_in_force_witness:
  "Canonical test_ctl KindFeed ''P'' = Inr ''Q''
   \<and> state_step test_ctl NewState (gold_record\<lparr>cr_Kind := KindFeed\<rparr>) = state_reject KindFeed ''gold'' NewState"
proof -
  have n: "norm_feed test_ctl (root_feed ''.'') = Inr (root_feed [])" by code_simp
  have c: "Canonical test_ctl KindFeed ''P'' = Inr ''Q''"
    using n by (simp add: Canonical_def decoded_def marshalled_def set_defs list_defs NewState_def test_ctl_def)
  have d: "ce_decFeed test_ctl ''P'' = Some (root_feed ''.'')" by (simp add: test_ctl_def)
  have "fdr_Entries (root_feed ''.'') = [\<lparr>me_Name = ''.'', me_Action = [], me_To = [], me_Note = []\<rparr>]" by (simp add: root_feed_def)
  with root_entry_never_in_force [OF test_codec d _ _ c, of "\<lparr>me_Name = ''.'', me_Action = [], me_To = [], me_Note = []\<rparr>"
      "gold_record\<lparr>cr_Kind := KindFeed\<rparr>" NewState] c show ?thesis
    by (simp add: gold_record_def)
qed

end
