(* ===== verification/Control_Publisher.thy ===== *)
theory Control_Publisher
  imports Control_Records Policy_Feeds_Correct Policy_Enforcer
begin

text \<open>
  \<open>internal/control/publisher.go\<close>: how the records of the store become the structures the query path reads. \<open>publish\<close> projects the store,
  compiles subscribers, feeds, classes and overrides, and swaps them into the classifier and the registry; the loop of \<open>Run\<close> with its
  watcher and its two channels of capacity one is the step relation \<open>pub_reach\<close>.

  \<open>os.Stat\<close> is the argument \<open>stat\<close>, and with the files of \<open>feed_env\<close> it may differ from one publication to the next. The map \<open>usable\<close> has exactly
  the names of the feed specs. The compiled policies are listed by class name, since their names are lower case already the order in which
  the registry ranges over them does not show. Log lines are left out.
\<close>

datatype pub_error = SubscriberPrefix string | EntryAction string | EntryAddr string | ClassAction string | ClassAddr string
  | CompileFailed feed_error

record publisher =
  pb_classifier :: "classifier option"
  pb_registry :: "registry option"
  pb_published :: u64
  pb_failures :: u64

definition NewPublisher :: "classifier option \<Rightarrow> registry option \<Rightarrow> publisher" where
  "NewPublisher cl reg = \<lparr>pb_classifier = cl, pb_registry = reg, pb_published = 0, pb_failures = 0\<rparr>"

section \<open>Compiling the state\<close>

fun subscriber_loop :: "control_env \<Rightarrow> sub_rec list \<Rightarrow> sub_entry list \<Rightarrow> pub_error + sub_entry list" where
  "subscriber_loop C [] out = Inr out"
| "subscriber_loop C (r # rs) out = (case ce_ParsePrefix C (sr_Prefix r) of
       None \<Rightarrow> Inl (SubscriberPrefix (sr_Prefix r))
     | Some p \<Rightarrow> subscriber_loop C rs (out @ [\<lparr>ent_Prefix = p, ent_Sub = \<lparr>sub_ID = sr_ID r, sub_Class = sr_Class r\<rparr>\<rparr>]))"

definition subscriberEntries :: "control_env \<Rightarrow> control_state \<Rightarrow> pub_error + sub_entry list" where
  "subscriberEntries C st = subscriber_loop C (state_Subscribers st) []"

definition override_set :: "dnslib \<Rightarrow> action \<Rightarrow> string \<Rightarrow> string list \<Rightarrow> polset option" where
  "override_set L act i names = foldl (\<lambda>s n. add_both L n ((rule0 (''override:'' @ i) 0)\<lparr>r_Action := act\<rparr>) s) (Some NewSet) names"

definition compileOverrides :: "dnslib \<Rightarrow> control_state \<Rightarrow> (string \<times> overrides) list" where
  "compileOverrides L st = map (\<lambda>r. (or_SubscriberID r,
     \<lparr>ov_Allow = override_set L ActionPassthru (or_SubscriberID r) (or_Allow r),
      ov_Block = override_set L ActionNXDOMAIN (or_SubscriberID r) (or_Block r)\<rparr>)) (state_Overrides st)"

fun parse_addrs :: "control_env \<Rightarrow> string list \<Rightarrow> addr list option" where
  "parse_addrs C [] = Some []"
| "parse_addrs C (a # as) = (case ce_ParseAddr C a of None \<Rightarrow> None | Some x \<Rightarrow> map_option (Cons x) (parse_addrs C as))"

fun entry_loop :: "control_env \<Rightarrow> managed_entry list \<Rightarrow> feed_entry list \<Rightarrow> pub_error + feed_entry list" where
  "entry_loop C [] out = Inr out"
| "entry_loop C (e # es) out = (case ParseAction (me_Action e) of
       Inl _ \<Rightarrow> Inl (EntryAction (me_Name e))
     | Inr act \<Rightarrow> (case parse_addrs C (me_To e) of
           None \<Rightarrow> Inl (EntryAddr (me_Name e))
         | Some addrs \<Rightarrow> entry_loop C es (out @ [\<lparr>fd_Name = me_Name e, fd_Action = act, fd_To = addrs\<rparr>])))"

definition managedEntries :: "control_env \<Rightarrow> feed_rec \<Rightarrow> pub_error + feed_entry list" where
  "managedEntries C f = (if fdr_Entries f = [] then Inr [] else entry_loop C (fdr_Entries f) [])"

text \<open>The file a feed's content is read from, empty when there is none that can be.\<close>

definition feed_file :: "(string \<Rightarrow> bool) \<Rightarrow> (string \<Rightarrow> string) option \<Rightarrow> feed_rec \<Rightarrow> string" where
  "feed_file stat feedPath f =
     (let file = (if fdr_File f = [] then case feedPath of None \<Rightarrow> [] | Some g \<Rightarrow> g (fdr_Name f) else fdr_File f)
      in if file \<noteq> [] \<and> \<not> stat file then [] else file)"

definition feed_warnings :: "(string \<Rightarrow> bool) \<Rightarrow> (string \<Rightarrow> string) option \<Rightarrow> feed_rec \<Rightarrow> nat" where
  "feed_warnings stat feedPath f =
     (let file = (if fdr_File f = [] then case feedPath of None \<Rightarrow> [] | Some g \<Rightarrow> g (fdr_Name f) else fdr_File f)
      in (if file \<noteq> [] \<and> \<not> stat file \<and> (fdr_URL f \<noteq> [] \<or> \<not> fdr_Managed f) then 1 else 0)
         + (if feed_file stat feedPath f = [] \<and> fdr_Entries f = [] \<and> \<not> fdr_Managed f then 1 else 0))"

definition spec_of :: "string \<Rightarrow> feed_rec \<Rightarrow> feed_entry list \<Rightarrow> feed_spec" where
  "spec_of file f es = \<lparr>fs_Name = fdr_Name f, fs_Format = fdr_Format f, fs_File = file, fs_RPZZone = fdr_RPZZone f, fs_Entries = es\<rparr>"

fun feed_loop :: "control_env \<Rightarrow> (string \<Rightarrow> bool) \<Rightarrow> (string \<Rightarrow> string) option \<Rightarrow> feed_rec list \<Rightarrow> feed_spec list \<Rightarrow> string list \<Rightarrow> nat
    \<Rightarrow> pub_error + feed_spec list \<times> string list \<times> nat" where
  "feed_loop C stat fp [] specs mand warn = Inr (specs, mand, warn)"
| "feed_loop C stat fp (f # fs) specs mand warn = (case managedEntries C f of
       Inl e \<Rightarrow> Inl e
     | Inr es \<Rightarrow>
         let file = feed_file stat fp f; warn' = warn + feed_warnings stat fp f in
         if file = [] \<and> es = [] then feed_loop C stat fp fs specs mand warn'
         else feed_loop C stat fp fs (specs @ [spec_of file f es]) (if fdr_Mandatory f then mand @ [fdr_Name f] else mand) warn')"

fun class_loop :: "control_env \<Rightarrow> string set \<Rightarrow> class_rec list \<Rightarrow> class_spec list \<Rightarrow> pub_error + class_spec list" where
  "class_loop C usable [] out = Inr out"
| "class_loop C usable (c # cs) out = (case ParseAction (clr_Action c) of
       Inl _ \<Rightarrow> Inl (ClassAction (clr_Name c))
     | Inr act \<Rightarrow> (case parse_addrs C (clr_RedirectTo c) of
           None \<Rightarrow> Inl (ClassAddr (clr_Name c))
         | Some addrs \<Rightarrow> class_loop C usable cs
             (out @ [\<lparr>cs_Name = clr_Name c, cs_Feeds = filter (\<lambda>f. f \<in> usable) (clr_Feeds c), cs_Action = act, cs_RedirectTo = addrs\<rparr>])))"

definition mandatoryClass :: string where
  "mandatoryClass = CHR 0x00 # ''mandatory''"

definition mandatory_specs :: "string list \<Rightarrow> class_spec list" where
  "mandatory_specs mand = (if mand = [] then []
     else [\<lparr>cs_Name = mandatoryClass, cs_Feeds = sort mand, cs_Action = ActionNXDOMAIN, cs_RedirectTo = []\<rparr>])"

definition compilePolicies :: "dnslib \<Rightarrow> control_env \<Rightarrow> feed_env \<Rightarrow> (string \<Rightarrow> bool) \<Rightarrow> (string \<Rightarrow> string) option \<Rightarrow> control_state
    \<Rightarrow> pub_error + (string \<times> policy) list \<times> policy option \<times> nat" where
  "compilePolicies L C E stat fp st = (case feed_loop C stat fp (state_Feeds st) [] [] 0 of
       Inl e \<Rightarrow> Inl e
     | Inr (specs, mand, warn) \<Rightarrow> (case class_loop C (set (map fs_Name specs)) (state_Classes st) (mandatory_specs mand) of
           Inl e \<Rightarrow> Inl e
         | Inr classes \<Rightarrow> (case Compile L E specs classes of
               Inl e \<Rightarrow> Inl (CompileFailed e)
             | Inr out \<Rightarrow> Inr (map (\<lambda>n. (n, the (out n))) (filter (\<lambda>n. n \<noteq> mandatoryClass) (remdups (map cs_Name classes))),
                 out mandatoryClass, warn))))"

definition mandatoryLen :: "policy option \<Rightarrow> nat" where
  "mandatoryLen p = (case p of None \<Rightarrow> 0 | Some pol \<Rightarrow> (case pol_Rules pol of None \<Rightarrow> 0 | Some s \<Rightarrow> set_Len (Some s)))"

definition publish :: "dnslib \<Rightarrow> control_env \<Rightarrow> feed_env \<Rightarrow> (string \<Rightarrow> bool) \<Rightarrow> (string \<Rightarrow> string) option \<Rightarrow> store \<Rightarrow> publisher \<Rightarrow> publisher" where
  "publish L C E stat fp s p =
     (let (st, version) = store_State C s; failed = p\<lparr>pb_failures := pb_failures p + 1\<rparr> in
      case subscriberEntries C st of
        Inl _ \<Rightarrow> failed
      | Inr entries \<Rightarrow> (case compilePolicies L C E stat fp st of
            Inl _ \<Rightarrow> failed
          | Inr (policies, mandatory, warnings) \<Rightarrow>
              p\<lparr>pb_classifier := map_option (\<lambda>c. classifier_Replace c entries) (pb_classifier p),
                pb_registry := map_option (\<lambda>g. ReplaceMandatory mandatory (reg_ReplaceOverrides (compileOverrides L st) (reg_Replace policies g))) (pb_registry p),
                pb_published := version\<rparr>))"

definition PublishedVersion :: "publisher \<Rightarrow> u64" where
  "PublishedVersion p = pb_published p"

definition pub_Failures :: "publisher \<Rightarrow> u64" where
  "pub_Failures p = pb_failures p"

section \<open>The loop\<close>

text \<open>The state of \<open>Run\<close>: the store, the published structures, the version the watcher last saw, whether a signal waits in the channel
  of changes and in that of refresh requests, and whether the first publication has been made.\<close>

record pub_run =
  pr_store :: store
  pr_pub :: publisher
  pr_known :: u64
  pr_changes :: bool
  pr_refresh :: bool
  pr_started :: bool

definition run_start :: "store \<Rightarrow> publisher \<Rightarrow> pub_run" where
  "run_start s p = \<lparr>pr_store = s, pr_pub = p, pr_known = 0, pr_changes = False, pr_refresh = False, pr_started = False\<rparr>"

definition run_publish :: "dnslib \<Rightarrow> control_env \<Rightarrow> feed_env \<Rightarrow> (string \<Rightarrow> bool) \<Rightarrow> (string \<Rightarrow> string) option \<Rightarrow> pub_run \<Rightarrow> pub_run" where
  "run_publish L C E stat fp \<sigma> = \<sigma>\<lparr>pr_pub := publish L C E stat fp (pr_store \<sigma>) (pr_pub \<sigma>)\<rparr>"

definition run_watch :: "pub_run \<Rightarrow> pub_run" where
  "run_watch \<sigma> = (if st_version (pr_store \<sigma>) = pr_known \<sigma> then \<sigma> else \<sigma>\<lparr>pr_known := st_version (pr_store \<sigma>), pr_changes := True\<rparr>)"

definition Republish :: "pub_run \<Rightarrow> pub_run" where
  "Republish \<sigma> = \<sigma>\<lparr>pr_refresh := True\<rparr>"

text \<open>What the rest of the node does to the store meanwhile; the version is taken to stay below its last value.\<close>

inductive store_step :: "store \<Rightarrow> store \<Rightarrow> bool" where
  step_Put: "store_step s (snd (store_Put now kind key payload s))"
| step_Delete: "store_step s (snd (store_Delete now kind key s))"
| step_Merge: "store_step s (snd (store_Merge rs s))"
| step_Collect: "store_step s (snd (CollectTombstones now s))"

inductive pub_reach :: "dnslib \<Rightarrow> control_env \<Rightarrow> (string \<Rightarrow> string) option \<Rightarrow> pub_run \<Rightarrow> bool" for L C fp where
  pr_start: "pub_reach L C fp (run_start s p)"
| pr_store_step: "pub_reach L C fp \<sigma> \<Longrightarrow> store_step (pr_store \<sigma>) s' \<Longrightarrow> st_version (pr_store \<sigma>) \<noteq> - 1 \<Longrightarrow> pub_reach L C fp (\<sigma>\<lparr>pr_store := s'\<rparr>)"
| pr_watch: "pub_reach L C fp \<sigma> \<Longrightarrow> pub_reach L C fp (run_watch \<sigma>)"
| pr_first: "pub_reach L C fp \<sigma> \<Longrightarrow> \<not> pr_started \<sigma> \<Longrightarrow> pub_reach L C fp (run_publish L C E stat fp (\<sigma>\<lparr>pr_started := True\<rparr>))"
| pr_change: "pub_reach L C fp \<sigma> \<Longrightarrow> pr_started \<sigma> \<Longrightarrow> pr_changes \<sigma> \<Longrightarrow> pub_reach L C fp (run_publish L C E stat fp (\<sigma>\<lparr>pr_changes := False\<rparr>))"
| pr_refreshed: "pub_reach L C fp \<sigma> \<Longrightarrow> pr_started \<sigma> \<Longrightarrow> pr_refresh \<sigma> \<Longrightarrow> pub_reach L C fp (run_publish L C E stat fp (\<sigma>\<lparr>pr_refresh := False\<rparr>))"
| pr_request: "pub_reach L C fp \<sigma> \<Longrightarrow> pub_reach L C fp (Republish \<sigma>)"

end
