(* ===== verification/Publisher_Correct.thy ===== *)
theory Publisher_Correct
  imports Control_Publisher
begin

text \<open>
  What publication guarantees: no change of the store is missed by the loop, a compliance list kept by hand is enforced on every query, and the two ways a class
  record can defeat it, an unknown action and the reserved name.
\<close>

section \<open>No change is missed\<close>

lemma fmfilter_same_size:
  assumes "size (fmdom m) \<le> size (fmdom (fmfilter P m))"
  shows "fmfilter P m = m"
proof -
  have "fset (fmdom (fmfilter P m)) = fset (fmdom m)"
    by (rule card_seteq) (use assms in auto)
  then have "P k" if "k |\<in>| fmdom m" for k using that by auto
  then show ?thesis by (intro fmap_ext) (metis fmdom_notD fmlookup_filter)
qed

lemma merge_adopts:
  "snd (foldl merge_one (s, n) rs) \<ge> n
   \<and> (snd (foldl merge_one (s, n) rs) = n \<longrightarrow> st_records (fst (foldl merge_one (s, n) rs)) = st_records s)
   \<and> st_version (fst (foldl merge_one (s, n) rs)) = st_version s"
proof (induction rs arbitrary: s n)
  case (Cons r rs)
  obtain s1 n1 where m: "merge_one (s, n) r = (s1, n1)" by fastforce
  then have "n \<le> n1 \<and> (n1 = n \<longrightarrow> st_records s1 = st_records s) \<and> st_version s1 = st_version s"
    by (auto simp: merge_one_def Let_def split: option.splits if_splits)
  with Cons.IH [where s = s1 and n = n1] m show ?case by auto
qed simp

lemma store_step_version:
  assumes "store_step s s'"
  shows "(st_version s' = st_version s \<and> st_records s' = st_records s) \<or> st_version s' = st_version s + 1"
  using assms
proof cases
  case (step_Merge rs)
  then show ?thesis using merge_adopts [where s = s and n = 0 and rs = rs]
    by (auto simp: store_Merge_def bump_def split_beta)
next
  case (step_Collect now)
  let ?keep = "fmfilter (\<lambda>x. case fmlookup (st_records s) x of Some r \<Rightarrow> \<not> expired_tombstone now r | None \<Rightarrow> True) (st_records s)"
  have s': "s' = (let s1 = s\<lparr>st_records := ?keep\<rparr> in if 0 < size (fmdom (st_records s)) - size (fmdom ?keep) then bump s1 else s1)"
    unfolding step_Collect CollectTombstones_def by (simp add: Let_def)
  show ?thesis
  proof (cases "0 < size (fmdom (st_records s)) - size (fmdom ?keep)")
    case True
    then show ?thesis unfolding s' by (simp only: Let_def if_True bump_def) simp
  next
    case False
    then have "size (fmdom (st_records s)) \<le> size (fmdom ?keep)" by linarith
    then have "?keep = st_records s" by (rule fmfilter_same_size)
    with False show ?thesis unfolding s' by (simp only: Let_def if_False) simp
  qed
qed (auto simp: store_Put_def store_Delete_def bump_def Let_def split: option.splits)

lemma version_grows: "store_step s s' \<Longrightarrow> st_version s \<noteq> - 1 \<Longrightarrow>
    st_version s \<le> st_version s' \<and> (st_version s' = st_version s \<longrightarrow> st_records s' = st_records s)"
  using store_step_version [of s s'] lamport_next [of "st_version s"] by fastforce

text \<open>What the last publication read, in every reachable state: nothing older than the watcher reported, unless a signal still waits.\<close>

definition read_from :: "dnslib \<Rightarrow> control_env \<Rightarrow> (string \<Rightarrow> string) option \<Rightarrow> publisher \<Rightarrow> store \<Rightarrow> bool" where
  "read_from L C fp p s0 \<longleftrightarrow> (\<exists>E stat p0. p = publish L C E stat fp s0 p0)"

definition tracks :: "dnslib \<Rightarrow> control_env \<Rightarrow> (string \<Rightarrow> string) option \<Rightarrow> pub_run \<Rightarrow> bool" where
  "tracks L C fp \<sigma> \<longleftrightarrow> pr_known \<sigma> \<le> st_version (pr_store \<sigma>) \<and> (pr_started \<sigma> \<longrightarrow> (\<exists>s0. read_from L C fp (pr_pub \<sigma>) s0
     \<and> (pr_changes \<sigma> \<or> pr_known \<sigma> \<le> st_version s0) \<and> st_version s0 \<le> st_version (pr_store \<sigma>)
     \<and> (st_version s0 = st_version (pr_store \<sigma>) \<longrightarrow> st_records s0 = st_records (pr_store \<sigma>))))"

lemma tracks_publish:
  "pr_known \<sigma> \<le> st_version (pr_store \<sigma>) \<Longrightarrow> tracks L C fp (run_publish L C E stat fp \<sigma>)"
  by (auto simp: tracks_def run_publish_def read_from_def)

lemma tracks_store:
  assumes "tracks L C fp \<sigma>" "store_step (pr_store \<sigma>) s'" "st_version (pr_store \<sigma>) \<noteq> - 1"
  shows "tracks L C fp (\<sigma>\<lparr>pr_store := s'\<rparr>)"
proof -
  note g = version_grows [OF assms(2,3)]
  show ?thesis
  proof (cases "pr_started \<sigma>")
    case True
    with assms(1) obtain s0 where "read_from L C fp (pr_pub \<sigma>) s0" "pr_changes \<sigma> \<or> pr_known \<sigma> \<le> st_version s0"
      "st_version s0 \<le> st_version (pr_store \<sigma>)" "st_version s0 = st_version (pr_store \<sigma>) \<longrightarrow> st_records s0 = st_records (pr_store \<sigma>)"
      by (auto simp: tracks_def)
    with g assms(1) show ?thesis by (auto simp: tracks_def intro!: exI [of _ s0])
  qed (use assms(1) g in \<open>auto simp: tracks_def\<close>)
qed

lemma tracks_known: "tracks L C fp \<sigma> \<Longrightarrow> pr_known \<sigma> \<le> st_version (pr_store \<sigma>)"
  by (simp add: tracks_def)

lemma reach_tracks: "pub_reach L C fp \<sigma> \<Longrightarrow> tracks L C fp \<sigma>"
proof (induction rule: pub_reach.induct)
  case (pr_store_step \<sigma> s')
  then show ?case by (intro tracks_store)
next
  case (pr_watch \<sigma>)
  then show ?case by (auto simp: tracks_def run_watch_def)
next
  case (pr_request \<sigma>)
  then show ?case by (simp add: tracks_def Republish_def)
qed (simp_all add: tracks_publish tracks_known, simp add: tracks_def run_start_def)

lemma publish_reads: "st_records s0 = st_records s \<Longrightarrow> st_version s0 = st_version s \<Longrightarrow> publish L C E stat fp s0 p = publish L C E stat fp s p"
proof -
  assume "st_records s0 = st_records s" "st_version s0 = st_version s"
  then have "store_State C s0 = store_State C s" by (simp add: store_State_def recordsLocked_def all_records_def)
  then show ?thesis by (simp add: publish_def)
qed

text \<open>C15. No change is missed: however store writes, replication, refresh requests, the watcher and the publishing loop interleave, once the loop has started
  and is idle (no signal waits and the watcher has seen the store's version) what is published is the result of publishing exactly the
  store's present records, although signals are dropped whenever one already waits.\<close>

theorem quiescent_published:
  assumes "pub_reach L C fp \<sigma>" and "pr_started \<sigma>" and "\<not> pr_changes \<sigma>" and "pr_known \<sigma> = st_version (pr_store \<sigma>)"
  shows "\<exists>E stat p0. pr_pub \<sigma> = publish L C E stat fp (pr_store \<sigma>) p0"
proof -
  from reach_tracks [OF assms(1)] assms(2-4) obtain s0 where p: "read_from L C fp (pr_pub \<sigma>) s0"
    and v: "st_version (pr_store \<sigma>) \<le> st_version s0" "st_version s0 \<le> st_version (pr_store \<sigma>)"
      "st_version s0 = st_version (pr_store \<sigma>) \<longrightarrow> st_records s0 = st_records (pr_store \<sigma>)"
    by (auto simp: tracks_def)
  then have "st_version s0 = st_version (pr_store \<sigma>)" by simp
  with v(3) p publish_reads [of s0 "pr_store \<sigma>"] show ?thesis by (auto simp: read_from_def)
qed

section \<open>When publication fails\<close>

lemma set_map_values: "set (map_values m) = {v. \<exists>k. fmlookup m k = Some v}"
  by (force simp: map_values_def sorted_list_of_fset.rep_eq fmlookup_dom_iff)

lemma set_state_lists [simp]:
  "c \<in> set (state_Classes st) \<longleftrightarrow> (\<exists>k. fmlookup (cst_classes st) k = Some c)"
  "f \<in> set (state_Feeds st) \<longleftrightarrow> (\<exists>k. fmlookup (cst_feeds st) k = Some f)"
  by (simp_all add: list_defs set_map_values)

lemma class_loop_bad:
  "c \<in> set cs \<Longrightarrow> ParseAction (clr_Action c) = Inl e \<Longrightarrow> \<exists>e'. class_loop C u cs out = Inl e'"
  by (induction cs arbitrary: out) (auto split: sum.splits option.splits)

lemma publish_cases:
  obtains (failed) "publish L C E stat fp s p = p\<lparr>pb_failures := pb_failures p + 1\<rparr>"
  | (ok) entries pols mand w where "subscriberEntries C (fst (store_State C s)) = Inr entries"
      "compilePolicies L C E stat fp (fst (store_State C s)) = Inr (pols, mand, w)"
      "publish L C E stat fp s p = p\<lparr>pb_classifier := map_option (\<lambda>c. classifier_Replace c entries) (pb_classifier p),
         pb_registry := map_option (\<lambda>g. ReplaceMandatory mand (reg_ReplaceOverrides (compileOverrides L (fst (store_State C s))) (reg_Replace pols g))) (pb_registry p),
         pb_published := st_version s\<rparr>"
proof (cases "subscriberEntries C (fst (store_State C s))")
  case (Inl e)
  then have "publish L C E stat fp s p = p\<lparr>pb_failures := pb_failures p + 1\<rparr>" by (simp add: publish_def split_beta)
  then show ?thesis by (rule failed)
next
  case (Inr entries)
  show ?thesis
  proof (cases "compilePolicies L C E stat fp (fst (store_State C s))")
    case (Inl e)
    with Inr have "publish L C E stat fp s p = p\<lparr>pb_failures := pb_failures p + 1\<rparr>" by (simp add: publish_def split_beta)
    then show ?thesis by (rule failed)
  next
    case c: (Inr r)
    obtain pols mand w where "r = (pols, mand, w)" by (cases r) auto
    with c Inr show ?thesis by (intro ok) (simp_all add: publish_def split_beta store_State_def)
  qed
qed

text \<open>C40. One class with an unknown action stops all publication: \<open>setClass\<close>, and with it the API's \<open>Canonical\<close>, accepts any action, but once such a class is in
  the store's state every publication fails and changes nothing but the failure count, so no later change of subscribers, feeds, overrides or
  mandatory rules takes effect until that record is removed.\<close>

theorem bad_class_freezes:
  assumes "fmlookup (cst_classes (fst (store_State C s))) n = Some c" and "ParseAction (clr_Action c) = Inl e"
  shows "publish L C E stat fp s p = p\<lparr>pb_failures := pb_failures p + 1\<rparr>
    \<and> (\<forall>payload c0 b. ce_decClass C payload = Some c0 \<and> norm_class c0 = Inr c \<and> ce_encClass C c = Some b \<longrightarrow> Canonical C KindClass payload = Inr b)"
proof
  have c: "c \<in> set (state_Classes (fst (store_State C s)))" using assms(1) by auto
  have "\<exists>e'. compilePolicies L C E stat fp (fst (store_State C s)) = Inl e'"
  proof (cases "feed_loop C stat fp (state_Feeds (fst (store_State C s))) [] [] 0")
    case (Inr r)
    obtain specs mand w where "r = (specs, mand, w)" by (cases r) auto
    with Inr class_loop_bad [OF c assms(2), of C "set (map fs_Name specs)" "mandatory_specs mand"] show ?thesis
      by (auto simp: compilePolicies_def)
  qed (simp add: compilePolicies_def)
  then show "publish L C E stat fp s p = p\<lparr>pb_failures := pb_failures p + 1\<rparr>"
    by (cases rule: publish_cases [where L = L and C = C and E = E and stat = stat and fp = fp and s = s and p = p]) auto
  show "\<forall>payload c0 b. ce_decClass C payload = Some c0 \<and> norm_class c0 = Inr c \<and> ce_encClass C c = Some b \<longrightarrow> Canonical C KindClass payload = Inr b"
    by (simp add: Canonical_def decoded_def marshalled_def set_defs list_defs NewState_def)
qed

section \<open>The mandatory tier\<close>

lemma fold_state_key: "state_at kind (foldl (state_step C) NewState rs) k = Some a \<Longrightarrow> any_key a = k"
proof (induction rs rule: rev_induct)
  case Nil
  then show ?case by (simp add: state_at_def NewState_def split: if_splits)
next
  case (snoc r rs)
  then show ?case by (auto simp: state_at_step split: option.splits if_splits)
qed

lemma state_names:
  "fmlookup (cst_classes (fst (store_State C s))) k = Some c \<Longrightarrow> clr_Name c = k"
  "fmlookup (cst_feeds (fst (store_State C s))) k = Some f \<Longrightarrow> fdr_Name f = k"
  using fold_state_key [of KindClass C "recordsLocked False s" k "ClassR c"] fold_state_key [of KindFeed C "recordsLocked False s" k "FeedR f"]
  by (simp_all add: store_State_def state_at_def)

lemma distinct_names:
  "distinct (map clr_Name (state_Classes (fst (store_State C s))))" "distinct (map fdr_Name (state_Feeds (fst (store_State C s))))"
proof -
  have d: "distinct (map f (sort_key f (map_values m)))" if "\<And>k v. fmlookup m k = Some v \<Longrightarrow> f v = k" for f :: "'v \<Rightarrow> string" and m
  proof -
    have "map f (map_values m) = sorted_list_of_fset (fmdom m)"
      unfolding map_values_def map_map by (rule map_idI) (use that in \<open>auto simp: sorted_list_of_fset.rep_eq fmlookup_dom_iff\<close>)
    then have "distinct (map f (map_values m))" by (simp add: sorted_list_of_fset.rep_eq)
    then show ?thesis by (metis mset_sort mset_map mset_eq_imp_distinct_iff)
  qed
  show "distinct (map clr_Name (state_Classes (fst (store_State C s))))" "distinct (map fdr_Name (state_Feeds (fst (store_State C s))))"
    unfolding list_defs by (rule d, erule state_names)+
qed

lemma class_loop_specs:
  "class_loop C u cs out = Inr r \<Longrightarrow> \<exists>xs. r = out @ xs \<and> map cs_Name xs = map clr_Name cs \<and> map cs_Feeds xs = map (\<lambda>c. filter (\<lambda>f. f \<in> u) (clr_Feeds c)) cs"
proof (induction cs arbitrary: out)
  case (Cons c cs)
  obtain act addrs where a: "ParseAction (clr_Action c) = Inr act" "parse_addrs C (clr_RedirectTo c) = Some addrs"
    using Cons.prems by (auto split: sum.splits option.splits)
  let ?x = "\<lparr>cs_Name = clr_Name c, cs_Feeds = filter (\<lambda>f. f \<in> u) (clr_Feeds c), cs_Action = act, cs_RedirectTo = addrs\<rparr>"
  from Cons.prems a have "class_loop C u cs (out @ [?x]) = Inr r" by simp
  from Cons.IH [OF this] obtain xs where "r = out @ [?x] @ xs" "map cs_Name xs = map clr_Name cs"
    "map cs_Feeds xs = map (\<lambda>c. filter (\<lambda>f. f \<in> u) (clr_Feeds c)) cs" by auto
  then show ?case by (intro exI [of _ "?x # xs"]) simp
qed simp

lemma compile_classes_keeps:
  "compile_classes compiled cs out = Inr out' \<Longrightarrow> n \<notin> cs_Name ` set cs \<Longrightarrow> out' n = out n"
  by (induction cs arbitrary: out) (auto split: sum.splits)

lemma compile_classes_last:
  "compile_classes compiled (as @ c # bs) out = Inr out' \<Longrightarrow> cs_Name c \<notin> cs_Name ` set bs \<Longrightarrow>
    \<exists>s. merge_feeds compiled (cs_Name c) (cs_Feeds c) NewSet = Inr s
      \<and> out' (cs_Name c) = Some \<lparr>pol_Class = cs_Name c, pol_Rules = Some s, pol_RedirectTo = cs_RedirectTo c, pol_Feeds = cs_Feeds c\<rparr>"
proof (induction as arbitrary: out)
  case Nil
  then show ?case using compile_classes_keeps [of compiled bs _ out' "cs_Name c"] by (auto split: sum.splits)
qed (auto split: sum.splits)

lemma nth_notin_rest: "distinct xs \<Longrightarrow> i < length xs \<Longrightarrow> xs ! i \<notin> set (drop (Suc i) xs)"
  by (metis Cons_nth_drop_Suc distinct.simps(2) distinct_drop)

lemma compilePolicies_Inr:
  assumes "compilePolicies L C E stat fp st = Inr (pols, mandatory, w)"
  obtains specs mand w0 classes compiled out where "feed_loop C stat fp (state_Feeds st) [] [] 0 = Inr (specs, mand, w0)"
    "class_loop C (set (map fs_Name specs)) (state_Classes st) (mandatory_specs mand) = Inr classes"
    "compile_feeds L E specs Map.empty = Inr compiled" "compile_classes compiled classes Map.empty = Inr out" "mandatory = out mandatoryClass"
  using assms by (auto simp: compilePolicies_def Compile_def split: sum.splits)

text \<open>The reserved name of the mandatory tier is not protected: a class record of that name, which the store and the API accept like any other, takes the
  place of the mandatory tier when it is published; with an empty feed list no mandatory rule is left in force.\<close>

theorem reserved_class_replaces_mandatory:
  assumes "fmlookup (cst_classes (fst (store_State C s))) mandatoryClass = Some c" and "pb_registry p = Some g"
    and "pb_failures (publish L C E stat fp s p) = pb_failures p"
  shows "\<exists>g' pol. pb_registry (publish L C E stat fp s p) = Some g' \<and> Mandatory g' = Some pol \<and> set (pol_Feeds pol) \<subseteq> set (clr_Feeds c)
    \<and> (clr_Feeds c = [] \<longrightarrow> pol_Rules pol = Some NewSet)"
proof (cases rule: publish_cases [where L = L and C = C and E = E and stat = stat and fp = fp and s = s and p = p])
  case (ok entries pols mandatory w)
  let ?st = "fst (store_State C s)"
  obtain specs mand w0 classes compiled out where "feed_loop C stat fp (state_Feeds ?st) [] [] 0 = Inr (specs, mand, w0)"
    and k1: "class_loop C (set (map fs_Name specs)) (state_Classes ?st) (mandatory_specs mand) = Inr classes"
    and "compile_feeds L E specs Map.empty = Inr compiled"
    and k2: "compile_classes compiled classes Map.empty = Inr out" "mandatory = out mandatoryClass"
    by (rule compilePolicies_Inr [OF ok(2)])
  note k = k1 k2
  from class_loop_specs [OF k(1)] obtain xs where xs: "classes = mandatory_specs mand @ xs" "map cs_Name xs = map clr_Name (state_Classes ?st)"
    "map cs_Feeds xs = map (\<lambda>c. filter (\<lambda>f. f \<in> set (map fs_Name specs)) (clr_Feeds c)) (state_Classes ?st)" by blast
  have "c \<in> set (state_Classes ?st)" using assms(1) by auto
  then obtain i where i: "i < length xs" "state_Classes ?st ! i = c" using xs(2) by (metis in_set_conv_nth length_map)
  have n: "cs_Name (xs ! i) = mandatoryClass" "cs_Feeds (xs ! i) = filter (\<lambda>f. f \<in> set (map fs_Name specs)) (clr_Feeds c)"
    using i xs(2,3) state_names(1) [OF assms(1)] by (metis length_map nth_map)+
  have "distinct (map cs_Name xs)" using distinct_names(1) xs(2) by simp
  then have "cs_Name (xs ! i) \<notin> cs_Name ` set (drop (Suc i) xs)"
    using nth_notin_rest [of "map cs_Name xs" i] i(1) by (simp add: drop_map)
  moreover have "classes = (mandatory_specs mand @ take i xs) @ xs ! i # drop (Suc i) xs"
    using xs(1) i(1) by (simp add: id_take_nth_drop [symmetric])
  ultimately obtain t where t: "merge_feeds compiled mandatoryClass (cs_Feeds (xs ! i)) NewSet = Inr t"
    "out mandatoryClass = Some \<lparr>pol_Class = mandatoryClass, pol_Rules = Some t, pol_RedirectTo = cs_RedirectTo (xs ! i), pol_Feeds = cs_Feeds (xs ! i)\<rparr>"
    using compile_classes_last [of compiled "mandatory_specs mand @ take i xs" "xs ! i" "drop (Suc i) xs" Map.empty out] k(2) n by auto
  with ok(3) k(3) assms(2) n show ?thesis by (auto simp: Mandatory_def ReplaceMandatory_def)
qed (use assms(3) in simp)

section \<open>A compliance list is enforced\<close>

lemma feed_loop_Cons:
  assumes "feed_loop C stat fp (f # fs) specs mand w = Inr r"
  obtains es specs1 mand1 w1 where "managedEntries C f = Inr es" "feed_loop C stat fp fs specs1 mand1 w1 = Inr r"
    "specs1 = specs \<and> mand1 = mand \<and> es = [] \<or> specs1 = specs @ [spec_of (feed_file stat fp f) f es] \<and> mand1 = (if fdr_Mandatory f then mand @ [fdr_Name f] else mand)"
proof -
  obtain es where es: "managedEntries C f = Inr es" using assms by (auto split: sum.splits)
  show ?thesis
  proof (cases "feed_file stat fp f = [] \<and> es = []")
    case True
    then show ?thesis using assms es by (intro that [OF es, of specs mand "w + feed_warnings stat fp f"]) (simp_all add: Let_def)
  next
    case False
    then show ?thesis using assms es
      by (intro that [OF es, of "specs @ [spec_of (feed_file stat fp f) f es]" "if fdr_Mandatory f then mand @ [fdr_Name f] else mand"
            "w + feed_warnings stat fp f"]) (simp_all add: Let_def split: if_splits)
  qed
qed

definition spec_for :: "control_env \<Rightarrow> (string \<Rightarrow> bool) \<Rightarrow> (string \<Rightarrow> string) option \<Rightarrow> feed_rec \<Rightarrow> feed_spec \<Rightarrow> bool" where
  "spec_for C stat fp f sp \<longleftrightarrow> (\<exists>es. managedEntries C f = Inr es \<and> sp = spec_of (feed_file stat fp f) f es)"

lemma feed_loop_specs:
  "feed_loop C stat fp fs specs mand w = Inr (specs', mand', w') \<Longrightarrow>
    set specs \<subseteq> set specs' \<and> set mand \<subseteq> set mand'
    \<and> (\<forall>sp \<in> set specs'. sp \<in> set specs \<or> (\<exists>f \<in> set fs. spec_for C stat fp f sp))
    \<and> (\<forall>n \<in> set mand'. n \<in> set mand \<or> (\<exists>f \<in> set fs. fdr_Mandatory f \<and> fdr_Name f = n))
    \<and> (distinct (map fs_Name specs @ map fdr_Name fs) \<longrightarrow> distinct (map fs_Name specs'))"
proof (induction fs arbitrary: specs mand w)
  case (Cons f fs)
  obtain es specs1 mand1 w1 where e: "managedEntries C f = Inr es" and l: "feed_loop C stat fp fs specs1 mand1 w1 = Inr (specs', mand', w')"
    and d: "specs1 = specs \<and> mand1 = mand \<and> es = [] \<or> specs1 = specs @ [spec_of (feed_file stat fp f) f es] \<and> mand1 = (if fdr_Mandatory f then mand @ [fdr_Name f] else mand)"
    by (rule feed_loop_Cons [OF Cons.prems])
  note I = Cons.IH [OF l]
  from d show ?case
  proof
    assume "specs1 = specs \<and> mand1 = mand \<and> es = []"
    with I show ?thesis by auto
  next
    assume a: "specs1 = specs @ [spec_of (feed_file stat fp f) f es] \<and> mand1 = (if fdr_Mandatory f then mand @ [fdr_Name f] else mand)"
    then have "set specs1 = insert (spec_of (feed_file stat fp f) f es) (set specs)" "set mand1 \<subseteq> insert (fdr_Name f) (set mand)" "set mand \<subseteq> set mand1"
      "fdr_Name f \<in> set mand1 \<longrightarrow> fdr_Mandatory f \<or> fdr_Name f \<in> set mand" "map fs_Name specs1 = map fs_Name specs @ [fdr_Name f]"
      by (auto simp: spec_of_def)
    moreover have "spec_for C stat fp f (spec_of (feed_file stat fp f) f es)" using e by (auto simp: spec_for_def)
    ultimately show ?thesis using I by (intro conjI ballI impI) (fastforce+)
  qed
qed simp

lemma entry_loop_map:
  "entry_loop C es out = Inr r \<Longrightarrow> \<exists>xs. r = out @ xs \<and> map fd_Name xs = map me_Name es \<and> (\<forall>x \<in> set xs. \<exists>a. ParseAction a = Inr (fd_Action x))"
proof (induction es arbitrary: out)
  case (Cons e es)
  obtain act addrs where a: "ParseAction (me_Action e) = Inr act" "parse_addrs C (me_To e) = Some addrs"
    using Cons.prems by (auto split: sum.splits option.splits)
  let ?x = "\<lparr>fd_Name = me_Name e, fd_Action = act, fd_To = addrs\<rparr>"
  from Cons.prems a have "entry_loop C es (out @ [?x]) = Inr r" by simp
  from Cons.IH [OF this] obtain xs where "r = out @ [?x] @ xs" "map fd_Name xs = map me_Name es"
    "\<forall>x \<in> set xs. \<exists>a. ParseAction a = Inr (fd_Action x)" by auto
  with a(1) show ?case by (intro exI [of _ "?x # xs"]) auto
qed simp

lemma managedEntries_map:
  "managedEntries C f = Inr es \<Longrightarrow> map fd_Name es = map me_Name (fdr_Entries f) \<and> (\<forall>x \<in> set es. fd_Action x \<noteq> ActionPassthru)"
  using entry_loop_map [of C "fdr_Entries f" "[]" es]
  by (auto simp: managedEntries_def ParseAction_def Let_def split: if_splits)

lemma feed_loop_used:
  assumes "feed_loop C stat fp fs specs mand w = Inr (specs', mand', w')" "f \<in> set fs" "fdr_Entries f \<noteq> []"
  shows "\<exists>es. managedEntries C f = Inr es \<and> spec_of (feed_file stat fp f) f es \<in> set specs' \<and> (fdr_Mandatory f \<longrightarrow> fdr_Name f \<in> set mand')"
  using assms
proof (induction fs arbitrary: specs mand w)
  case (Cons g fs)
  obtain es specs1 mand1 w1 where es: "managedEntries C g = Inr es" and l: "feed_loop C stat fp fs specs1 mand1 w1 = Inr (specs', mand', w')"
    and d: "specs1 = specs \<and> mand1 = mand \<and> es = [] \<or> specs1 = specs @ [spec_of (feed_file stat fp g) g es] \<and> mand1 = (if fdr_Mandatory g then mand @ [fdr_Name g] else mand)"
    by (rule feed_loop_Cons [OF Cons.prems(1)])
  show ?case
  proof (cases "f = g")
    case True
    have "es \<noteq> []" using managedEntries_map [OF es] True Cons.prems(3) by auto
    with d feed_loop_specs [OF l] True es show ?thesis by auto
  next
    case False
    then have "f \<in> set fs" using Cons.prems(2) by simp
    from Cons.IH [OF l this Cons.prems(3)] show ?thesis .
  qed
qed simp

lemma entrySet_rules:
  assumes "\<And>x. CanonicalName L (CanonicalName L x) = CanonicalName L x"
  shows "(fmlookup (set_exact (entrySet L f)) x \<noteq> None \<longleftrightarrow> x \<in> (\<lambda>e. CanonicalName L (fd_Name e)) ` set (fs_Entries f))
    \<and> (fmlookup (set_wild (entrySet L f)) x \<noteq> None \<longleftrightarrow> x \<in> (\<lambda>e. CanonicalName L (fd_Name e)) ` set (fs_Entries f))
    \<and> (\<forall>r. fmlookup (set_exact (entrySet L f)) x = Some r \<or> fmlookup (set_wild (entrySet L f)) x = Some r
        \<longrightarrow> (\<exists>e \<in> set (fs_Entries f). r_Action r = fd_Action e))"
proof -
  have "(fmlookup (set_exact s) x \<noteq> None \<longleftrightarrow> x \<in> (\<lambda>e. CanonicalName L (fd_Name e)) ` set es)
    \<and> (fmlookup (set_wild s) x \<noteq> None \<longleftrightarrow> x \<in> (\<lambda>e. CanonicalName L (fd_Name e)) ` set es)
    \<and> (\<forall>r. fmlookup (set_exact s) x = Some r \<or> fmlookup (set_wild s) x = Some r \<longrightarrow> (\<exists>e \<in> set es. r_Action r = fd_Action e))"
    if "s = foldl (\<lambda>s e. let rl = (rule0 (fs_Name f) 0)\<lparr>r_Action := fd_Action e, r_Addrs := fd_To e\<rparr>; n = CanonicalName L (fd_Name e)
      in AddWildcard L n rl (AddExact L n rl s)) NewSet es" for s es
    using that
  proof (induction es arbitrary: s rule: rev_induct)
    case Nil
    then show ?case by (simp add: NewSet_def)
  next
    case (snoc e es)
    show ?case using snoc.IH [OF refl] snoc.prems
      by (auto simp: Let_def AddWildcard_def AddExact_def assms split: if_splits)
  qed
  from this [OF entrySet_def] show ?thesis .
qed

lemma compile_feeds_none:
  "n \<notin> fs_Name ` set specs \<Longrightarrow> compile_feeds L E specs m = Inr compiled \<Longrightarrow> compiled n = m n"
  by (induction specs arbitrary: m) (auto split: sum.splits)

lemma compile_feeds_lookup:
  "compile_feeds L E specs m = Inr compiled \<Longrightarrow> distinct (map fs_Name specs) \<Longrightarrow> sp \<in> set specs \<Longrightarrow>
    \<exists>s. compileFeed L E sp = Inr s \<and> compiled (fs_Name sp) = Some s"
proof (induction specs arbitrary: m)
  case (Cons f fs)
  from Cons.prems(1) obtain s where s: "compileFeed L E f = Inr s" "compile_feeds L E fs (m(fs_Name f \<mapsto> s)) = Inr compiled"
    by (auto split: sum.splits)
  then show ?case using Cons compile_feeds_none [OF _ s(2), of "fs_Name f"] by auto
qed simp

context dns_names
begin

lemma match_below:
  assumes "valid q" "valid p" "CanonicalName L p = p" "fmlookup (set_exact s) p \<noteq> None" "fmlookup (set_wild s) p \<noteq> None"
    "suffix (labels p) (labels (CanonicalName L q))"
  shows "\<exists>r x. set_Match L (Some s) q = Some (Some r) \<and> (fmlookup (set_exact s) x = Some r \<or> fmlookup (set_wild s) x = Some r)"
proof -
  let ?c = "CanonicalName L q"
  obtain res where res: "set_Match L (Some s) q = Some res" using set_Match_returns [OF assms(1)] by blast
  note spec = set_Match_spec [OF assms(1) res]
  show ?thesis
  proof (cases "fmlookup (set_exact s) ?c")
    case (Some r)
    with spec res show ?thesis by auto
  next
    case None
    then have "p \<noteq> ?c" using assms(4) by auto
    then have "below L labels valid p ?c"
      using assms canon_valid [OF assms(1)] labels_inj [of p ?c] by (auto simp: below_def strict_suffix_def)
    moreover have "most_specific L labels valid (set_wild s) ?c res" using spec None by simp
    ultimately obtain r x where "res = Some r" "fmlookup (set_wild s) x = Some r"
      using assms(5) by (auto simp: most_specific_def split: option.splits)
    with res show ?thesis by auto
  qed
qed

end

lemma mandatory_set:
  assumes k1: "feed_loop C stat fp (state_Feeds (fst (store_State C s))) [] [] 0 = Inr (specs, mand, w0)"
    and k3: "compile_feeds L E specs Map.empty = Inr compiled"
    and f: "fmlookup (cst_feeds (fst (store_State C s))) k = Some f" "feed_file stat fp f = []" "compiled (fdr_Name f) \<noteq> None"
  shows "\<exists>es. compiled (fdr_Name f) = Some (entrySet L (spec_of [] f es)) \<and> managedEntries C f = Inr es"
proof -
  note loop = feed_loop_specs [OF k1]
  have dist: "distinct (map fs_Name specs)" using loop distinct_names(2) [of C s] by simp
  have "fdr_Name f \<in> fs_Name ` set specs"
  proof (rule ccontr)
    assume "fdr_Name f \<notin> fs_Name ` set specs"
    from compile_feeds_none [OF this k3] f(3) show False by simp
  qed
  then obtain sp where sp: "sp \<in> set specs" "fs_Name sp = fdr_Name f" by (auto elim!: imageE)
  with loop obtain g es where "g \<in> set (state_Feeds (fst (store_State C s)))" and g: "managedEntries C g = Inr es"
    "sp = spec_of (feed_file stat fp g) g es" by (force simp: spec_for_def)
  then obtain k' where k: "fmlookup (cst_feeds (fst (store_State C s))) k' = Some g" by auto
  have "fdr_Name g = fdr_Name f" using g(2) sp(2) by (simp add: spec_of_def)
  then have "k' = k" using state_names(2) [OF k] state_names(2) [OF f(1)] by simp
  then have "g = f" using k f(1) by simp
  with g f(2) compile_feeds_lookup [OF k3 dist sp(1)] sp(2) show ?thesis by (auto simp: compileFeed_def spec_of_def)
qed

lemma mandatory_rules:
  assumes canon: "\<And>x. CanonicalName L (CanonicalName L x) = CanonicalName L x"
    and ok: "compilePolicies L C E stat fp (fst (store_State C s)) = Inr (pols, mandatory, w)"
    and f: "fmlookup (cst_feeds (fst (store_State C s))) n = Some f" "fdr_Mandatory f" "e \<in> set (fdr_Entries f)"
    and byhand: "\<And>k f'. fmlookup (cst_feeds (fst (store_State C s))) k = Some f' \<Longrightarrow> fdr_Mandatory f' \<Longrightarrow> feed_file stat fp f' = []"
    and free: "fmlookup (cst_classes (fst (store_State C s))) mandatoryClass = None"
  shows "\<exists>pol t. mandatory = Some pol \<and> pol_Rules pol = Some t
    \<and> fmlookup (set_exact t) (CanonicalName L (me_Name e)) \<noteq> None \<and> fmlookup (set_wild t) (CanonicalName L (me_Name e)) \<noteq> None
    \<and> (\<forall>x r. fmlookup (set_exact t) x = Some r \<or> fmlookup (set_wild t) x = Some r \<longrightarrow> r_Action r \<noteq> ActionPassthru)"
proof -
  let ?st = "fst (store_State C s)" and ?x = "CanonicalName L (me_Name e)"
  obtain specs mand w0 classes compiled out where k1: "feed_loop C stat fp (state_Feeds ?st) [] [] 0 = Inr (specs, mand, w0)"
    and k2: "class_loop C (set (map fs_Name specs)) (state_Classes ?st) (mandatory_specs mand) = Inr classes"
    and k3: "compile_feeds L E specs Map.empty = Inr compiled"
    and k4: "compile_classes compiled classes Map.empty = Inr out" and k5: "mandatory = out mandatoryClass"
    by (rule compilePolicies_Inr [OF ok])
  note loop = feed_loop_specs [OF k1]
  have sets: "\<exists>es. compiled (fdr_Name f') = Some (entrySet L (spec_of [] f' es)) \<and> managedEntries C f' = Inr es"
    if "f' \<in> set (state_Feeds ?st)" "fdr_Mandatory f'" "compiled (fdr_Name f') \<noteq> None" for f'
    using mandatory_set [OF k1 k3 _ _ that(3)] byhand that by auto
  have fs: "f \<in> set (state_Feeds ?st)" "fdr_Name f = n" using f(1) state_names(2) by auto
  obtain es where es: "managedEntries C f = Inr es" "n \<in> set mand" using feed_loop_used [OF k1 fs(1) length_pos_if_in_set [OF f(3), unfolded length_greater_0_conv]] f(2) fs(2) by auto
  from class_loop_specs [OF k2] obtain xs where xs: "classes = mandatory_specs mand @ xs" "map cs_Name xs = map clr_Name (state_Classes ?st)" by blast
  have "cs_Name ` set xs = clr_Name ` set (state_Classes ?st)" using xs(2) by (metis list.set_map)
  then have "mandatoryClass \<notin> cs_Name ` set xs" using free by auto (metis option.distinct(1) state_names(1))
  then have free': "cs_Name \<lparr>cs_Name = mandatoryClass, cs_Feeds = sort mand, cs_Action = ActionNXDOMAIN, cs_RedirectTo = []\<rparr> \<notin> cs_Name ` set xs" by simp
  have cl: "classes = [] @ \<lparr>cs_Name = mandatoryClass, cs_Feeds = sort mand, cs_Action = ActionNXDOMAIN, cs_RedirectTo = []\<rparr> # xs"
    using xs(1) es(2) by (auto simp: mandatory_specs_def)
  obtain t where t: "merge_feeds compiled mandatoryClass (sort mand) NewSet = Inr t"
    and pol: "out mandatoryClass = Some \<lparr>pol_Class = mandatoryClass, pol_Rules = Some t, pol_RedirectTo = [], pol_Feeds = sort mand\<rparr>"
    using compile_classes_last [OF k4 [unfolded cl] free'] by auto
  note first = merge_feeds_first [OF t]
  have src: "\<exists>f' es'. f' \<in> set (state_Feeds ?st) \<and> compiled m = Some (entrySet L (spec_of [] f' es')) \<and> managedEntries C f' = Inr es'" if "m \<in> set mand" for m
  proof -
    from that loop obtain f' where f': "f' \<in> set (state_Feeds ?st)" "fdr_Mandatory f'" "fdr_Name f' = m" by fastforce
    have "compiled m \<noteq> None" using first that by auto
    from sets [OF f'(1,2)] this f' show ?thesis by blast
  qed
  have act: "r_Action r \<noteq> ActionPassthru" if "fmlookup (set_exact t) x = Some r \<or> fmlookup (set_wild t) x = Some r" for x r
  proof -
    from that first [of x] obtain m where m: "m \<in> set mand"
      "fmlookup (set_exact (the (compiled m))) x = Some r \<or> fmlookup (set_wild (the (compiled m))) x = Some r"
      by (auto simp: NewSet_def dest!: first_some_SomeD)
    from src [OF m(1)] obtain f' es' where "compiled m = Some (entrySet L (spec_of [] f' es'))" "managedEntries C f' = Inr es'" by blast
    with m(2) entrySet_rules [OF canon, of "spec_of [] f' es'" x] managedEntries_map [of C f' es'] show ?thesis by (auto simp: spec_of_def)
  qed
  have "compiled n \<noteq> None" using first es(2) by (auto simp: subset_iff)
  then obtain es' where c: "compiled n = Some (entrySet L (spec_of [] f es'))" "managedEntries C f = Inr es'"
    using sets [OF fs(1) f(2)] fs(2) by auto
  then have "me_Name e \<in> fd_Name ` set es'" using managedEntries_map [OF c(2)] f(3) by (metis image_eqI list.set_map)
  then have "?x \<in> (\<lambda>e. CanonicalName L (fd_Name e)) ` set (fs_Entries (spec_of [] f es'))" by (auto simp: spec_of_def)
  then have has: "fmlookup (set_exact (the (compiled n))) ?x \<noteq> None" "fmlookup (set_wild (the (compiled n))) ?x \<noteq> None"
    using entrySet_rules [OF canon, of "spec_of [] f es'" ?x] c(1) by auto
  then have "fmlookup (set_exact t) ?x \<noteq> None" "fmlookup (set_wild t) ?x \<noteq> None"
    using first [of ?x] es(2) by (auto simp: NewSet_def first_some_None)
  with pol k5 act show ?thesis by auto
qed

text \<open>C14. A compliance list kept by hand is enforced end to end: when the store's state has a mandatory feed with an entry, publication succeeds, the mandatory
  feeds are all kept by hand (no file behind them) and no class has the tier's reserved name, then every query at or below the
  entry's name gets the answer of a blocking rule of the mandatory tier, whatever the client's address, class and overrides, and the resolver behind is never
  asked.\<close>

theorem mandatory_entry_enforced:
  assumes "dns_names L labels valid" and "fmlookup (cst_feeds (fst (store_State C s))) n = Some f" and "fdr_Mandatory f" and "e \<in> set (fdr_Entries f)"
    and "\<forall>k f'. fmlookup (cst_feeds (fst (store_State C s))) k = Some f' \<and> fdr_Mandatory f' \<longrightarrow> feed_file stat fp f' = []"
    and "fmlookup (cst_classes (fst (store_State C s))) mandatoryClass = None"
    and "p' = publish L C E stat fp s p" and "pb_failures p' = pb_failures p" and "pb_registry p = Some g" and "pb_classifier p = Some cl"
    and "valid (me_Name e)" and "valid (q_Name q)" and "suffix (labels (CanonicalName L (me_Name e))) (labels (CanonicalName L (q_Name q)))"
    and "m_Question (rq_Msg req) = q # qs"
  shows "\<exists>r. r_Action r \<noteq> ActionPassthru
    \<and> (\<forall>next mt s0. \<exists>mt'. en_ServeDNS L \<lparr>en_classifier = pb_classifier p', en_registry = pb_registry p'\<rparr> next req (mt, s0)
        = Some (fst (en_apply L req q r mt'), snd (en_apply L req q r mt'), s0))"
proof -
  note canon = dns_names.canon_idem [OF assms(1)]
  show ?thesis
  proof (cases rule: publish_cases [where L = L and C = C and E = E and stat = stat and fp = fp and s = s and p = p])
    case (ok entries pols mandatory w)
    obtain pol t where pol: "mandatory = Some pol" "pol_Rules pol = Some t"
      and has: "fmlookup (set_exact t) (CanonicalName L (me_Name e)) \<noteq> None" "fmlookup (set_wild t) (CanonicalName L (me_Name e)) \<noteq> None"
      and act: "\<forall>x r. fmlookup (set_exact t) x = Some r \<or> fmlookup (set_wild t) x = Some r \<longrightarrow> r_Action r \<noteq> ActionPassthru"
      using mandatory_rules [OF canon ok(2) assms(2-4) _ assms(6)] assms(5) by blast
    obtain r where r: "set_Match L (Some t) (q_Name q) = Some (Some r)" "r_Action r \<noteq> ActionPassthru"
      using dns_names.match_below [OF assms(1,12) dns_names.canon_valid [OF assms(1,11)] canon has assms(13)] act by blast
    from ok(3) assms(7,9,10) pol obtain g' cl' where "pb_registry p' = Some g'" "Mandatory g' = Some pol" "pb_classifier p' = Some cl'"
      by (simp add: Mandatory_def ReplaceMandatory_def)
    with r pol(2) assms(14) have "en_ServeDNS L \<lparr>en_classifier = pb_classifier p', en_registry = pb_registry p'\<rparr> next req (mt, s0)
        = (let mt' = mt\<lparr>pm_Evaluated := Suc (pm_Evaluated mt), pm_MandatoryApplied := Suc (pm_MandatoryApplied mt)\<rparr>
           in Some (fst (en_apply L req q r mt'), snd (en_apply L req q r mt'), s0))" for "next" mt and s0 :: 'a
      by (simp add: en_ServeDNS_def en_lookup_mandatory Let_def split: prod.splits)
    with r(2) show ?thesis unfolding Let_def by blast
  qed (use assms(7,8) in simp)
qed

section \<open>Witnesses\<close>

definition one_record :: "record_kind \<Rightarrow> store" where
  "one_record kind = gold_store\<lparr>st_records := fmupd (cr_ID (gold_record\<lparr>cr_Kind := kind\<rparr>)) (gold_record\<lparr>cr_Kind := kind\<rparr>) fmempty\<rparr>"

lemma one_record_State: "store_State C (one_record kind) = (state_step C NewState (gold_record\<lparr>cr_Kind := kind\<rparr>), 1)"
  by (simp add: store_State_def recordsLocked_def all_records_def one_record_def gold_store_def gold_record_def sorted_list_of_fset.rep_eq)

definition no_files :: feed_env where
  "no_files = \<lparr>fe_zone = \<lambda>_ _ _. ([], False), fe_isAddr = \<lambda>_. False, fe_open = \<lambda>_. None\<rparr>"

definition test_pub :: publisher where
  "test_pub = NewPublisher (Some (classifier_New ''base'')) (Some NewRegistry)"

definition class_ctl :: "class_rec \<Rightarrow> control_env" where
  "class_ctl c = test_ctl\<lparr>ce_decClass := \<lambda>_. Some c\<rparr>"

lemma class_ctl_State:
  "norm_class c = Inr c' \<Longrightarrow> fst (store_State (class_ctl c) (one_record KindClass)) = NewState\<lparr>cst_classes := fmupd (clr_Name c') c' fmempty\<rparr>"
  by (simp add: one_record_State state_step_def taken_def decoded_def set_defs class_ctl_def gold_record_def NewState_def)

theorem quiescent_published_witness:
  "\<exists>E stat p0. pr_pub (run_publish ref_lib test_ctl no_files (\<lambda>_. False) None ((run_start node_a test_pub)\<lparr>pr_started := True\<rparr>))
     = publish ref_lib test_ctl E stat None node_a p0"
proof -
  let ?s = "run_publish ref_lib test_ctl no_files (\<lambda>_. False) None ((run_start node_a test_pub)\<lparr>pr_started := True\<rparr>)"
  have "pub_reach ref_lib test_ctl None ?s" by (rule pr_first [OF pr_start]) (simp add: run_start_def)
  moreover have "pr_started ?s" "\<not> pr_changes ?s" "pr_known ?s = st_version (pr_store ?s)" "pr_store ?s = node_a"
    by (simp_all add: run_publish_def run_start_def node_a_def)
  ultimately show ?thesis using quiescent_published [of ref_lib test_ctl None ?s] by simp
qed

theorem bad_class_freezes_witness:
  "publish ref_lib (class_ctl (gold_kept\<lparr>clr_Action := ''bogus''\<rparr>)) no_files (\<lambda>_. False) None (one_record KindClass) test_pub
     = test_pub\<lparr>pb_failures := 1\<rparr>"
proof -
  let ?c = "gold_kept\<lparr>clr_Action := ''bogus''\<rparr>"
  have n: "norm_class ?c = Inr ?c" by code_simp
  have a: "ParseAction (clr_Action ?c) = Inl (UnknownAction ''bogus'')" by code_simp
  have "fmlookup (cst_classes (fst (store_State (class_ctl ?c) (one_record KindClass)))) ''gold'' = Some ?c"
    unfolding class_ctl_State [OF n] by (simp add: gold_kept_def)
  from bad_class_freezes [OF this a, of ref_lib no_files "\<lambda>_. False" None test_pub] show ?thesis
    by (simp add: test_pub_def NewPublisher_def)
qed

theorem reserved_class_replaces_mandatory_witness:
  "\<exists>g' pol. pb_registry (publish ref_lib (class_ctl \<lparr>clr_Name = mandatoryClass, clr_Feeds = [], clr_Action = [], clr_RedirectTo = []\<rparr>) no_files
      (\<lambda>_. False) None (one_record KindClass) test_pub) = Some g' \<and> Mandatory g' = Some pol \<and> pol_Rules pol = Some NewSet"
proof -
  let ?c = "\<lparr>clr_Name = mandatoryClass, clr_Feeds = [], clr_Action = [], clr_RedirectTo = []\<rparr>"
  have n: "norm_class ?c = Inr ?c" by code_simp
  note st = class_ctl_State [OF n]
  have l: "fmlookup (cst_classes (fst (store_State (class_ctl ?c) (one_record KindClass)))) mandatoryClass = Some ?c" unfolding st by simp
  have g: "pb_registry test_pub = Some NewRegistry" by (simp add: test_pub_def NewPublisher_def)
  have "pb_failures (publish ref_lib (class_ctl ?c) no_files (\<lambda>_. False) None (one_record KindClass) test_pub) = pb_failures test_pub"
    by (simp add: publish_def split_beta st subscriberEntries_def compilePolicies_def list_defs NewState_def map_values_def Compile_def
        mandatory_specs_def ParseAction_def ToLower_def sorted_list_of_fset.rep_eq)
  from reserved_class_replaces_mandatory [OF l g this] show ?thesis by auto
qed

definition list_ctl :: control_env where
  "list_ctl = test_ctl\<lparr>ce_decFeed := \<lambda>_. Some (root_feed ''bad.example'')\<rparr>"

theorem mandatory_entry_enforced_witness:
  "\<exists>r. r_Action r \<noteq> ActionPassthru \<and> (\<forall>next mt s0. \<exists>mt'. en_ServeDNS ref_lib
      \<lparr>en_classifier = pb_classifier (publish ref_lib list_ctl no_files (\<lambda>_. False) None (one_record KindFeed) test_pub),
       en_registry = pb_registry (publish ref_lib list_ctl no_files (\<lambda>_. False) None (one_record KindFeed) test_pub)\<rparr> next (test_query ''www.Bad.example'') (mt, s0 :: unit)
    = Some (fst (en_apply ref_lib (test_query ''www.Bad.example'') \<lparr>q_Name = ''www.Bad.example'', q_Qtype = TypeA, q_Qclass = ClassINET\<rparr> r mt'),
        snd (en_apply ref_lib (test_query ''www.Bad.example'') \<lparr>q_Name = ''www.Bad.example'', q_Qtype = TypeA, q_Qclass = ClassINET\<rparr> r mt'), s0))"
proof -
  let ?f = "root_feed ''bad.example''" and ?q = "\<lparr>q_Name = ''www.Bad.example'', q_Qtype = TypeA, q_Qclass = ClassINET\<rparr>"
  have "norm_feed list_ctl ?f = Inr ?f" by code_simp
  then have st: "fst (store_State list_ctl (one_record KindFeed)) = NewState\<lparr>cst_feeds := fmupd ''f'' ?f fmempty\<rparr>"
    by (simp add: one_record_State state_step_def taken_def decoded_def set_defs list_ctl_def gold_record_def NewState_def) (simp add: root_feed_def)
  have e: "fdr_Entries ?f = [\<lparr>me_Name = ''bad.example'', me_Action = [], me_To = [], me_Note = []\<rparr>]" "fdr_Mandatory ?f" by (simp_all add: root_feed_def)
  have nofile: "feed_file (\<lambda>_. False) None ?f = []" by (simp add: feed_file_def root_feed_def)
  have f: "feed_loop list_ctl (\<lambda>_. False) None [?f] [] [] 0 = Inr ([spec_of [] ?f [\<lparr>fd_Name = ''bad.example'', fd_Action = ActionNXDOMAIN, fd_To = []\<rparr>]], [''f''], 0)"
    by code_simp
  let ?st = "NewState\<lparr>cst_feeds := fmupd ''f'' ?f fmempty\<rparr>"
  have lists: "state_Feeds ?st = [?f]" "state_Classes ?st = []" "state_Subscribers ?st = []"
    by (simp_all add: list_defs NewState_def) (simp_all add: map_values_def sorted_list_of_fset.rep_eq)
  have "\<exists>out. Compile ref_lib no_files [spec_of [] ?f [\<lparr>fd_Name = ''bad.example'', fd_Action = ActionNXDOMAIN, fd_To = []\<rparr>]] (mandatory_specs [''f'']) = Inr out"
    by (simp add: Compile_def compileFeed_def spec_of_def mandatory_specs_def root_feed_def)
  then have "\<exists>r. compilePolicies ref_lib list_ctl no_files (\<lambda>_. False) None ?st = Inr r"
    unfolding compilePolicies_def lists f by auto
  then have "pb_failures (publish ref_lib list_ctl no_files (\<lambda>_. False) None (one_record KindFeed) test_pub) = pb_failures test_pub"
    by (auto simp: publish_def split_beta st subscriberEntries_def lists)
  moreover have "CanonicalName ref_lib ''www.Bad.example'' = ''www.bad.example.''" "CanonicalName ref_lib ''bad.example'' = ''bad.example.''"
    "suffix (ref_labels ''bad.example.'') (ref_labels ''www.bad.example.'')" by code_simp+
  ultimately show ?thesis
    using e nofile by (intro mandatory_entry_enforced [OF ref.dns_names_axioms, where f = ?f and n = "''f''" and C = list_ctl and s = "one_record KindFeed"
          and e = "\<lparr>me_Name = ''bad.example'', me_Action = [], me_To = [], me_Note = []\<rparr>" and stat = "\<lambda>_. False" and fp = None and E = no_files and p = test_pub
          and g = NewRegistry and cl = "classifier_New ''base''" and qs = "[]" and q = ?q])
      (simp_all add: st NewState_def test_pub_def NewPublisher_def test_query_def ref_valid_def)
qed

end
