(* ===== verification/Peer_Link.thy ===== *)
theory Peer_Link
  imports Cache Control_Store
begin

text \<open>
  \<open>internal/peer\<close>: the link between the two resolvers of a pair. \<open>protocol.go\<close>, the framing and the encoding of cache entries;
  \<open>server.go\<close>, what a node answers to its sibling; \<open>client.go\<close>, the connection a node keeps, its queue of pushes, fetches and
  the anti-entropy round; \<open>cache.go\<close>, the cache that asks the sibling.

  A connection is the bytes it delivers. JSON, \<open>dns.Msg\<close> packing and the label of an unknown message are the fields of
  \<open>peer_env\<close>. What a request brings back over the network is the argument \<open>wire\<close>, which may fail (\<open>None\<close>), answer short
  or send more than was asked; bytes not read stay in the connection's buffer. TLS, deadlines and dialling are outside; \<open>dial_io\<close> is
  what the dialler yields. Counters are unbounded, each half of the link counts for itself, and logging is left out. A cache
  operation that does not return makes the operation \<open>None\<close>.
\<close>

type_synonym bytes = "8 word list"
type_synonym msg_type = "8 word"

definition ProtocolVersion :: "8 word" where "ProtocolVersion = 1"
definition MsgHello :: msg_type where "MsgHello = 1"
definition MsgOK :: msg_type where "MsgOK = 2"
definition MsgError :: msg_type where "MsgError = 3"
definition MsgCacheFetch :: msg_type where "MsgCacheFetch = 10"
definition MsgCacheHit :: msg_type where "MsgCacheHit = 11"
definition MsgCacheMiss :: msg_type where "MsgCacheMiss = 12"
definition MsgCachePush :: msg_type where "MsgCachePush = 13"
definition MsgDigests :: msg_type where "MsgDigests = 20"
definition MsgRecords :: msg_type where "MsgRecords = 21"
definition MsgWantRecords :: msg_type where "MsgWantRecords = 22"

lemmas msg_defs = MsgHello_def MsgOK_def MsgError_def MsgCacheFetch_def MsgCacheHit_def MsgCacheMiss_def MsgCachePush_def
  MsgDigests_def MsgRecords_def MsgWantRecords_def

definition msg_String :: "msg_type \<Rightarrow> string" where
  "msg_String m = (if m = MsgHello then ''hello'' else if m = MsgOK then ''ok'' else if m = MsgError then ''error''
     else if m = MsgCacheFetch then ''cache-fetch'' else if m = MsgCacheHit then ''cache-hit'' else if m = MsgCacheMiss then ''cache-miss''
     else if m = MsgCachePush then ''cache-push'' else if m = MsgDigests then ''digests'' else if m = MsgRecords then ''records''
     else if m = MsgWantRecords then ''want-records'' else ''unknown('' @ decimal (unat m) @ '')'')"

definition maxFrame :: nat where "maxFrame = 8 * 2 ^ 20"

datatype peer_error = ErrPeerClosed | ShortRead | FrameTooLarge | EncodeErr | DecodeErr | ExpectedHello | VersionMismatch | OwnNodeID
  | EntryExpired | NoQuestion | NoRecords | ArrivedExpired | DialErr | WireErr

record hello =
  he_Version :: "8 word"
  he_NodeID :: string
  he_POP :: string

record key_wire =
  kw_Name :: string
  kw_Type :: u16
  kw_Class :: u16

record peer_env =
  pe_encHello :: "hello \<Rightarrow> bytes option"
  pe_decHello :: "bytes \<Rightarrow> hello option"
  pe_encKey :: "key_wire \<Rightarrow> bytes option"
  pe_decKey :: "bytes \<Rightarrow> key_wire option"
  pe_encPush :: "bytes list \<Rightarrow> bytes option"
  pe_decPush :: "bytes \<Rightarrow> bytes list option"
  pe_encRecords :: "crecord list \<Rightarrow> bytes option"
  pe_decRecords :: "bytes \<Rightarrow> crecord list option"
  pe_encDigests :: "digest list \<Rightarrow> bytes option"
  pe_decDigests :: "bytes \<Rightarrow> digest list option"
  pe_encError :: "string \<Rightarrow> bytes option"
  pe_Pack :: "dmsg \<Rightarrow> bytes option"
  pe_Unpack :: "bytes \<Rightarrow> dmsg option"

section \<open>Frames\<close>

definition PutUint32 :: "u32 \<Rightarrow> bytes" where
  "PutUint32 v = [ucast (drop_bit 24 v), ucast (drop_bit 16 v), ucast (drop_bit 8 v), ucast v]"

definition Uint32 :: "bytes \<Rightarrow> u32" where
  "Uint32 b = ucast (b ! 3) OR push_bit 8 (ucast (b ! 2)) OR push_bit 16 (ucast (b ! 1)) OR push_bit 24 (ucast (b ! 0))"

definition writeFrame :: "msg_type \<Rightarrow> bytes \<Rightarrow> peer_error + bytes" where
  "writeFrame t payload = (if length payload > maxFrame then Inl FrameTooLarge
     else Inr (t # PutUint32 (of_nat (length payload)) @ payload))"

definition readFrame :: "bytes \<Rightarrow> peer_error + msg_type \<times> bytes \<times> bytes" where
  "readFrame input =
     (if length input < 5 then Inl ErrPeerClosed
      else let t = input ! 0; n = unat (Uint32 (take 4 (drop 1 input))); rest = drop 5 input in
        if n > maxFrame then Inl FrameTooLarge
        else if n = 0 then Inr (t, [], rest)
        else if length rest < n then Inl ShortRead
        else Inr (t, take n rest, drop n rest))"

definition writeJSON :: "msg_type \<Rightarrow> bytes option \<Rightarrow> peer_error + bytes" where
  "writeJSON t v = (case v of None \<Rightarrow> Inl EncodeErr | Some b \<Rightarrow> writeFrame t b)"

definition wireKey :: "ckey \<Rightarrow> key_wire" where
  "wireKey k = \<lparr>kw_Name = ck_Name k, kw_Type = ck_Type k, kw_Class = ck_Class k\<rparr>"

definition kw_key :: "key_wire \<Rightarrow> ckey" where
  "kw_key w = NewKey (kw_Name w) (kw_Type w) (kw_Class w)"

section \<open>Cache entries on the wire\<close>

definition entry_msg :: "dnslib \<Rightarrow> ckey \<Rightarrow> centry \<Rightarrow> gtime \<Rightarrow> dmsg" where
  "entry_msg L k e now =
     (let m0 = SetQuestion L (ck_Name k) (ck_Type k);
          m = m0\<lparr>m_Question := (m_Question m0)[0 := (m_Question m0 ! 0)\<lparr>q_Qclass := ck_Class k\<rparr>], m_Rcode := e_Rcode e,
                 m_Response := True, m_AuthenticatedData := e_Authenticated e\<rparr>;
          rrs = RRsAt L e now
      in case e_Kind e of KindAnswer \<Rightarrow> m\<lparr>m_Answer := rrs\<rparr> | KindNegative \<Rightarrow> m\<lparr>m_Ns := rrs\<rparr>)"

definition encodeEntry :: "dnslib \<Rightarrow> peer_env \<Rightarrow> ckey \<Rightarrow> centry \<Rightarrow> gtime \<Rightarrow> peer_error + bytes" where
  "encodeEntry L E k e now = (if TTLAt e now = 0 then Inl EntryExpired
     else case pe_Pack E (entry_msg L k e now) of None \<Rightarrow> Inl EncodeErr | Some b \<Rightarrow> Inr b)"

text \<open>A new entry with the zero values of Go.\<close>

definition shared_entry :: "kind \<Rightarrow> rr list \<Rightarrow> int \<Rightarrow> bool \<Rightarrow> centry" where
  "shared_entry kd rrs rcode auth = \<lparr>e_RRs = rrs, e_Kind = kd, e_Rcode = rcode, e_Authenticated = auth, e_Validated = False,
     e_Stored = 0, e_Expiry = 0\<rparr>"

definition decodeEntry :: "peer_env \<Rightarrow> bytes \<Rightarrow> peer_error + ckey \<times> centry \<times> duration" where
  "decodeEntry E b = (case pe_Unpack E b of
       None \<Rightarrow> Inl DecodeErr
     | Some m \<Rightarrow> (case m_Question m of
           [q] \<Rightarrow>
             (case (if m_Answer m \<noteq> [] then (KindAnswer, m_Answer m) else (KindNegative, m_Ns m)) of
                (_, []) \<Rightarrow> Inl NoRecords
              | (kd, r0 # rest) \<Rightarrow>
                  (let ttl = minTtl r0 rest in
                   if ttl = 0 then Inl ArrivedExpired
                   else Inr (NewKey (q_Name q) (q_Qtype q) (q_Qclass q), shared_entry kd (r0 # rest) (m_Rcode m) (m_AuthenticatedData m),
                     uint ttl * second)))
         | _ \<Rightarrow> Inl NoQuestion))"

section \<open>The server\<close>

record peer_metrics =
  pm_CachePushSent :: nat
  pm_CachePushReceived :: nat
  pm_CacheFetchSent :: nat
  pm_CacheFetchHits :: nat
  pm_CacheFetchMisses :: nat
  pm_CacheFetchErrors :: nat
  pm_RecordsSent :: nat
  pm_RecordsReceived :: nat
  pm_SyncRuns :: nat
  pm_SyncErrors :: nat
  pm_Connects :: nat
  pm_Disconnects :: nat
  pm_Rejected :: nat

definition no_metrics :: peer_metrics where
  "no_metrics = \<lparr>pm_CachePushSent = 0, pm_CachePushReceived = 0, pm_CacheFetchSent = 0, pm_CacheFetchHits = 0, pm_CacheFetchMisses = 0,
     pm_CacheFetchErrors = 0, pm_RecordsSent = 0, pm_RecordsReceived = 0, pm_SyncRuns = 0, pm_SyncErrors = 0, pm_Connects = 0,
     pm_Disconnects = 0, pm_Rejected = 0\<rparr>"

record pserver =
  sv_NodeID :: string
  sv_Cache :: cache
  sv_Store :: store
  sv_active :: int
  sv_conns :: "nat set"
  sv_metrics :: peer_metrics

text \<open>\<open>NewServer\<close>; the argument \<open>tls\<close> is the TLS configuration, reduced to whether it requires and verifies a client certificate.\<close>

datatype link_error = NodeIDMissing | AddrMissing | TLSMissing | ClientAuthMissing | BindFailed

definition NewServer :: "string \<Rightarrow> string \<Rightarrow> bool option \<Rightarrow> bool \<Rightarrow> cache \<Rightarrow> store \<Rightarrow> link_error + pserver" where
  "NewServer nodeID addr tls bound c st =
     (if nodeID = [] then Inl NodeIDMissing
      else if addr = [] then Inl AddrMissing
      else case tls of
          None \<Rightarrow> Inl TLSMissing
        | Some verifies \<Rightarrow>
            if \<not> verifies then Inl ClientAuthMissing
            else if \<not> bound then Inl BindFailed
            else Inr \<lparr>sv_NodeID = nodeID, sv_Cache = c, sv_Store = st, sv_active = 0, sv_conns = {}, sv_metrics = no_metrics\<rparr>)"

definition sv_Connected :: "pserver \<Rightarrow> bool" where
  "sv_Connected s \<longleftrightarrow> sv_active s > 0"

definition sv_count :: "(peer_metrics \<Rightarrow> peer_metrics) \<Rightarrow> pserver \<Rightarrow> pserver" where
  "sv_count f s = s\<lparr>sv_metrics := f (sv_metrics s)\<rparr>"

definition sv_track :: "nat \<Rightarrow> pserver \<Rightarrow> pserver" where
  "sv_track c s = s\<lparr>sv_conns := insert c (sv_conns s)\<rparr>"

definition sv_untrack :: "nat \<Rightarrow> pserver \<Rightarrow> pserver" where
  "sv_untrack c s = s\<lparr>sv_conns := sv_conns s - {c}\<rparr>"

definition sv_Close :: "pserver \<Rightarrow> pserver" where
  "sv_Close s = s\<lparr>sv_conns := {}\<rparr>"

definition sv_handshake :: "peer_env \<Rightarrow> bytes \<Rightarrow> pserver \<Rightarrow> peer_error + bytes \<times> bytes" where
  "sv_handshake E input s = (case readFrame input of
       Inl e \<Rightarrow> Inl e
     | Inr (t, payload, rest) \<Rightarrow>
         if t \<noteq> MsgHello then Inl ExpectedHello
         else (case pe_decHello E payload of
             None \<Rightarrow> Inl DecodeErr
           | Some h \<Rightarrow>
               if he_Version h \<noteq> ProtocolVersion then Inl VersionMismatch
               else if he_NodeID h = sv_NodeID s then Inl OwnNodeID
               else (case writeJSON MsgHello (pe_encHello E \<lparr>he_Version = ProtocolVersion, he_NodeID = sv_NodeID s, he_POP = []\<rparr>) of
                   Inl e \<Rightarrow> Inl e
                 | Inr out \<Rightarrow> Inr (out, rest))))"

definition serveCacheFetch :: "(ckey \<Rightarrow> 64 word) \<Rightarrow> dnslib \<Rightarrow> peer_env \<Rightarrow> gtime \<Rightarrow> bytes \<Rightarrow> pserver \<Rightarrow> (peer_error + bytes) \<times> pserver" where
  "serveCacheFetch H L E now payload s = (case pe_decKey E payload of
       None \<Rightarrow> (Inl DecodeErr, s)
     | Some w \<Rightarrow>
         let (entry, c) = cache_Get H now (kw_key w) (sv_Cache s); s1 = s\<lparr>sv_Cache := c\<rparr> in
         case entry of
           None \<Rightarrow> (writeFrame MsgCacheMiss [], sv_count (\<lambda>m. m\<lparr>pm_CacheFetchMisses := pm_CacheFetchMisses m + 1\<rparr>) s1)
         | Some e \<Rightarrow> (case encodeEntry L E (kw_key w) e now of
               Inl _ \<Rightarrow> (writeFrame MsgCacheMiss [], s1)
             | Inr blob \<Rightarrow> (writeFrame MsgCacheHit blob, sv_count (\<lambda>m. m\<lparr>pm_CacheFetchHits := pm_CacheFetchHits m + 1\<rparr>) s1)))"

fun push_loop :: "(ckey \<Rightarrow> 64 word) \<Rightarrow> peer_env \<Rightarrow> gtime \<Rightarrow> bytes list \<Rightarrow> pserver \<Rightarrow> pserver option" where
  "push_loop H E now [] s = Some s"
| "push_loop H E now (blob # bs) s = (case decodeEntry E blob of
       Inl _ \<Rightarrow> push_loop H E now bs s
     | Inr (k, e, ttl) \<Rightarrow> (case cache_Put H now k e ttl (sv_Cache s) of
           None \<Rightarrow> None
         | Some c \<Rightarrow> push_loop H E now bs (sv_count (\<lambda>m. m\<lparr>pm_CachePushReceived := pm_CachePushReceived m + 1\<rparr>) (s\<lparr>sv_Cache := c\<rparr>))))"

definition serveCachePush :: "(ckey \<Rightarrow> 64 word) \<Rightarrow> peer_env \<Rightarrow> gtime \<Rightarrow> bytes \<Rightarrow> pserver \<Rightarrow> ((peer_error + bytes) \<times> pserver) option" where
  "serveCachePush H E now payload s = (case pe_decPush E payload of
       None \<Rightarrow> Some (Inl DecodeErr, s)
     | Some entries \<Rightarrow> map_option (\<lambda>s'. (writeFrame MsgOK [], s')) (push_loop H E now entries s))"

definition serveDigests :: "peer_env \<Rightarrow> bytes \<Rightarrow> pserver \<Rightarrow> (peer_error + bytes) \<times> pserver" where
  "serveDigests E payload s = (case pe_decDigests E payload of
       None \<Rightarrow> (Inl DecodeErr, s)
     | Some ds \<Rightarrow>
         let missing = Missing ds (sv_Store s)
         in (writeJSON MsgRecords (pe_encRecords E missing), sv_count (\<lambda>m. m\<lparr>pm_RecordsSent := pm_RecordsSent m + length missing\<rparr>) s))"

definition serveRecords :: "peer_env \<Rightarrow> bytes \<Rightarrow> pserver \<Rightarrow> (peer_error + bytes) \<times> pserver" where
  "serveRecords E payload s = (case pe_decRecords E payload of
       None \<Rightarrow> (Inl DecodeErr, s)
     | Some rs \<Rightarrow>
         let (adopted, st) = store_Merge rs (sv_Store s)
         in (writeFrame MsgOK [], sv_count (\<lambda>m. m\<lparr>pm_RecordsReceived := pm_RecordsReceived m + adopted\<rparr>) (s\<lparr>sv_Store := st\<rparr>)))"

definition dispatch :: "(ckey \<Rightarrow> 64 word) \<Rightarrow> dnslib \<Rightarrow> peer_env \<Rightarrow> gtime \<Rightarrow> msg_type \<Rightarrow> bytes \<Rightarrow> pserver \<Rightarrow> ((peer_error + bytes) \<times> pserver) option" where
  "dispatch H L E now t payload s =
     (if t = MsgCacheFetch then Some (serveCacheFetch H L E now payload s)
      else if t = MsgCachePush then serveCachePush H E now payload s
      else if t = MsgDigests then Some (serveDigests E payload s)
      else if t = MsgRecords then Some (serveRecords E payload s)
      else Some (writeJSON MsgError (pe_encError E (''unsupported message '' @ msg_String t)), s))"

lemma readFrame_shorter: "readFrame input = Inr (t, payload, rest) \<Longrightarrow> length rest < length input"
  by (auto simp: readFrame_def Let_def split: if_splits)

text \<open>The loop of \<open>handle\<close> after the handshake, over the bytes the connection delivers until it ends; \<open>clock\<close> gives the time at which the frame
  is handled, counted by the bytes still to come.\<close>

function serve_loop :: "(ckey \<Rightarrow> 64 word) \<Rightarrow> dnslib \<Rightarrow> peer_env \<Rightarrow> (nat \<Rightarrow> gtime) \<Rightarrow> bytes \<Rightarrow> pserver \<Rightarrow> (bytes \<times> pserver) option" where
  "serve_loop H L E clock input s = (case readFrame input of
       Inl _ \<Rightarrow> Some ([], s)
     | Inr (t, payload, rest) \<Rightarrow> (case dispatch H L E (clock (length rest)) t payload s of
           None \<Rightarrow> None
         | Some (Inl _, s') \<Rightarrow> Some ([], s')
         | Some (Inr out, s') \<Rightarrow> map_option (\<lambda>(outs, s''). (out @ outs, s'')) (serve_loop H L E clock rest s')))"
  by pat_completeness auto
termination
  by (relation "measure (\<lambda>(H, L, E, clock, input, s). length input)") (auto dest: readFrame_shorter)

declare serve_loop.simps [simp del]

definition sv_handle :: "(ckey \<Rightarrow> 64 word) \<Rightarrow> dnslib \<Rightarrow> peer_env \<Rightarrow> (nat \<Rightarrow> gtime) \<Rightarrow> nat \<Rightarrow> bytes \<Rightarrow> pserver \<Rightarrow> (bytes \<times> pserver) option" where
  "sv_handle H L E clock conn input s0 =
     (let s = sv_track conn s0 in
      case sv_handshake E input s of
        Inl _ \<Rightarrow> Some ([], sv_untrack conn (sv_count (\<lambda>m. m\<lparr>pm_Rejected := pm_Rejected m + 1\<rparr>) s))
      | Inr (out, rest) \<Rightarrow>
          let s1 = sv_count (\<lambda>m. m\<lparr>pm_Connects := pm_Connects m + 1\<rparr>) s; s2 = s1\<lparr>sv_active := sv_active s1 + 1\<rparr> in
          map_option (\<lambda>(outs, s3). (out @ outs, sv_untrack conn (sv_count (\<lambda>m. m\<lparr>pm_Disconnects := pm_Disconnects m + 1\<rparr>)
            (s3\<lparr>sv_active := sv_active s3 - 1\<rparr>)))) (serve_loop H L E clock rest s2))"

section \<open>The client\<close>

text \<open>\<open>cl_conn\<close> is the open connection with the bytes received and not yet read.\<close>

record pclient =
  cl_NodeID :: string
  cl_PushBatch :: nat
  cl_QueueLimit :: nat
  cl_Store :: "store option"
  cl_conn :: "bytes option"
  cl_connected :: bool
  cl_closed :: bool
  cl_queue :: "bytes list"
  cl_metrics :: peer_metrics

definition NewClient :: "string \<Rightarrow> string \<Rightarrow> bool \<Rightarrow> int \<Rightarrow> int \<Rightarrow> store option \<Rightarrow> link_error + pclient" where
  "NewClient nodeID addr tls batch limit st =
     (if nodeID = [] then Inl NodeIDMissing
      else if addr = [] then Inl AddrMissing
      else if \<not> tls then Inl TLSMissing
      else Inr \<lparr>cl_NodeID = nodeID, cl_PushBatch = (if batch \<le> 0 then 256 else nat batch),
        cl_QueueLimit = (if limit \<le> 0 then 4096 else nat limit), cl_Store = st, cl_conn = None, cl_connected = False, cl_closed = False,
        cl_queue = [], cl_metrics = no_metrics\<rparr>)"

definition cl_count :: "(peer_metrics \<Rightarrow> peer_metrics) \<Rightarrow> pclient \<Rightarrow> pclient" where
  "cl_count f c = c\<lparr>cl_metrics := f (cl_metrics c)\<rparr>"

definition dial :: "peer_env \<Rightarrow> bytes option \<Rightarrow> pclient \<Rightarrow> peer_error option \<times> pclient" where
  "dial E io c = (case io of
       None \<Rightarrow> (Some DialErr, c)
     | Some input \<Rightarrow>
         (case writeJSON MsgHello (pe_encHello E \<lparr>he_Version = ProtocolVersion, he_NodeID = cl_NodeID c, he_POP = []\<rparr>) of
            Inl e \<Rightarrow> (Some e, c)
          | Inr _ \<Rightarrow> (case readFrame input of
                Inl e \<Rightarrow> (Some e, c)
              | Inr (t, payload, rest) \<Rightarrow>
                  if t \<noteq> MsgHello then (Some ExpectedHello, c)
                  else (case pe_decHello E payload of
                      None \<Rightarrow> (Some DecodeErr, c)
                    | Some h \<Rightarrow>
                        if he_Version h \<noteq> ProtocolVersion then (Some VersionMismatch, c)
                        else (None, cl_count (\<lambda>m. m\<lparr>pm_Connects := pm_Connects m + 1\<rparr>) (c\<lparr>cl_conn := Some rest, cl_connected := True\<rparr>))))))"

definition dropConn :: "pclient \<Rightarrow> pclient" where
  "dropConn c = (let c1 = c\<lparr>cl_conn := None, cl_connected := False\<rparr> in
     if cl_connected c then cl_count (\<lambda>m. m\<lparr>pm_Disconnects := pm_Disconnects m + 1\<rparr>) c1 else c1)"

definition requestWithin :: "(bytes \<Rightarrow> 'w \<Rightarrow> bytes option \<times> 'w) \<Rightarrow> msg_type \<Rightarrow> bytes \<Rightarrow> pclient \<Rightarrow> 'w
    \<Rightarrow> (peer_error + msg_type \<times> bytes) \<times> pclient \<times> 'w" where
  "requestWithin wire t payload c w = (case cl_conn c of
       None \<Rightarrow> (Inl ErrPeerClosed, c, w)
     | Some buf \<Rightarrow> (case writeFrame t payload of
           Inl e \<Rightarrow> (Inl e, c, w)
         | Inr frame \<Rightarrow> (case wire frame w of
               (None, w') \<Rightarrow> (Inl WireErr, c, w')
             | (Some input, w') \<Rightarrow> (case readFrame (buf @ input) of
                   Inl e \<Rightarrow> (Inl e, c, w')
                 | Inr (t', resp, rest) \<Rightarrow> (Inr (t', resp), c\<lparr>cl_conn := Some rest\<rparr>, w')))))"

definition Fetch :: "peer_env \<Rightarrow> (bytes \<Rightarrow> 'w \<Rightarrow> bytes option \<times> 'w) \<Rightarrow> ckey \<Rightarrow> pclient \<Rightarrow> 'w \<Rightarrow> (centry \<times> duration) option \<times> pclient \<times> 'w" where
  "Fetch E wire k c w =
     (if \<not> cl_connected c then (None, c, w)
      else let c1 = cl_count (\<lambda>m. m\<lparr>pm_CacheFetchSent := pm_CacheFetchSent m + 1\<rparr>) c in
        case pe_encKey E (wireKey k) of
          None \<Rightarrow> (None, c1, w)
        | Some payload \<Rightarrow> (case requestWithin wire MsgCacheFetch payload c1 w of
              (Inl _, c2, w') \<Rightarrow> (None, dropConn (cl_count (\<lambda>m. m\<lparr>pm_CacheFetchErrors := pm_CacheFetchErrors m + 1\<rparr>) c2), w')
            | (Inr (t, resp), c2, w') \<Rightarrow>
                if t \<noteq> MsgCacheHit then (None, cl_count (\<lambda>m. m\<lparr>pm_CacheFetchMisses := pm_CacheFetchMisses m + 1\<rparr>) c2, w')
                else (case decodeEntry E resp of
                    Inl _ \<Rightarrow> (None, cl_count (\<lambda>m. m\<lparr>pm_CacheFetchErrors := pm_CacheFetchErrors m + 1\<rparr>) c2, w')
                  | Inr (_, e, ttl) \<Rightarrow> (Some (e, ttl), cl_count (\<lambda>m. m\<lparr>pm_CacheFetchHits := pm_CacheFetchHits m + 1\<rparr>) c2, w'))))"

definition QueuePush :: "dnslib \<Rightarrow> peer_env \<Rightarrow> gtime \<Rightarrow> ckey \<Rightarrow> centry \<Rightarrow> pclient \<Rightarrow> pclient" where
  "QueuePush L E now k e c =
     (if cl_closed c then c
      else case encodeEntry L E k e now of
          Inl _ \<Rightarrow> c
        | Inr blob \<Rightarrow>
            let q = (if length (cl_queue c) \<ge> cl_QueueLimit c then tl (cl_queue c) else cl_queue c)
            in c\<lparr>cl_queue := q @ [blob]\<rparr>)"

definition flushPushes :: "peer_env \<Rightarrow> (bytes \<Rightarrow> 'w \<Rightarrow> bytes option \<times> 'w) \<Rightarrow> pclient \<Rightarrow> 'w \<Rightarrow> pclient \<times> 'w" where
  "flushPushes E wire c w =
     (if \<not> cl_connected c then (c\<lparr>cl_queue := []\<rparr>, w)
      else if cl_queue c = [] then (c, w)
      else let n = min (length (cl_queue c)) (cl_PushBatch c); batch = take n (cl_queue c); c1 = c\<lparr>cl_queue := drop n (cl_queue c)\<rparr> in
        case pe_encPush E batch of
          None \<Rightarrow> (c1, w)
        | Some payload \<Rightarrow> (case requestWithin wire MsgCachePush payload c1 w of
              (Inl _, c2, w') \<Rightarrow> (dropConn c2, w')
            | (Inr _, c2, w') \<Rightarrow> (cl_count (\<lambda>m. m\<lparr>pm_CachePushSent := pm_CachePushSent m + length batch\<rparr>) c2, w')))"

definition pushOurRecords :: "peer_env \<Rightarrow> (bytes \<Rightarrow> 'w \<Rightarrow> bytes option \<times> 'w) \<Rightarrow> store \<Rightarrow> pclient \<Rightarrow> 'w \<Rightarrow> pclient \<times> 'w" where
  "pushOurRecords E wire st c w =
     (let ours = store_All st in
      if ours = [] then (c, w)
      else case pe_encRecords E ours of
          None \<Rightarrow> (c, w)
        | Some payload \<Rightarrow> (case requestWithin wire MsgRecords payload c w of
              (Inl _, c1, w') \<Rightarrow> (dropConn c1, w')
            | (Inr _, c1, w') \<Rightarrow> (cl_count (\<lambda>m. m\<lparr>pm_RecordsSent := pm_RecordsSent m + length ours\<rparr>) c1, w')))"

definition sync_error :: "pclient \<Rightarrow> pclient" where
  "sync_error = cl_count (\<lambda>m. m\<lparr>pm_SyncErrors := pm_SyncErrors m + 1\<rparr>)"

definition cl_Sync :: "peer_env \<Rightarrow> (bytes \<Rightarrow> 'w \<Rightarrow> bytes option \<times> 'w) \<Rightarrow> pclient \<Rightarrow> 'w \<Rightarrow> pclient \<times> 'w" where
  "cl_Sync E wire c w = (case cl_Store c of
       None \<Rightarrow> (c, w)
     | Some st \<Rightarrow>
         if \<not> cl_connected c then (c, w)
         else let c1 = cl_count (\<lambda>m. m\<lparr>pm_SyncRuns := pm_SyncRuns m + 1\<rparr>) c in
           case pe_encDigests E (Digests st) of
             None \<Rightarrow> (sync_error c1, w)
           | Some payload \<Rightarrow> (case requestWithin wire MsgDigests payload c1 w of
                 (Inl _, c2, w') \<Rightarrow> (dropConn (sync_error c2), w')
               | (Inr (t, resp), c2, w') \<Rightarrow>
                   if t \<noteq> MsgRecords then (sync_error c2, w')
                   else (case pe_decRecords E resp of
                       None \<Rightarrow> (sync_error c2, w')
                     | Some theirs \<Rightarrow>
                         let (adopted, st') = store_Merge theirs st
                         in pushOurRecords E wire st' (cl_count (\<lambda>m. m\<lparr>pm_RecordsReceived := pm_RecordsReceived m + adopted\<rparr>) (c2\<lparr>cl_Store := Some st'\<rparr>)) w')))"

definition cl_Close :: "pclient \<Rightarrow> pclient" where
  "cl_Close c = dropConn (c\<lparr>cl_closed := True\<rparr>)"

text \<open>One turn of the loop of \<open>Run\<close>.\<close>

datatype tick = Redial "bytes option" | PushTick | SyncTick | CtxDone

fun run_tick :: "peer_env \<Rightarrow> (bytes \<Rightarrow> 'w \<Rightarrow> bytes option \<times> 'w) \<Rightarrow> tick \<Rightarrow> pclient \<Rightarrow> 'w \<Rightarrow> pclient \<times> 'w" where
  "run_tick E wire (Redial io) c w =
     (if cl_connected c then (c, w)
      else case dial E io c of (None, c') \<Rightarrow> cl_Sync E wire c' w | (Some _, c') \<Rightarrow> (c', w))"
| "run_tick E wire PushTick c w = flushPushes E wire c w"
| "run_tick E wire SyncTick c w = cl_Sync E wire c w"
| "run_tick E wire CtxDone c w = (cl_Close c, w)"

section \<open>The cache that asks the sibling\<close>

text \<open>The decorator's own state is the local cache and the client, which may be missing.\<close>

definition link_up :: "pclient option \<Rightarrow> bool" where
  "link_up cl = (case cl of None \<Rightarrow> False | Some c \<Rightarrow> cl_connected c)"

definition pair_Get :: "(ckey \<Rightarrow> 64 word) \<Rightarrow> peer_env \<Rightarrow> (bytes \<Rightarrow> 'w \<Rightarrow> bytes option \<times> 'w) \<Rightarrow> gtime \<Rightarrow> gtime \<Rightarrow> ckey
    \<Rightarrow> cache \<Rightarrow> pclient option \<Rightarrow> 'w \<Rightarrow> (centry option \<times> cache \<times> pclient option \<times> 'w) option" where
  "pair_Get H E wire now now' k local cl w = (case cache_Get H now k local of
       (Some e, local') \<Rightarrow> Some (Some e, local', cl, w)
     | (None, local') \<Rightarrow> (case cl of
           None \<Rightarrow> Some (None, local', cl, w)
         | Some c \<Rightarrow>
             if \<not> cl_connected c then Some (None, local', cl, w)
             else (case Fetch E wire k c w of
                 (None, c', w') \<Rightarrow> Some (None, local', Some c', w')
               | (Some (e, ttl), c', w') \<Rightarrow> map_option (\<lambda>local''. (Some e, local'', Some c', w')) (cache_Put H now' k e ttl local'))))"

definition offer :: "(ckey \<Rightarrow> 64 word) \<Rightarrow> dnslib \<Rightarrow> peer_env \<Rightarrow> gtime \<Rightarrow> ckey \<Rightarrow> cache \<Rightarrow> pclient option \<Rightarrow> pclient option" where
  "offer H L E now k local cl = (case cl of
       None \<Rightarrow> None
     | Some c \<Rightarrow> if \<not> cl_connected c then Some c
         else (case cache_Peek H now k local of None \<Rightarrow> Some c | Some e \<Rightarrow> Some (QueuePush L E now k e c)))"

definition offered :: "(ckey \<Rightarrow> 64 word) \<Rightarrow> dnslib \<Rightarrow> peer_env \<Rightarrow> gtime \<Rightarrow> ckey \<Rightarrow> pclient option \<Rightarrow> cache option \<Rightarrow> (cache \<times> pclient option) option" where
  "offered H L E now k cl = map_option (\<lambda>local. (local, offer H L E now k local cl))"

definition pair_PutRRset :: "(ckey \<Rightarrow> 64 word) \<Rightarrow> dnslib \<Rightarrow> peer_env \<Rightarrow> gtime \<Rightarrow> gtime \<Rightarrow> ckey \<Rightarrow> rr list \<Rightarrow> bool \<Rightarrow> cache \<Rightarrow> pclient option
    \<Rightarrow> (cache \<times> pclient option) option" where
  "pair_PutRRset H L E now now' k rrs auth local cl = offered H L E now' k cl (PutRRset H now k rrs auth local)"

definition pair_PutValidated :: "(ckey \<Rightarrow> 64 word) \<Rightarrow> dnslib \<Rightarrow> peer_env \<Rightarrow> gtime \<Rightarrow> gtime \<Rightarrow> ckey \<Rightarrow> rr list \<Rightarrow> bool \<Rightarrow> cache \<Rightarrow> pclient option
    \<Rightarrow> (cache \<times> pclient option) option" where
  "pair_PutValidated H L E now now' k rrs auth local cl = offered H L E now' k cl (PutValidated H now k rrs auth local)"

definition pair_PutNegative :: "(ckey \<Rightarrow> 64 word) \<Rightarrow> dnslib \<Rightarrow> peer_env \<Rightarrow> gtime \<Rightarrow> gtime \<Rightarrow> ckey \<Rightarrow> int \<Rightarrow> rr list \<Rightarrow> duration \<Rightarrow> bool
    \<Rightarrow> cache \<Rightarrow> pclient option \<Rightarrow> (cache \<times> pclient option) option" where
  "pair_PutNegative H L E now now' k rcode soa ttl auth local cl = offered H L E now' k cl (PutNegative H now k rcode soa ttl auth local)"

end
