(* ===== verification/Peer_Correct.thy ===== *)
theory Peer_Correct
  imports Peer_Link Cache_Correct
begin

text \<open>
  What the pair link guarantees. Frames are read back as they were written. A shared cache entry keeps its data and does not outlive its
  expiry by more than the time it was under way. A server returns whatever bytes the other side sends, with its cache and store in order.
  One round of \<open>Sync\<close> between a client and the modelled server makes the two stores equal, and a store too large for one
  frame is never sent.
\<close>

section \<open>Frames\<close>

lemma length_PutUint32 [simp]: "length (PutUint32 v) = 4"
  by (simp add: PutUint32_def)

lemma Uint32_PutUint32 [simp]: "Uint32 (PutUint32 v) = v"
proof (rule bit_word_eqI)
  fix n assume "n < LENGTH(32)"
  then show "bit (Uint32 (PutUint32 v)) n = bit v n"
    by (cases "24 \<le> n"; cases "16 \<le> n") (auto simp: Uint32_def PutUint32_def bit_simps)
qed

lemma PutUint32_Uint32: "length b = 4 \<Longrightarrow> PutUint32 (Uint32 b) = b"
proof -
  assume "length b = 4"
  then obtain a0 a1 a2 a3 where b: "b = [a0, a1, a2, a3]"
    by (auto simp: numeral_eq_Suc length_Suc_conv)
  have [simp]: "\<not> bit (a :: 8 word) (8 + n)" "\<not> bit a (16 + n)" "\<not> bit a (24 + n)" for a n
    by (auto dest: bit_imp_le_length)
  show ?thesis unfolding b by (auto simp: Uint32_def PutUint32_def bit_simps intro!: bit_word_eqI)
qed

lemma split_header: "5 \<le> length bs \<Longrightarrow> bs = (bs ! 0) # PutUint32 (Uint32 (take 4 (drop 1 bs))) @ drop 5 bs"
  by (cases bs) (auto simp: PutUint32_Uint32)

lemma frame_length: "length p \<le> maxFrame \<Longrightarrow> unat (of_nat (length p) :: u32) = length p"
  by (simp add: maxFrame_def unsigned_of_nat take_bit_nat_eq_self)

lemma readFrame_header:
  "readFrame (t # PutUint32 v @ xs) = (if unat v > maxFrame then Inl FrameTooLarge else if length xs < unat v then Inl ShortRead
     else Inr (t, take (unat v) xs, drop (unat v) xs))"
proof -
  have "take 4 (PutUint32 v @ xs) = PutUint32 v" "drop 4 (PutUint32 v @ xs) = xs" by simp_all
  then show ?thesis by (auto simp: readFrame_def Let_def)
qed

lemma readFrame_headerD:
  "readFrame (a # PutUint32 v @ xs) = Inr (t, p, rest) \<Longrightarrow>
    unat v \<le> maxFrame \<and> unat v = length p \<and> t = a \<and> xs = p @ rest"
  unfolding readFrame_header by (auto split: if_splits)

lemma writeFrame_Inr: "writeFrame t p = Inr frame \<longleftrightarrow> length p \<le> maxFrame \<and> frame = t # PutUint32 (of_nat (length p)) @ p"
  by (auto simp: writeFrame_def)

lemma readFrame_written [simp]: "writeFrame t p = Inr frame \<Longrightarrow> readFrame (frame @ rest) = Inr (t, p, rest)"
proof -
  assume "writeFrame t p = Inr frame"
  then have f: "length p \<le> maxFrame" "frame @ rest = t # PutUint32 (of_nat (length p)) @ (p @ rest)" by (simp_all add: writeFrame_Inr)
  show ?thesis unfolding f(2) readFrame_header using f(1) by (simp add: frame_length)
qed

text \<open>C19. Frames are read exactly as written, and nothing else is read as a frame: \<open>readFrame\<close> yields a type and a payload exactly when the input
  starts with the frame \<open>writeFrame\<close> makes of them, and leaves the bytes after it for the next read; so a stream of
  frames is read back in order whatever the payloads contain, and no payload over the limit is ever accepted.\<close>

theorem frame_roundtrip:
  "readFrame input = Inr (t, p, rest) \<longleftrightarrow> (\<exists>frame. writeFrame t p = Inr frame \<and> input = frame @ rest \<and> length p \<le> maxFrame)"
proof
  assume r: "readFrame input = Inr (t, p, rest)"
  then have l: "5 \<le> length input" by (auto simp: readFrame_def not_less split: if_splits)
  let ?v = "Uint32 (take 4 (drop 1 input))"
  have h: "input = (input ! 0) # PutUint32 ?v @ drop 5 input" by (rule split_header [OF l])
  have "readFrame ((input ! 0) # PutUint32 ?v @ drop 5 input) = Inr (t, p, rest)" by (subst h [symmetric]) (rule r)
  then have e: "unat ?v \<le> maxFrame" "unat ?v = length p" "t = input ! 0" "drop 5 input = p @ rest" by (blast dest: readFrame_headerD)+
  have "PutUint32 (of_nat (length p)) = PutUint32 ?v" unfolding e(2) [symmetric] by simp
  then have "input = (t # PutUint32 (of_nat (length p)) @ p) @ rest" using h [folded e(3), unfolded e(4)] by simp
  with e(1,2) show "\<exists>frame. writeFrame t p = Inr frame \<and> input = frame @ rest \<and> length p \<le> maxFrame"
    by (auto simp: writeFrame_Inr)
qed auto

section \<open>Shared entries\<close>

text \<open>What is relied on of the DNS library: a new question has one question and no records, and a packed message unpacks to the same question,
  codes and records, the length of the record data apart, which only unpacking fills in.\<close>

definition plain_rr :: "rr \<Rightarrow> rr" where
  "plain_rr r = r\<lparr>rr_hdr := (rr_hdr r)\<lparr>rh_Rdlength := 0\<rparr>\<rparr>"

definition same_msg :: "dmsg \<Rightarrow> dmsg \<Rightarrow> bool" where
  "same_msg m m' \<longleftrightarrow> m_Question m' = m_Question m \<and> m_Rcode m' = m_Rcode m \<and> m_AuthenticatedData m' = m_AuthenticatedData m
     \<and> map plain_rr (m_Answer m') = map plain_rr (m_Answer m) \<and> map plain_rr (m_Ns m') = map plain_rr (m_Ns m)"

definition pack_ok :: "dnslib \<Rightarrow> peer_env \<Rightarrow> bool" where
  "pack_ok L E \<longleftrightarrow> (\<forall>m b. pe_Pack E m = Some b \<longrightarrow> (\<exists>m'. pe_Unpack E b = Some m' \<and> same_msg m m'))
     \<and> (\<forall>n t. m_Question (SetQuestion L n t) = [\<lparr>q_Name = n, q_Qtype = t, q_Qclass = ClassINET\<rparr>]
          \<and> m_Answer (SetQuestion L n t) = [] \<and> m_Ns (SetQuestion L n t) = [])"

lemma pack_okD: "pack_ok L E \<Longrightarrow> pe_Pack E m = Some b \<Longrightarrow> \<exists>m'. pe_Unpack E b = Some m' \<and> same_msg m m'"
  unfolding pack_ok_def by blast

lemma new_question:
  "pack_ok L E \<Longrightarrow> m_Question (SetQuestion L n t) = [\<lparr>q_Name = n, q_Qtype = t, q_Qclass = ClassINET\<rparr>]"
  "pack_ok L E \<Longrightarrow> m_Answer (SetQuestion L n t) = []" "pack_ok L E \<Longrightarrow> m_Ns (SetQuestion L n t) = []"
  unfolding pack_ok_def by simp_all

lemma minTtl_const: "\<forall>r \<in> set (r0 # rs). rh_Ttl (rr_hdr r) = t \<Longrightarrow> minTtl r0 rs = t"
proof -
  have "\<forall>r \<in> set rs. rh_Ttl (rr_hdr r) = t \<Longrightarrow> foldl (\<lambda>m r. if rh_Ttl (rr_hdr r) < m then rh_Ttl (rr_hdr r) else m) t rs = t"
    by (induction rs) auto
  then show "\<forall>r \<in> set (r0 # rs). rh_Ttl (rr_hdr r) = t \<Longrightarrow> minTtl r0 rs = t" by (simp add: minTtl_def)
qed

lemma plain_ttl: "rh_Ttl (rr_hdr (plain_rr r)) = rh_Ttl (rr_hdr r)"
  by (simp add: plain_rr_def)

lemma map_plain_ttl:
  assumes "map plain_rr xs = map plain_rr ys" and "\<forall>r \<in> set ys. rh_Ttl (rr_hdr r) = t"
  shows "\<forall>r \<in> set xs. rh_Ttl (rr_hdr r) = t"
proof -
  have "plain_rr ` set xs = plain_rr ` set ys" using assms(1) by (metis list.set_map)
  then show ?thesis using assms(2) by (metis (no_types, lifting) imageE imageI plain_ttl)
qed

lemma withTtl_ttl [simp]: "rh_Ttl (rr_hdr (withTtl L t r)) = t"
  by (simp add: withTtl_def Let_def)

lemma TTLAt_bound: "TTLAt e now \<noteq> 0 \<Longrightarrow> 0 < uint (TTLAt e now) * second \<and> now + uint (TTLAt e now) * second \<le> e_Expiry e"
proof -
  let ?d = "time_Sub (e_Expiry e) now"
  assume n: "TTLAt e now \<noteq> 0"
  then have d: "0 < ?d" "TTLAt e now = word_of_int (?d div second)" by (simp_all add: TTLAt_def Let_def not_le split: if_splits)
  then have "?d \<le> e_Expiry e - now" using time_Sub_le [of "e_Expiry e" now] by simp
  moreover have "0 \<le> ?d div second" by (rule pos_imp_zdiv_nonneg_iff [THEN iffD2]) (use d(1) in \<open>simp_all add: second_def less_imp_le del: time_Sub_pos\<close>)
  then have "uint (TTLAt e now) \<le> ?d div second" unfolding d(2) uint_word_of_int by (rule zmod_le_nonneg_dividend)
  then have "uint (TTLAt e now) * second \<le> ?d" by (simp add: second_def)
  moreover have "0 < uint (TTLAt e now)" using n by (simp add: word_less_def [of 0, symmetric, simplified] word_neq_0_conv)
  ultimately show ?thesis by (simp add: second_def)
qed

lemma shared_roundtrip:
  assumes ok: "pack_ok L E" and enc: "encodeEntry L E k e now = Inr b" and k: "k = NewKey n t cl" and rrs: "e_RRs e \<noteq> []"
  shows "\<exists>rrs'. decodeEntry E b = Inr (k, shared_entry (e_Kind e) rrs' (e_Rcode e) (e_Authenticated e), uint (TTLAt e now) * second)
    \<and> map plain_rr rrs' = map plain_rr (RRsAt L e now)"
proof -
  let ?m = "entry_msg L k e now"
  have t: "TTLAt e now \<noteq> 0" and "pe_Pack E ?m = Some b" using enc by (auto simp: encodeEntry_def split: if_splits option.splits)
  with pack_okD [OF ok] obtain m' where m': "pe_Unpack E b = Some m'" "same_msg ?m m'" by blast
  have q: "m_Question m' = [\<lparr>q_Name = ck_Name k, q_Qtype = ck_Type k, q_Qclass = ck_Class k\<rparr>]"
    "m_Rcode m' = e_Rcode e" "m_AuthenticatedData m' = e_Authenticated e"
    using m'(2) by (auto simp: same_msg_def entry_msg_def Let_def new_question [OF ok] split: kind.splits)
  have s: "map plain_rr (m_Answer m') = (if e_Kind e = KindAnswer then map plain_rr (RRsAt L e now) else [])"
    "map plain_rr (m_Ns m') = (if e_Kind e = KindNegative then map plain_rr (RRsAt L e now) else [])"
    using m'(2) by (auto simp: same_msg_def entry_msg_def Let_def new_question [OF ok] split: kind.splits)
  define rrs' where "rrs' = (if e_Kind e = KindAnswer then m_Answer m' else m_Ns m')"
  have p: "map plain_rr rrs' = map plain_rr (RRsAt L e now)" using s by (cases "e_Kind e") (auto simp: rrs'_def)
  then obtain r0 rs where r: "rrs' = r0 # rs" using rrs by (cases rrs') (auto simp: RRsAt_def)
  have "\<forall>r \<in> set rrs'. rh_Ttl (rr_hdr r) = TTLAt e now"
    by (rule map_plain_ttl [OF p]) (auto simp: RRsAt_def)
  then have "minTtl r0 rs = TTLAt e now" unfolding r by (rule minTtl_const)
  moreover have "NewKey (ck_Name k) (ck_Type k) (ck_Class k) = k" unfolding k NewKey_def by (simp add: CanonicalName_lower lower_idem)
  moreover have "(if m_Answer m' \<noteq> [] then (KindAnswer, m_Answer m') else (KindNegative, m_Ns m')) = (e_Kind e, r0 # rs)"
    using s r p rrs by (cases "e_Kind e") (auto simp: rrs'_def split: if_splits)
  ultimately show ?thesis using m'(1) q t p r by (auto simp: decodeEntry_def Let_def)
qed

lemma reach_opts: "cache_reach H opts c \<Longrightarrow> 0 < co_MaxTTL opts \<and> 0 < co_MaxNegativeTTL opts"
  by (induction rule: cache_reach.induct) (auto simp: cache_New_def split: if_splits)

text \<open>C12. A shared entry is the entry, and does not outlive itself: what a node packs for its sibling unpacks there, under the same key, to the same
  kind of entry with the same codes and records; its lifetime counted from the moment of packing ends no later than the original's; and once the
  sibling stores it, the sibling serves it at most as much longer as the entry was under way, or until its own minimum TTL. The mark that the data was
  validated is not carried over.\<close>

theorem shared_entry_ttl:
  assumes "pack_ok L E" and "encodeEntry L E k e now = Inr b" and "k = NewKey n t cl" and "e_RRs e \<noteq> []" and "cache_reach H opts c"
  shows "\<exists>e' ttl c'. decodeEntry E b = Inr (k, e', ttl) \<and> e_Kind e' = e_Kind e \<and> e_Rcode e' = e_Rcode e
    \<and> e_Authenticated e' = e_Authenticated e \<and> \<not> e_Validated e' \<and> map plain_rr (e_RRs e') = map plain_rr (RRsAt L e now)
    \<and> 0 < ttl \<and> now + ttl \<le> e_Expiry e \<and> cache_Put H now' k e' ttl c = Some c'
    \<and> (\<forall>t' x. cache_Peek H t' k c' = Some x \<longrightarrow> t' < e_Expiry e + (now' - now) \<or> e_Kind e = KindAnswer \<and> t' < now' + co_MinTTL opts)"
proof -
  let ?ttl = "uint (TTLAt e now) * second"
  obtain rrs' where d: "decodeEntry E b = Inr (k, shared_entry (e_Kind e) rrs' (e_Rcode e) (e_Authenticated e), ?ttl)"
    "map plain_rr rrs' = map plain_rr (RRsAt L e now)" using shared_roundtrip [OF assms(1-4)] by blast
  let ?e = "shared_entry (e_Kind e) rrs' (e_Rcode e) (e_Authenticated e)"
  have "TTLAt e now \<noteq> 0" using assms(2) by (auto simp: encodeEntry_def)
  note b = TTLAt_bound [OF this]
  have ok: "cache_ok H c" and o: "ca_opts c = opts" using reach_ok [OF assms(5)] by simp_all
  have pos: "\<not> clamp opts (e_Kind ?e) ?ttl \<le> 0"
    using b reach_opts [OF assms(5)] by (auto simp: clamp_def Let_def shared_entry_def)
  with Put_stored [OF ok, of ?e ?ttl now' k] obtain c' where c': "cache_Put H now' k ?e ?ttl c = Some c'"
    "stored H c' k = Some (?e\<lparr>e_Stored := now', e_Expiry := now' + clamp opts (e_Kind ?e) ?ttl\<rparr>)" by (auto simp: o)
  have "clamp opts (e_Kind e) ?ttl \<le> ?ttl \<or> e_Kind e = KindAnswer \<and> clamp opts (e_Kind e) ?ttl \<le> co_MinTTL opts"
    by (cases "e_Kind e") (auto simp: clamp_def Let_def)
  then have "t' < e_Expiry e + (now' - now) \<or> e_Kind e = KindAnswer \<and> t' < now' + co_MinTTL opts" if "cache_Peek H t' k c' = Some x" for t' x
    using that c'(2) b by (auto simp: Peek_stored shared_entry_def split: if_splits)
  then show ?thesis using d c'(1) b by (auto simp: shared_entry_def)
qed

section \<open>The server\<close>

definition advanced :: "store \<Rightarrow> store \<Rightarrow> bool" where
  "advanced st st' \<longleftrightarrow> keyed st' \<and> (\<forall>x r. view st x = Some r \<longrightarrow> (\<exists>r'. view st' x = Some r' \<and> stamp r \<le> stamp r'))"

lemma advanced_refl: "keyed st \<Longrightarrow> advanced st st"
  by (auto simp: advanced_def)

lemma advanced_trans: "advanced a b \<Longrightarrow> advanced b c \<Longrightarrow> advanced a c"
  unfolding advanced_def by (meson order_trans)

lemma merge_advanced:
  assumes "keyed st"
  shows "advanced st (snd (store_Merge rs st))"
proof -
  let ?st = "snd (store_Merge rs st)"
  have h: "holds (ran (view st) \<union> set rs) (view ?st)" using merge_holds assms by (simp add: keyed_holds)
  have "\<exists>r'. view ?st x = Some r' \<and> stamp r \<le> stamp r'" if "view st x = Some r" for x r
  proof -
    have r: "r \<in> ran (view st) \<union> set rs" "cr_ID r = x" using that assms by (auto simp: keyed_def ran_def)
    then obtain r' where "view ?st x = Some r'" using holds_None [OF h] by (cases "view ?st x") auto
    with holds_Some [OF h this] r show ?thesis by auto
  qed
  with merge_keyed [OF assms] show ?thesis by (simp add: advanced_def)
qed

text \<open>What serving a request keeps: the cache stays a reachable one, the store moves forward, and identity and connections are as they were.\<close>

definition served :: "(ckey \<Rightarrow> 64 word) \<Rightarrow> coptions \<Rightarrow> pserver \<Rightarrow> pserver \<Rightarrow> bool" where
  "served H opts s s' \<longleftrightarrow> cache_reach H opts (sv_Cache s') \<and> advanced (sv_Store s) (sv_Store s')
     \<and> sv_NodeID s' = sv_NodeID s \<and> sv_active s' = sv_active s \<and> sv_conns s' = sv_conns s"

lemma served_keyed: "served H opts s s' \<Longrightarrow> keyed (sv_Store s')"
  by (simp add: served_def advanced_def)

lemma served_trans: "served H opts a b \<Longrightarrow> served H opts b c \<Longrightarrow> served H opts a c"
  by (auto simp: served_def intro: advanced_trans)

lemma served_refl: "cache_reach H opts (sv_Cache s) \<Longrightarrow> keyed (sv_Store s) \<Longrightarrow> served H opts s s"
  by (simp add: served_def advanced_refl)

lemma sv_count_simps [simp]:
  "sv_Cache (sv_count f s) = sv_Cache s" "sv_Store (sv_count f s) = sv_Store s" "sv_NodeID (sv_count f s) = sv_NodeID s"
  "sv_active (sv_count f s) = sv_active s" "sv_conns (sv_count f s) = sv_conns s"
  by (simp_all add: sv_count_def)

lemma served_count [simp]: "served H opts s (sv_count f s') \<longleftrightarrow> served H opts s s'" "served H opts (sv_count f s) s' \<longleftrightarrow> served H opts s s'"
  by (simp_all add: served_def)

lemma Put_returns: "cache_reach H opts c \<Longrightarrow> \<exists>c'. cache_Put H now k e ttl c = Some c' \<and> cache_reach H opts c'"
proof -
  assume r: "cache_reach H opts c"
  then have "\<exists>c'. cache_Put H now k e ttl c = Some c'"
    using Put_stored [of H c e ttl now k] reach_ok [OF r] by (cases "0 < clamp opts (e_Kind e) ttl") (auto simp: cache_Put_def Let_def)
  with r show ?thesis by (auto intro: reach_Put)
qed

lemma push_loop_served:
  "cache_reach H opts (sv_Cache s) \<Longrightarrow> keyed (sv_Store s) \<Longrightarrow>
    \<exists>s'. push_loop H E now bs s = Some s' \<and> served H opts s s' \<and> sv_Store s' = sv_Store s"
proof (induction bs arbitrary: s)
  case Nil
  then show ?case by (simp add: served_refl)
next
  case (Cons b bs)
  show ?case
  proof (cases "decodeEntry E b")
    case (Inl e)
    with Cons show ?thesis by simp
  next
    case (Inr r)
    obtain k e ttl where r: "r = (k, e, ttl)" by (cases r) auto
    obtain c where c: "cache_Put H now k e ttl (sv_Cache s) = Some c" "cache_reach H opts c" using Put_returns [OF Cons.prems(1)] by blast
    let ?s = "sv_count (\<lambda>m. m\<lparr>pm_CachePushReceived := pm_CachePushReceived m + 1\<rparr>) (s\<lparr>sv_Cache := c\<rparr>)"
    have "served H opts s ?s" "sv_Store ?s = sv_Store s" "cache_reach H opts (sv_Cache ?s)"
      using c(2) Cons.prems(2) by (simp_all add: served_def advanced_refl sv_count_def)
    moreover from this obtain s' where "push_loop H E now bs ?s = Some s'" "served H opts ?s s'" "sv_Store s' = sv_Store ?s"
      using Cons.IH [of ?s] Cons.prems(2) by auto
    ultimately show ?thesis using Inr r c(1) served_trans by auto
  qed
qed

lemma dispatch_served:
  assumes "cache_reach H opts (sv_Cache s)" and "keyed (sv_Store s)"
  shows "\<exists>out s'. dispatch H L E now t p s = Some (out, s') \<and> served H opts s s' \<and> (t \<noteq> MsgRecords \<longrightarrow> sv_Store s' = sv_Store s)"
proof -
  note rf = served_refl [OF assms]
  consider (fetch) "t = MsgCacheFetch" | (push) "t = MsgCachePush" | (digests) "t = MsgDigests" | (records) "t = MsgRecords"
    | (other) "t \<notin> {MsgCacheFetch, MsgCachePush, MsgDigests, MsgRecords}" by blast
  then show ?thesis
  proof cases
    case fetch
    have "served H opts s (s\<lparr>sv_Cache := snd (cache_Get H now k (sv_Cache s))\<rparr>)" for k
      using assms reach_Get [OF assms(1)] by (simp add: served_def advanced_refl)
    with rf fetch show ?thesis
      by (auto simp: dispatch_def serveCacheFetch_def Let_def split_beta split: option.splits sum.splits)
  next
    case push
    then show ?thesis using rf push_loop_served [OF assms, of E now] by (auto simp: dispatch_def serveCachePush_def msg_defs split: option.splits)
  next
    case digests
    with rf show ?thesis by (auto simp: dispatch_def serveDigests_def msg_defs Let_def split: option.splits)
  next
    case records
    have "served H opts s (s\<lparr>sv_Store := snd (store_Merge rs (sv_Store s))\<rparr>)" for rs
      using assms merge_advanced [OF assms(2)] by (simp add: served_def)
    with rf records show ?thesis
      by (auto simp: dispatch_def serveRecords_def msg_defs Let_def split_beta split: option.splits)
  next
    case other
    with rf show ?thesis by (simp add: dispatch_def)
  qed
qed

lemma serve_loop_served:
  "cache_reach H opts (sv_Cache s) \<Longrightarrow> keyed (sv_Store s) \<Longrightarrow> \<exists>out s'. serve_loop H L E clock input s = Some (out, s') \<and> served H opts s s'"
proof (induction "length input" arbitrary: input s rule: less_induct)
  case less
  show ?case
  proof (cases "readFrame input")
    case (Inl e)
    then show ?thesis using served_refl [OF less(2,3)] by (subst serve_loop.simps) simp
  next
    case (Inr f)
    obtain t p rest where f: "readFrame input = Inr (t, p, rest)" using Inr by (cases f) auto
    obtain res s1 where d: "dispatch H L E (clock (length rest)) t p s = Some (res, s1)" "served H opts s s1"
      using dispatch_served [OF less(2,3)] by blast
    then have ok: "cache_reach H opts (sv_Cache s1)" "keyed (sv_Store s1)" using served_keyed by (auto simp: served_def)
    show ?thesis
    proof (cases res)
      case (Inl e)
      then show ?thesis using d f by (subst serve_loop.simps) simp
    next
      case (Inr out)
      obtain out' s' where "serve_loop H L E clock rest s1 = Some (out', s')" "served H opts s1 s'"
        using less(1) [OF readFrame_shorter [OF f] ok] by blast
      then show ?thesis using d f Inr served_trans by (subst serve_loop.simps) auto
    qed
  qed
qed

text \<open>C18. Whatever bytes the other side sends, a connection is served to its end: \<open>handle\<close> returns, the cache stays one the bounds hold for, every
  record of the store is kept or superseded by a newer one, and the connection leaves no trace in the count of attached peers
  or the set of connections; a side that does not open with the right hello, or announces this node's own name, gets no answer and changes neither the cache nor
  the store.\<close>

theorem server_survives_any_peer:
  assumes "cache_reach H opts (sv_Cache s)" and "keyed (sv_Store s)" and "conn \<notin> sv_conns s"
  shows "\<exists>out s'. sv_handle H L E clock conn input s = Some (out, s') \<and> cache_reach H opts (sv_Cache s')
    \<and> advanced (sv_Store s) (sv_Store s') \<and> sv_active s' = sv_active s \<and> sv_conns s' = sv_conns s
    \<and> ((\<nexists>p rest h. readFrame input = Inr (MsgHello, p, rest) \<and> pe_decHello E p = Some h \<and> he_Version h = ProtocolVersion \<and> he_NodeID h \<noteq> sv_NodeID s)
        \<longrightarrow> out = [] \<and> sv_Cache s' = sv_Cache s \<and> sv_Store s' = sv_Store s)"
proof (cases "sv_handshake E input (sv_track conn s)")
  case (Inl e)
  then show ?thesis using assms by (auto simp: sv_handle_def sv_track_def sv_untrack_def advanced_refl)
next
  case (Inr r)
  obtain out rest where r: "r = (out, rest)" by (cases r) auto
  let ?s = "sv_track conn s" 
  let ?s2 = "(sv_count (\<lambda>m. m\<lparr>pm_Connects := pm_Connects m + 1\<rparr>) ?s)\<lparr>sv_active := sv_active ?s + 1\<rparr>"
  have "cache_reach H opts (sv_Cache ?s2)" "keyed (sv_Store ?s2)" using assms by (simp_all add: sv_track_def)
  then obtain outs s3 where l: "serve_loop H L E clock rest ?s2 = Some (outs, s3)" and s3: "served H opts ?s2 s3"
    using serve_loop_served by blast
  have "\<exists>p rest h. readFrame input = Inr (MsgHello, p, rest) \<and> pe_decHello E p = Some h \<and> he_Version h = ProtocolVersion \<and> he_NodeID h \<noteq> sv_NodeID s"
    using Inr by (auto simp: sv_handshake_def sv_track_def split: sum.splits option.splits if_splits prod.splits)
  with Inr r l s3 assms(3) show ?thesis
    by (simp add: sv_handle_def Let_def) (auto simp: served_def sv_track_def sv_untrack_def)
qed

section \<open>Replication over the link\<close>

text \<open>The network between a client and the modelled server when it carries every byte: the server's loop works on the frame the client sent, and what
  it writes comes back.\<close>

definition sibling :: "(ckey \<Rightarrow> 64 word) \<Rightarrow> dnslib \<Rightarrow> peer_env \<Rightarrow> gtime \<Rightarrow> bytes \<Rightarrow> pserver \<Rightarrow> bytes option \<times> pserver" where
  "sibling H L E now frame s = (case serve_loop H L E (\<lambda>_. now) frame s of None \<Rightarrow> (None, s) | Some (out, s') \<Rightarrow> (Some out, s'))"

lemma readFrame_Nil [simp]: "readFrame [] = Inl ErrPeerClosed"
  by (simp add: readFrame_def)

lemma serve_loop_frame:
  assumes "writeFrame t p = Inr frame" and "dispatch H L E now t p s = Some (res, s')"
  shows "sibling H L E now frame s = (Some (case res of Inl _ \<Rightarrow> [] | Inr out \<Rightarrow> out), s')"
proof -
  have "readFrame frame = Inr (t, p, [])" using readFrame_written [OF assms(1), of "[]"] by simp
  moreover have "serve_loop H L E (\<lambda>_. now) [] s' = Some ([], s')" by (subst serve_loop.simps) simp
  ultimately have "serve_loop H L E (\<lambda>_. now) frame s = Some (case res of Inl _ \<Rightarrow> [] | Inr out \<Rightarrow> out, s')"
    using assms(2) by (subst serve_loop.simps) (simp split: sum.split)
  then show ?thesis by (simp add: sibling_def)
qed

lemma request_sibling:
  assumes "cl_conn c = Some []" and "length p \<le> maxFrame" and "dispatch H L E now t p s = Some (Inr out, s')" and "writeFrame t' p' = Inr out"
  shows "requestWithin (sibling H L E now) t p c s = (Inr (t', p'), c, s')"
proof -
  obtain frame where f: "writeFrame t p = Inr frame" using assms(2) by (simp add: writeFrame_def)
  have "readFrame out = Inr (t', p', [])" using readFrame_written [OF assms(4), of "[]"] by simp
  then show ?thesis using assms(1) f serve_loop_frame [OF f assms(3)] by (simp add: requestWithin_def)
qed

text \<open>A value the link carries: its encoding fits a frame and is read back as the value.\<close>

definition carried :: "('a \<Rightarrow> bytes option) \<Rightarrow> (bytes \<Rightarrow> 'a option) \<Rightarrow> 'a \<Rightarrow> bool" where
  "carried enc dec x \<longleftrightarrow> (\<exists>b. enc x = Some b \<and> length b \<le> maxFrame \<and> dec b = Some x)"

lemma carriedE: "carried enc dec x \<Longrightarrow> (\<And>b. enc x = Some b \<Longrightarrow> length b \<le> maxFrame \<Longrightarrow> dec b = Some x \<Longrightarrow> P) \<Longrightarrow> P"
  by (auto simp: carried_def)

lemma writeFrame_fits: "length b \<le> maxFrame \<Longrightarrow> \<exists>frame. writeFrame t b = Inr frame"
  by (simp add: writeFrame_def)

lemma request_digests:
  assumes "cl_conn c = Some []" and "carried (pe_encDigests E) (pe_decDigests E) ds" and "pe_encDigests E ds = Some p"
    and "carried (pe_encRecords E) (pe_decRecords E) (Missing ds (sv_Store s))"
  shows "\<exists>resp s'. requestWithin (sibling H L E now) MsgDigests p c s = (Inr (MsgRecords, resp), c, s')
    \<and> pe_decRecords E resp = Some (Missing ds (sv_Store s)) \<and> sv_Store s' = sv_Store s"
proof -
  obtain resp where r: "pe_encRecords E (Missing ds (sv_Store s)) = Some resp" "length resp \<le> maxFrame"
    "pe_decRecords E resp = Some (Missing ds (sv_Store s))" using assms(4) by (rule carriedE)
  have p: "length p \<le> maxFrame" "pe_decDigests E p = Some ds" using assms(2,3) by (auto simp: carried_def)
  obtain out where out: "writeFrame MsgRecords resp = Inr out" using writeFrame_fits [OF r(2)] by blast
  have "dispatch H L E now MsgDigests p s = Some (Inr out, sv_count (\<lambda>m. m\<lparr>pm_RecordsSent := pm_RecordsSent m + length (Missing ds (sv_Store s))\<rparr>) s)"
    using p r out by (simp add: dispatch_def serveDigests_def msg_defs writeJSON_def Let_def)
  from request_sibling [OF assms(1) p(1) this out] r(3) show ?thesis by auto
qed

lemma request_records:
  assumes "cl_conn c = Some []" and "length p \<le> maxFrame" and "pe_decRecords E p = Some rs"
  shows "\<exists>s'. requestWithin (sibling H L E now) MsgRecords p c s = (Inr (MsgOK, []), c, s') \<and> sv_Store s' = snd (store_Merge rs (sv_Store s))"
proof -
  obtain out where out: "writeFrame MsgOK [] = Inr out" using writeFrame_fits [of "[]"] by auto
  let ?s = "sv_count (\<lambda>m. m\<lparr>pm_RecordsReceived := pm_RecordsReceived m + fst (store_Merge rs (sv_Store s))\<rparr>) (s\<lparr>sv_Store := snd (store_Merge rs (sv_Store s))\<rparr>)"
  have "dispatch H L E now MsgRecords p s = Some (Inr out, ?s)"
    using assms(3) out by (simp add: dispatch_def serveRecords_def msg_defs Let_def split_beta)
  from request_sibling [OF assms(1,2) this out] show ?thesis by (intro exI [of _ ?s]) simp
qed

lemma cl_count_simps [simp]:
  "cl_conn (cl_count f c) = cl_conn c" "cl_connected (cl_count f c) = cl_connected c" "cl_Store (cl_count f c) = cl_Store c"
  "cl_queue (cl_count f c) = cl_queue c" "cl_QueueLimit (cl_count f c) = cl_QueueLimit c" "cl_closed (cl_count f c) = cl_closed c"
  by (simp_all add: cl_count_def)

lemma view_empty_All: "store_All st = [] \<longleftrightarrow> ran (view st) = {}"
  using set_recordsLocked [of st] by (simp add: store_All_def flip: set_empty)

lemma holds_within:
  assumes m: "holds (A \<union> ran (view st)) m" and h: "holds S (view st)" and sub: "A \<union> ran (view st) \<subseteq> S"
  shows "holds S m"
proof -
  have "\<exists>r' \<in> A \<union> ran (view st). cr_ID r' = cr_ID r \<and> stamp r \<le> stamp r'" if rS: "r \<in> S" for r
  proof -
    obtain r' where r': "view st (cr_ID r) = Some r'" using holds_None [OF h _ rS] by (cases "view st (cr_ID r)") auto
    with holds_Some [OF h r'] rS show ?thesis by (auto simp: ran_def)
  qed
  then have "holds (A \<union> ran (view st) \<union> S) m" by (rule holds_dominated [OF m])
  moreover have "A \<union> ran (view st) \<union> S = S" using sub by blast
  ultimately show ?thesis by simp
qed

lemma pushOurRecords_sibling:
  assumes "cl_conn c = Some []" and "carried (pe_encRecords E) (pe_decRecords E) (store_All st)"
  shows "\<exists>c' s'. pushOurRecords E (sibling H L E now) st c s = (c', s') \<and> cl_connected c' = cl_connected c \<and> cl_Store c' = cl_Store c
    \<and> st_records (sv_Store s') = st_records (snd (store_Merge (store_All st) (sv_Store s)))"
proof (cases "store_All st = []")
  case True
  then show ?thesis by (simp add: pushOurRecords_def store_Merge_def)
next
  case False
  obtain b where b: "pe_encRecords E (store_All st) = Some b" "length b \<le> maxFrame" "pe_decRecords E b = Some (store_All st)"
    using assms(2) by (rule carriedE)
  obtain s' where "requestWithin (sibling H L E now) MsgRecords b c s = (Inr (MsgOK, []), c, s')"
    "sv_Store s' = snd (store_Merge (store_All st) (sv_Store s))" using request_records [OF assms(1) b(2,3)] by blast
  with False b(1) show ?thesis by (simp add: pushOurRecords_def)
qed

text \<open>C7. One round of \<open>Sync\<close> between a connected client and the modelled server makes both nodes hold exactly the same records, each the newest version
  either had, and leaves the link up: the client's digests go out as a frame, the server answers with what is missing, the client merges it and sends everything
  back, which the server merges. The three messages have to fit a frame, and no two different writes may share a stamp.\<close>

theorem sync_converges:
  assumes "cl_Store c = Some st" and "cl_connected c" and "cl_conn c = Some []" and "keyed st" and "keyed (sv_Store s)"
    and "unique_stamps (ran (view st) \<union> ran (view (sv_Store s)))"
    and "carried (pe_encDigests E) (pe_decDigests E) (Digests st)"
    and "carried (pe_encRecords E) (pe_decRecords E) (Missing (Digests st) (sv_Store s))"
    and "carried (pe_encRecords E) (pe_decRecords E) (store_All (snd (store_Merge (Missing (Digests st) (sv_Store s)) st)))"
  shows "\<exists>c' s' st'. cl_Sync E (sibling H L E now) c s = (c', s') \<and> cl_connected c' \<and> cl_Store c' = Some st'
    \<and> st_records (sv_Store s') = st_records st' \<and> holds (ran (view st) \<union> ran (view (sv_Store s))) (view st')"
proof -
  let ?M = "Missing (Digests st) (sv_Store s)" and ?all = "ran (view st) \<union> ran (view (sv_Store s))"
  obtain p where p: "pe_encDigests E (Digests st) = Some p" using assms(7) by (auto simp: carried_def)
  let ?c1 = "cl_count (\<lambda>m. m\<lparr>pm_SyncRuns := pm_SyncRuns m + 1\<rparr>) c"
  obtain resp s1 where q: "requestWithin (sibling H L E now) MsgDigests p ?c1 s = (Inr (MsgRecords, resp), ?c1, s1)"
    "pe_decRecords E resp = Some ?M" "sv_Store s1 = sv_Store s"
    using request_digests [OF _ assms(7) p assms(8), of ?c1 H L now] assms(3) by auto
  obtain n st' where m: "store_Merge ?M st = (n, st')" by (cases "store_Merge ?M st")
  let ?c2 = "cl_count (\<lambda>m. m\<lparr>pm_RecordsReceived := pm_RecordsReceived m + n\<rparr>) (?c1\<lparr>cl_Store := Some st'\<rparr>)"
  obtain c' s' where r: "pushOurRecords E (sibling H L E now) st' ?c2 s1 = (c', s')" "cl_connected c'" "cl_Store c' = Some st'"
    "st_records (sv_Store s') = st_records (snd (store_Merge (store_All st') (sv_Store s)))"
    using pushOurRecords_sibling [of ?c2 E st' H L now s1] assms(2,3,9) m q(3) by auto
  have h: "holds ?all (view st')" using exchange_holds [OF assms(4,5)] m by simp
  have "holds (ran (view (sv_Store s)) \<union> ran (view st')) (view (snd (store_Merge (store_All st') (sv_Store s))))"
    using merge_holds [of "ran (view (sv_Store s))" "sv_Store s" "store_All st'"] assms(5) set_recordsLocked [of st'] by (simp add: keyed_holds store_All_def)
  moreover have "ran (view (sv_Store s)) \<union> ran (view st') \<subseteq> ?all" using holds_Some [OF h] by (auto simp: ran_def)
  ultimately have "holds ?all (view (snd (store_Merge (store_All st') (sv_Store s))))" by (rule holds_within [OF _ h])
  then have "view (snd (store_Merge (store_All st') (sv_Store s))) = view st'" by (rule holds_unique [OF _ h assms(6)])
  then have "st_records (sv_Store s') = st_records st'" using r(4) by (simp add: fmap_ext fun_eq_iff)
  moreover have "cl_Sync E (sibling H L E now) c s = (c', s')" using assms(1,2) p q(1,2) m r(1) by (simp add: cl_Sync_def)
  ultimately show ?thesis using r(2,3) h by blast
qed

section \<open>A store too large for a frame\<close>

text \<open>Two nodes as \<open>main\<close> sets them up: each runs a server and a client, and both work on the one store of the node, which is kept in the
  server here and handed to the client for each turn of its loop. A turn of a node's client talks to the other node's server over a network that loses
  nothing; only a dial may fail.\<close>

record pnode =
  nd_client :: pclient
  nd_server :: pserver

datatype ntick = DialTick bool | FlushTick | ExchangeTick | StopTick

definition greeting :: "peer_env \<Rightarrow> pclient \<Rightarrow> pserver \<Rightarrow> bytes" where
  "greeting E c s = (case writeJSON MsgHello (pe_encHello E \<lparr>he_Version = ProtocolVersion, he_NodeID = cl_NodeID c, he_POP = []\<rparr>) of
       Inl _ \<Rightarrow> []
     | Inr hello \<Rightarrow> (case sv_handshake E hello s of Inl _ \<Rightarrow> [] | Inr (out, _) \<Rightarrow> out))"

fun node_tick :: "peer_env \<Rightarrow> pclient \<Rightarrow> pserver \<Rightarrow> ntick \<Rightarrow> tick" where
  "node_tick E c s (DialTick up) = Redial (if up then Some (greeting E c s) else None)"
| "node_tick E c s FlushTick = PushTick"
| "node_tick E c s ExchangeTick = SyncTick"
| "node_tick E c s StopTick = CtxDone"

definition node_turn :: "(ckey \<Rightarrow> 64 word) \<Rightarrow> dnslib \<Rightarrow> peer_env \<Rightarrow> gtime \<Rightarrow> ntick \<Rightarrow> pnode \<Rightarrow> pnode \<Rightarrow> pnode \<times> pnode" where
  "node_turn H L E now tk x y =
     (let c = (nd_client x)\<lparr>cl_Store := Some (sv_Store (nd_server x))\<rparr>;
          (c', s') = run_tick E (sibling H L E now) (node_tick E c (nd_server y) tk) c (nd_server y)
      in (x\<lparr>nd_client := c', nd_server := (nd_server x)\<lparr>sv_Store := (case cl_Store c' of None \<Rightarrow> sv_Store (nd_server x) | Some st \<Rightarrow> st)\<rparr>\<rparr>,
          y\<lparr>nd_server := s'\<rparr>))"

text \<open>Turns of the two nodes in any order: \<open>True\<close> is a turn of the first node's client.\<close>

fun run_pair :: "(ckey \<Rightarrow> 64 word) \<Rightarrow> dnslib \<Rightarrow> peer_env \<Rightarrow> (gtime \<times> bool \<times> ntick) list \<Rightarrow> pnode \<Rightarrow> pnode \<Rightarrow> pnode \<times> pnode" where
  "run_pair H L E [] x y = (x, y)"
| "run_pair H L E ((now, first, tk) # ts) x y =
     (if first then case node_turn H L E now tk x y of (x', y') \<Rightarrow> run_pair H L E ts x' y'
      else case node_turn H L E now tk y x of (y', x') \<Rightarrow> run_pair H L E ts x' y')"

text \<open>What is relied on of the JSON encoding of the two messages: what was encoded is read back.\<close>

definition codec_ok :: "peer_env \<Rightarrow> bool" where
  "codec_ok E \<longleftrightarrow> (\<forall>ds b. pe_encDigests E ds = Some b \<longrightarrow> pe_decDigests E b = Some ds)
     \<and> (\<forall>rs b. pe_encRecords E rs = Some b \<longrightarrow> pe_decRecords E b = Some rs)"

lemma dispatch_store: "dispatch H L E now t p s = Some (out, s') \<Longrightarrow> t \<noteq> MsgRecords \<Longrightarrow> sv_Store s' = sv_Store s"
proof -
  have "push_loop H E now bs s = Some s' \<Longrightarrow> sv_Store s' = sv_Store s" for bs s s'
    by (induction H E now bs s rule: push_loop.induct) (auto split: sum.splits option.splits)
  then show "dispatch H L E now t p s = Some (out, s') \<Longrightarrow> t \<noteq> MsgRecords \<Longrightarrow> sv_Store s' = sv_Store s"
    by (auto simp: dispatch_def serveCacheFetch_def serveCachePush_def serveDigests_def Let_def split_beta split: if_splits option.splits sum.splits)
qed

lemma sibling_store:
  assumes "writeFrame t p = Inr frame" and "t \<noteq> MsgRecords"
  shows "sv_Store (snd (sibling H L E now frame s)) = sv_Store s"
proof (cases "dispatch H L E now t p s")
  case None
  have "readFrame frame = Inr (t, p, [])" using readFrame_written [OF assms(1), of "[]"] by simp
  with None have "serve_loop H L E (\<lambda>_. now) frame s = None" by (subst serve_loop.simps) simp
  then show ?thesis by (simp add: sibling_def)
next
  case (Some r)
  obtain res s' where r: "r = (res, s')" by (cases r)
  with Some serve_loop_frame [OF assms(1)] dispatch_store [OF _ assms(2)] show ?thesis by auto
qed

lemma request_store:
  assumes "requestWithin (sibling H L E now) t p c s = (res, c', s')" and "t \<noteq> MsgRecords"
  shows "sv_Store s' = sv_Store s \<and> cl_Store c' = cl_Store c"
proof (cases "writeFrame t p")
  case (Inr frame)
  have "sv_Store (snd (sibling H L E now frame s)) = sv_Store s" by (rule sibling_store [OF Inr assms(2)])
  with Inr assms(1) show ?thesis by (auto simp: requestWithin_def split: option.splits sum.splits prod.splits)
qed (use assms(1) in \<open>auto simp: requestWithin_def split: option.splits\<close>)

lemma dropConn_Store [simp]: "cl_Store (dropConn c) = cl_Store c"
  by (simp add: dropConn_def Let_def)

lemma sync_error_Store [simp]: "cl_Store (sync_error c) = cl_Store c"
  by (simp add: sync_error_def)

text \<open>No bytes are left over on a connection between requests.\<close>

definition quiet :: "pclient \<Rightarrow> bool" where
  "quiet c \<longleftrightarrow> cl_conn c = None \<or> cl_conn c = Some []"

lemma quiet_simps [simp]: "quiet (dropConn c)" "quiet (cl_count f c) = quiet c" "quiet (sync_error c) = quiet c"
  "quiet (c\<lparr>cl_Store := x\<rparr>) = quiet c" "quiet (c\<lparr>cl_queue := q\<rparr>) = quiet c" "quiet (c\<lparr>cl_closed := b\<rparr>) = quiet c"
  by (simp_all add: quiet_def dropConn_def sync_error_def Let_def)

lemma dispatch_out: "dispatch H L E now t p s = Some (Inr out, s') \<Longrightarrow> \<exists>t' p'. writeFrame t' p' = Inr out"
  by (auto simp: dispatch_def serveCacheFetch_def serveCachePush_def serveDigests_def serveRecords_def writeJSON_def Let_def split_beta
      split: if_splits option.splits sum.splits)

lemma request_reply:
  assumes "quiet c" and "requestWithin (sibling H L E now) t p c s = (res, c', s')"
  shows "quiet c' \<and> (\<forall>t' resp. res = Inr (t', resp) \<longrightarrow>
    (\<exists>out s2. dispatch H L E now t p s = Some (Inr out, s2) \<and> writeFrame t' resp = Inr out))"
proof (cases "cl_conn c = None \<or> (\<exists>e. writeFrame t p = Inl e)")
  case True
  then show ?thesis using assms by (auto simp: requestWithin_def split: option.splits)
next
  case False
  then obtain frame where f: "writeFrame t p = Inr frame" by (cases "writeFrame t p") auto
  have c: "cl_conn c = Some []" using False assms(1) by (auto simp: quiet_def)
  show ?thesis
  proof (cases "dispatch H L E now t p s")
    case None
    have "readFrame frame = Inr (t, p, [])" using readFrame_written [OF f, of "[]"] by simp
    with None have "serve_loop H L E (\<lambda>_. now) frame s = None" by (subst serve_loop.simps) simp
    then show ?thesis using assms f c by (auto simp: requestWithin_def sibling_def)
  next
    case (Some r)
    obtain d s2 where r: "r = (d, s2)" by (cases r)
    have w: "sibling H L E now frame s = (Some (case d of Inl _ \<Rightarrow> [] | Inr out \<Rightarrow> out), s2)"
      using serve_loop_frame [OF f] Some r by simp
    show ?thesis
    proof (cases d)
      case (Inl e)
      with w assms f c show ?thesis by (auto simp: requestWithin_def)
    next
      case (Inr out)
      obtain t' p' where o: "writeFrame t' p' = Inr out" using dispatch_out Some r Inr by blast
      have "readFrame out = Inr (t', p', [])" using readFrame_written [OF o, of "[]"] by simp
      with w assms(2) f c Inr Some r o show ?thesis by (auto simp: requestWithin_def quiet_def)
    qed
  qed
qed

lemma digests_reply:
  assumes "quiet c" and "requestWithin (sibling H L E now) MsgDigests p c s = (Inr (t, resp), c', s')"
  obtains ds where "pe_decDigests E p = Some ds" "pe_encRecords E (Missing ds (sv_Store s)) = Some resp" "length resp \<le> maxFrame"
proof -
  from request_reply [OF assms] obtain out s2 where d: "dispatch H L E now MsgDigests p s = Some (Inr out, s2)" and w: "writeFrame t resp = Inr out" by blast
  from d obtain ds where ds: "pe_decDigests E p = Some ds" "writeJSON MsgRecords (pe_encRecords E (Missing ds (sv_Store s))) = Inr out"
    by (auto simp: dispatch_def serveDigests_def msg_defs Let_def split: option.splits)
  then obtain b where b: "pe_encRecords E (Missing ds (sv_Store s)) = Some b" "writeFrame MsgRecords b = Inr out"
    by (auto simp: writeJSON_def split: option.splits)
  have "b = resp" using readFrame_written [OF w, of "[]"] readFrame_written [OF b(2), of "[]"] by simp
  with that [OF ds(1)] b show ?thesis by (simp add: writeFrame_Inr)
qed

lemma empty_store:
  assumes "st_records e = fmempty"
  shows "Digests e = []" "Missing ds e = []" "store_All e = []"
  using assms by (simp_all add: Digests_def Missing_def store_All_def recordsLocked_def all_records_def sorted_list_of_fset.rep_eq)

lemma Missing_Nil: "Missing [] st = store_All st"
  by (simp add: Missing_def store_All_def recordsLocked_def all_records_def have_of_def comp_def)

lemma Merge_Nil [simp]: "store_Merge [] st = (0, st)"
  by (simp add: store_Merge_def)

text \<open>A store whose encoding is over a frame.\<close>

definition oversized :: "peer_env \<Rightarrow> store \<Rightarrow> bool" where
  "oversized E st \<longleftrightarrow> (\<exists>b. pe_encRecords E (store_All st) = Some b \<and> maxFrame < length b)"

lemma push_oversized:
  assumes "oversized E st" and "quiet c" and "pushOurRecords E wire st c w = (c', w')"
  shows "w' = w \<and> cl_Store c' = cl_Store c \<and> quiet c'"
proof -
  have "requestWithin wire MsgRecords b c w = (Inl ErrPeerClosed, c, w) \<or> requestWithin wire MsgRecords b c w = (Inl FrameTooLarge, c, w)"
    if "maxFrame < length b" for b
    using that by (auto simp: requestWithin_def writeFrame_def split: option.split)
  with assms show ?thesis unfolding oversized_def by (fastforce simp: pushOurRecords_def Let_def split: if_splits)
qed

text \<open>A round of anti-entropy started by the node with the large store, and one started by the empty node.\<close>

lemma sync_full:
  assumes E: "codec_ok E" "oversized E st" and c: "cl_Store c = Some st" "quiet c" and s: "st_records (sv_Store s) = fmempty"
    and sync: "cl_Sync E (sibling H L E now) c s = (c', s')"
  shows "cl_Store c' = Some st \<and> sv_Store s' = sv_Store s \<and> quiet c'"
proof (cases "cl_connected c \<and> pe_encDigests E (Digests st) \<noteq> None")
  case False
  then show ?thesis using c sync by (auto simp: cl_Sync_def Let_def split: if_splits option.splits)
next
  case True
  then obtain p where p: "cl_connected c" "pe_encDigests E (Digests st) = Some p" by auto
  let ?c1 = "cl_count (\<lambda>m. m\<lparr>pm_SyncRuns := pm_SyncRuns m + 1\<rparr>) c"
  obtain res c2 s2 where q: "requestWithin (sibling H L E now) MsgDigests p ?c1 s = (res, c2, s2)" by (cases rule: prod_cases3)
  have k: "sv_Store s2 = sv_Store s" "cl_Store c2 = Some st" using request_store [OF q] c(1) by (simp_all add: msg_defs)
  have k2: "quiet c2" using request_reply [OF _ q] c(2) by simp
  show ?thesis
  proof (cases "\<exists>resp. res = Inr (MsgRecords, resp)")
    case True
    then obtain resp where r: "res = Inr (MsgRecords, resp)" by blast
    have "quiet ?c1" using c(2) by simp
    from digests_reply [OF this q [unfolded r]] obtain ds where "pe_encRecords E (Missing ds (sv_Store s)) = Some resp" by blast
    then have d: "pe_decRecords E resp = Some []" using E(1) empty_store(2) [OF s] by (simp add: codec_ok_def)
    let ?c3 = "cl_count (\<lambda>m. m\<lparr>pm_RecordsReceived := pm_RecordsReceived m + 0\<rparr>) (c2\<lparr>cl_Store := Some st\<rparr>)"
    have "pushOurRecords E (sibling H L E now) st ?c3 s2 = (c', s')" using sync c(1) p q r d by (simp add: cl_Sync_def Let_def)
    from push_oversized [OF E(2) _ this] k k2 show ?thesis by simp
  next
    case False
    then show ?thesis using sync c(1) p q k k2 by (auto simp: cl_Sync_def Let_def split: sum.splits prod.splits if_splits)
  qed
qed

lemma sync_empty:
  assumes E: "codec_ok E" "oversized E (sv_Store s)" and c: "cl_Store c = Some e" "quiet c" "st_records e = fmempty"
    and sync: "cl_Sync E (sibling H L E now) c s = (c', s')"
  shows "cl_Store c' = Some e \<and> sv_Store s' = sv_Store s \<and> quiet c'"
proof (cases "cl_connected c \<and> pe_encDigests E (Digests e) \<noteq> None")
  case False
  then show ?thesis using c sync by (auto simp: cl_Sync_def Let_def split: if_splits option.splits)
next
  case True
  then obtain p where p: "cl_connected c" "pe_encDigests E (Digests e) = Some p" by auto
  let ?c1 = "cl_count (\<lambda>m. m\<lparr>pm_SyncRuns := pm_SyncRuns m + 1\<rparr>) c"
  obtain res c2 s2 where q: "requestWithin (sibling H L E now) MsgDigests p ?c1 s = (res, c2, s2)" by (cases rule: prod_cases3)
  have k: "sv_Store s2 = sv_Store s" "cl_Store c2 = Some e" using request_store [OF q] c(1) by (simp_all add: msg_defs)
  have k2: "quiet c2" using request_reply [OF _ q] c(2) by simp
  have "res \<noteq> Inr (t, resp)" for t resp
  proof
    assume r: "res = Inr (t, resp)"
    have "quiet ?c1" using c(2) by simp
    from digests_reply [OF this q [unfolded r]] obtain ds where ds: "pe_decDigests E p = Some ds"
      "pe_encRecords E (Missing ds (sv_Store s)) = Some resp" "length resp \<le> maxFrame" by blast
    have "ds = []" using E(1) p(2) ds(1) empty_store(1) [OF c(3)] by (simp add: codec_ok_def)
    with ds E(2) show False by (simp add: Missing_Nil oversized_def)
  qed
  then show ?thesis using sync c(1) p q k k2 by (cases res) (auto simp: cl_Sync_def Let_def)
qed

lemma dial_Store: "cl_Store (snd (dial E io c)) = cl_Store c"
  by (auto simp: dial_def split: option.splits sum.splits prod.splits)

lemma flush_store:
  assumes "flushPushes E (sibling H L E now) c s = (c', s')"
  shows "sv_Store s' = sv_Store s \<and> cl_Store c' = cl_Store c"
proof -
  let ?n = "min (length (cl_queue c)) (cl_PushBatch c)"
  have "sv_Store s2 = sv_Store s \<and> cl_Store c2 = cl_Store c"
    if "requestWithin (sibling H L E now) MsgCachePush p (c\<lparr>cl_queue := drop ?n (cl_queue c)\<rparr>) s = (res, c2, s2)" for p res c2 s2
    using request_store [OF that] by (simp add: msg_defs)
  with assms show ?thesis by (fastforce simp: flushPushes_def Let_def split: if_splits option.splits sum.splits prod.splits)
qed

lemma greeting_rest: "readFrame (greeting E c s) = Inr (t, p, rest) \<Longrightarrow> rest = []"
proof -
  have "writeJSON t' v = Inr out \<Longrightarrow> readFrame out = Inr (t, p, rest) \<Longrightarrow> rest = []" for t' v out
    using readFrame_written [of t' _ out "[]"] by (auto simp: writeJSON_def split: option.splits)
  then show "readFrame (greeting E c s) = Inr (t, p, rest) \<Longrightarrow> rest = []"
    by (auto simp: greeting_def sv_handshake_def split: sum.splits option.splits if_splits prod.splits)
qed

lemma dial_quiet: "quiet c \<Longrightarrow> quiet (snd (dial E (if up then Some (greeting E c' s) else None) c))"
  by (auto simp: dial_def quiet_def dest: greeting_rest split: option.splits sum.splits prod.splits)

lemma flush_quiet:
  assumes "flushPushes E (sibling H L E now) c s = (c', s')" and "quiet c"
  shows "quiet c'"
proof -
  have "quiet c2" if "requestWithin (sibling H L E now) t p (c\<lparr>cl_queue := q\<rparr>) s = (res, c2, s2)" for t p q res c2 s2
    using request_reply [OF _ that] assms(2) by simp
  with assms show ?thesis by (fastforce simp: flushPushes_def Let_def split: if_splits option.splits sum.splits prod.splits)
qed

lemma turn_still:
  assumes sync: "\<And>c c' s'. cl_Store c = Some (sv_Store (nd_server x)) \<Longrightarrow> quiet c \<Longrightarrow> cl_Sync E (sibling H L E now) c (nd_server y) = (c', s') \<Longrightarrow>
      cl_Store c' = Some (sv_Store (nd_server x)) \<and> sv_Store s' = sv_Store (nd_server y) \<and> quiet c'"
    and q: "quiet (nd_client x)" and turn: "node_turn H L E now tk x y = (x', y')"
  shows "sv_Store (nd_server x') = sv_Store (nd_server x) \<and> sv_Store (nd_server y') = sv_Store (nd_server y)
    \<and> quiet (nd_client x') \<and> nd_client y' = nd_client y"
proof -
  let ?c = "(nd_client x)\<lparr>cl_Store := Some (sv_Store (nd_server x))\<rparr>"
  obtain c' s' where t: "run_tick E (sibling H L E now) (node_tick E ?c (nd_server y) tk) ?c (nd_server y) = (c', s')" by fastforce
  have "cl_Store c' = Some (sv_Store (nd_server x)) \<and> sv_Store s' = sv_Store (nd_server y) \<and> quiet c'"
  proof (cases tk)
    case (DialTick up)
    obtain e c1 where d: "dial E (if up then Some (greeting E ?c (nd_server y)) else None) ?c = (e, c1)" by fastforce
    have "cl_Store c1 = cl_Store ?c" "quiet c1" using dial_Store [of E _ ?c] dial_quiet [of ?c E up ?c "nd_server y"] q d by (metis snd_conv quiet_simps(4))+
    then show ?thesis using DialTick t d q sync [of c1 c' s'] by (auto split: if_splits option.splits)
  next
    case FlushTick
    with t q flush_store [of E H L now ?c "nd_server y" c' s'] flush_quiet [of E H L now ?c "nd_server y" c' s'] show ?thesis by simp
  next
    case ExchangeTick
    with t q sync [of ?c c' s'] show ?thesis by simp
  next
    case StopTick
    with t q show ?thesis by (auto simp: cl_Close_def)
  qed
  with turn t show ?thesis by (auto simp: node_turn_def Let_def)
qed

text \<open>C37. A store too large for one frame never reaches an empty sibling: between two nodes that both run a server and a client over their own store, in
  any interleaving of dials, pushes and anti-entropy rounds of both, over a network that loses nothing, a sibling that starts empty never gets a single
  record. \<open>pushOurRecords\<close> encodes all records into one frame, the server answers the empty node's digests with all records in one frame, and both
  are over the limit. It is assumed that nothing is written locally meanwhile and that JSON decoding reads back what was encoded.\<close>

theorem oversized_never_replicates:
  assumes "codec_ok E" and "oversized E (sv_Store (nd_server a))" and "st_records (sv_Store (nd_server b)) = fmempty"
    and "quiet (nd_client a)" and "quiet (nd_client b)" and "run_pair H L E ticks a b = (a', b')"
  shows "sv_Store (nd_server b') = sv_Store (nd_server b) \<and> sv_Store (nd_server a') = sv_Store (nd_server a)"
  using assms(2-)
proof (induction ticks arbitrary: a b)
  case (Cons k ticks)
  obtain now first tk where k: "k = (now, first, tk)" by (cases k) auto
  show ?case
  proof (cases first)
    case True
    obtain a1 b1 where t: "node_turn H L E now tk a b = (a1, b1)" by fastforce
    note st = turn_still [OF sync_full [OF assms(1) Cons.prems(1) _ _ Cons.prems(2)] Cons.prems(3) t]
    then show ?thesis using Cons.IH [of a1 b1] Cons.prems k True t by simp
  next
    case False
    obtain a1 b1 where t: "node_turn H L E now tk b a = (b1, a1)" by fastforce
    note st = turn_still [OF sync_empty [OF assms(1) Cons.prems(1) _ _ Cons.prems(2)] Cons.prems(4) t]
    then show ?thesis using Cons.IH [of a1 b1] Cons.prems k False t by simp
  qed
qed simp

section \<open>The cache that asks\<close>

lemma decode_fresh: "decodeEntry E b = Inr (k, e, ttl) \<Longrightarrow> e_Expiry e = 0 \<and> 0 < ttl \<and> \<not> e_Validated e"
  by (auto simp: decodeEntry_def Let_def shared_entry_def second_def word_neq_0_conv word_less_alt split: option.splits list.splits if_splits)

lemma Fetch_fresh: "Fetch E wire k c w = (Some (e, ttl), c', w') \<Longrightarrow> e_Expiry e = 0 \<and> 0 < ttl \<and> \<not> e_Validated e"
  by (auto simp: Fetch_def Let_def dest: decode_fresh split: if_splits option.splits sum.splits prod.splits)

text \<open>A hit from the sibling is answered with a TTL of zero: \<open>Get\<close> stores the fetched entry with its remaining lifetime, but returns the entry as it
  was decoded, whose expiry has not been set; the records the resolver makes of it have a TTL of zero at any time, while the copy in the
  local cache is good for the lifetime the sibling gave.\<close>

theorem peer_hit_zero_ttl:
  assumes "cache_reach H opts local" and "cache_Get H now k local = (None, local1)" and "cl_connected c"
    and "Fetch E wire k c w = (Some (e, ttl), c', w')" and "0 \<le> t"
  shows "\<exists>local2 e2. pair_Get H E wire now now' k local (Some c) w = Some (Some e, local2, Some c', w')
    \<and> (\<forall>r \<in> set (RRsAt L e t). rh_Ttl (rr_hdr r) = 0)
    \<and> cache_Peek H now' k local2 = Some e2 \<and> e_RRs e2 = e_RRs e \<and> e_Expiry e2 = now' + clamp opts (e_Kind e) ttl \<and> now' < e_Expiry e2"
proof -
  note f = Fetch_fresh [OF assms(4)]
  have "cache_reach H opts local1" using reach_Get [OF assms(1), of now k] assms(2) by simp
  note r = this reach_ok [OF this] reach_opts [OF this]
  have pos: "0 < clamp opts (e_Kind e) ttl" using f r(3) by (auto simp: clamp_def Let_def)
  with Put_stored [of H local1 e ttl now' k] r(2) obtain local2 where l: "cache_Put H now' k e ttl local1 = Some local2"
    "stored H local2 k = Some (e\<lparr>e_Stored := now', e_Expiry := now' + clamp opts (e_Kind e) ttl\<rparr>)" by auto
  have "TTLAt e t = 0" using f assms(5) time_Sub_pos [of 0 t] by (simp add: TTLAt_def Let_def not_less [symmetric] del: time_Sub_pos)
  then have "\<forall>r \<in> set (RRsAt L e t). rh_Ttl (rr_hdr r) = 0" by (auto simp: RRsAt_def)
  moreover have "pair_Get H E wire now now' k local (Some c) w = Some (Some e, local2, Some c', w')"
    using assms(2-4) l(1) by (simp add: pair_Get_def)
  ultimately show ?thesis using l(2) pos by (simp add: Peek_stored)
qed

section \<open>The queue of pushes\<close>

inductive client_reach :: "dnslib \<Rightarrow> peer_env \<Rightarrow> (bytes \<Rightarrow> 'w \<Rightarrow> bytes option \<times> 'w) \<Rightarrow> pclient \<Rightarrow> bool" for L E wire where
  cr_New: "NewClient n a tls batch limit st = Inr c \<Longrightarrow> client_reach L E wire c"
| cr_Queue: "client_reach L E wire c \<Longrightarrow> client_reach L E wire (QueuePush L E now k e c)"
| cr_Fetch: "client_reach L E wire c \<Longrightarrow> client_reach L E wire (fst (snd (Fetch E wire k c w)))"
| cr_Tick: "client_reach L E wire c \<Longrightarrow> client_reach L E wire (fst (run_tick E wire tk c w))"

definition queue_ok :: "pclient \<Rightarrow> bool" where
  "queue_ok c \<longleftrightarrow> 0 < cl_QueueLimit c \<and> length (cl_queue c) \<le> cl_QueueLimit c"

lemma queue_simps [simp]:
  "queue_ok (cl_count f c) = queue_ok c" "queue_ok (dropConn c) = queue_ok c" "queue_ok (sync_error c) = queue_ok c"
  "queue_ok (c\<lparr>cl_conn := x\<rparr>) = queue_ok c" "queue_ok (c\<lparr>cl_Store := y\<rparr>) = queue_ok c" "queue_ok (c\<lparr>cl_connected := z\<rparr>) = queue_ok c"
  "queue_ok (c\<lparr>cl_closed := z\<rparr>) = queue_ok c" "queue_ok (c\<lparr>cl_conn := x, cl_connected := z\<rparr>) = queue_ok c"
  by (simp_all add: queue_ok_def dropConn_def sync_error_def Let_def)

lemma request_queue: "requestWithin wire t p c w = (res, c', w') \<Longrightarrow> queue_ok c' = queue_ok c"
  by (auto simp: requestWithin_def split: option.splits sum.splits prod.splits)

lemma push_queue: "pushOurRecords E wire st c w = (c', w') \<Longrightarrow> queue_ok c' = queue_ok c"
  by (auto simp: pushOurRecords_def Let_def dest: request_queue split: if_splits option.splits sum.splits prod.splits)

lemma Fetch_queue: "queue_ok c \<Longrightarrow> queue_ok (fst (snd (Fetch E wire k c w)))"
  by (auto simp: Fetch_def Let_def dest: request_queue split: option.splits sum.splits prod.splits)

lemma Sync_queue: "cl_Sync E wire c w = (c', w') \<Longrightarrow> queue_ok (fst (c', w')) = queue_ok c"
  by (auto simp: cl_Sync_def Let_def dest!: request_queue push_queue split: if_splits option.splits sum.splits prod.splits)

lemma Sync_queue_fst [simp]: "queue_ok (fst (cl_Sync E wire c w)) = queue_ok c"
  using Sync_queue [of E wire c w] by (cases "cl_Sync E wire c w") simp

lemma flush_queue: "queue_ok c \<Longrightarrow> flushPushes E wire c w = (c', w') \<Longrightarrow> queue_ok (fst (c', w'))"
proof -
  assume c: "queue_ok c" and f: "flushPushes E wire c w = (c', w')"
  have "queue_ok (c\<lparr>cl_queue := drop n (cl_queue c)\<rparr>)" "queue_ok (c\<lparr>cl_queue := []\<rparr>)" for n using c by (auto simp: queue_ok_def)
  with c f show ?thesis by (auto simp: flushPushes_def Let_def dest!: request_queue split: if_splits option.splits sum.splits prod.splits)
qed

lemma dial_queue: "queue_ok (snd (dial E io c)) = queue_ok c"
  by (auto simp: dial_def split: option.splits sum.splits prod.splits)

text \<open>The queue of entries waiting for the sibling never exceeds its limit, whatever is offered while the sibling is slow or gone.\<close>

theorem push_queue_bounded: "client_reach L E wire c \<Longrightarrow> length (cl_queue c) \<le> cl_QueueLimit c"
proof -
  assume "client_reach L E wire c"
  then have "queue_ok c"
  proof (induction rule: client_reach.induct)
    case (cr_New n a tls batch limit st c)
    then show ?case by (auto simp: NewClient_def queue_ok_def split: if_splits)
  next
    case (cr_Queue c now k e)
    then show ?case by (cases "cl_queue c") (auto simp: QueuePush_def queue_ok_def Let_def split: sum.split)
  next
    case (cr_Fetch c k w)
    then show ?case by (simp add: Fetch_queue)
  next
    case (cr_Tick c tk w)
    then show ?case
    proof (cases tk)
      case (Redial io)
      with cr_Tick.IH dial_queue [of E io c] show ?thesis by (auto split: prod.splits option.splits)
    next
      case PushTick
      obtain c' w' where "flushPushes E wire c w = (c', w')" by (cases "flushPushes E wire c w")
      with flush_queue [OF cr_Tick.IH this] PushTick show ?thesis by simp
    qed (use cr_Tick.IH in \<open>auto simp: cl_Close_def\<close>)
  qed
  then show ?thesis by (simp add: queue_ok_def)
qed

section \<open>Witnesses\<close>

definition null_peer :: peer_env where
  "null_peer = \<lparr>pe_encHello = \<lambda>_. None, pe_decHello = \<lambda>_. None, pe_encKey = \<lambda>_. Some [7], pe_decKey = \<lambda>_. None, pe_encPush = \<lambda>_. None,
     pe_decPush = \<lambda>_. None, pe_encRecords = \<lambda>_. None, pe_decRecords = \<lambda>_. None, pe_encDigests = \<lambda>_. None, pe_decDigests = \<lambda>_. None,
     pe_encError = \<lambda>_. None, pe_Pack = \<lambda>_. None, pe_Unpack = \<lambda>_. None\<rparr>"

definition a_record :: rr where
  "a_record = \<lparr>rr_hdr = \<lparr>rh_Name = ''a.'', rh_Rrtype = TypeA, rh_Class = ClassINET, rh_Ttl = 9, rh_Rdlength = 4\<rparr>, rr_data = RA [10, 0, 0, 1]\<rparr>"

definition a_key :: ckey where
  "a_key = NewKey ''a.'' TypeA ClassINET"

definition a_entry :: centry where
  "a_entry = \<lparr>e_RRs = [a_record], e_Kind = KindAnswer, e_Rcode = 0, e_Authenticated = False, e_Validated = True, e_Stored = 0, e_Expiry = 9 * second\<rparr>"

definition a_msg :: dmsg where
  "a_msg = entry_msg ref_lib a_key a_entry (2 * second)"

definition a_peer :: peer_env where
  "a_peer = null_peer\<lparr>pe_Pack := (\<lambda>m. if m = a_msg then Some [1] else None), pe_Unpack := (\<lambda>_. Some a_msg)\<rparr>"

lemma a_peer_ok: "pack_ok ref_lib a_peer"
  by (simp add: pack_ok_def a_peer_def same_msg_def ref_lib_def ask_for_def)

lemma a_fields: "e_Kind a_entry = KindAnswer" "e_Rcode a_entry = 0" "\<not> e_Authenticated a_entry" "ck_Type a_key = TypeA" "ck_Class a_key = ClassINET"
  by (simp_all add: a_entry_def a_key_def NewKey_def)

lemma a_ttl: "TTLAt a_entry (2 * second) = 7"
  by (simp add: TTLAt_def a_entry_def time_Sub_def second_def maxDuration_def minDuration_def)

theorem shared_entry_ttl_witness:
  "\<exists>e' ttl c'. decodeEntry a_peer [1] = Inr (a_key, e', ttl) \<and> 0 < ttl \<and> 2 * second + ttl \<le> 9 * second
    \<and> cache_Put (\<lambda>_. 0) (3 * second) a_key e' ttl test_cache = Some c'"
proof -
  have "encodeEntry ref_lib a_peer a_key a_entry (2 * second) = Inr [1]"
    by (simp add: encodeEntry_def a_ttl a_peer_def a_msg_def)
  moreover have "a_key = NewKey ''a.'' TypeA ClassINET" "e_RRs a_entry \<noteq> []" "e_Expiry a_entry = 9 * second" by (simp_all add: a_key_def a_entry_def)
  ultimately show ?thesis
    using shared_entry_ttl [OF a_peer_ok, of a_key a_entry "2 * second" "[1]" "''a.''" TypeA ClassINET "\<lambda>_. 0" test_opts test_cache "3 * second"]
      test_cache_reach by auto
qed

definition b_server :: pserver where
  "b_server = \<lparr>sv_NodeID = ''b'', sv_Cache = test_cache, sv_Store = node_b1, sv_active = 0, sv_conns = {}, sv_metrics = no_metrics\<rparr>"

definition a_client :: pclient where
  "a_client = \<lparr>cl_NodeID = ''a'', cl_PushBatch = 256, cl_QueueLimit = 4096, cl_Store = Some node_a1, cl_conn = Some [], cl_connected = True,
     cl_closed = False, cl_queue = [], cl_metrics = no_metrics\<rparr>"

theorem server_survives_any_peer_witness:
  "\<exists>s'. sv_handle (\<lambda>_. 0) ref_lib null_peer (\<lambda>_. 0) 5 [1, 2, 3] b_server = Some ([], s') \<and> sv_Store s' = node_b1"
proof -
  have "readFrame [1, 2, 3] = Inl ErrPeerClosed" by (simp add: readFrame_def)
  with server_survives_any_peer [of "\<lambda>_. 0" test_opts b_server 5 ref_lib null_peer "\<lambda>_. 0" "[1, 2, 3]"] test_cache_reach node_keyed(2)
  show ?thesis by (auto simp: b_server_def)
qed

definition ab_peer :: peer_env where
  "ab_peer = null_peer\<lparr>pe_encDigests := (\<lambda>_. Some [1]), pe_decDigests := (\<lambda>_. Some (Digests node_a1)),
     pe_encRecords := (\<lambda>rs. if rs = Missing (Digests node_a1) node_b1 then Some [1] else Some [2]),
     pe_decRecords := (\<lambda>b. if b = [1] then Some (Missing (Digests node_a1) node_b1)
       else Some (store_All (snd (store_Merge (Missing (Digests node_a1) node_b1) node_a1))))\<rparr>"

theorem sync_converges_witness:
  "\<exists>c' s' st'. cl_Sync ab_peer (sibling (\<lambda>_. 0) ref_lib ab_peer 0) a_client b_server = (c', s') \<and> cl_Store c' = Some st'
    \<and> st_records (sv_Store s') = st_records st' \<and> holds {rec_a, rec_b} (view st')"
proof -
  have "carried (pe_encDigests ab_peer) (pe_decDigests ab_peer) (Digests node_a1)"
    "carried (pe_encRecords ab_peer) (pe_decRecords ab_peer) (Missing (Digests node_a1) node_b1)"
    "carried (pe_encRecords ab_peer) (pe_decRecords ab_peer) (store_All (snd (store_Merge (Missing (Digests node_a1) node_b1) node_a1)))"
    by (auto simp: carried_def ab_peer_def maxFrame_def)
  moreover have "cl_Store a_client = Some node_a1" "cl_connected a_client" "cl_conn a_client = Some []" "sv_Store b_server = node_b1"
    by (simp_all add: a_client_def b_server_def)
  ultimately show ?thesis
    using sync_converges [of a_client node_a1 b_server ab_peer "\<lambda>_. 0" ref_lib 0] node_keyed rec_stamps by (force simp: insert_commute)
qed

text \<open>An encoding that is read back, in which the one record of node \<open>a\<close> takes more than a frame.\<close>

definition wide_peer :: peer_env where
  "wide_peer = null_peer\<lparr>pe_encDigests := (\<lambda>ds. if ds = [] then Some [] else if ds = Digests node_a1 then Some [1] else None),
     pe_decDigests := (\<lambda>b. Some (if b = [] then [] else Digests node_a1)),
     pe_encRecords := (\<lambda>rs. if rs = [] then Some [] else if rs = store_All node_a1 then Some (replicate (Suc maxFrame) 0) else None),
     pe_decRecords := (\<lambda>b. Some (if b = [] then [] else store_All node_a1))\<rparr>"

definition node_of :: "string \<Rightarrow> store \<Rightarrow> pnode" where
  "node_of name st = \<lparr>nd_client = a_client\<lparr>cl_NodeID := name\<rparr>, nd_server = b_server\<lparr>sv_NodeID := name, sv_Store := st\<rparr>\<rparr>"

theorem oversized_never_replicates_witness:
  "\<exists>a' b'. run_pair (\<lambda>_. 0) ref_lib wide_peer [(0, True, ExchangeTick), (1, False, ExchangeTick), (2, True, DialTick True), (3, False, ExchangeTick)]
      (node_of ''a'' node_a1) (node_of ''b'' node_b) = (a', b')
    \<and> st_records (sv_Store (nd_server b')) = fmempty \<and> sv_Store (nd_server a') = node_a1 \<and> store_All node_a1 \<noteq> []"
proof -
  let ?t = "[(0, True, ExchangeTick), (1, False, ExchangeTick), (2, True, DialTick True), (3, False, ExchangeTick)] :: (gtime \<times> bool \<times> ntick) list"
  obtain a' b' where r: "run_pair (\<lambda>_. 0) ref_lib wide_peer ?t (node_of ''a'' node_a1) (node_of ''b'' node_b) = (a', b')" by fastforce
  have n: "store_All node_a1 \<noteq> []" using node_keyed(3) by (simp add: view_empty_All)
  then have "Digests node_a1 \<noteq> []" by (simp add: Digests_def store_All_def recordsLocked_def flip: length_greater_0_conv)
  with n have "codec_ok wide_peer" by (auto simp: codec_ok_def wide_peer_def)
  moreover have "oversized wide_peer (sv_Store (nd_server (node_of ''a'' node_a1)))" using n by (simp add: oversized_def wide_peer_def node_of_def)
  moreover have e: "st_records (sv_Store (nd_server (node_of ''b'' node_b))) = fmempty" by (simp add: node_of_def node_b_def node_a_def)
  moreover have "quiet (nd_client (node_of n st))" for n st by (simp add: node_of_def quiet_def a_client_def)
  ultimately have "sv_Store (nd_server b') = sv_Store (nd_server (node_of ''b'' node_b)) \<and> sv_Store (nd_server a') = sv_Store (nd_server (node_of ''a'' node_a1))"
    by (intro oversized_never_replicates [OF _ _ _ _ _ r])
  with r e n show ?thesis by (intro exI [of _ a'] exI [of _ b']) (simp add: node_of_def)
qed

definition hit_wire :: "bytes \<Rightarrow> unit \<Rightarrow> bytes option \<times> unit" where
  "hit_wire frame w = (Some (MsgCacheHit # PutUint32 1 @ [1]), ())"

lemma hit_fetch:
  "\<exists>c'. Fetch a_peer hit_wire a_key a_client () = (Some (shared_entry KindAnswer [a_record\<lparr>rr_hdr := (rr_hdr a_record)\<lparr>rh_Ttl := 7\<rparr>\<rparr>] 0 False, 7 * second), c', ())"
proof -
  have "RRsAt ref_lib a_entry (2 * second) = [a_record\<lparr>rr_hdr := (rr_hdr a_record)\<lparr>rh_Ttl := 7\<rparr>\<rparr>]"
    unfolding RRsAt_def a_ttl by (simp add: a_entry_def withTtl_def ref_lib_def)
  then have m: "m_Question a_msg = [\<lparr>q_Name = ck_Name a_key, q_Qtype = TypeA, q_Qclass = ClassINET\<rparr>]" "m_Rcode a_msg = 0" "\<not> m_AuthenticatedData a_msg"
    "m_Answer a_msg = [a_record\<lparr>rr_hdr := (rr_hdr a_record)\<lparr>rh_Ttl := 7\<rparr>\<rparr>]"
    unfolding a_msg_def entry_msg_def Let_def by (simp_all add: new_question [OF a_peer_ok] a_fields)
  have "NewKey (ck_Name a_key) TypeA ClassINET = a_key" by (simp add: a_key_def NewKey_def CanonicalName_lower)
  with m have d: "decodeEntry a_peer [1] = Inr (a_key, shared_entry KindAnswer [a_record\<lparr>rr_hdr := (rr_hdr a_record)\<lparr>rh_Ttl := 7\<rparr>\<rparr>] 0 False, 7 * second)"
    by (simp add: decodeEntry_def a_peer_def minTtl_def)
  have w: "writeFrame MsgCacheFetch [7] = Inr (MsgCacheFetch # PutUint32 1 @ [7])" by (simp add: writeFrame_def maxFrame_def)
  have r: "readFrame (MsgCacheHit # PutUint32 1 @ [1]) = Inr (MsgCacheHit, [1], [])" by (simp add: readFrame_header maxFrame_def)
  have k: "pe_encKey a_peer (wireKey a_key) = Some [7]" by (simp add: a_peer_def null_peer_def)
  have c: "cl_connected a_client" "cl_conn a_client = Some []" by (simp_all add: a_client_def)
  show ?thesis using d w r k c by (simp add: Fetch_def requestWithin_def hit_wire_def)
qed

theorem peer_hit_zero_ttl_witness:
  "\<exists>e local2 c' e2. pair_Get (\<lambda>_. 0) a_peer hit_wire 10 11 a_key test_cache (Some a_client) () = Some (Some e, local2, Some c', ())
    \<and> RRsAt ref_lib e 12 \<noteq> [] \<and> (\<forall>r \<in> set (RRsAt ref_lib e 12). rh_Ttl (rr_hdr r) = 0) \<and> cache_Peek (\<lambda>_. 0) 11 a_key local2 = Some e2"
proof -
  let ?e = "shared_entry KindAnswer [a_record\<lparr>rr_hdr := (rr_hdr a_record)\<lparr>rh_Ttl := 7\<rparr>\<rparr>] 0 False"
  obtain c' where f: "Fetch a_peer hit_wire a_key a_client () = (Some (?e, 7 * second), c', ())" using hit_fetch by blast
  have g: "\<exists>l. cache_Get (\<lambda>_. 0) 10 a_key test_cache = (None, l)"
    by (simp add: cache_Get_def shardFor_def test_cache_def new_shard_def shard_get_def lru_empty_def lru.defs shard.defs Let_def)
  then obtain l where g: "cache_Get (\<lambda>_. 0) 10 a_key test_cache = (None, l)" by blast
  have "cl_connected a_client" by (simp add: a_client_def)
  moreover have "RRsAt ref_lib ?e 12 \<noteq> []" by (simp add: RRsAt_def shared_entry_def)
  ultimately show ?thesis using peer_hit_zero_ttl [OF test_cache_reach g _ f, of 12 11 ref_lib] by fastforce
qed

theorem push_queue_bounded_witness:
  "\<exists>c. NewClient ''a'' ''b'' True 0 1 None = Inr c \<and> length (cl_queue (QueuePush ref_lib a_peer 0 a_key a_entry c)) \<le> 1"
proof -
  obtain c where c: "NewClient ''a'' ''b'' True 0 1 None = Inr c" by (simp add: NewClient_def)
  have "cl_QueueLimit (QueuePush ref_lib a_peer 0 a_key a_entry c) = 1"
    using c by (auto simp: NewClient_def QueuePush_def Let_def split: sum.split)
  moreover have "client_reach ref_lib a_peer hit_wire (QueuePush ref_lib a_peer 0 a_key a_entry c)" by (rule cr_Queue [OF cr_New [OF c]])
  ultimately show ?thesis using push_queue_bounded c by fastforce
qed

end
