(* ===== verification/Mgmt_Auth.thy ===== *)
theory Mgmt_Auth
  imports Control_Records Peer_Link
begin

text \<open>
  Credentials of the management plane, \<open>internal/management\<close>: the API tokens of \<open>token.go\<close>, the operator accounts of \<open>user.go\<close> and the
  browser sessions of \<open>session.go\<close>.

  Random bytes, already encoded, are arguments (\<open>None\<close> when the generator fails). SHA-256, HMAC-SHA1, Argon2id, base 32 and
  base 64, the \<open>Sscanf\<close> calls, JSON of a token and of a user are the fields of \<open>mgmt_env\<close>. Comparison in constant time is equality; what is computed only to take
  the same time has no counterpart. The map of sessions is a finite map.
\<close>

type_synonym scope = string

definition ScopeRead :: scope where "ScopeRead = ''read''"
definition ScopeWrite :: scope where "ScopeWrite = ''write''"
definition ScopeAdmin :: scope where "ScopeAdmin = ''admin''"

lemmas scope_defs = ScopeRead_def ScopeWrite_def ScopeAdmin_def

definition scope_Valid :: "scope \<Rightarrow> bool" where
  "scope_Valid s \<longleftrightarrow> s = ScopeRead \<or> s = ScopeWrite \<or> s = ScopeAdmin"

definition scope_implies :: "scope \<Rightarrow> scope \<Rightarrow> bool" where
  "scope_implies s want = (if s = ScopeAdmin then True
     else if s = ScopeWrite then want = ScopeWrite \<or> want = ScopeRead
     else if s = ScopeRead then want = ScopeRead
     else False)"

definition scopesAllow :: "scope list \<Rightarrow> scope \<Rightarrow> bool" where
  "scopesAllow held want = list_ex (\<lambda>s. scope_implies s want) held"

record token =
  tk_ID :: string
  tk_Name :: string
  tk_Hash :: string
  tk_Scopes :: "scope list"
  tk_Created :: gtime
  tk_Expires :: gtime

record user =
  us_Name :: string
  us_Hash :: string
  us_Scopes :: "scope list"
  us_TOTPSecret :: string
  us_TOTPConfirmed :: bool
  us_Disabled :: bool
  us_Created :: gtime
  us_LastLogin :: gtime

record mgmt_env =
  mg_sha256hex :: "string \<Rightarrow> string"
  mg_hmac :: "bytes \<Rightarrow> bytes \<Rightarrow> bytes"
  mg_IDKey :: "string \<Rightarrow> bytes \<Rightarrow> nat \<Rightarrow> nat \<Rightarrow> nat \<Rightarrow> nat \<Rightarrow> bytes"
  mg_enc64 :: "bytes \<Rightarrow> string"
  mg_dec64 :: "string \<Rightarrow> bytes option"
  mg_dec32 :: "string \<Rightarrow> bytes option"
  mg_scanVersion :: "string \<Rightarrow> nat option"
  mg_scanParams :: "string \<Rightarrow> (nat \<times> nat \<times> nat) option"
  mg_encToken :: "token \<Rightarrow> string option"
  mg_decToken :: "string \<Rightarrow> token option"
  mg_encUser :: "user \<Rightarrow> string option"
  mg_decUser :: "string \<Rightarrow> user option"

datatype mgmt_error = NeedsName | NeedsScope | UnknownScope scope | RandomFailed | ErrTokenNotFound | ErrTokenExpired | DecodingToken
  | StoringToken | ErrUserNotFound | ErrBadCredentials | ErrTOTPRequired | DecodingUser | StoringUser | ShortPassword

section \<open>Tokens\<close>

definition hashSecret :: "mgmt_env \<Rightarrow> string \<Rightarrow> string" where
  "hashSecret M secret = mg_sha256hex M secret"

definition Mint :: "mgmt_env \<Rightarrow> string option \<Rightarrow> string option \<Rightarrow> string \<Rightarrow> scope list \<Rightarrow> duration \<Rightarrow> gtime \<Rightarrow> mgmt_error + token \<times> string" where
  "Mint M idRaw secretRaw name scopes ttl now =
     (if TrimSpace name = [] then Inl NeedsName
      else if scopes = [] then Inl NeedsScope
      else case find (\<lambda>s. \<not> scope_Valid s) scopes of
          Some s \<Rightarrow> Inl (UnknownScope s)
        | None \<Rightarrow> (case idRaw of
              None \<Rightarrow> Inl RandomFailed
            | Some i \<Rightarrow> (case secretRaw of
                  None \<Rightarrow> Inl RandomFailed
                | Some secret \<Rightarrow>
                    Inr (\<lparr>tk_ID = i, tk_Name = name, tk_Hash = hashSecret M secret, tk_Scopes = scopes, tk_Created = now,
                      tk_Expires = (if ttl > 0 then now + ttl else 0)\<rparr>, i @ ''.'' @ secret))))"

text \<open>\<open>strings.Cut\<close> at a character.\<close>

definition cut_at :: "char \<Rightarrow> string \<Rightarrow> (string \<times> string) option" where
  "cut_at c s = (if c \<in> set s then Some (takeWhile (\<lambda>x. x \<noteq> c) s, drop 1 (dropWhile (\<lambda>x. x \<noteq> c) s)) else None)"

definition splitPresented :: "string \<Rightarrow> (string \<times> string) option" where
  "splitPresented presented = (case cut_at (CHR ''.'') presented of
       None \<Rightarrow> None
     | Some (i, secret) \<Rightarrow> if i = [] \<or> secret = [] then None else Some (i, secret))"

definition LoadToken :: "mgmt_env \<Rightarrow> store \<Rightarrow> string \<Rightarrow> mgmt_error + token" where
  "LoadToken M st i = (case find (\<lambda>r. cr_Kind r = KindToken \<and> cr_Key r = i) (store_Records st) of
       None \<Rightarrow> Inl ErrTokenNotFound
     | Some r \<Rightarrow> (case mg_decToken M (cr_Payload r) of None \<Rightarrow> Inl DecodingToken | Some t \<Rightarrow> Inr t))"

definition Verify :: "mgmt_env \<Rightarrow> store \<Rightarrow> string \<Rightarrow> gtime \<Rightarrow> mgmt_error + token" where
  "Verify M st presented now = (case splitPresented presented of
       None \<Rightarrow> Inl ErrTokenNotFound
     | Some (i, secret) \<Rightarrow> (case LoadToken M st i of
           Inl _ \<Rightarrow> Inl ErrTokenNotFound
         | Inr t \<Rightarrow>
             if hashSecret M secret \<noteq> tk_Hash t then Inl ErrTokenNotFound
             else if tk_Expires t \<noteq> 0 \<and> now > tk_Expires t then Inl ErrTokenExpired
             else Inr t))"

definition token_Allows :: "token \<Rightarrow> scope \<Rightarrow> bool" where
  "token_Allows t want = list_ex (\<lambda>s. scope_implies s want) (tk_Scopes t)"

fun token_loop :: "mgmt_env \<Rightarrow> crecord list \<Rightarrow> token list \<Rightarrow> mgmt_error + token list" where
  "token_loop M [] out = Inr out"
| "token_loop M (r # rs) out = (if cr_Kind r \<noteq> KindToken then token_loop M rs out
     else case mg_decToken M (cr_Payload r) of
         None \<Rightarrow> Inl DecodingToken
       | Some t \<Rightarrow> token_loop M rs (out @ [t\<lparr>tk_Hash := []\<rparr>]))"

definition ListTokens :: "mgmt_env \<Rightarrow> store \<Rightarrow> mgmt_error + token list" where
  "ListTokens M st = token_loop M (store_Records st) []"

definition SaveToken :: "mgmt_env \<Rightarrow> gtime \<Rightarrow> token \<Rightarrow> store \<Rightarrow> mgmt_error option \<times> store" where
  "SaveToken M now t st = (case store_Put now KindToken (tk_ID t) (mg_encToken M t) st of
       (Inl _, st') \<Rightarrow> (Some StoringToken, st')
     | (Inr _, st') \<Rightarrow> (None, st'))"

definition RevokeToken :: "mgmt_env \<Rightarrow> gtime \<Rightarrow> string \<Rightarrow> store \<Rightarrow> mgmt_error option \<times> store" where
  "RevokeToken M now i st = (case LoadToken M st i of
       Inl e \<Rightarrow> (Some e, st)
     | Inr _ \<Rightarrow> (None, snd (store_Delete now KindToken i st)))"

definition HasTokens :: "store \<Rightarrow> bool" where
  "HasTokens st = list_ex (\<lambda>r. cr_Kind r = KindToken) (store_Records st)"

section \<open>Passwords and codes\<close>

definition argonVersion :: nat where "argonVersion = 19"
definition argonTime :: nat where "argonTime = 3"
definition argonMemory :: nat where "argonMemory = 64 * 1024"
definition argonThreads :: nat where "argonThreads = 4"
definition argonKeyLen :: nat where "argonKeyLen = 32"

definition HashPassword :: "mgmt_env \<Rightarrow> bytes option \<Rightarrow> string \<Rightarrow> mgmt_error + string" where
  "HashPassword M saltRaw password =
     (if length password < 12 then Inl ShortPassword
      else case saltRaw of
          None \<Rightarrow> Inl RandomFailed
        | Some salt \<Rightarrow>
            let key = mg_IDKey M password salt argonTime argonMemory argonThreads argonKeyLen
            in Inr (''$argon2id$v='' @ decimal argonVersion @ ''$m='' @ decimal argonMemory @ '',t='' @ decimal argonTime @ '',p='' @ decimal argonThreads
              @ ''$'' @ mg_enc64 M salt @ ''$'' @ mg_enc64 M key))"

definition VerifyPassword :: "mgmt_env \<Rightarrow> string \<Rightarrow> string \<Rightarrow> bool" where
  "VerifyPassword M encoded password = (let parts = split_on (CHR ''$'') encoded in
     if length parts \<noteq> 6 \<or> parts ! 1 \<noteq> ''argon2id'' then False
     else case mg_scanVersion M (parts ! 2) of
         None \<Rightarrow> False
       | Some version \<Rightarrow> if version \<noteq> argonVersion then False
           else (case mg_scanParams M (parts ! 3) of
               None \<Rightarrow> False
             | Some (memory, iterations, threads) \<Rightarrow> (case mg_dec64 M (parts ! 4) of
                   None \<Rightarrow> False
                 | Some salt \<Rightarrow> (case mg_dec64 M (parts ! 5) of
                       None \<Rightarrow> False
                     | Some want \<Rightarrow> mg_IDKey M password salt iterations memory threads (length want) = want))))"

definition ToUpper :: "string \<Rightarrow> string" where
  "ToUpper = map (\<lambda>c. if char_in (CHR ''a'') (CHR ''z'') c then char_of (of_char c - 32 :: nat) else c)"

definition totpStep :: int where "totpStep = 30"

definition PutUint64 :: "u64 \<Rightarrow> bytes" where
  "PutUint64 v = map (\<lambda>i. ucast (drop_bit (8 * i) v)) [7, 6, 5, 4, 3, 2, 1, 0]"

text \<open>\<open>%06d\<close>.\<close>

definition pad6 :: "nat \<Rightarrow> string" where
  "pad6 n = replicate (6 - length (decimal n)) (CHR ''0'') @ decimal n"

definition hotp :: "mgmt_env \<Rightarrow> bytes \<Rightarrow> int \<Rightarrow> string" where
  "hotp M key counter =
     (let sum = mg_hmac M key (PutUint64 (word_of_int counter));
          offset = unat (last sum AND 0x0f);
          value = Uint32 (take 4 (drop offset sum)) AND 0x7fffffff
      in pad6 (unat value mod 1000000))"

text \<open>Seconds since 1970, from the nanoseconds since Go's zero time.\<close>

definition time_Unix :: "gtime \<Rightarrow> int" where
  "time_Unix t = t div second - 62135596800"

definition VerifyTOTP :: "mgmt_env \<Rightarrow> string \<Rightarrow> string \<Rightarrow> gtime \<Rightarrow> bool" where
  "VerifyTOTP M secret code now =
     (if secret = [] \<or> length code \<noteq> 6 then False
      else case mg_dec32 M (ToUpper secret) of
          None \<Rightarrow> False
        | Some key \<Rightarrow>
            let counter = sgn (time_Unix now) * (\<bar>time_Unix now\<bar> div totpStep)
            in list_ex (\<lambda>skew. hotp M key (counter + skew) = code) [- 1, 0, 1])"

section \<open>Accounts\<close>

definition user_key :: "string \<Rightarrow> string" where
  "user_key name = ToLower (TrimSpace name)"

definition LoadUser :: "mgmt_env \<Rightarrow> store \<Rightarrow> string \<Rightarrow> mgmt_error + user" where
  "LoadUser M st name = (case find (\<lambda>r. cr_Kind r = KindUser \<and> cr_Key r = user_key name) (store_Records st) of
       None \<Rightarrow> Inl ErrUserNotFound
     | Some r \<Rightarrow> (case mg_decUser M (cr_Payload r) of None \<Rightarrow> Inl DecodingUser | Some u \<Rightarrow> Inr u))"

fun user_loop :: "mgmt_env \<Rightarrow> crecord list \<Rightarrow> user list \<Rightarrow> mgmt_error + user list" where
  "user_loop M [] out = Inr out"
| "user_loop M (r # rs) out = (if cr_Kind r \<noteq> KindUser then user_loop M rs out
     else case mg_decUser M (cr_Payload r) of
         None \<Rightarrow> Inl DecodingUser
       | Some u \<Rightarrow> user_loop M rs (out @ [u\<lparr>us_Hash := [], us_TOTPSecret := []\<rparr>]))"

definition ListUsers :: "mgmt_env \<Rightarrow> store \<Rightarrow> mgmt_error + user list" where
  "ListUsers M st = user_loop M (store_Records st) []"

definition SaveUser :: "mgmt_env \<Rightarrow> gtime \<Rightarrow> user \<Rightarrow> store \<Rightarrow> mgmt_error option \<times> store" where
  "SaveUser M now u0 st =
     (let u = u0\<lparr>us_Name := user_key (us_Name u0)\<rparr> in
      if us_Name u = [] then (Some NeedsName, st)
      else if us_Scopes u = [] then (Some NeedsScope, st)
      else case find (\<lambda>s. \<not> scope_Valid s) (us_Scopes u) of
          Some s \<Rightarrow> (Some (UnknownScope s), st)
        | None \<Rightarrow> (case store_Put now KindUser (us_Name u) (mg_encUser M u) st of
              (Inl _, st') \<Rightarrow> (Some StoringUser, st')
            | (Inr _, st') \<Rightarrow> (None, st')))"

definition DeleteUser :: "mgmt_env \<Rightarrow> gtime \<Rightarrow> string \<Rightarrow> store \<Rightarrow> mgmt_error option \<times> store" where
  "DeleteUser M now name st = (case LoadUser M st (user_key name) of
       Inl e \<Rightarrow> (Some e, st)
     | Inr _ \<Rightarrow> (None, snd (store_Delete now KindUser (user_key name) st)))"

definition Authenticate :: "mgmt_env \<Rightarrow> store \<Rightarrow> string \<Rightarrow> string \<Rightarrow> string \<Rightarrow> gtime \<Rightarrow> mgmt_error + user" where
  "Authenticate M st name password code now = (case LoadUser M st name of
       Inl _ \<Rightarrow> Inl ErrBadCredentials
     | Inr u \<Rightarrow>
         if us_Disabled u then Inl ErrBadCredentials
         else if \<not> VerifyPassword M (us_Hash u) password then Inl ErrBadCredentials
         else if us_TOTPConfirmed u then
           if code = [] then Inl ErrTOTPRequired
           else if \<not> VerifyTOTP M (us_TOTPSecret u) code now then Inl ErrBadCredentials
           else Inr u
         else Inr u)"

definition user_Allows :: "user \<Rightarrow> scope \<Rightarrow> bool" where
  "user_Allows u want = (if us_Disabled u then False else list_ex (\<lambda>s. scope_implies s want) (us_Scopes u))"

definition HasUsers :: "store \<Rightarrow> bool" where
  "HasUsers st = list_ex (\<lambda>r. cr_Kind r = KindUser) (store_Records st)"

section \<open>Sessions\<close>

record session =
  se_user :: string
  se_scopes :: "scope list"
  se_csrf :: string
  se_expires :: gtime

record session_store =
  ss_sessions :: "(string, session) fmap"
  ss_ttl :: duration
  ss_Active :: int

definition NewSessionStore :: "duration \<Rightarrow> session_store" where
  "NewSessionStore ttl = \<lparr>ss_sessions = fmempty, ss_ttl = (if ttl \<le> 0 then 8 * 3600 * second else ttl), ss_Active = 0\<rparr>"

definition sess_Create :: "string option \<Rightarrow> string option \<Rightarrow> gtime \<Rightarrow> user \<Rightarrow> session_store \<Rightarrow> (mgmt_error + string \<times> string) \<times> session_store" where
  "sess_Create idRaw csrfRaw now u s = (case idRaw of
       None \<Rightarrow> (Inl RandomFailed, s)
     | Some i \<Rightarrow> (case csrfRaw of
           None \<Rightarrow> (Inl RandomFailed, s)
         | Some csrf \<Rightarrow>
             (Inr (i, csrf), s\<lparr>ss_sessions := fmupd i \<lparr>se_user = us_Name u, se_scopes = us_Scopes u, se_csrf = csrf, se_expires = now + ss_ttl s\<rparr> (ss_sessions s),
               ss_Active := ss_Active s + 1\<rparr>)))"

definition sess_Destroy :: "string \<Rightarrow> session_store \<Rightarrow> session_store" where
  "sess_Destroy i s = (let s1 = s\<lparr>ss_sessions := fmdrop i (ss_sessions s)\<rparr> in
     if fmlookup (ss_sessions s) i \<noteq> None then s1\<lparr>ss_Active := ss_Active s - 1\<rparr> else s1)"

definition sess_Lookup :: "gtime \<Rightarrow> string \<Rightarrow> session_store \<Rightarrow> session option \<times> session_store" where
  "sess_Lookup now i s = (case fmlookup (ss_sessions s) i of
       None \<Rightarrow> (None, s)
     | Some sess \<Rightarrow> if \<not> now < se_expires sess then (None, sess_Destroy i s) else (Some sess, s))"

text \<open>The loops that drop the sessions with a property and count them.\<close>

definition sess_drop :: "(session \<Rightarrow> bool) \<Rightarrow> session_store \<Rightarrow> nat \<times> session_store" where
  "sess_drop P s =
     (let gone = ffilter (\<lambda>i. case fmlookup (ss_sessions s) i of Some sess \<Rightarrow> P sess | None \<Rightarrow> False) (fmdom (ss_sessions s));
          n = size gone
      in (n, s\<lparr>ss_sessions := fmdrop_fset gone (ss_sessions s), ss_Active := ss_Active s - int n\<rparr>))"

definition DestroyUser :: "string \<Rightarrow> session_store \<Rightarrow> nat \<times> session_store" where
  "DestroyUser name s = sess_drop (\<lambda>sess. se_user sess = name) s"

definition sess_Sweep :: "gtime \<Rightarrow> session_store \<Rightarrow> nat \<times> session_store" where
  "sess_Sweep now s = sess_drop (\<lambda>sess. \<not> now < se_expires sess) s"

end
