(* ===== verification/Mgmt_API.thy ===== *)
theory Mgmt_API
  imports Mgmt_Auth
begin

text \<open>
  The operator API of \<open>internal/management\<close>: the routes, the guard and the record and token handlers of \<open>api.go\<close>, the login, account and second
  factor handlers of \<open>auth.go\<close>, and the parts of \<open>session.go\<close> that read a request.

  A request is what the handlers read of it: whether it came over the local socket, its session cookie, method, two headers, the value in its path and its body. The
  patterns of the \<open>ServeMux\<close> are the constructors of \<open>route\<close>; an answer is its status, its body before JSON encoding and what happens to the cookie.
  Texts of errors, log lines and the fixed security headers are left out. The embedded console serves static files and is one answer.
\<close>

datatype body_read = BodyTooLarge | BodyErr | Body string

record mgmt_req =
  mr_local :: bool
  mr_cookie :: "string option"
  mr_Method :: string
  mr_CSRF :: string
  mr_Authorization :: string
  mr_path :: string
  mr_body :: body_read

datatype cookie_op = NoCookie | SetCookie string duration | ClearCookie

datatype resp_body = ErrorBody | TOTPRequiredBody | StatusBody string u64 nat | MetricsBody | RecordsBody "crecord list" string | ListBody "string list"
  | RawBody string | WriteBody string string u64 string | DeleteBody string string | TokensBody "token list"
  | MintedBody string string "scope list" string "gtime option" | RevokeBody string | LoginBody string "scope list" string bool
  | IdentityBody string string "scope list" bool | EnrolmentBody string string | TextBody string | UsersBody "user list" | CreatedBody string "scope list"

record mgmt_resp =
  rp_Code :: nat
  rp_Body :: resp_body
  rp_Cookie :: cookie_op
  rp_Challenge :: bool

record api =
  ap_store :: store
  ap_sessions :: session_store
  ap_refreshes :: nat

text \<open>\<open>NewAPI\<close>; the store may be missing.\<close>

definition NewAPI :: "store option \<Rightarrow> duration \<Rightarrow> string + api" where
  "NewAPI st ttl = (case st of
       None \<Rightarrow> Inl ''a control store is required''
     | Some s \<Rightarrow> Inr \<lparr>ap_store = s, ap_sessions = NewSessionStore ttl, ap_refreshes = 0\<rparr>)"

record api_env =
  ae_mgmt :: mgmt_env
  ae_ctl :: control_env
  ae_valid :: "string \<Rightarrow> bool"
  ae_decLogin :: "string \<Rightarrow> (string \<times> string \<times> string) option"
  ae_decCode :: "string \<Rightarrow> string option"
  ae_decPassword :: "string \<Rightarrow> (string \<times> string) option"
  ae_decCreateUser :: "string \<Rightarrow> (string \<times> string \<times> scope list) option"
  ae_decTokenReq :: "string \<Rightarrow> (string \<times> scope list \<times> string) option"
  ae_ParseDuration :: "string \<Rightarrow> duration option"
  ae_Atoi :: "string \<Rightarrow> int option"
  ae_Hash :: "store \<Rightarrow> string"
  ae_refresh :: bool
  ae_issuer :: string
  ae_ui :: bool

record api_rand =
  rd_session :: "string option"
  rd_csrf :: "string option"
  rd_tokenID :: "string option"
  rd_secret :: "string option"
  rd_salt :: "bytes option"
  rd_totp :: "string option"

definition answer :: "nat \<Rightarrow> resp_body \<Rightarrow> mgmt_resp" where
  "answer code body = \<lparr>rp_Code = code, rp_Body = body, rp_Cookie = NoCookie, rp_Challenge = False\<rparr>"

definition writeError :: "nat \<Rightarrow> mgmt_resp" where
  "writeError code = answer code ErrorBody"

section \<open>Reading a request\<close>

definition readBody :: "api_env \<Rightarrow> mgmt_req \<Rightarrow> string option" where
  "readBody A r = (case mr_body r of
       BodyTooLarge \<Rightarrow> None
     | BodyErr \<Rightarrow> None
     | Body b \<Rightarrow> if b = [] then None else if \<not> ae_valid A b then None else Some b)"

definition bearer :: "mgmt_req \<Rightarrow> string option" where
  "bearer r = (let h = mr_Authorization r in
     if h = [] then None
     else case cut_at (CHR '' '') h of
         None \<Rightarrow> None
       | Some (scheme, rest) \<Rightarrow>
           if ToLower scheme \<noteq> ''bearer'' then None
           else let rest' = TrimSpace rest in if rest' = [] then None else Some rest')"

definition stateChanging :: "string \<Rightarrow> bool" where
  "stateChanging m \<longleftrightarrow> m \<notin> {''GET'', ''HEAD'', ''OPTIONS''}"

definition csrfOK :: "mgmt_req \<Rightarrow> session \<Rightarrow> bool" where
  "csrfOK r sess = (if \<not> stateChanging (mr_Method r) then True
     else if mr_CSRF r = [] then False
     else mr_CSRF r = se_csrf sess)"

definition sessionFrom :: "gtime \<Rightarrow> mgmt_req \<Rightarrow> session_store \<Rightarrow> (session \<times> string) option \<times> session_store" where
  "sessionFrom now r s = (case mr_cookie r of
       None \<Rightarrow> (None, s)
     | Some v \<Rightarrow> if v = [] then (None, s)
         else (case sess_Lookup now v s of (None, s') \<Rightarrow> (None, s') | (Some sess, s') \<Rightarrow> (Some (sess, v), s')))"

type_synonym handler_fn = "(session \<times> string) option \<Rightarrow> mgmt_req \<Rightarrow> api \<Rightarrow> mgmt_resp \<times> api"

definition guard_scope :: "api_env \<Rightarrow> gtime \<Rightarrow> scope \<Rightarrow> handler_fn \<Rightarrow> mgmt_req \<Rightarrow> api \<Rightarrow> mgmt_resp \<times> api" where
  "guard_scope A now want h r a =
     (if mr_local r then h None r a
      else let (found, ss) = sessionFrom now r (ap_sessions a); a1 = a\<lparr>ap_sessions := ss\<rparr> in
        case found of
          Some (sess, i) \<Rightarrow>
            if \<not> csrfOK r sess then (writeError 403, a1)
            else if \<not> scopesAllow (se_scopes sess) want then (writeError 403, a1)
            else h (Some (sess, i)) r a1
        | None \<Rightarrow> (case bearer r of
              None \<Rightarrow> ((writeError 401)\<lparr>rp_Challenge := True\<rparr>, a1)
            | Some presented \<Rightarrow> (case Verify (ae_mgmt A) (ap_store a1) presented now of
                  Inl _ \<Rightarrow> (writeError 401, a1)
                | Inr t \<Rightarrow> if \<not> token_Allows t want then (writeError 403, a1) else h None r a1)))"

section \<open>Records\<close>

definition handleStatus :: "api_env \<Rightarrow> handler_fn" where
  "handleStatus A c r a = (answer 200 (StatusBody (ae_Hash A (ap_store a)) (store_Version (ap_store a)) (length (store_Records (ap_store a)))), a)"

definition handleMetrics :: "handler_fn" where
  "handleMetrics c r a = (answer 200 MetricsBody, a)"

definition handleRefresh :: "api_env \<Rightarrow> handler_fn" where
  "handleRefresh A c r a = (if \<not> ae_refresh A then (writeError 501, a)
     else (answer 202 (TextBody ''refresh queued''), a\<lparr>ap_refreshes := ap_refreshes a + 1\<rparr>))"

definition handleRecords :: "api_env \<Rightarrow> handler_fn" where
  "handleRecords A c r a =
     (answer 200 (RecordsBody (map (\<lambda>x. if cr_Kind x = KindToken then x\<lparr>cr_Payload := []\<rparr> else x) (store_Records (ap_store a))) (ae_Hash A (ap_store a))), a)"

definition listRecords :: "record_kind \<Rightarrow> handler_fn" where
  "listRecords k c r a = (answer 200 (ListBody (map cr_Payload (filter (\<lambda>x. cr_Kind x = k) (store_Records (ap_store a))))), a)"

definition normaliseKey :: "control_env \<Rightarrow> record_kind \<Rightarrow> string \<Rightarrow> string" where
  "normaliseKey C k key0 = (let key = TrimSpace key0 in
     if k = KindSubscriber then (case ce_ParsePrefix C key of Some p \<Rightarrow> ce_PrefixString C (Masked p) | None \<Rightarrow> key)
     else if k = KindClass then ToLower key
     else key)"

definition record_for :: "record_kind \<Rightarrow> string \<Rightarrow> store \<Rightarrow> crecord option" where
  "record_for k key st = find (\<lambda>x. cr_Kind x = k \<and> cr_Key x = key) (store_Records st)"

definition getRecord :: "api_env \<Rightarrow> record_kind \<Rightarrow> handler_fn" where
  "getRecord A k c r a = (case record_for k (normaliseKey (ae_ctl A) k (mr_path r)) (ap_store a) of
       Some x \<Rightarrow> (answer 200 (RawBody (cr_Payload x)), a)
     | None \<Rightarrow> (writeError 404, a))"

definition writeRecord :: "api_env \<Rightarrow> gtime \<Rightarrow> record_kind \<Rightarrow> string \<Rightarrow> mgmt_req \<Rightarrow> api \<Rightarrow> mgmt_resp \<times> api" where
  "writeRecord A now k key0 r a = (case readBody A r of
       None \<Rightarrow> (writeError 400, a)
     | Some raw \<Rightarrow> (case Canonical (ae_ctl A) k raw of
           Inl _ \<Rightarrow> (writeError 400, a)
         | Inr body \<Rightarrow> (case KeyFor (ae_ctl A) k body of
               Inl _ \<Rightarrow> (writeError 400, a)
             | Inr derived \<Rightarrow>
                 let key = (if key0 = [] then derived else key0) in
                 if key \<noteq> derived then (writeError 400, a)
                 else (case store_Put now k key (Some body) (ap_store a) of
                     (Inl _, st) \<Rightarrow> (writeError 500, a\<lparr>ap_store := st\<rparr>)
                   | (Inr x, st) \<Rightarrow> (answer 200 (WriteBody (kind_String k) key (cr_Lamport x) (ae_Hash A st)), a\<lparr>ap_store := st\<rparr>)))))"

definition putRecord :: "api_env \<Rightarrow> gtime \<Rightarrow> record_kind \<Rightarrow> handler_fn" where
  "putRecord A now k c r a = writeRecord A now k (normaliseKey (ae_ctl A) k (mr_path r)) r a"

definition postRecord :: "api_env \<Rightarrow> gtime \<Rightarrow> record_kind \<Rightarrow> handler_fn" where
  "postRecord A now k c r a = writeRecord A now k [] r a"

definition deleteRecord :: "api_env \<Rightarrow> gtime \<Rightarrow> record_kind \<Rightarrow> handler_fn" where
  "deleteRecord A now k c r a =
     (let key = normaliseKey (ae_ctl A) k (mr_path r) in
      case record_for k key (ap_store a) of
        None \<Rightarrow> (writeError 404, a)
      | Some _ \<Rightarrow> let st = snd (store_Delete now k key (ap_store a)) in (answer 200 (DeleteBody key (ae_Hash A st)), a\<lparr>ap_store := st\<rparr>))"

section \<open>Tokens\<close>

definition handleListTokens :: "api_env \<Rightarrow> handler_fn" where
  "handleListTokens A c r a = (case ListTokens (ae_mgmt A) (ap_store a) of
       Inl _ \<Rightarrow> (writeError 500, a)
     | Inr ts \<Rightarrow> (answer 200 (TokensBody ts), a))"

definition token_ttl :: "api_env \<Rightarrow> string \<Rightarrow> duration option" where
  "token_ttl A s = (if s = [] then Some 0 else case ae_ParseDuration A s of None \<Rightarrow> None | Some d \<Rightarrow> if d \<le> 0 then None else Some d)"

definition handleCreateToken :: "api_env \<Rightarrow> gtime \<Rightarrow> api_rand \<Rightarrow> handler_fn" where
  "handleCreateToken A now rnd c r a = (case readBody A r of
       None \<Rightarrow> (writeError 400, a)
     | Some raw \<Rightarrow> (case ae_decTokenReq A raw of
           None \<Rightarrow> (writeError 400, a)
         | Some (name, scopes, ttl0) \<Rightarrow> (case token_ttl A ttl0 of
               None \<Rightarrow> (writeError 400, a)
             | Some ttl \<Rightarrow> (case Mint (ae_mgmt A) (rd_tokenID rnd) (rd_secret rnd) name scopes ttl now of
                   Inl _ \<Rightarrow> (writeError 400, a)
                 | Inr (t, secret) \<Rightarrow> (case SaveToken (ae_mgmt A) now t (ap_store a) of
                       (Some _, st) \<Rightarrow> (writeError 500, a\<lparr>ap_store := st\<rparr>)
                     | (None, st) \<Rightarrow> (answer 201 (MintedBody (tk_ID t) (tk_Name t) (tk_Scopes t) secret
                         (if tk_Expires t \<noteq> 0 then Some (tk_Expires t) else None)), a\<lparr>ap_store := st\<rparr>))))))"

definition handleRevokeToken :: "api_env \<Rightarrow> gtime \<Rightarrow> handler_fn" where
  "handleRevokeToken A now c r a = (case RevokeToken (ae_mgmt A) now (mr_path r) (ap_store a) of
       (Some e, _) \<Rightarrow> (writeError (if e = ErrTokenNotFound then 404 else 500), a)
     | (None, st) \<Rightarrow> (answer 200 (RevokeBody (mr_path r)), a\<lparr>ap_store := st\<rparr>))"

section \<open>Logging in\<close>

definition handleLogin :: "api_env \<Rightarrow> gtime \<Rightarrow> api_rand \<Rightarrow> mgmt_req \<Rightarrow> api \<Rightarrow> mgmt_resp \<times> api" where
  "handleLogin A now rnd r a = (case readBody A r of
       None \<Rightarrow> (writeError 400, a)
     | Some raw \<Rightarrow> (case ae_decLogin A raw of
           None \<Rightarrow> (writeError 400, a)
         | Some (name, password, code) \<Rightarrow> (case Authenticate (ae_mgmt A) (ap_store a) name password code now of
               Inl e \<Rightarrow> (if e = ErrTOTPRequired then answer 401 TOTPRequiredBody else writeError 401, a)
             | Inr u \<Rightarrow> (case sess_Create (rd_session rnd) (rd_csrf rnd) now u (ap_sessions a) of
                   (Inl _, ss) \<Rightarrow> (writeError 500, a\<lparr>ap_sessions := ss\<rparr>)
                 | (Inr (i, csrf), ss) \<Rightarrow>
                     let st = snd (SaveUser (ae_mgmt A) now (u\<lparr>us_LastLogin := now\<rparr>) (ap_store a))
                     in ((answer 200 (LoginBody (us_Name u) (us_Scopes u) csrf (us_TOTPConfirmed u)))\<lparr>rp_Cookie := SetCookie i (ss_ttl ss)\<rparr>,
                         a\<lparr>ap_sessions := ss, ap_store := st\<rparr>)))))"

definition handleLogout :: "handler_fn" where
  "handleLogout c r a =
     ((answer 200 (TextBody ''logged out''))\<lparr>rp_Cookie := ClearCookie\<rparr>,
      case c of None \<Rightarrow> a | Some (_, i) \<Rightarrow> a\<lparr>ap_sessions := sess_Destroy i (ap_sessions a)\<rparr>)"

definition handleMe :: "api_env \<Rightarrow> handler_fn" where
  "handleMe A c r a = (case c of
       None \<Rightarrow> (answer 200 (IdentityBody ''token'' [] [] False), a)
     | Some (sess, _) \<Rightarrow> (answer 200 (IdentityBody ''session'' (se_user sess) (se_scopes sess)
         (case LoadUser (ae_mgmt A) (ap_store a) (se_user sess) of Inl _ \<Rightarrow> False | Inr u \<Rightarrow> us_TOTPConfirmed u)), a))"

definition escape_char :: "char \<Rightarrow> string" where
  "escape_char c = (if c = CHR '' '' then ''%20'' else if c = CHR '':'' then ''%3A'' else if c = CHR ''/'' then ''%2F''
     else if c = CHR ''?'' then ''%3F'' else if c = CHR ''#'' then ''%23'' else if c = CHR ''&'' then ''%26'' else [c])"

definition urlEscape :: "string \<Rightarrow> string" where
  "urlEscape s = concat (map escape_char s)"

definition TOTPURI :: "string \<Rightarrow> string \<Rightarrow> string \<Rightarrow> string" where
  "TOTPURI issuer user secret = ''otpauth://totp/'' @ urlEscape (issuer @ '':'' @ user) @ ''?secret='' @ secret @ ''&issuer='' @ urlEscape issuer
     @ ''&algorithm=SHA1&digits=6&period=30''"

definition saved :: "mgmt_error option \<times> store \<Rightarrow> mgmt_resp \<Rightarrow> api \<Rightarrow> mgmt_resp \<times> api" where
  "saved res ok a = (case res of (Some _, st) \<Rightarrow> (writeError 500, a\<lparr>ap_store := st\<rparr>) | (None, st) \<Rightarrow> (ok, a\<lparr>ap_store := st\<rparr>))"

definition handleTOTPEnrol :: "api_env \<Rightarrow> gtime \<Rightarrow> api_rand \<Rightarrow> handler_fn" where
  "handleTOTPEnrol A now rnd c r a = (case c of
       None \<Rightarrow> (writeError 403, a)
     | Some (sess, _) \<Rightarrow> (case LoadUser (ae_mgmt A) (ap_store a) (se_user sess) of
           Inl _ \<Rightarrow> (writeError 404, a)
         | Inr u \<Rightarrow>
             if us_TOTPConfirmed u then (writeError 409, a)
             else (case rd_totp rnd of
                 None \<Rightarrow> (writeError 500, a)
               | Some secret \<Rightarrow> saved (SaveUser (ae_mgmt A) now (u\<lparr>us_TOTPSecret := secret, us_TOTPConfirmed := False\<rparr>) (ap_store a))
                   (answer 200 (EnrolmentBody secret (TOTPURI (ae_issuer A) (us_Name u) secret))) a)))"

definition digitsOnly :: "api_env \<Rightarrow> string \<Rightarrow> bool" where
  "digitsOnly A s = (if s = [] then False else ae_Atoi A s \<noteq> None)"

definition handleTOTPConfirm :: "api_env \<Rightarrow> gtime \<Rightarrow> handler_fn" where
  "handleTOTPConfirm A now c r a = (case c of
       None \<Rightarrow> (writeError 403, a)
     | Some (sess, _) \<Rightarrow> (case readBody A r of
           None \<Rightarrow> (writeError 400, a)
         | Some raw \<Rightarrow> (case ae_decCode A raw of
               None \<Rightarrow> (writeError 400, a)
             | Some code \<Rightarrow> (case LoadUser (ae_mgmt A) (ap_store a) (se_user sess) of
                   Inl _ \<Rightarrow> (writeError 404, a)
                 | Inr u \<Rightarrow>
                     if us_TOTPSecret u = [] then (writeError 400, a)
                     else if \<not> digitsOnly A code \<or> \<not> VerifyTOTP (ae_mgmt A) (us_TOTPSecret u) code now then (writeError 401, a)
                     else saved (SaveUser (ae_mgmt A) now (u\<lparr>us_TOTPConfirmed := True\<rparr>) (ap_store a)) (answer 200 (TextBody ''totp_enrolled'')) a))))"

definition handleChangePassword :: "api_env \<Rightarrow> gtime \<Rightarrow> api_rand \<Rightarrow> handler_fn" where
  "handleChangePassword A now rnd c r a = (case c of
       None \<Rightarrow> (writeError 403, a)
     | Some (sess, _) \<Rightarrow> (case readBody A r of
           None \<Rightarrow> (writeError 400, a)
         | Some raw \<Rightarrow> (case ae_decPassword A raw of
               None \<Rightarrow> (writeError 400, a)
             | Some (current, new) \<Rightarrow> (case LoadUser (ae_mgmt A) (ap_store a) (se_user sess) of
                   Inl _ \<Rightarrow> (writeError 404, a)
                 | Inr u \<Rightarrow>
                     if \<not> VerifyPassword (ae_mgmt A) (us_Hash u) current then (writeError 401, a)
                     else (case HashPassword (ae_mgmt A) (rd_salt rnd) new of
                         Inl _ \<Rightarrow> (writeError 400, a)
                       | Inr hash \<Rightarrow> (case SaveUser (ae_mgmt A) now (u\<lparr>us_Hash := hash\<rparr>) (ap_store a) of
                             (Some _, st) \<Rightarrow> (writeError 500, a\<lparr>ap_store := st\<rparr>)
                           | (None, st) \<Rightarrow> ((answer 200 (TextBody ''password changed, log in again''))\<lparr>rp_Cookie := ClearCookie\<rparr>,
                               a\<lparr>ap_store := st, ap_sessions := snd (DestroyUser (us_Name u) (ap_sessions a))\<rparr>)))))))"

section \<open>Accounts\<close>

definition handleListUsers :: "api_env \<Rightarrow> handler_fn" where
  "handleListUsers A c r a = (case ListUsers (ae_mgmt A) (ap_store a) of
       Inl _ \<Rightarrow> (writeError 500, a)
     | Inr us \<Rightarrow> (answer 200 (UsersBody us), a))"

definition handleCreateUser :: "api_env \<Rightarrow> gtime \<Rightarrow> api_rand \<Rightarrow> handler_fn" where
  "handleCreateUser A now rnd c r a = (case readBody A r of
       None \<Rightarrow> (writeError 400, a)
     | Some raw \<Rightarrow> (case ae_decCreateUser A raw of
           None \<Rightarrow> (writeError 400, a)
         | Some (name, password, scopes0) \<Rightarrow>
             let scopes = (if scopes0 = [] then [ScopeRead] else scopes0) in
             case HashPassword (ae_mgmt A) (rd_salt rnd) password of
               Inl _ \<Rightarrow> (writeError 400, a)
             | Inr hash \<Rightarrow> (case SaveUser (ae_mgmt A) now \<lparr>us_Name = name, us_Hash = hash, us_Scopes = scopes, us_TOTPSecret = [], us_TOTPConfirmed = False,
                     us_Disabled = False, us_Created = now, us_LastLogin = 0\<rparr> (ap_store a) of
                   (Some _, st) \<Rightarrow> (writeError 400, a\<lparr>ap_store := st\<rparr>)
                 | (None, st) \<Rightarrow> (answer 201 (CreatedBody (user_key name) scopes), a\<lparr>ap_store := st\<rparr>))))"

definition isLastAdmin :: "mgmt_env \<Rightarrow> store \<Rightarrow> string \<Rightarrow> mgmt_error + bool" where
  "isLastAdmin M st name = (case ListUsers M st of
       Inl e \<Rightarrow> Inl e
     | Inr us \<Rightarrow>
         let admins = filter (\<lambda>u. \<not> (us_Disabled u \<or> \<not> scopesAllow (us_Scopes u) ScopeAdmin)) us
         in Inr (list_ex (\<lambda>u. us_Name u = name) admins \<and> length admins = 1))"

definition handleDeleteUser :: "api_env \<Rightarrow> gtime \<Rightarrow> handler_fn" where
  "handleDeleteUser A now c r a =
     (let name = user_key (mr_path r) in
      if isLastAdmin (ae_mgmt A) (ap_store a) name = Inr True then (writeError 409, a)
      else case DeleteUser (ae_mgmt A) now name (ap_store a) of
          (Some e, _) \<Rightarrow> (writeError (if e = ErrUserNotFound then 404 else 500), a)
        | (None, st) \<Rightarrow> (answer 200 (TextBody name), a\<lparr>ap_store := st, ap_sessions := snd (DestroyUser name (ap_sessions a))\<rparr>))"

section \<open>Routes\<close>

datatype kind_path = Subscribers | Overrides | Feeds | Classes

fun kindPaths :: "kind_path \<Rightarrow> record_kind" where
  "kindPaths Subscribers = KindSubscriber"
| "kindPaths Overrides = KindOverride"
| "kindPaths Feeds = KindFeed"
| "kindPaths Classes = KindClass"

datatype route = GetStatus | GetMetrics | GetRecords | GetList kind_path | GetRecord kind_path | PutRecord kind_path | PostRecord kind_path
  | DeleteRecord kind_path | PostLogin | PostLogout | GetMe | PostTOTP | PostTOTPConfirm | PostPassword | GetUsers | PostUser | DeleteUserPath
  | PostRefresh | GetTokens | PostToken | DeleteToken | AnyOther

fun api_Handler :: "api_env \<Rightarrow> gtime \<Rightarrow> api_rand \<Rightarrow> route \<Rightarrow> mgmt_req \<Rightarrow> api \<Rightarrow> mgmt_resp \<times> api" where
  "api_Handler A now rnd GetStatus r a = guard_scope A now ScopeRead (handleStatus A) r a"
| "api_Handler A now rnd GetMetrics r a = guard_scope A now ScopeRead handleMetrics r a"
| "api_Handler A now rnd GetRecords r a = guard_scope A now ScopeRead (handleRecords A) r a"
| "api_Handler A now rnd (GetList p) r a = guard_scope A now ScopeRead (listRecords (kindPaths p)) r a"
| "api_Handler A now rnd (GetRecord p) r a = guard_scope A now ScopeRead (getRecord A (kindPaths p)) r a"
| "api_Handler A now rnd (PutRecord p) r a = guard_scope A now ScopeWrite (putRecord A now (kindPaths p)) r a"
| "api_Handler A now rnd (PostRecord p) r a = guard_scope A now ScopeWrite (postRecord A now (kindPaths p)) r a"
| "api_Handler A now rnd (DeleteRecord p) r a = guard_scope A now ScopeWrite (deleteRecord A now (kindPaths p)) r a"
| "api_Handler A now rnd PostLogin r a = handleLogin A now rnd r a"
| "api_Handler A now rnd PostLogout r a = guard_scope A now ScopeRead handleLogout r a"
| "api_Handler A now rnd GetMe r a = guard_scope A now ScopeRead (handleMe A) r a"
| "api_Handler A now rnd PostTOTP r a = guard_scope A now ScopeRead (handleTOTPEnrol A now rnd) r a"
| "api_Handler A now rnd PostTOTPConfirm r a = guard_scope A now ScopeRead (handleTOTPConfirm A now) r a"
| "api_Handler A now rnd PostPassword r a = guard_scope A now ScopeRead (handleChangePassword A now rnd) r a"
| "api_Handler A now rnd GetUsers r a = guard_scope A now ScopeAdmin (handleListUsers A) r a"
| "api_Handler A now rnd PostUser r a = guard_scope A now ScopeAdmin (handleCreateUser A now rnd) r a"
| "api_Handler A now rnd DeleteUserPath r a = guard_scope A now ScopeAdmin (handleDeleteUser A now) r a"
| "api_Handler A now rnd PostRefresh r a = guard_scope A now ScopeWrite (handleRefresh A) r a"
| "api_Handler A now rnd GetTokens r a = guard_scope A now ScopeAdmin (handleListTokens A) r a"
| "api_Handler A now rnd PostToken r a = guard_scope A now ScopeAdmin (handleCreateToken A now rnd) r a"
| "api_Handler A now rnd DeleteToken r a = guard_scope A now ScopeAdmin (handleRevokeToken A now) r a"
| "api_Handler A now rnd AnyOther r a = (if ae_ui A then answer 200 (TextBody ''console'') else writeError 404, a)"

end
