(* ===== verification/Mgmt_Correct.thy ===== *)
theory Mgmt_Correct
  imports Mgmt_API
begin

text \<open>
  What the management plane guarantees. Nothing behind the guard happens without authority, and no scope reaches beyond its records. Tokens verify exactly as
  minted and stay revoked under replication. A login needs the account's credentials. Deleting an account or changing its password ends its
  sessions. Two ways in which the code falls short are proved as well.
\<close>

section \<open>Who may do what\<close>

definition live_session :: "api \<Rightarrow> gtime \<Rightarrow> mgmt_req \<Rightarrow> session \<Rightarrow> bool" where
  "live_session a now r sess \<longleftrightarrow> (\<exists>v. mr_cookie r = Some v \<and> v \<noteq> [] \<and> fmlookup (ss_sessions (ap_sessions a)) v = Some sess \<and> now < se_expires sess)"

definition live_token :: "mgmt_env \<Rightarrow> store \<Rightarrow> gtime \<Rightarrow> string \<Rightarrow> token \<Rightarrow> bool" where
  "live_token M st now p t \<longleftrightarrow> (\<exists>i secret x. splitPresented p = Some (i, secret) \<and> x \<in> set (store_Records st) \<and> cr_Kind x = KindToken \<and> cr_Key x = i
     \<and> mg_decToken M (cr_Payload x) = Some t \<and> mg_sha256hex M secret = tk_Hash t \<and> (tk_Expires t = 0 \<or> now \<le> tk_Expires t))"

definition authorised :: "api_env \<Rightarrow> api \<Rightarrow> gtime \<Rightarrow> mgmt_req \<Rightarrow> scope \<Rightarrow> bool" where
  "authorised A a now r want \<longleftrightarrow> mr_local r
     \<or> (\<exists>sess. live_session a now r sess \<and> (stateChanging (mr_Method r) \<longrightarrow> mr_CSRF r = se_csrf sess \<and> mr_CSRF r \<noteq> []) \<and> scopesAllow (se_scopes sess) want)
     \<or> (\<exists>p t. bearer r = Some p \<and> live_token (ae_mgmt A) (ap_store a) now p t \<and> token_Allows t want)"

text \<open>The scope a route asks for; logging in and the console ask for none.\<close>

fun required :: "route \<Rightarrow> scope option" where
  "required (PutRecord _) = Some ScopeWrite" | "required (PostRecord _) = Some ScopeWrite" | "required (DeleteRecord _) = Some ScopeWrite"
| "required PostRefresh = Some ScopeWrite"
| "required GetUsers = Some ScopeAdmin" | "required PostUser = Some ScopeAdmin" | "required DeleteUserPath = Some ScopeAdmin"
| "required GetTokens = Some ScopeAdmin" | "required PostToken = Some ScopeAdmin" | "required DeleteToken = Some ScopeAdmin"
| "required PostLogin = None" | "required AnyOther = None"
| "required _ = Some ScopeRead"

lemma Verify_live: "Verify M st p now = Inr t \<Longrightarrow> live_token M st now p t"
  by (auto simp: Verify_def live_token_def LoadToken_def hashSecret_def find_Some_iff not_less split: option.splits sum.splits prod.splits if_splits)
    (metis nth_mem)+

lemma sessionFrom_live:
  "sessionFrom now r (ap_sessions a) = (found, ss) \<Longrightarrow>
    (\<forall>sess i. found = Some (sess, i) \<longrightarrow> live_session a now r sess) \<and> fmlookup (ss_sessions ss) \<subseteq>\<^sub>m fmlookup (ss_sessions (ap_sessions a))"
  by (auto simp: sessionFrom_def sess_Lookup_def sess_Destroy_def Let_def live_session_def map_le_def split: option.splits if_splits)

lemma guard_cases [consumes 1, case_names ran refused]:
  assumes g: "guard_scope A now want h r a = (resp, a')"
    and run: "\<And>c a1. authorised A a now r want \<Longrightarrow> h c r a1 = (resp, a') \<Longrightarrow> ap_store a1 = ap_store a \<Longrightarrow> ap_refreshes a1 = ap_refreshes a \<Longrightarrow>
      fmlookup (ss_sessions (ap_sessions a1)) \<subseteq>\<^sub>m fmlookup (ss_sessions (ap_sessions a)) \<Longrightarrow> P"
    and refused: "rp_Code resp \<in> {401, 403} \<Longrightarrow> rp_Body resp = ErrorBody \<Longrightarrow> ap_store a' = ap_store a \<Longrightarrow> ap_refreshes a' = ap_refreshes a \<Longrightarrow>
      fmlookup (ss_sessions (ap_sessions a')) \<subseteq>\<^sub>m fmlookup (ss_sessions (ap_sessions a)) \<Longrightarrow> P"
  shows P
proof (cases "mr_local r")
  case True
  with g show ?thesis by (intro run [of None a]) (simp_all add: guard_scope_def authorised_def)
next
  case False
  obtain found ss where sf: "sessionFrom now r (ap_sessions a) = (found, ss)" by (cases "sessionFrom now r (ap_sessions a)")
  note live = sessionFrom_live [OF sf]
  let ?a1 = "a\<lparr>ap_sessions := ss\<rparr>"
  show ?thesis
  proof (cases found)
    case (Some f)
    obtain sess i where f: "f = (sess, i)" by (cases f)
    show ?thesis
    proof (cases "csrfOK r sess \<and> scopesAllow (se_scopes sess) want")
      case True
      then have "authorised A a now r want" using live Some f by (auto simp: authorised_def csrfOK_def split: if_splits)
      moreover have "h (Some (sess, i)) r ?a1 = (resp, a')" using g False sf Some f True by (simp add: guard_scope_def)
      ultimately show ?thesis using live by (intro run [of "Some (sess, i)" ?a1]) simp_all
    next
      case no: False
      then have "resp = writeError 403" "a' = ?a1" using g False sf Some f by (auto simp: guard_scope_def Let_def split: if_splits)
      then show ?thesis using live by (intro refused) (simp_all add: writeError_def answer_def)
    qed
  next
    case None
    show ?thesis
    proof (cases "\<exists>p t. bearer r = Some p \<and> Verify (ae_mgmt A) (ap_store a) p now = Inr t \<and> token_Allows t want")
      case True
      then obtain p t where t: "bearer r = Some p" "Verify (ae_mgmt A) (ap_store a) p now = Inr t" "token_Allows t want" by blast
      then have "authorised A a now r want" using Verify_live by (auto simp: authorised_def)
      moreover have "h None r ?a1 = (resp, a')" using g False sf None t by (simp add: guard_scope_def)
      ultimately show ?thesis using live by (intro run [of None ?a1]) simp_all
    next
      case no: False
      then have "rp_Code resp \<in> {401, 403} \<and> rp_Body resp = ErrorBody \<and> a' = ?a1"
        using g False sf None by (auto simp: guard_scope_def Let_def writeError_def answer_def split: option.splits sum.splits if_splits)
      then show ?thesis using live by (intro refused) simp_all
    qed
  qed
qed

lemma Handler_guarded: "required rt = Some want \<Longrightarrow> \<exists>h. api_Handler A now rnd rt r a = guard_scope A now want h r a"
  by (cases rt) auto

text \<open>C6. Nothing behind the guard happens without authority: a request that did not come over the local socket and carries neither a live session with the
  scope of the route (and, for a method that changes state, its CSRF token) nor a live, unexpired token with it, is refused with 401 or 403 and an empty error, on every route
  but login and the console; the store and the feeds are as they were and no session is created.\<close>

theorem unauthorised_refused:
  assumes "required rt = Some want" and "\<not> authorised A a now r want" and "api_Handler A now rnd rt r a = (resp, a')"
  shows "rp_Code resp \<in> {401, 403} \<and> rp_Body resp = ErrorBody \<and> ap_store a' = ap_store a \<and> ap_refreshes a' = ap_refreshes a
    \<and> fmlookup (ss_sessions (ap_sessions a')) \<subseteq>\<^sub>m fmlookup (ss_sessions (ap_sessions a))"
proof -
  obtain h where "guard_scope A now want h r a = (resp, a')" using Handler_guarded [OF assms(1)] assms(3) by metis
  then show ?thesis using assms(2) by (cases rule: guard_cases) simp_all
qed

section \<open>What a scope reaches\<close>

lemma make_ID_inj: "make_ID k key = make_ID k' key' \<longleftrightarrow> k = k' \<and> key = key'"
proof -
  let ?r = "\<lambda>k key. \<lparr>cr_Kind = k, cr_Key = key, cr_Lamport = 0, cr_Origin = [], cr_Deleted = False, cr_Updated = 0, cr_Payload = []\<rparr>"
  show ?thesis using record_ID_injective [of "?r k key" "?r k' key'"] by (simp add: cr_ID_def)
qed

text \<open>Only records of kind \<open>k\<close> differ.\<close>

definition touches :: "record_kind \<Rightarrow> store \<Rightarrow> store \<Rightarrow> bool" where
  "touches k st st' \<longleftrightarrow> (\<forall>k' key. k' \<noteq> k \<longrightarrow> view st' (make_ID k' key) = view st (make_ID k' key))"

lemma touches_refl [simp]: "touches k st st"
  by (simp add: touches_def)

lemma touches_Put [simp]: "touches k st (snd (store_Put now k key pl st))"
  by (auto simp: touches_def store_Put_def Let_def cr_ID_def make_ID_inj split: option.splits)

lemma touches_Delete [simp]: "touches k st (snd (store_Delete now k key st))"
  by (auto simp: touches_def store_Delete_def Let_def cr_ID_def make_ID_inj)

lemma touches_PutD: "store_Put now k key pl st = (x, st') \<Longrightarrow> touches k st st'"
  using touches_Put [of k st now key pl] by simp

lemma touches_SaveUser [simp]: "touches KindUser st (snd (SaveUser M now u st))"
  by (auto simp: SaveUser_def Let_def dest: touches_PutD split: option.splits sum.splits prod.splits)

lemma touches_SaveUserD: "SaveUser M now u st = (x, st') \<Longrightarrow> touches KindUser st st'"
  using touches_SaveUser [of st M now u] by simp

lemma touches_SaveToken: "SaveToken M now t st = (x, st') \<Longrightarrow> touches KindToken st st'"
  by (auto simp: SaveToken_def dest: touches_PutD split: sum.splits prod.splits)

lemma writeRecord_touches: "writeRecord A now k key r a = (resp, a') \<Longrightarrow> touches k (ap_store a) (ap_store a')"
  by (auto simp: writeRecord_def Let_def dest: touches_PutD split: option.splits sum.splits prod.splits if_splits)

lemma deleteRecord_touches: "deleteRecord A now k c r a = (resp, a') \<Longrightarrow> touches k (ap_store a) (ap_store a')"
  by (auto simp: deleteRecord_def Let_def split: option.splits)

lemma saved_store: "saved res ok a = (resp, a') \<Longrightarrow> ap_store a' = snd res"
  by (auto simp: saved_def split: prod.splits option.splits)

lemma enrol_touches: "handleTOTPEnrol A now rnd c r a = (resp, a') \<Longrightarrow> touches KindUser (ap_store a) (ap_store a')"
  by (auto simp: handleTOTPEnrol_def dest!: saved_store split: option.splits sum.splits if_splits)

lemma confirm_touches: "handleTOTPConfirm A now c r a = (resp, a') \<Longrightarrow> touches KindUser (ap_store a) (ap_store a')"
  by (auto simp: handleTOTPConfirm_def dest!: saved_store split: option.splits sum.splits if_splits)

lemma password_touches: "handleChangePassword A now rnd c r a = (resp, a') \<Longrightarrow> touches KindUser (ap_store a) (ap_store a')"
  by (auto simp: handleChangePassword_def dest: touches_SaveUserD split: option.splits sum.splits prod.splits if_splits)

lemma login_touches: "handleLogin A now rnd r a = (resp, a') \<Longrightarrow> touches KindUser (ap_store a) (ap_store a')"
  by (auto simp: handleLogin_def Let_def split: option.splits sum.splits prod.splits)

lemmas reading_defs = handleStatus_def handleMetrics_def handleRecords_def listRecords_def getRecord_def handleMe_def handleLogout_def handleRefresh_def

lemma guard_touches:
  "guard_scope A now want h r a = (resp, a') \<Longrightarrow> (\<And>c a1 resp a'. h c r a1 = (resp, a') \<Longrightarrow> touches k (ap_store a1) (ap_store a'))
    \<Longrightarrow> touches k (ap_store a) (ap_store a')"
  by (erule guard_cases) (metis, simp)

lemma guard_quiet:
  "guard_scope A now want h r a = (resp, a') \<Longrightarrow> (\<And>c a1 resp a'. h c r a1 = (resp, a') \<Longrightarrow> ap_store a' = ap_store a1) \<Longrightarrow> ap_store a' = ap_store a"
  by (erule guard_cases) (metis, simp)

lemma reading_quiet:
  assumes "rt \<in> {GetStatus, GetMetrics, GetRecords, GetMe, PostLogout, PostRefresh} \<union> range GetList \<union> range GetRecord" and "api_Handler A now rnd rt r a = (resp, a')"
  shows "ap_store a' = ap_store a"
  using assms by (auto elim!: guard_quiet simp: reading_defs split: option.splits if_splits)

lemma read_touches:
  assumes "required rt \<in> {Some ScopeRead, None}" and "api_Handler A now rnd rt r a = (resp, a')"
  shows "touches KindUser (ap_store a) (ap_store a')"
proof (cases "rt \<in> {GetStatus, GetMetrics, GetRecords, GetMe, PostLogout, PostRefresh} \<union> range GetList \<union> range GetRecord")
  case True
  from reading_quiet [OF this assms(2)] show ?thesis by simp
next
  case False
  then consider "rt = PostTOTP" | "rt = PostTOTPConfirm" | "rt = PostPassword" | "rt = PostLogin" | "rt = AnyOther"
    using assms(1) by (cases rt) (auto simp: scope_defs)
  then show ?thesis
  proof cases
    case 1
    with assms(2) have "guard_scope A now ScopeRead (handleTOTPEnrol A now rnd) r a = (resp, a')" by simp
    then show ?thesis by (rule guard_touches) (rule enrol_touches)
  next
    case 2
    with assms(2) have "guard_scope A now ScopeRead (handleTOTPConfirm A now) r a = (resp, a')" by simp
    then show ?thesis by (rule guard_touches) (rule confirm_touches)
  next
    case 3
    with assms(2) have "guard_scope A now ScopeRead (handleChangePassword A now rnd) r a = (resp, a')" by simp
    then show ?thesis by (rule guard_touches) (rule password_touches)
  qed (use assms(2) login_touches in auto)
qed

lemma write_touches:
  assumes "required rt = Some ScopeWrite" and "api_Handler A now rnd rt r a = (resp, a')"
  shows "\<exists>p. touches (kindPaths p) (ap_store a) (ap_store a')"
proof -
  consider p where "rt = PutRecord p" | p where "rt = PostRecord p" | p where "rt = DeleteRecord p" | "rt = PostRefresh"
    using assms(1) by (cases rt) (auto simp: scope_defs)
  then show ?thesis
  proof cases
    case (1 p)
    with assms(2) have "guard_scope A now ScopeWrite (putRecord A now (kindPaths p)) r a = (resp, a')" by simp
    then have "touches (kindPaths p) (ap_store a) (ap_store a')" by (rule guard_touches) (simp add: putRecord_def writeRecord_touches)
    then show ?thesis ..
  next
    case (2 p)
    with assms(2) have "guard_scope A now ScopeWrite (postRecord A now (kindPaths p)) r a = (resp, a')" by simp
    then have "touches (kindPaths p) (ap_store a) (ap_store a')" by (rule guard_touches) (simp add: postRecord_def writeRecord_touches)
    then show ?thesis ..
  next
    case (3 p)
    with assms(2) have "guard_scope A now ScopeWrite (deleteRecord A now (kindPaths p)) r a = (resp, a')" by simp
    then have "touches (kindPaths p) (ap_store a) (ap_store a')" by (rule guard_touches) (rule deleteRecord_touches)
    then show ?thesis ..
  next
    case 4
    then have "ap_store a' = ap_store a" using reading_quiet [OF _ assms(2)] by simp
    then show ?thesis by simp
  qed
qed

text \<open>C13. Privileges are separated: a request a reader may make changes no record but accounts (the caller's own login, password and second factor), and one that
  takes the write scope leaves every account and every token as it is, so only the admin scope reaches credentials.\<close>

theorem scope_confined:
  assumes "api_Handler A now rnd rt r a = (resp, a')"
  shows "(required rt = Some ScopeRead \<or> required rt = None \<longrightarrow> (\<forall>k key. k \<noteq> KindUser \<longrightarrow> view (ap_store a') (make_ID k key) = view (ap_store a) (make_ID k key)))
    \<and> (required rt = Some ScopeWrite \<longrightarrow> (\<forall>k \<in> {KindToken, KindUser}. \<forall>key. view (ap_store a') (make_ID k key) = view (ap_store a) (make_ID k key)))"
proof (intro conjI impI)
  assume "required rt = Some ScopeRead \<or> required rt = None"
  then show "\<forall>k key. k \<noteq> KindUser \<longrightarrow> view (ap_store a') (make_ID k key) = view (ap_store a) (make_ID k key)"
    using read_touches [OF _ assms] by (auto simp: touches_def)
next
  assume "required rt = Some ScopeWrite"
  from write_touches [OF this assms] obtain p where "touches (kindPaths p) (ap_store a) (ap_store a')" by blast
  moreover have "kindPaths p \<noteq> KindToken" "kindPaths p \<noteq> KindUser"
    by (cases p; simp add: KindSubscriber_def KindOverride_def KindFeed_def KindClass_def KindToken_def KindUser_def)+
  ultimately show "\<forall>k \<in> {KindToken, KindUser}. \<forall>key. view (ap_store a') (make_ID k key) = view (ap_store a) (make_ID k key)"
    by (auto simp: touches_def)
qed

section \<open>Tokens\<close>

lemma find_record:
  assumes "keyed st"
  shows "find (\<lambda>r. cr_Kind r = k \<and> cr_Key r = key) (store_Records st)
    = (case view st (make_ID k key) of Some r \<Rightarrow> if cr_Deleted r then None else Some r | None \<Rightarrow> None)"
proof -
  have in_store: "r \<in> set (store_Records st) \<and> cr_Kind r = k \<and> cr_Key r = key \<longleftrightarrow> view st (make_ID k key) = Some r \<and> \<not> cr_Deleted r" for r
  proof -
    have "view st x = Some r \<Longrightarrow> x = make_ID (cr_Kind r) (cr_Key r)" for x using assms by (auto simp: keyed_def cr_ID_def)
    then show ?thesis by (auto simp: store_Records_def set_recordsLive ran_def make_ID_inj) (metis make_ID_inj)+
  qed
  show ?thesis
  proof (cases "find (\<lambda>r. cr_Kind r = k \<and> cr_Key r = key) (store_Records st)")
    case None
    then show ?thesis using in_store by (auto simp: find_None_iff split: option.split)
  next
    case (Some r)
    then have "r \<in> set (store_Records st) \<and> cr_Kind r = k \<and> cr_Key r = key" by (auto simp: find_Some_iff)
    then show ?thesis using in_store Some by simp
  qed
qed

lemma cut_at_append: "c \<notin> set xs \<Longrightarrow> cut_at c (xs @ c # ys) = Some (xs, ys)"
  by (induction xs) (auto simp: cut_at_def)

lemma split_minted: "CHR ''.'' \<notin> set i \<Longrightarrow> i \<noteq> [] \<Longrightarrow> secret \<noteq> [] \<Longrightarrow> splitPresented (i @ ''.'' @ secret) = Some (i, secret)"
  using cut_at_append [of "CHR ''.''" i secret] by (simp add: splitPresented_def)

lemma Put_stored_record:
  assumes "keyed st" and "store_Put now k key (Some raw) st = (x, st')"
  shows "keyed st' \<and> (\<exists>r. view st' (make_ID k key) = Some r \<and> \<not> cr_Deleted r \<and> cr_Payload r = raw)"
  using assms by (auto simp: store_Put_def Let_def keyed_def cr_ID_def split: if_splits)

text \<open>A minted token is good for exactly its lifetime and only with its secret: once saved, the string handed to the operator verifies as that token until the
  expiry the token was minted with, or for ever when it has none, and reports expiry after; any other secret under the same identity is unknown unless it has the same
  hash.\<close>

theorem minted_token_verifies:
  assumes "Mint M (Some i) (Some secret) name scopes ttl now = Inr (t, p)" and "i \<noteq> []" and "secret \<noteq> []" and "CHR ''.'' \<notin> set i"
    and "mg_encToken M t = Some raw" and "mg_decToken M raw = Some t" and "keyed st" and "SaveToken M now t st = (None, st')" and "0 \<le> now"
  shows "Verify M st' p now' = (if 0 < ttl \<and> now + ttl < now' then Inl ErrTokenExpired else Inr t)
    \<and> (\<forall>other. other \<noteq> [] \<and> mg_sha256hex M other \<noteq> mg_sha256hex M secret \<longrightarrow> Verify M st' (i @ ''.'' @ other) now' = Inl ErrTokenNotFound)"
proof -
  have t: "tk_ID t = i" "tk_Hash t = mg_sha256hex M secret" "tk_Expires t = (if ttl > 0 then now + ttl else 0)" "p = i @ ''.'' @ secret"
    using assms(1) by (auto simp: Mint_def hashSecret_def split: if_splits option.splits)
  obtain x where "store_Put now KindToken i (Some raw) st = (x, st')"
    using assms(5,8) t(1) by (auto simp: SaveToken_def split: sum.splits prod.splits)
  from Put_stored_record [OF assms(7) this] obtain r where r: "keyed st'" "view st' (make_ID KindToken i) = Some r" "\<not> cr_Deleted r" "cr_Payload r = raw" by blast
  have l: "LoadToken M st' i = Inr t" unfolding LoadToken_def find_record [OF r(1)] using r assms(6) by simp
  have "splitPresented (i @ ''.'' @ s) = Some (i, s)" if "s \<noteq> []" for s using split_minted [OF assms(4,2) that] .
  then show ?thesis using l t assms(3,9) by (auto simp: Verify_def hashSecret_def)
qed

text \<open>C17. A revoked token stays revoked: after \<open>RevokeToken\<close> succeeds on a store in any reachable state, no batch of records the sibling sends that
  was written before the revocation, in any order, makes any string with that identity verify again.\<close>

theorem revoked_stays_revoked:
  assumes "store_reach st" and "st_lamport st \<noteq> - 1" and "RevokeToken M now i st = (None, st')"
    and "\<forall>r \<in> set rs. cr_Lamport r \<le> st_lamport st" and "splitPresented p = Some (i, secret)"
  shows "Verify M (snd (store_Merge rs st')) p now' = Inl ErrTokenNotFound"
proof -
  let ?d = "fst (store_Delete now KindToken i st)"
  have st': "st' = snd (store_Delete now KindToken i st)" using assms(3) by (auto simp: RevokeToken_def split: sum.splits)
  have k: "keyed st'" using reach_store_ok [OF sr_Delete [OF assms(1,2)]] st' by simp
  have d: "view st' (make_ID KindToken i) = Some ?d" "cr_Deleted ?d" "cr_Lamport ?d = st_lamport st + 1"
    unfolding st' by (simp_all add: store_Delete_def Let_def cr_ID_def)
  have "\<forall>r \<in> set rs. cr_Lamport r < cr_Lamport ?d" using assms(4) d(3) lamport_next [OF assms(2)] by (metis le_less_trans)
  then have "view (snd (store_Merge rs st')) (make_ID KindToken i) = Some ?d" by (rule newest_survives [OF k d(1)])
  then have "LoadToken M (snd (store_Merge rs st')) i = Inl ErrTokenNotFound"
    unfolding LoadToken_def find_record [OF merge_keyed [OF k]] using d(2) by simp
  then show ?thesis using assms(5) by (simp add: Verify_def)
qed

section \<open>Passwords\<close>

lemma decimal_no_dollar: "CHR ''$'' \<notin> set (decimal n)"
proof (induction n rule: decimal.induct)
  case (1 n)
  have "char_of (48 + m) \<noteq> CHR ''$''" if "m < 10" for m :: nat
  proof
    assume "char_of (48 + m) = CHR ''$''"
    then have "of_char (char_of (48 + m)) = (of_char (CHR ''$'') :: nat)" by simp
    then show False using that by simp
  qed
  with 1 show ?case by (subst decimal.simps) (auto simp: eq_commute)
qed

text \<open>What is relied on of the scanning and encoding functions: \<open>Sscanf\<close> reads the numbers \<open>Sprintf\<close> wrote, unpadded base 64 decodes what it encoded and
  has no dollar sign in it, and Argon2id yields as many bytes as it is asked for.\<close>

definition argon_ok :: "mgmt_env \<Rightarrow> bytes \<Rightarrow> string \<Rightarrow> bool" where
  "argon_ok M salt password \<longleftrightarrow> mg_scanVersion M (''v='' @ decimal argonVersion) = Some argonVersion
     \<and> mg_scanParams M (''m='' @ decimal argonMemory @ '',t='' @ decimal argonTime @ '',p='' @ decimal argonThreads) = Some (argonMemory, argonTime, argonThreads)
     \<and> (\<forall>b \<in> {salt, mg_IDKey M password salt argonTime argonMemory argonThreads argonKeyLen}. mg_dec64 M (mg_enc64 M b) = Some b \<and> CHR ''$'' \<notin> set (mg_enc64 M b))
     \<and> length (mg_IDKey M password salt argonTime argonMemory argonThreads argonKeyLen) = argonKeyLen"

text \<open>C30. A password verifies against its own hash and against no other: what \<open>HashPassword\<close> writes, salt and parameters included, is read back by \<open>VerifyPassword\<close>,
  which accepts a password exactly when Argon2id derives the same key from it; passwords under twelve characters are never hashed.\<close>

theorem password_roundtrip:
  assumes "argon_ok M salt password" and "HashPassword M (Some salt) password = Inr h"
  shows "12 \<le> length password \<and> (VerifyPassword M h attempt \<longleftrightarrow>
    mg_IDKey M attempt salt argonTime argonMemory argonThreads argonKeyLen = mg_IDKey M password salt argonTime argonMemory argonThreads argonKeyLen)"
proof -
  let ?key = "mg_IDKey M password salt argonTime argonMemory argonThreads argonKeyLen"
  let ?v = "''v='' @ decimal argonVersion" and ?p = "''m='' @ decimal argonMemory @ '',t='' @ decimal argonTime @ '',p='' @ decimal argonThreads"
  have len: "12 \<le> length password" and h: "h = [] @ CHR ''$'' # ''argon2id'' @ CHR ''$'' # ?v @ CHR ''$'' # ?p @ CHR ''$'' # mg_enc64 M salt @ CHR ''$'' # mg_enc64 M ?key"
    using assms(2) by (auto simp: HashPassword_def Let_def split: if_splits)
  have e: "CHR ''$'' \<notin> set (mg_enc64 M salt)" "CHR ''$'' \<notin> set (mg_enc64 M ?key)" "mg_dec64 M (mg_enc64 M salt) = Some salt" "mg_dec64 M (mg_enc64 M ?key) = Some ?key"
    using assms(1) by (simp_all add: argon_ok_def)
  have nd: "CHR ''$'' \<notin> set ?v" "CHR ''$'' \<notin> set ?p" "CHR ''$'' \<notin> set ''argon2id''" "CHR ''$'' \<notin> set []" by (simp_all add: decimal_no_dollar)
  have parts: "split_on (CHR ''$'') h = [[], ''argon2id'', ?v, ?p, mg_enc64 M salt, mg_enc64 M ?key]"
    unfolding h split_on_append [OF nd(4)] split_on_append [OF nd(3)] split_on_append [OF nd(1)] split_on_append [OF nd(2)] split_on_append [OF e(1)] split_on_single [OF e(2)]
    by (rule refl)
  have "length ?key = argonKeyLen" using assms(1) by (simp add: argon_ok_def)
  moreover have "mg_scanVersion M ?v = Some argonVersion" "mg_scanParams M ?p = Some (argonMemory, argonTime, argonThreads)" using assms(1) by (simp_all only: argon_ok_def)
  ultimately show ?thesis using len unfolding VerifyPassword_def Let_def parts by (simp add: e(3,4))
qed

section \<open>Logging in and out\<close>

text \<open>The credentials of an account: its live record, the password, and the second factor when one is confirmed.\<close>

definition credentials :: "mgmt_env \<Rightarrow> store \<Rightarrow> string \<Rightarrow> string \<Rightarrow> string \<Rightarrow> gtime \<Rightarrow> user \<Rightarrow> bool" where
  "credentials M st name password code now u \<longleftrightarrow>
     (\<exists>x \<in> set (store_Records st). cr_Kind x = KindUser \<and> cr_Key x = user_key name \<and> mg_decUser M (cr_Payload x) = Some u)
     \<and> \<not> us_Disabled u \<and> VerifyPassword M (us_Hash u) password
     \<and> (us_TOTPConfirmed u \<longrightarrow> (\<exists>key skew. mg_dec32 M (ToUpper (us_TOTPSecret u)) = Some key \<and> skew \<in> {- 1, 0, 1}
          \<and> code = hotp M key (sgn (time_Unix now) * (\<bar>time_Unix now\<bar> div 30) + skew)))"

lemma VerifyTOTP_step:
  assumes "VerifyTOTP M secret code now"
  shows "\<exists>key skew. mg_dec32 M (ToUpper secret) = Some key \<and> skew \<in> {- 1, 0, 1} \<and> code = hotp M key (sgn (time_Unix now) * (\<bar>time_Unix now\<bar> div 30) + skew)"
proof -
  obtain key where key: "mg_dec32 M (ToUpper secret) = Some key"
    and "list_ex (\<lambda>skew. hotp M key (sgn (time_Unix now) * (\<bar>time_Unix now\<bar> div totpStep) + skew) = code) [- 1, 0, 1]"
    using assms by (auto simp: VerifyTOTP_def Let_def split: if_splits option.splits)
  then obtain skew where "skew \<in> set [- 1, 0, 1]" "hotp M key (sgn (time_Unix now) * (\<bar>time_Unix now\<bar> div totpStep) + skew) = code"
    unfolding list_ex_iff by blast
  with key show ?thesis by (intro exI [of _ key] exI [of _ skew]) (simp add: totpStep_def)
qed

lemma Authenticate_credentials: "Authenticate M st name password code now = Inr u \<Longrightarrow> credentials M st name password code now u"
proof -
  assume a: "Authenticate M st name password code now = Inr u"
  then have l: "LoadUser M st name = Inr u" and c: "\<not> us_Disabled u" "VerifyPassword M (us_Hash u) password"
    "us_TOTPConfirmed u \<Longrightarrow> VerifyTOTP M (us_TOTPSecret u) code now"
    by (auto simp: Authenticate_def split: sum.splits if_splits)
  have "\<exists>x \<in> set (store_Records st). cr_Kind x = KindUser \<and> cr_Key x = user_key name \<and> mg_decUser M (cr_Payload x) = Some u"
    using l by (auto simp: LoadUser_def find_Some_iff split: option.splits)
  with c VerifyTOTP_step show ?thesis unfolding credentials_def by blast
qed

text \<open>C22. A login needs the account's credentials: \<open>handleLogin\<close> hands out a session cookie only for the account whose live, enabled record the user name names, with
  a password that verifies against its hash and, once a second factor is confirmed, a code of one of the three accepted time steps; the session has that account's scopes and ends after
  the configured time, and no other session changes. In every other case neither the sessions nor the store change and no cookie is set.\<close>

theorem login_needs_credentials:
  assumes "handleLogin A now rnd r a = (resp, a')"
  shows "(rp_Cookie resp = NoCookie \<and> a' = a)
    \<or> (\<exists>raw name password code u i csrf. readBody A r = Some raw \<and> ae_decLogin A raw = Some (name, password, code)
        \<and> credentials (ae_mgmt A) (ap_store a) name password code now u \<and> rp_Cookie resp = SetCookie i (ss_ttl (ap_sessions a))
        \<and> ss_sessions (ap_sessions a') = fmupd i \<lparr>se_user = us_Name u, se_scopes = us_Scopes u, se_csrf = csrf, se_expires = now + ss_ttl (ap_sessions a)\<rparr>
            (ss_sessions (ap_sessions a)))"
proof (cases "\<exists>raw name password code u. readBody A r = Some raw \<and> ae_decLogin A raw = Some (name, password, code)
    \<and> Authenticate (ae_mgmt A) (ap_store a) name password code now = Inr u")
  case True
  then obtain raw name password code u where k: "readBody A r = Some raw" "ae_decLogin A raw = Some (name, password, code)"
    "Authenticate (ae_mgmt A) (ap_store a) name password code now = Inr u" by blast
  note c = Authenticate_credentials [OF k(3)]
  show ?thesis
  proof (cases "\<exists>i csrf. rd_session rnd = Some i \<and> rd_csrf rnd = Some csrf")
    case True
    then obtain i csrf where "rd_session rnd = Some i" "rd_csrf rnd = Some csrf" by blast
    with assms k have "rp_Cookie resp = SetCookie i (ss_ttl (ap_sessions a))"
      "ss_sessions (ap_sessions a') = fmupd i \<lparr>se_user = us_Name u, se_scopes = us_Scopes u, se_csrf = csrf, se_expires = now + ss_ttl (ap_sessions a)\<rparr>
            (ss_sessions (ap_sessions a))" by (auto simp: handleLogin_def sess_Create_def Let_def)
    with k(1,2) c show ?thesis by blast
  next
    case False
    then have "sess_Create (rd_session rnd) (rd_csrf rnd) now u (ap_sessions a) = (Inl RandomFailed, ap_sessions a)"
      by (auto simp: sess_Create_def split: option.splits)
    then show ?thesis using assms k by (auto simp: handleLogin_def writeError_def answer_def)
  qed
next
  case False
  then show ?thesis using assms by (auto simp: handleLogin_def writeError_def answer_def split: option.splits sum.splits)
qed

lemma sess_drop_lookup:
  "fmlookup (ss_sessions (snd (sess_drop P s))) i = Some sess \<longleftrightarrow> fmlookup (ss_sessions s) i = Some sess \<and> \<not> P sess"
  by (auto simp: sess_drop_def Let_def fmlookup_dom_iff split: option.splits)

text \<open>Taking an account away takes its sessions away: when \<open>handleDeleteUser\<close> or \<open>handleChangePassword\<close> reports success, no session of that
  account is left on the node, and every other session is untouched.\<close>

theorem account_change_ends_sessions:
  "(handleDeleteUser A now c r a = (resp, a') \<and> rp_Code resp = 200 \<longrightarrow>
      (\<forall>i sess. fmlookup (ss_sessions (ap_sessions a')) i = Some sess \<longleftrightarrow>
        fmlookup (ss_sessions (ap_sessions a)) i = Some sess \<and> se_user sess \<noteq> user_key (mr_path r)))
   \<and> (handleChangePassword A now rnd (Some (sess0, j)) r a = (resp, a') \<and> rp_Code resp = 200 \<longrightarrow>
      (\<exists>u. LoadUser (ae_mgmt A) (ap_store a) (se_user sess0) = Inr u \<and> (\<forall>i sess. fmlookup (ss_sessions (ap_sessions a')) i = Some sess \<longleftrightarrow>
        fmlookup (ss_sessions (ap_sessions a)) i = Some sess \<and> se_user sess \<noteq> us_Name u)))"
proof (intro conjI impI)
  assume "handleDeleteUser A now c r a = (resp, a') \<and> rp_Code resp = 200"
  then show "\<forall>i sess. fmlookup (ss_sessions (ap_sessions a')) i = Some sess \<longleftrightarrow>
        fmlookup (ss_sessions (ap_sessions a)) i = Some sess \<and> se_user sess \<noteq> user_key (mr_path r)"
    by (auto simp: handleDeleteUser_def Let_def DestroyUser_def sess_drop_lookup writeError_def answer_def split: if_splits prod.splits option.splits)
next
  assume "handleChangePassword A now rnd (Some (sess0, j)) r a = (resp, a') \<and> rp_Code resp = 200"
  then show "\<exists>u. LoadUser (ae_mgmt A) (ap_store a) (se_user sess0) = Inr u \<and> (\<forall>i sess. fmlookup (ss_sessions (ap_sessions a')) i = Some sess \<longleftrightarrow>
        fmlookup (ss_sessions (ap_sessions a)) i = Some sess \<and> se_user sess \<noteq> us_Name u)"
    by (auto simp: handleChangePassword_def DestroyUser_def sess_drop_lookup writeError_def answer_def split: if_splits prod.splits option.splits sum.splits)
qed

section \<open>What a reader gets\<close>

text \<open>C36. A reader gets every account's secrets: \<open>handleRecords\<close> takes the payload off token records only, so a token with nothing but the read scope receives, under
  \<open>/api/v1/records\<close>, the full record of every operator account with its password hash and its second-factor secret, although the listing of accounts, which
  leaves both out, is refused to it.\<close>

theorem records_leak_users:
  assumes "\<not> mr_local r" and "mr_cookie r = None" and "bearer r = Some p" and "Verify (ae_mgmt A) (ap_store a) p now = Inr t" and "tk_Scopes t = [ScopeRead]"
    and "x \<in> set (store_Records (ap_store a))" and "cr_Kind x = KindUser"
  shows "\<exists>rs h. api_Handler A now rnd GetRecords r a = (answer 200 (RecordsBody rs h), a) \<and> x \<in> set rs
    \<and> api_Handler A now rnd GetUsers r a = (writeError 403, a)"
proof -
  have "token_Allows t ScopeRead" "\<not> token_Allows t ScopeAdmin" using assms(5) by (simp_all add: token_Allows_def scope_implies_def scope_defs)
  then have "guard_scope A now ScopeRead h r a = h None r a" "guard_scope A now ScopeAdmin h r a = (writeError 403, a)" for h
    using assms(1-4) by (simp_all add: guard_scope_def sessionFrom_def)
  moreover have "x \<in> (\<lambda>x. if cr_Kind x = KindToken then x\<lparr>cr_Payload := []\<rparr> else x) ` set (store_Records (ap_store a))"
    using assms(6,7) by (intro image_eqI [of _ _ x]) (simp_all add: KindToken_def KindUser_def)
  ultimately show ?thesis
    by (intro exI [of _ "map (\<lambda>x. if cr_Kind x = KindToken then x\<lparr>cr_Payload := []\<rparr> else x) (store_Records (ap_store a))"] exI [of _ "ae_Hash A (ap_store a)"])
      (simp add: handleRecords_def)
qed

section \<open>The last administrator\<close>

definition is_admin :: "mgmt_env \<Rightarrow> crecord \<Rightarrow> bool" where
  "is_admin M x \<longleftrightarrow> (\<exists>u. mg_decUser M (cr_Payload x) = Some u \<and> \<not> us_Disabled u \<and> scopesAllow (us_Scopes u) ScopeAdmin)"

text \<open>The names of the accounts that can administer the node.\<close>

definition admins :: "mgmt_env \<Rightarrow> store \<Rightarrow> string set" where
  "admins M st = {key. \<exists>x. view st (make_ID KindUser key) = Some x \<and> \<not> cr_Deleted x \<and> is_admin M x}"

text \<open>Every live account can be read and is filed under its own name.\<close>

definition accounts_ok :: "mgmt_env \<Rightarrow> store \<Rightarrow> bool" where
  "accounts_ok M st \<longleftrightarrow> keyed st \<and> (\<forall>key x. view st (make_ID KindUser key) = Some x \<and> \<not> cr_Deleted x \<longrightarrow> (\<exists>u. mg_decUser M (cr_Payload x) = Some u \<and> us_Name u = key))"

lemma user_loop_Inr:
  "\<forall>x \<in> set rs. cr_Kind x = KindUser \<longrightarrow> mg_decUser M (cr_Payload x) \<noteq> None \<Longrightarrow>
    user_loop M rs out = Inr (out @ map (\<lambda>x. (the (mg_decUser M (cr_Payload x)))\<lparr>us_Hash := [], us_TOTPSecret := []\<rparr>) (filter (\<lambda>x. cr_Kind x = KindUser) rs))"
  by (induction rs arbitrary: out) auto

lemma lower_space: "isSpace (lower c) = isSpace c"
proof -
  have "of_char (lower c) \<in> {9, 10, 11, 12, 13, 32 :: nat} \<longleftrightarrow> of_char c \<in> {9, 10, 11, 12, 13, 32 :: nat}"
    unfolding of_char_lower by auto
  then show ?thesis by (simp only: isSpace_def)
qed

lemma user_key_idem: "user_key (user_key s) = user_key s"
proof -
  have dw: "dropWhile isSpace (map lower xs) = map lower (dropWhile isSpace xs)" for xs by (simp add: dropWhile_map o_def lower_space)
  have ts: "TrimSpace (map lower xs) = map lower (TrimSpace xs)" for xs by (simp add: TrimSpace_def dw rev_map)
  have idem: "TrimSpace (TrimSpace xs) = TrimSpace xs" for xs
  proof -
    let ?ys = "dropWhile isSpace xs"
    have h: "dropWhile isSpace zs = zs" if "zs = [] \<or> \<not> isSpace (hd zs)" for zs using that by (cases zs) auto
    have d: "dropWhile isSpace zs = [] \<or> \<not> isSpace (hd (dropWhile isSpace zs))" for zs using hd_dropWhile [of isSpace zs] by blast
    let ?t = "rev (dropWhile isSpace (rev ?ys))"
    have "dropWhile isSpace ?t = ?t"
    proof (rule h)
      obtain us where "?ys = ?t @ us" by (metis rev_append rev_rev_ident takeWhile_dropWhile_id)
      then show "?t = [] \<or> \<not> isSpace (hd ?t)" using d [of xs] by (metis append_is_Nil_conv hd_append2)
    qed
    moreover have "dropWhile isSpace (rev ?t) = rev ?t" using h d by simp
    ultimately show ?thesis by (simp add: TrimSpace_def)
  qed
  show ?thesis unfolding user_key_def ToLower_def ts idem by simp
qed

lemma records_live:
  assumes "keyed st"
  shows "x \<in> set (store_Records st) \<longleftrightarrow> view st (make_ID (cr_Kind x) (cr_Key x)) = Some x \<and> \<not> cr_Deleted x"
  using assms by (auto simp: store_Records_def set_recordsLive ran_def keyed_def cr_ID_def)

lemma distinct_records:
  assumes "keyed st"
  shows "distinct (store_Records st)"
proof -
  have "inj_on (\<lambda>x. the (view st x)) (fset (fmdom (st_records st)))"
  proof (rule inj_onI)
    fix x y assume xy: "x \<in> fset (fmdom (st_records st))" "y \<in> fset (fmdom (st_records st))" "the (view st x) = the (view st y)"
    then obtain r r' where "view st x = Some r" "view st y = Some r'" by (auto simp: fmlookup_dom_iff)
    with xy(3) show "x = y" using assms by (auto simp: keyed_def)
  qed
  then have "distinct (all_records st)" by (simp add: all_records_def distinct_map sorted_list_of_fset.rep_eq)
  then show ?thesis by (simp add: store_Records_def recordsLocked_def)
qed

lemma last_admin_spec:
  assumes ok: "accounts_ok M st" and "admins M st = {name}"
  shows "isLastAdmin M st name = Inr True"
proof -
  have k: "keyed st" using ok by (simp add: accounts_ok_def)
  let ?us = "filter (\<lambda>x. cr_Kind x = KindUser) (store_Records st)"
  let ?f = "\<lambda>x. (the (mg_decUser M (cr_Payload x)))\<lparr>us_Hash := [], us_TOTPSecret := []\<rparr>"
  let ?P = "\<lambda>u. \<not> (us_Disabled u \<or> \<not> scopesAllow (us_Scopes u) ScopeAdmin)"
  have dec: "\<exists>u. mg_decUser M (cr_Payload x) = Some u \<and> us_Name u = cr_Key x" if "x \<in> set ?us" for x
    using that ok unfolding accounts_ok_def by (auto simp: records_live [OF k])
  have l: "ListUsers M st = Inr (map ?f ?us)"
    unfolding ListUsers_def using user_loop_Inr [of "store_Records st" M "[]"] dec by force
  obtain x0 where x0: "view st (make_ID KindUser name) = Some x0" "\<not> cr_Deleted x0" "is_admin M x0" using assms(2) by (auto simp: admins_def)
  have id0: "cr_Kind x0 = KindUser" "cr_Key x0 = name" using k x0(1) make_ID_inj [of "cr_Kind x0" "cr_Key x0" KindUser name] by (auto simp: keyed_def cr_ID_def)
  have P: "?P (?f x) = is_admin M x" if "x \<in> set ?us" for x using dec [OF that] by (auto simp: is_admin_def)
  have x0s: "x0 \<in> set ?us" using x0 id0 by (simp add: records_live [OF k])
  have uniq: "x = x0" if x: "x \<in> set ?us" "is_admin M x" for x
  proof -
    have v: "view st (make_ID KindUser (cr_Key x)) = Some x" "\<not> cr_Deleted x" using x(1) by (auto simp: records_live [OF k])
    then have "cr_Key x \<in> admins M st" using x(2) unfolding admins_def by blast
    then have "cr_Key x = name" unfolding assms(2) by simp
    with v(1) x0(1) show ?thesis by simp
  qed
  have flt: "filter (\<lambda>x. ?P (?f x)) ?us = filter (is_admin M) ?us" by (rule filter_cong [OF refl P])
  have s: "set (filter (is_admin M) ?us) = {x0}" 
  proof (rule set_eqI)
    fix x
    show "x \<in> set (filter (is_admin M) ?us) \<longleftrightarrow> x \<in> {x0}" using uniq [of x] x0s x0(3) by auto
  qed
  have "distinct (filter (is_admin M) ?us)" using distinct_records [OF k] by simp
  from distinct_card [OF this] have "length (filter (is_admin M) ?us) = 1" unfolding s by simp
  then obtain y where y: "filter (is_admin M) ?us = [y]" by (metis One_nat_def length_0_conv length_Suc_conv)
  then have "y = x0" using s by simp
  have "us_Name (?f x0) = name" using dec [OF x0s] id0(2) by auto
  moreover have "filter ?P (map ?f ?us) = [?f x0]" unfolding filter_map o_def flt y \<open>y = x0\<close> by simp
  ultimately show ?thesis unfolding isLastAdmin_def l Let_def by simp
qed

text \<open>Deleting accounts never removes the last administrator: as long as every live account can be read and is filed under its own name, \<open>handleDeleteUser\<close> leaves
  at least one enabled account with the admin scope whenever there was one.\<close>

theorem delete_keeps_admin:
  assumes "accounts_ok (ae_mgmt A) (ap_store a)" and "admins (ae_mgmt A) (ap_store a) \<noteq> {}" and "handleDeleteUser A now c r a = (resp, a')"
  shows "admins (ae_mgmt A) (ap_store a') \<noteq> {}"
proof (cases "admins (ae_mgmt A) (ap_store a) = {user_key (mr_path r)}")
  case True
  from last_admin_spec [OF assms(1) this] assms(3) have "a' = a" by (simp add: handleDeleteUser_def)
  with assms(2) show ?thesis by simp
next
  case False
  then obtain key where key: "key \<in> admins (ae_mgmt A) (ap_store a)" "key \<noteq> user_key (mr_path r)" using assms(2) by blast
  have "ap_store a' = ap_store a \<or> ap_store a' = snd (store_Delete now KindUser (user_key (mr_path r)) (ap_store a))"
    using assms(3) by (auto simp: handleDeleteUser_def DeleteUser_def user_key_idem Let_def split: if_splits sum.splits)
  moreover have "view (snd (store_Delete now KindUser n st)) (make_ID KindUser key') = (if key' = n then view (snd (store_Delete now KindUser n st)) (make_ID KindUser n) else view st (make_ID KindUser key'))" for n st key'
    by (auto simp: store_Delete_def Let_def cr_ID_def make_ID_inj)
  ultimately have "key \<in> admins (ae_mgmt A) (ap_store a')" using key by (auto simp: admins_def)
  then show ?thesis by blast
qed

text \<open>Creating an account can remove the last administrator: \<open>handleCreateUser\<close> does not look whether the account exists, so a request that names the only
  administrator and asks for lesser scopes replaces its record, second factor included, and leaves nobody with the admin scope, while the sessions of the
  old account stay as they are.\<close>

theorem create_demotes_last_admin:
  assumes "keyed (ap_store a)" and "admins (ae_mgmt A) (ap_store a) \<subseteq> {user_key name}" and "readBody A r = Some raw"
    and "ae_decCreateUser A raw = Some (name, password, scopes)" and "\<not> scopesAllow scopes ScopeAdmin"
    and "\<forall>u b. mg_encUser (ae_mgmt A) u = Some b \<longrightarrow> mg_decUser (ae_mgmt A) b = Some u"
    and "handleCreateUser A now rnd c r a = (resp, a')" and "rp_Code resp = 201"
  shows "admins (ae_mgmt A) (ap_store a') = {} \<and> ap_sessions a' = ap_sessions a"
proof -
  let ?M = "ae_mgmt A" and ?sc = "if scopes = [] then [ScopeRead] else scopes"
  obtain hash where "HashPassword ?M (rd_salt rnd) password = Inr hash"
    using assms(3,4,7,8) by (cases "HashPassword ?M (rd_salt rnd) password") (auto simp: handleCreateUser_def writeError_def answer_def Let_def)
  define u where "u = \<lparr>us_Name = name, us_Hash = hash, us_Scopes = ?sc, us_TOTPSecret = [], us_TOTPConfirmed = False, us_Disabled = False, us_Created = now, us_LastLogin = 0\<rparr>"
  obtain st where st: "SaveUser ?M now u (ap_store a) = (None, st)" "a' = a\<lparr>ap_store := st\<rparr>"
    using assms(3,4,7,8) \<open>HashPassword ?M (rd_salt rnd) password = Inr hash\<close>
    by (cases "SaveUser ?M now u (ap_store a)") (auto simp: handleCreateUser_def writeError_def answer_def Let_def u_def split: option.splits)
  let ?u = "u\<lparr>us_Name := user_key name\<rparr>"
  obtain x where "store_Put now KindUser (user_key name) (mg_encUser ?M ?u) (ap_store a) = (Inr x, st)"
    using st(1) by (auto simp: SaveUser_def u_def Let_def split: if_splits option.splits sum.splits prod.splits)
  then obtain b where b: "mg_encUser ?M ?u = Some b" and p: "store_Put now KindUser (user_key name) (Some b) (ap_store a) = (Inr x, st)"
    by (cases "mg_encUser ?M ?u") (auto simp: store_Put_def)
  from Put_stored_record [OF assms(1) p] obtain y where y: "view st (make_ID KindUser (user_key name)) = Some y" "cr_Payload y = b" by blast
  have "\<not> is_admin ?M y" using assms(5,6) b y(2) by (auto simp: is_admin_def u_def scopesAllow_def scope_implies_def scope_defs split: if_splits)
  moreover have "view st (make_ID KindUser key) = view (ap_store a) (make_ID KindUser key)" if "key \<noteq> user_key name" for key
    using p that by (auto simp: store_Put_def Let_def cr_ID_def make_ID_inj)
  ultimately have "key \<notin> admins ?M st" for key using y(1) assms(2) by (cases "key = user_key name") (auto simp: admins_def)
  then show ?thesis using st(2) by auto
qed

section \<open>Sessions\<close>

inductive sess_reach :: "session_store \<Rightarrow> bool" where
  se_New: "sess_reach (NewSessionStore ttl)"
| se_Create: "sess_reach s \<Longrightarrow> fmlookup (ss_sessions s) i = None \<Longrightarrow> sess_reach (snd (sess_Create (Some i) csrf now u s))"
| se_Lookup: "sess_reach s \<Longrightarrow> sess_reach (snd (sess_Lookup now i s))"
| se_Destroy: "sess_reach s \<Longrightarrow> sess_reach (sess_Destroy i s)"
| se_DestroyUser: "sess_reach s \<Longrightarrow> sess_reach (snd (DestroyUser name s))"
| se_Sweep: "sess_reach s \<Longrightarrow> sess_reach (snd (sess_Sweep now s))"

definition counted :: "session_store \<Rightarrow> bool" where
  "counted s \<longleftrightarrow> ss_Active s = int (size (fmdom (ss_sessions s)))"

lemma counted_Destroy: "counted s \<Longrightarrow> counted (sess_Destroy i s)"
proof (cases "fmlookup (ss_sessions s) i")
  case None
  then have "fmdrop i (ss_sessions s) = ss_sessions s" by (intro fmap_ext) auto
  then show "counted s \<Longrightarrow> ?thesis" using None by (simp add: counted_def sess_Destroy_def Let_def)
next
  case (Some x)
  then have "i \<in> fset (fmdom (ss_sessions s))" by (simp add: fmlookup_dom_iff)
  then have "0 < card (fset (fmdom (ss_sessions s)))" "card (fset (fmdom (ss_sessions s)) - {i}) = card (fset (fmdom (ss_sessions s))) - 1"
    by (auto simp: card_gt_0_iff)
  then show "counted s \<Longrightarrow> ?thesis" using Some by (simp add: counted_def sess_Destroy_def Let_def fcard.rep_eq)
qed

lemma counted_drop: "counted s \<Longrightarrow> counted (snd (sess_drop P s))"
proof -
  assume c: "counted s"
  let ?g = "ffilter (\<lambda>i. case fmlookup (ss_sessions s) i of Some sess \<Rightarrow> P sess | None \<Rightarrow> False) (fmdom (ss_sessions s))"
  have sub: "fset ?g \<subseteq> fset (fmdom (ss_sessions s))" by auto
  have "card (fset (fmdom (ss_sessions s)) - fset ?g) = card (fset (fmdom (ss_sessions s))) - card (fset ?g)"
    by (rule card_Diff_subset [OF finite_fset sub])
  moreover have "card (fset ?g) \<le> card (fset (fmdom (ss_sessions s)))" by (rule card_mono [OF finite_fset sub])
  ultimately show ?thesis using c by (simp add: counted_def sess_drop_def Let_def fcard.rep_eq)
qed

text \<open>The gauge of active sessions is exact in every reachable state, whichever way sessions end, and no session past its end is ever returned.\<close>

theorem sessions_counted:
  assumes "sess_reach s"
  shows "ss_Active s = int (size (fmdom (ss_sessions s))) \<and> (fst (sess_Lookup now i s) = Some sess \<longrightarrow> now < se_expires sess)"
proof -
  have "counted s" using assms
  proof (induction rule: sess_reach.induct)
    case (se_New ttl)
    then show ?case by (simp add: counted_def NewSessionStore_def)
  next
    case (se_Create s i csrf now u)
    then have "i |\<notin>| fmdom (ss_sessions s)" by (simp add: fmlookup_dom_iff)
    with se_Create show ?case by (auto simp: counted_def sess_Create_def fcard_finsert_disjoint split: option.split)
  next
    case (se_Lookup s now i)
    then show ?case by (auto simp: sess_Lookup_def counted_Destroy split: option.split)
  qed (simp_all add: counted_Destroy counted_drop DestroyUser_def sess_Sweep_def)
  then show ?thesis by (auto simp: counted_def sess_Lookup_def split: option.splits if_splits)
qed

section \<open>Witnesses\<close>

definition root_hash :: string where
  "root_hash = ''$argon2id$v=19$m=65536,t=3,p=4$s$k''"

definition new_user :: "string \<Rightarrow> scope \<Rightarrow> gtime \<Rightarrow> user" where
  "new_user name sc created = \<lparr>us_Name = name, us_Hash = root_hash, us_Scopes = [sc], us_TOTPSecret = [], us_TOTPConfirmed = False, us_Disabled = False,
     us_Created = created, us_LastLogin = 0\<rparr>"

definition ab_token :: token where
  "ab_token = \<lparr>tk_ID = ''ab'', tk_Name = ''ci'', tk_Hash = ''cd'', tk_Scopes = [ScopeRead], tk_Created = 5, tk_Expires = 0\<rparr>"

definition test_mgmt :: mgmt_env where
  "test_mgmt = \<lparr>mg_sha256hex = \<lambda>s. s, mg_hmac = \<lambda>_ _. [], mg_IDKey = \<lambda>p s t m th n. replicate n (of_nat (length p)),
     mg_enc64 = \<lambda>b. if b = [] then ''s'' else ''k'', mg_dec64 = \<lambda>s. if s = ''s'' then Some [] else Some (replicate 32 13), mg_dec32 = \<lambda>_. None,
     mg_scanVersion = \<lambda>_. Some 19, mg_scanParams = \<lambda>_. Some (65536, 3, 4),
     mg_encToken = \<lambda>_. Some ''T'', mg_decToken = \<lambda>_. Some ab_token,
     mg_encUser = \<lambda>u. if u = new_user ''root'' ScopeAdmin 0 then Some ''U'' else if u = new_user ''bob'' ScopeRead 0 then Some ''B''
       else if u = new_user ''root'' ScopeRead 5 then Some ''L'' else None,
     mg_decUser = \<lambda>s. if s = ''U'' then Some (new_user ''root'' ScopeAdmin 0) else if s = ''B'' then Some (new_user ''bob'' ScopeRead 0)
       else Some (new_user ''root'' ScopeRead 5)\<rparr>"

definition mk_rec :: "record_kind \<Rightarrow> string \<Rightarrow> string \<Rightarrow> crecord" where
  "mk_rec k key payload = \<lparr>cr_Kind = k, cr_Key = key, cr_Lamport = 1, cr_Origin = ''a'', cr_Deleted = False, cr_Updated = 0, cr_Payload = payload\<rparr>"

definition acct_store :: store where
  "acct_store = node_a\<lparr>st_records := fmupd (make_ID KindUser ''root'') (mk_rec KindUser ''root'' ''U'') (fmupd (make_ID KindUser ''bob'') (mk_rec KindUser ''bob'' ''B'')
     (fmupd (make_ID KindToken ''ab'') (mk_rec KindToken ''ab'' ''T'') fmempty))\<rparr>"

definition bob_session :: session where
  "bob_session = \<lparr>se_user = ''bob'', se_scopes = [ScopeRead], se_csrf = ''x'', se_expires = 100\<rparr>"

definition test_api :: api where
  "test_api = \<lparr>ap_store = acct_store, ap_sessions = (NewSessionStore 50)\<lparr>ss_sessions := fmupd ''c1'' bob_session fmempty, ss_Active := 1\<rparr>, ap_refreshes = 0\<rparr>"

definition test_aenv :: api_env where
  "test_aenv = \<lparr>ae_mgmt = test_mgmt, ae_ctl = test_ctl, ae_valid = \<lambda>_. True, ae_decLogin = \<lambda>_. Some (''root'', ''correct horse'', []), ae_decCode = \<lambda>_. None,
     ae_decPassword = \<lambda>_. None, ae_decCreateUser = \<lambda>_. Some (''root'', ''correct horse'', [ScopeRead]), ae_decTokenReq = \<lambda>_. None, ae_ParseDuration = \<lambda>_. None,
     ae_Atoi = \<lambda>_. None, ae_Hash = \<lambda>_. ''hash'', ae_refresh = True, ae_issuer = ''cgdns'', ae_ui = False\<rparr>"

definition test_rand :: api_rand where
  "test_rand = \<lparr>rd_session = Some ''c2'', rd_csrf = Some ''y'', rd_tokenID = Some ''ab'', rd_secret = Some ''cd'', rd_salt = Some [], rd_totp = None\<rparr>"

definition get_req :: "string \<Rightarrow> mgmt_req" where
  "get_req auth = \<lparr>mr_local = False, mr_cookie = None, mr_Method = ''GET'', mr_CSRF = [], mr_Authorization = auth, mr_path = ''bob'', mr_body = Body ''{}''\<rparr>"

lemma env_simps [simp]: "ae_mgmt test_aenv = test_mgmt" "ap_store test_api = acct_store" "readBody test_aenv (get_req auth) = Some ''{}''"
  by (simp_all add: test_aenv_def test_api_def readBody_def get_req_def)

lemma acct_view:
  "view acct_store (make_ID k key) = (if k = KindUser \<and> key = ''root'' then Some (mk_rec KindUser ''root'' ''U'') else if k = KindUser \<and> key = ''bob'' then Some (mk_rec KindUser ''bob'' ''B'')
     else if k = KindToken \<and> key = ''ab'' then Some (mk_rec KindToken ''ab'' ''T'') else None)"
  by (auto simp: acct_store_def make_ID_inj)

lemma acct_keyed: "keyed acct_store"
  by (auto simp: keyed_def acct_store_def cr_ID_def mk_rec_def split: if_splits)

lemma acct_ok: "accounts_ok test_mgmt acct_store"
  using acct_keyed by (auto simp: accounts_ok_def acct_view mk_rec_def test_mgmt_def new_user_def KindUser_def KindToken_def)

lemma acct_admins: "admins test_mgmt acct_store = {''root''}"
  by (auto simp: admins_def acct_view is_admin_def mk_rec_def test_mgmt_def new_user_def scopesAllow_def scope_implies_def scope_defs KindUser_def KindToken_def split: if_splits)

lemma no_bearer: "bearer (get_req []) = None"
  by (simp add: bearer_def get_req_def)

theorem unauthorised_refused_witness:
  "rp_Code (fst (api_Handler test_aenv 7 test_rand DeleteUserPath (get_req []) test_api)) \<in> {401, 403}
   \<and> ap_store (snd (api_Handler test_aenv 7 test_rand DeleteUserPath (get_req []) test_api)) = acct_store"
proof -
  have "\<not> authorised test_aenv test_api 7 (get_req []) ScopeAdmin"
    by (simp add: authorised_def no_bearer live_session_def) (simp add: get_req_def)
  from unauthorised_refused [OF _ this, of DeleteUserPath test_rand] show ?thesis
    by (cases "api_Handler test_aenv 7 test_rand DeleteUserPath (get_req []) test_api") simp
qed

definition write_req :: mgmt_req where
  "write_req = (get_req [])\<lparr>mr_local := True, mr_Method := ''POST'', mr_body := Body ''P''\<rparr>"

theorem scope_confined_witness:
  "\<exists>resp a'. api_Handler test_aenv 7 test_rand (PostRecord Classes) write_req test_api = (resp, a') \<and> rp_Code resp = 200
    \<and> view (ap_store a') (make_ID KindClass ''gold'') \<noteq> None \<and> view (ap_store a') (make_ID KindUser ''root'') = Some (mk_rec KindUser ''root'' ''U'')"
proof -
  obtain resp a' where r: "api_Handler test_aenv 7 test_rand (PostRecord Classes) write_req test_api = (resp, a')" by fastforce
  have "readBody test_aenv write_req = Some ''P''" "mr_local write_req" "ae_ctl test_aenv = test_ctl"
    by (simp_all add: readBody_def write_req_def test_aenv_def)
  with r have "rp_Code resp = 200 \<and> view (ap_store a') (make_ID KindClass ''gold'') \<noteq> None"
    by (auto simp: guard_scope_def postRecord_def writeRecord_def gold_canonical gold_key store_Put_def answer_def cr_ID_def Let_def)
  with r scope_confined [OF r] show ?thesis by (simp add: acct_view)
qed

theorem minted_token_verifies_witness:
  "\<exists>st'. SaveToken test_mgmt 5 ab_token node_a = (None, st') \<and> Verify test_mgmt st' ''ab.cd'' 9 = Inr ab_token \<and> Verify test_mgmt st' ''ab.ce'' 9 = Inl ErrTokenNotFound"
proof -
  have m: "Mint test_mgmt (Some ''ab'') (Some ''cd'') ''ci'' [ScopeRead] 0 5 = Inr (ab_token, ''ab.cd'')"
    by (simp add: Mint_def ab_token_def hashSecret_def test_mgmt_def scope_Valid_def TrimSpace_def isSpace_def)
  obtain st' where s: "SaveToken test_mgmt 5 ab_token node_a = (None, st')"
    by (simp add: SaveToken_def store_Put_def test_mgmt_def Let_def)
  have "keyed node_a" by (simp add: keyed_def node_a_def)
  from minted_token_verifies [OF m _ _ _ _ _ this s, of "''T''" 9] s show ?thesis by (force simp: test_mgmt_def)
qed

theorem revoked_stays_revoked_witness:
  "\<exists>st'. RevokeToken test_mgmt 6 ''ab'' (snd (store_Put 5 KindToken ''ab'' (Some ''T'') node_a)) = (None, st') \<and> Verify test_mgmt (snd (store_Merge [mk_rec KindToken ''ab'' ''T''\<lparr>cr_Updated := 5\<rparr>] st')) ''ab.cd'' 9 = Inl ErrTokenNotFound"
proof -
  let ?st = "snd (store_Put 5 KindToken ''ab'' (Some ''T'') node_a)"
  have r: "store_reach ?st" by (rule sr_Put [OF node_a_reach]) (simp add: node_a_def)
  have v: "view ?st (make_ID KindToken ''ab'') = Some (mk_rec KindToken ''ab'' ''T''\<lparr>cr_Updated := 5\<rparr>)" "st_lamport ?st = 1"
    by (simp_all add: store_Put_def node_a_def Let_def cr_ID_def mk_rec_def)
  have k: "keyed ?st" using reach_store_ok [OF r] by simp
  have "LoadToken test_mgmt ?st ''ab'' = Inr ab_token" unfolding LoadToken_def find_record [OF k] v by (simp add: mk_rec_def test_mgmt_def)
  then obtain st' where s: "RevokeToken test_mgmt 6 ''ab'' ?st = (None, st')" by (simp add: RevokeToken_def)
  have "splitPresented ''ab.cd'' = Some (''ab'', ''cd'')" by (simp add: splitPresented_def cut_at_def)
  moreover have "cr_Lamport (mk_rec KindToken ''ab'' ''T''\<lparr>cr_Updated := 5\<rparr>) \<le> st_lamport ?st" by (simp add: mk_rec_def v(2) del: One_nat_def)
  ultimately have "Verify test_mgmt (snd (store_Merge [mk_rec KindToken ''ab'' ''T''\<lparr>cr_Updated := 5\<rparr>] st')) ''ab.cd'' 9 = Inl ErrTokenNotFound"
    using revoked_stays_revoked [OF r _ s, of "[mk_rec KindToken ''ab'' ''T''\<lparr>cr_Updated := 5\<rparr>]" "''ab.cd''" "''cd''" 9] v(2) by simp
  with s show ?thesis by blast
qed

lemma root_hashed: "HashPassword test_mgmt (Some []) ''correct horse'' = Inr root_hash"
proof -
  have d: "decimal 19 = ''19''" "decimal 65536 = ''65536''" "decimal 3 = ''3''" "decimal 4 = ''4''"
    by (simp_all add: decimal.simps char_of_def bit_0)
  show ?thesis
    by (simp add: HashPassword_def test_mgmt_def root_hash_def argonVersion_def argonMemory_def argonTime_def argonThreads_def argonKeyLen_def d)
qed

theorem password_roundtrip_witness:
  "HashPassword test_mgmt (Some []) ''correct horse'' = Inr root_hash \<and> VerifyPassword test_mgmt root_hash ''correct horse'' \<and> \<not> VerifyPassword test_mgmt root_hash ''wrong''"
proof -
  note h = root_hashed
  have "argon_ok test_mgmt [] ''correct horse''"
    by (simp add: argon_ok_def test_mgmt_def argonVersion_def argonMemory_def argonTime_def argonThreads_def argonKeyLen_def)
  from password_roundtrip [OF this h, of "''correct horse''"] password_roundtrip [OF this h, of "''wrong''"] h show ?thesis
    by (simp add: test_mgmt_def argonKeyLen_def)
qed

lemma root_login: "Authenticate test_mgmt acct_store ''root'' ''correct horse'' [] 7 = Inr (new_user ''root'' ScopeAdmin 0)"
proof -
  have "VerifyPassword test_mgmt root_hash ''correct horse''"
    by (simp add: VerifyPassword_def root_hash_def test_mgmt_def argonVersion_def)
  moreover have "user_key ''root'' = ''root''" by code_simp
  ultimately show ?thesis unfolding Authenticate_def LoadUser_def find_record [OF acct_keyed]
    by (simp add: acct_view mk_rec_def) (simp add: test_mgmt_def new_user_def)
qed

theorem login_needs_credentials_witness:
  "rp_Cookie (fst (handleLogin test_aenv 7 test_rand (get_req []) test_api)) = SetCookie ''c2'' 50
   \<and> (\<exists>u. credentials test_mgmt acct_store ''root'' ''correct horse'' [] 7 u)"
proof -
  obtain resp a' where l: "handleLogin test_aenv 7 test_rand (get_req []) test_api = (resp, a')" by (cases "handleLogin test_aenv 7 test_rand (get_req []) test_api")
  have d: "ae_decLogin test_aenv ''{}'' = Some (''root'', ''correct horse'', [])" "rd_session test_rand = Some ''c2''" "rd_csrf test_rand = Some ''y''"
    "ss_ttl (ap_sessions test_api) = 50" by (simp_all add: test_aenv_def test_rand_def test_api_def NewSessionStore_def)
  then have "rp_Cookie resp = SetCookie ''c2'' 50" using l root_login by (auto simp: handleLogin_def sess_Create_def Let_def)
  with login_needs_credentials [OF l] d(1) l show ?thesis by auto
qed

lemma bob_deleted: "rp_Code (fst (handleDeleteUser test_aenv 7 None (get_req []) test_api)) = 200"
proof -
  have k: "user_key ''bob'' = ''bob''" by code_simp
  have "mr_path (get_req []) = ''bob''" by (simp add: get_req_def)
  moreover have "LoadUser test_mgmt acct_store ''bob'' = Inr (new_user ''bob'' ScopeRead 0)"
    unfolding LoadUser_def k find_record [OF acct_keyed] by (simp add: acct_view mk_rec_def) (simp add: test_mgmt_def)
  moreover have "isLastAdmin test_mgmt acct_store ''bob'' \<noteq> Inr True"
  proof
    assume "isLastAdmin test_mgmt acct_store ''bob'' = Inr True"
    then obtain us u where "ListUsers test_mgmt acct_store = Inr us" "u \<in> set us" "us_Name u = ''bob''" "scopesAllow (us_Scopes u) ScopeAdmin"
      by (auto simp: isLastAdmin_def Let_def list_ex_iff split: sum.splits)
    moreover have "ListUsers test_mgmt acct_store = Inr (map (\<lambda>x. (the (mg_decUser test_mgmt (cr_Payload x)))\<lparr>us_Hash := [], us_TOTPSecret := []\<rparr>)
        (filter (\<lambda>x. cr_Kind x = KindUser) (store_Records acct_store)))"
      unfolding ListUsers_def using user_loop_Inr [of "store_Records acct_store" test_mgmt "[]"] by (simp add: test_mgmt_def)
    ultimately show False
      by (auto simp: test_mgmt_def new_user_def scopesAllow_def scope_implies_def scope_defs split: if_splits)
  qed
  ultimately show ?thesis by (simp add: handleDeleteUser_def DeleteUser_def k answer_def Let_def)
qed

theorem account_change_ends_sessions_witness:
  "fmlookup (ss_sessions (ap_sessions test_api)) ''c1'' = Some bob_session
   \<and> fmlookup (ss_sessions (ap_sessions (snd (handleDeleteUser test_aenv 7 None (get_req []) test_api)))) ''c1'' = None"
proof -
  obtain resp a' where l: "handleDeleteUser test_aenv 7 None (get_req []) test_api = (resp, a')" by (cases "handleDeleteUser test_aenv 7 None (get_req []) test_api")
  have "user_key (mr_path (get_req [])) = ''bob''" unfolding get_req_def by code_simp
  moreover have s: "fmlookup (ss_sessions (ap_sessions test_api)) ''c1'' = Some bob_session" by (simp add: test_api_def)
  ultimately have "fmlookup (ss_sessions (ap_sessions a')) ''c1'' \<noteq> Some sess" for sess
    using account_change_ends_sessions [of test_aenv 7 None "get_req []" test_api resp a'] l bob_deleted by (auto simp: bob_session_def)
  with l s show ?thesis by (cases "fmlookup (ss_sessions (ap_sessions a')) ''c1''") auto
qed

theorem delete_keeps_admin_witness:
  "admins test_mgmt (ap_store (snd (handleDeleteUser test_aenv 7 None (get_req []) test_api))) \<noteq> {}"
  using delete_keeps_admin [of test_aenv test_api 7 None "get_req []"] acct_ok acct_admins
  by (cases "handleDeleteUser test_aenv 7 None (get_req []) test_api") simp

theorem records_leak_users_witness:
  "\<exists>rs h. api_Handler test_aenv 7 test_rand GetRecords (get_req ''Bearer ab.cd'') test_api = (answer 200 (RecordsBody rs h), test_api)
    \<and> mk_rec KindUser ''root'' ''U'' \<in> set rs"
proof -
  let ?r = "get_req ''Bearer ab.cd''"
  have b: "bearer ?r = Some ''ab.cd''" by code_simp
  have sp: "splitPresented ''ab.cd'' = Some (''ab'', ''cd'')" by (simp add: splitPresented_def cut_at_def)
  have "LoadToken test_mgmt acct_store ''ab'' = Inr ab_token"
    unfolding LoadToken_def find_record [OF acct_keyed] by (simp add: acct_view mk_rec_def KindToken_def KindUser_def) (simp add: test_mgmt_def)
  then have v: "Verify test_mgmt acct_store ''ab.cd'' 7 = Inr ab_token" using sp by (simp add: Verify_def hashSecret_def test_mgmt_def) (simp add: ab_token_def)
  have x: "mk_rec KindUser ''root'' ''U'' \<in> set (store_Records acct_store)"
    unfolding records_live [OF acct_keyed] by (simp add: mk_rec_def acct_view)
  have "\<not> mr_local ?r" "mr_cookie ?r = None" "tk_Scopes ab_token = [ScopeRead]" "cr_Kind (mk_rec KindUser ''root'' ''U'') = KindUser"
    by (simp_all add: get_req_def ab_token_def mk_rec_def)
  with records_leak_users [of ?r "''ab.cd''" test_aenv test_api 7 ab_token "mk_rec KindUser ''root'' ''U''" test_rand] b v x show ?thesis by auto
qed

theorem create_demotes_last_admin_witness:
  "admins test_mgmt acct_store = {''root''} \<and> admins test_mgmt (ap_store (snd (handleCreateUser test_aenv 5 test_rand None (get_req []) test_api))) = {}"
proof -
  obtain resp a' where l: "handleCreateUser test_aenv 5 test_rand None (get_req []) test_api = (resp, a')" by (cases "handleCreateUser test_aenv 5 test_rand None (get_req []) test_api")
  have k: "user_key ''root'' = ''root''" by code_simp
  have d: "ae_decCreateUser test_aenv ''{}'' = Some (''root'', ''correct horse'', [ScopeRead])" "rd_salt test_rand = Some []" by (simp_all add: test_aenv_def test_rand_def)
  note root_hashed
  moreover have "mg_encUser test_mgmt (new_user ''root'' ScopeRead 5) = Some ''L''" by (simp add: test_mgmt_def new_user_def scope_defs)
  ultimately have c: "rp_Code resp = 201" using l d k
    by (auto simp: handleCreateUser_def SaveUser_def store_Put_def Let_def new_user_def scope_Valid_def answer_def)
  have enc: "\<forall>u b. mg_encUser test_mgmt u = Some b \<longrightarrow> mg_decUser test_mgmt b = Some u" by (auto simp: test_mgmt_def split: if_splits)
  have "\<not> scopesAllow [ScopeRead] ScopeAdmin" by (simp add: scopesAllow_def scope_implies_def scope_defs)
  with create_demotes_last_admin [of test_api test_aenv "''root''" "get_req []" "''{}''" "''correct horse''" "[ScopeRead]" 5 test_rand None resp a'] acct_keyed acct_admins d(1) enc l c k
  show ?thesis by simp
qed

theorem sessions_counted_witness: "ss_Active (NewSessionStore 5) = int (size (fmdom (ss_sessions (NewSessionStore 5))))"
  using sessions_counted [OF se_New, of 5] by simp

end
