(* ===== verification/Route_Agent.thy ===== *)
theory Route_Agent
  imports Netip "HOL-Library.Finite_Map"
begin

text \<open>
  \<open>internal/routeagent/routeagent.go\<close>: installing an allowed set of
  BGP-learned routes into the kernel. gobgpd, netlink and the kernel are not
  part of the repository: what gobgpd streams is an argument, and the kernel
  is a state \<open>'k\<close> with the two netlink calls as parameters (record
  \<open>netlink\<close>). \<open>kernel_ok\<close> states what the calls do to the routes of the
  kernel. Parsing of prefixes and addresses is a parameter. Go iterates maps
  in any order, so the two loops of \<open>apply\<close> take their order as an
  argument. Logging is left out.
\<close>

record ra_metrics =
  rx_Installed :: nat
  rx_Removed :: nat
  rx_Rejected :: nat
  rx_Errors :: nat
  rx_Current :: int

record ra_options =
  ra_Target :: string
  ra_Accept :: "prefix list"
  ra_MaxRoutes :: int
  ra_Table :: int
  ra_SourceV4 :: addr
  ra_SourceV6 :: addr
  ra_Metric :: int
  ra_Interval :: duration

record agent =
  ag_opts :: ra_options
  ag_installed :: "(prefix, addr) fmap"
  ag_metrics :: ra_metrics

definition RTPROT_BGP :: int where "RTPROT_BGP = 186"

record kroute =
  kr_Dst :: prefix
  kr_Gw :: addr
  kr_Protocol :: int
  kr_Priority :: int
  kr_Table :: int
  kr_Src :: "addr option"

datatype del_result = DelOK | DelESRCH | DelErr

record 'k netlink =
  RouteReplace :: "kroute \<Rightarrow> 'k \<Rightarrow> bool \<times> 'k"
  RouteDel :: "kroute \<Rightarrow> 'k \<Rightarrow> del_result \<times> 'k"

datatype ra_error = TargetRequired | AcceptRequired | ConnectFailed | NotAnswering

definition ra_New :: "ra_options \<Rightarrow> bool \<Rightarrow> bool \<Rightarrow> ra_error + agent" where
  "ra_New o0 connected answering =
     (if ra_Target o0 = [] then Inl TargetRequired
      else if length (ra_Accept o0) = 0 then Inl AcceptRequired
      else
        let o1 = (if ra_MaxRoutes o0 \<le> 0 then o0\<lparr>ra_MaxRoutes := 16\<rparr> else o0);
            o2 = (if ra_Metric o1 \<le> 0 then o1\<lparr>ra_Metric := 5\<rparr> else o1);
            o3 = (if ra_Interval o2 \<le> 0 then o2\<lparr>ra_Interval := 5 * second\<rparr> else o2)
        in if \<not> connected then Inl ConnectFailed
           else if \<not> answering then Inl NotAnswering
           else Inr \<lparr>ag_opts = o3, ag_installed = fmempty,
                     ag_metrics = \<lparr>rx_Installed = 0, rx_Removed = 0, rx_Rejected = 0, rx_Errors = 0, rx_Current = 0\<rparr>\<rparr>)"

text \<open>A destination of the RIB: its prefix text and its paths; of a path, whether it came
  from outside, its source AS, and per attribute the next hops it carries.\<close>

record bgp_attr =
  ba_NextHop :: "string option"
  ba_MpReach :: "string list option"

record bgp_path =
  bp_IsFromExternal :: bool
  bp_SourceAsn :: nat
  bp_Pattrs :: "bgp_attr list"

record bgp_dest =
  bd_Prefix :: string
  bd_Paths :: "bgp_path list"

record ra_parsers =
  ParsePrefix :: "string \<Rightarrow> prefix option"
  ra_ParseAddr :: "string \<Rightarrow> addr option"

definition candidates :: "bgp_attr \<Rightarrow> string list" where
  "candidates a = (case ba_NextHop a of None \<Rightarrow> [] | Some nh \<Rightarrow> [nh]) @ (case ba_MpReach a of None \<Rightarrow> [] | Some nhs \<Rightarrow> nhs)"

definition usable_hop :: "ra_parsers \<Rightarrow> prefix \<Rightarrow> string \<Rightarrow> addr option" where
  "usable_hop P p c = (case ra_ParseAddr P c of
       None \<Rightarrow> None
     | Some a \<Rightarrow> if IsUnspecified a then None
                 else if Is4 a \<noteq> Is4 (pfx_ip p) then None else Some a)"

definition pathOf :: "ra_parsers \<Rightarrow> bgp_dest option \<Rightarrow> (prefix \<times> addr) option" where
  "pathOf P dst = (case dst of
       None \<Rightarrow> None
     | Some d \<Rightarrow> (case ParsePrefix P (bd_Prefix d) of
         None \<Rightarrow> None
       | Some p \<Rightarrow> map_option (\<lambda>a. (p, a))
           (first_some (\<lambda>path. if bp_IsFromExternal path = False \<and> bp_SourceAsn path = 0 then None
                               else first_some (\<lambda>attr. first_some (usable_hop P p) (candidates attr)) (bp_Pattrs path))
              (bd_Paths d))))"

definition ra_allowed :: "agent \<Rightarrow> prefix \<Rightarrow> bool" where
  "ra_allowed a p = list_ex (\<lambda>want. want = p) (ra_Accept (ag_opts a))"

text \<open>What gobgpd streams for one family: the destinations received, and whether the
  stream then ended in an error.\<close>

type_synonym rib_stream = "bgp_dest option list \<times> bool"

definition learn_one :: "ra_parsers \<Rightarrow> agent \<times> (prefix, addr) fmap \<Rightarrow> bgp_dest option \<Rightarrow> agent \<times> (prefix, addr) fmap" where
  "learn_one P = (\<lambda>(a, out) d. case pathOf P d of
       None \<Rightarrow> (a, out)
     | Some (p, nh) \<Rightarrow> if \<not> ra_allowed a p
         then (a\<lparr>ag_metrics := (ag_metrics a)\<lparr>rx_Rejected := Suc (rx_Rejected (ag_metrics a))\<rparr>\<rparr>, out)
         else (a, fmupd p nh out))"

fun learn_families :: "ra_parsers \<Rightarrow> rib_stream list \<Rightarrow> agent \<times> (prefix, addr) fmap \<Rightarrow> agent \<times> (prefix, addr) fmap option" where
  "learn_families P [] (a, out) = (a, Some out)"
| "learn_families P ((ds, err) # fs) (a, out) =
     (let (a1, out1) = foldl (learn_one P) (a, out) ds in
      if err then (a1, None) else learn_families P fs (a1, out1))"

definition learned :: "ra_parsers \<Rightarrow> rib_stream \<Rightarrow> rib_stream \<Rightarrow> agent \<Rightarrow> agent \<times> (prefix, addr) fmap option" where
  "learned P v4 v6 a = (case learn_families P [v4, v6] (a, fmempty) of
       (a1, None) \<Rightarrow> (a1, None)
     | (a1, Some out) \<Rightarrow> if int (size (fmdom out)) > ra_MaxRoutes (ag_opts a) then (a1, None) else (a1, Some out))"

definition sourceFor :: "agent \<Rightarrow> prefix \<Rightarrow> addr" where
  "sourceFor a p = (if Is4 (pfx_ip p) then ra_SourceV4 (ag_opts a) else ra_SourceV6 (ag_opts a))"

definition routeFor :: "agent \<Rightarrow> prefix \<Rightarrow> addr \<Rightarrow> kroute" where
  "routeFor a p nh = \<lparr>kr_Dst = p, kr_Gw = nh, kr_Protocol = RTPROT_BGP, kr_Priority = ra_Metric (ag_opts a),
     kr_Table = ra_Table (ag_opts a), kr_Src = (if IsValid (sourceFor a p) then Some (sourceFor a p) else None)\<rparr>"

definition ra_install :: "'k netlink \<Rightarrow> agent \<Rightarrow> prefix \<Rightarrow> addr \<Rightarrow> 'k \<Rightarrow> bool \<times> 'k" where
  "ra_install K a p nh k = (if Is4 (pfx_ip p) \<noteq> Is4 nh then (False, k) else RouteReplace K (routeFor a p nh) k)"

definition ra_remove :: "'k netlink \<Rightarrow> agent \<Rightarrow> prefix \<Rightarrow> 'k \<Rightarrow> bool \<times> 'k" where
  "ra_remove K a p k = (case fmlookup (ag_installed a) p of
       None \<Rightarrow> (True, k)
     | Some nh \<Rightarrow> let (r, k1) = RouteDel K (routeFor a p nh) k in (r \<noteq> DelErr, k1))"

fun install_loop :: "'k netlink \<Rightarrow> (prefix, addr) fmap \<Rightarrow> prefix list \<Rightarrow> bool \<Rightarrow> agent \<Rightarrow> 'k \<Rightarrow> bool \<times> agent \<times> 'k" where
  "install_loop K desired [] err a k = (err, a, k)"
| "install_loop K desired (p # ps) err a k = (case fmlookup desired p of
     None \<Rightarrow> install_loop K desired ps err a k
   | Some nh \<Rightarrow>
       if fmlookup (ag_installed a) p = Some nh then install_loop K desired ps err a k
       else let (ok, k1) = ra_install K a p nh k in
         if \<not> ok then install_loop K desired ps True a k1
         else install_loop K desired ps err
                (a\<lparr>ag_installed := fmupd p nh (ag_installed a),
                   ag_metrics := (ag_metrics a)\<lparr>rx_Installed := Suc (rx_Installed (ag_metrics a))\<rparr>\<rparr>) k1)"

fun remove_loop :: "'k netlink \<Rightarrow> (prefix, addr) fmap \<Rightarrow> prefix list \<Rightarrow> bool \<Rightarrow> agent \<Rightarrow> 'k \<Rightarrow> bool \<times> agent \<times> 'k" where
  "remove_loop K desired [] err a k = (err, a, k)"
| "remove_loop K desired (p # ps) err a k =
     (if fmlookup (ag_installed a) p = None \<or> fmlookup desired p \<noteq> None then remove_loop K desired ps err a k
      else let (ok, k1) = ra_remove K a p k in
        if \<not> ok then remove_loop K desired ps True a k1
        else remove_loop K desired ps err
               (a\<lparr>ag_installed := fmdrop p (ag_installed a),
                  ag_metrics := (ag_metrics a)\<lparr>rx_Removed := Suc (rx_Removed (ag_metrics a))\<rparr>\<rparr>) k1)"

definition ra_apply :: "'k netlink \<Rightarrow> prefix list \<Rightarrow> prefix list \<Rightarrow> (prefix, addr) fmap \<Rightarrow> agent \<Rightarrow> 'k \<Rightarrow> bool \<times> agent \<times> 'k" where
  "ra_apply K ord1 ord2 desired a k =
     (let (err1, a1, k1) = install_loop K desired ord1 False a k;
          (err2, a2, k2) = remove_loop K desired ord2 err1 a1 k1
      in (err2, a2\<lparr>ag_metrics := (ag_metrics a2)\<lparr>rx_Current := int (size (fmdom (ag_installed a2)))\<rparr>\<rparr>, k2))"

definition add_error :: "agent \<Rightarrow> agent" where
  "add_error a = a\<lparr>ag_metrics := (ag_metrics a)\<lparr>rx_Errors := Suc (rx_Errors (ag_metrics a))\<rparr>\<rparr>"

definition reconcileOnce :: "ra_parsers \<Rightarrow> 'k netlink \<Rightarrow> prefix list \<Rightarrow> prefix list \<Rightarrow> rib_stream \<Rightarrow> rib_stream \<Rightarrow> agent \<Rightarrow> 'k
    \<Rightarrow> agent \<times> 'k" where
  "reconcileOnce P K ord1 ord2 v4 v6 a k = (case learned P v4 v6 a of
       (a1, None) \<Rightarrow> (add_error a1, k)
     | (a1, Some desired) \<Rightarrow>
         let (err, a2, k1) = ra_apply K ord1 ord2 desired a1 k in (if err then add_error a2 else a2, k1))"

fun ra_Close :: "'k netlink \<Rightarrow> prefix list \<Rightarrow> agent \<Rightarrow> 'k \<Rightarrow> 'k" where
  "ra_Close K [] a k = k"
| "ra_Close K (p # ps) a k = ra_Close K ps a (snd (ra_remove K a p k))"

section \<open>The kernel's routes\<close>

text \<open>What the netlink calls do, on the set of routes the kernel holds: a replace puts the
  route in place of the one with its destination, table and priority, a delete takes
  the route out, and a call that fails changes nothing.\<close>

definition route_key :: "kroute \<Rightarrow> prefix \<times> int \<times> int" where
  "route_key r = (kr_Dst r, kr_Table r, kr_Priority r)"

definition kernel_ok :: "'k netlink \<Rightarrow> ('k \<Rightarrow> kroute set) \<Rightarrow> bool" where
  "kernel_ok K routes \<longleftrightarrow>
     (\<forall>r k. routes (snd (RouteReplace K r k)) =
        (if fst (RouteReplace K r k) then insert r {r' \<in> routes k. route_key r' \<noteq> route_key r} else routes k))
     \<and> (\<forall>r k. routes (snd (RouteDel K r k)) =
        (if fst (RouteDel K r k) = DelOK then routes k - {r} else routes k))
     \<and> (\<forall>r k. fst (RouteDel K r k) = DelESRCH \<longrightarrow> r \<notin> routes k)"

lemma kernel_okD:
  assumes "kernel_ok K routes"
  shows "routes (snd (RouteReplace K r k)) =
      (if fst (RouteReplace K r k) then insert r {r' \<in> routes k. route_key r' \<noteq> route_key r} else routes k)"
    and "routes (snd (RouteDel K r k)) = (if fst (RouteDel K r k) = DelOK then routes k - {r} else routes k)"
    and "fst (RouteDel K r k) = DelESRCH \<Longrightarrow> r \<notin> routes k"
  using assms unfolding kernel_ok_def by blast+

definition own :: "agent \<Rightarrow> kroute set" where
  "own a = {routeFor a p nh |p nh. fmlookup (ag_installed a) p = Some nh}"

definition bgp :: "kroute set \<Rightarrow> kroute set" where
  "bgp R = {r \<in> R. kr_Protocol r = RTPROT_BGP}"

lemma routeFor_simps [simp]:
  "kr_Dst (routeFor a p nh) = p" "kr_Protocol (routeFor a p nh) = RTPROT_BGP" "kr_Gw (routeFor a p nh) = nh"
  "kr_Table (routeFor a p nh) = ra_Table (ag_opts a)" "kr_Priority (routeFor a p nh) = ra_Metric (ag_opts a)"
  by (simp_all add: routeFor_def)

lemma routeFor_cong: "ag_opts a' = ag_opts a \<Longrightarrow> routeFor a' = routeFor a"
  by (simp add: routeFor_def sourceFor_def fun_eq_iff)

lemma own_upd:
  assumes "ag_opts a' = ag_opts a" "ag_installed a' = fmupd p nh (ag_installed a)"
  shows "own a' = insert (routeFor a p nh) {r \<in> own a. route_key r \<noteq> route_key (routeFor a p nh)}"
  unfolding own_def routeFor_cong [OF assms(1)] by (auto simp: assms(2) route_key_def split: if_splits)

lemma own_drop:
  assumes "ag_opts a' = ag_opts a" "ag_installed a' = fmdrop p (ag_installed a)" "fmlookup (ag_installed a) p = Some nh"
  shows "own a' = own a - {routeFor a p nh}"
proof -
  have "routeFor a q h = routeFor a p nh \<longleftrightarrow> q = p \<and> h = nh" for q h by (auto simp: routeFor_def)
  then show ?thesis unfolding own_def routeFor_cong [OF assms(1)] by (auto simp: assms(2,3) split: if_splits)
qed

text \<open>One kernel call of each kind, on the agent's routes and on everyone else's.\<close>

lemma install_step:
  assumes K: "kernel_ok K routes" and inv: "bgp (routes k) = own a" and i: "ra_install K a p nh k = (True, k1)"
    and a': "ag_opts a' = ag_opts a" "ag_installed a' = fmupd p nh (ag_installed a)"
  shows "bgp (routes k1) = own a'"
    and "r \<in> routes k \<Longrightarrow> kr_Protocol r \<noteq> RTPROT_BGP \<Longrightarrow> kr_Dst r \<noteq> p \<Longrightarrow> r \<in> routes k1"
    and "r \<in> routes k1 \<Longrightarrow> kr_Protocol r \<noteq> RTPROT_BGP \<Longrightarrow> r \<in> routes k"
proof -
  have f: "RouteReplace K (routeFor a p nh) k = (True, k1)" using i by (auto simp: ra_install_def split: if_splits)
  then have k1: "routes k1 = insert (routeFor a p nh) {r' \<in> routes k. route_key r' \<noteq> route_key (routeFor a p nh)}"
    using kernel_okD(1) [OF K, of "routeFor a p nh" k] by simp
  have "bgp (routes k1) = insert (routeFor a p nh) {r \<in> bgp (routes k). route_key r \<noteq> route_key (routeFor a p nh)}"
    unfolding k1 bgp_def by auto
  then show "bgp (routes k1) = own a'" unfolding inv own_upd [OF a'] .
  show "r \<in> routes k \<Longrightarrow> kr_Protocol r \<noteq> RTPROT_BGP \<Longrightarrow> kr_Dst r \<noteq> p \<Longrightarrow> r \<in> routes k1"
    unfolding k1 by (auto simp: route_key_def)
  show "r \<in> routes k1 \<Longrightarrow> kr_Protocol r \<noteq> RTPROT_BGP \<Longrightarrow> r \<in> routes k" unfolding k1 by auto
qed

lemma install_fail: "kernel_ok K routes \<Longrightarrow> ra_install K a p nh k = (False, k1) \<Longrightarrow> routes k1 = routes k"
  using kernel_okD(1) [of K routes "routeFor a p nh" k] by (auto simp: ra_install_def split: if_splits)

lemma remove_step:
  assumes K: "kernel_ok K routes" and inv: "bgp (routes k) = own a" and p: "fmlookup (ag_installed a) p = Some nh"
    and i: "ra_remove K a p k = (True, k1)"
    and a': "ag_opts a' = ag_opts a" "ag_installed a' = fmdrop p (ag_installed a)"
  shows "bgp (routes k1) = own a'" and "routes k1 = routes k - {routeFor a p nh}"
proof -
  have own: "routeFor a p nh \<in> bgp (routes k)" unfolding inv own_def using p by blast
  have d: "fst (RouteDel K (routeFor a p nh) k) \<noteq> DelErr" "k1 = snd (RouteDel K (routeFor a p nh) k)"
    using i p by (auto simp: ra_remove_def split_beta Let_def)
  moreover have "fst (RouteDel K (routeFor a p nh) k) \<noteq> DelESRCH"
    using kernel_okD(3) [OF K] own unfolding bgp_def by blast
  ultimately have "fst (RouteDel K (routeFor a p nh) k) = DelOK" by (cases "fst (RouteDel K (routeFor a p nh) k)") auto
  then show k1: "routes k1 = routes k - {routeFor a p nh}" using kernel_okD(2) [OF K] d(2) by simp
  have "bgp (routes k1) = bgp (routes k) - {routeFor a p nh}" unfolding k1 bgp_def by blast
  then show "bgp (routes k1) = own a'" unfolding inv own_drop [OF a' p] .
qed

lemma remove_fail: "kernel_ok K routes \<Longrightarrow> ra_remove K a p k = (False, k1) \<Longrightarrow> routes k1 = routes k"
  by (cases "fmlookup (ag_installed a) p")
     (auto simp: ra_remove_def split_beta Let_def kernel_okD(2))

section \<open>The loops\<close>

definition foreign_kept :: "(prefix, addr) fmap \<Rightarrow> kroute set \<Rightarrow> kroute set \<Rightarrow> bool" where
  "foreign_kept desired R R' \<longleftrightarrow>
     (\<forall>r. kr_Protocol r \<noteq> RTPROT_BGP \<longrightarrow> (r \<in> R' \<longrightarrow> r \<in> R) \<and> (r \<in> R \<and> fmlookup desired (kr_Dst r) = None \<longrightarrow> r \<in> R'))"

lemma foreign_refl [simp]: "foreign_kept d R R"
  by (simp add: foreign_kept_def)

lemma foreign_trans:
  assumes a: "foreign_kept d R R'" and b: "foreign_kept d R' R''"
  shows "foreign_kept d R R''"
  unfolding foreign_kept_def
proof (intro allI impI conjI)
  fix r :: kroute assume r: "kr_Protocol r \<noteq> RTPROT_BGP"
  note A = a [unfolded foreign_kept_def, rule_format, OF r] and B = b [unfolded foreign_kept_def, rule_format, OF r]
  show "r \<in> R'' \<Longrightarrow> r \<in> R" using A B by blast
  show "r \<in> R \<and> fmlookup d (kr_Dst r) = None \<Longrightarrow> r \<in> R''" using A B by blast
qed

lemma install_loop_spec:
  assumes K: "kernel_ok K routes" and "bgp (routes k) = own a"
    and "install_loop K desired ps err a k = (err', a', k')"
  shows "ag_opts a' = ag_opts a \<and> bgp (routes k') = own a' \<and> foreign_kept desired (routes k) (routes k')
    \<and> (\<forall>p. fmlookup (ag_installed a') p = fmlookup (ag_installed a) p
          \<or> fmlookup desired p \<noteq> None \<and> fmlookup (ag_installed a') p = fmlookup desired p)
    \<and> (\<not> err' \<longrightarrow> \<not> err \<and> (\<forall>p \<in> set ps. fmlookup desired p \<noteq> None \<longrightarrow> fmlookup (ag_installed a') p = fmlookup desired p))"
  using assms(2,3)
proof (induction ps arbitrary: err a k)
  case (Cons p ps)
  show ?case
  proof (cases "fmlookup desired p = None \<or> fmlookup desired p = fmlookup (ag_installed a) p")
    case True
    then have "install_loop K desired ps err a k = (err', a', k')" using Cons.prems(2) by (auto split: option.splits if_splits)
    from Cons.IH [OF Cons.prems(1) this] True show ?thesis by (metis set_ConsD)
  next
    case False
    then obtain nh where nh: "fmlookup desired p = Some nh" "fmlookup (ag_installed a) p \<noteq> Some nh" by auto
    obtain ok k1 where i: "ra_install K a p nh k = (ok, k1)" by fastforce
    show ?thesis
    proof (cases ok)
      case False
      have l: "install_loop K desired ps True a k1 = (err', a', k')" using Cons.prems(2) nh i False by simp
      have "routes k1 = routes k" using install_fail [OF K] i False by simp
      with Cons.IH [OF _ l] Cons.prems(1) show ?thesis by simp
    next
      case True
      define a1 where "a1 = a\<lparr>ag_installed := fmupd p nh (ag_installed a),
          ag_metrics := (ag_metrics a)\<lparr>rx_Installed := Suc (rx_Installed (ag_metrics a))\<rparr>\<rparr>"
      have a1: "ag_opts a1 = ag_opts a" "ag_installed a1 = fmupd p nh (ag_installed a)" by (simp_all add: a1_def)
      have "ra_install K a p nh k = (True, k1)" using i True by simp
      note S = install_step [OF K Cons.prems(1) this a1]
      have l: "install_loop K desired ps err a1 k1 = (err', a', k')" using Cons.prems(2) nh i True by (simp add: a1_def)
      note IH = Cons.IH [OF S(1) l]
      have "foreign_kept desired (routes k) (routes k1)"
        using S(2,3) nh(1) unfolding foreign_kept_def by (metis option.distinct(1))
      then have "foreign_kept desired (routes k) (routes k')" using IH foreign_trans by blast
      moreover have m: "fmlookup (ag_installed a') q = (if q = p then Some nh else fmlookup (ag_installed a) q)
          \<or> fmlookup desired q \<noteq> None \<and> fmlookup (ag_installed a') q = fmlookup desired q" for q
        using IH [THEN conjunct2, THEN conjunct2, THEN conjunct2, THEN conjunct1, THEN spec, of q] unfolding a1 by auto
      moreover have p: "fmlookup (ag_installed a') p = fmlookup desired p" using m [of p] nh(1) by auto
      moreover have "fmlookup (ag_installed a') q = fmlookup (ag_installed a) q
          \<or> fmlookup desired q \<noteq> None \<and> fmlookup (ag_installed a') q = fmlookup desired q" for q
        using m [of q] p nh(1) by (cases "q = p") auto
      ultimately show ?thesis using IH a1(1) by simp
    qed
  qed
qed auto

lemma remove_loop_spec:
  assumes K: "kernel_ok K routes" and "bgp (routes k) = own a"
    and "remove_loop K desired ps err a k = (err', a', k')"
  shows "ag_opts a' = ag_opts a \<and> bgp (routes k') = own a' \<and> foreign_kept desired (routes k) (routes k')
    \<and> (\<forall>p. fmlookup (ag_installed a') p = fmlookup (ag_installed a) p
          \<or> fmlookup desired p = None \<and> fmlookup (ag_installed a') p = None)
    \<and> (\<not> err' \<longrightarrow> \<not> err \<and> (\<forall>p \<in> set ps. fmlookup desired p = None \<longrightarrow> fmlookup (ag_installed a') p = None))"
  using assms(2,3)
proof (induction ps arbitrary: err a k)
  case (Cons p ps)
  show ?case
  proof (cases "fmlookup (ag_installed a) p = None \<or> fmlookup desired p \<noteq> None")
    case True
    then have "remove_loop K desired ps err a k = (err', a', k')" using Cons.prems(2) by simp
    from Cons.IH [OF Cons.prems(1) this] True show ?thesis by (metis set_ConsD)
  next
    case False
    then obtain nh where nh: "fmlookup (ag_installed a) p = Some nh" "fmlookup desired p = None" by auto
    obtain ok k1 where i: "ra_remove K a p k = (ok, k1)" by fastforce
    show ?thesis
    proof (cases ok)
      case False
      have l: "remove_loop K desired ps True a k1 = (err', a', k')" using Cons.prems(2) nh i False by simp
      have "routes k1 = routes k" using remove_fail [OF K] i False by simp
      with Cons.IH [OF _ l] Cons.prems(1) show ?thesis by simp
    next
      case True
      define a1 where "a1 = a\<lparr>ag_installed := fmdrop p (ag_installed a),
          ag_metrics := (ag_metrics a)\<lparr>rx_Removed := Suc (rx_Removed (ag_metrics a))\<rparr>\<rparr>"
      have a1: "ag_opts a1 = ag_opts a" "ag_installed a1 = fmdrop p (ag_installed a)" by (simp_all add: a1_def)
      have "ra_remove K a p k = (True, k1)" using i True by simp
      note S = remove_step [OF K Cons.prems(1) nh(1) this a1]
      have l: "remove_loop K desired ps err a1 k1 = (err', a', k')" using Cons.prems(2) nh i True by (simp add: a1_def)
      note IH = Cons.IH [OF S(1) l]
      have "foreign_kept desired (routes k) (routes k1)" unfolding S(2) foreign_kept_def by auto
      then have "foreign_kept desired (routes k) (routes k')" using IH foreign_trans by blast
      moreover have m: "fmlookup (ag_installed a') q = (if q = p then None else fmlookup (ag_installed a) q)
          \<or> fmlookup desired q = None \<and> fmlookup (ag_installed a') q = None" for q
        using IH [THEN conjunct2, THEN conjunct2, THEN conjunct2, THEN conjunct1, THEN spec, of q] unfolding a1 by auto
      moreover have p: "fmlookup (ag_installed a') p = None" using m [of p] by auto
      moreover have "fmlookup (ag_installed a') q = fmlookup (ag_installed a) q
          \<or> fmlookup desired q = None \<and> fmlookup (ag_installed a') q = None" for q
        using m [of q] p nh(2) by (cases "q = p") auto
      ultimately show ?thesis using IH a1(1) by simp
    qed
  qed
qed auto

section \<open>Properties\<close>

text \<open>Reconciling makes the kernel match: when the kernel's BGP routes are the ones the
  agent tracks, \<open>apply\<close> keeps that so however many calls fail; when it reports no
  error they are exactly the desired ones, each via its next hop. Routes of any other
  protocol are never added, and one for a destination that is not desired stays.\<close>

theorem apply_matches_desired:
  assumes "kernel_ok K routes" and "bgp (routes k) = own a"
    and "fset (fmdom desired) \<subseteq> set ord1" and "fset (fmdom (ag_installed a)) \<subseteq> set ord2"
    and "ra_apply K ord1 ord2 desired a k = (err, a', k')"
  shows "bgp (routes k') = own a'
    \<and> (\<not> err \<longrightarrow> bgp (routes k') = {routeFor a p nh |p nh. fmlookup desired p = Some nh})
    \<and> (\<forall>r. kr_Protocol r \<noteq> RTPROT_BGP \<longrightarrow> (r \<in> routes k' \<longrightarrow> r \<in> routes k)
         \<and> (r \<in> routes k \<and> fmlookup desired (kr_Dst r) = None \<longrightarrow> r \<in> routes k'))"
proof -
  obtain e1 a1 k1 where l1: "install_loop K desired ord1 False a k = (e1, a1, k1)" by (metis prod_cases3)
  obtain e2 a2 k2 where l: "remove_loop K desired ord2 e1 a1 k1 = (e2, a2, k2)" by (metis prod_cases3)
  then have l2: "remove_loop K desired ord2 e1 a1 k1 = (err, a2, k')"
    and a': "ag_opts a' = ag_opts a2" "ag_installed a' = ag_installed a2"
    using assms(5) l1 by (auto simp: ra_apply_def Let_def)
  note I = install_loop_spec [OF assms(1,2) l1]
  have b1: "bgp (routes k1) = own a1" using I by blast
  note R = remove_loop_spec [OF assms(1) b1 l2]
  have own': "own a' = own a2" using a' routeFor_cong [OF a'(1)] by (simp add: own_def)
  have opts: "routeFor a' = routeFor a" using a' I R by (intro routeFor_cong) simp
  have "foreign_kept desired (routes k) (routes k')" using I R foreign_trans by blast
  moreover have "fmlookup (ag_installed a') p = fmlookup desired p" if "\<not> err" for p
  proof -
    have e1: "\<not> e1" using R that by blast
    show ?thesis
    proof (cases "fmlookup desired p = None")
      case False
      then have "p \<in> set ord1" using assms(3) by (metis fmdomI not_None_eq subsetD)
      then have "fmlookup (ag_installed a1) p = fmlookup desired p" using I e1 False by blast
      with R False show ?thesis unfolding a' by metis
    next
      case True
      show ?thesis
      proof (cases "p \<in> set ord2")
        case False
        then have "fmlookup (ag_installed a) p = None" using assms(4) by (metis fmdomI not_None_eq subsetD)
        then have "fmlookup (ag_installed a1) p = None" using I True by metis
        with R True show ?thesis unfolding a' by metis
      qed (use R that True in \<open>simp add: a'\<close>)
    qed
  qed
  then have "\<not> err \<Longrightarrow> own a' = {routeFor a p nh |p nh. fmlookup desired p = Some nh}"
    unfolding own_def opts by simp
  moreover have "bgp (routes k') = own a'" using R own' by simp
  ultimately show ?thesis unfolding foreign_kept_def by blast
qed

lemma pathOf_hop:
  assumes "pathOf P d = Some (p, nh)"
  shows "Is4 nh = Is4 (pfx_ip p) \<and> \<not> IsUnspecified nh
    \<and> (\<exists>dst path. d = Some dst \<and> ParsePrefix P (bd_Prefix dst) = Some p \<and> path \<in> set (bd_Paths dst)
         \<and> (bp_IsFromExternal path \<or> bp_SourceAsn path \<noteq> 0))"
proof -
  obtain dst where dst: "d = Some dst" "ParsePrefix P (bd_Prefix dst) = Some p"
    using assms by (auto simp: pathOf_def split: option.splits)
  then have "first_some (\<lambda>path. if bp_IsFromExternal path = False \<and> bp_SourceAsn path = 0 then None
      else first_some (\<lambda>attr. first_some (usable_hop P p) (candidates attr)) (bp_Pattrs path)) (bd_Paths dst) = Some nh"
    using assms by (simp add: pathOf_def)
  from first_some_SomeD [OF this] obtain path where path: "path \<in> set (bd_Paths dst)"
      "bp_IsFromExternal path \<or> bp_SourceAsn path \<noteq> 0"
      "first_some (\<lambda>attr. first_some (usable_hop P p) (candidates attr)) (bp_Pattrs path) = Some nh"
    by (auto split: if_splits)
  from first_some_SomeD [OF path(3)] obtain attr where "first_some (usable_hop P p) (candidates attr) = Some nh" by blast
  from first_some_SomeD [OF this] obtain c where "usable_hop P p c = Some nh" by blast
  then show ?thesis using dst path by (auto simp: usable_hop_def split: option.splits if_splits)
qed

definition routes_allowed :: "agent \<Rightarrow> (prefix, addr) fmap \<Rightarrow> bool" where
  "routes_allowed a out \<longleftrightarrow> (\<forall>p nh. fmlookup out p = Some nh \<longrightarrow>
     p \<in> set (ra_Accept (ag_opts a)) \<and> Is4 nh = Is4 (pfx_ip p) \<and> \<not> IsUnspecified nh)"

lemma learn_one_ok:
  assumes "routes_allowed a out"
  shows "routes_allowed a (snd (learn_one P (a, out) d)) \<and> ag_opts (fst (learn_one P (a, out) d)) = ag_opts a
    \<and> ag_installed (fst (learn_one P (a, out) d)) = ag_installed a"
proof (cases "pathOf P d")
  case None
  then show ?thesis using assms by (simp add: learn_one_def)
next
  case (Some q)
  obtain p nh where q: "q = (p, nh)" by fastforce
  show ?thesis using Some q assms pathOf_hop [of P d p nh]
    by (auto simp: learn_one_def routes_allowed_def ra_allowed_def list_ex_iff)
qed

lemma routes_allowed_cong: "ag_opts a' = ag_opts a \<Longrightarrow> routes_allowed a' = routes_allowed a"
  by (simp add: routes_allowed_def fun_eq_iff)

lemma learn_fold_ok:
  "routes_allowed a out \<Longrightarrow> foldl (learn_one P) (a, out) ds = (a', out') \<Longrightarrow>
   routes_allowed a out' \<and> ag_opts a' = ag_opts a \<and> ag_installed a' = ag_installed a"
proof (induction ds arbitrary: a out)
  case (Cons d ds)
  obtain a1 out1 where d: "learn_one P (a, out) d = (a1, out1)" by fastforce
  have o: "routes_allowed a out1" "ag_opts a1 = ag_opts a" "ag_installed a1 = ag_installed a"
    using learn_one_ok [OF Cons.prems(1), of P d] d by simp_all
  then show ?case using Cons.IH [of a1 out1] Cons.prems(2) d routes_allowed_cong [OF o(2)] by simp
qed simp

lemma learn_families_ok:
  "routes_allowed a out \<Longrightarrow> learn_families P fs (a, out) = (a', r) \<Longrightarrow>
   ag_opts a' = ag_opts a \<and> ag_installed a' = ag_installed a \<and> (\<forall>out'. r = Some out' \<longrightarrow> routes_allowed a out')"
proof (induction fs arbitrary: a out)
  case (Cons f fs)
  obtain ds err where f: "f = (ds, err)" by fastforce
  obtain a1 out1 where d: "foldl (learn_one P) (a, out) ds = (a1, out1)" by fastforce
  note o = learn_fold_ok [OF Cons.prems(1) d]
  show ?case
  proof (cases err)
    case True
    then show ?thesis using Cons.prems(2) o by (simp add: f d)
  next
    case False
    then have "learn_families P fs (a1, out1) = (a', r)" using Cons.prems(2) by (simp add: f d)
    moreover have "routes_allowed a1 out1" using o routes_allowed_cong by metis
    ultimately show ?thesis using Cons.IH [of a1 out1] o routes_allowed_cong by metis
  qed
qed auto

text \<open>Only allowed routes are learned: whatever gobgpd streams, the routes \<open>learned\<close>
  returns are at most \<open>MaxRoutes\<close>, each is for a prefix that is literally on the
  accept list, via a specified next hop of the prefix's own address family; and reading
  leaves what the agent tracks alone.\<close>

theorem learned_allowed:
  assumes "learned P v4 v6 a = (a', r)"
  shows "ag_installed a' = ag_installed a
    \<and> (\<forall>out. r = Some out \<longrightarrow> int (size (fmdom out)) \<le> ra_MaxRoutes (ag_opts a)
         \<and> (\<forall>p nh. fmlookup out p = Some nh \<longrightarrow>
              p \<in> set (ra_Accept (ag_opts a)) \<and> Is4 nh = Is4 (pfx_ip p) \<and> \<not> IsUnspecified nh))"
proof -
  obtain a1 r1 where l: "learn_families P [v4, v6] (a, fmempty) = (a1, r1)" by fastforce
  have "routes_allowed a fmempty" by (simp add: routes_allowed_def)
  note L = learn_families_ok [OF this l]
  have "a' = a1" "r = None \<or> r = r1 \<and> (\<exists>out. r1 = Some out \<and> int (size (fmdom out)) \<le> ra_MaxRoutes (ag_opts a))"
    using assms l by (auto simp: learned_def split: option.splits if_splits)
  with L show ?thesis unfolding routes_allowed_def by auto
qed

lemma install_loop_noop: "(\<forall>p. fmlookup desired p = fmlookup (ag_installed a) p) \<Longrightarrow> install_loop K desired ps err a k = (err, a, k)"
  by (induction ps) (auto split: option.splits)

lemma remove_loop_noop: "(\<forall>p. fmlookup desired p = fmlookup (ag_installed a) p) \<Longrightarrow> remove_loop K desired ps err a k = (err, a, k)"
  by (induction ps) auto

text \<open>Drift is not repaired: when gobgpd offers exactly the routes the agent has on record,
  a reconcile makes no kernel call and reports success, whatever routes the kernel
  really holds.\<close>

theorem apply_ignores_drift:
  "\<exists>a'. ra_apply K ord1 ord2 (ag_installed a) a k = (False, a', k) \<and> ag_installed a' = ag_installed a"
  by (simp add: ra_apply_def install_loop_noop remove_loop_noop Let_def)

definition set_kernel :: "kroute set netlink" where
  "set_kernel = \<lparr>RouteReplace = (\<lambda>r R. (True, insert r {r' \<in> R. route_key r' \<noteq> route_key r})),
     RouteDel = (\<lambda>r R. if r \<in> R then (DelOK, R - {r}) else (DelESRCH, R))\<rparr>"

lemma set_kernel_ok: "kernel_ok set_kernel (\<lambda>R. R)"
  by (auto simp: kernel_ok_def set_kernel_def)

definition dflt :: prefix where "dflt = \<lparr>pfx_ip = AddrV4 0, pfx_bits = 0\<rparr>"

definition test_agent :: agent where
  "test_agent = \<lparr>ag_opts = \<lparr>ra_Target = ''g'', ra_Accept = [dflt], ra_MaxRoutes = 1, ra_Table = 0, ra_SourceV4 = AddrZero,
     ra_SourceV6 = AddrZero, ra_Metric = 5, ra_Interval = second\<rparr>, ag_installed = fmempty,
     ag_metrics = \<lparr>rx_Installed = 0, rx_Removed = 0, rx_Rejected = 0, rx_Errors = 0, rx_Current = 0\<rparr>\<rparr>"

theorem apply_matches_desired_witness:
  "\<exists>a' k'. ra_apply set_kernel [dflt] [] (fmupd dflt (AddrV4 1) fmempty) test_agent {} = (False, a', k')
     \<and> bgp k' = {routeFor test_agent dflt (AddrV4 1)}"
proof -
  let ?d = "fmupd dflt (AddrV4 1) fmempty"
  have b: "bgp {} = own test_agent" by (simp add: bgp_def own_def test_agent_def)
  obtain err a' k' where r: "ra_apply set_kernel [dflt] [] ?d test_agent {} = (err, a', k')" by (metis prod_cases3)
  have "err = False"
    using r by (auto simp: ra_apply_def ra_install_def set_kernel_def test_agent_def dflt_def Is4_def)
  moreover have "{routeFor test_agent p nh |p nh. fmlookup ?d p = Some nh} = {routeFor test_agent dflt (AddrV4 1)}"
    by (auto split: if_splits)
  moreover have "fset (fmdom (ag_installed test_agent)) \<subseteq> set []" by (simp add: test_agent_def)
  ultimately show ?thesis using apply_matches_desired [OF set_kernel_ok b _ _ r] r by auto
qed

theorem learned_allowed_witness:
  "\<exists>a' r. learned \<lparr>ParsePrefix = (\<lambda>_. Some dflt), ra_ParseAddr = (\<lambda>_. Some (AddrV4 1))\<rparr>
       ([Some \<lparr>bd_Prefix = ''0.0.0.0/0'', bd_Paths = []\<rparr>], False) ([], False) test_agent = (a', r)
     \<and> ag_installed a' = fmempty"
proof -
  let ?P = "\<lparr>ParsePrefix = (\<lambda>_. Some dflt), ra_ParseAddr = (\<lambda>_. Some (AddrV4 1))\<rparr>"
  obtain a' r where l: "learned ?P ([Some \<lparr>bd_Prefix = ''0.0.0.0/0'', bd_Paths = []\<rparr>], False) ([], False) test_agent = (a', r)"
    by fastforce
  with learned_allowed [OF l] show ?thesis by (simp add: test_agent_def)
qed

end
