(* ===== verification/Resolver_Names.thy ===== *)
theory Resolver_Names
  imports Dns
begin

text \<open>
  The recursion engine's handling of names: \<open>internal/resolver/bailiwick.go\<close>
  (which records of a response may be believed), \<open>qmin.go\<close> (query name
  minimisation) and \<open>dns0x20.go\<close> (case randomisation). The random source is
  an argument, the sequence of its 64-bit draws. \<open>normaliseCase\<close> mutates the
  records of a message; lowering a name twice is lowering it once, so records
  shared between sections make no difference and it is a function here.
\<close>

section \<open>Bailiwick\<close>

definition inBailiwick :: "dnslib \<Rightarrow> string \<Rightarrow> string \<Rightarrow> bool" where
  "inBailiwick L name0 zone0 =
     (let name = CanonicalName L name0; zone = CanonicalName L zone0 in
      if zone = ''.'' then True else if name = zone then True else IsSubDomain L zone name)"

definition is_address :: "rr \<Rightarrow> bool" where
  "is_address r = (case rr_data r of RA _ \<Rightarrow> True | RAAAA _ \<Rightarrow> True | _ \<Rightarrow> False)"

definition filterGlue :: "dnslib \<Rightarrow> rr list \<Rightarrow> string \<Rightarrow> rr list" where
  "filterGlue L rrs zone = filter (\<lambda>r. is_address r \<and> inBailiwick L (rh_Name (rr_hdr r)) zone) rrs"

definition is_NS :: "rr \<Rightarrow> bool" where
  "is_NS r = (case rr_data r of RNS _ \<Rightarrow> True | _ \<Rightarrow> False)"

text \<open>The loop over the authority section: \<open>None\<close> is the early return on a second owner.\<close>

fun referral_loop :: "dnslib \<Rightarrow> rr list \<Rightarrow> string \<Rightarrow> string option" where
  "referral_loop L [] zone = Some zone"
| "referral_loop L (r # rs) zone =
     (if \<not> is_NS r then referral_loop L rs zone
      else let owner = CanonicalName L (rh_Name (rr_hdr r)) in
        if zone = [] then referral_loop L rs owner
        else if owner \<noteq> zone then None else referral_loop L rs zone)"

definition referralZone :: "dnslib \<Rightarrow> rr list \<Rightarrow> string \<Rightarrow> string \<Rightarrow> string" where
  "referralZone L ns currentZone0 qname0 =
     (let currentZone = CanonicalName L currentZone0; qname = CanonicalName L qname0 in
      case referral_loop L ns [] of
        None \<Rightarrow> []
      | Some zone \<Rightarrow>
          if zone = [] then []
          else if zone = currentZone \<or> \<not> inBailiwick L zone currentZone then []
          else if \<not> inBailiwick L qname zone then [] else zone)"

definition addrFromIP :: "8 word list \<Rightarrow> addr option" where
  "addrFromIP ip = (case To4 ip of
       Some v4 \<Rightarrow> AddrFromSlice v4
     | None \<Rightarrow> map_option Unmap (AddrFromSlice ip))"

definition addrOfRR :: "rr \<Rightarrow> addr option" where
  "addrOfRR r = (case rr_data r of RA ip \<Rightarrow> addrFromIP ip | RAAAA ip \<Rightarrow> addrFromIP ip | _ \<Rightarrow> None)"

record nameserver =
  ns_Name :: string
  ns_Addrs :: "addr list"

definition ns_names :: "dnslib \<Rightarrow> rr list \<Rightarrow> string \<Rightarrow> string list" where
  "ns_names L authority zone = concat (map (\<lambda>r. case rr_data r of
       RNS n \<Rightarrow> if CanonicalName L (rh_Name (rr_hdr r)) = CanonicalName L zone then [CanonicalName L n] else []
     | _ \<Rightarrow> []) authority)"

definition glue_addrs :: "dnslib \<Rightarrow> rr list \<Rightarrow> string \<Rightarrow> addr list" where
  "glue_addrs L glue name = concat (map (\<lambda>r.
     if CanonicalName L (rh_Name (rr_hdr r)) \<noteq> name then []
     else case addrOfRR r of Some a \<Rightarrow> [a] | None \<Rightarrow> []) glue)"

definition nameserversFrom :: "dnslib \<Rightarrow> rr list \<Rightarrow> rr list \<Rightarrow> string \<Rightarrow> nameserver list" where
  "nameserversFrom L authority additional zone =
     (let names = ns_names L authority zone in
      if length names = 0 then []
      else let glue = filterGlue L additional zone
           in map (\<lambda>name. \<lparr>ns_Name = name, ns_Addrs = glue_addrs L glue name\<rparr>) names)"

text \<open>One pass over the answer for the name reached so far: the matching records and the
  name the last CNAME among them points to.\<close>

definition answer_pass :: "dnslib \<Rightarrow> rr list \<Rightarrow> string \<Rightarrow> u16 \<Rightarrow> rr list \<times> string" where
  "answer_pass L answer final qtype = foldl (\<lambda>(matched, nextName) r.
     let h = rr_hdr r in
     if CanonicalName L (rh_Name h) \<noteq> final \<or> rh_Class h \<noteq> ClassINET then (matched, nextName)
     else if rh_Rrtype h = qtype then (matched @ [r], nextName)
     else if rh_Rrtype h = TypeCNAME \<and> qtype \<noteq> TypeCNAME
       then (case rr_data r of RCNAME t \<Rightarrow> (matched @ [r], CanonicalName L t) | _ \<Rightarrow> (matched, nextName))
     else (matched, nextName)) ([], []) answer"

fun answers_loop :: "dnslib \<Rightarrow> rr list \<Rightarrow> u16 \<Rightarrow> nat \<Rightarrow> string list \<Rightarrow> rr list \<Rightarrow> string \<Rightarrow> rr list \<times> string" where
  "answers_loop L answer qtype 0 seen out final = (out, final)"
| "answers_loop L answer qtype (Suc n) seen out final =
     (if final \<in> set seen then (out, final)
      else let (matched, nextName) = answer_pass L answer final qtype in
        if length matched = 0 then (out, final)
        else if nextName = [] then (out @ matched, final)
        else answers_loop L answer qtype n (final # seen) (out @ matched) nextName)"

definition answersFor :: "dnslib \<Rightarrow> rr list \<Rightarrow> string \<Rightarrow> u16 \<Rightarrow> rr list \<times> string" where
  "answersFor L answer qname qtype = answers_loop L answer qtype (length answer) [] [] (CanonicalName L qname)"

section \<open>Query name minimisation\<close>

definition maxMinimiseSteps :: nat where "maxMinimiseSteps = 10"

fun skip_labels :: "dnslib \<Rightarrow> string \<Rightarrow> nat \<Rightarrow> nat \<Rightarrow> nat option" where
  "skip_labels L qname 0 off = Some off"
| "skip_labels L qname (Suc n) off =
     (let (nxt, fin) = NextLabel L qname off in if fin then None else skip_labels L qname n nxt)"

definition minimisedName :: "dnslib \<Rightarrow> string \<Rightarrow> string \<Rightarrow> string" where
  "minimisedName L qname0 zone0 =
     (let qname = CanonicalName L qname0; zone = CanonicalName L zone0 in
      if qname = zone then qname
      else if \<not> inBailiwick L qname zone then qname
      else
        let zoneLabels = (if zone \<noteq> ''.'' then CountLabel L zone else 0);
            qLabels = CountLabel L qname
        in if zoneLabels \<ge> qLabels then qname
           else case skip_labels L qname (qLabels - zoneLabels - 1) 0 of
                  None \<Rightarrow> qname
                | Some off \<Rightarrow> drop off qname)"

definition minimiseQType :: "dnslib \<Rightarrow> string \<Rightarrow> string \<Rightarrow> u16 \<Rightarrow> u16" where
  "minimiseQType L minName qname qtype = (if CanonicalName L minName = CanonicalName L qname then qtype else TypeA)"

definition shouldMinimise :: "dnslib \<Rightarrow> string \<Rightarrow> string \<Rightarrow> bool" where
  "shouldMinimise L qname0 zone0 =
     (let qname = CanonicalName L qname0; zone = CanonicalName L zone0 in
      if qname = zone then False else CountLabel L qname > CountLabel L zone + 1)"

section \<open>Case randomisation\<close>

definition set20 :: "char \<Rightarrow> char" where
  "set20 c = char_of ((of_char c :: nat) OR 0x20)"

definition clear20 :: "char \<Rightarrow> char" where
  "clear20 c = char_of ((of_char c :: nat) - (of_char c AND 0x20))"

fun case_loop :: "(nat \<Rightarrow> 64 word) \<Rightarrow> nat \<Rightarrow> 64 word \<Rightarrow> nat \<Rightarrow> string \<Rightarrow> string" where
  "case_loop rand draws bits have [] = []"
| "case_loop rand draws bits have (c # cs) =
     (let isUpper = (CHR ''A'' \<le> c \<and> c \<le> CHR ''Z''); isLower = (CHR ''a'' \<le> c \<and> c \<le> CHR ''z'') in
      if \<not> isUpper \<and> \<not> isLower then c # case_loop rand draws bits have cs
      else
        let (draws1, bits1, have1) = (if have = 0 then (Suc draws, rand draws, 64) else (draws, bits, have))
        in (if bits1 AND 1 = 1 then set20 c else clear20 c) # case_loop rand draws1 (drop_bit 1 bits1) (have1 - 1) cs)"

definition randomiseCase :: "(nat \<Rightarrow> 64 word) \<Rightarrow> string \<Rightarrow> string" where
  "randomiseCase rand name = case_loop rand 0 0 0 name"

definition normaliseRDATA :: "dnslib \<Rightarrow> rdata \<Rightarrow> rdata" where
  "normaliseRDATA L d = (case d of
       RCNAME t \<Rightarrow> RCNAME (CanonicalName L t)
     | RDNAME t \<Rightarrow> RDNAME (CanonicalName L t)
     | RNS n \<Rightarrow> RNS (CanonicalName L n)
     | RPTR p \<Rightarrow> RPTR (CanonicalName L p)
     | RMX pref m \<Rightarrow> RMX pref (CanonicalName L m)
     | RSRV t \<Rightarrow> RSRV (CanonicalName L t)
     | RSOA ns mbox ttl \<Rightarrow> RSOA (CanonicalName L ns) (CanonicalName L mbox) ttl
     | other \<Rightarrow> other)"

definition normaliseRR :: "dnslib \<Rightarrow> rr \<Rightarrow> rr" where
  "normaliseRR L r = r\<lparr>rr_hdr := (rr_hdr r)\<lparr>rh_Name := CanonicalName L (rh_Name (rr_hdr r))\<rparr>,
     rr_data := normaliseRDATA L (rr_data r)\<rparr>"

definition normaliseCase :: "dnslib \<Rightarrow> dmsg \<Rightarrow> dmsg" where
  "normaliseCase L msg = msg\<lparr>
     m_Question := map (\<lambda>q. q\<lparr>q_Name := CanonicalName L (q_Name q)\<rparr>) (m_Question msg),
     m_Answer := map (normaliseRR L) (m_Answer msg),
     m_Ns := map (normaliseRR L) (m_Ns msg),
     m_Extra := map (normaliseRR L) (m_Extra msg)\<rparr>"

definition caseMatches :: "string \<Rightarrow> string \<Rightarrow> bool" where
  "caseMatches sent received \<longleftrightarrow> sent = received"

section \<open>Facts on case bits\<close>

lemma upper_nat_list: "\<forall>n \<in> set [65..<91]. n OR 32 = n + 32 \<and> n AND 32 = 0 \<and> (n + 32) AND 32 = (32 :: nat) \<and> (n + 32) OR 32 = n + 32"
  by code_simp

lemma upper_nat: "n \<in> {65..90} \<Longrightarrow> n OR 32 = n + 32 \<and> n AND 32 = 0 \<and> (n + 32) AND 32 = (32 :: nat) \<and> (n + 32) OR 32 = n + 32"
  using upper_nat_list unfolding set_upt by simp

lemma letter_cases: "is_letter c \<Longrightarrow> \<exists>n \<in> {65..90}. c = char_of (n :: nat) \<or> c = char_of (n + 32)"
proof -
  assume "is_letter c"
  then have "(of_char c :: nat) \<in> {65..90} \<or> (of_char c :: nat) \<in> {97..122}"
    by (simp add: is_letter_def less_eq_char_def)
  then have "(of_char c :: nat) \<in> {65..90} \<or> (of_char c - 32 :: nat) \<in> {65..90} \<and> 32 \<le> (of_char c :: nat)"
    by auto
  then show ?thesis by (metis char_of_char le_add_diff_inverse2)
qed

lemma lower_letter: "n \<in> {65..90} \<Longrightarrow> lower (char_of (n :: nat)) = char_of (n + 32) \<and> lower (char_of (n + 32)) = char_of (n + 32)"
  by (auto simp: lower_def less_eq_char_def of_char_of)

lemma set20_letter: "is_letter c \<Longrightarrow> set20 c = lower c"
  using letter_cases [of c] upper_nat by (auto simp: set20_def lower_letter of_char_of)

lemma clear20_letter: "n \<in> {65..90} \<Longrightarrow> clear20 (char_of (n :: nat)) = char_of n \<and> clear20 (char_of (n + 32)) = char_of n"
  using upper_nat by (auto simp: clear20_def of_char_of)

lemma lower_clear20: "is_letter c \<Longrightarrow> lower (clear20 c) = lower c"
  using letter_cases [of c] by (auto simp: clear20_letter lower_letter)

lemma clear20_lower: "is_letter c \<Longrightarrow> clear20 (lower c) = clear20 c"
  using letter_cases [of c] by (auto simp: clear20_letter lower_letter)

lemma letter_set_or_clear: "is_letter c \<Longrightarrow> c = set20 c \<or> c = clear20 c"
  using letter_cases [of c] by (auto simp: set20_letter clear20_letter lower_letter)

lemma is_letter_lower: "is_letter (lower c) = is_letter c"
  by (auto simp: is_letter_def less_eq_char_def of_char_lower)

lemmas letter_bits = set20_letter lower_clear20 clear20_lower is_letter_lower

fun apply_bits :: "(nat \<Rightarrow> bool) \<Rightarrow> string \<Rightarrow> string" where
  "apply_bits f [] = []"
| "apply_bits f (c # cs) = (if is_letter c then (if f 0 then set20 c else clear20 c) # apply_bits (\<lambda>i. f (Suc i)) cs
     else c # apply_bits f cs)"

definition pool_bit :: "(nat \<Rightarrow> 64 word) \<Rightarrow> nat \<Rightarrow> 64 word \<Rightarrow> nat \<Rightarrow> nat \<Rightarrow> bool" where
  "pool_bit rand d b h i = (if i < h then bit b i else bit (rand (d + (i - h) div 64)) ((i - h) mod 64))"

lemma pool_bit_refill: "pool_bit rand (Suc d) (rand d) 64 = pool_bit rand d b 0"
proof
  fix i
  show "pool_bit rand (Suc d) (rand d) 64 i = pool_bit rand d b 0 i"
  proof (cases "i < 64")
    case False
    then obtain j where "i = 64 + j" using le_Suc_ex not_less by blast
    then show ?thesis by (simp add: pool_bit_def div_add_self1)
  qed (simp add: pool_bit_def)
qed

lemma pool_bit_next: "0 < h \<Longrightarrow> pool_bit rand d (drop_bit 1 b) (h - 1) = (\<lambda>i. pool_bit rand d b h (Suc i))"
  by (rule ext, cases h) (auto simp: pool_bit_def bit_drop_bit_eq)

lemma pool_bit_0: "0 < h \<Longrightarrow> pool_bit rand d b h 0 = (b AND 1 = 1)"
  by (simp add: pool_bit_def bit_0 and_one_eq odd_iff_mod_2_eq_one)

lemma case_loop_step: "0 < h \<Longrightarrow> is_letter c \<Longrightarrow>
    case_loop rand d b h (c # cs) = (if pool_bit rand d b h 0 then set20 c else clear20 c)
      # case_loop rand d (drop_bit 1 b) (h - 1) cs"
  by (auto simp: pool_bit_0 is_letter_def Let_def)

lemma case_loop_refill: "is_letter c \<Longrightarrow> case_loop rand d b 0 (c # cs) = case_loop rand (Suc d) (rand d) 64 (c # cs)"
  by (auto simp: is_letter_def Let_def)

lemma case_loop_bits: "case_loop rand d b h s = apply_bits (pool_bit rand d b h) s"
proof (induction s arbitrary: d b h)
  case (Cons c cs)
  have pos: "case_loop rand d b h (c # cs) = apply_bits (pool_bit rand d b h) (c # cs)" if "0 < h" "is_letter c" for d b h
    unfolding case_loop_step [OF that] Cons.IH pool_bit_next [OF that(1)] using that by simp
  show ?case
  proof (cases "is_letter c")
    case True
    then show ?thesis
    proof (cases "h = 0")
      case True
      show ?thesis
        unfolding True case_loop_refill [OF \<open>is_letter c\<close>] pool_bit_refill [of rand d b, symmetric]
        by (rule pos) (simp_all add: \<open>is_letter c\<close>)
    qed (simp only: pos neq0_conv)
  next
    case False
    then show ?thesis by (auto simp: is_letter_def Cons.IH Let_def)
  qed
qed simp

lemma apply_bits_lower: "map lower (apply_bits f s) = map lower s"
  by (induction s arbitrary: f) (auto simp: letter_bits)

lemma apply_bits_onto: "map lower t = map lower s \<Longrightarrow> \<exists>f. apply_bits f s = t"
proof (induction s arbitrary: t)
  case (Cons c cs)
  then obtain d ds where t: "t = d # ds" "lower d = lower c" "map lower ds = map lower cs"
    by (cases t) auto
  with Cons.IH obtain f where f: "apply_bits f cs = ds" by blast
  show ?case
  proof (cases "is_letter c")
    case True
    then have l: "is_letter d" using t(2) is_letter_lower by metis
    have "d = set20 c \<or> d = clear20 c"
      using letter_set_or_clear [OF l] set20_letter [OF l] set20_letter [OF True]
        clear20_lower [OF l] clear20_lower [OF True] t(2) by metis
    then have "apply_bits (\<lambda>i. case i of 0 \<Rightarrow> d = set20 c | Suc j \<Rightarrow> f j) (c # cs) = t"
      using True f t(1) by auto
    then show ?thesis by (intro exI)
  next
    case False
    have "\<not> is_letter d" using False t(2) is_letter_lower by metis
    then have "d = c" using False t(2) by (auto simp: lower_def is_letter_def split: if_splits)
    with False f t(1) show ?thesis by auto
  qed
qed simp

lemma pool_onto: "\<exists>rand. pool_bit rand 0 0 0 = f"
proof
  have e: "64 * (i div 64) + i mod 64 = i" for i :: nat by simp
  let ?w = "\<lambda>j. horner_sum of_bool 2 (map (\<lambda>k. f (64 * j + k)) [0..<64]) :: 64 word"
  have "bit (?w j) k = f (64 * j + k)" if "k < 64" for j k
    using that by (simp add: bit_horner_sum_bit_iff)
  then show "pool_bit ?w 0 0 0 = f"
    by (intro ext) (simp add: pool_bit_def del: upt_rec_numeral)
qed

lemma randomiseCase_lower: "map lower (randomiseCase rand n) = map lower n"
  by (simp add: randomiseCase_def case_loop_bits apply_bits_lower)

lemma randomiseCase_onto: "map lower t = map lower n \<Longrightarrow> \<exists>rand. randomiseCase rand n = t"
  unfolding randomiseCase_def case_loop_bits using apply_bits_onto pool_onto by metis

section \<open>Bailiwick and minimisation under the name laws\<close>

context dns_names
begin

lemma canon_fix: "valid s \<Longrightarrow> valid (CanonicalName L s) \<and> CanonicalName L (CanonicalName L s) = CanonicalName L s"
  by (simp add: canon_valid)

lemma inBailiwick_iff:
  assumes "valid n" "valid z"
  shows "inBailiwick L n z \<longleftrightarrow> suffix (labels (CanonicalName L z)) (labels (CanonicalName L n))"
  using sub_domain [of "CanonicalName L z" "CanonicalName L n"] canon_valid [OF assms(1)] canon_valid [OF assms(2)]
  by (auto simp: inBailiwick_def Let_def)

lemma strict_suffix_iff:
  assumes "valid s" "CanonicalName L s = s" "valid t" "CanonicalName L t = t"
  shows "strict_suffix (labels s) (labels t) \<longleftrightarrow> suffix (labels s) (labels t) \<and> s \<noteq> t"
  using labels_inj [OF assms] by (auto simp: strict_suffix_def)

lemma referral_loop_nonempty: "zone \<noteq> [] \<Longrightarrow>
    referral_loop L ns zone = (if \<forall>r \<in> set ns. is_NS r \<longrightarrow> CanonicalName L (rh_Name (rr_hdr r)) = zone then Some zone else None)"
  by (induction ns) (auto simp: Let_def)

lemma referral_loop_start:
  "z \<noteq> [] \<Longrightarrow> referral_loop L ns [] = Some z \<longleftrightarrow>
     (\<exists>r \<in> set ns. is_NS r) \<and> (\<forall>r \<in> set ns. is_NS r \<longrightarrow> CanonicalName L (rh_Name (rr_hdr r)) = z)"
  by (induction ns) (auto simp: Let_def referral_loop_nonempty canon_nonempty)

lemma referralZone_iff:
  assumes "valid cz" "valid q" and "\<forall>r \<in> set ns. is_NS r \<longrightarrow> valid (rh_Name (rr_hdr r))"
  shows "referralZone L ns cz q = z \<and> z \<noteq> [] \<longleftrightarrow>
    (\<exists>r \<in> set ns. is_NS r) \<and> (\<forall>r \<in> set ns. is_NS r \<longrightarrow> CanonicalName L (rh_Name (rr_hdr r)) = z)
    \<and> strict_suffix (labels (CanonicalName L cz)) (labels z) \<and> suffix (labels z) (labels (CanonicalName L q))"
    (is "_ \<longleftrightarrow> ?own \<and> ?all \<and> ?below \<and> ?above")
proof (cases "?own \<and> ?all")
  case True
  then obtain r where r: "r \<in> set ns" "is_NS r" "CanonicalName L (rh_Name (rr_hdr r)) = z" by blast
  with assms(3) have z: "valid z" "CanonicalName L z = z" "z \<noteq> []"
    using canon_valid canon_nonempty by auto
  with True have "referral_loop L ns [] = Some z" using referral_loop_start by simp
  then have "referralZone L ns cz q = z \<longleftrightarrow> z \<noteq> CanonicalName L cz \<and> inBailiwick L z cz \<and> inBailiwick L q z"
    using z by (auto simp: referralZone_def Let_def inBailiwick_def split: if_splits)
  then show ?thesis
    using True z canon_fix [OF assms(1)] canon_fix [OF assms(2)]
    by (simp add: inBailiwick_iff assms(1,2) strict_suffix_iff) blast
next
  case False
  have "\<not> (referralZone L ns cz q = z \<and> z \<noteq> [])"
  proof
    assume a: "referralZone L ns cz q = z \<and> z \<noteq> []"
    then have "referral_loop L ns [] = Some z"
      by (auto simp: referralZone_def Let_def split: option.splits if_splits)
    with a False show False using referral_loop_start by blast
  qed
  with False show ?thesis by blast
qed

lemma skip_labels_drop:
  assumes "valid s" "CanonicalName L s = s" "k = 0 \<or> 0 < k \<and> k < length s \<and> s ! (k - 1) = CHR ''.''"
    "valid (drop k s)" "CanonicalName L (drop k s) = drop k s" "n < length (labels (drop k s))"
  shows "\<exists>off. skip_labels L s n k = Some off \<and> valid (drop off s) \<and> CanonicalName L (drop off s) = drop off s
    \<and> labels (drop off s) = drop n (labels (drop k s))"
  using assms(3-)
proof (induction n arbitrary: k)
  case (Suc n)
  let ?t = "drop k s"
  have "?t \<noteq> ''.''" using Suc.prems(4) by auto
  with next_end [OF Suc.prems(2,3)] Suc.prems(4) have "\<not> snd (NextLabel L ?t 0)" by simp
  then obtain i where i: "NextLabel L ?t 0 = (i, False)" by (metis prod.collapse)
  from next_label [OF Suc.prems(2,3) i] have n: "0 < i" "i < length ?t" "?t ! (i - 1) = CHR ''.''"
    "valid (drop (k + i) s)" "CanonicalName L (drop (k + i) s) = drop (k + i) s"
    "labels (drop (k + i) s) = tl (labels ?t)" by (simp_all add: add.commute)
  have "s ! (k + i - 1) = CHR ''.''" using n(1,2,3) by (simp add: add_diff_assoc)
  then have b: "k + i = 0 \<or> 0 < k + i \<and> k + i < length s \<and> s ! (k + i - 1) = CHR ''.''" using n(1,2) by simp
  have "NextLabel L s k = (k + i, False)"
    using Suc.prems(1) i next_offset [OF assms(1), of k] by (cases "k = 0") auto
  moreover have "n < length (labels (drop (k + i) s))" using Suc.prems(4) by (simp add: n(6))
  from Suc.IH [OF b n(4,5) this] obtain off where
    "skip_labels L s n (k + i) = Some off" "valid (drop off s)" "CanonicalName L (drop off s) = drop off s"
    "labels (drop off s) = drop n (tl (labels ?t))" unfolding n(6) by blast
  ultimately show ?case by (auto simp: Let_def drop_Suc)
qed auto

lemma count_labels: "valid s \<Longrightarrow> (if CanonicalName L s \<noteq> ''.'' then CountLabel L (CanonicalName L s) else 0) = length (labels (CanonicalName L s))"
  using count_label [of "CanonicalName L s"] canon_fix [of s] by simp

lemma minimisedName_labels:
  assumes "valid q" "valid z" "strict_suffix (labels (CanonicalName L z)) (labels (CanonicalName L q))"
  defines "m \<equiv> minimisedName L q z"
  shows "valid m \<and> CanonicalName L m = m
    \<and> labels m = drop (length (labels (CanonicalName L q)) - length (labels (CanonicalName L z)) - 1) (labels (CanonicalName L q))"
proof -
  let ?q = "CanonicalName L q" and ?z = "CanonicalName L z"
  note q = canon_fix [OF assms(1)] and z = canon_fix [OF assms(2)]
  have l: "length (labels ?z) < length (labels ?q)" using assms(3) suffix_length_less by blast
  have "?q \<noteq> ?z" "inBailiwick L ?q ?z"
    using assms(3) inBailiwick_iff [of ?q ?z] q z by (auto simp: strict_suffix_def)
  then have m: "m = (case skip_labels L ?q (length (labels ?q) - length (labels ?z) - 1) 0 of None \<Rightarrow> ?q | Some off \<Rightarrow> drop off ?q)"
    using l count_labels [OF assms(2)] count_label [of ?q] q unfolding m_def minimisedName_def Let_def by simp
  have "length (labels ?q) - length (labels ?z) - 1 < length (labels (drop 0 ?q))" using l by simp
  from skip_labels_drop [of ?q 0, OF _ _ _ _ _ this] q show ?thesis unfolding m by auto
qed

end

lemma drop_suffix_between:
  assumes "suffix s q" "length s < length q"
  shows "suffix s (drop (length q - length s - 1) q) \<and> suffix (drop (length q - length s - 1) q) q
    \<and> length (drop (length q - length s - 1) q) = length s + 1"
proof -
  from assms(1) obtain p where q: "q = p @ s" by (auto simp: suffix_def)
  with assms(2) have "p \<noteq> []" by auto
  then obtain p' x where "p = p' @ [x]" by (metis rev_exhaust)
  with q show ?thesis by (auto simp: suffix_def)
qed

text \<open>QNAME minimisation discloses one label more than the zone needs and nothing else:
  for a name strictly below the zone, the query name sent is the ancestor of the full name
  that has exactly one label more than the zone and lies below it; for the zone's own name or
  one outside the zone it is the full name. The type asked is the client's only when the
  full name is sent, else A.\<close>

theorem minimised_one_label:
  assumes "dns_names L labels valid" and "valid q" and "valid z"
  defines "m \<equiv> minimisedName L q z"
  shows "(if strict_suffix (labels (CanonicalName L z)) (labels (CanonicalName L q))
     then valid m \<and> suffix (labels m) (labels (CanonicalName L q)) \<and> suffix (labels (CanonicalName L z)) (labels m)
        \<and> length (labels m) = length (labels (CanonicalName L z)) + 1
        \<and> minimiseQType L m q t = (if length (labels (CanonicalName L q)) = length (labels (CanonicalName L z)) + 1 then t else TypeA)
     else m = CanonicalName L q \<and> minimiseQType L m q t = t)"
proof -
  note dn = assms(1)
  let ?q = "CanonicalName L q" and ?z = "CanonicalName L z"
  note q = dns_names.canon_fix [OF dn assms(2)] and z = dns_names.canon_fix [OF dn assms(3)]
  show ?thesis
  proof (cases "strict_suffix (labels ?z) (labels ?q)")
    case True
    then have s: "suffix (labels ?z) (labels ?q)" "length (labels ?z) < length (labels ?q)"
      using suffix_length_less by (auto simp: strict_suffix_def)
    note m = dns_names.minimisedName_labels [OF dn assms(2,3) True, folded m_def]
    have e: "m = ?q \<longleftrightarrow> length (labels ?q) = length (labels ?z) + 1"
    proof
      assume "m = ?q"
      with m drop_suffix_between [OF s] show "length (labels ?q) = length (labels ?z) + 1" by metis
    next
      assume "length (labels ?q) = length (labels ?z) + 1"
      with m q show "m = ?q" using dns_names.labels_inj [OF dn, of m ?q] by simp
    qed
    from True m e drop_suffix_between [OF s] show ?thesis by (simp add: minimiseQType_def)
  next
    case False
    then have "?q = ?z \<or> \<not> inBailiwick L ?q ?z"
      using dns_names.strict_suffix_iff [OF dn] dns_names.inBailiwick_iff [OF dn, of ?q ?z] q z by auto
    then have "m = ?q" by (auto simp: m_def minimisedName_def Let_def)
    with False q show ?thesis by (simp add: minimiseQType_def)
  qed
qed

theorem minimised_one_label_witness:
  "minimisedName ref_lib ''www.Example.com'' ''com'' = ''example.com.''
   \<and> length (ref_labels (minimisedName ref_lib ''www.Example.com'' ''com'')) = 2"
proof -
  have v: "ref_valid ''www.Example.com''" "ref_valid ''com''" by (simp_all add: ref_valid_def)
  have c: "CanonicalName ref_lib ''com'' = ''com.''" "CanonicalName ref_lib ''www.Example.com'' = ''www.example.com.''" by code_simp+
  have s: "strict_suffix (ref_labels ''com.'') (ref_labels ''www.example.com.'')" "length (ref_labels ''com.'') = 1" by code_simp+
  have "minimisedName ref_lib ''www.Example.com'' ''com'' = ''example.com.''" by code_simp
  with minimised_one_label [OF ref.dns_names_axioms v] s show ?thesis unfolding c by simp
qed

text \<open>C34. A referral is followed exactly when it is a single zone cut strictly between the zone
  asked and the name sought: \<open>referralZone\<close> returns a zone if and only if the authority section
  has NS records, all with that owner, below the current zone and above or at the query name.\<close>

theorem referral_strictly_below:
  assumes "dns_names L labels valid" and "valid cz" and "valid q"
    and "\<forall>r \<in> set ns. is_NS r \<longrightarrow> valid (rh_Name (rr_hdr r))"
  shows "referralZone L ns cz q = z \<and> z \<noteq> [] \<longleftrightarrow>
    (\<exists>r \<in> set ns. is_NS r) \<and> (\<forall>r \<in> set ns. is_NS r \<longrightarrow> CanonicalName L (rh_Name (rr_hdr r)) = z)
    \<and> strict_suffix (labels (CanonicalName L cz)) (labels z) \<and> suffix (labels z) (labels (CanonicalName L q))"
  by (rule dns_names.referralZone_iff [OF assms])

definition test_ns :: "string \<Rightarrow> string \<Rightarrow> rr" where
  "test_ns owner target = \<lparr>rr_hdr = \<lparr>rh_Name = owner, rh_Rrtype = TypeNS, rh_Class = ClassINET, rh_Ttl = 60, rh_Rdlength = 0\<rparr>,
     rr_data = RNS target\<rparr>"

theorem referral_strictly_below_witness:
  "referralZone ref_lib [test_ns ''Example.com'' ''ns.example.com''] ''com'' ''www.example.com'' = ''example.com.''
   \<and> strict_suffix (ref_labels (CanonicalName ref_lib ''com'')) (ref_labels ''example.com.'')"
proof -
  have v: "ref_valid ''com''" "ref_valid ''www.example.com''"
    "\<forall>r \<in> set [test_ns ''Example.com'' ''ns.example.com'']. is_NS r \<longrightarrow> ref_valid (rh_Name (rr_hdr r))"
    by (simp_all add: ref_valid_def test_ns_def)
  have "referralZone ref_lib [test_ns ''Example.com'' ''ns.example.com''] ''com'' ''www.example.com'' = ''example.com.''"
    by code_simp
  with referral_strictly_below [OF ref.dns_names_axioms v, of "''example.com.''"] show ?thesis by simp
qed

text \<open>Case randomisation never changes the name asked and uses the full range: whatever
  the random bits, the result is the same name up to ASCII case, and every spelling of the
  name is the result for some random bits.\<close>

theorem randomise_exactly_case:
  "(\<exists>rand. randomiseCase rand n = t) \<longleftrightarrow> map lower t = map lower n"
  using randomiseCase_lower randomiseCase_onto by metis

section \<open>Answers and nameservers\<close>

text \<open>The names a response's CNAME records lead to from the query name.\<close>

inductive chain :: "dnslib \<Rightarrow> rr list \<Rightarrow> string \<Rightarrow> string \<Rightarrow> bool" for L answer q where
  chain_start: "chain L answer q (CanonicalName L q)"
| chain_cname: "chain L answer q n \<Longrightarrow> r \<in> set answer \<Longrightarrow> CanonicalName L (rh_Name (rr_hdr r)) = n \<Longrightarrow>
    rh_Class (rr_hdr r) = ClassINET \<Longrightarrow> rh_Rrtype (rr_hdr r) = TypeCNAME \<Longrightarrow> rr_data r = RCNAME t \<Longrightarrow>
    chain L answer q (CanonicalName L t)"

definition owned :: "dnslib \<Rightarrow> string \<Rightarrow> rr \<Rightarrow> bool" where
  "owned L n r \<longleftrightarrow> CanonicalName L (rh_Name (rr_hdr r)) = n \<and> rh_Class (rr_hdr r) = ClassINET"

definition alias_for :: "u16 \<Rightarrow> rr \<Rightarrow> bool" where
  "alias_for qtype r \<longleftrightarrow> rh_Rrtype (rr_hdr r) \<noteq> qtype \<and> rh_Rrtype (rr_hdr r) = TypeCNAME \<and> (\<exists>t. rr_data r = RCNAME t)"

definition next_of :: "dnslib \<Rightarrow> string \<Rightarrow> u16 \<Rightarrow> rr list \<Rightarrow> string" where
  "next_of L final qtype rs = foldl (\<lambda>n r. if owned L final r \<and> alias_for qtype r
     then (case rr_data r of RCNAME t \<Rightarrow> CanonicalName L t | _ \<Rightarrow> n) else n) [] rs"

lemma answer_pass_spec:
  "answer_pass L answer final qtype =
     (filter (\<lambda>r. owned L final r \<and> (rh_Rrtype (rr_hdr r) = qtype \<or> alias_for qtype r)) answer,
      next_of L final qtype answer)"
  unfolding answer_pass_def next_of_def
  by (induction answer rule: rev_induct)
     (auto simp: owned_def alias_for_def Let_def split: rdata.splits prod.splits)

lemma next_of_target: "next_of L final qtype xs \<noteq> [] \<Longrightarrow>
   \<exists>r t. r \<in> set xs \<and> owned L final r \<and> alias_for qtype r \<and> rr_data r = RCNAME t \<and> next_of L final qtype xs = CanonicalName L t"
proof (induction xs rule: rev_induct)
  case (snoc x xs)
  show ?case
  proof (cases "owned L final x \<and> alias_for qtype x")
    case True
    then obtain t where "rr_data x = RCNAME t" by (auto simp: alias_for_def)
    with True show ?thesis by (auto simp: next_of_def)
  next
    case False
    then have "next_of L final qtype (xs @ [x]) = next_of L final qtype xs" by (auto simp: next_of_def)
    with snoc show ?thesis by auto
  qed
qed (simp add: next_of_def)

lemma answer_pass_next:
  assumes "answer_pass L answer final qtype = (matched, nm)" "nm \<noteq> []"
  shows "\<exists>r t. r \<in> set answer \<and> owned L final r \<and> alias_for qtype r \<and> rr_data r = RCNAME t \<and> nm = CanonicalName L t"
  using assms next_of_target [of L final qtype answer] by (simp add: answer_pass_spec)

text \<open>What the loop keeps: the records gathered are all those owned by the names seen that have
  the type asked or are CNAMEs, and only such, and every name seen lies on the chain.\<close>

definition gathered :: "dnslib \<Rightarrow> rr list \<Rightarrow> u16 \<Rightarrow> string list \<Rightarrow> rr list \<Rightarrow> bool" where
  "gathered L answer qtype seen out \<longleftrightarrow>
     set out = {r \<in> set answer. (\<exists>n \<in> set seen. owned L n r) \<and> (rh_Rrtype (rr_hdr r) = qtype \<or> alias_for qtype r)}"

lemma answers_loop_sound:
  assumes "gathered L answer qtype seen out" "\<forall>n \<in> set (final # seen). chain L answer q n"
    "answers_loop L answer qtype k seen out final = (out', final')"
  shows "\<exists>seen'. gathered L answer qtype seen' out' \<and> (\<forall>n \<in> set (final' # seen'). chain L answer q n)"
  using assms
proof (induction k arbitrary: seen out final)
  case (Suc k)
  obtain matched nm where p: "answer_pass L answer final qtype = (matched, nm)" by fastforce
  then have m: "matched = filter (\<lambda>r. owned L final r \<and> (rh_Rrtype (rr_hdr r) = qtype \<or> alias_for qtype r)) answer"
    by (simp add: answer_pass_spec)
  have g: "gathered L answer qtype (final # seen) (out @ matched)"
    using Suc.prems(1) by (auto simp: gathered_def m)
  consider "final \<in> set seen \<or> matched = []" | "final \<notin> set seen" "matched \<noteq> []" "nm = []"
    | "final \<notin> set seen" "matched \<noteq> []" "nm \<noteq> []" by blast
  then show ?case
  proof cases
    case 1
    then have "out' = out \<and> final' = final" using Suc.prems(3) by (auto simp: p split: if_splits)
    with Suc.prems(1,2) show ?thesis by blast
  next
    case 2
    then have "out' = out @ matched \<and> final' = final" using Suc.prems(3) by (auto simp: p)
    with g Suc.prems(2) show ?thesis by (metis list.set_intros(1) set_ConsD)
  next
    case 3
    from answer_pass_next [OF p 3(3)] obtain r t where
      "r \<in> set answer" "owned L final r" "alias_for qtype r" "rr_data r = RCNAME t" "nm = CanonicalName L t" by blast
    with chain_cname [of L answer q final r t] Suc.prems(2) have "chain L answer q nm"
      by (auto simp: owned_def alias_for_def)
    with Suc.prems(2) have c: "\<forall>n \<in> set (nm # final # seen). chain L answer q n" by simp
    have "answers_loop L answer qtype k (final # seen) (out @ matched) nm = (out', final')"
      using Suc.prems(3) 3 by (simp add: p)
    from Suc.IH [OF g c this] show ?thesis .
  qed
qed auto

text \<open>The bound on the rounds is enough: when the loop ends, every record of the type asked at the
  name it ends on has been gathered.\<close>

lemma answers_loop_complete:
  assumes "gathered L answer qtype seen out" "distinct seen" "length seen + k = length answer"
    "\<forall>n \<in> set seen. \<exists>r \<in> set answer. owned L n r"
    "answers_loop L answer qtype k seen out final = (out', final')"
    "r \<in> set answer" "owned L final' r" "rh_Rrtype (rr_hdr r) = qtype"
  shows "r \<in> set out'"
  using assms
proof (induction k arbitrary: seen out final)
  case 0
  let ?own = "\<lambda>r. CanonicalName L (rh_Name (rr_hdr r))"
  have "set seen \<subseteq> ?own ` set answer" using "0.prems"(4) by (auto simp: owned_def)
  moreover have "card (set seen) = length answer" using "0.prems"(2,3) distinct_card by force
  moreover have "card (?own ` set answer) \<le> length answer"
    using card_image_le [of "set answer" ?own] card_length [of answer] by simp
  ultimately have "set seen = ?own ` set answer" by (metis card_seteq finite_imageI List.finite_set)
  with "0.prems"(6,7) have "final' \<in> set seen" by (auto simp: owned_def)
  with "0.prems" show ?case by (auto simp: gathered_def)
next
  case (Suc k)
  obtain matched nm where p: "answer_pass L answer final qtype = (matched, nm)" by fastforce
  then have m: "matched = filter (\<lambda>r. owned L final r \<and> (rh_Rrtype (rr_hdr r) = qtype \<or> alias_for qtype r)) answer"
    by (simp add: answer_pass_spec)
  have g: "gathered L answer qtype (final # seen) (out @ matched)"
    using Suc.prems(1) by (auto simp: gathered_def m)
  consider "final \<in> set seen" | "final \<notin> set seen" "matched = []" | "final \<notin> set seen" "matched \<noteq> []" "nm = []"
    | "final \<notin> set seen" "matched \<noteq> []" "nm \<noteq> []" by blast
  then show ?case
  proof cases
    case 1
    then have "out' = out" "final' = final" using Suc.prems(5) by auto
    with 1 Suc.prems(1,6,7,8) show ?thesis by (auto simp: gathered_def)
  next
    case 2
    then have "final' = final" using Suc.prems(5) by (auto simp: p)
    with 2(2) Suc.prems(6,7,8) show ?thesis by (auto simp: m filter_empty_conv)
  next
    case 3
    then have "out' = out @ matched" "final' = final" using Suc.prems(5) by (auto simp: p)
    with Suc.prems(6,7,8) show ?thesis by (auto simp: m)
  next
    case 4
    have a: "\<forall>n \<in> set (final # seen). \<exists>r \<in> set answer. owned L n r"
      using Suc.prems(4) 4(2) by (auto simp: m filter_empty_conv)
    have d: "distinct (final # seen)" "length (final # seen) + k = length answer" using 4(1) Suc.prems(2,3) by auto
    have "answers_loop L answer qtype k (final # seen) (out @ matched) nm = (out', final')"
      using 4 Suc.prems(5) by (simp add: p)
    from Suc.IH [OF g d a this Suc.prems(6,7,8)] show ?thesis .
  qed
qed

text \<open>Only the CNAME chain of the question is believed, and all of it: every record
  \<open>answersFor\<close> keeps is an Internet-class record of the response of the type asked, or a CNAME, whose
  owner is reached from the question through the CNAMEs of the response; the name it ends on is such a name,
  and every record there of the type asked is kept.\<close>

theorem answers_on_chain:
  assumes "answersFor L answer qname qtype = (out, final)"
  shows "chain L answer qname final
    \<and> (\<forall>r \<in> set out. r \<in> set answer \<and> rh_Class (rr_hdr r) = ClassINET
        \<and> rh_Rrtype (rr_hdr r) \<in> {qtype, TypeCNAME} \<and> chain L answer qname (CanonicalName L (rh_Name (rr_hdr r))))
    \<and> (\<forall>r \<in> set answer. CanonicalName L (rh_Name (rr_hdr r)) = final \<and> rh_Class (rr_hdr r) = ClassINET
        \<and> rh_Rrtype (rr_hdr r) = qtype \<longrightarrow> r \<in> set out)"
proof -
  have g: "gathered L answer qtype [] []" by (simp add: gathered_def)
  note run = assms [unfolded answersFor_def]
  from answers_loop_sound [OF g _ run, of qname] chain_start obtain seen where
    s: "gathered L answer qtype seen out" "\<forall>n \<in> set (final # seen). chain L answer qname n" by auto
  have "r \<in> set out" if "r \<in> set answer" "owned L final r" "rh_Rrtype (rr_hdr r) = qtype" for r
    using answers_loop_complete [OF g _ _ _ run that] by simp
  with s show ?thesis by (auto simp: gathered_def owned_def alias_for_def)
qed

definition test_cname :: "string \<Rightarrow> string \<Rightarrow> rr" where
  "test_cname owner target = \<lparr>rr_hdr = \<lparr>rh_Name = owner, rh_Rrtype = TypeCNAME, rh_Class = ClassINET, rh_Ttl = 60, rh_Rdlength = 0\<rparr>,
     rr_data = RCNAME target\<rparr>"

definition test_a :: "string \<Rightarrow> rr" where
  "test_a owner = \<lparr>rr_hdr = \<lparr>rh_Name = owner, rh_Rrtype = TypeA, rh_Class = ClassINET, rh_Ttl = 60, rh_Rdlength = 4\<rparr>,
     rr_data = RA [192, 0, 2, 1]\<rparr>"

theorem answers_on_chain_witness:
  "fst (answersFor ref_lib [test_a ''b'', test_a ''evil'', test_cname ''A'' ''b''] ''a'' TypeA) = [test_cname ''A'' ''b'', test_a ''b'']
   \<and> chain ref_lib [test_a ''b'', test_a ''evil'', test_cname ''A'' ''b''] ''a'' ''b.''"
proof -
  have e: "answersFor ref_lib [test_a ''b'', test_a ''evil'', test_cname ''A'' ''b''] ''a'' TypeA
    = ([test_cname ''A'' ''b'', test_a ''b''], ''b.'')" by code_simp
  with answers_on_chain [OF e] show ?thesis by simp
qed

lemma addrOfRR_address: "addrOfRR r = Some a \<Longrightarrow> is_address r"
  by (auto simp: addrOfRR_def is_address_def split: rdata.splits)

lemma glue_addrs_mem: "a \<in> set (glue_addrs L (filterGlue L additional zone) n) \<longleftrightarrow>
    (\<exists>r \<in> set additional. CanonicalName L (rh_Name (rr_hdr r)) = n \<and> inBailiwick L (rh_Name (rr_hdr r)) zone
       \<and> addrOfRR r = Some a)"
proof -
  have "a \<in> set (glue_addrs L rs n) \<longleftrightarrow> (\<exists>r \<in> set rs. CanonicalName L (rh_Name (rr_hdr r)) = n \<and> addrOfRR r = Some a)" for rs
    by (induction rs) (auto simp: glue_addrs_def split: option.splits)
  then show ?thesis using addrOfRR_address by (auto simp: filterGlue_def)
qed

text \<open>Glue is accepted only from inside the delegated zone: every nameserver
  \<open>nameserversFrom\<close> returns is the target of an NS record owned by the zone, and its
  addresses are exactly those of the A and AAAA records of the additional section that
  are owned by the nameserver's own name, provided that name lies within the zone; a nameserver outside the zone has
  none.\<close>

theorem glue_in_bailiwick:
  assumes "dns_names L labels valid" and "valid zone" and "\<forall>r \<in> set additional. valid (rh_Name (rr_hdr r))"
    and "ns \<in> set (nameserversFrom L authority additional zone)"
  shows "(\<exists>r \<in> set authority. \<exists>n. rr_data r = RNS n \<and> CanonicalName L (rh_Name (rr_hdr r)) = CanonicalName L zone
            \<and> ns_Name ns = CanonicalName L n)
    \<and> set (ns_Addrs ns) = {a. suffix (labels (CanonicalName L zone)) (labels (ns_Name ns))
         \<and> (\<exists>r \<in> set additional. CanonicalName L (rh_Name (rr_hdr r)) = ns_Name ns \<and> addrOfRR r = Some a)}"
proof -
  have ns: "ns_Name ns \<in> set (ns_names L authority zone)"
    "ns_Addrs ns = glue_addrs L (filterGlue L additional zone) (ns_Name ns)"
    using assms(4) by (auto simp: nameserversFrom_def Let_def split: if_splits)
  have "\<exists>r \<in> set authority. \<exists>n. rr_data r = RNS n \<and> CanonicalName L (rh_Name (rr_hdr r)) = CanonicalName L zone
      \<and> ns_Name ns = CanonicalName L n"
    using ns(1) by (auto simp: ns_names_def split: rdata.splits if_splits) (metis)
  moreover have "a \<in> set (ns_Addrs ns) \<longleftrightarrow> suffix (labels (CanonicalName L zone)) (labels (ns_Name ns))
         \<and> (\<exists>r \<in> set additional. CanonicalName L (rh_Name (rr_hdr r)) = ns_Name ns \<and> addrOfRR r = Some a)" for a
  proof -
    have "inBailiwick L (rh_Name (rr_hdr r)) zone \<longleftrightarrow> suffix (labels (CanonicalName L zone)) (labels (ns_Name ns))"
      if "r \<in> set additional" "CanonicalName L (rh_Name (rr_hdr r)) = ns_Name ns" for r
      using dns_names.inBailiwick_iff [OF assms(1) _ assms(2)] assms(3) that by metis
    then show ?thesis unfolding ns(2) glue_addrs_mem by blast
  qed
  ultimately show ?thesis by blast
qed

theorem glue_in_bailiwick_witness:
  "\<exists>ns \<in> set (nameserversFrom ref_lib [test_ns ''b'' ''n.b'', test_ns ''b'' ''n.c''] [test_a ''n.c'', test_a ''N.b''] ''b'').
     ns_Name ns = ''n.b.'' \<and> suffix (ref_labels ''b.'') (ref_labels ''n.b.'') \<and> ns_Addrs ns \<noteq> []"
proof -
  let ?ns = "\<lparr>ns_Name = ''n.b.'', ns_Addrs = [AddrV4 0xC0000201]\<rparr>"
  have v: "ref_valid ''b''" "\<forall>r \<in> set [test_a ''n.c'', test_a ''N.b'']. ref_valid (rh_Name (rr_hdr r))"
    by (simp_all add: ref_valid_def test_a_def)
  have m: "?ns \<in> set (nameserversFrom ref_lib [test_ns ''b'' ''n.b'', test_ns ''b'' ''n.c''] [test_a ''n.c'', test_a ''N.b''] ''b'')"
    by code_simp
  have "CanonicalName ref_lib ''b'' = ''b.''" by code_simp
  with glue_in_bailiwick [OF ref.dns_names_axioms v m] m show ?thesis by (intro bexI [of _ ?ns]) auto
qed

end
