(* ===== verification/Dnssec_Denial.thy ===== *)
theory Dnssec_Denial
  imports Dns
begin

text \<open>
  \<open>internal/dnssec/denial.go\<close>: what NSEC and NSEC3 records prove. Errors are
  the package's sentinel errors, without the text they are wrapped in; \<open>None\<close> is a
  nil error. The functions of the \<open>miekg/dns\<close> package that only
  DNSSEC needs (splitting a name, matching a hashed name, key tags, digests and the
  signature check itself) are fields of a record \<open>seclib\<close>. Names are ASCII, as that
  package delivers them, so lowering a label is lowering its ASCII letters.

  After the definitions: canonical order is a linear order on names, an NSEC covers exactly the
  names strictly inside its cyclic interval, what an accepted proof of non-existence establishes of an
  honest zone, and what it does not.
\<close>

datatype sec_error = ErrNoSignatures | ErrNoMatchingKey | ErrSignatureFailed | ErrSignatureExpired
  | ErrNoDNSKEY | ErrDSMismatch | ErrChainTooDeep | ErrUnsupportedAlg
  | ErrNoProof | ErrEvidenceUnavailable | ErrProofUnsupported | ErrOther

record seclib =
  SplitDomainName :: "string \<Rightarrow> string list"
  NSEC3Match :: "rr_header \<Rightarrow> nsec3 \<Rightarrow> string \<Rightarrow> bool"
  NSEC3Cover :: "rr_header \<Rightarrow> nsec3 \<Rightarrow> string \<Rightarrow> bool"
  KeyTag :: "dnskey \<Rightarrow> u16"
  ToDS :: "rr_header \<Rightarrow> dnskey \<Rightarrow> 8 word \<Rightarrow> ds option"
  ValidityPeriod :: "rrsig \<Rightarrow> gtime \<Rightarrow> bool"
  Verify :: "rr_header \<Rightarrow> rrsig \<Rightarrow> rr_header \<Rightarrow> dnskey \<Rightarrow> rr list \<Rightarrow> bool"

definition maxNSEC3Iterations :: u16 where "maxNSEC3Iterations = 100"

definition SHA1 :: "8 word" where "SHA1 = 1"

definition HasType :: "u16 list \<Rightarrow> u16 \<Rightarrow> bool" where
  "HasType bitmap t = list_ex (\<lambda>v. v = t) bitmap"

definition checkNSEC3Params :: "nsec3 \<Rightarrow> sec_error option" where
  "checkNSEC3Params n =
     (if n3_Hash n \<noteq> SHA1 then Some ErrProofUnsupported
      else if n3_Iterations n > maxNSEC3Iterations then Some ErrProofUnsupported else None)"

section \<open>Canonical order\<close>

fun cmp_bytes :: "string \<Rightarrow> string \<Rightarrow> int option" where
  "cmp_bytes (x # xs) (y # ys) = (if x \<noteq> y then Some (if x < y then -1 else 1) else cmp_bytes xs ys)"
| "cmp_bytes _ _ = None"

definition compareLabel :: "string \<Rightarrow> string \<Rightarrow> int" where
  "compareLabel a0 b0 =
     (let a = map lower a0; b = map lower b0 in
      case cmp_bytes a b of
        Some c \<Rightarrow> c
      | None \<Rightarrow> if length a = length b then 0 else if length a < length b then -1 else 1)"

definition splitLabels :: "dnslib \<Rightarrow> seclib \<Rightarrow> string \<Rightarrow> string list" where
  "splitLabels L S name0 = (let name = CanonicalName L name0 in
     if name = ''.'' then [] else SplitDomainName S name)"

text \<open>The loop from the right: the lists are the labels, last one first.\<close>

fun cmp_labels :: "string list \<Rightarrow> string list \<Rightarrow> int" where
  "cmp_labels (x # xs) (y # ys) = (let c = compareLabel x y in if c \<noteq> 0 then c else cmp_labels xs ys)"
| "cmp_labels [] [] = 0"
| "cmp_labels [] (y # ys) = -1"
| "cmp_labels (x # xs) [] = 1"

definition CanonicalCompare :: "dnslib \<Rightarrow> seclib \<Rightarrow> string \<Rightarrow> string \<Rightarrow> int" where
  "CanonicalCompare L S a b =
     (if a = b then 0 else cmp_labels (rev (splitLabels L S a)) (rev (splitLabels L S b)))"

definition NSECCovers :: "dnslib \<Rightarrow> seclib \<Rightarrow> rr_header \<Rightarrow> string \<Rightarrow> string \<Rightarrow> bool" where
  "NSECCovers L S h nextDomain name0 =
     (let owner = CanonicalName L (rh_Name h);
          nxt = CanonicalName L nextDomain;
          name = CanonicalName L name0
      in if name = owner \<or> name = nxt then False
         else if CanonicalCompare L S owner nxt < 0
           then CanonicalCompare L S owner name < 0 \<and> CanonicalCompare L S name nxt < 0
         else CanonicalCompare L S owner name < 0 \<or> CanonicalCompare L S name nxt < 0)"

definition WildcardOf :: "dnslib \<Rightarrow> string \<Rightarrow> string" where
  "WildcardOf L name0 = (let name = CanonicalName L name0; (i, fin) = NextLabel L name 0 in
     if fin then ''*.'' else ''*.'' @ drop i name)"

section \<open>Proofs of absence\<close>

text \<open>The body of a loop over the records yields \<open>Some\<close> what it returns, or \<open>None\<close> to continue.\<close>

definition nods_nsec :: "dnslib \<Rightarrow> string \<Rightarrow> rr \<Rightarrow> sec_error option option" where
  "nods_nsec L name r = (case rr_data r of
       RNSEC nxt bm \<Rightarrow>
         if CanonicalName L (rh_Name (rr_hdr r)) \<noteq> name then None
         else if HasType bm TypeSOA then None
         else if HasType bm TypeDS then Some (Some ErrNoProof)
         else Some None
     | _ \<Rightarrow> None)"

definition nods_nsec3 :: "seclib \<Rightarrow> string \<Rightarrow> rr \<Rightarrow> sec_error option option" where
  "nods_nsec3 S name r = (case rr_data r of
       RNSEC3 n \<Rightarrow> (case checkNSEC3Params n of
           Some e \<Rightarrow> Some (Some e)
         | None \<Rightarrow>
             if NSEC3Match S (rr_hdr r) n name
             then if HasType (n3_TypeBitMap n) TypeSOA then None
                  else if HasType (n3_TypeBitMap n) TypeDS then Some (Some ErrNoProof)
                  else Some None
             else None)
     | _ \<Rightarrow> None)"

definition nods_optout :: "seclib \<Rightarrow> string \<Rightarrow> rr \<Rightarrow> sec_error option option" where
  "nods_optout S name r = (case rr_data r of
       RNSEC3 n \<Rightarrow>
         if n3_Flags n AND 1 = 0 then None
         else (case checkNSEC3Params n of
             Some e \<Rightarrow> Some (Some e)
           | None \<Rightarrow> if NSEC3Cover S (rr_hdr r) n name then Some None else None)
     | _ \<Rightarrow> None)"

definition ProveNoDS :: "dnslib \<Rightarrow> seclib \<Rightarrow> rr list \<Rightarrow> string \<Rightarrow> sec_error option" where
  "ProveNoDS L S denial name0 =
     (let name = CanonicalName L name0 in
      case first_some (nods_nsec L name) denial of
        Some res \<Rightarrow> res
      | None \<Rightarrow> (case first_some (nods_nsec3 S name) denial of
          Some res \<Rightarrow> res
        | None \<Rightarrow> (case first_some (nods_optout S name) denial of
            Some res \<Rightarrow> res
          | None \<Rightarrow> Some ErrNoProof)))"

definition nodata_nsec :: "dnslib \<Rightarrow> string \<Rightarrow> u16 \<Rightarrow> rr \<Rightarrow> sec_error option option" where
  "nodata_nsec L name qtype r = (case rr_data r of
       RNSEC nxt bm \<Rightarrow>
         if CanonicalName L (rh_Name (rr_hdr r)) \<noteq> name then None
         else if HasType bm qtype then Some (Some ErrNoProof)
         else if HasType bm TypeCNAME then Some (Some ErrNoProof)
         else Some None
     | _ \<Rightarrow> None)"

definition nodata_nsec3 :: "seclib \<Rightarrow> string \<Rightarrow> u16 \<Rightarrow> rr \<Rightarrow> sec_error option option" where
  "nodata_nsec3 S name qtype r = (case rr_data r of
       RNSEC3 n \<Rightarrow> (case checkNSEC3Params n of
           Some e \<Rightarrow> Some (Some e)
         | None \<Rightarrow>
             if \<not> NSEC3Match S (rr_hdr r) n name then None
             else if HasType (n3_TypeBitMap n) qtype then Some (Some ErrNoProof)
             else if HasType (n3_TypeBitMap n) TypeCNAME then Some (Some ErrNoProof)
             else Some None)
     | _ \<Rightarrow> None)"

definition ProveNODATA :: "dnslib \<Rightarrow> seclib \<Rightarrow> rr list \<Rightarrow> string \<Rightarrow> u16 \<Rightarrow> sec_error option" where
  "ProveNODATA L S denial name0 qtype =
     (let name = CanonicalName L name0 in
      case first_some (nodata_nsec L name qtype) denial of
        Some res \<Rightarrow> res
      | None \<Rightarrow> (case first_some (nodata_nsec3 S name qtype) denial of
          Some res \<Rightarrow> res
        | None \<Rightarrow> Some ErrNoProof))"

type_synonym hnsec = "rr_header \<times> string"
type_synonym hnsec3 = "rr_header \<times> nsec3"

fun collect_denial :: "rr list \<Rightarrow> hnsec list \<Rightarrow> hnsec3 list \<Rightarrow> sec_error + hnsec list \<times> hnsec3 list" where
  "collect_denial [] nsecs nsec3s = Inr (nsecs, nsec3s)"
| "collect_denial (r # rs) nsecs nsec3s = (case rr_data r of
       RNSEC nxt bm \<Rightarrow> collect_denial rs (nsecs @ [(rr_hdr r, nxt)]) nsec3s
     | RNSEC3 n \<Rightarrow> (case checkNSEC3Params n of
           Some e \<Rightarrow> Inl e
         | None \<Rightarrow> collect_denial rs nsecs (nsec3s @ [(rr_hdr r, n)]))
     | _ \<Rightarrow> collect_denial rs nsecs nsec3s)"

definition ProveNXDOMAIN :: "dnslib \<Rightarrow> seclib \<Rightarrow> rr list \<Rightarrow> string \<Rightarrow> sec_error option" where
  "ProveNXDOMAIN L S denial name0 =
     (let name = CanonicalName L name0 in
      case collect_denial denial [] [] of
        Inl e \<Rightarrow> Some e
      | Inr (nsecs, nsec3s) \<Rightarrow>
          if length nsecs > 0 then
            if \<not> list_ex (\<lambda>(h, nxt). NSECCovers L S h nxt name) nsecs then Some ErrNoProof
            else let wildcard = WildcardOf L name in
              if list_ex (\<lambda>(h, nxt). NSECCovers L S h nxt wildcard \<or> CanonicalName L (rh_Name h) = wildcard) nsecs
              then None else Some ErrNoProof
          else if length nsec3s > 0 then
            if \<not> list_ex (\<lambda>(h, n). NSEC3Cover S h n name) nsec3s then Some ErrNoProof
            else let wildcard = WildcardOf L name in
              if list_ex (\<lambda>(h, n). NSEC3Cover S h n wildcard \<or> NSEC3Match S h n wildcard) nsec3s
              then None else Some ErrNoProof
          else Some ErrNoProof)"

definition minimalCovering :: "dnslib \<Rightarrow> rr_header \<Rightarrow> string \<Rightarrow> bool" where
  "minimalCovering L h nextDomain =
     (let owner = CanonicalName L (rh_Name h);
          nxt = CanonicalName L nextDomain;
          (i, fin) = NextLabel L nxt 0
      in if fin \<or> drop i nxt \<noteq> owner then False
         else take i nxt = CHR 0x00 # ''.'' \<or> take i nxt = CHR 0x5C # ''000.'')"

definition cut_of :: "dnslib \<Rightarrow> seclib \<Rightarrow> string \<Rightarrow> rr \<Rightarrow> (bool \<times> bool) option" where
  "cut_of L S name r = (case rr_data r of
       RNSEC nxt bm \<Rightarrow>
         if CanonicalName L (rh_Name (rr_hdr r)) \<noteq> name then None
         else if minimalCovering L (rr_hdr r) nxt then None
         else Some (HasType bm TypeNS \<and> \<not> HasType bm TypeSOA, True)
     | RNSEC3 n \<Rightarrow>
         if checkNSEC3Params n \<noteq> None then None
         else if \<not> NSEC3Match S (rr_hdr r) n name then None
         else Some (HasType (n3_TypeBitMap n) TypeNS \<and> \<not> HasType (n3_TypeBitMap n) TypeSOA, True)
     | _ \<Rightarrow> None)"

definition ZoneCutFromDenial :: "dnslib \<Rightarrow> seclib \<Rightarrow> rr list \<Rightarrow> string \<Rightarrow> bool \<times> bool" where
  "ZoneCutFromDenial L S denial name0 =
     (case first_some (cut_of L S (CanonicalName L name0)) denial of Some res \<Rightarrow> res | None \<Rightarrow> (False, False))"

section \<open>The order is canonical\<close>

text \<open>What DNSSEC relies on of the name functions beyond \<open>dns_names\<close>: a canonical name splits into its
  labels, all of them lower-case.\<close>

locale dnssec_names = dns_names L labels valid for L labels valid +
  fixes S :: seclib
  assumes split_labels: "valid s \<Longrightarrow> CanonicalName L s = s \<Longrightarrow> s \<noteq> ''.'' \<Longrightarrow> SplitDomainName S s = labels s"
    and labels_lower: "valid s \<Longrightarrow> CanonicalName L s = s \<Longrightarrow> l \<in> set (labels s) \<Longrightarrow> map lower l = l"

lemma cmp_bytes_lex:
  "(case cmp_bytes a b of Some c \<Rightarrow> c | None \<Rightarrow> if length a = length b then 0 else if length a < length b then -1 else 1)
   = (if a = b then 0 else if a < b then -1 else (1 :: int))"
proof (induction a arbitrary: b)
  case Nil
  then show ?case by (cases b) auto
next
  case (Cons x xs)
  show ?case
  proof (cases b)
    case (Cons y ys)
    with Cons.IH [of ys] show ?thesis by (cases "cmp_bytes xs ys") (auto split: if_splits)
  qed simp
qed

lemma compareLabel_lex:
  "compareLabel a b = (if map lower a = map lower b then 0 else if map lower a < map lower b then -1 else 1)"
  using cmp_bytes_lex [of "map lower a" "map lower b"] by (simp add: compareLabel_def Let_def)

lemma cmp_labels_lex:
  assumes "\<forall>l \<in> set xs \<union> set ys. map lower l = l"
  shows "cmp_labels xs ys = (if xs = ys then 0 else if xs < ys then -1 else (1 :: int))"
  using assms by (induction xs ys rule: cmp_labels.induct) (auto simp: compareLabel_lex Let_def)

text \<open>The sort key of a name: its labels from the root down.\<close>

definition name_key :: "dnslib \<Rightarrow> (string \<Rightarrow> string list) \<Rightarrow> string \<Rightarrow> string list" where
  "name_key L labels s = rev (labels (CanonicalName L s))"

context dnssec_names
begin

lemma split_rev: "valid s \<Longrightarrow> rev (splitLabels L S s) = name_key L labels s"
  using split_labels [of "CanonicalName L s"] canon_valid [of s] labels_root
  by (auto simp: splitLabels_def name_key_def Let_def)

lemma name_key_inj: "valid a \<Longrightarrow> valid b \<Longrightarrow> name_key L labels a = name_key L labels b \<longleftrightarrow> CanonicalName L a = CanonicalName L b"
  using labels_inj [of "CanonicalName L a" "CanonicalName L b"] canon_valid by (auto simp: name_key_def)

lemma compare_lex:
  assumes "valid a" "valid b"
  shows "CanonicalCompare L S a b =
    (if name_key L labels a = name_key L labels b then 0 else if name_key L labels a < name_key L labels b then -1 else 1)"
proof (cases "a = b")
  case False
  have "\<forall>l \<in> set (name_key L labels a) \<union> set (name_key L labels b). map lower l = l"
    using labels_lower [of "CanonicalName L a"] labels_lower [of "CanonicalName L b"] canon_valid assms
    by (auto simp: name_key_def)
  from cmp_labels_lex [OF this] False show ?thesis
    by (simp add: CanonicalCompare_def split_rev assms)
qed (simp add: CanonicalCompare_def)

end

text \<open>Strictly inside the cyclic interval from \<open>a\<close> to \<open>b\<close>.\<close>

definition cyclic :: "'a :: linorder \<Rightarrow> 'a \<Rightarrow> 'a \<Rightarrow> bool" where
  "cyclic a x b \<longleftrightarrow> x \<noteq> a \<and> x \<noteq> b \<and> (if a < b then a < x \<and> x < b else a < x \<or> x < b)"

context dnssec_names
begin

lemma covers_cyclic:
  assumes "valid (rh_Name h)" "valid nxt" "valid n"
  shows "NSECCovers L S h nxt n \<longleftrightarrow>
    cyclic (name_key L labels (rh_Name h)) (name_key L labels n) (name_key L labels nxt)"
proof -
  have k: "name_key L labels (CanonicalName L s) = name_key L labels s" for s by (simp add: name_key_def)
  note c = canon_valid [OF assms(1)] canon_valid [OF assms(2)] canon_valid [OF assms(3)]
  show ?thesis
    using name_key_inj [OF assms(3,1)] name_key_inj [OF assms(3,2)]
    by (auto simp: NSECCovers_def Let_def cyclic_def compare_lex c k)
qed

end

section \<open>What an accepted proof establishes\<close>

text \<open>An honest zone: the NSEC records of the message are links of the chain through the names that
  exist, so no existing name lies strictly between an owner and its next name.\<close>

definition honest_chain :: "dnslib \<Rightarrow> (string \<Rightarrow> string list) \<Rightarrow> (string \<Rightarrow> bool) \<Rightarrow> string set \<Rightarrow> rr list \<Rightarrow> bool" where
  "honest_chain L labels valid names rs \<longleftrightarrow>
     (\<forall>n \<in> names. valid n \<and> CanonicalName L n = n)
     \<and> (\<forall>r \<in> set rs. \<forall>nxt bm. rr_data r = RNSEC nxt bm \<longrightarrow>
          valid (rh_Name (rr_hdr r)) \<and> valid nxt \<and> CanonicalName L (rh_Name (rr_hdr r)) \<in> names
          \<and> (\<forall>n \<in> names. \<not> cyclic (name_key L labels (rh_Name (rr_hdr r))) (name_key L labels n) (name_key L labels nxt)))"

lemma collect_denial_nsec:
  "collect_denial rs a b = Inr (ns, n3s) \<Longrightarrow>
   (h, nxt) \<in> set ns \<longleftrightarrow> (h, nxt) \<in> set a \<or> (\<exists>r bm. r \<in> set rs \<and> rr_hdr r = h \<and> rr_data r = RNSEC nxt bm)"
proof (induction rs arbitrary: a b)
  case (Cons r rs)
  show ?case
  proof (cases "rr_data r")
    case (RNSEC n bm)
    with Cons.prems Cons.IH [of "a @ [(rr_hdr r, n)]" b] show ?thesis by auto
  qed (use Cons in \<open>auto split: option.splits\<close>)
qed simp

lemma ProveNXDOMAIN_nsec:
  assumes "ProveNXDOMAIN L S rs name = None" "\<exists>r \<in> set rs. \<exists>nxt bm. rr_data r = RNSEC nxt bm"
  shows "(\<exists>r \<in> set rs. \<exists>nxt bm. rr_data r = RNSEC nxt bm \<and> NSECCovers L S (rr_hdr r) nxt (CanonicalName L name))
    \<and> (\<exists>r \<in> set rs. \<exists>nxt bm. rr_data r = RNSEC nxt bm
         \<and> (NSECCovers L S (rr_hdr r) nxt (WildcardOf L (CanonicalName L name))
            \<or> CanonicalName L (rh_Name (rr_hdr r)) = WildcardOf L (CanonicalName L name)))"
proof -
  from assms(1) obtain ns n3s where c: "collect_denial rs [] [] = Inr (ns, n3s)"
    by (auto simp: ProveNXDOMAIN_def Let_def split: sum.splits)
  note m = collect_denial_nsec [OF c]
  from assms(2) have "ns \<noteq> []" using m by (metis list.set_intros(1) neq_Nil_conv empty_iff list.set(1))
  with assms(1) c show ?thesis
    by (auto simp: ProveNXDOMAIN_def Let_def list_ex_iff m split: if_splits) blast+
qed

lemma WildcardOf_canon: "dns_names L labels valid \<Longrightarrow> WildcardOf L (CanonicalName L n) = WildcardOf L n"
  using dns_names.canon_idem by (simp add: WildcardOf_def)

text \<open>C28. An accepted NSEC proof of non-existence, from a zone whose NSEC records are honest, means
  that the name does not exist in the zone, and that the wildcard beside it does not exist either
  unless one of the records is that wildcard's own.\<close>

theorem nxdomain_sound:
  assumes "dnssec_names L labels valid S" and "valid name" and "valid (WildcardOf L name)"
    and "honest_chain L labels valid names rs" and "\<exists>r \<in> set rs. \<exists>nxt bm. rr_data r = RNSEC nxt bm"
    and "ProveNXDOMAIN L S rs name = None"
  shows "CanonicalName L name \<notin> names
    \<and> (CanonicalName L (WildcardOf L name) \<notin> names
       \<or> (\<exists>r \<in> set rs. \<exists>nxt bm. rr_data r = RNSEC nxt bm \<and> CanonicalName L (rh_Name (rr_hdr r)) = WildcardOf L name))"
proof -
  have dn: "dns_names L labels valid" using assms(1) by (simp add: dnssec_names_def)
  have out: "CanonicalName L n \<notin> names" if "r \<in> set rs" "rr_data r = RNSEC nxt bm" "valid n" "NSECCovers L S (rr_hdr r) nxt n" for r nxt bm n
  proof
    assume n: "CanonicalName L n \<in> names"
    have h: "valid (rh_Name (rr_hdr r))" "valid nxt"
      "\<not> cyclic (name_key L labels (rh_Name (rr_hdr r))) (name_key L labels (CanonicalName L n)) (name_key L labels nxt)"
      using assms(4) that(1,2) n unfolding honest_chain_def by blast+
    have "name_key L labels (CanonicalName L n) = name_key L labels n"
      using dns_names.canon_idem [OF dn] by (simp add: name_key_def)
    with h dnssec_names.covers_cyclic [OF assms(1) h(1,2) that(3)] that(4) show False by simp
  qed
  from ProveNXDOMAIN_nsec [OF assms(6,5)] obtain r1 nxt1 bm1 r2 nxt2 bm2 where
    r1: "r1 \<in> set rs" "rr_data r1 = RNSEC nxt1 bm1" "NSECCovers L S (rr_hdr r1) nxt1 (CanonicalName L name)" and
    r2: "r2 \<in> set rs" "rr_data r2 = RNSEC nxt2 bm2"
      "NSECCovers L S (rr_hdr r2) nxt2 (WildcardOf L name) \<or> CanonicalName L (rh_Name (rr_hdr r2)) = WildcardOf L name"
    unfolding WildcardOf_canon [OF dn] by blast
  have "CanonicalName L name \<notin> names"
    using out [OF r1(1,2) dns_names.canon_valid [OF dn assms(2)] r1(3)] dns_names.canon_idem [OF dn] by simp
  with r2 out [OF r2(1,2) assms(3)] show ?thesis by blast
qed

lemma outside_prefix:
  fixes p :: "'a :: linorder list"
  assumes "take (length p) o' = p" "take (length p) x \<noteq> p"
  shows "o' < x \<or> x < p"
  using assms
proof (induction p arbitrary: o' x)
  case (Cons a p)
  from Cons.prems(1) obtain os where o: "o' = a # os" "take (length p) os = p" by (cases o') auto
  show ?case
  proof (cases x)
    case (Cons b xs)
    then show ?thesis using Cons.IH [OF o(2), of xs] Cons.prems(2) o(1) by (cases "a = b") auto
  qed simp
qed simp

lemma prefix_not_less: "take (length p) o' = p \<Longrightarrow> \<not> o' < p" for p :: "'a :: linorder list"
proof (induction p arbitrary: o')
  case (Cons a p)
  then obtain os where "o' = a # os" "take (length p) os = p" by (cases o') auto
  with Cons.IH show ?case by auto
qed simp

lemma suffix_rev_take: "suffix xs ys \<longleftrightarrow> take (length xs) (rev ys) = rev xs"
proof
  assume "take (length xs) (rev ys) = rev xs"
  then have "rev ys = rev xs @ drop (length xs) (rev ys)" by (metis append_take_drop_id)
  then have "ys = rev (drop (length xs) (rev ys)) @ xs" by (metis rev_append rev_rev_ident)
  then show "suffix xs ys" by (metis suffixI)
qed (auto simp: suffix_def)

text \<open>The last NSEC record of any signed zone is accepted as proof that any name outside that zone does
  not exist: the record wraps around to the zone's apex, its cyclic interval holds every name not below the
  apex, and the check does not ask whether the name belongs to the zone.\<close>

theorem foreign_nsec_accepted:
  assumes "dnssec_names L labels valid S" and "valid (rh_Name (rr_hdr r))" and "valid apex" and "valid name" and "valid (WildcardOf L name)"
    and "rr_data r = RNSEC apex bm"
    and "suffix (labels (CanonicalName L apex)) (labels (CanonicalName L (rh_Name (rr_hdr r))))"
    and "\<not> suffix (labels (CanonicalName L apex)) (labels (CanonicalName L name))"
    and "\<not> suffix (labels (CanonicalName L apex)) (labels (CanonicalName L (WildcardOf L name)))"
  shows "ProveNXDOMAIN L S [r] name = None"
proof -
  have dn: "dns_names L labels valid" using assms(1) by (simp add: dnssec_names_def)
  have cov: "NSECCovers L S (rr_hdr r) apex n"
    if "valid n" "\<not> suffix (labels (CanonicalName L apex)) (labels (CanonicalName L n))" for n
  proof -
    let ?p = "name_key L labels apex" and ?o = "name_key L labels (rh_Name (rr_hdr r))" and ?x = "name_key L labels n"
    have t: "take (length ?p) ?o = ?p" "take (length ?p) ?x \<noteq> ?p"
      using assms(7) that(2) by (simp_all add: name_key_def suffix_rev_take)
    have "\<not> ?o < ?p" using prefix_not_less [OF t(1)] .
    moreover have "?o < ?x \<or> ?x < ?p" using outside_prefix [OF t] .
    moreover have "?x \<noteq> ?o" "?x \<noteq> ?p" using t by auto
    ultimately show ?thesis
      using dnssec_names.covers_cyclic [OF assms(1,2,3) that(1)] by (simp add: cyclic_def)
  qed
  have "\<not> suffix (labels (CanonicalName L apex)) (labels (CanonicalName L (CanonicalName L name)))"
    using assms(8) dns_names.canon_idem [OF dn] by simp
  from cov [OF dns_names.canon_valid [OF dn assms(4)] this] cov [OF assms(5,9)] show ?thesis
    by (simp add: ProveNXDOMAIN_def Let_def assms(6) WildcardOf_canon [OF dn])
qed

text \<open>A wildcard's own NSEC record is accepted as proof that a name under it does not exist, although the
  record shows that the wildcard exists and answers for the name.\<close>

theorem existing_wildcard_accepted:
  assumes "dns_names L labels valid" and "rr_data r = RNSEC nxt bm" and "CanonicalName L (rh_Name (rr_hdr r)) = WildcardOf L name"
    and "NSECCovers L S (rr_hdr r) nxt (CanonicalName L name)"
  shows "ProveNXDOMAIN L S [r] name = None"
  using assms(2-4) by (simp add: ProveNXDOMAIN_def Let_def WildcardOf_canon [OF assms(1)])

text \<open>A concrete library, for the witnesses: names as in \<open>ref_lib\<close>; no signature verifies and no hash matches.\<close>

definition ref_sec :: seclib where
  "ref_sec = \<lparr>SplitDomainName = ref_labels, NSEC3Match = (\<lambda>_ _ _. False), NSEC3Cover = (\<lambda>_ _ _. False), KeyTag = (\<lambda>_. 0),
     ToDS = (\<lambda>_ _ _. None), ValidityPeriod = (\<lambda>_ _. True), Verify = (\<lambda>_ _ _ _ _. False)\<rparr>"

interpretation refsec: dnssec_names ref_lib ref_labels ref_valid ref_sec
proof unfold_locales
  fix s l
  assume s: "CanonicalName ref_lib s = s" and l: "l \<in> set (ref_labels s)"
  from s have "map lower s = s" by (simp add: ref_lib_def ref_canon_fix)
  then have "map (map lower) (chunks s) = chunks s" by (metis chunks_map_lower)
  then show "map lower l = l" using l by (auto simp: ref_labels_def map_idI split: if_splits dest: map_eq_conv [THEN iffD1, of _ _ "\<lambda>x. x", simplified])
qed (simp add: ref_sec_def)

definition test_nsec :: "string \<Rightarrow> string \<Rightarrow> rr" where
  "test_nsec owner nxt = \<lparr>rr_hdr = \<lparr>rh_Name = owner, rh_Rrtype = TypeNSEC, rh_Class = ClassINET, rh_Ttl = 60, rh_Rdlength = 0\<rparr>,
     rr_data = RNSEC nxt [TypeA]\<rparr>"

theorem nxdomain_sound_witness:
  "''b.z.'' \<notin> {''z.'', ''c.z.''} \<and> ProveNXDOMAIN ref_lib ref_sec [test_nsec ''z'' ''c.z''] ''b.z'' = None
   \<and> ''*.z.'' \<notin> {''z.'', ''c.z.''}"
proof -
  have v: "ref_valid ''b.z''" "ref_valid (WildcardOf ref_lib ''b.z'')" by code_simp+
  have h: "honest_chain ref_lib ref_labels ref_valid {''z.'', ''c.z.''} [test_nsec ''z'' ''c.z'']"
    unfolding honest_chain_def test_nsec_def by (simp, code_simp)
  have n: "\<exists>r \<in> set [test_nsec ''z'' ''c.z'']. \<exists>nxt bm. rr_data r = RNSEC nxt bm" by (simp add: test_nsec_def)
  have p: "ProveNXDOMAIN ref_lib ref_sec [test_nsec ''z'' ''c.z''] ''b.z'' = None" by code_simp
  have c: "CanonicalName ref_lib ''b.z'' = ''b.z.''" "CanonicalName ref_lib (WildcardOf ref_lib ''b.z'') = ''*.z.''" by code_simp+
  from nxdomain_sound [OF refsec.dnssec_names_axioms v h n p] p show ?thesis unfolding c by simp
qed

theorem foreign_nsec_accepted_witness:
  "ProveNXDOMAIN ref_lib ref_sec [test_nsec ''z.evil'' ''evil''] ''www.bank'' = None"
proof -
  let ?r = "test_nsec ''z.evil'' ''evil''"
  have v: "ref_valid (rh_Name (rr_hdr ?r))" "ref_valid ''evil''" "ref_valid ''www.bank''"
    "ref_valid (WildcardOf ref_lib ''www.bank'')" by code_simp+
  have d: "rr_data ?r = RNSEC ''evil'' [TypeA]" by (simp add: test_nsec_def)
  have s: "suffix (ref_labels (CanonicalName ref_lib ''evil'')) (ref_labels (CanonicalName ref_lib (rh_Name (rr_hdr ?r))))"
    "\<not> suffix (ref_labels (CanonicalName ref_lib ''evil'')) (ref_labels (CanonicalName ref_lib ''www.bank''))"
    "\<not> suffix (ref_labels (CanonicalName ref_lib ''evil'')) (ref_labels (CanonicalName ref_lib (WildcardOf ref_lib ''www.bank'')))"
    by code_simp+
  show ?thesis by (rule foreign_nsec_accepted [OF refsec.dnssec_names_axioms v d s])
qed

theorem existing_wildcard_accepted_witness:
  "ProveNXDOMAIN ref_lib ref_sec [test_nsec ''*.z'' ''z''] ''a.z'' = None
   \<and> honest_chain ref_lib ref_labels ref_valid {''z.'', ''*.z.''} [test_nsec ''*.z'' ''z'']"
proof -
  let ?r = "test_nsec ''*.z'' ''z''"
  have d: "rr_data ?r = RNSEC ''z'' [TypeA]" by (simp add: test_nsec_def)
  have c: "CanonicalName ref_lib (rh_Name (rr_hdr ?r)) = WildcardOf ref_lib ''a.z''"
    "NSECCovers ref_lib ref_sec (rr_hdr ?r) ''z'' (CanonicalName ref_lib ''a.z'')" by code_simp+
  have h: "honest_chain ref_lib ref_labels ref_valid {''z.'', ''*.z.''} [?r]"
    unfolding honest_chain_def test_nsec_def by (simp, code_simp)
  show ?thesis using existing_wildcard_accepted [OF ref.dns_names_axioms d c] h by simp
qed

text \<open>\<open>CanonicalCompare\<close> is the canonical order of names: it compares the lower-cased labels from the root down,
  lexicographically, is zero exactly on equal names, and swapping the names negates it.\<close>

theorem canonical_order:
  assumes "dnssec_names L labels valid S" and "valid a" and "valid b"
  shows "(CanonicalCompare L S a b < 0 \<longleftrightarrow> rev (labels (CanonicalName L a)) < rev (labels (CanonicalName L b)))
    \<and> (CanonicalCompare L S a b = 0 \<longleftrightarrow> CanonicalName L a = CanonicalName L b)
    \<and> CanonicalCompare L S b a = - CanonicalCompare L S a b"
  using dnssec_names.compare_lex [OF assms] dnssec_names.compare_lex [OF assms(1,3,2)] dnssec_names.name_key_inj [OF assms]
  by (auto simp: name_key_def)

theorem canonical_order_witness:
  "CanonicalCompare ref_lib ref_sec ''z.a'' ''B'' = -1 \<and> CanonicalCompare ref_lib ref_sec ''B'' ''z.a'' = 1"
proof -
  have v: "ref_valid ''z.a''" "ref_valid ''B''" by code_simp+
  have "CanonicalCompare ref_lib ref_sec ''z.a'' ''B'' = -1" by code_simp
  with canonical_order [OF refsec.dnssec_names_axioms v] show ?thesis by simp
qed

definition accepted_nsec3 :: "seclib \<Rightarrow> string \<Rightarrow> rr \<Rightarrow> nsec3 \<Rightarrow> bool" where
  "accepted_nsec3 S name r n \<longleftrightarrow> rr_data r = RNSEC3 n \<and> n3_Hash n = 1 \<and> n3_Iterations n \<le> 100 \<and> NSEC3Match S (rr_hdr r) n name"

lemma params_ok: "checkNSEC3Params n = None \<longleftrightarrow> n3_Hash n = 1 \<and> n3_Iterations n \<le> 100"
  by (auto simp: checkNSEC3Params_def SHA1_def maxNSEC3Iterations_def)

text \<open>An accepted NODATA proof rests on a record for the very name that lists neither the type asked nor a
  CNAME, and an accepted proof that a delegation is unsigned on a record for the name that lists neither DS nor SOA, or on an
  opt-out span that covers it; NSEC3 records count only with the supported hash and at most 100 iterations.\<close>

theorem type_denial_evidence:
  "(ProveNODATA L S rs name t = None \<longrightarrow> (\<exists>r \<in> set rs.
      (\<exists>nxt bm. rr_data r = RNSEC nxt bm \<and> CanonicalName L (rh_Name (rr_hdr r)) = CanonicalName L name
         \<and> t \<notin> set bm \<and> TypeCNAME \<notin> set bm)
      \<or> (\<exists>n. accepted_nsec3 S (CanonicalName L name) r n \<and> t \<notin> set (n3_TypeBitMap n) \<and> TypeCNAME \<notin> set (n3_TypeBitMap n))))
   \<and> (ProveNoDS L S rs name = None \<longrightarrow> (\<exists>r \<in> set rs.
      (\<exists>nxt bm. rr_data r = RNSEC nxt bm \<and> CanonicalName L (rh_Name (rr_hdr r)) = CanonicalName L name
         \<and> TypeDS \<notin> set bm \<and> TypeSOA \<notin> set bm)
      \<or> (\<exists>n. accepted_nsec3 S (CanonicalName L name) r n \<and> TypeDS \<notin> set (n3_TypeBitMap n) \<and> TypeSOA \<notin> set (n3_TypeBitMap n))
      \<or> (\<exists>n. rr_data r = RNSEC3 n \<and> n3_Hash n = 1 \<and> n3_Iterations n \<le> 100 \<and> n3_Flags n AND 1 \<noteq> 0
           \<and> NSEC3Cover S (rr_hdr r) n (CanonicalName L name))))"
  (is "(?nodata \<longrightarrow> ?P) \<and> (?nods \<longrightarrow> ?Q)")
proof (intro conjI impI)
  assume ?nodata
  then consider "first_some (nodata_nsec L (CanonicalName L name) t) rs = Some None"
    | "first_some (nodata_nsec3 S (CanonicalName L name) t) rs = Some None"
    by (auto simp: ProveNODATA_def Let_def split: option.splits)
  then show ?P
    by cases (auto dest!: first_some_SomeD simp: nodata_nsec_def nodata_nsec3_def HasType_def list_ex_iff params_ok accepted_nsec3_def
        split: rdata.splits option.splits if_splits; metis)+
next
  assume ?nods
  then consider "first_some (nods_nsec L (CanonicalName L name)) rs = Some None"
    | "first_some (nods_nsec3 S (CanonicalName L name)) rs = Some None"
    | "first_some (nods_optout S (CanonicalName L name)) rs = Some None"
    by (auto simp: ProveNoDS_def Let_def split: option.splits)
  then show ?Q
    by cases (auto dest!: first_some_SomeD simp: nods_nsec_def nods_nsec3_def nods_optout_def HasType_def list_ex_iff params_ok accepted_nsec3_def
        split: rdata.splits option.splits if_splits; metis)+
qed

theorem type_denial_evidence_witness:
  "ProveNODATA ref_lib ref_sec [test_nsec ''b.z'' ''c.z''] ''B.z'' TypeAAAA = None
   \<and> (\<exists>r \<in> set [test_nsec ''b.z'' ''c.z'']. \<exists>nxt bm. rr_data r = RNSEC nxt bm \<and> TypeAAAA \<notin> set bm)"
proof -
  have p: "ProveNODATA ref_lib ref_sec [test_nsec ''b.z'' ''c.z''] ''B.z'' TypeAAAA = None" by code_simp
  with type_denial_evidence [of ref_lib ref_sec "[test_nsec ''b.z'' ''c.z'']" "''B.z''" TypeAAAA] show ?thesis
    by (auto simp: test_nsec_def accepted_nsec3_def)
qed

end
