(* ===== verification/Effects.thy ===== *)
theory Effects
  imports Prelude
begin

text \<open>
  Code that calls back and forth between components is written with a few
  combinators over state-passing functions: \<open>ret\<close>, \<open>bind\<close> and \<open>find_run\<close>, the
  loop that returns the first value its body yields. A run is \<open>None\<close> when the call does not
  return: it panics, does not end, or runs out of the fuel its recursion is given.
  \<open>runs m s Q\<close> says that \<open>m\<close> started in \<open>s\<close> does return and that \<open>Q\<close> holds of its result
  and of the state then; the rules below compute it along the combinators.
\<close>

type_synonym ('s, 'a) run = "'s \<Rightarrow> ('a \<times> 's) option"

definition ret :: "'a \<Rightarrow> ('s, 'a) run" where
  "ret a s = Some (a, s)"

definition bind :: "('s, 'a) run \<Rightarrow> ('a \<Rightarrow> ('s, 'b) run) \<Rightarrow> ('s, 'b) run" where
  "bind m f s = (case m s of None \<Rightarrow> None | Some (a, s') \<Rightarrow> f a s')"

definition get_run :: "('s \<Rightarrow> 'a) \<Rightarrow> ('s, 'a) run" where
  "get_run f s = Some (f s, s)"

definition modify_run :: "('s \<Rightarrow> 's) \<Rightarrow> ('s, unit) run" where
  "modify_run f s = Some ((), f s)"

fun find_run :: "('x \<Rightarrow> ('s, 'r option) run) \<Rightarrow> 'x list \<Rightarrow> ('s, 'r option) run" where
  "find_run f [] = ret None"
| "find_run f (x # xs) = bind (f x) (\<lambda>r. case r of Some y \<Rightarrow> ret (Some y) | None \<Rightarrow> find_run f xs)"

fun each_run :: "('x \<Rightarrow> ('s, unit) run) \<Rightarrow> 'x list \<Rightarrow> ('s, unit) run" where
  "each_run f [] = ret ()"
| "each_run f (x # xs) = bind (f x) (\<lambda>_. each_run f xs)"

definition runs :: "('s, 'a) run \<Rightarrow> 's \<Rightarrow> ('a \<Rightarrow> 's \<Rightarrow> bool) \<Rightarrow> bool" where
  "runs m s Q \<longleftrightarrow> (\<exists>a s'. m s = Some (a, s') \<and> Q a s')"

lemma bind_cong [fundef_cong]:
  "m = m' \<Longrightarrow> (\<And>a. f a = f' a) \<Longrightarrow> bind m f = bind m' f'"
  by (simp add: bind_def fun_eq_iff split: option.splits)

lemma bind_Some: "bind m f s = Some (b, s'') \<longleftrightarrow> (\<exists>a s'. m s = Some (a, s') \<and> f a s' = Some (b, s''))"
  by (auto simp: bind_def split: option.splits)

lemma ret_Some [simp]: "ret a s = Some (b, s') \<longleftrightarrow> b = a \<and> s' = s"
  by (auto simp: ret_def)

lemma get_run_Some [simp]: "get_run f s = Some (b, s') \<longleftrightarrow> b = f s \<and> s' = s"
  by (auto simp: get_run_def)

lemma modify_run_Some [simp]: "modify_run f s = Some (b, s') \<longleftrightarrow> s' = f s"
  by (auto simp: modify_run_def)

lemma runs_mono: "runs m s Q \<Longrightarrow> (\<And>a s'. Q a s' \<Longrightarrow> R a s') \<Longrightarrow> runs m s R"
  by (auto simp: runs_def)

lemma runs_ret [simp]: "runs (ret a) s Q \<longleftrightarrow> Q a s"
  by (simp add: runs_def)

lemma runs_get [simp]: "runs (get_run f) s Q \<longleftrightarrow> Q (f s) s"
  by (simp add: runs_def)

lemma runs_modify [simp]: "runs (modify_run f) s Q \<longleftrightarrow> Q () (f s)"
  by (simp add: runs_def)

lemma runs_bind [simp]: "runs (bind m f) s Q \<longleftrightarrow> runs m s (\<lambda>a s'. runs (f a) s' Q)"
  by (auto simp: runs_def bind_Some)

text \<open>Loops, by an invariant of the state.\<close>

lemma runs_find:
  assumes "I s" and "\<And>x s. x \<in> set xs \<Longrightarrow> I s \<Longrightarrow> runs (f x) s (\<lambda>r s'. I s' \<and> (\<forall>y. r = Some y \<longrightarrow> P y))"
  shows "runs (find_run f xs) s (\<lambda>r s'. I s' \<and> (\<forall>y. r = Some y \<longrightarrow> P y))"
  using assms
proof (induction xs arbitrary: s)
  case (Cons x xs)
  have "runs (f x) s (\<lambda>r s'. I s' \<and> (\<forall>y. r = Some y \<longrightarrow> P y))" using Cons.prems by simp
  then show ?case
    by (auto elim!: runs_mono split: option.splits intro!: Cons.IH [simplified] Cons.prems(2))
qed simp

lemma runs_each:
  assumes "I s" and "\<And>x s. x \<in> set xs \<Longrightarrow> I s \<Longrightarrow> runs (f x) s (\<lambda>_. I)"
  shows "runs (each_run f xs) s (\<lambda>_. I)"
  using assms
proof (induction xs arbitrary: s)
  case (Cons x xs)
  have "runs (f x) s (\<lambda>_. I)" using Cons.prems by simp
  then show ?case by (auto elim!: runs_mono intro!: Cons.IH Cons.prems(2))
qed simp

end
