(* ===== verification/Dnssec_Validator.thy ===== *)
theory Dnssec_Validator
  imports Dnssec_Denial Effects
begin

text \<open>
  \<open>internal/dnssec/validator.go\<close> and the anchor type of \<open>anchor.go\<close>: signature acceptance and the walk
  that builds a chain of trust. Records that the source holds as typed pointers carry their header beside their data. The
  \<open>Fetcher\<close> is a state-passing function on the resolver's state \<open>'e\<close>; the set of names whose keys were
  inherited is the validator's own state, beside it. The clock is a function of \<open>'e\<close>. The denial groups are
  visited in an order \<open>ord\<close> of their keys, the name and type that the source prints into one string.
  \<open>trustedKeys\<close> and \<open>delegationSigners\<close> call each other: the second takes the first's
  recursive call as its argument \<open>tk\<close>, and the recursion ends because it stops at \<open>maxDep\<close>.
\<close>

datatype status = StatusIndeterminate | StatusInsecure | StatusSecure | StatusBogus

fun status_String :: "status \<Rightarrow> string" where
  "status_String StatusInsecure = ''insecure''"
| "status_String StatusSecure = ''secure''"
| "status_String StatusBogus = ''bogus''"
| "status_String StatusIndeterminate = ''indeterminate''"

record anchor =
  an_Zone :: string
  an_KeyTag :: u16
  an_Algorithm :: "8 word"
  an_DigestType :: "8 word"
  an_Digest :: string
  an_ValidFrom :: gtime
  an_ValidUntil :: gtime

definition anchor_Valid :: "anchor \<Rightarrow> gtime \<Rightarrow> bool" where
  "anchor_Valid a now =
     (if an_ValidFrom a \<noteq> 0 \<and> now < an_ValidFrom a then False
      else if an_ValidUntil a \<noteq> 0 \<and> now > an_ValidUntil a then False else True)"

definition upper :: "char \<Rightarrow> char" where
  "upper c = (if CHR ''a'' \<le> c \<and> c \<le> CHR ''z'' then char_of (of_char c - 32 :: nat) else c)"

type_synonym hrrsig = "rr_header \<times> rrsig"
type_synonym hdnskey = "rr_header \<times> dnskey"
type_synonym hds = "rr_header \<times> ds"

definition anchor_ToDS :: "dnslib \<Rightarrow> anchor \<Rightarrow> hds" where
  "anchor_ToDS L a =
     (\<lparr>rh_Name = CanonicalName L (an_Zone a), rh_Rrtype = TypeDS, rh_Class = ClassINET, rh_Ttl = 0, rh_Rdlength = 0\<rparr>,
      \<lparr>ds_KeyTag = an_KeyTag a, ds_Algorithm = an_Algorithm a, ds_DigestType = an_DigestType a,
       ds_Digest = map upper (an_Digest a)\<rparr>)"

record validator =
  va_anchors :: "anchor list"
  va_maxDep :: int
  va_sha1 :: bool

definition validator_New :: "anchor list \<Rightarrow> int \<Rightarrow> bool \<Rightarrow> string + validator" where
  "validator_New anchors maxDepth acceptSHA1 =
     (if length anchors = 0 then Inl ''dnssec: at least one trust anchor is required''
      else Inr \<lparr>va_anchors = anchors, va_maxDep = (if maxDepth \<le> 0 then 16 else maxDepth), va_sha1 = acceptSHA1\<rparr>)"

definition AnchorsFor :: "dnslib \<Rightarrow> validator \<Rightarrow> gtime \<Rightarrow> string \<Rightarrow> anchor list" where
  "AnchorsFor L V now zone0 = (let zone = CanonicalName L zone0 in
     filter (\<lambda>a. CanonicalName L (an_Zone a) = zone \<and> anchor_Valid a now) (va_anchors V))"

definition algorithmAllowed :: "validator \<Rightarrow> 8 word \<Rightarrow> bool" where
  "algorithmAllowed V alg =
     (if alg \<in> {8, 10, 13, 14, 15, 16} then True
      else if alg \<in> {5, 7} then va_sha1 V else False)"

section \<open>Signatures\<close>

definition ZONE :: u16 where "ZONE = 256"

fun verify_keys :: "dnslib \<Rightarrow> seclib \<Rightarrow> rr list \<Rightarrow> hrrsig \<Rightarrow> string \<Rightarrow> hdnskey list \<Rightarrow> sec_error \<Rightarrow> sec_error + hrrsig" where
  "verify_keys L S rrset sig signer [] lastErr = Inl lastErr"
| "verify_keys L S rrset sig signer ((kh, key) # keys) lastErr =
     (if key_Algorithm key \<noteq> sig_Algorithm (snd sig) \<or> KeyTag S key \<noteq> sig_KeyTag (snd sig)
        then verify_keys L S rrset sig signer keys lastErr
      else if CanonicalName L (rh_Name kh) \<noteq> signer then verify_keys L S rrset sig signer keys lastErr
      else if key_Flags key AND ZONE = 0 then verify_keys L S rrset sig signer keys lastErr
      else if \<not> Verify S (fst sig) (snd sig) kh key rrset then verify_keys L S rrset sig signer keys ErrSignatureFailed
      else Inr sig)"

fun verify_sigs :: "dnslib \<Rightarrow> seclib \<Rightarrow> validator \<Rightarrow> gtime \<Rightarrow> rr list \<Rightarrow> string \<Rightarrow> u16 \<Rightarrow> hdnskey list \<Rightarrow> hrrsig list \<Rightarrow> sec_error \<Rightarrow> sec_error + hrrsig" where
  "verify_sigs L S V now rrset owner rrtype keys [] lastErr = Inl lastErr"
| "verify_sigs L S V now rrset owner rrtype keys ((h, sig) # sigs) lastErr =
     (let signer = CanonicalName L (sig_SignerName sig) in
      if sig_TypeCovered sig \<noteq> rrtype then verify_sigs L S V now rrset owner rrtype keys sigs lastErr
      else if \<not> IsSubDomain L signer owner then verify_sigs L S V now rrset owner rrtype keys sigs lastErr
      else if unat (sig_Labels sig) > CountLabel L owner then verify_sigs L S V now rrset owner rrtype keys sigs lastErr
      else if \<not> algorithmAllowed V (sig_Algorithm sig) then verify_sigs L S V now rrset owner rrtype keys sigs ErrUnsupportedAlg
      else if \<not> ValidityPeriod S sig now then verify_sigs L S V now rrset owner rrtype keys sigs ErrSignatureExpired
      else case verify_keys L S rrset (h, sig) signer keys lastErr of
             Inr res \<Rightarrow> Inr res
           | Inl e \<Rightarrow> verify_sigs L S V now rrset owner rrtype keys sigs e)"

definition VerifyRRset :: "dnslib \<Rightarrow> seclib \<Rightarrow> validator \<Rightarrow> gtime \<Rightarrow> rr list \<Rightarrow> hrrsig list \<Rightarrow> hdnskey list \<Rightarrow> sec_error + hrrsig" where
  "VerifyRRset L S V now rrset sigs keys = (case rrset of
       [] \<Rightarrow> Inl ErrNoSignatures
     | r0 # _ \<Rightarrow>
         if length sigs = 0 then Inl ErrNoSignatures
         else verify_sigs L S V now rrset (CanonicalName L (rh_Name (rr_hdr r0))) (rh_Rrtype (rr_hdr r0)) keys sigs ErrNoMatchingKey)"

definition WasWildcardExpanded :: "dnslib \<Rightarrow> rrsig \<Rightarrow> string \<Rightarrow> bool" where
  "WasWildcardExpanded L sig owner = (unat (sig_Labels sig) < CountLabel L (CanonicalName L owner))"

definition equalFoldASCII :: "string \<Rightarrow> string \<Rightarrow> bool" where
  "equalFoldASCII a b = (length a = length b \<and> list_all2 (\<lambda>x y. lower x = lower y) a b)"

definition matchDS :: "seclib \<Rightarrow> ds \<Rightarrow> hdnskey \<Rightarrow> bool" where
  "matchDS S d k = (case k of (kh, key) \<Rightarrow>
     if KeyTag S key \<noteq> ds_KeyTag d \<or> key_Algorithm key \<noteq> ds_Algorithm d then False
     else if key_Flags key AND ZONE = 0 then False
     else case ToDS S kh key (ds_DigestType d) of
            None \<Rightarrow> False
          | Some computed \<Rightarrow> equalFoldASCII (ds_Digest computed) (ds_Digest d))"

section \<open>Denial\<close>

definition sigs_of :: "rr list \<Rightarrow> hrrsig list" where
  "sigs_of rs = concat (map (\<lambda>r. case rr_data r of RRRSIG s \<Rightarrow> [(rr_hdr r, s)] | _ \<Rightarrow> []) rs)"

definition in_denial :: "rr \<Rightarrow> bool" where
  "in_denial r = (case rr_data r of RNSEC _ _ \<Rightarrow> True | RNSEC3 _ \<Rightarrow> True | RSOA _ _ _ \<Rightarrow> True | _ \<Rightarrow> False)"

definition group_key :: "dnslib \<Rightarrow> rr \<Rightarrow> string \<times> u16" where
  "group_key L r = (CanonicalName L (rh_Name (rr_hdr r)), rh_Rrtype (rr_hdr r))"

type_synonym key_order = "(string \<times> u16) list \<Rightarrow> (string \<times> u16) list"

definition verifyDenialSignatures :: "dnslib \<Rightarrow> seclib \<Rightarrow> key_order \<Rightarrow> validator \<Rightarrow> gtime \<Rightarrow> rr list \<Rightarrow> hdnskey list \<Rightarrow> sec_error option" where
  "verifyDenialSignatures L S ord V now denial keys =
     (let sigs = sigs_of denial; recs = filter in_denial denial in
      if length sigs = 0 then Some ErrNoSignatures
      else if length recs = 0 then Some ErrOther
      else first_some (\<lambda>k. case VerifyRRset L S V now (filter (\<lambda>r. group_key L r = k) recs) sigs keys of
                             Inl e \<Rightarrow> Some e
                           | Inr _ \<Rightarrow> None)
             (ord (remdups (map (group_key L) recs))))"

definition verifyDenial :: "dnslib \<Rightarrow> seclib \<Rightarrow> key_order \<Rightarrow> validator \<Rightarrow> gtime \<Rightarrow> rr list \<Rightarrow> hdnskey list \<Rightarrow> string \<Rightarrow> sec_error option" where
  "verifyDenial L S ord V now denial keys name =
     (if length denial = 0 then Some ErrOther
      else case verifyDenialSignatures L S ord V now denial keys of
             Some e \<Rightarrow> Some e
           | None \<Rightarrow> ProveNoDS L S denial name)"

section \<open>The chain of trust\<close>

definition parentZone :: "dnslib \<Rightarrow> string \<Rightarrow> string" where
  "parentZone L zone0 = (let zone = CanonicalName L zone0 in
     if zone = ''.'' then ''.''
     else let (i, fin) = NextLabel L zone 0 in if fin then ''.'' else drop i zone)"

text \<open>The fetcher: the records, their signatures and the denial records, or an error.\<close>

type_synonym 'e fetcher = "string \<Rightarrow> u16 \<Rightarrow> ('e, (rr list \<times> hrrsig list \<times> rr list) option) run"

type_synonym 'e vstate = "string set \<times> 'e"

definition fetch_run :: "'e fetcher \<Rightarrow> string \<Rightarrow> u16 \<Rightarrow> ('e vstate, (rr list \<times> hrrsig list \<times> rr list) option) run" where
  "fetch_run fetch name t = (\<lambda>(inh, e). map_option (\<lambda>(r, e'). (r, inh, e')) (fetch name t e))"

definition markInherited :: "dnslib \<Rightarrow> string \<Rightarrow> ('e vstate, unit) run" where
  "markInherited L zone = modify_run (\<lambda>(inh, e). (insert (CanonicalName L zone) inh, e))"

definition KeysWereInherited :: "dnslib \<Rightarrow> string \<Rightarrow> ('e vstate, bool) run" where
  "KeysWereInherited L zone = get_run (\<lambda>(inh, e). CanonicalName L zone \<in> inh)"

datatype ds_error = NotAZoneCut | SecError sec_error

type_synonym keys_result = "hdnskey list \<times> status \<times> sec_error option"
type_synonym signers_result = "hds list \<times> hdnskey list \<times> status \<times> ds_error option"

definition ds_of :: "rr list \<Rightarrow> hds list" where
  "ds_of rs = concat (map (\<lambda>r. case rr_data r of RDS d \<Rightarrow> [(rr_hdr r, d)] | _ \<Rightarrow> []) rs)"

definition dnskeys_of :: "rr list \<Rightarrow> hdnskey list" where
  "dnskeys_of rs = concat (map (\<lambda>r. case rr_data r of RDNSKEY k \<Rightarrow> [(rr_hdr r, k)] | _ \<Rightarrow> []) rs)"

definition ds_rr :: "hds \<Rightarrow> rr" where
  "ds_rr d = \<lparr>rr_hdr = fst d, rr_data = RDS (snd d)\<rparr>"

definition dnskey_rr :: "hdnskey \<Rightarrow> rr" where
  "dnskey_rr k = \<lparr>rr_hdr = fst k, rr_data = RDNSKEY (snd k)\<rparr>"

text \<open>What the walk concludes from the records once they are fetched.\<close>

definition ds_verdict :: "dnslib \<Rightarrow> seclib \<Rightarrow> key_order \<Rightarrow> validator \<Rightarrow> gtime \<Rightarrow> string \<Rightarrow> hdnskey list
    \<Rightarrow> rr list \<Rightarrow> hrrsig list \<Rightarrow> rr list \<Rightarrow> signers_result" where
  "ds_verdict L S ord V now zone parentKeys rrs sigs denial =
     (let dsSet = ds_of rrs in
      if length dsSet = 0 then
        (case verifyDenial L S ord V now denial parentKeys zone of
           Some e \<Rightarrow> ([], [], StatusBogus, Some (SecError e))
         | None \<Rightarrow>
             let (isCut, known) = ZoneCutFromDenial L S denial zone in
             if known \<and> \<not> isCut then ([], parentKeys, StatusSecure, Some NotAZoneCut)
             else ([], [], StatusInsecure, None))
      else (case VerifyRRset L S V now (map ds_rr dsSet) sigs parentKeys of
           Inl e \<Rightarrow> ([], [], StatusBogus, Some (SecError e))
         | Inr _ \<Rightarrow>
             if \<not> list_ex (\<lambda>d. algorithmAllowed V (ds_Algorithm (snd d))) dsSet
             then ([], [], StatusBogus, Some (SecError ErrUnsupportedAlg))
             else (dsSet, [], StatusSecure, None)))"

definition keys_verdict :: "dnslib \<Rightarrow> seclib \<Rightarrow> validator \<Rightarrow> gtime \<Rightarrow> hds list \<Rightarrow> rr list \<Rightarrow> hrrsig list \<Rightarrow> keys_result" where
  "keys_verdict L S V now dsSet rrs sigs =
     (let dnskeys = dnskeys_of rrs in
      if length dnskeys = 0 then ([], StatusBogus, Some ErrNoDNSKEY)
      else let entry = filter (\<lambda>k. list_ex (\<lambda>d. matchDS S (snd d) k) dsSet) dnskeys in
        if length entry = 0 then ([], StatusBogus, Some ErrDSMismatch)
        else (case VerifyRRset L S V now (map dnskey_rr dnskeys) sigs entry of
                Inl e \<Rightarrow> ([], StatusBogus, Some e)
              | Inr _ \<Rightarrow> (dnskeys, StatusSecure, None)))"

definition delegationSigners :: "dnslib \<Rightarrow> seclib \<Rightarrow> key_order \<Rightarrow> validator \<Rightarrow> ('e \<Rightarrow> gtime) \<Rightarrow> 'e fetcher
    \<Rightarrow> (string \<Rightarrow> ('e vstate, keys_result) run) \<Rightarrow> string \<Rightarrow> ('e vstate, signers_result) run" where
  "delegationSigners L S ord V clock fetch tk zone =
     bind (get_run (\<lambda>(inh, e). AnchorsFor L V (clock e) zone)) (\<lambda>anchors.
     if length anchors > 0 then ret (map (anchor_ToDS L) anchors, [], StatusSecure, None)
     else if zone = ''.'' then ret ([], [], StatusIndeterminate, None)
     else bind (tk (parentZone L zone)) (\<lambda>(parentKeys, status, err).
       if err \<noteq> None \<or> status \<noteq> StatusSecure then ret ([], [], status, map_option SecError err)
       else bind (fetch_run fetch zone TypeDS) (\<lambda>res. case res of
         None \<Rightarrow> ret ([], [], StatusIndeterminate, Some (SecError ErrEvidenceUnavailable))
       | Some (rrs, sigs, denial) \<Rightarrow>
           get_run (\<lambda>(inh, e). ds_verdict L S ord V (clock e) zone parentKeys rrs sigs denial))))"

function trustedKeys :: "dnslib \<Rightarrow> seclib \<Rightarrow> key_order \<Rightarrow> validator \<Rightarrow> ('e \<Rightarrow> gtime) \<Rightarrow> 'e fetcher
    \<Rightarrow> string \<Rightarrow> int \<Rightarrow> ('e vstate, keys_result) run" where
  "trustedKeys L S ord V clock fetch zone depth =
     (if depth > va_maxDep V then ret ([], StatusBogus, Some ErrChainTooDeep)
      else bind (delegationSigners L S ord V clock fetch
                   (\<lambda>z. trustedKeys L S ord V clock fetch z (depth + 1)) zone) (\<lambda>(dsSet, parentKeys, status, err).
        if err = Some NotAZoneCut then bind (markInherited L zone) (\<lambda>_. ret (parentKeys, StatusSecure, None))
        else if err \<noteq> None \<or> status \<noteq> StatusSecure
          then ret ([], status, case err of Some (SecError e) \<Rightarrow> Some e | _ \<Rightarrow> None)
        else bind (fetch_run fetch zone TypeDNSKEY) (\<lambda>res. case res of
          None \<Rightarrow> ret ([], StatusIndeterminate, Some ErrEvidenceUnavailable)
        | Some (rrs, sigs, _) \<Rightarrow> get_run (\<lambda>(inh, e). keys_verdict L S V (clock e) dsSet rrs sigs))))"
  by pat_completeness auto
termination
  by (relation "measure (\<lambda>(L, S, ord, V, clock, fetch, zone, depth). nat (va_maxDep V + 1 - depth))") auto

declare trustedKeys.simps [simp del]

definition TrustedKeys :: "dnslib \<Rightarrow> seclib \<Rightarrow> key_order \<Rightarrow> validator \<Rightarrow> ('e \<Rightarrow> gtime) \<Rightarrow> 'e fetcher option
    \<Rightarrow> string \<Rightarrow> ('e vstate, keys_result) run" where
  "TrustedKeys L S ord V clock fetch zone = (case fetch of
       None \<Rightarrow> ret ([], StatusIndeterminate, Some ErrOther)
     | Some f \<Rightarrow> trustedKeys L S ord V clock f (CanonicalName L zone) 0)"

definition ExtendedError :: "sec_error \<Rightarrow> u16" where
  "ExtendedError err = (case err of
       ErrEvidenceUnavailable \<Rightarrow> ExtendedErrorCodeNoReachableAuthority
     | ErrSignatureExpired \<Rightarrow> ExtendedErrorCodeSignatureExpired
     | ErrSignatureFailed \<Rightarrow> ExtendedErrorCodeDNSBogus
     | ErrNoSignatures \<Rightarrow> ExtendedErrorCodeRRSIGsMissing
     | ErrDSMismatch \<Rightarrow> ExtendedErrorCodeDNSKEYMissing
     | ErrNoDNSKEY \<Rightarrow> ExtendedErrorCodeDNSKEYMissing
     | ErrNoMatchingKey \<Rightarrow> ExtendedErrorCodeDNSKEYMissing
     | ErrUnsupportedAlg \<Rightarrow> ExtendedErrorCodeUnsupportedDNSKEYAlgorithm
     | ErrProofUnsupported \<Rightarrow> ExtendedErrorCodeUnsupportedNSEC3IterValue
     | ErrNoProof \<Rightarrow> ExtendedErrorCodeNSECMissing
     | _ \<Rightarrow> ExtendedErrorCodeDNSBogus)"

section \<open>Signature acceptance\<close>

definition key_signs :: "dnslib \<Rightarrow> seclib \<Rightarrow> rr list \<Rightarrow> hrrsig \<Rightarrow> hdnskey \<Rightarrow> bool" where
  "key_signs L S rrset sig k \<longleftrightarrow> key_Algorithm (snd k) = sig_Algorithm (snd sig) \<and> KeyTag S (snd k) = sig_KeyTag (snd sig)
     \<and> CanonicalName L (rh_Name (fst k)) = CanonicalName L (sig_SignerName (snd sig))
     \<and> key_Flags (snd k) AND ZONE \<noteq> 0 \<and> Verify S (fst sig) (snd sig) (fst k) (snd k) rrset"

definition sig_fits :: "dnslib \<Rightarrow> seclib \<Rightarrow> validator \<Rightarrow> gtime \<Rightarrow> string \<Rightarrow> u16 \<Rightarrow> hrrsig \<Rightarrow> bool" where
  "sig_fits L S V now owner rrtype sig \<longleftrightarrow> sig_TypeCovered (snd sig) = rrtype
     \<and> IsSubDomain L (CanonicalName L (sig_SignerName (snd sig))) owner
     \<and> unat (sig_Labels (snd sig)) \<le> CountLabel L owner
     \<and> algorithmAllowed V (sig_Algorithm (snd sig)) \<and> ValidityPeriod S (snd sig) now"

lemma verify_keys_iff:
  "verify_keys L S rrset sig (CanonicalName L (sig_SignerName (snd sig))) keys e = Inr res \<longleftrightarrow>
     res = sig \<and> (\<exists>k \<in> set keys. key_signs L S rrset sig k)"
proof (induction keys arbitrary: e)
  case (Cons k keys)
  obtain kh key where k: "k = (kh, key)" by fastforce
  have "\<exists>e'. verify_keys L S rrset sig (CanonicalName L (sig_SignerName (snd sig))) (k # keys) e =
      (if key_signs L S rrset sig k then Inr sig
       else verify_keys L S rrset sig (CanonicalName L (sig_SignerName (snd sig))) keys e')"
    by (auto simp: k key_signs_def)
  then obtain e' where e': "verify_keys L S rrset sig (CanonicalName L (sig_SignerName (snd sig))) (k # keys) e =
      (if key_signs L S rrset sig k then Inr sig
       else verify_keys L S rrset sig (CanonicalName L (sig_SignerName (snd sig))) keys e')" ..
  show ?case unfolding e' using Cons.IH [of e'] by (cases "key_signs L S rrset sig k") auto
qed simp

lemma verify_sigs_iff:
  "(\<exists>res. verify_sigs L S V now rrset owner rrtype keys sigs e = Inr res) \<longleftrightarrow>
     (\<exists>sig \<in> set sigs. sig_fits L S V now owner rrtype sig \<and> (\<exists>k \<in> set keys. key_signs L S rrset sig k))"
proof (induction sigs arbitrary: e)
  case (Cons s sigs)
  obtain h sg where s: "s = (h, sg)" by fastforce
  show ?case
  proof (cases "sig_fits L S V now owner rrtype s")
    case True
    then have step: "verify_sigs L S V now rrset owner rrtype keys (s # sigs) e =
        (case verify_keys L S rrset s (CanonicalName L (sig_SignerName (snd s))) keys e of
           Inr res \<Rightarrow> Inr res | Inl e' \<Rightarrow> verify_sigs L S V now rrset owner rrtype keys sigs e')"
      by (simp add: s sig_fits_def Let_def)
    show ?thesis
    proof (cases "verify_keys L S rrset s (CanonicalName L (sig_SignerName (snd s))) keys e")
      case (Inl e')
      then have "\<not> (\<exists>k \<in> set keys. key_signs L S rrset s k)" using verify_keys_iff [of L S rrset s keys e s] by auto
      with Inl step Cons.IH [of e'] show ?thesis by simp
    next
      case (Inr res)
      then show ?thesis using step True verify_keys_iff [of L S rrset s keys e res] by auto
    qed
  next
    case False
    then have "\<exists>e'. verify_sigs L S V now rrset owner rrtype keys (s # sigs) e = verify_sigs L S V now rrset owner rrtype keys sigs e'"
      by (auto simp: s sig_fits_def Let_def not_le)
    then obtain e' where e': "verify_sigs L S V now rrset owner rrtype keys (s # sigs) e = verify_sigs L S V now rrset owner rrtype keys sigs e'" ..
    show ?thesis unfolding e' Cons.IH [of e'] using False by simp
  qed
qed simp

text \<open>A set of records is accepted exactly when one of the signatures offered covers its type, names a signer
  at or above the owner, has no more labels than it, uses an allowed algorithm, is inside its validity
  period, and verifies under one of the given keys, a zone key of that signer with the signature's tag and algorithm.\<close>

theorem verify_accepts_iff:
  "(\<exists>sig. VerifyRRset L S V now rrset sigs keys = Inr sig) \<longleftrightarrow> rrset \<noteq> [] \<and>
     (\<exists>sig \<in> set sigs. sig_fits L S V now (CanonicalName L (rh_Name (rr_hdr (hd rrset)))) (rh_Rrtype (rr_hdr (hd rrset))) sig
        \<and> (\<exists>k \<in> set keys. key_signs L S rrset sig k))"
proof (cases rrset)
  case (Cons r rs)
  show ?thesis
  proof (cases "sigs = []")
    case False
    then have v: "VerifyRRset L S V now rrset sigs keys = verify_sigs L S V now rrset (CanonicalName L (rh_Name (rr_hdr r)))
        (rh_Rrtype (rr_hdr r)) keys sigs ErrNoMatchingKey" by (simp add: VerifyRRset_def Cons)
    show ?thesis unfolding v verify_sigs_iff by (simp add: Cons)
  qed (simp add: VerifyRRset_def Cons)
qed (simp add: VerifyRRset_def)

section \<open>Chains of trust\<close>

definition vouched :: "dnslib \<Rightarrow> seclib \<Rightarrow> validator \<Rightarrow> hds list \<Rightarrow> hdnskey list \<Rightarrow> bool" where
  "vouched L S V dss keys \<longleftrightarrow> (\<exists>sigs t sig. VerifyRRset L S V t (map dnskey_rr keys) sigs
     (filter (\<lambda>k. list_ex (\<lambda>d. matchDS S (snd d) k) dss) keys) = Inr sig)"

text \<open>The keys of a zone are trusted when they are vouched for by a trust anchor, by a DS set the parent's trusted keys signed,
  or, for a name the parent signed to be no zone cut, when they are the parent's.\<close>

inductive trusts :: "dnslib \<Rightarrow> seclib \<Rightarrow> key_order \<Rightarrow> validator \<Rightarrow> string \<Rightarrow> hdnskey list \<Rightarrow> bool" for L S ord V where
  trusts_anchor: "AnchorsFor L V t zone \<noteq> [] \<Longrightarrow> vouched L S V (map (anchor_ToDS L) (AnchorsFor L V t zone)) keys \<Longrightarrow>
    trusts L S ord V zone keys"
| trusts_signed: "trusts L S ord V (parentZone L zone) pk \<Longrightarrow> VerifyRRset L S V t (map ds_rr dss) sigs pk = Inr sig \<Longrightarrow>
    vouched L S V dss keys \<Longrightarrow> trusts L S ord V zone keys"
| trusts_inherited: "trusts L S ord V (parentZone L zone) pk \<Longrightarrow> verifyDenial L S ord V t denial pk zone = None \<Longrightarrow>
    ZoneCutFromDenial L S denial zone = (False, True) \<Longrightarrow> trusts L S ord V zone pk"

text \<open>A zone is proved unsigned when it or a zone above it has a trusted parent that signed the absence of its DS.\<close>

inductive proved_unsigned :: "dnslib \<Rightarrow> seclib \<Rightarrow> key_order \<Rightarrow> validator \<Rightarrow> string \<Rightarrow> bool" for L S ord V where
  unsigned_here: "trusts L S ord V (parentZone L zone) pk \<Longrightarrow> verifyDenial L S ord V t denial pk zone = None \<Longrightarrow>
    proved_unsigned L S ord V zone"
| unsigned_above: "proved_unsigned L S ord V (parentZone L zone) \<Longrightarrow> proved_unsigned L S ord V zone"

definition keys_ok :: "dnslib \<Rightarrow> seclib \<Rightarrow> key_order \<Rightarrow> validator \<Rightarrow> ('e \<Rightarrow> gtime) \<Rightarrow> string \<Rightarrow> keys_result \<Rightarrow> bool" where
  "keys_ok L S ord V clock zone = (\<lambda>(keys, status, err).
     (status = StatusSecure \<longrightarrow> err = None \<and> trusts L S ord V zone keys)
     \<and> (status = StatusInsecure \<longrightarrow> proved_unsigned L S ord V zone)
     \<and> (status = StatusBogus \<longrightarrow> err \<noteq> None)
     \<and> (status = StatusIndeterminate \<and> (\<forall>e. AnchorsFor L V (clock e) ''.'' \<noteq> []) \<longrightarrow> err \<noteq> None))"

definition signers_ok :: "dnslib \<Rightarrow> seclib \<Rightarrow> key_order \<Rightarrow> validator \<Rightarrow> ('e \<Rightarrow> gtime) \<Rightarrow> string \<Rightarrow> signers_result \<Rightarrow> bool" where
  "signers_ok L S ord V clock zone = (\<lambda>(dss, pk, status, err).
     (status = StatusSecure \<and> err = None \<longrightarrow> (\<forall>keys. vouched L S V dss keys \<longrightarrow> trusts L S ord V zone keys))
     \<and> (err = Some NotAZoneCut \<longrightarrow> trusts L S ord V zone pk)
     \<and> (status = StatusSecure \<longrightarrow> err = None \<or> err = Some NotAZoneCut)
     \<and> (status = StatusInsecure \<longrightarrow> proved_unsigned L S ord V zone)
     \<and> (status = StatusBogus \<longrightarrow> (\<exists>e. err = Some (SecError e)))
     \<and> (status = StatusIndeterminate \<and> (\<forall>e. AnchorsFor L V (clock e) ''.'' \<noteq> []) \<longrightarrow> (\<exists>e. err = Some (SecError e))))"

lemma vouchedI: "VerifyRRset L S V t (map dnskey_rr keys) sigs (filter (\<lambda>k. list_ex (\<lambda>d. matchDS S (snd d) k) dss) keys) = Inr sig \<Longrightarrow>
    vouched L S V dss keys"
  unfolding vouched_def by blast

lemma indeterminate_ok [simp]:
  "signers_ok L S ord V clock zone (x, y, StatusIndeterminate, Some (SecError e))"
  "keys_ok L S ord V clock zone (z, StatusIndeterminate, Some e')"
  by (simp_all add: signers_ok_def keys_ok_def)

lemma ds_verdict_ok:
  assumes "trusts L S ord V (parentZone L zone) pk"
  shows "signers_ok L S ord V clock zone (ds_verdict L S ord V now zone pk rrs sigs denial)"
proof (cases "ds_of rrs = []")
  case True
  then show ?thesis
    using unsigned_here [OF assms] trusts_inherited [OF assms]
    by (auto simp: ds_verdict_def Let_def signers_ok_def split: option.splits prod.splits)
next
  case False
  then show ?thesis
    using trusts_signed [OF assms]
    by (auto simp: ds_verdict_def Let_def signers_ok_def split: sum.splits)
qed

lemma keys_verdict_ok:
  assumes "signers_ok L S ord V clock zone (dss, pk, StatusSecure, None)"
  shows "keys_ok L S ord V clock zone (keys_verdict L S V now dss rrs sigs)"
proof -
  have "\<And>keys. vouched L S V dss keys \<Longrightarrow> trusts L S ord V zone keys" using assms by (simp add: signers_ok_def)
  then show ?thesis
    by (auto simp: keys_verdict_def Let_def keys_ok_def dest: vouchedI split: sum.splits)
qed

text \<open>Running a walk under a predicate on the fetcher's state that every fetch keeps.\<close>

lemma runs_fetch: "runs (fetch_run f n t) (inh, e) Q \<longleftrightarrow> runs (f n t) e (\<lambda>r e'. Q r (inh, e'))"
  by (auto simp: runs_def fetch_run_def)

lemma delegationSigners_ok:
  assumes "\<And>s r s'. tk (parentZone L zone) s = Some (r, s') \<Longrightarrow> keys_ok L S ord V clock (parentZone L zone) r"
    and run: "delegationSigners L S ord V clock fetch tk zone s = Some (r, s')"
  shows "signers_ok L S ord V clock zone r"
proof -
  obtain inh e where s: "s = (inh, e)" by fastforce
  let ?as = "AnchorsFor L V (clock e) zone"
  consider "?as \<noteq> []" | "?as = []" "zone = ''.''" | "?as = []" "zone \<noteq> ''.''" by blast
  then show ?thesis
  proof cases
    case 1
    with run s have "r = (map (anchor_ToDS L) ?as, [], StatusSecure, None)"
      by (simp add: delegationSigners_def bind_Some)
    then show ?thesis using trusts_anchor [OF 1] by (auto simp: signers_ok_def)
  next
    case 2
    then have "\<not> (\<forall>e. AnchorsFor L V (clock e) ''.'' \<noteq> [])" by blast
    with 2 run s show ?thesis by (auto simp: delegationSigners_def bind_Some signers_ok_def)
  next
    case 3
    with run s obtain pk status err s1 where tk: "tk (parentZone L zone) s = Some ((pk, status, err), s1)"
      and rest: "(if err \<noteq> None \<or> status \<noteq> StatusSecure then ret ([], [], status, map_option SecError err)
       else bind (fetch_run fetch zone TypeDS) (\<lambda>res. case res of
         None \<Rightarrow> ret ([], [], StatusIndeterminate, Some (SecError ErrEvidenceUnavailable))
       | Some (rrs, sigs, denial) \<Rightarrow>
           get_run (\<lambda>(inh, e). ds_verdict L S ord V (clock e) zone pk rrs sigs denial))) s1 = Some (r, s')"
      by (simp add: delegationSigners_def bind_Some) blast
    note ok = assms(1) [OF tk]
    show ?thesis
    proof (cases "err \<noteq> None \<or> status \<noteq> StatusSecure")
      case True
      with rest ok show ?thesis by (auto simp: signers_ok_def keys_ok_def intro: unsigned_above)
    next
      case False
      then have "trusts L S ord V (parentZone L zone) pk" using ok by (simp add: keys_ok_def)
      from False rest ds_verdict_ok [OF this] show ?thesis
        by (auto simp: bind_Some split: option.splits prod.splits)
    qed
  qed
qed

lemma trustedKeys_ok:
  "trustedKeys L S ord V clock fetch zone depth s = Some (r, s') \<Longrightarrow> keys_ok L S ord V clock zone r"
proof (induction L S ord V clock fetch zone depth arbitrary: s r s' rule: trustedKeys.induct)
  case (1 L S ord V clock fetch zone depth)
  show ?case
  proof (cases "depth > va_maxDep V")
    case True
    with 1(2) show ?thesis by (simp add: keys_ok_def trustedKeys.simps)
  next
    case False
    from 1(2) obtain dss pk status err s1 where
      d: "delegationSigners L S ord V clock fetch (\<lambda>z. trustedKeys L S ord V clock fetch z (depth + 1)) zone s
          = Some ((dss, pk, status, err), s1)"
      and rest: "(if err = Some NotAZoneCut then bind (markInherited L zone) (\<lambda>_. ret (pk, StatusSecure, None))
        else if err \<noteq> None \<or> status \<noteq> StatusSecure
          then ret ([], status, case err of Some (SecError e) \<Rightarrow> Some e | _ \<Rightarrow> None)
        else bind (fetch_run fetch zone TypeDNSKEY) (\<lambda>res. case res of
          None \<Rightarrow> ret ([], StatusIndeterminate, Some ErrEvidenceUnavailable)
        | Some (rrs, sigs, _) \<Rightarrow> get_run (\<lambda>(inh, e). keys_verdict L S V (clock e) dss rrs sigs))) s1 = Some (r, s')"
      unfolding trustedKeys.simps [of L S ord V clock fetch zone depth] if_not_P [OF False] bind_Some [of "delegationSigners L S ord V clock fetch (\<lambda>z. trustedKeys L S ord V clock fetch z (depth + 1)) zone"]
      by auto
    have ok: "signers_ok L S ord V clock zone (dss, pk, status, err)"
      by (rule delegationSigners_ok [OF _ d]) (rule "1.IH" [OF False])
    consider "err = Some NotAZoneCut" | "err \<noteq> Some NotAZoneCut" "err \<noteq> None \<or> status \<noteq> StatusSecure"
      | "err = None" "status = StatusSecure" by blast
    then show ?thesis
    proof cases
      case 1
      with rest ok show ?thesis by (simp add: bind_Some markInherited_def signers_ok_def keys_ok_def)
    next
      case 2
      with rest ok show ?thesis by (auto simp: signers_ok_def keys_ok_def split: option.splits ds_error.splits)
    next
      case 3
      with rest keys_verdict_ok [of L S ord V clock zone dss pk] ok show ?thesis
        by (auto simp: bind_Some split: option.splits prod.splits)
    qed
  qed
qed

text \<open>C4. The verdict on a zone is justified: when the walk calls a zone secure, the keys it returns are linked to a
  trust anchor by signed DS sets, each vouching for the next key set; when it calls the zone insecure, the zone or one
  above it has a parent with such keys that signed the absence of its DS; and a bogus verdict always comes with an error.\<close>

theorem chain_verdict_justified:
  assumes "TrustedKeys L S ord V clock (Some fetch) zone s = Some ((keys, status, err), s')"
  shows "(status = StatusSecure \<longrightarrow> err = None \<and> trusts L S ord V (CanonicalName L zone) keys)
    \<and> (status = StatusInsecure \<longrightarrow> proved_unsigned L S ord V (CanonicalName L zone))
    \<and> (status = StatusBogus \<longrightarrow> err \<noteq> None)"
  using trustedKeys_ok [of L S ord V clock fetch "CanonicalName L zone" 0 s "(keys, status, err)" s'] assms
  by (simp add: TrustedKeys_def keys_ok_def)

section \<open>The fetcher as an interface\<close>

text \<open>What the validator asks of the resolver it fetches through: every fetch returns, and keeps an invariant of the
  resolver's state. The walk then returns and keeps it too.\<close>

locale fetch_keeps =
  fixes fetch :: "'e fetcher" and I :: "'e \<Rightarrow> bool"
  assumes fetch_runs: "I e \<Longrightarrow> runs (fetch n t) e (\<lambda>_. I)"
begin

lemma fetch_run_keeps: "I e \<Longrightarrow> runs (fetch_run fetch n t) (inh, e) (\<lambda>_ s. I (snd s))"
  using fetch_runs by (simp add: runs_fetch)

lemma signers_run_keeps:
  assumes "\<And>s. I (snd s) \<Longrightarrow> runs (tk (parentZone L zone)) s (\<lambda>_ s'. I (snd s'))" and "I (snd s)"
  shows "runs (delegationSigners L S ord V clock fetch tk zone) s (\<lambda>_ s'. I (snd s'))"
proof -
  obtain inh e where s: "s = (inh, e)" by fastforce
  have f: "runs (fetch_run fetch n t) s' (\<lambda>_ s. I (snd s))" if "I (snd s')" for n t s'
    using fetch_run_keeps [of "snd s'" n t "fst s'"] that by simp
  have fd: "runs (fetch_run fetch zone TypeDS) s' (\<lambda>a s'. runs (case a of
         None \<Rightarrow> ret ([], [], StatusIndeterminate, Some (SecError ErrEvidenceUnavailable))
       | Some (rrs, sigs, denial) \<Rightarrow>
           get_run (\<lambda>(inh, e). ds_verdict L S ord V (clock e) zone pk rrs sigs denial)) s' (\<lambda>_ s'. I (snd s')))"
    if "I (snd s')" for s' pk
    by (rule runs_mono [OF f [OF that]]) (auto split: option.splits)
  show ?thesis
    unfolding delegationSigners_def using assms(2)
    by (auto simp: s intro!: runs_mono [OF assms(1)] fd)
qed

lemma keys_run_keeps:
  "I (snd s) \<Longrightarrow> runs (trustedKeys L S ord V clock fetch zone depth) s (\<lambda>_ s'. I (snd s'))"
proof (induction "nat (va_maxDep V + 1 - depth)" arbitrary: zone depth s rule: less_induct)
  case less
  show ?case
  proof (cases "depth > va_maxDep V")
    case True
    with less.prems show ?thesis by (simp add: trustedKeys.simps)
  next
    case False
    have tk: "runs (trustedKeys L S ord V clock fetch z (depth + 1)) s' (\<lambda>_ s'. I (snd s'))" if "I (snd s')" for z s'
      using less.hyps [of "depth + 1"] False that by simp
    have k: "runs (fetch_run fetch zone TypeDNSKEY) s' (\<lambda>a s'. runs (case a of
          None \<Rightarrow> ret ([], StatusIndeterminate, Some ErrEvidenceUnavailable)
        | Some (rrs, sigs, _) \<Rightarrow> get_run (\<lambda>(inh, e). keys_verdict L S V (clock e) dsSet rrs sigs)) s' (\<lambda>_ s'. I (snd s')))"
      if "I (snd s')" for s' dsSet
      by (rule runs_mono [of _ _ "\<lambda>_ s. I (snd s)"]) (use fetch_run_keeps [of "snd s'" zone TypeDNSKEY "fst s'"] that in \<open>auto split: option.splits\<close>)
    show ?thesis
      unfolding trustedKeys.simps [of L S ord V clock fetch zone depth] if_not_P [OF False]
      by (auto simp: markInherited_def intro!: runs_mono [OF signers_run_keeps [OF tk less.prems]] k split: prod.splits)
  qed
qed

end

text \<open>C29. The walk up to a trust anchor always comes to a verdict: with a fetcher that always returns and keeps
  an invariant of its state, \<open>TrustedKeys\<close> returns, whatever the records fetched, and the
  invariant still holds.\<close>

theorem chain_walk_returns:
  assumes "\<And>n t e. I e \<Longrightarrow> runs (fetch n t) e (\<lambda>_. I)" and "I e"
  shows "\<exists>keys status err inh' e'. TrustedKeys L S ord V clock (Some fetch) zone (inh, e) = Some ((keys, status, err), inh', e') \<and> I e'"
proof -
  have "fetch_keeps fetch I" using assms(1) by unfold_locales
  from fetch_keeps.keys_run_keeps [OF this, of "(inh, e)"] assms(2) show ?thesis
    by (fastforce simp: TrustedKeys_def runs_def)
qed

theorem chain_walk_returns_witness:
  "\<exists>r s. TrustedKeys ref_lib ref_sec (\<lambda>ks. ks)
     \<lparr>va_anchors = [], va_maxDep = 2, va_sha1 = False\<rparr> (\<lambda>_. 0) (Some (\<lambda>n t k. Some (None, Suc k))) ''a.b'' ({}, 0 :: nat) = Some (r, s)"
  using chain_walk_returns [of "\<lambda>_. True" "\<lambda>n t k. Some (None, Suc k)" "0 :: nat"] by (fastforce simp: runs_def)

text \<open>An anchored zone for the witness: one key, which every digest and every signature matches.\<close>

definition open_sec :: seclib where
  "open_sec = ref_sec\<lparr>ToDS := (\<lambda>_ _ _. Some \<lparr>ds_KeyTag = 0, ds_Algorithm = 8, ds_DigestType = 2, ds_Digest = ''AB''\<rparr>),
     Verify := (\<lambda>_ _ _ _ _. True)\<rparr>"

definition root_anchor :: anchor where
  "root_anchor = \<lparr>an_Zone = ''.'', an_KeyTag = 0, an_Algorithm = 8, an_DigestType = 2, an_Digest = ''ab'', an_ValidFrom = 0, an_ValidUntil = 9\<rparr>"

definition root_validator :: validator where
  "root_validator = \<lparr>va_anchors = [root_anchor], va_maxDep = 16, va_sha1 = False\<rparr>"

definition root_hdr :: "u16 \<Rightarrow> rr_header" where
  "root_hdr t = \<lparr>rh_Name = ''.'', rh_Rrtype = t, rh_Class = ClassINET, rh_Ttl = 60, rh_Rdlength = 0\<rparr>"

definition root_key :: hdnskey where
  "root_key = (root_hdr TypeDNSKEY, \<lparr>key_Flags = 257, key_Protocol = 3, key_Algorithm = 8, key_PublicKey = ''k''\<rparr>)"

definition root_sig :: hrrsig where
  "root_sig = (root_hdr TypeRRSIG, \<lparr>sig_TypeCovered = TypeDNSKEY, sig_Algorithm = 8, sig_Labels = 0, sig_Expiration = 9, sig_Inception = 0,
     sig_KeyTag = 0, sig_SignerName = ''.'', sig_Signature = ''s''\<rparr>)"

definition root_fetch :: "nat fetcher" where
  "root_fetch n t k = Some (Some ([dnskey_rr root_key], [root_sig], []), Suc k)"

theorem chain_verdict_justified_witness:
  "fst (the (TrustedKeys ref_lib open_sec (\<lambda>ks. ks) root_validator (\<lambda>_. 5) (Some root_fetch) ''.'' ({}, 0))) = ([root_key], StatusSecure, None)
   \<and> trusts ref_lib open_sec (\<lambda>ks. ks) root_validator ''.'' [root_key]"
proof -
  have e: "TrustedKeys ref_lib open_sec (\<lambda>ks. ks) root_validator (\<lambda>_. 5) (Some root_fetch) ''.'' ({}, 0)
    = Some (([root_key], StatusSecure, None), {}, 1)" by code_simp
  have "CanonicalName ref_lib ''.'' = ''.''" by code_simp
  with chain_verdict_justified [OF e] e show ?thesis by simp
qed

end
