(* ===== verification/Recursive.thy ===== *)
theory Recursive
  imports Resolver_Names Dnssec_Validator Cache Transport
begin

text \<open>
  \<open>internal/resolver/recursive.go\<close>, with \<open>denial.go\<close>, \<open>refresh.go\<close> and the reply helpers of \<open>forward.go\<close>:
  the recursion engine. Everything outside the engine is a record \<open>renv\<close> of operations on a state
  \<open>'w\<close>: the cache behind the \<open>Cache\<close> interface, the infrastructure cache, the store of
  denial proofs, the clock and the context, randomness, and the exchange of one message with one server; each
  may fail to return, which is \<open>None\<close>. The engine's own state adds the root hints, its counters and the
  budget \<open>queryState\<close> of the client query. Every operation is a run (theory \<open>Effects\<close>).

  \<open>resolve\<close> calls itself through the walk, for a CNAME target and for the address of a nameserver
  without glue. Each function on that path takes the inner call as its argument \<open>self\<close>, and
  \<open>resolve\<close> ties the knot with fuel, the nesting still allowed; that a fuel of
  \<open>MaxCNAME + 6\<close> is never used up is proved. The loop of \<open>bestDelegation\<close> is fuelled by the length of the name.

  A nameserver set is a slice the engine appends addresses to in place. It is either its own or the root
  hints, which every query shares: \<open>HintRef\<close> and \<open>Own\<close> keep the two apart. Maps are visited in an order the
  environment chooses. Log lines are left out; the text of an error is a function of it.
\<close>

section \<open>State\<close>

datatype rerror = ErrBudgetExhausted | ErrNoReachableServer | ErrBogusReferral | ErrNetwork

record rmetrics =
  rm_AnsweredFromCache :: nat
  rm_Referrals :: nat
  rm_BogusReferrals :: nat
  rm_OutboundQueries :: nat
  rm_OutboundFailures :: nat
  rm_DepthExceeded :: nat
  rm_BudgetExceeded :: nat
  rm_CaseMismatch :: nat
  rm_GluelessLookups :: nat
  rm_EDNSDowngrades :: nat
  rm_TCPFallbacks :: nat
  rm_CNAMEChased :: nat
  rm_MinimiseFallback :: nat
  rm_Secure :: nat
  rm_Insecure :: nat
  rm_Bogus :: nat
  rm_ValidationUnavailable :: nat
  rm_SynthesisedDenials :: nat

record ropts =
  ro_MaxDepth :: int
  ro_MaxOutbound :: int
  ro_MaxCNAME :: int
  ro_QueryTimeout :: duration
  ro_UDPSize :: u16
  ro_ServerPort :: u16
  ro_NSEC :: bool
  ro_QNAMEMinimisation :: bool
  ro_CaseRandomisation :: bool
  ro_Validator :: "validator option"
  ro_UseIPv4 :: bool
  ro_UseIPv6 :: bool

record qstate =
  qs_outbound :: int
  qs_cnames :: int
  qs_nsDepth :: int
  qs_maxOutTrip :: int

record 'w rstate =
  rs_env :: 'w
  rs_hints :: "nameserver list"
  rs_m :: rmetrics
  rs_q :: qstate

record 'w renv =
  re_Get :: "ckey \<Rightarrow> ('w, centry option) run"
  re_PutRRset :: "ckey \<Rightarrow> rr list \<Rightarrow> bool \<Rightarrow> ('w, unit) run"
  re_PutValidated :: "ckey \<Rightarrow> rr list \<Rightarrow> bool \<Rightarrow> ('w, unit) run"
  re_PutNegative :: "ckey \<Rightarrow> int \<Rightarrow> rr list \<Rightarrow> duration \<Rightarrow> bool \<Rightarrow> ('w, unit) run"
  re_Usable :: "addr \<Rightarrow> ('w, bool) run"
  re_RTT :: "addr \<Rightarrow> ('w, duration) run"
  re_EDNSBroken :: "addr \<Rightarrow> ('w, bool) run"
  re_MarkEDNSBroken :: "addr \<Rightarrow> ('w, unit) run"
  re_Success :: "addr \<Rightarrow> duration \<Rightarrow> ('w, unit) run"
  re_Failure :: "addr \<Rightarrow> ('w, unit) run"
  re_ProveNXDOMAIN :: "string \<Rightarrow> gtime \<Rightarrow> ('w, rr list option) run"
  re_NSECPut :: "rr list \<Rightarrow> gtime \<Rightarrow> ('w, unit) run"
  re_Exchange :: "proto \<Rightarrow> addr \<Rightarrow> dmsg \<Rightarrow> ('w, dmsg option) run"
  re_Rand :: "('w, nat \<Rightarrow> 64 word) run"
  re_Id :: "('w, u16) run"
  re_Now :: "'w \<Rightarrow> gtime"
  re_CtxErr :: "'w \<Rightarrow> bool"
  re_KeyOrder :: "ckey list \<Rightarrow> ckey list"
  re_SetOrder :: key_order
  re_ErrText :: "rerror \<Rightarrow> string"
  re_SecText :: "sec_error \<Rightarrow> string"

definition env :: "('w, 'a) run \<Rightarrow> ('w rstate, 'a) run" where
  "env m s = (case m (rs_env s) of None \<Rightarrow> None | Some (a, w) \<Rightarrow> Some (a, s\<lparr>rs_env := w\<rparr>))"

definition now_run :: "'w renv \<Rightarrow> ('w rstate, gtime) run" where
  "now_run E = get_run (\<lambda>s. re_Now E (rs_env s))"

definition count :: "(rmetrics \<Rightarrow> rmetrics) \<Rightarrow> ('w rstate, unit) run" where
  "count f = modify_run (\<lambda>s. s\<lparr>rs_m := f (rs_m s)\<rparr>)"

definition st_run :: "(qstate \<Rightarrow> qstate) \<Rightarrow> ('w rstate, unit) run" where
  "st_run f = modify_run (\<lambda>s. s\<lparr>rs_q := f (rs_q s)\<rparr>)"

definition NewRecursive :: "ropts \<Rightarrow> bool \<Rightarrow> bool \<Rightarrow> nameserver list \<Rightarrow> string option \<Rightarrow> string + ropts" where
  "NewRecursive o0 haveCache haveInfra hints verifyErr =
     (if \<not> haveCache then Inl ''resolver: cache is required''
      else if \<not> haveInfra then Inl ''resolver: infra cache is required''
      else if length hints = 0 then Inl ''resolver: root hints are required''
      else if \<not> ro_UseIPv4 o0 \<and> \<not> ro_UseIPv6 o0 then Inl ''resolver: at least one of UseIPv4/UseIPv6 must be enabled''
      else
        let o1 = (if ro_MaxDepth o0 \<le> 0 then o0\<lparr>ro_MaxDepth := 16\<rparr> else o0);
            o2 = (if ro_MaxOutbound o1 \<le> 0 then o1\<lparr>ro_MaxOutbound := 32\<rparr> else o1);
            o3 = (if ro_MaxCNAME o2 \<le> 0 then o2\<lparr>ro_MaxCNAME := 8\<rparr> else o2);
            o4 = (if ro_QueryTimeout o3 \<le> 0 then o3\<lparr>ro_QueryTimeout := 2 * second\<rparr> else o3);
            o5 = (if ro_UDPSize o4 = 0 then o4\<lparr>ro_UDPSize := 1232\<rparr> else o4);
            o6 = (if ro_ServerPort o5 = 0 then o5\<lparr>ro_ServerPort := 53\<rparr> else o5)
        in case verifyErr of Some e \<Rightarrow> Inl e | None \<Rightarrow> Inr o6)"

definition spend :: "('w rstate, rerror option) run" where
  "spend = bind (st_run (\<lambda>q. q\<lparr>qs_outbound := qs_outbound q + 1\<rparr>)) (\<lambda>_.
     get_run (\<lambda>s. if qs_outbound (rs_q s) > qs_maxOutTrip (rs_q s) then Some ErrBudgetExhausted else None))"

record rresult =
  res_rcode :: int
  res_answer :: "rr list"
  res_authority :: "rr list"
  res_sigs :: "hrrsig list"
  res_secure :: status

definition result0 :: "int \<Rightarrow> rresult" where
  "result0 rcode = \<lparr>res_rcode = rcode, res_answer = [], res_authority = [], res_sigs = [], res_secure = StatusIndeterminate\<rparr>"

section \<open>Reading a response\<close>

datatype responseClass = classAnswer | classReferral | classNoData | classNXDomain | classOther

definition is_SOA_rr :: "rr \<Rightarrow> bool" where
  "is_SOA_rr r = (case rr_data r of RSOA _ _ _ \<Rightarrow> True | _ \<Rightarrow> False)"

definition classify :: "dnslib \<Rightarrow> dmsg \<Rightarrow> string \<Rightarrow> u16 \<Rightarrow> responseClass" where
  "classify L resp probe ptype =
     (if m_Rcode resp = RcodeNameError then classNXDomain
      else if m_Rcode resp \<noteq> RcodeSuccess then classOther
      else if list_ex (\<lambda>r. CanonicalName L (rh_Name (rr_hdr r)) = CanonicalName L probe
                \<and> (rh_Rrtype (rr_hdr r) = ptype \<or> rh_Rrtype (rr_hdr r) = TypeCNAME)) (m_Answer resp) then classAnswer
      else if list_ex is_NS (m_Ns resp) \<and> \<not> list_ex is_SOA_rr (m_Ns resp) then classReferral
      else classNoData)"

definition TrimSuffixDot :: "string \<Rightarrow> string" where
  "TrimSuffixDot s = (if s \<noteq> [] \<and> last s = CHR ''.'' then butlast s else s)"

definition splitFirstLabel :: "dnslib \<Rightarrow> string \<Rightarrow> string \<times> string" where
  "splitFirstLabel L name =
     (if name = ''.'' \<or> name = [] then ([], ''.'')
      else let (i, fin) = NextLabel L name 0 in
        if fin then (TrimSuffixDot name, ''.'') else (take (i - 1) name, drop i name))"

definition denialRecords :: "dmsg \<Rightarrow> rr list" where
  "denialRecords resp = filter (\<lambda>r. case rr_data r of
       RSOA _ _ _ \<Rightarrow> True | RNSEC _ _ \<Rightarrow> True | RNSEC3 _ \<Rightarrow> True | RRRSIG _ \<Rightarrow> True | _ \<Rightarrow> False) (m_Ns resp)"

definition soa_ttl :: "rr \<Rightarrow> (rr list \<times> duration) option" where
  "soa_ttl r = (case rr_data r of
       RSOA _ _ minttl \<Rightarrow>
         let t0 = rh_Ttl (rr_hdr r); t = (if minttl < t0 then minttl else t0) in Some ([r], uint t * second)
     | _ \<Rightarrow> None)"

definition negativeTTL :: "dmsg \<Rightarrow> rr list \<times> duration" where
  "negativeTTL resp = (case first_some soa_ttl (m_Ns resp) of Some x \<Rightarrow> x | None \<Rightarrow> ([], 0))"

definition sigsCovering :: "dnslib \<Rightarrow> rr list \<Rightarrow> rr list \<Rightarrow> hrrsig list" where
  "sigsCovering L sect answer = filter (\<lambda>(h, sig).
     sig_TypeCovered sig \<in> set (map (\<lambda>r. rh_Rrtype (rr_hdr r)) answer)
     \<and> CanonicalName L (rh_Name h) \<in> set (map (\<lambda>r. CanonicalName L (rh_Name (rr_hdr r))) answer)) (sigs_of sect)"

section \<open>The cache\<close>

definition key_of :: "rr \<Rightarrow> ckey" where
  "key_of r = NewKey (rh_Name (rr_hdr r)) (rh_Rrtype (rr_hdr r)) (rh_Class (rr_hdr r))"

definition put_glue :: "dnslib \<Rightarrow> 'w renv \<Rightarrow> rr list \<Rightarrow> string \<Rightarrow> ('w rstate, unit) run" where
  "put_glue L E extra zone =
     (let glue = filterGlue L extra zone in
      each_run (\<lambda>k. env (re_PutRRset E k (filter (\<lambda>r. key_of r = k) glue) False))
        (re_KeyOrder E (remdups (map key_of glue))))"

definition cacheAdditional :: "dnslib \<Rightarrow> 'w renv \<Rightarrow> string \<Rightarrow> dmsg \<Rightarrow> ('w rstate, unit) run" where
  "cacheAdditional L E zone resp = put_glue L E (m_Extra resp) zone"

definition cacheDelegation :: "dnslib \<Rightarrow> 'w renv \<Rightarrow> string \<Rightarrow> dmsg \<Rightarrow> ('w rstate, unit) run" where
  "cacheDelegation L E zone resp =
     (let ns = filter (\<lambda>r. is_NS r \<and> CanonicalName L (rh_Name (rr_hdr r)) = CanonicalName L zone) (m_Ns resp) in
      bind (if length ns > 0 then env (re_PutRRset E (NewKey zone TypeNS ClassINET) ns False) else ret ()) (\<lambda>_.
      put_glue L E (m_Extra resp) zone))"

definition finishNegative :: "'w renv \<Rightarrow> string \<Rightarrow> u16 \<Rightarrow> dmsg \<Rightarrow> ('w rstate, rresult) run" where
  "finishNegative E qname qtype resp =
     (let (soa, ttl) = negativeTTL resp; rcode = m_Rcode resp in
      bind (if ttl > 0 then env (re_PutNegative E (NewKey qname qtype ClassINET) rcode soa ttl False) else ret ()) (\<lambda>_.
      ret ((result0 rcode)\<lparr>res_authority := denialRecords resp\<rparr>)))"

definition finishDSReferral :: "dnslib \<Rightarrow> 'w renv \<Rightarrow> string \<Rightarrow> dmsg \<Rightarrow> ('w rstate, rresult) run" where
  "finishDSReferral L E qname resp =
     (let ds = filter (\<lambda>r. (case rr_data r of RDS _ \<Rightarrow> True | _ \<Rightarrow> False) \<and> CanonicalName L (rh_Name (rr_hdr r)) = qname) (m_Ns resp);
          sigs = filter (\<lambda>(h, sig). sig_TypeCovered sig = TypeDS \<and> CanonicalName L (rh_Name h) = qname) (sigs_of (m_Ns resp))
      in if length ds > 0
         then bind (env (re_PutRRset E (NewKey qname TypeDS ClassINET) ds False)) (\<lambda>_.
                ret ((result0 RcodeSuccess)\<lparr>res_answer := ds, res_sigs := sigs\<rparr>))
         else ret ((result0 RcodeSuccess)\<lparr>res_authority := denialRecords resp\<rparr>))"

definition answer_addrs :: "centry option \<Rightarrow> addr list" where
  "answer_addrs e = (case e of
       Some e \<Rightarrow> if e_Kind e = KindAnswer then concat (map (\<lambda>r. case addrOfRR r of Some a \<Rightarrow> [a] | None \<Rightarrow> []) (e_RRs e)) else []
     | None \<Rightarrow> [])"

fun hydrate :: "dnslib \<Rightarrow> 'w renv \<Rightarrow> rr list \<Rightarrow> nameserver list \<Rightarrow> ('w rstate, nameserver list) run" where
  "hydrate L E [] out = ret out"
| "hydrate L E (r # rs) out = (case rr_data r of
       RNS n \<Rightarrow>
         let name = CanonicalName L n in
         bind (env (re_Get E (NewKey name TypeA ClassINET))) (\<lambda>a.
         bind (env (re_Get E (NewKey name TypeAAAA ClassINET))) (\<lambda>aaaa.
         hydrate L E rs (out @ [\<lparr>ns_Name = name, ns_Addrs = answer_addrs a @ answer_addrs aaaa\<rparr>])))
     | _ \<Rightarrow> hydrate L E rs out)"

definition hasAddress :: "nameserver list \<Rightarrow> bool" where
  "hasAddress ns = list_ex (\<lambda>n. length (ns_Addrs n) > 0) ns"

datatype servers = HintRef | Own "nameserver list"

fun best_loop :: "dnslib \<Rightarrow> 'w renv \<Rightarrow> nat \<Rightarrow> string \<Rightarrow> ('w rstate, string \<times> servers) run" where
  "best_loop L E 0 name = (\<lambda>s. None)"
| "best_loop L E (Suc n) name =
     bind (env (re_Get E (NewKey name TypeNS ClassINET))) (\<lambda>entry.
     bind (case entry of
             Some e \<Rightarrow> if e_Kind e = KindAnswer then hydrate L E (e_RRs e) [] else ret []
           | None \<Rightarrow> ret []) (\<lambda>ns.
     if hasAddress ns then ret (name, Own ns)
     else if name = ''.'' then ret (''.'', HintRef)
     else best_loop L E n (snd (splitFirstLabel L name))))"

definition bestDelegation :: "dnslib \<Rightarrow> 'w renv \<Rightarrow> string \<Rightarrow> ('w rstate, string \<times> servers) run" where
  "bestDelegation L E qname = (let name = CanonicalName L qname in best_loop L E (length name + 2) name)"

section \<open>Asking a server\<close>

record candidate =
  cd_ns :: string
  cd_addr :: addr
  cd_rtt :: duration

fun cand_loop :: "'w renv \<Rightarrow> ropts \<Rightarrow> (string \<times> addr) list \<Rightarrow> candidate list \<Rightarrow> ('w rstate, candidate list) run" where
  "cand_loop E O' [] out = ret out"
| "cand_loop E O' ((ns, a) # rest) out =
     (if Is4 a \<and> \<not> ro_UseIPv4 O' then cand_loop E O' rest out
      else if Is6 a \<and> \<not> ro_UseIPv6 O' then cand_loop E O' rest out
      else bind (env (re_Usable E a)) (\<lambda>usable.
        if \<not> usable then cand_loop E O' rest out
        else bind (env (re_RTT E a)) (\<lambda>rtt. cand_loop E O' rest (out @ [\<lparr>cd_ns = ns, cd_addr = a, cd_rtt = rtt\<rparr>]))))"

definition server_list :: "servers \<Rightarrow> ('w rstate, nameserver list) run" where
  "server_list srv = get_run (\<lambda>s. case srv of HintRef \<Rightarrow> rs_hints s | Own l \<Rightarrow> l)"

definition rcandidates :: "'w renv \<Rightarrow> ropts \<Rightarrow> servers \<Rightarrow> ('w rstate, candidate list) run" where
  "rcandidates E O' srv = bind (server_list srv) (\<lambda>servers.
     bind (cand_loop E O' (concat (map (\<lambda>ns. map (\<lambda>a. (ns_Name ns, a)) (ns_Addrs ns)) servers)) []) (\<lambda>out.
     ret (sort_key cd_rtt out)))"

text \<open>Appending an address to the \<open>i\<close>th nameserver of the set, in place.\<close>

definition add_addrs :: "nat \<Rightarrow> addr list \<Rightarrow> nameserver list \<Rightarrow> nameserver list" where
  "add_addrs i as l = l[i := (l ! i)\<lparr>ns_Addrs := ns_Addrs (l ! i) @ as\<rparr>]"

definition append_addrs :: "nat \<Rightarrow> addr list \<Rightarrow> servers \<Rightarrow> ('w rstate, servers) run" where
  "append_addrs i as srv = (case srv of
       HintRef \<Rightarrow> bind (modify_run (\<lambda>s. s\<lparr>rs_hints := add_addrs i as (rs_hints s)\<rparr>)) (\<lambda>_. ret HintRef)
     | Own l \<Rightarrow> ret (Own (add_addrs i as l)))"

type_synonym 'w resolver = "string \<Rightarrow> u16 \<Rightarrow> ('w rstate, rerror + rresult) run"

fun types_loop :: "'w resolver \<Rightarrow> nat \<Rightarrow> string \<Rightarrow> u16 list \<Rightarrow> servers \<Rightarrow> rerror \<Rightarrow> ('w rstate, servers \<times> rerror) run" where
  "types_loop self i name [] srv lastErr = ret (srv, lastErr)"
| "types_loop self i name (t # ts) srv lastErr =
     bind (self name t) (\<lambda>r. case r of
       Inl e \<Rightarrow> types_loop self i name ts srv e
     | Inr res \<Rightarrow>
         bind (append_addrs i (concat (map (\<lambda>r. case addrOfRR r of Some a \<Rightarrow> [a] | None \<Rightarrow> []) (res_answer res))) srv) (\<lambda>srv'.
         types_loop self i name ts srv' lastErr))"

fun ns_loop :: "'w resolver \<Rightarrow> u16 list \<Rightarrow> nat list \<Rightarrow> servers \<Rightarrow> rerror \<Rightarrow> ('w rstate, servers \<times> rerror option) run" where
  "ns_loop self types [] srv lastErr = ret (srv, Some lastErr)"
| "ns_loop self types (i # is) srv lastErr =
     bind (server_list srv) (\<lambda>servers.
     if length (ns_Addrs (servers ! i)) > 0 then ns_loop self types is srv lastErr
     else bind (types_loop self i (ns_Name (servers ! i)) types srv lastErr) (\<lambda>(srv', lastErr').
       bind (server_list srv') (\<lambda>servers'.
       if length (ns_Addrs (servers' ! i)) > 0 then ret (srv', None) else ns_loop self types is srv' lastErr')))"

definition resolveNameserverAddrs :: "'w resolver \<Rightarrow> ropts \<Rightarrow> servers \<Rightarrow> ('w rstate, servers \<times> rerror option) run" where
  "resolveNameserverAddrs self O' srv =
     bind (get_run (\<lambda>s. qs_nsDepth (rs_q s))) (\<lambda>nsDepth.
     if nsDepth \<ge> 4 then ret (srv, Some ErrBudgetExhausted)
     else bind (st_run (\<lambda>q. q\<lparr>qs_nsDepth := qs_nsDepth q + 1\<rparr>)) (\<lambda>_.
       bind (count (\<lambda>m. m\<lparr>rm_GluelessLookups := Suc (rm_GluelessLookups m)\<rparr>)) (\<lambda>_.
       bind (server_list srv) (\<lambda>servers.
       let types = (if ro_UseIPv6 O' then [TypeAAAA] else []) @ (if ro_UseIPv4 O' then [TypeA] else []) in
       bind (ns_loop self types [0..<length servers] srv ErrNoReachableServer) (\<lambda>r.
       bind (st_run (\<lambda>q. q\<lparr>qs_nsDepth := qs_nsDepth q - 1\<rparr>)) (\<lambda>_. ret r))))))"

definition exchange :: "dnslib \<Rightarrow> 'w renv \<Rightarrow> ropts \<Rightarrow> addr \<Rightarrow> string \<Rightarrow> u16 \<Rightarrow> ('w rstate, dmsg option) run" where
  "exchange L E O' server qname qtype =
     (let sent0 = Fqdn L qname in
      bind (if ro_CaseRandomisation O' then bind (env (re_Rand E)) (\<lambda>rand. ret (randomiseCase rand sent0)) else ret sent0) (\<lambda>sent.
      bind (env (re_Id E)) (\<lambda>mid.
      bind (env (re_EDNSBroken E server)) (\<lambda>broken.
      let m0 = (SetQuestion L sent qtype)\<lparr>m_Id := mid, m_RecursionDesired := False\<rparr>;
          m = (if \<not> broken then SetEdns0 L (ro_UDPSize O') (ro_Validator O' \<noteq> None) m0 else m0)
      in
      bind (now_run E) (\<lambda>start.
      bind (count (\<lambda>x. x\<lparr>rm_OutboundQueries := Suc (rm_OutboundQueries x)\<rparr>)) (\<lambda>_.
      bind (env (re_Exchange E ProtoUDP server m)) (\<lambda>r1. case r1 of None \<Rightarrow> ret None | Some resp1 \<Rightarrow>
      bind (if (m_Rcode resp1 = RcodeFormatError \<or> m_Rcode resp1 = RcodeNotImplemented) \<and> IsEdns0 L m \<noteq> None
            then bind (count (\<lambda>x. x\<lparr>rm_EDNSDowngrades := Suc (rm_EDNSDowngrades x)\<rparr>)) (\<lambda>_.
                 bind (env (re_MarkEDNSBroken E server)) (\<lambda>_.
                 bind (env (re_Id E)) (\<lambda>mid2.
                 let plain = (SetQuestion L sent qtype)\<lparr>m_Id := mid2, m_RecursionDesired := False\<rparr> in
                 bind (env (re_Exchange E ProtoUDP server plain)) (\<lambda>r. ret (map_option (\<lambda>x. (plain, x)) r)))))
            else ret (Some (m, resp1))) (\<lambda>r2. case r2 of None \<Rightarrow> ret None | Some (m2, resp2) \<Rightarrow>
      bind (if m_Truncated resp2
            then bind (count (\<lambda>x. x\<lparr>rm_TCPFallbacks := Suc (rm_TCPFallbacks x)\<rparr>)) (\<lambda>_.
                 env (re_Exchange E ProtoTCP server m2))
            else ret (Some resp2)) (\<lambda>r3. case r3 of None \<Rightarrow> ret None | Some resp3 \<Rightarrow>
      if ro_CaseRandomisation O' \<and> length (m_Question resp3) = 1 \<and> \<not> caseMatches sent (q_Name (m_Question resp3 ! 0))
      then bind (count (\<lambda>x. x\<lparr>rm_CaseMismatch := Suc (rm_CaseMismatch x)\<rparr>)) (\<lambda>_. ret None)
      else
        let resp = (if ro_CaseRandomisation O' then normaliseCase L resp3 else resp3) in
        bind (now_run E) (\<lambda>t.
        bind (env (re_Success E server (time_Sub t start))) (\<lambda>_. ret (Some resp))))))))))))"

definition ask :: "dnslib \<Rightarrow> 'w renv \<Rightarrow> ropts \<Rightarrow> 'w resolver \<Rightarrow> servers \<Rightarrow> string \<Rightarrow> u16 \<Rightarrow> ('w rstate, servers \<times> (rerror + dmsg)) run" where
  "ask L E O' self srv probe ptype =
     bind (rcandidates E O' srv) (\<lambda>cands0.
     bind (if length cands0 = 0 then resolveNameserverAddrs self O' srv else ret (srv, None)) (\<lambda>(srv', err).
     case err of Some e \<Rightarrow> ret (srv', Inl e) | None \<Rightarrow>
     bind (if length cands0 = 0 then rcandidates E O' srv' else ret cands0) (\<lambda>cands.
     if length cands = 0 then ret (srv', Inl ErrNoReachableServer)
     else bind (find_run (\<lambda>c.
       bind (get_run (\<lambda>s. re_CtxErr E (rs_env s))) (\<lambda>ctxErr.
       if ctxErr then ret (Some (Inl ErrNetwork))
       else bind spend (\<lambda>e. case e of
           Some e \<Rightarrow> ret (Some (Inl e))
         | None \<Rightarrow> bind (exchange L E O' (cd_addr c) probe ptype) (\<lambda>r. case r of
             Some resp \<Rightarrow> ret (Some (Inr resp))
           | None \<Rightarrow>
               bind (count (\<lambda>m. m\<lparr>rm_OutboundFailures := Suc (rm_OutboundFailures m)\<rparr>)) (\<lambda>_.
               bind (env (re_Failure E (cd_addr c))) (\<lambda>_. ret None)))))) cands) (\<lambda>r.
       ret (srv', case r of Some x \<Rightarrow> x | None \<Rightarrow> Inl ErrNoReachableServer)))))"

section \<open>The walk\<close>

definition finishAnswer :: "dnslib \<Rightarrow> 'w renv \<Rightarrow> ropts \<Rightarrow> 'w resolver \<Rightarrow> string \<Rightarrow> u16 \<Rightarrow> dmsg \<Rightarrow> ('w rstate, rerror + rresult) run" where
  "finishAnswer L E O' self qname qtype resp =
     (let (answer, final) = answersFor L (m_Answer resp) qname qtype in
      if length answer = 0 then bind (finishNegative E qname qtype resp) (\<lambda>r. ret (Inr r))
      else let terminal = list_ex (\<lambda>r. rh_Rrtype (rr_hdr r) = qtype) answer in
        if terminal \<or> qtype = TypeCNAME
        then bind (cacheAdditional L E qname resp) (\<lambda>_.
             bind (env (re_PutRRset E (NewKey qname qtype ClassINET) answer False)) (\<lambda>_.
             ret (Inr ((result0 RcodeSuccess)\<lparr>res_answer := answer, res_sigs := sigsCovering L (m_Answer resp) answer\<rparr>))))
        else bind (st_run (\<lambda>q. q\<lparr>qs_cnames := qs_cnames q + 1\<rparr>)) (\<lambda>_.
             bind (get_run (\<lambda>s. qs_cnames (rs_q s))) (\<lambda>cnames.
             if cnames > ro_MaxCNAME O' then ret (Inl ErrBudgetExhausted)
             else bind (count (\<lambda>m. m\<lparr>rm_CNAMEChased := Suc (rm_CNAMEChased m)\<rparr>)) (\<lambda>_.
               bind (self final qtype) (\<lambda>r. case r of
                 Inl e \<Rightarrow> ret (Inl e)
               | Inr tail \<Rightarrow> ret (Inr ((result0 (res_rcode tail))\<lparr>res_answer := answer @ res_answer tail,
                   res_sigs := sigsCovering L (m_Answer resp) answer @ res_sigs tail,
                   res_authority := res_authority tail\<rparr>)))))))"

fun walk_loop :: "dnslib \<Rightarrow> 'w renv \<Rightarrow> ropts \<Rightarrow> 'w resolver \<Rightarrow> string \<Rightarrow> u16 \<Rightarrow> nat \<Rightarrow> string \<Rightarrow> servers \<Rightarrow> string \<Rightarrow> bool \<Rightarrow> nat
    \<Rightarrow> ('w rstate, rerror + rresult) run" where
  "walk_loop L E O' self qname qtype 0 zone srv sname minimise steps =
     bind (count (\<lambda>m. m\<lparr>rm_DepthExceeded := Suc (rm_DepthExceeded m)\<rparr>)) (\<lambda>_. ret (Inl ErrBudgetExhausted))"
| "walk_loop L E O' self qname qtype (Suc depth) zone srv sname minimise steps =
     bind (get_run (\<lambda>s. re_CtxErr E (rs_env s))) (\<lambda>ctxErr.
     if ctxErr then ret (Inl ErrNetwork)
     else
       let mini = (minimise \<and> steps < maxMinimiseSteps \<and> shouldMinimise L qname sname);
           probe = (if mini then minimisedName L qname sname else qname);
           probeType = (if mini then minimiseQType L probe qname qtype else qtype);
           steps' = (if mini then Suc steps else steps)
       in
       bind (ask L E O' self srv probe probeType) (\<lambda>(srv', r). case r of
         Inl e \<Rightarrow> ret (Inl e)
       | Inr resp \<Rightarrow> (case classify L resp probe probeType of
           classReferral \<Rightarrow>
             let newZone = referralZone L (m_Ns resp) zone qname in
             if qtype = TypeDS \<and> probe = qname \<and> newZone = qname
             then bind (finishDSReferral L E qname resp) (\<lambda>r. ret (Inr r))
             else if newZone = []
             then bind (count (\<lambda>m. m\<lparr>rm_BogusReferrals := Suc (rm_BogusReferrals m)\<rparr>)) (\<lambda>_. ret (Inl ErrBogusReferral))
             else bind (count (\<lambda>m. m\<lparr>rm_Referrals := Suc (rm_Referrals m)\<rparr>)) (\<lambda>_.
               let ns = nameserversFrom L (m_Ns resp) (m_Extra resp) newZone in
               if length ns = 0 then ret (Inl ErrBogusReferral)
               else bind (cacheDelegation L E newZone resp) (\<lambda>_.
                 walk_loop L E O' self qname qtype depth newZone (Own ns) newZone minimise steps'))
         | classAnswer \<Rightarrow>
             if probe \<noteq> qname then walk_loop L E O' self qname qtype depth zone srv' probe minimise steps'
             else finishAnswer L E O' self qname qtype resp
         | classNoData \<Rightarrow>
             if probe \<noteq> qname then walk_loop L E O' self qname qtype depth zone srv' probe minimise steps'
             else bind (finishNegative E qname qtype resp) (\<lambda>r. ret (Inr r))
         | classNXDomain \<Rightarrow>
             if probe \<noteq> qname
             then bind (count (\<lambda>m. m\<lparr>rm_MinimiseFallback := Suc (rm_MinimiseFallback m)\<rparr>)) (\<lambda>_.
               walk_loop L E O' self qname qtype depth zone srv' sname False steps')
             else bind (finishNegative E qname qtype resp) (\<lambda>r. ret (Inr r))
         | classOther \<Rightarrow> ret (Inr (result0 (m_Rcode resp))))))"

definition walkFrom :: "dnslib \<Rightarrow> 'w renv \<Rightarrow> ropts \<Rightarrow> 'w resolver \<Rightarrow> string \<Rightarrow> u16 \<Rightarrow> string \<Rightarrow> ('w rstate, rerror + rresult) run" where
  "walkFrom L E O' self qname qtype startAt =
     (let search0 = (if startAt \<noteq> [] then startAt else qname);
          search = (if qtype = TypeDS \<and> search0 = qname \<and> qname \<noteq> ''.'' then snd (splitFirstLabel L qname) else search0)
      in bind (bestDelegation L E search) (\<lambda>(zone, srv).
         walk_loop L E O' self qname qtype (nat (ro_MaxDepth O')) zone srv zone (ro_QNAMEMinimisation O') 0))"

definition walk :: "dnslib \<Rightarrow> 'w renv \<Rightarrow> ropts \<Rightarrow> 'w resolver \<Rightarrow> string \<Rightarrow> u16 \<Rightarrow> ('w rstate, rerror + rresult) run" where
  "walk L E O' self qname qtype = walkFrom L E O' self qname qtype []"

definition entry_result :: "dnslib \<Rightarrow> centry \<Rightarrow> gtime \<Rightarrow> rresult" where
  "entry_result L e now =
     (let res = (result0 (e_Rcode e))\<lparr>res_secure :=
            (if e_Authenticated e then StatusSecure else if e_Validated e then StatusInsecure else StatusIndeterminate)\<rparr>
      in case e_Kind e of
           KindAnswer \<Rightarrow> res\<lparr>res_answer := RRsAt L e now\<rparr>
         | KindNegative \<Rightarrow> res\<lparr>res_authority := RRsAt L e now\<rparr>)"

definition resolve_body :: "dnslib \<Rightarrow> 'w renv \<Rightarrow> ropts \<Rightarrow> bool \<Rightarrow> 'w resolver \<Rightarrow> 'w resolver" where
  "resolve_body L E O' refresh self qname qtype =
     bind (get_run (\<lambda>s. refresh \<and> qs_outbound (rs_q s) = 0)) (\<lambda>skipCache.
     bind (env (re_Get E (NewKey qname qtype ClassINET))) (\<lambda>entry1.
     let unvalidated = (case entry1 of Some e \<Rightarrow> ro_Validator O' \<noteq> None \<and> \<not> e_Validated e | None \<Rightarrow> False) in
     bind (env (re_Get E (NewKey qname qtype ClassINET))) (\<lambda>entry2.
     if entry2 \<noteq> None \<and> \<not> skipCache \<and> \<not> unvalidated
     then bind (now_run E) (\<lambda>now. ret (Inr (entry_result L (the entry2) now)))
     else
       bind (if ro_NSEC O' \<and> \<not> skipCache
             then bind (now_run E) (\<lambda>now. env (re_ProveNXDOMAIN E qname now)) else ret None) (\<lambda>d. case d of
         Some authority \<Rightarrow>
           bind (count (\<lambda>m. m\<lparr>rm_SynthesisedDenials := Suc (rm_SynthesisedDenials m)\<rparr>)) (\<lambda>_.
           ret (Inr ((result0 RcodeNameError)\<lparr>res_authority := authority, res_secure := StatusSecure\<rparr>)))
       | None \<Rightarrow> walk L E O' self qname qtype))))"

primrec resolve :: "dnslib \<Rightarrow> 'w renv \<Rightarrow> ropts \<Rightarrow> bool \<Rightarrow> nat \<Rightarrow> 'w resolver" where
  "resolve L E O' refresh 0 = (\<lambda>qname qtype s. None)"
| "resolve L E O' refresh (Suc n) = resolve_body L E O' refresh (resolve L E O' refresh n)"

text \<open>The nesting a query can reach.\<close>

definition query_fuel :: "ropts \<Rightarrow> nat" where
  "query_fuel O' = nat (ro_MaxCNAME O') + 6"

definition FetchSigned :: "dnslib \<Rightarrow> 'w renv \<Rightarrow> ropts \<Rightarrow> bool \<Rightarrow> 'w rstate fetcher" where
  "FetchSigned L E O' refresh name0 qtype =
     (let name = CanonicalName L name0;
          startAt = (if qtype = TypeDS \<and> name \<noteq> ''.'' then snd (splitFirstLabel L name) else [])
      in bind (walkFrom L E O' (resolve L E O' refresh (query_fuel O')) name qtype startAt) (\<lambda>r. case r of
           Inl e \<Rightarrow> ret None
         | Inr res \<Rightarrow> ret (Some (res_answer res, res_sigs res, res_authority res))))"

section \<open>Validation of a result\<close>

type_synonym setID = "string \<times> u16"

definition is_RRSIG :: "rr \<Rightarrow> bool" where
  "is_RRSIG r = (case rr_data r of RRRSIG _ \<Rightarrow> True | _ \<Rightarrow> False)"

definition groupBySet :: "dnslib \<Rightarrow> rr list \<Rightarrow> (setID \<times> rr list) list \<times> (setID \<Rightarrow> hrrsig list)" where
  "groupBySet L rrs =
     (let recs = filter (\<lambda>r. \<not> is_RRSIG r) rrs in
      (map (\<lambda>k. (k, filter (\<lambda>r. group_key L r = k) recs)) (remdups (map (group_key L) recs)),
       \<lambda>k. filter (\<lambda>(h, sig). (CanonicalName L (rh_Name h), sig_TypeCovered sig) = k) (sigs_of rrs)))"

definition sigsForSet :: "dnslib \<Rightarrow> hrrsig list \<Rightarrow> setID \<Rightarrow> hrrsig list" where
  "sigsForSet L sigs k = filter (\<lambda>(h, sig). sig_TypeCovered sig = snd k \<and> CanonicalName L (rh_Name h) = fst k) sigs"

definition downgrade :: "status \<Rightarrow> status \<Rightarrow> status" where
  "downgrade current nxt = (if nxt = StatusSecure then current else nxt)"

definition proofRecords :: "rr list \<Rightarrow> rr list" where
  "proofRecords authority = filter (\<lambda>r. case rr_data r of
       RSOA _ _ _ \<Rightarrow> True | RNSEC _ _ \<Rightarrow> True | RNSEC3 _ \<Rightarrow> True
     | RRRSIG s \<Rightarrow> sig_TypeCovered s \<in> {TypeSOA, TypeNSEC, TypeNSEC3}
     | _ \<Rightarrow> False) authority"

definition denial_zone :: "dnslib \<Rightarrow> rr list \<Rightarrow> string" where
  "denial_zone L authority = (case first_some (\<lambda>r. if is_SOA_rr r then Some (CanonicalName L (rh_Name (rr_hdr r))) else None) authority of
     Some z \<Rightarrow> z | None \<Rightarrow> [])"

definition visit :: "'w renv \<Rightarrow> (setID \<times> rr list) list \<Rightarrow> (setID \<times> rr list) list" where
  "visit E sets = map (\<lambda>k. (k, the (map_of sets k))) (re_SetOrder E (map fst sets))"

definition trusted :: "dnslib \<Rightarrow> seclib \<Rightarrow> 'w renv \<Rightarrow> ropts \<Rightarrow> bool \<Rightarrow> validator \<Rightarrow> string \<Rightarrow> ('w rstate vstate, keys_result) run" where
  "trusted L S E O' refresh V zone =
     TrustedKeys L S (re_SetOrder E) V (\<lambda>s. re_Now E (rs_env s)) (Some (FetchSigned L E O' refresh)) zone"

definition clock_run :: "'w renv \<Rightarrow> ('w rstate vstate, gtime) run" where
  "clock_run E = get_run (\<lambda>(inh, s). re_Now E (rs_env s))"

fun validate_loop :: "dnslib \<Rightarrow> seclib \<Rightarrow> 'w renv \<Rightarrow> ropts \<Rightarrow> bool \<Rightarrow> validator \<Rightarrow> hrrsig list \<Rightarrow> (setID \<times> rr list) list \<Rightarrow> status
    \<Rightarrow> ('w rstate vstate, status \<times> sec_error option) run" where
  "validate_loop L S E O' refresh V allSigs [] worst = ret (worst, None)"
| "validate_loop L S E O' refresh V allSigs ((k, rrs) # sets) worst =
     (let sigs = sigsForSet L allSigs k;
          zone = (case sigs of [] \<Rightarrow> fst k | s # _ \<Rightarrow> CanonicalName L (sig_SignerName (snd s)))
      in bind (trusted L S E O' refresh V zone) (\<lambda>(keys, status, err).
        if err \<noteq> None then ret (status, err)
        else if status \<noteq> StatusSecure then validate_loop L S E O' refresh V allSigs sets (downgrade worst status)
        else if length sigs = 0 then
          bind (KeysWereInherited L zone) (\<lambda>inherited.
          if inherited then validate_loop L S E O' refresh V allSigs sets (downgrade worst StatusInsecure)
          else ret (StatusBogus, Some ErrNoSignatures))
        else bind (clock_run E) (\<lambda>now. case VerifyRRset L S V now rrs sigs keys of
               Inl e \<Rightarrow> ret (StatusBogus, Some e)
             | Inr _ \<Rightarrow> validate_loop L S E O' refresh V allSigs sets worst)))"

definition validate :: "dnslib \<Rightarrow> seclib \<Rightarrow> 'w renv \<Rightarrow> ropts \<Rightarrow> bool \<Rightarrow> validator \<Rightarrow> rresult \<Rightarrow> ('w rstate vstate, status \<times> sec_error option) run" where
  "validate L S E O' refresh V res =
     (if length (res_answer res) = 0 then ret (StatusInsecure, None)
      else let sets = fst (groupBySet L (res_answer res)) in
        if length sets = 0 then ret (StatusInsecure, None)
        else validate_loop L S E O' refresh V (res_sigs res) (visit E sets) StatusSecure)"

definition denial_sets :: "dnslib \<Rightarrow> seclib \<Rightarrow> validator \<Rightarrow> gtime \<Rightarrow> (setID \<Rightarrow> hrrsig list) \<Rightarrow> hdnskey list \<Rightarrow> (setID \<times> rr list) list \<Rightarrow> sec_error option" where
  "denial_sets L S V now sigs keys sets = first_some (\<lambda>(k, rrs).
     if length (sigs k) = 0 then Some ErrNoSignatures
     else case VerifyRRset L S V now rrs (sigs k) keys of Inl e \<Rightarrow> Some e | Inr _ \<Rightarrow> None) sets"

definition validateDenial :: "dnslib \<Rightarrow> seclib \<Rightarrow> 'w renv \<Rightarrow> ropts \<Rightarrow> bool \<Rightarrow> validator \<Rightarrow> rresult \<Rightarrow> string \<Rightarrow> u16
    \<Rightarrow> ('w rstate vstate, status \<times> sec_error option) run" where
  "validateDenial L S E O' refresh V res qname qtype =
     (if length (res_authority res) = 0 then ret (StatusInsecure, None)
      else let zone = denial_zone L (res_authority res) in
        if zone = [] then ret (StatusInsecure, None)
        else bind (trusted L S E O' refresh V zone) (\<lambda>(keys, status, err).
          if err \<noteq> None then ret (status, err)
          else if status \<noteq> StatusSecure then ret (status, None)
          else
            let (sets, sigs) = groupBySet L (proofRecords (res_authority res)) in
            bind (clock_run E) (\<lambda>now. case denial_sets L S V now sigs keys (visit E sets) of
              Some e \<Rightarrow> ret (StatusBogus, Some e)
            | None \<Rightarrow>
                if length sets = 0 then ret (StatusBogus, Some ErrNoSignatures)
                else ret (case (if res_rcode res = RcodeNameError then ProveNXDOMAIN L S (res_authority res) qname
                                else ProveNODATA L S (res_authority res) qname qtype) of
                            Some e \<Rightarrow> (StatusBogus, Some e)
                          | None \<Rightarrow> (StatusSecure, None)))))"

definition validateResult :: "dnslib \<Rightarrow> seclib \<Rightarrow> 'w renv \<Rightarrow> ropts \<Rightarrow> bool \<Rightarrow> validator \<Rightarrow> rresult \<Rightarrow> string \<Rightarrow> u16
    \<Rightarrow> ('w rstate vstate, status \<times> sec_error option) run" where
  "validateResult L S E O' refresh V res qname qtype =
     (if length (res_answer res) = 0 then validateDenial L S E O' refresh V res qname qtype
      else validate L S E O' refresh V res)"

section \<open>Serving a query\<close>

definition reply :: "dnslib \<Rightarrow> dmsg \<Rightarrow> int \<Rightarrow> dmsg" where
  "reply L req rcode = (SetRcode L req rcode)\<lparr>m_RecursionAvailable := True, m_AuthenticatedData := False\<rparr>"

definition servfail :: "dnslib \<Rightarrow> dmsg \<Rightarrow> u16 \<Rightarrow> string \<Rightarrow> dmsg" where
  "servfail L req code text = (let m = reply L req RcodeServerFailure in
     m\<lparr>m_Extra := m_Extra m @
        [\<lparr>rr_hdr = \<lparr>rh_Name = ''.'', rh_Rrtype = TypeOPT, rh_Class = 1232, rh_Ttl = 0, rh_Rdlength = 0\<rparr>,
          rr_data = ROPT 1232 [EDE code text]\<rparr>]\<rparr>)"

definition failure :: "dnslib \<Rightarrow> 'w renv \<Rightarrow> dmsg \<Rightarrow> rerror \<Rightarrow> ('w rstate, dmsg) run" where
  "failure L E req err =
     bind (if err = ErrBudgetExhausted then count (\<lambda>m. m\<lparr>rm_BudgetExceeded := Suc (rm_BudgetExceeded m)\<rparr>) else ret ()) (\<lambda>_.
     ret (servfail L req (if err = ErrNetwork then ExtendedErrorCodeNetworkError else ExtendedErrorCodeNoReachableAuthority)
            (re_ErrText E err)))"

definition cacheValidatedDenial :: "dnslib \<Rightarrow> 'w renv \<Rightarrow> question \<Rightarrow> rresult \<Rightarrow> ('w rstate, unit) run" where
  "cacheValidatedDenial L E q res =
     (let (soa, ttl) = (case first_some soa_ttl (res_authority res) of Some x \<Rightarrow> x | None \<Rightarrow> ([], 0)) in
      if ttl \<le> 0 then ret ()
      else env (re_PutNegative E (NewKey (CanonicalName L (q_Name q)) (q_Qtype q) ClassINET) (res_rcode res) soa ttl True))"

definition on_state :: "('w rstate, 'a) run \<Rightarrow> ('w rstate vstate, 'a) run" where
  "on_state m = (\<lambda>(inh, s). map_option (\<lambda>(a, s'). (a, inh, s')) (m s))"

text \<open>The part of \<open>ServeDNS\<close> that acts on the verdict: a response to withhold the answer with, or the
  result with its status. The error's text is read without a nil check, so a missing error panics.\<close>

definition apply_verdict :: "dnslib \<Rightarrow> 'w renv \<Rightarrow> ropts \<Rightarrow> dmsg \<Rightarrow> question \<Rightarrow> rresult \<Rightarrow> status \<Rightarrow> sec_error option
    \<Rightarrow> ('w rstate, dmsg + rresult) run" where
  "apply_verdict L E O' req q res status verr =
     (let k = NewKey (CanonicalName L (q_Name q)) (q_Qtype q) ClassINET;
          withhold = (\<lambda>s. case verr of
             None \<Rightarrow> None
           | Some e \<Rightarrow> Some (Inl (servfail L req (ExtendedError e) (re_SecText E e)), s))
      in case status of
        StatusBogus \<Rightarrow> bind (count (\<lambda>m. m\<lparr>rm_Bogus := Suc (rm_Bogus m)\<rparr>)) (\<lambda>_. withhold)
      | StatusSecure \<Rightarrow>
          bind (count (\<lambda>m. m\<lparr>rm_Secure := Suc (rm_Secure m)\<rparr>)) (\<lambda>_.
          bind (if length (res_answer res) > 0 then env (re_PutValidated E k (res_answer res) True)
                else cacheValidatedDenial L E q res) (\<lambda>_.
          bind (if length (res_answer res) = 0 \<and> ro_NSEC O'
                then bind (now_run E) (\<lambda>now. env (re_NSECPut E (res_authority res) now)) else ret ()) (\<lambda>_.
          ret (Inr (res\<lparr>res_secure := status\<rparr>)))))
      | StatusIndeterminate \<Rightarrow> bind (count (\<lambda>m. m\<lparr>rm_ValidationUnavailable := Suc (rm_ValidationUnavailable m)\<rparr>)) (\<lambda>_. withhold)
      | StatusInsecure \<Rightarrow>
          bind (count (\<lambda>m. m\<lparr>rm_Insecure := Suc (rm_Insecure m)\<rparr>)) (\<lambda>_.
          bind (if length (res_answer res) > 0 then env (re_PutValidated E k (res_answer res) False) else ret ()) (\<lambda>_.
          ret (Inr (res\<lparr>res_secure := status\<rparr>)))))"

definition answer_msg :: "dnslib \<Rightarrow> dmsg \<Rightarrow> rresult \<Rightarrow> dmsg" where
  "answer_msg L req res = (SetReply L req)\<lparr>m_Rcode := res_rcode res, m_RecursionAvailable := True,
     m_Answer := res_answer res, m_Ns := res_authority res, m_AuthenticatedData := (res_secure res = StatusSecure)\<rparr>"

definition start_query :: "ropts \<Rightarrow> ('w rstate, unit) run" where
  "start_query O' = modify_run (\<lambda>s. s\<lparr>rs_q := \<lparr>qs_outbound = 0, qs_cnames = 0, qs_nsDepth = 0, qs_maxOutTrip = ro_MaxOutbound O'\<rparr>\<rparr>)"

definition rec_ServeDNS :: "dnslib \<Rightarrow> seclib \<Rightarrow> 'w renv \<Rightarrow> ropts \<Rightarrow> bool \<Rightarrow> request \<Rightarrow> ('w rstate vstate, dmsg) run" where
  "rec_ServeDNS L S E O' refresh req = (case m_Question (rq_Msg req) of
       [] \<Rightarrow> (\<lambda>s. None)
     | q # _ \<Rightarrow>
         if q_Qclass q \<noteq> ClassINET then ret (reply L (rq_Msg req) RcodeRefused)
         else if q_Qtype q \<in> {TypeAXFR, TypeIXFR, TypeOPT} then ret (reply L (rq_Msg req) RcodeRefused)
         else
           bind (on_state (start_query O')) (\<lambda>_.
           bind (on_state (resolve L E O' refresh (query_fuel O') (CanonicalName L (q_Name q)) (q_Qtype q))) (\<lambda>r. case r of
             Inl e \<Rightarrow> on_state (failure L E (rq_Msg req) e)
           | Inr res \<Rightarrow>
               bind (on_state (get_run (\<lambda>s. qs_outbound (rs_q s)))) (\<lambda>outbound.
               bind (if outbound = 0 \<and> \<not> rq_Internal req
                     then on_state (count (\<lambda>m. m\<lparr>rm_AnsweredFromCache := Suc (rm_AnsweredFromCache m)\<rparr>)) else ret ()) (\<lambda>_.
               bind (if ro_Validator O' \<noteq> None \<and> res_secure res = StatusIndeterminate
                     then bind (validateResult L S E O' refresh (the (ro_Validator O')) res (CanonicalName L (q_Name q)) (q_Qtype q)) (\<lambda>(status, verr).
                          on_state (apply_verdict L E O' (rq_Msg req) q res status verr))
                     else ret (Inr res)) (\<lambda>v. case v of
                 Inl m \<Rightarrow> ret m
               | Inr res' \<Rightarrow> ret (answer_msg L (rq_Msg req) res')))))))"

end
