(* ===== verification/Recursive_Budget.thy ===== *)
theory Recursive_Budget
  imports Recursive
begin

text \<open>
  The budgets of the recursion engine (\<open>queryState\<close> of \<open>internal/resolver/recursive.go\<close>). The locale
  \<open>engine\<close> states what the engine relies on in the cache, the infrastructure cache, the store of denials and the
  transport; inside it every function of the engine is shown to return, to keep the invariant behind
  those operations and to stay within the budget: \<open>ok\<close> is the judgement, with a rule per combinator and a lemma per function.
  It shows that the fuel of \<open>resolve\<close> is never used up, and bounds the messages a client query can cause. Theory
  \<open>Recursive_Secure\<close> continues it to the response.
\<close>


section \<open>The environment as an interface\<close>

lemma runs_env: "runs (env m) s Q \<longleftrightarrow> runs m (rs_env s) (\<lambda>a w. Q a (s\<lparr>rs_env := w\<rparr>))"
  by (auto simp: runs_def env_def split: option.splits)

text \<open>A record as the caches hand it out again: a copy with another TTL.\<close>

definition aged :: "dnslib \<Rightarrow> rr \<Rightarrow> rr \<Rightarrow> bool" where
  "aged L r0 r \<longleftrightarrow> (\<exists>ttl. r = (Copy L r0)\<lparr>rr_hdr := (rr_hdr (Copy L r0))\<lparr>rh_Ttl := ttl\<rparr>\<rparr>)"

text \<open>What may be marked authenticated, given which answers and which denials were proved: a cached answer that was, a cached
  denial of records from one that was, and a synthesised denial all of whose records come from denials that were.\<close>

definition entry_proven :: "(rr list \<Rightarrow> bool) \<Rightarrow> (rr list \<Rightarrow> bool) \<Rightarrow> centry \<Rightarrow> bool" where
  "entry_proven proven dproven e = (case e_Kind e of
       KindAnswer \<Rightarrow> proven (e_RRs e)
     | KindNegative \<Rightarrow> (\<exists>den. dproven den \<and> set (e_RRs e) \<subseteq> set den))"

definition pieced :: "dnslib \<Rightarrow> (rr list \<Rightarrow> bool) \<Rightarrow> rr list \<Rightarrow> bool" where
  "pieced L dproven au \<longleftrightarrow> (\<forall>r \<in> set au. \<exists>den r0. dproven den \<and> r0 \<in> set den \<and> aged L r0 r)"

text \<open>The environment as the engine relies on it: every operation returns and keeps an invariant \<open>I\<close> of the state
  behind it; \<open>sent\<close> counts the messages put on the wire, which only \<open>Exchange\<close> raises, by at most one. What the
  caches are given as authenticated has to be proved, and what they return as authenticated then is; a denial is never returned as validated,
  asking again at once gives the same entry, and \<open>synth\<close> says which denials the store of proofs may derive for a name.\<close>

locale engine = name_steps L for L :: dnslib +
  fixes E :: "'w renv" and O' :: ropts and I :: "'w \<Rightarrow> bool" and sent :: "'w \<Rightarrow> nat"
    and proven dproven :: "rr list \<Rightarrow> bool" and synth :: "string \<Rightarrow> rr list \<Rightarrow> bool"
  assumes get_proven: "I w \<Longrightarrow> runs (re_Get E k) w (\<lambda>e w'. (I w' \<and> sent w' = sent w)
      \<and> (\<forall>x. e = Some x \<longrightarrow> (e_Authenticated x \<longrightarrow> entry_proven proven dproven x) \<and> (e_Kind x = KindNegative \<longrightarrow> \<not> e_Validated x)))"
    and get_again: "I w \<Longrightarrow> re_Get E k w = Some (e, w') \<Longrightarrow> fst (the (re_Get E k w')) = e"
    and put_keeps: "I w \<Longrightarrow> runs (re_PutRRset E k rrs False) w (\<lambda>_ w'. I w' \<and> sent w' = sent w)"
    and validated_keeps: "(au \<Longrightarrow> proven rrs) \<Longrightarrow> I w \<Longrightarrow> runs (re_PutValidated E k rrs au) w (\<lambda>_ w'. I w' \<and> sent w' = sent w)"
    and negative_keeps: "(au \<Longrightarrow> \<exists>den. dproven den \<and> set rrs \<subseteq> set den) \<Longrightarrow> I w \<Longrightarrow>
      runs (re_PutNegative E k rc rrs ttl au) w (\<lambda>_ w'. I w' \<and> sent w' = sent w)"
    and usable_keeps: "I w \<Longrightarrow> runs (re_Usable E ad) w (\<lambda>_ w'. I w' \<and> sent w' = sent w)"
    and rtt_keeps: "I w \<Longrightarrow> runs (re_RTT E ad) w (\<lambda>_ w'. I w' \<and> sent w' = sent w)"
    and broken_keeps: "I w \<Longrightarrow> runs (re_EDNSBroken E ad) w (\<lambda>_ w'. I w' \<and> sent w' = sent w)"
    and mark_keeps: "I w \<Longrightarrow> runs (re_MarkEDNSBroken E ad) w (\<lambda>_ w'. I w' \<and> sent w' = sent w)"
    and success_keeps: "I w \<Longrightarrow> runs (re_Success E ad rtt) w (\<lambda>_ w'. I w' \<and> sent w' = sent w)"
    and failure_keeps: "I w \<Longrightarrow> runs (re_Failure E ad) w (\<lambda>_ w'. I w' \<and> sent w' = sent w)"
    and prove_synth: "I w \<Longrightarrow> runs (re_ProveNXDOMAIN E n t) w (\<lambda>d w'. (I w' \<and> sent w' = sent w) \<and> (\<forall>au. d = Some au \<longrightarrow> synth n au))"
    and nsec_keeps: "dproven rrs \<Longrightarrow> I w \<Longrightarrow> runs (re_NSECPut E rrs t) w (\<lambda>_ w'. I w' \<and> sent w' = sent w)"
    and rand_keeps: "I w \<Longrightarrow> runs (re_Rand E) w (\<lambda>_ w'. I w' \<and> sent w' = sent w)"
    and id_keeps: "I w \<Longrightarrow> runs (re_Id E) w (\<lambda>_ w'. I w' \<and> sent w' = sent w)"
    and exchange_sends: "I w \<Longrightarrow> runs (re_Exchange E pr ad m) w (\<lambda>_ w'. I w' \<and> sent w' \<le> Suc (sent w))"
begin

lemma get_keeps: "I w \<Longrightarrow> runs (re_Get E k) w (\<lambda>_ w'. I w' \<and> sent w' = sent w)"
  by (rule runs_mono [OF get_proven]) auto

lemma prove_keeps: "I w \<Longrightarrow> runs (re_ProveNXDOMAIN E n t) w (\<lambda>_ w'. I w' \<and> sent w' = sent w)"
  by (rule runs_mono [OF prove_synth]) auto

text \<open>The state of a query: at most \<open>a\<close> exchanges more than the budget spent, three messages for each beyond
  \<open>b\<close>; \<open>j\<close> and \<open>k\<close> are an exchange and messages still owed. The nesting is \<open>d\<close> and at least \<open>c\<close> aliases
  were followed.\<close>

definition within :: "int \<Rightarrow> int \<Rightarrow> int \<Rightarrow> int \<Rightarrow> int \<Rightarrow> int \<Rightarrow> 'w rstate \<Rightarrow> bool" where
  "within a b d c j k s \<longleftrightarrow> I (rs_env s) \<and> 0 \<le> qs_outbound (rs_q s)
     \<and> int (rm_OutboundQueries (rs_m s)) + j \<le> a + min (qs_outbound (rs_q s)) (ro_MaxOutbound O')
     \<and> int (sent (rs_env s)) + k \<le> b + 3 * int (rm_OutboundQueries (rs_m s))
     \<and> qs_maxOutTrip (rs_q s) = ro_MaxOutbound O' \<and> qs_nsDepth (rs_q s) = d \<and> c \<le> qs_cnames (rs_q s)"

definition ok :: "int \<Rightarrow> int \<Rightarrow> int \<Rightarrow> int \<Rightarrow> int \<Rightarrow> int \<Rightarrow> ('w rstate, 'a) run \<Rightarrow> bool" where
  "ok a b d c j k m \<longleftrightarrow> (\<forall>s. within a b d c j k s \<longrightarrow> runs m s (\<lambda>_. within a b d c j k))"

lemma ok_ret: "ok a b d c j k (ret x)"
  by (simp add: ok_def)

lemma ok_get: "ok a b d c j k (get_run f)"
  by (simp add: ok_def)

lemma ok_now: "ok a b d c j k (now_run E)"
  by (simp add: now_run_def ok_get)

lemma ok_bind: "ok a b d c j k m \<Longrightarrow> (\<And>x. ok a b d c j k (f x)) \<Longrightarrow> ok a b d c j k (bind m f)"
  unfolding ok_def runs_bind by (blast intro: runs_mono)

lemma ok_count: "(\<And>m. rm_OutboundQueries (f m) = rm_OutboundQueries m) \<Longrightarrow> ok a b d c j k (count f)"
  by (simp add: ok_def count_def within_def)

lemma ok_env: "(\<And>w. I w \<Longrightarrow> runs m w (\<lambda>_ w'. I w' \<and> sent w' = sent w)) \<Longrightarrow> ok a b d c j k (env m)"
proof (unfold ok_def runs_env, intro allI impI)
  fix s
  assume m: "\<And>w. I w \<Longrightarrow> runs m w (\<lambda>_ w'. I w' \<and> sent w' = sent w)" and s: "within a b d c j k s"
  then have "runs m (rs_env s) (\<lambda>_ w'. I w' \<and> sent w' = sent (rs_env s))" by (simp add: within_def)
  then show "runs m (rs_env s) (\<lambda>_ w. within a b d c j k (s\<lparr>rs_env := w\<rparr>))"
    by (rule runs_mono) (use s in \<open>simp add: within_def\<close>)
qed

lemma ok_if: "(p \<Longrightarrow> ok a b d c j k m) \<Longrightarrow> (\<not> p \<Longrightarrow> ok a b d c j k m') \<Longrightarrow> ok a b d c j k (if p then m else m')"
  by simp

lemma ok_option: "ok a b d c j k m \<Longrightarrow> (\<And>x. ok a b d c j k (f x)) \<Longrightarrow> ok a b d c j k (case v of None \<Rightarrow> m | Some x \<Rightarrow> f x)"
  by (cases v) simp_all

lemma ok_sum: "(\<And>x. ok a b d c j k (f x)) \<Longrightarrow> (\<And>x. ok a b d c j k (g x)) \<Longrightarrow> ok a b d c j k (case v of Inl x \<Rightarrow> f x | Inr x \<Rightarrow> g x)"
  by (cases v) simp_all

lemma ok_prod: "(\<And>x y. ok a b d c j k (f x y)) \<Longrightarrow> ok a b d c j k (case v of (x, y) \<Rightarrow> f x y)"
  by (cases v) simp

lemma ok_each: "(\<And>x. ok a b d c j k (f x)) \<Longrightarrow> ok a b d c j k (each_run f xs)"
  by (induction xs) (auto intro: ok_ret ok_bind)

lemma ok_find: "(\<And>x. ok a b d c j k (f x)) \<Longrightarrow> ok a b d c j k (find_run f xs)"
  by (induction xs) (auto intro!: ok_ret ok_bind ok_option)

lemmas ok_rules = ok_ret ok_get ok_now ok_bind ok_count ok_if ok_option ok_sum ok_prod ok_each ok_find
lemmas ok_envs = get_keeps [THEN ok_env] put_keeps [THEN ok_env] usable_keeps [THEN ok_env] rtt_keeps [THEN ok_env]
  broken_keeps [THEN ok_env] mark_keeps [THEN ok_env] success_keeps [THEN ok_env] failure_keeps [THEN ok_env]
  prove_keeps [THEN ok_env] rand_keeps [THEN ok_env] id_keeps [THEN ok_env]

lemma ok_PutNegative: "(au \<Longrightarrow> \<exists>den. dproven den \<and> set rrs \<subseteq> set den) \<Longrightarrow> ok a b d c j k (env (re_PutNegative E key rc rrs ttl au))"
  by (intro ok_env negative_keeps)

lemma ok_PutValidated: "(au \<Longrightarrow> proven rrs) \<Longrightarrow> ok a b d c j k (env (re_PutValidated E key rrs au))"
  by (intro ok_env validated_keeps)

lemma ok_NSECPut: "dproven rrs \<Longrightarrow> ok a b d c j k (env (re_NSECPut E rrs t))"
  by (intro ok_env nsec_keeps)

lemma ok_put_glue: "ok a b d c j k (put_glue L E extra zone)"
  unfolding put_glue_def Let_def by (intro ok_each ok_envs)

lemma ok_cacheAdditional: "ok a b d c j k (cacheAdditional L E zone resp)"
  unfolding cacheAdditional_def by (rule ok_put_glue)

lemma ok_cacheDelegation: "ok a b d c j k (cacheDelegation L E zone resp)"
  unfolding cacheDelegation_def Let_def by (intro ok_rules ok_envs ok_put_glue)

lemma ok_finishNegative: "ok a b d c j k (finishNegative E qname qtype resp)"
  unfolding finishNegative_def Let_def by (intro ok_rules ok_PutNegative) simp_all

lemma ok_finishDSReferral: "ok a b d c j k (finishDSReferral L E qname resp)"
  unfolding finishDSReferral_def Let_def by (intro ok_rules ok_envs)

lemma ok_hydrate: "ok a b d c j k (hydrate L E rs out)"
proof (induction rs arbitrary: out)
  case (Cons r rs)
  show ?case by (cases "rr_data r") (auto simp: Let_def intro!: ok_rules ok_envs Cons)
qed (simp add: ok_ret)

lemma ok_best_loop: "(if name = ''.'' then 1 else max 2 (length name + 1)) \<le> n \<Longrightarrow> ok a b d c j k (best_loop L E n name)"
proof (induction n arbitrary: name)
  case (Suc n)
  have "ok a b d c j k (best_loop L E n (snd (splitFirstLabel L name)))" if "name \<noteq> ''.''"
  proof (rule Suc.IH)
    obtain i fin where n: "NextLabel L name 0 = (i, fin)" by fastforce
    let ?r = "snd (splitFirstLabel L name)"
    have "?r = ''.'' \<or> 0 < length ?r \<and> length ?r < length name"
      using that label_progress [of name i] by (auto simp: splitFirstLabel_def n)
    moreover have "1 \<le> n" "length name \<le> n" using Suc.prems that by simp_all
    ultimately show "(if ?r = ''.'' then 1 else max 2 (length ?r + 1)) \<le> n"
      by (auto simp: max_def Suc_le_eq)
  qed
  then show ?case by (auto intro!: ok_rules ok_envs ok_hydrate)
qed (simp split: if_splits)

lemma ok_bestDelegation: "ok a b d c j k (bestDelegation L E qname)"
  unfolding bestDelegation_def Let_def by (rule ok_best_loop) simp

lemma ok_cand_loop: "ok a b d c j k (cand_loop E O' xs out)"
  by (induction xs arbitrary: out) (auto intro!: ok_rules ok_envs)

lemma ok_server_list: "ok a b d c j k (server_list srv)"
  unfolding server_list_def by (rule ok_get)

lemma ok_rcandidates: "ok a b d c j k (rcandidates E O' srv)"
  unfolding rcandidates_def by (intro ok_rules ok_cand_loop ok_server_list)

lemma ok_append_addrs: "ok a b d c j k (append_addrs i as srv)"
  by (cases srv) (auto simp: append_addrs_def ok_def within_def)


text \<open>An exchange owed is paid by the counter, which allows for three messages.\<close>

definition pays :: "int \<Rightarrow> int \<Rightarrow> int \<Rightarrow> int \<Rightarrow> int \<Rightarrow> ('w rstate, 'a) run \<Rightarrow> bool" where
  "pays a b d c k m \<longleftrightarrow> (\<forall>s. within a b d c 0 k s \<longrightarrow> runs m s (\<lambda>_. within a b d c 0 0))"

lemma within_less: "within a b d c j k s \<Longrightarrow> j' \<le> j \<Longrightarrow> k' \<le> k \<Longrightarrow> within a b d c j' k' s"
  by (auto simp: within_def)

lemma pays_bind: "ok a b d c 0 k m \<Longrightarrow> (\<And>x. pays a b d c k (f x)) \<Longrightarrow> pays a b d c k (bind m f)"
  unfolding ok_def pays_def runs_bind by (blast intro: runs_mono)

lemma pays_ret: "0 \<le> k \<Longrightarrow> pays a b d c k (ret x)"
  by (auto simp: pays_def intro: within_less)

lemma pays_ok: "0 \<le> k \<Longrightarrow> ok a b d c 0 0 m \<Longrightarrow> pays a b d c k m"
  by (auto simp: pays_def ok_def intro: within_less)

lemma pays_more: "pays a b d c k m \<Longrightarrow> k \<le> k' \<Longrightarrow> pays a b d c k' m"
  by (auto simp: pays_def intro: within_less)

lemma pays_send: "(\<And>x. pays a b d c (k - 1) (f x)) \<Longrightarrow> pays a b d c k (bind (env (re_Exchange E pr ad m)) f)"
proof (unfold pays_def runs_bind runs_env, intro allI impI)
  fix s
  assume f: "\<And>x. \<forall>s. within a b d c 0 (k - 1) s \<longrightarrow> runs (f x) s (\<lambda>_. within a b d c 0 0)" and s: "within a b d c 0 k s"
  then have "runs (re_Exchange E pr ad m) (rs_env s) (\<lambda>_ w'. I w' \<and> sent w' \<le> Suc (sent (rs_env s)))"
    using exchange_sends by (simp add: within_def)
  then show "runs (re_Exchange E pr ad m) (rs_env s) (\<lambda>x w. runs (f x) (s\<lparr>rs_env := w\<rparr>) (\<lambda>_. within a b d c 0 0))"
    by (rule runs_mono) (use s in \<open>intro f [rule_format], auto simp: within_def\<close>)
qed

lemma pays_option: "pays a b d c k m \<Longrightarrow> (\<And>x. pays a b d c k (f x)) \<Longrightarrow> pays a b d c k (case v of None \<Rightarrow> m | Some x \<Rightarrow> f x)"
  by (cases v) simp_all

lemma pays_if: "pays a b d c k m \<Longrightarrow> pays a b d c k m' \<Longrightarrow> pays a b d c k (if p then m else m')"
  by simp

lemma bind_assoc: "bind (bind m g) f = bind m (\<lambda>x. bind (g x) f)"
  by (simp add: bind_def fun_eq_iff split: option.splits)

lemma pays_skip: "pays a b d c k (f x) \<Longrightarrow> pays a b d c k (bind (ret x) f)"
  by (simp add: pays_def)

text \<open>The end of an exchange, from the last response on.\<close>

definition accept_run :: "string \<Rightarrow> addr \<Rightarrow> gtime \<Rightarrow> dmsg option \<Rightarrow> ('w rstate, dmsg option) run" where
  "accept_run snt server start r3 = (case r3 of None \<Rightarrow> ret None | Some resp3 \<Rightarrow>
      if ro_CaseRandomisation O' \<and> length (m_Question resp3) = 1 \<and> \<not> caseMatches snt (q_Name (m_Question resp3 ! 0))
      then bind (count (\<lambda>x. x\<lparr>rm_CaseMismatch := Suc (rm_CaseMismatch x)\<rparr>)) (\<lambda>_. ret None)
      else
        let resp = (if ro_CaseRandomisation O' then normaliseCase L resp3 else resp3) in
        bind (now_run E) (\<lambda>t.
        bind (env (re_Success E server (time_Sub t start))) (\<lambda>_. ret (Some resp))))"

lemma ok_accept: "ok a b d c j k (accept_run snt server start r3)"
  unfolding accept_run_def Let_def by (intro ok_rules ok_envs) simp_all

definition tcp_run :: "string \<Rightarrow> addr \<Rightarrow> gtime \<Rightarrow> (dmsg \<times> dmsg) option \<Rightarrow> ('w rstate, dmsg option) run" where
  "tcp_run snt server start r2 = (case r2 of None \<Rightarrow> ret None | Some (m2, resp2) \<Rightarrow>
      bind (if m_Truncated resp2
            then bind (count (\<lambda>x. x\<lparr>rm_TCPFallbacks := Suc (rm_TCPFallbacks x)\<rparr>)) (\<lambda>_.
                 env (re_Exchange E ProtoTCP server m2))
            else ret (Some resp2)) (accept_run snt server start))"

lemma pays_tcp: "pays a b d c 1 (tcp_run snt server start r2)"
proof (cases r2)
  case (Some p)
  obtain m2 resp2 where p: "p = (m2, resp2)" by fastforce
  show ?thesis
  proof (cases "m_Truncated resp2")
    case True
    have "pays a b d c 1 (bind (env (re_Exchange E ProtoTCP server m2)) (accept_run snt server start))"
      by (intro pays_send pays_ok ok_accept) simp
    then show ?thesis
      by (simp add: tcp_run_def Some p True bind_assoc) (rule pays_bind [OF ok_count], simp)
  next
    case False
    then show ?thesis by (simp add: tcp_run_def Some p) (intro pays_skip pays_ok ok_accept, simp)
  qed
qed (simp add: tcp_run_def pays_ret)

lemma pays_downgrade:
  "pays a b d c 2 (bind (if bad then bind (count (\<lambda>x. x\<lparr>rm_EDNSDowngrades := Suc (rm_EDNSDowngrades x)\<rparr>)) (\<lambda>_.
                 bind (env (re_MarkEDNSBroken E server)) (\<lambda>_.
                 bind (env (re_Id E)) (\<lambda>mid2.
                 bind (env (re_Exchange E ProtoUDP server (plain mid2))) (\<lambda>r. ret (map_option (\<lambda>x. (plain mid2, x)) r)))))
            else ret (Some (m, resp1))) (tcp_run snt server start))"
proof (cases bad)
  case True
  have "pays a b d c 2 (bind (env (re_Exchange E ProtoUDP server p)) (\<lambda>r. bind (ret (map_option (\<lambda>x. (p, x)) r)) (tcp_run snt server start)))" for p
    by (intro pays_send pays_skip) (use pays_tcp in simp)
  then show ?thesis
    unfolding if_P [OF True] bind_assoc
    by (intro pays_bind [OF ok_count] pays_bind [OF ok_env [OF mark_keeps]] pays_bind [OF ok_env [OF id_keeps]]) simp_all
next
  case False
  then show ?thesis by (simp) (intro pays_skip pays_more [OF pays_tcp], simp)
qed

definition owes :: "int \<Rightarrow> int \<Rightarrow> int \<Rightarrow> int \<Rightarrow> ('w rstate, 'a) run \<Rightarrow> bool" where
  "owes a b d c m \<longleftrightarrow> (\<forall>s. within a b d c 1 0 s \<longrightarrow> runs m s (\<lambda>_. within a b d c 0 0))"

lemma owes_bind: "ok a b d c 1 0 m \<Longrightarrow> (\<And>x. owes a b d c (f x)) \<Longrightarrow> owes a b d c (bind m f)"
  unfolding ok_def owes_def runs_bind by (blast intro: runs_mono)

lemma runs_exchange:
  assumes "within a b d c 1 0 s"
  shows "runs (exchange L E O' server qname qtype) s (\<lambda>_. within a b d c 0 0)"
proof -
  let ?plain = "\<lambda>snt mid. (SetQuestion L snt qtype)\<lparr>m_Id := mid, m_RecursionDesired := False\<rparr>"
  let ?msg = "\<lambda>snt mid broken. if \<not> broken then SetEdns0 L (ro_UDPSize O') (ro_Validator O' \<noteq> None) (?plain snt mid) else ?plain snt mid"
  let ?send = "\<lambda>snt m start. bind (env (re_Exchange E ProtoUDP server m)) (\<lambda>r1. case r1 of None \<Rightarrow> ret None | Some resp1 \<Rightarrow>
      bind (if (m_Rcode resp1 = RcodeFormatError \<or> m_Rcode resp1 = RcodeNotImplemented) \<and> IsEdns0 L m \<noteq> None
            then bind (count (\<lambda>x. x\<lparr>rm_EDNSDowngrades := Suc (rm_EDNSDowngrades x)\<rparr>)) (\<lambda>_.
                 bind (env (re_MarkEDNSBroken E server)) (\<lambda>_.
                 bind (env (re_Id E)) (\<lambda>mid2.
                 bind (env (re_Exchange E ProtoUDP server (?plain snt mid2))) (\<lambda>r. ret (map_option (\<lambda>x. (?plain snt mid2, x)) r)))))
            else ret (Some (m, resp1))) (tcp_run snt server start))"
  have send: "pays a b d c 3 (?send snt m start)" for snt m start
    by (intro pays_send pays_option pays_ret) (use pays_downgrade in simp_all)
  let ?count = "count (\<lambda>x. x\<lparr>rm_OutboundQueries := Suc (rm_OutboundQueries x)\<rparr>)"
  have counted: "owes a b d c (bind ?count (\<lambda>_. ?send snt m start))" for snt m start
    using send [of m snt start] by (auto simp: owes_def pays_def count_def within_def)
  have e: "exchange L E O' server qname qtype =
     bind (if ro_CaseRandomisation O' then bind (env (re_Rand E)) (\<lambda>rand. ret (randomiseCase rand (Fqdn L qname))) else ret (Fqdn L qname)) (\<lambda>snt.
     bind (env (re_Id E)) (\<lambda>mid.
     bind (env (re_EDNSBroken E server)) (\<lambda>broken.
     bind (now_run E) (\<lambda>start. bind ?count (\<lambda>_. ?send snt (?msg snt mid broken) start)))))"
    unfolding exchange_def Let_def tcp_run_def accept_run_def by (rule refl)
  have "owes a b d c (exchange L E O' server qname qtype)"
    unfolding e by (intro owes_bind [OF _ owes_bind [OF _ owes_bind [OF _ owes_bind [OF _ counted]]]] ok_if ok_bind ok_ret ok_envs ok_now)
  with assms show ?thesis by (simp add: owes_def)
qed

lemma ok_try:
  "ok a b d c 0 0 (bind (get_run (\<lambda>s. re_CtxErr E (rs_env s))) (\<lambda>ctxErr.
       if ctxErr then ret (Some (Inl ErrNetwork))
       else bind spend (\<lambda>e. case e of
           Some e \<Rightarrow> ret (Some (Inl e))
         | None \<Rightarrow> bind (exchange L E O' ad probe ptype) (\<lambda>r. case r of
             Some resp \<Rightarrow> ret (Some (Inr resp :: rerror + dmsg))
           | None \<Rightarrow>
               bind (count (\<lambda>m. m\<lparr>rm_OutboundFailures := Suc (rm_OutboundFailures m)\<rparr>)) (\<lambda>_.
               bind (env (re_Failure E ad)) (\<lambda>_. ret None))))))"
proof -
  have after: "ok a b d c 0 0 (case r of
             Some resp \<Rightarrow> ret (Some (Inr resp :: rerror + dmsg))
           | None \<Rightarrow>
               bind (count (\<lambda>m. m\<lparr>rm_OutboundFailures := Suc (rm_OutboundFailures m)\<rparr>)) (\<lambda>_.
               bind (env (re_Failure E ad)) (\<lambda>_. ret None)))" for r :: "dmsg option"
    by (intro ok_option ok_bind ok_ret ok_count ok_envs) simp
  have "runs (bind (exchange L E O' ad probe ptype) (\<lambda>r. case r of
             Some resp \<Rightarrow> ret (Some (Inr resp :: rerror + dmsg))
           | None \<Rightarrow>
               bind (count (\<lambda>m. m\<lparr>rm_OutboundFailures := Suc (rm_OutboundFailures m)\<rparr>)) (\<lambda>_.
               bind (env (re_Failure E ad)) (\<lambda>_. ret None)))) s' (\<lambda>_. within a b d c 0 0)" if "within a b d c 1 0 s'" for s'
    unfolding runs_bind [of "exchange L E O' ad probe ptype"]
    by (rule runs_mono [OF runs_exchange [OF that]]) (use after in \<open>simp add: ok_def\<close>)
  then have "ok a b d c 0 0 (bind spend (\<lambda>e. case e of
           Some e \<Rightarrow> ret (Some (Inl e))
         | None \<Rightarrow> bind (exchange L E O' ad probe ptype) (\<lambda>r. case r of
             Some resp \<Rightarrow> ret (Some (Inr resp :: rerror + dmsg))
           | None \<Rightarrow>
               bind (count (\<lambda>m. m\<lparr>rm_OutboundFailures := Suc (rm_OutboundFailures m)\<rparr>)) (\<lambda>_.
               bind (env (re_Failure E ad)) (\<lambda>_. ret None)))))"
    unfolding ok_def spend_def st_run_def
    by (auto simp del: runs_bind simp: runs_bind [of "bind _ _"] runs_bind [of "modify_run _"] within_def)
  then show ?thesis by (intro ok_bind [OF ok_get] ok_if ok_ret)
qed

text \<open>The inner call, on a nesting that it has the fuel for.\<close>

definition self_ok :: "int \<Rightarrow> int \<Rightarrow> nat \<Rightarrow> 'w resolver \<Rightarrow> bool" where
  "self_ok a b n self \<longleftrightarrow> (\<forall>q t d c. nat (ro_MaxCNAME O' - c) + nat (4 - d) < n \<longrightarrow> ok a b d c 0 0 (self q t))"

lemma ok_types_loop: "(\<And>q t. ok a b d c 0 0 (self q t)) \<Longrightarrow> ok a b d c 0 0 (types_loop self i name ts srv e)"
  by (induction ts arbitrary: srv e) (auto intro!: ok_rules ok_append_addrs)

lemma ok_ns_loop: "(\<And>q t. ok a b d c 0 0 (self q t)) \<Longrightarrow> ok a b d c 0 0 (ns_loop self types is srv e)"
  by (induction "is" arbitrary: srv e) (auto intro!: ok_rules ok_types_loop ok_server_list)

definition moves :: "int \<Rightarrow> int \<Rightarrow> int \<Rightarrow> int \<Rightarrow> int \<Rightarrow> ('w rstate, 'a) run \<Rightarrow> bool" where
  "moves a b d d' c m \<longleftrightarrow> (\<forall>s. within a b d c 0 0 s \<longrightarrow> runs m s (\<lambda>_. within a b d' c 0 0))"

lemma moves_bind: "moves a b d d1 c m \<Longrightarrow> (\<And>x. moves a b d1 d2 c (f x)) \<Longrightarrow> moves a b d d2 c (bind m f)"
  unfolding moves_def runs_bind by (blast intro: runs_mono)

lemma moves_ok: "ok a b d c 0 0 m \<Longrightarrow> moves a b d d c m"
  by (simp add: ok_def moves_def)

lemma moves_depth: "moves a b d (d + x) c (st_run (\<lambda>q. q\<lparr>qs_nsDepth := qs_nsDepth q + x\<rparr>))"
  by (simp add: moves_def st_run_def within_def)

lemma ok_resolveNameserverAddrs:
  assumes "self_ok a b n self" "nat (ro_MaxCNAME O' - c) + nat (4 - d) \<le> n"
  shows "ok a b d c 0 0 (resolveNameserverAddrs self O' srv)"
proof (cases "d \<ge> 4")
  case True
  then show ?thesis by (auto simp: ok_def resolveNameserverAddrs_def within_def)
next
  case False
  let ?types = "(if ro_UseIPv6 O' then [TypeAAAA] else []) @ (if ro_UseIPv4 O' then [TypeA] else [])"
  let ?body = "bind (st_run (\<lambda>q. q\<lparr>qs_nsDepth := qs_nsDepth q + 1\<rparr>)) (\<lambda>_.
       bind (count (\<lambda>m. m\<lparr>rm_GluelessLookups := Suc (rm_GluelessLookups m)\<rparr>)) (\<lambda>_.
       bind (server_list srv) (\<lambda>servers.
       bind (ns_loop self ?types [0..<length servers] srv ErrNoReachableServer) (\<lambda>r.
       bind (st_run (\<lambda>q. q\<lparr>qs_nsDepth := qs_nsDepth q - 1\<rparr>)) (\<lambda>_. ret r)))))"
  have self: "ok a b (d + 1) c 0 0 (self q t)" for q t
    using assms False unfolding self_ok_def by (auto simp: nat_less_iff)
  have up: "moves a b (d + 1) d c (st_run (\<lambda>q. q\<lparr>qs_nsDepth := qs_nsDepth q - 1\<rparr>))"
    by (simp add: moves_def st_run_def within_def)
  have cnt: "moves a b (d + 1) (d + 1) c (count (\<lambda>m. m\<lparr>rm_GluelessLookups := Suc (rm_GluelessLookups m)\<rparr>))"
    by (intro moves_ok ok_count) simp
  have "moves a b d d c ?body"
    by (rule moves_bind [OF moves_depth], rule moves_bind [OF cnt], rule moves_bind [OF moves_ok [OF ok_server_list]],
        rule moves_bind [OF moves_ok [OF ok_ns_loop [OF self]]], rule moves_bind [OF up], rule moves_ok, rule ok_ret)
  then show ?thesis
    using False by (auto simp del: runs_bind simp: ok_def moves_def resolveNameserverAddrs_def Let_def runs_bind [of "get_run _"] within_def)
qed

lemma ok_ask:
  assumes "self_ok a b n self" "nat (ro_MaxCNAME O' - c) + nat (4 - d) \<le> n"
  shows "ok a b d c 0 0 (ask L E O' self srv probe ptype)"
  unfolding ask_def
  by (intro ok_bind ok_rcandidates ok_if ok_ret ok_prod ok_option ok_find ok_try ok_resolveNameserverAddrs [OF assms])

lemma ok_finishAnswer:
  assumes "self_ok a b n self" "nat (ro_MaxCNAME O' - c) + nat (4 - d) \<le> n"
  shows "ok a b d c 0 0 (finishAnswer L E O' self qname qtype resp)"
proof -
  obtain answer final where af: "answersFor L (m_Answer resp) qname qtype = (answer, final)" by fastforce
  let ?chase = "bind (st_run (\<lambda>q. q\<lparr>qs_cnames := qs_cnames q + 1\<rparr>)) (\<lambda>_.
             bind (get_run (\<lambda>s. qs_cnames (rs_q s))) (\<lambda>cnames.
             if cnames > ro_MaxCNAME O' then ret (Inl ErrBudgetExhausted)
             else bind (count (\<lambda>m. m\<lparr>rm_CNAMEChased := Suc (rm_CNAMEChased m)\<rparr>)) (\<lambda>_.
               bind (self final qtype) (\<lambda>r. case r of
                 Inl e \<Rightarrow> ret (Inl e)
               | Inr tail \<Rightarrow> ret (Inr ((result0 (res_rcode tail))\<lparr>res_answer := answer @ res_answer tail,
                   res_sigs := sigsCovering L (m_Answer resp) answer @ res_sigs tail,
                   res_authority := res_authority tail\<rparr>))))))"
  have "runs ?chase s (\<lambda>_. within a b d c 0 0)" if s: "within a b d c 0 0 s" for s
  proof -
    let ?s = "s\<lparr>rs_q := (rs_q s)\<lparr>qs_cnames := qs_cnames (rs_q s) + 1\<rparr>\<rparr>"
    let ?t = "?s\<lparr>rs_m := (rs_m s)\<lparr>rm_CNAMEChased := Suc (rm_CNAMEChased (rs_m s))\<rparr>\<rparr>"
    show ?thesis
    proof (cases "qs_cnames (rs_q s) + 1 > ro_MaxCNAME O'")
      case True
      then show ?thesis using s by (simp add: st_run_def within_def)
    next
      case False
      have t: "within a b d (c + 1) 0 0 ?t" using s by (simp add: within_def)
      have "c \<le> qs_cnames (rs_q s)" using s by (simp add: within_def)
      then have "ok a b d (c + 1) 0 0 (self final qtype)"
        using assms False unfolding self_ok_def by (auto simp: nat_less_iff)
      with t have "runs (self final qtype) ?t (\<lambda>_. within a b d (c + 1) 0 0)" by (simp add: ok_def)
      then have "runs (bind (self final qtype) (\<lambda>r. case r of
                 Inl e \<Rightarrow> ret (Inl e)
               | Inr tail \<Rightarrow> ret (Inr ((result0 (res_rcode tail))\<lparr>res_answer := answer @ res_answer tail,
                   res_sigs := sigsCovering L (m_Answer resp) answer @ res_sigs tail,
                   res_authority := res_authority tail\<rparr>)))) ?t (\<lambda>_. within a b d c 0 0)"
        unfolding runs_bind by (rule runs_mono) (auto simp: within_def split: sum.splits)
      then show ?thesis using False
        by (simp del: runs_bind add: runs_bind [of "get_run _"] runs_bind [of "modify_run _"] st_run_def count_def)
    qed
  qed
  then have chase: "ok a b d c 0 0 ?chase" by (simp add: ok_def)
  show ?thesis
    unfolding finishAnswer_def af Let_def prod.case
    by (intro ok_if ok_bind ok_ret ok_finishNegative ok_cacheAdditional ok_envs chase)
qed

lemma ok_walk_loop:
  assumes "self_ok a b n self" "nat (ro_MaxCNAME O' - c) + nat (4 - d) \<le> n"
  shows "ok a b d c 0 0 (walk_loop L E O' self qname qtype depth zone srv sname minimise steps)"
proof (induction depth arbitrary: zone srv sname minimise steps)
  case 0
  show ?case by (simp, intro ok_bind ok_count ok_ret) simp
next
  case (Suc depth)
  have cls: "ok a b d c 0 0 (case cl of classAnswer \<Rightarrow> f1 | classReferral \<Rightarrow> f2 | classNoData \<Rightarrow> f3 | classNXDomain \<Rightarrow> f4 | classOther \<Rightarrow> f5)"
    if "ok a b d c 0 0 f1" "ok a b d c 0 0 f2" "ok a b d c 0 0 f3" "ok a b d c 0 0 f4" "ok a b d c 0 0 f5"
    for cl and f1 f2 f3 f4 f5 :: "('w rstate, rerror + rresult) run"
    using that by (cases cl) simp_all
  show ?case
    unfolding walk_loop.simps Let_def
    by (intro ok_bind ok_get ok_if ok_ret ok_ask [OF assms] ok_prod ok_sum cls ok_finishDSReferral ok_count ok_cacheDelegation
        Suc ok_finishAnswer [OF assms] ok_finishNegative) simp_all
qed

lemma ok_walkFrom:
  assumes "self_ok a b n self" "nat (ro_MaxCNAME O' - c) + nat (4 - d) \<le> n"
  shows "ok a b d c 0 0 (walkFrom L E O' self qname qtype startAt)"
  unfolding walkFrom_def Let_def by (intro ok_bind ok_bestDelegation ok_prod ok_walk_loop [OF assms])

lemma ok_resolve: "self_ok a b n (resolve L E O' refresh n)"
proof (induction n)
  case (Suc n)
  show ?case
  proof (unfold self_ok_def, intro allI impI)
    fix q t d c
    assume "nat (ro_MaxCNAME O' - c) + nat (4 - d) < Suc n"
    then have "nat (ro_MaxCNAME O' - c) + nat (4 - d) \<le> n" by simp
    note w = ok_walkFrom [OF Suc this]
    show "ok a b d c 0 0 (resolve L E O' refresh (Suc n) q t)"
      unfolding resolve.simps resolve_body_def walk_def Let_def
      by (intro ok_bind ok_get ok_envs ok_if ok_now ok_ret ok_option ok_count w) simp_all
  qed
qed (simp add: self_ok_def)

lemma ok_query: "ok a b 0 0 0 0 (resolve L E O' refresh (query_fuel O') q t)"
  using ok_resolve [of a b "query_fuel O'" refresh] by (simp add: self_ok_def query_fuel_def)


section \<open>Validation within the budget\<close>

text \<open>The engine as the validator's fetcher keeps the budget of the client query.\<close>

abbreviation spent :: "int \<Rightarrow> int \<Rightarrow> 'w rstate \<Rightarrow> bool" where
  "spent a b \<equiv> within a b 0 0 0 0"

lemma ok_FetchSigned: "ok a b 0 0 0 0 (FetchSigned L E O' refresh n t)"
proof -
  have "nat (ro_MaxCNAME O' - 0) + nat (4 - 0) \<le> query_fuel O'" by (simp add: query_fuel_def)
  note w = ok_walkFrom [OF ok_resolve this]
  show ?thesis unfolding FetchSigned_def Let_def by (intro ok_bind w ok_sum ok_ret)
qed

end

sublocale engine \<subseteq> fetch_keeps "FetchSigned L E O' refresh" "within a b 0 0 0 0" for refresh a b
  by unfold_locales (use ok_FetchSigned in \<open>simp add: ok_def\<close>)

context engine
begin

text \<open>Runs over the validator's state as well: they return, keep the budget, and their result has a property.\<close>

definition vok :: "int \<Rightarrow> int \<Rightarrow> ('w rstate vstate, 'a) run \<Rightarrow> ('a \<Rightarrow> bool) \<Rightarrow> bool" where
  "vok a b m P \<longleftrightarrow> (\<forall>inh s. spent a b s \<longrightarrow> runs m (inh, s) (\<lambda>r s'. spent a b (snd s') \<and> P r))"

lemma vok_ret: "P x \<Longrightarrow> vok a b (ret x) P"
  by (simp add: vok_def)

lemma vok_bind: "vok a b m Q \<Longrightarrow> (\<And>x. Q x \<Longrightarrow> vok a b (f x) P) \<Longrightarrow> vok a b (bind m f) P"
  unfolding vok_def runs_bind by (fastforce elim!: runs_mono)

lemma vok_on_state: "ok a b 0 0 0 0 m \<Longrightarrow> vok a b (on_state m) (\<lambda>_. True)"
  by (fastforce simp: vok_def ok_def on_state_def runs_def)

lemma vok_clock: "vok a b (clock_run E) (\<lambda>_. True)"
  by (simp add: vok_def clock_run_def)

lemma vok_inherited: "vok a b (KeysWereInherited L z) (\<lambda>_. True)"
  by (simp add: vok_def KeysWereInherited_def)

lemma vok_if: "(p \<Longrightarrow> vok a b m P) \<Longrightarrow> (\<not> p \<Longrightarrow> vok a b m' P) \<Longrightarrow> vok a b (if p then m else m') P"
  by simp

lemma vok_option: "(v = None \<Longrightarrow> vok a b m P) \<Longrightarrow> (\<And>x. v = Some x \<Longrightarrow> vok a b (f x) P) \<Longrightarrow>
    vok a b (case v of None \<Rightarrow> m | Some x \<Rightarrow> f x) P"
  by (cases v) simp_all

lemma vok_prod: "(\<And>x y. v = (x, y) \<Longrightarrow> vok a b (f x y) P) \<Longrightarrow> vok a b (case v of (x, y) \<Rightarrow> f x y) P"
  by (cases v) simp

lemma vok_sum: "(\<And>x. v = Inl x \<Longrightarrow> vok a b (f x) P) \<Longrightarrow> (\<And>x. v = Inr x \<Longrightarrow> vok a b (g x) P) \<Longrightarrow>
    vok a b (case v of Inl x \<Rightarrow> f x | Inr x \<Rightarrow> g x) P"
  by (cases v) simp_all

lemma vok_imp: "vok a b m P \<Longrightarrow> (\<And>r. P r \<Longrightarrow> Q r) \<Longrightarrow> vok a b m Q"
  unfolding vok_def by (blast intro: runs_mono)

lemma vok_conj: "vok a b m P \<Longrightarrow> (\<And>s r s'. m s = Some (r, s') \<Longrightarrow> Q r) \<Longrightarrow> vok a b m (\<lambda>r. P r \<and> Q r)"
  unfolding vok_def runs_def by blast

lemma vok_trusted: "vok a b (trusted L S E O' refresh V zone) (keys_ok L S (re_SetOrder E) V (\<lambda>s :: 'w rstate. re_Now E (rs_env s)) (CanonicalName L zone))"
proof -
  have t: "trusted L S E O' refresh V zone =
     trustedKeys L S (re_SetOrder E) V (\<lambda>s. re_Now E (rs_env s)) (FetchSigned L E O' refresh) (CanonicalName L zone) 0"
    by (simp add: trusted_def TrustedKeys_def)
  have "vok a b (trusted L S E O' refresh V zone) (\<lambda>_. True)"
    using keys_run_keeps by (simp add: vok_def t)
  then have "vok a b (trusted L S E O' refresh V zone)
      (\<lambda>r. True \<and> keys_ok L S (re_SetOrder E) V (\<lambda>s :: 'w rstate. re_Now E (rs_env s)) (CanonicalName L zone) r)"
    by (rule vok_conj) (unfold t, erule trustedKeys_ok)
  then show ?thesis by simp
qed

end

end
