(* ===== verification/Recursive_Secure.thy ===== *)
theory Recursive_Secure
  imports Recursive_Budget
begin

text \<open>
  What a client of the recursion engine gets (\<open>ServeDNS\<close>, \<open>validate\<close> and \<open>validateDenial\<close> of
  \<open>internal/resolver\<close>). The locale \<open>secure_engine\<close> adds to \<open>engine\<close> a validator that has a valid anchor for the root whenever
  the clock is read and an environment that visits every entry of a map. In it every query returns a response within its budget, and a response with the AD
  bit rests on a chain of keys from a trust anchor, at once or through the caches. Theory \<open>Validation_Limits\<close> shows
  where validation stops short.
\<close>

section \<open>What makes a response authentic\<close>

definition set_verified :: "dnslib \<Rightarrow> seclib \<Rightarrow> key_order \<Rightarrow> validator \<Rightarrow> rr list \<Rightarrow> bool" where
  "set_verified L S ord V rrs \<longleftrightarrow> (\<exists>zone keys sigs t sig. trusts L S ord V zone keys \<and> VerifyRRset L S V t rrs sigs keys = Inr sig)"

definition answer_verified :: "dnslib \<Rightarrow> seclib \<Rightarrow> key_order \<Rightarrow> validator \<Rightarrow> rr list \<Rightarrow> bool" where
  "answer_verified L S ord V rrs \<longleftrightarrow> fst (groupBySet L rrs) \<noteq> [] \<and> (\<forall>(k, g) \<in> set (fst (groupBySet L rrs)). set_verified L S ord V g)"

text \<open>A denial: its SOA, NSEC and NSEC3 sets verify with keys trusted for the zone its SOA names.\<close>

definition denial_verified :: "dnslib \<Rightarrow> seclib \<Rightarrow> key_order \<Rightarrow> validator \<Rightarrow> rr list \<Rightarrow> bool" where
  "denial_verified L S ord V au \<longleftrightarrow> fst (groupBySet L (proofRecords au)) \<noteq> []
     \<and> (\<exists>keys. trusts L S ord V (CanonicalName L (denial_zone L au)) keys
          \<and> (\<forall>(k, g) \<in> set (fst (groupBySet L (proofRecords au))). \<exists>t sigs sig. VerifyRRset L S V t g sigs keys = Inr sig))"

text \<open>The denial an authority section makes for a question: a proof that the name does not exist or, for any other response code, that it
  has no record of the type.\<close>

definition denies :: "dnslib \<Rightarrow> seclib \<Rightarrow> int \<Rightarrow> rr list \<Rightarrow> string \<Rightarrow> u16 \<Rightarrow> bool" where
  "denies L S rcode au qname qtype \<longleftrightarrow>
     (if rcode = RcodeNameError then ProveNXDOMAIN L S au qname else ProveNODATA L S au qname qtype) = None"

text \<open>What the AD bit says of a response to a question.\<close>

definition authentic :: "dnslib \<Rightarrow> seclib \<Rightarrow> (rr list \<Rightarrow> bool) \<Rightarrow> (rr list \<Rightarrow> bool) \<Rightarrow> (string \<Rightarrow> rr list \<Rightarrow> bool)
    \<Rightarrow> string \<Rightarrow> u16 \<Rightarrow> int \<Rightarrow> rr list \<Rightarrow> rr list \<Rightarrow> bool" where
  "authentic L S proven dproven synth qname qtype rcode answer authority \<longleftrightarrow>
     (\<exists>rrs. proven rrs \<and> (answer = rrs \<or> list_all2 (aged L) rrs answer))
     \<or> answer = [] \<and> dproven authority \<and> denies L S rcode authority qname qtype
     \<or> answer = [] \<and> rcode = RcodeNameError \<and> synth qname authority"

lemma group_distinct: "distinct (map fst (fst (groupBySet L rrs)))"
  by (simp add: groupBySet_def Let_def comp_def)

lemma visit_all:
  assumes "\<And>ks. set (re_SetOrder E ks) = set ks" "distinct (map fst sets)"
  shows "set sets \<subseteq> set (visit E sets)"
proof
  fix x
  assume x: "x \<in> set sets"
  then have "map_of sets (fst x) = Some (snd x)" using assms(2) by (simp add: map_of_is_SomeI)
  moreover have "fst x \<in> set (re_SetOrder E (map fst sets))" using assms(1) x by simp
  ultimately show "x \<in> set (visit E sets)" unfolding visit_def by (force simp: image_iff)
qed

lemma visit_Nil: "(\<And>ks. set (re_SetOrder E ks) = set ks) \<Longrightarrow> visit E [] = []"
  by (metis (no_types, lifting) list.map(1) list.set(1) set_empty visit_def)

lemma soa_ttl_Some: "soa_ttl r = Some (soa, ttl) \<Longrightarrow> soa = [r]"
  by (cases "rr_data r") (auto simp: soa_ttl_def Let_def)

lemma RRsAt_aged: "list_all2 (aged L) (e_RRs e) (RRsAt L e now)" "r \<in> set (RRsAt L e now) \<Longrightarrow> \<exists>r0 \<in> set (e_RRs e). aged L r0 r"
  by (auto simp: RRsAt_def withTtl_def Let_def aged_def list_all2_conv_all_nth split: if_splits)

section \<open>Results before validation\<close>

text \<open>A walk never claims a security status; only the cache and the store of denials do.\<close>

definition plain :: "('s, 'e + rresult) run \<Rightarrow> bool" where
  "plain m \<longleftrightarrow> (\<forall>s res s'. m s = Some (Inr res, s') \<longrightarrow> res_secure res = StatusIndeterminate)"

definition unclaimed :: "('s, rresult) run \<Rightarrow> bool" where
  "unclaimed m \<longleftrightarrow> (\<forall>s res s'. m s = Some (res, s') \<longrightarrow> res_secure res = StatusIndeterminate)"

lemma plain_bind: "(\<And>x. plain (f x)) \<Longrightarrow> plain (bind m f)"
  by (auto simp: plain_def bind_Some)

lemma plain_ret: "plain (ret (Inl e))" "res_secure res = StatusIndeterminate \<Longrightarrow> plain (ret (Inr res))"
  by (auto simp: plain_def)

lemma plain_Inr: "unclaimed m \<Longrightarrow> plain (bind m (\<lambda>r. ret (Inr r)))"
  by (auto simp: plain_def unclaimed_def bind_Some)

lemma plain_if: "plain m \<Longrightarrow> plain m' \<Longrightarrow> plain (if p then m else m')"
  by simp

lemma plain_prod: "(\<And>x y. plain (f x y)) \<Longrightarrow> plain (case v of (x, y) \<Rightarrow> f x y)"
  by (cases v) simp

lemma plain_sum: "(\<And>x. plain (f x)) \<Longrightarrow> (\<And>x. plain (g x)) \<Longrightarrow> plain (case v of Inl x \<Rightarrow> f x | Inr x \<Rightarrow> g x)"
  by (cases v) simp_all

lemma plain_class: "plain f1 \<Longrightarrow> plain f2 \<Longrightarrow> plain f3 \<Longrightarrow> plain f4 \<Longrightarrow> plain f5 \<Longrightarrow>
    plain (case cl of classAnswer \<Rightarrow> f1 | classReferral \<Rightarrow> f2 | classNoData \<Rightarrow> f3 | classNXDomain \<Rightarrow> f4 | classOther \<Rightarrow> f5)"
  by (cases cl) simp_all

lemma result0_secure [simp]: "res_secure (result0 rc) = StatusIndeterminate"
  by (simp add: result0_def)

lemma unclaimed_finish: "unclaimed (finishNegative E q t r)" "unclaimed (finishDSReferral L E q r)"
  by (auto simp: unclaimed_def finishNegative_def finishDSReferral_def Let_def bind_Some split: prod.splits if_splits)

lemma plain_finishAnswer: "plain (finishAnswer L E O' self q t r)"
  unfolding finishAnswer_def Let_def
  by (intro plain_prod plain_if plain_Inr unclaimed_finish plain_bind plain_ret plain_sum) simp_all

lemma plain_walk_loop: "plain (walk_loop L E O' self qname qtype depth zone srv sname minimise steps)"
proof (induction depth arbitrary: zone srv sname minimise steps)
  case (Suc depth)
  show ?case
    unfolding walk_loop.simps Let_def
    by (intro plain_bind plain_if plain_ret plain_prod plain_sum plain_class plain_Inr unclaimed_finish plain_finishAnswer Suc) simp
qed (simp add: plain_bind plain_ret)

lemma plain_walk: "plain (walk L E O' self qname qtype)"
  unfolding walk_def walkFrom_def Let_def by (intro plain_bind plain_prod plain_walk_loop)

section \<open>Validated responses\<close>

text \<open>A verdict that withholds an answer gives the error to report.\<close>

definition reports :: "status \<times> sec_error option \<Rightarrow> bool" where
  "reports = (\<lambda>(status, err). status = StatusBogus \<or> status = StatusIndeterminate \<longrightarrow> err \<noteq> None)"

text \<open>Whenever the clock is read, a configured anchor of the root is inside its validity period.\<close>

definition anchored :: "dnslib \<Rightarrow> validator \<Rightarrow> ('e \<Rightarrow> gtime) \<Rightarrow> bool" where
  "anchored L V clock \<longleftrightarrow> (\<forall>e. AnchorsFor L V (clock e) ''.'' \<noteq> [])"

lemma reports_simps [simp]: "reports (status, Some e)" "reports (StatusInsecure, e')" "reports (StatusSecure, e')"
  by (simp_all add: reports_def)

lemma keys_ok_reports: "anchored L V clock \<Longrightarrow> keys_ok L S ord V clock zone (keys, status, err) \<Longrightarrow> reports (status, err)"
  by (auto simp: keys_ok_def anchored_def reports_def)

lemma keys_ok_trusts: "keys_ok L S ord V clock zone (keys, StatusSecure, err) \<Longrightarrow> err = None \<and> trusts L S ord V zone keys"
  by (simp add: keys_ok_def)

lemma keys_ok_Secure: "keys_ok L S ord V clock zone (keys, StatusSecure, Some e) \<Longrightarrow> False"
  by (simp add: keys_ok_def)

lemma set_verifiedI: "trusts L S ord V zone keys \<Longrightarrow> VerifyRRset L S V t rrs sigs keys = Inr sig \<Longrightarrow> set_verified L S ord V rrs"
  unfolding set_verified_def by blast

lemma reports_downgrade: "reports (worst, None) \<Longrightarrow> reports (status, None) \<Longrightarrow> reports (downgrade worst status, None)"
  by (simp add: downgrade_def)

locale secure_engine = engine L E O' I sent proven dproven synth for L and E :: "'w renv" and O' I sent proven dproven synth +
  fixes S :: seclib
  assumes map_order: "set (re_SetOrder E ks) = set ks"
    and answers_proven: "ro_Validator O' = Some V \<Longrightarrow> answer_verified L S (re_SetOrder E) V rrs \<Longrightarrow> proven rrs"
    and denials_proven: "ro_Validator O' = Some V \<Longrightarrow> denial_verified L S (re_SetOrder E) V rrs \<Longrightarrow> dproven rrs"
    and proven_validator: "dproven rrs \<Longrightarrow> ro_Validator O' \<noteq> None"
    and root_anchored: "ro_Validator O' = Some V \<Longrightarrow> anchored L V (re_Now E)"
    and budget_nonneg: "0 \<le> ro_MaxOutbound O'"
begin

lemma state_anchored: "ro_Validator O' = Some V \<Longrightarrow> anchored L V (\<lambda>s :: 'w rstate. re_Now E (rs_env s))"
  using root_anchored by (simp add: anchored_def)

lemma vok_validate_loop:
  assumes "anchored L V (\<lambda>s :: 'w rstate. re_Now E (rs_env s))"
  shows "reports (worst, None) \<Longrightarrow> vok a b (validate_loop L S E O' refresh V allSigs sets worst)
    (\<lambda>r. reports r \<and> (fst r = StatusSecure \<longrightarrow> worst = StatusSecure \<and> (\<forall>(k, g) \<in> set sets. set_verified L S (re_SetOrder E) V g)))"
proof (induction sets arbitrary: worst)
  case (Cons x sets)
  obtain k rrs where x: "x = (k, rrs)" by fastforce
  have down: "vok a b (validate_loop L S E O' refresh V allSigs sets (downgrade worst status))
      (\<lambda>r. reports r \<and> (fst r = StatusSecure \<longrightarrow> worst = StatusSecure \<and> (\<forall>(k, g) \<in> set ((k, rrs) # sets). set_verified L S (re_SetOrder E) V g)))"
    if "status \<noteq> StatusSecure" "reports (status, None)" for status
    using vok_imp [OF Cons.IH [OF reports_downgrade [OF Cons.prems that(2)]]] that(1) by (auto simp: downgrade_def)
  have on: "vok a b (validate_loop L S E O' refresh V allSigs sets worst)
      (\<lambda>r. reports r \<and> (fst r = StatusSecure \<longrightarrow> worst = StatusSecure \<and> (\<forall>(k, g) \<in> set ((k, rrs) # sets). set_verified L S (re_SetOrder E) V g)))"
    if "set_verified L S (re_SetOrder E) V rrs"
    using vok_imp [OF Cons.IH [OF Cons.prems]] that by auto
  show ?case
    unfolding x validate_loop.simps Let_def
    by (intro vok_bind [OF vok_trusted] vok_prod vok_if vok_ret vok_bind [OF vok_inherited] vok_bind [OF vok_clock] vok_sum down on)
      (auto dest: keys_ok_reports [OF assms] keys_ok_trusts intro: set_verifiedI)
qed (simp add: vok_ret)

text \<open>The verdict on a result: an error wherever it withholds, evidence wherever it calls the result secure.\<close>

definition sound_verdict :: "rresult \<Rightarrow> string \<Rightarrow> u16 \<Rightarrow> status \<times> sec_error option \<Rightarrow> bool" where
  "sound_verdict res qname qtype r \<longleftrightarrow> reports r \<and> (fst r = StatusSecure \<longrightarrow>
     (if res_answer res = [] then dproven (res_authority res) \<and> denies L S (res_rcode res) (res_authority res) qname qtype
      else proven (res_answer res)))"

lemma vok_validate:
  assumes V: "ro_Validator O' = Some V" and "res_answer res \<noteq> []"
  shows "vok a b (validate L S E O' refresh V res) (sound_verdict res qname qtype)"
proof -
  let ?sets = "fst (groupBySet L (res_answer res))"
  have "proven (res_answer res)"
    if "?sets \<noteq> []" "\<forall>(k, g) \<in> set (visit E ?sets). set_verified L S (re_SetOrder E) V g"
    using that visit_all [OF map_order group_distinct, of L "res_answer res"] answers_proven [OF V]
    unfolding answer_verified_def by blast
  then have "vok a b (validate_loop L S E O' refresh V (res_sigs res) (visit E ?sets) StatusSecure) (sound_verdict res qname qtype)"
    if "?sets \<noteq> []"
    using that assms(2) by (intro vok_imp [OF vok_validate_loop [OF state_anchored [OF V]]]) (auto simp: sound_verdict_def)
  then show ?thesis
    using assms(2) unfolding validate_def Let_def by (auto simp: sound_verdict_def intro!: vok_ret)
qed

lemma denial_sets_None: "denial_sets L S V now sigs keys sets = None \<Longrightarrow>
    \<forall>(k, g) \<in> set sets. \<exists>sig. VerifyRRset L S V now g (sigs k) keys = Inr sig"
  by (auto simp: denial_sets_def first_some_None split: sum.splits if_splits)

lemma vok_validateDenial:
  assumes V: "ro_Validator O' = Some V" and "res_answer res = []"
  shows "vok a b (validateDenial L S E O' refresh V res qname qtype) (sound_verdict res qname qtype)"
proof -
  let ?au = "res_authority res"
  let ?proof = "if res_rcode res = RcodeNameError then ProveNXDOMAIN L S ?au qname else ProveNODATA L S ?au qname qtype"
  obtain sets sigs where g: "groupBySet L (proofRecords ?au) = (sets, sigs)" by fastforce
  have "dproven ?au"
    if "trusts L S (re_SetOrder E) V (CanonicalName L (denial_zone L ?au)) keys" "sets \<noteq> []"
      "denial_sets L S V now sigs keys (visit E sets) = None" for keys now
  proof (rule denials_proven [OF V])
    have "set sets \<subseteq> set (visit E sets)" using visit_all [OF map_order group_distinct, of L "proofRecords ?au"] g by simp
    then show "denial_verified L S (re_SetOrder E) V ?au"
      using that denial_sets_None [OF that(3)] unfolding denial_verified_def g by auto blast
  qed
  then have final: "sound_verdict res qname qtype (case p of Some e \<Rightarrow> (StatusBogus, Some e) | None \<Rightarrow> (StatusSecure, None))"
    if "keys_ok L S (re_SetOrder E) V (\<lambda>s :: 'w rstate. re_Now E (rs_env s)) (CanonicalName L (denial_zone L ?au)) (keys, StatusSecure, None)"
      "denial_sets L S V now sigs keys (visit E sets) = None" "sets \<noteq> []" "p = ?proof" for keys now p
    using that keys_ok_trusts [OF that(1)] assms(2) by (auto simp: sound_verdict_def denies_def split: option.splits)
  have other: "sound_verdict res qname qtype (status, err)" if "reports (status, err)" "status \<noteq> StatusSecure" for status err
    using that by (simp add: sound_verdict_def)
  show ?thesis
    unfolding validateDenial_def Let_def g prod.case
    by (intro vok_if vok_ret vok_bind [OF vok_trusted] vok_prod vok_bind [OF vok_clock] vok_option)
      (auto intro!: final other dest: keys_ok_reports [OF state_anchored [OF V]] dest!: keys_ok_Secure)
qed

lemma vok_validateResult:
  assumes "ro_Validator O' = Some V"
  shows "vok a b (validateResult L S E O' refresh V res qname qtype) (sound_verdict res qname qtype)"
  using vok_validate [OF assms] vok_validateDenial [OF assms] by (simp add: validateResult_def)

section \<open>Serving a query\<close>

lemma ok_cacheValidatedDenial: "dproven (res_authority res) \<Longrightarrow> ok a b d c j k (cacheValidatedDenial L E q res)"
proof -
  assume p: "dproven (res_authority res)"
  have "set soa \<subseteq> set (res_authority res)" if "first_some soa_ttl (res_authority res) = Some (soa, ttl)" for soa ttl
    using first_some_SomeD [OF that] by (auto dest: soa_ttl_Some)
  then show ?thesis
    unfolding cacheValidatedDenial_def Let_def using p
    by (auto intro!: ok_ret ok_PutNegative split: option.splits)
qed

lemma ok_apply_verdict:
  assumes "sound_verdict res qname qtype (status, verr)"
  shows "ok a b d c j k (apply_verdict L E O' req q res status verr)"
proof -
  have w: "ok a b d c j k (\<lambda>s. case verr of None \<Rightarrow> None | Some e \<Rightarrow> Some (Inl (servfail L req (ExtendedError e) (re_SecText E e)), s))"
    if "verr \<noteq> None" using that by (auto simp: ok_def runs_def)
  show ?thesis
    unfolding apply_verdict_def Let_def
    by (cases status; (simp only: status.case)?;
        intro ok_bind ok_count ok_if ok_ret ok_PutValidated ok_NSECPut ok_now ok_cacheValidatedDenial w)
      (use assms in \<open>simp_all add: sound_verdict_def reports_def\<close>)
qed

lemma apply_verdict_Inr: "apply_verdict L E O' req q res status verr s = Some (Inr res', s') \<Longrightarrow>
    res' = res\<lparr>res_secure := status\<rparr> \<and> (status = StatusSecure \<or> status = StatusInsecure)"
  by (auto simp: apply_verdict_def Let_def bind_Some split: status.splits option.splits)

lemma apply_verdict_Inl: "apply_verdict L E O' req q res status verr s = Some (Inl m, s') \<Longrightarrow> \<exists>code text. m = servfail L req code text"
  by (auto simp: apply_verdict_def Let_def bind_Some split: status.splits option.splits)

lemma ok_failure: "ok a b d c j k (failure L E req e)"
  unfolding failure_def by (intro ok_bind ok_if ok_count ok_ret) simp

text \<open>What a result that already claims to be secure rests on.\<close>

definition claims :: "string \<Rightarrow> u16 \<Rightarrow> rerror + rresult \<Rightarrow> bool" where
  "claims qname qtype r \<longleftrightarrow> (\<forall>res. r = Inr res \<longrightarrow> res_secure res = StatusSecure \<longrightarrow>
     authentic L S proven dproven synth qname qtype (res_rcode res) (res_answer res) (res_authority res))"

text \<open>A cached entry is used only when there is no validator or it was validated, which a denial never is.\<close>

lemma entry_claims:
  assumes "e_Authenticated e \<longrightarrow> entry_proven proven dproven e" and "e_Kind e = KindNegative \<longrightarrow> \<not> e_Validated e"
    and "ro_Validator O' \<noteq> None \<longrightarrow> e_Validated e"
  shows "claims qname qtype (Inr (entry_result L e now))"
proof (cases "e_Authenticated e")
  case True
  show ?thesis
  proof (cases "e_Kind e")
    case KindAnswer
    with True assms have "proven (e_RRs e)" by (simp add: entry_proven_def)
    with KindAnswer RRsAt_aged(1) show ?thesis
      unfolding claims_def authentic_def by (auto simp: entry_result_def Let_def result0_def)
  next
    case KindNegative
    with True assms have False using proven_validator by (auto simp: entry_proven_def)
    then show ?thesis ..
  qed
qed (auto simp: claims_def entry_result_def Let_def split: kind.splits)

definition okp :: "int \<Rightarrow> int \<Rightarrow> int \<Rightarrow> int \<Rightarrow> ('w rstate, 'a) run \<Rightarrow> ('a \<Rightarrow> bool) \<Rightarrow> bool" where
  "okp a b d c m P \<longleftrightarrow> (\<forall>s. within a b d c 0 0 s \<longrightarrow> runs m s (\<lambda>r s'. within a b d c 0 0 s' \<and> P r))"

lemma okp_ok: "ok a b d c 0 0 m \<Longrightarrow> (\<And>s r s'. m s = Some (r, s') \<Longrightarrow> P r) \<Longrightarrow> okp a b d c m P"
  unfolding okp_def ok_def runs_def by blast

lemma okp_bind: "okp a b d c m Q \<Longrightarrow> (\<And>x. Q x \<Longrightarrow> okp a b d c (f x) P) \<Longrightarrow> okp a b d c (bind m f) P"
  unfolding okp_def runs_bind by (fastforce elim!: runs_mono)

lemma okp_ret: "P x \<Longrightarrow> okp a b d c (ret x) P"
  by (simp add: okp_def)

lemma okp_if: "(p \<Longrightarrow> okp a b d c m P) \<Longrightarrow> (\<not> p \<Longrightarrow> okp a b d c m' P) \<Longrightarrow> okp a b d c (if p then m else m') P"
  by simp

lemma okp_env: "(\<And>w. I w \<Longrightarrow> runs m w (\<lambda>r w'. (I w' \<and> sent w' = sent w) \<and> P r)) \<Longrightarrow> okp a b d c (env m) P"
proof (unfold okp_def runs_env, intro allI impI)
  fix s
  assume m: "\<And>w. I w \<Longrightarrow> runs m w (\<lambda>r w'. (I w' \<and> sent w' = sent w) \<and> P r)" and s: "within a b d c 0 0 s"
  then have "runs m (rs_env s) (\<lambda>r w'. (I w' \<and> sent w' = sent (rs_env s)) \<and> P r)" by (simp add: within_def)
  then show "runs m (rs_env s) (\<lambda>r w. within a b d c 0 0 (s\<lparr>rs_env := w\<rparr>) \<and> P r)"
    by (rule runs_mono) (use s in \<open>simp add: within_def\<close>)
qed

text \<open>The two lookups of \<open>resolve\<close> see the same entry.\<close>

definition got :: "centry option \<Rightarrow> bool" where
  "got e \<longleftrightarrow> (\<forall>x. e = Some x \<longrightarrow> (e_Authenticated x \<longrightarrow> entry_proven proven dproven x) \<and> (e_Kind x = KindNegative \<longrightarrow> \<not> e_Validated x))"

lemma okp_get_twice:
  assumes "\<And>e. got e \<Longrightarrow> okp a b d c (f e e) P"
  shows "okp a b d c (bind (env (re_Get E k)) (\<lambda>e1. bind (env (re_Get E k)) (f e1))) P"
  unfolding okp_def
proof (intro allI impI)
  fix s
  assume s: "within a b d c 0 0 s"
  then have i: "I (rs_env s)" by (simp add: within_def)
  from get_proven [OF i, of k] obtain e w1 where g: "re_Get E k (rs_env s) = Some (e, w1)" "I w1" "sent w1 = sent (rs_env s)" "got e"
    by (auto simp: runs_def got_def)
  from get_proven [OF g(2), of k] obtain e' w2 where h: "re_Get E k w1 = Some (e', w2)" "I w2" "sent w2 = sent w1" by (auto simp: runs_def)
  have "e' = e" using get_again [OF i g(1)] h(1) by simp
  have "within a b d c 0 0 (s\<lparr>rs_env := w2\<rparr>)" using s g h by (simp add: within_def)
  then have "runs (f e e) (s\<lparr>rs_env := w2\<rparr>) (\<lambda>r s'. within a b d c 0 0 s' \<and> P r)" using assms [OF g(4)] by (simp add: okp_def)
  then show "runs (bind (env (re_Get E k)) (\<lambda>e1. bind (env (re_Get E k)) (f e1))) s (\<lambda>r s'. within a b d c 0 0 s' \<and> P r)"
    unfolding runs_bind runs_env using g(1) h(1) \<open>e' = e\<close> by (simp add: runs_def)
qed

lemma okp_resolve:
  assumes "nat (ro_MaxCNAME O' - c) + nat (4 - d) < n"
  shows "okp a b d c (resolve L E O' refresh n q t) (claims q t)"
proof (cases n)
  case (Suc m)
  with assms have "nat (ro_MaxCNAME O' - c) + nat (4 - d) \<le> m" by simp
  from ok_walkFrom [OF ok_resolve this] have "ok a b d c 0 0 (walk L E O' (resolve L E O' refresh m) q t)" by (simp add: walk_def)
  then have w: "okp a b d c (walk L E O' (resolve L E O' refresh m) q t) (claims q t)"
    using plain_walk by (intro okp_ok) (auto simp: plain_def claims_def, fastforce)
  have syn: "claims q t (Inr ((result0 RcodeNameError)\<lparr>res_authority := au, res_secure := StatusSecure\<rparr>))" if "synth q au" for au
    using that by (simp add: claims_def authentic_def result0_def)
  let ?D = "\<lambda>x. \<forall>au. x = Some au \<longrightarrow> synth q au"
  have prove: "okp a b d c (if p then bind (now_run E) (\<lambda>now. env (re_ProveNXDOMAIN E q now)) else ret None) ?D" for p
    by (intro okp_if okp_bind [OF okp_ok [OF ok_now]] okp_env prove_synth okp_ret) simp_all
  have syn': "okp a b d c (bind (count (\<lambda>m. m\<lparr>rm_SynthesisedDenials := Suc (rm_SynthesisedDenials m)\<rparr>)) (\<lambda>_.
           ret (Inr ((result0 RcodeNameError)\<lparr>res_authority := au, res_secure := StatusSecure\<rparr>)))) (claims q t)" if "synth q au" for au
    by (intro okp_bind [OF okp_ok [OF ok_count]] okp_ret syn that) simp_all
  have cached: "okp a b d c (bind (now_run E) (\<lambda>now. ret (Inr (entry_result L (the e) now)))) (claims q t)"
    if "got e" "e \<noteq> None" "\<not> (case e of Some x \<Rightarrow> ro_Validator O' \<noteq> None \<and> \<not> e_Validated x | None \<Rightarrow> False)" for e
    using that by (intro okp_bind [OF okp_ok [OF ok_now]] okp_ret entry_claims) (auto simp: got_def)
  have rest: "okp a b d c (bind (if p then bind (now_run E) (\<lambda>now. env (re_ProveNXDOMAIN E q now)) else ret None) (\<lambda>d. case d of
         Some authority \<Rightarrow>
           bind (count (\<lambda>m. m\<lparr>rm_SynthesisedDenials := Suc (rm_SynthesisedDenials m)\<rparr>)) (\<lambda>_.
           ret (Inr ((result0 RcodeNameError)\<lparr>res_authority := authority, res_secure := StatusSecure\<rparr>)))
       | None \<Rightarrow> walk L E O' (resolve L E O' refresh m) q t)) (claims q t)" for p
    by (rule okp_bind [OF prove]) (auto intro!: syn' w split: option.split)
  show ?thesis
    unfolding Suc resolve.simps resolve_body_def Let_def
    by (rule okp_bind [OF okp_ok [OF ok_get]], rule TrueI, rule okp_get_twice, rule okp_if, rule cached, assumption, simp, simp, rule rest)
qed (use assms in simp)

text \<open>The response to a query from a fresh budget: it comes, within the budget, and its AD bit is justified.\<close>

definition sound_reply :: "string \<Rightarrow> u16 \<Rightarrow> dmsg \<Rightarrow> bool" where
  "sound_reply qname qtype m \<longleftrightarrow> (m_AuthenticatedData m \<longrightarrow> authentic L S proven dproven synth qname qtype (m_Rcode m) (m_Answer m) (m_Ns m))"

lemma sound_plain [simp]: "sound_reply n t (reply L m rc)" "sound_reply n t (servfail L m code text)"
  by (simp_all add: sound_reply_def reply_def servfail_def Let_def)

lemma sound_answer: "claims n t (Inr res) \<Longrightarrow> sound_reply n t (answer_msg L m res)"
  by (simp add: sound_reply_def answer_msg_def claims_def)

lemma vok_on_state': "okp a b 0 0 m P \<Longrightarrow> vok a b (on_state m) P"
  by (fastforce simp: vok_def okp_def on_state_def runs_def)

lemma vok_verdict:
  assumes "claims qname qtype (Inr res)"
  shows "vok a b (if ro_Validator O' \<noteq> None \<and> res_secure res = StatusIndeterminate
                     then bind (validateResult L S E O' refresh (the (ro_Validator O')) res qname qtype) (\<lambda>(status, verr).
                          on_state (apply_verdict L E O' req q res status verr))
                     else ret (Inr res)) (\<lambda>v. case v of Inl m \<Rightarrow> sound_reply qname qtype m | Inr res' \<Rightarrow> claims qname qtype (Inr res'))"
proof (cases "ro_Validator O'")
  case (Some V)
  have "okp a b 0 0 (apply_verdict L E O' req q res status verr) (\<lambda>v. case v of Inl m \<Rightarrow> sound_reply qname qtype m | Inr res' \<Rightarrow> claims qname qtype (Inr res'))"
    if "sound_verdict res qname qtype (status, verr)" for status verr
  proof (rule okp_ok [OF ok_apply_verdict [OF that]])
    fix s r s'
    assume r: "apply_verdict L E O' req q res status verr s = Some (r, s')"
    show "case r of Inl m \<Rightarrow> sound_reply qname qtype m | Inr res' \<Rightarrow> claims qname qtype (Inr res')"
    proof (cases r)
      case (Inl m)
      with r apply_verdict_Inl show ?thesis by fastforce
    next
      case (Inr res')
      with apply_verdict_Inr r have "res' = res\<lparr>res_secure := status\<rparr>" by blast
      with Inr that show ?thesis by (auto simp: sound_verdict_def claims_def authentic_def split: if_splits)
    qed
  qed
  with Some assms show ?thesis
    by (auto intro!: vok_if vok_ret vok_bind [OF vok_validateResult [OF Some]] vok_on_state')
qed (simp add: assms vok_ret)

lemma serve_sound:
  assumes "I (rs_env s)" "m_Question (rq_Msg req) \<noteq> []"
  shows "runs (rec_ServeDNS L S E O' refresh req) (inh, s) (\<lambda>m (inh', s').
      sound_reply (CanonicalName L (q_Name (hd (m_Question (rq_Msg req))))) (q_Qtype (hd (m_Question (rq_Msg req)))) m \<and> I (rs_env s') \<and> int (rm_OutboundQueries (rs_m s')) \<le> int (rm_OutboundQueries (rs_m s)) + ro_MaxOutbound O'
      \<and> int (sent (rs_env s')) \<le> int (sent (rs_env s)) + 3 * ro_MaxOutbound O')"
proof -
  obtain q qs where q: "m_Question (rq_Msg req) = q # qs" using assms(2) by (cases "m_Question (rq_Msg req)") auto
  let ?a = "int (rm_OutboundQueries (rs_m s))" and ?b = "int (sent (rs_env s)) - 3 * int (rm_OutboundQueries (rs_m s))"
  let ?s = "s\<lparr>rs_q := \<lparr>qs_outbound = 0, qs_cnames = 0, qs_nsDepth = 0, qs_maxOutTrip = ro_MaxOutbound O'\<rparr>\<rparr>"
  define body where "body = bind (on_state (resolve L E O' refresh (query_fuel O') (CanonicalName L (q_Name q)) (q_Qtype q))) (\<lambda>r. case r of
             Inl e \<Rightarrow> on_state (failure L E (rq_Msg req) e)
           | Inr res \<Rightarrow>
               bind (on_state (get_run (\<lambda>s. qs_outbound (rs_q s)))) (\<lambda>outbound.
               bind (if outbound = 0 \<and> \<not> rq_Internal req
                     then on_state (count (\<lambda>m. m\<lparr>rm_AnsweredFromCache := Suc (rm_AnsweredFromCache m)\<rparr>)) else ret ()) (\<lambda>_.
               bind (if ro_Validator O' \<noteq> None \<and> res_secure res = StatusIndeterminate
                     then bind (validateResult L S E O' refresh (the (ro_Validator O')) res (CanonicalName L (q_Name q)) (q_Qtype q)) (\<lambda>(status, verr).
                          on_state (apply_verdict L E O' (rq_Msg req) q res status verr))
                     else ret (Inr res)) (\<lambda>v. case v of
                 Inl m \<Rightarrow> ret m
               | Inr res' \<Rightarrow> ret (answer_msg L (rq_Msg req) res')))))"
  let ?n = "CanonicalName L (q_Name q)" and ?t = "q_Qtype q"
  have fuel: "okp ?a ?b 0 0 (resolve L E O' refresh (query_fuel O') n t) (claims n t)" for n t
    by (rule okp_resolve) (simp add: query_fuel_def)
  have fail: "vok ?a ?b (on_state (failure L E (rq_Msg req) e)) (sound_reply ?n ?t)" for e
    by (rule vok_on_state' [OF okp_ok [OF ok_failure]]) (auto simp: failure_def bind_Some)
  have counted: "vok ?a ?b (if p then on_state (count (\<lambda>m. m\<lparr>rm_AnsweredFromCache := Suc (rm_AnsweredFromCache m)\<rparr>)) else ret ()) (\<lambda>_. True)" for p
    by (intro vok_if vok_on_state ok_count vok_ret) simp_all
  have "vok ?a ?b body (sound_reply ?n ?t)"
    unfolding body_def
    by (intro vok_bind [OF vok_on_state' [OF fuel]] vok_sum fail vok_bind [OF vok_on_state [OF ok_get]] vok_bind [OF counted]
        vok_bind [OF vok_verdict] vok_ret sound_answer) simp_all
  moreover have "spent ?a ?b ?s" using assms(1) budget_nonneg by (simp add: within_def)
  ultimately have "runs body (inh, ?s) (\<lambda>r s'. spent ?a ?b (snd s') \<and> sound_reply ?n ?t r)" by (simp add: vok_def)
  then have "runs body (inh, ?s) (\<lambda>m (inh', s').
      sound_reply ?n ?t m \<and> I (rs_env s') \<and> int (rm_OutboundQueries (rs_m s')) \<le> int (rm_OutboundQueries (rs_m s)) + ro_MaxOutbound O'
      \<and> int (sent (rs_env s')) \<le> int (sent (rs_env s)) + 3 * ro_MaxOutbound O')"
    by (rule runs_mono) (auto simp: within_def)
  moreover have "runs (bind (on_state (start_query O')) (\<lambda>_. body)) (inh, s) Q \<longleftrightarrow> runs body (inh, ?s) Q" for Q
    by (simp add: runs_def bind_def on_state_def start_query_def modify_run_def)
  moreover have "rec_ServeDNS L S E O' refresh req = (if q_Qclass q \<noteq> ClassINET then ret (reply L (rq_Msg req) RcodeRefused)
         else if q_Qtype q \<in> {TypeAXFR, TypeIXFR, TypeOPT} then ret (reply L (rq_Msg req) RcodeRefused)
         else bind (on_state (start_query O')) (\<lambda>_. body))"
    unfolding rec_ServeDNS_def q body_def list.case by (rule refl)
  ultimately show ?thesis using assms(1) budget_nonneg q by simp
qed

lemmas serve_authentic = serve_sound [unfolded sound_reply_def]

end

end
