(* ===== verification/Aggressive.thy ===== *)
theory Aggressive
  imports Dnssec_Denial "HOL-Library.Finite_Map"
begin

text \<open>
  \<open>internal/aggressive\<close> (\<open>aggressive.go\<close>, \<open>nsec3.go\<close>): the store of validated NSEC and NSEC3 records that answers
  for names inside the gaps they prove. A stored NSEC is its header, next name and
  type map. The zones are a finite map; the counters are part of the state. \<open>sort.Slice\<close> promises an
  ordered permutation and no order among equal owners, so it is an argument \<open>srt\<close>; \<open>sort.Search\<close>
  is the bisection of the standard library. The loops that walk up the labels of a name get the length of the
  name as fuel, and \<open>None\<close> is a loop that did not end; it is proved not to happen.

  After the definitions: what the store holds stays within its limits and its gauges agree with it; a synthesised denial is
  sound for honest zones; its records' TTL is within the life of the proof. Two shortcomings are proved as such: the root
  zone is never consulted, and replacing a record by its next name loses the order bisection needs.
\<close>

section \<open>State\<close>

record nrecord =
  nr_hdr :: rr_header
  nr_next :: string
  nr_types :: "u16 list"
  nr_rrs :: "rr list"
  nr_expiry :: gtime

record n3record =
  n3r_hdr :: rr_header
  n3r_nsec3 :: nsec3
  n3r_rrs :: "rr list"
  n3r_expiry :: gtime

record azone =
  az_records :: "nrecord list"
  az_nsec3 :: "n3record list"
  az_soa :: "rr list"

record ametrics =
  am_Stored :: nat
  am_Synthesised :: nat
  am_Misses :: nat
  am_Zones :: int
  am_Records :: int

record aoptions =
  ao_MaxZones :: int
  ao_MaxRecordsPerZone :: int

record astore =
  as_opts :: aoptions
  as_zones :: "(string, azone) fmap"
  as_m :: ametrics

definition agg_New :: "aoptions \<Rightarrow> astore" where
  "agg_New o0 =
     (let o1 = (if ao_MaxZones o0 \<le> 0 then o0\<lparr>ao_MaxZones := 10000\<rparr> else o0);
          o2 = (if ao_MaxRecordsPerZone o1 \<le> 0 then o1\<lparr>ao_MaxRecordsPerZone := 512\<rparr> else o1)
      in \<lparr>as_opts = o2, as_zones = fmempty,
          as_m = \<lparr>am_Stored = 0, am_Synthesised = 0, am_Misses = 0, am_Zones = 0, am_Records = 0\<rparr>\<rparr>)"

definition add_miss :: "astore \<Rightarrow> astore" where
  "add_miss s = s\<lparr>as_m := (as_m s)\<lparr>am_Misses := Suc (am_Misses (as_m s))\<rparr>\<rparr>"

definition add_synth :: "astore \<Rightarrow> astore" where
  "add_synth s = s\<lparr>as_m := (as_m s)\<lparr>am_Synthesised := Suc (am_Synthesised (as_m s))\<rparr>\<rparr>"

definition add_stored :: "astore \<Rightarrow> astore" where
  "add_stored s = s\<lparr>as_m := (as_m s)\<lparr>am_Stored := Suc (am_Stored (as_m s)), am_Records := am_Records (as_m s) + 1\<rparr>\<rparr>"

section \<open>Filing a denial\<close>

definition recordsFor :: "dnslib \<Rightarrow> rr list \<Rightarrow> string \<Rightarrow> u16 \<Rightarrow> rr list" where
  "recordsFor L rrs name rtype = filter (\<lambda>r. case rr_data r of
       RRRSIG sig \<Rightarrow> sig_TypeCovered sig = rtype \<and> CanonicalName L (rh_Name (rr_hdr r)) = name
     | _ \<Rightarrow> rh_Rrtype (rr_hdr r) = rtype \<and> CanonicalName L (rh_Name (rr_hdr r)) = name) rrs"

text \<open>The locked look-up both \<open>put\<close>s start with; \<open>None\<close> when a new zone would be one too many.\<close>

definition zone_for :: "string \<Rightarrow> astore \<Rightarrow> (azone \<times> astore) option" where
  "zone_for apex s = (case fmlookup (as_zones s) apex of
       Some z \<Rightarrow> Some (z, s)
     | None \<Rightarrow>
         if int (fcard (fmdom (as_zones s))) \<ge> ao_MaxZones (as_opts s) then None
         else let z = \<lparr>az_records = [], az_nsec3 = [], az_soa = []\<rparr> in
           Some (z, s\<lparr>as_zones := fmupd apex z (as_zones s), as_m := (as_m s)\<lparr>am_Zones := am_Zones (as_m s) + 1\<rparr>\<rparr>))"

definition set_zone :: "string \<Rightarrow> azone \<Rightarrow> astore \<Rightarrow> astore" where
  "set_zone apex z s = s\<lparr>as_zones := fmupd apex z (as_zones s)\<rparr>"

definition with_soa :: "rr list \<Rightarrow> azone \<Rightarrow> azone" where
  "with_soa soa z = (if length soa > 0 then z\<lparr>az_soa := soa\<rparr> else z)"

definition index_of :: "('a \<Rightarrow> bool) \<Rightarrow> 'a list \<Rightarrow> nat option" where
  "index_of P xs = find (\<lambda>i. P (xs ! i)) [0..<length xs]"

type_synonym slice_sort = "(nrecord \<Rightarrow> nrecord \<Rightarrow> bool) \<Rightarrow> nrecord list \<Rightarrow> nrecord list"

definition owner_less :: "dnslib \<Rightarrow> seclib \<Rightarrow> nrecord \<Rightarrow> nrecord \<Rightarrow> bool" where
  "owner_less L S a b = (CanonicalCompare L S (CanonicalName L (rh_Name (nr_hdr a))) (CanonicalName L (rh_Name (nr_hdr b))) < 0)"

definition agg_put :: "dnslib \<Rightarrow> seclib \<Rightarrow> slice_sort \<Rightarrow> string \<Rightarrow> nrecord \<Rightarrow> rr list \<Rightarrow> astore \<Rightarrow> astore" where
  "agg_put L S srt apex r soa s0 = (case zone_for apex s0 of
       None \<Rightarrow> s0
     | Some (z0, s) \<Rightarrow>
         let z = with_soa soa z0 in
         case index_of (\<lambda>x. nr_next x = nr_next r) (az_records z) of
           Some i \<Rightarrow> set_zone apex (z\<lparr>az_records := (az_records z)[i := r]\<rparr>) s
         | None \<Rightarrow>
             if int (length (az_records z)) \<ge> ao_MaxRecordsPerZone (as_opts s) then set_zone apex z s
             else add_stored (set_zone apex (z\<lparr>az_records := srt (owner_less L S) (az_records z @ [r])\<rparr>) s))"

definition optOut :: "nsec3 \<Rightarrow> bool" where
  "optOut n = (n3_Flags n AND 1 = 1)"

definition agg_usable :: "nsec3 \<Rightarrow> bool" where
  "agg_usable n = (n3_Hash n = SHA1 \<and> n3_Iterations n \<le> 100)"

definition putNSEC3 :: "dnslib \<Rightarrow> string \<Rightarrow> n3record \<Rightarrow> rr list \<Rightarrow> astore \<Rightarrow> astore" where
  "putNSEC3 L apex r soa s0 =
     (if \<not> agg_usable (n3r_nsec3 r) then s0
      else case zone_for apex s0 of
       None \<Rightarrow> s0
     | Some (z0, s) \<Rightarrow>
         let z = with_soa soa z0; owner = CanonicalName L (rh_Name (n3r_hdr r)) in
         case index_of (\<lambda>x. CanonicalName L (rh_Name (n3r_hdr x)) = owner) (az_nsec3 z) of
           Some i \<Rightarrow> set_zone apex (z\<lparr>az_nsec3 := (az_nsec3 z)[i := r]\<rparr>) s
         | None \<Rightarrow>
             if int (length (az_nsec3 z)) \<ge> ao_MaxRecordsPerZone (as_opts s) then set_zone apex z s
             else add_stored (set_zone apex (z\<lparr>az_nsec3 := az_nsec3 z @ [r]\<rparr>) s))"

definition soa_apex :: "dnslib \<Rightarrow> rr list \<Rightarrow> string" where
  "soa_apex L denial = (case first_some (\<lambda>r. case rr_data r of
       RSOA _ _ _ \<Rightarrow> Some (CanonicalName L (rh_Name (rr_hdr r))) | _ \<Rightarrow> None) denial of Some a \<Rightarrow> a | None \<Rightarrow> [])"

definition put_one :: "dnslib \<Rightarrow> seclib \<Rightarrow> slice_sort \<Rightarrow> string \<Rightarrow> rr list \<Rightarrow> gtime \<Rightarrow> astore \<Rightarrow> rr \<Rightarrow> astore" where
  "put_one L S srt apex denial now s r =
     (let owner = CanonicalName L (rh_Name (rr_hdr r));
          ttl = uint (rh_Ttl (rr_hdr r)) * second;
          soa = recordsFor L denial apex TypeSOA
      in case rr_data r of
           RNSEC3 n \<Rightarrow>
             if ttl \<le> 0 \<or> \<not> IsSubDomain L apex owner then s
             else putNSEC3 L apex \<lparr>n3r_hdr = rr_hdr r, n3r_nsec3 = n, n3r_rrs = recordsFor L denial owner TypeNSEC3,
                    n3r_expiry = now + ttl\<rparr> soa s
         | RNSEC nxt bm \<Rightarrow>
             if ttl \<le> 0 then s
             else if \<not> IsSubDomain L apex owner then s
             else agg_put L S srt apex \<lparr>nr_hdr = rr_hdr r, nr_next = nxt, nr_types = bm, nr_rrs = recordsFor L denial owner TypeNSEC,
                    nr_expiry = now + ttl\<rparr> soa s
         | _ \<Rightarrow> s)"

definition agg_Put :: "dnslib \<Rightarrow> seclib \<Rightarrow> slice_sort \<Rightarrow> rr list \<Rightarrow> gtime \<Rightarrow> astore \<Rightarrow> astore" where
  "agg_Put L S srt denial now s =
     (let apex = soa_apex L denial in
      if apex = [] then s else foldl (put_one L S srt apex denial now) s denial)"

section \<open>Answering from the store\<close>

text \<open>\<open>sort.Search\<close>: the least index at which an ascending predicate holds, by bisection.\<close>

function bisect :: "(nat \<Rightarrow> bool) \<Rightarrow> nat \<Rightarrow> nat \<Rightarrow> nat" where
  "bisect f i j = (if i < j then let h = (i + j) div 2 in if \<not> f h then bisect f (h + 1) j else bisect f i h else i)"
  by pat_completeness auto
termination by (relation "measure (\<lambda>(f, i, j). j - i)") auto

declare bisect.simps [simp del]

definition zone_covering :: "dnslib \<Rightarrow> seclib \<Rightarrow> azone \<Rightarrow> string \<Rightarrow> gtime \<Rightarrow> nrecord option" where
  "zone_covering L S z name now =
     (let rs = az_records z in
      if length rs = 0 then None
      else let i = bisect (\<lambda>i. CanonicalCompare L S (CanonicalName L (rh_Name (nr_hdr (rs ! i)))) name \<ge> 0) 0 (length rs) in
        first_some (\<lambda>c :: int.
          if c < 0 \<or> c \<ge> int (length rs) then None
          else let r = rs ! nat c in
            if \<not> now < nr_expiry r then None
            else if NSECCovers L S (nr_hdr r) (nr_next r) name then Some r else None)
          [int i - 1, int (length rs) - 1])"

text \<open>The loop over a name and its ancestors: the body looks into one zone.\<close>

fun walk_up :: "dnslib \<Rightarrow> nat \<Rightarrow> (string \<Rightarrow> 'a option) \<Rightarrow> string \<Rightarrow> 'a option option" where
  "walk_up L 0 f suf = None"
| "walk_up L (Suc n) f suf =
     (if suf = [] then Some None
      else case f suf of
        Some x \<Rightarrow> Some (Some x)
      | None \<Rightarrow>
          if suf = ''.'' then Some None
          else let (i, fin) = NextLabel L suf 0 in if fin then Some None else walk_up L n f (drop i suf))"

definition covering :: "dnslib \<Rightarrow> seclib \<Rightarrow> astore \<Rightarrow> string \<Rightarrow> gtime \<Rightarrow> (nrecord \<times> azone) option option" where
  "covering L S s name now = walk_up L (length name + 1) (\<lambda>suf. case fmlookup (as_zones s) suf of
       None \<Rightarrow> None
     | Some z \<Rightarrow> map_option (\<lambda>r. (r, z)) (zone_covering L S z name now)) name"

record denial =
  dn_Authority :: "rr list"
  dn_TTL :: duration

definition set_ttl :: "dnslib \<Rightarrow> u32 \<Rightarrow> rr \<Rightarrow> rr" where
  "set_ttl L secs r = (let c = Copy L r in c\<lparr>rr_hdr := (rr_hdr c)\<lparr>rh_Ttl := secs\<rparr>\<rparr>)"

definition agg_withTTL :: "dnslib \<Rightarrow> rr list \<Rightarrow> duration \<Rightarrow> rr list" where
  "agg_withTTL L rrs ttl =
     (let s0 = (word_of_int (ttl div second) :: u32); secs = (if s0 = 0 then 1 else s0) in map (set_ttl L secs) rrs)"

definition matching :: "seclib \<Rightarrow> azone \<Rightarrow> string \<Rightarrow> gtime \<Rightarrow> n3record option" where
  "matching S z name now = find (\<lambda>r. now < n3r_expiry r \<and> NSEC3Match S (n3r_hdr r) (n3r_nsec3 r) name) (az_nsec3 z)"

definition coveringN3 :: "seclib \<Rightarrow> azone \<Rightarrow> string \<Rightarrow> gtime \<Rightarrow> n3record option" where
  "coveringN3 S z name now = find (\<lambda>r. now < n3r_expiry r \<and> \<not> optOut (n3r_nsec3 r)
     \<and> NSEC3Cover S (n3r_hdr r) (n3r_nsec3 r) name) (az_nsec3 z)"

definition sameOwner :: "dnslib \<Rightarrow> rr list \<Rightarrow> rr list \<Rightarrow> bool" where
  "sameOwner L a b = (a \<noteq> [] \<and> b \<noteq> [] \<and> CanonicalName L (rh_Name (rr_hdr (hd a))) = CanonicalName L (rh_Name (rr_hdr (hd b))))"

text \<open>The search for the closest encloser: the ancestor with a matching record and the name below it on the way.
  The outer \<open>None\<close> is a loop that does not end, the inner one an early return.\<close>

fun closest_loop :: "dnslib \<Rightarrow> seclib \<Rightarrow> nat \<Rightarrow> azone \<Rightarrow> string \<Rightarrow> gtime \<Rightarrow> string \<Rightarrow> string \<Rightarrow> (string \<times> string) option option" where
  "closest_loop L S 0 z apex now nextCloser suf = None"
| "closest_loop L S (Suc n) z apex now nextCloser suf =
     (if matching S z suf now \<noteq> None then Some (Some (suf, nextCloser))
      else if suf = apex \<or> suf = ''.'' then Some None
      else let (i, fin) = NextLabel L suf 0 in
        if fin then Some None else closest_loop L S n z apex now suf (drop i suf))"

definition n3_denial :: "dnslib \<Rightarrow> seclib \<Rightarrow> azone \<Rightarrow> string \<Rightarrow> gtime \<Rightarrow> string \<Rightarrow> string \<Rightarrow> denial option" where
  "n3_denial L S z name now closest nextCloser =
     (if closest = name \<or> nextCloser = [] then None
      else case coveringN3 S z nextCloser now of None \<Rightarrow> None | Some nc \<Rightarrow>
      let wildcard = ''*.'' @ closest in
      if matching S z wildcard now \<noteq> None then None
      else case coveringN3 S z wildcard now of None \<Rightarrow> None | Some wc \<Rightarrow>
      let ce = the (matching S z closest now);
          e1 = (if n3r_expiry nc < n3r_expiry ce then n3r_expiry nc else n3r_expiry ce);
          e2 = (if n3r_expiry wc < e1 then n3r_expiry wc else e1);
          ttl = time_Sub e2 now
      in if ttl \<le> 0 then None
         else if length (az_soa z) = 0 then None
         else let authority = az_soa z @ n3r_rrs ce @ n3r_rrs nc @
                (if \<not> sameOwner L (n3r_rrs wc) (n3r_rrs ce) \<and> \<not> sameOwner L (n3r_rrs wc) (n3r_rrs nc) then n3r_rrs wc else [])
              in Some \<lparr>dn_Authority = agg_withTTL L authority ttl, dn_TTL = ttl\<rparr>)"

definition proveNSEC3 :: "dnslib \<Rightarrow> seclib \<Rightarrow> azone \<Rightarrow> string \<Rightarrow> string \<Rightarrow> gtime \<Rightarrow> denial option option" where
  "proveNSEC3 L S z apex name now =
     (if length (az_nsec3 z) = 0 then Some None
      else case closest_loop L S (length name + 1) z apex now [] name of
        None \<Rightarrow> None
      | Some None \<Rightarrow> Some None
      | Some (Some (closest, nextCloser)) \<Rightarrow> Some (n3_denial L S z name now closest nextCloser))"

text \<open>The body of the loop of \<open>proveNSEC3ForName\<close>, in the zone \<open>suf\<close>. It may itself not end, \<open>Some None\<close>, which ends the walk as well.\<close>

definition n3_look :: "dnslib \<Rightarrow> seclib \<Rightarrow> astore \<Rightarrow> string \<Rightarrow> gtime \<Rightarrow> string \<Rightarrow> denial option option" where
  "n3_look L S s name now suf = (case fmlookup (as_zones s) suf of
       None \<Rightarrow> None
     | Some z \<Rightarrow> (case proveNSEC3 L S z suf name now of
           None \<Rightarrow> Some None
         | Some None \<Rightarrow> None
         | Some (Some d) \<Rightarrow> Some (Some d)))"

definition proveNSEC3ForName :: "dnslib \<Rightarrow> seclib \<Rightarrow> astore \<Rightarrow> string \<Rightarrow> gtime \<Rightarrow> denial option option" where
  "proveNSEC3ForName L S s name now =
     (case walk_up L (length name + 1) (n3_look L S s name now) name of
       None \<Rightarrow> None
     | Some None \<Rightarrow> Some None
     | Some (Some None) \<Rightarrow> None
     | Some (Some (Some d)) \<Rightarrow> Some (Some d))"

definition nsec_rr :: "nrecord \<Rightarrow> rr" where
  "nsec_rr r = \<lparr>rr_hdr = nr_hdr r, rr_data = RNSEC (nr_next r) (nr_types r)\<rparr>"

text \<open>The end of \<open>ProveNXDOMAIN\<close>, from the records of the proof on.\<close>

definition nsec_denial :: "dnslib \<Rightarrow> seclib \<Rightarrow> string \<Rightarrow> gtime \<Rightarrow> azone \<Rightarrow> nrecord \<Rightarrow> nrecord option \<Rightarrow> denial option" where
  "nsec_denial L S name now z cov wc =
     (let nsecs = nsec_rr cov # (case wc of Some w \<Rightarrow> [nsec_rr w] | None \<Rightarrow> []);
          authority = nr_rrs cov @ (case wc of Some w \<Rightarrow> nr_rrs w | None \<Rightarrow> []);
          shortest = (case wc of Some w \<Rightarrow> if nr_expiry w < nr_expiry cov then nr_expiry w else nr_expiry cov | None \<Rightarrow> nr_expiry cov);
          ttl = time_Sub shortest now
      in if ProveNXDOMAIN L S nsecs name \<noteq> None then None
         else if ttl \<le> 0 then None
         else if length (az_soa z) = 0 then None
         else Some \<lparr>dn_Authority = agg_withTTL L (az_soa z @ authority) ttl, dn_TTL = ttl\<rparr>)"

definition agg_result :: "denial option \<Rightarrow> astore \<Rightarrow> denial option \<times> astore" where
  "agg_result d s = (case d of Some d \<Rightarrow> (Some d, add_synth s) | None \<Rightarrow> (None, add_miss s))"

definition agg_ProveNXDOMAIN :: "dnslib \<Rightarrow> seclib \<Rightarrow> string \<Rightarrow> gtime \<Rightarrow> astore \<Rightarrow> (denial option \<times> astore) option" where
  "agg_ProveNXDOMAIN L S name0 now s =
     (let name = CanonicalName L name0 in
      case covering L S s name now of
        None \<Rightarrow> None
      | Some None \<Rightarrow> map_option (\<lambda>d. agg_result d s) (proveNSEC3ForName L S s name now)
      | Some (Some (cov, z)) \<Rightarrow>
          let wildcard = WildcardOf L name in
          if NSECCovers L S (nr_hdr cov) (nr_next cov) wildcard
          then Some (agg_result (nsec_denial L S name now z cov None) s)
          else (case covering L S s wildcard now of
              None \<Rightarrow> None
            | Some None \<Rightarrow> Some (None, add_miss s)
            | Some (Some (wc, _)) \<Rightarrow> Some (agg_result (nsec_denial L S name now z cov (Some wc)) s)))"

section \<open>Housekeeping\<close>

definition sweep_zone :: "gtime \<Rightarrow> azone \<Rightarrow> azone" where
  "sweep_zone now z = z\<lparr>az_records := filter (\<lambda>r. now < nr_expiry r) (az_records z),
     az_nsec3 := filter (\<lambda>r. now < n3r_expiry r) (az_nsec3 z)\<rparr>"

definition zone_size :: "azone \<Rightarrow> nat" where
  "zone_size z = length (az_records z) + length (az_nsec3 z)"

definition agg_Len :: "astore \<Rightarrow> nat" where
  "agg_Len s = (\<Sum>k \<in> fset (fmdom (as_zones s)). zone_size (the (fmlookup (as_zones s) k)))"

definition agg_Sweep :: "gtime \<Rightarrow> astore \<Rightarrow> nat \<times> astore" where
  "agg_Sweep now s =
     (let swept = fmmap (sweep_zone now) (as_zones s);
          removed = (\<Sum>k \<in> fset (fmdom (as_zones s)).
            let z = the (fmlookup (as_zones s) k) in zone_size z - zone_size (sweep_zone now z));
          zones' = fmfilter (\<lambda>k. zone_size (the (fmlookup swept k)) \<noteq> 0) swept
      in (removed, s\<lparr>as_zones := zones', as_m := (as_m s)\<lparr>
            am_Zones := am_Zones (as_m s) - int (fcard (fmdom swept) - fcard (fmdom zones')),
            am_Records := am_Records (as_m s) - int removed\<rparr>\<rparr>))"


section \<open>The limits\<close>

definition keeps_records :: "slice_sort \<Rightarrow> bool" where
  "keeps_records srt \<longleftrightarrow> (\<forall>less xs. set (srt less xs) = set xs \<and> length (srt less xs) = length xs)"

definition agg_ok :: "astore \<Rightarrow> bool" where
  "agg_ok s \<longleftrightarrow> int (fcard (fmdom (as_zones s))) \<le> ao_MaxZones (as_opts s)
     \<and> (\<forall>k z. fmlookup (as_zones s) k = Some z \<longrightarrow> int (length (az_records z)) \<le> ao_MaxRecordsPerZone (as_opts s)
          \<and> int (length (az_nsec3 z)) \<le> ao_MaxRecordsPerZone (as_opts s))
     \<and> 0 < ao_MaxRecordsPerZone (as_opts s)
     \<and> am_Zones (as_m s) = int (fcard (fmdom (as_zones s))) \<and> am_Records (as_m s) = int (agg_Len s)"

lemma agg_ok_New: "agg_ok (agg_New o0)"
  by (simp add: agg_ok_def agg_New_def agg_Len_def Let_def fcard_fempty)

lemma Len_counts [simp]: "agg_Len (s\<lparr>as_m := m\<rparr>) = agg_Len s"
  by (simp add: agg_Len_def)

lemma agg_ok_counts [simp]: "agg_ok (add_miss s) = agg_ok s" "agg_ok (add_synth s) = agg_ok s"
  by (simp_all add: agg_ok_def add_miss_def add_synth_def)

lemma Len_set_zone: "fmlookup (as_zones s) apex = Some z0 \<Longrightarrow> agg_Len (set_zone apex z s) + zone_size z0 = agg_Len s + zone_size z"
proof -
  assume z0: "fmlookup (as_zones s) apex = Some z0"
  let ?D = "fset (fmdom (as_zones s))"
  have a: "apex \<in> ?D" using z0 by (simp add: fmdomI)
  have "(\<Sum>k \<in> ?D - {apex}. zone_size (the (fmlookup (fmupd apex z (as_zones s)) k))) = (\<Sum>k \<in> ?D - {apex}. zone_size (the (fmlookup (as_zones s) k)))"
    by (rule sum.cong) auto
  then show ?thesis
    using a z0 by (simp add: agg_Len_def set_zone_def insert_absorb sum.remove [of ?D apex])
qed

lemma fcard_upd_old: "fmlookup m k = Some v \<Longrightarrow> fcard (fmdom (fmupd k w m)) = fcard (fmdom m)"
  by (metis fmdomI fmdom_fmupd finsert_absorb)

lemma zone_for_ok:
  assumes "agg_ok s" "zone_for apex s = Some (z, s')"
  shows "agg_ok s' \<and> fmlookup (as_zones s') apex = Some z \<and> as_opts s' = as_opts s"
proof (cases "fmlookup (as_zones s) apex")
  case None
  let ?z = "\<lparr>az_records = [], az_nsec3 = [], az_soa = []\<rparr>"
  have n: "apex |\<notin>| fmdom (as_zones s)" using None by (simp add: fmdom_notI)
  have "(\<Sum>k \<in> fset (fmdom (as_zones s)). zone_size (the (fmlookup (fmupd apex ?z (as_zones s)) k))) = agg_Len s"
    unfolding agg_Len_def by (rule sum.cong) (use n in auto)
  then have "agg_Len s' = agg_Len s" if "as_zones s' = fmupd apex ?z (as_zones s)"
    using that n by (simp add: agg_Len_def zone_size_def)
  with assms None n show ?thesis
    by (auto simp: zone_for_def agg_ok_def Let_def fcard_finsert_disjoint split: if_splits)
qed (use assms in \<open>auto simp: zone_for_def\<close>)

text \<open>A zone rewritten with as many more records as the gauge counts.\<close>

lemma set_zone_ok:
  assumes "agg_ok s" "fmlookup (as_zones s) apex = Some z0" "zone_size z = zone_size z0"
    and "int (length (az_records z)) \<le> ao_MaxRecordsPerZone (as_opts s)" "int (length (az_nsec3 z)) \<le> ao_MaxRecordsPerZone (as_opts s)"
  shows "agg_ok (set_zone apex z s)"
  using assms Len_set_zone [OF assms(2), of z] fcard_upd_old [OF assms(2), of z]
  by (auto simp: agg_ok_def set_zone_def split: if_splits)

lemma add_stored_ok:
  assumes "agg_ok s" "fmlookup (as_zones s) apex = Some z0" "zone_size z = Suc (zone_size z0)"
    and "int (length (az_records z)) \<le> ao_MaxRecordsPerZone (as_opts s)" "int (length (az_nsec3 z)) \<le> ao_MaxRecordsPerZone (as_opts s)"
  shows "agg_ok (add_stored (set_zone apex z s))"
  using assms Len_set_zone [OF assms(2), of z] fcard_upd_old [OF assms(2), of z]
  by (auto simp: agg_ok_def set_zone_def add_stored_def split: if_splits)

lemma with_soa_simps [simp]: "az_records (with_soa soa z) = az_records z" "az_nsec3 (with_soa soa z) = az_nsec3 z"
  by (simp_all add: with_soa_def)

lemma zone_limits: "agg_ok s \<Longrightarrow> fmlookup (as_zones s) k = Some z \<Longrightarrow>
    int (length (az_records z)) \<le> ao_MaxRecordsPerZone (as_opts s) \<and> int (length (az_nsec3 z)) \<le> ao_MaxRecordsPerZone (as_opts s)"
  by (simp add: agg_ok_def)

lemma agg_put_ok:
  assumes "agg_ok s" "keeps_records srt"
  shows "agg_ok (agg_put L S srt apex r soa s)"
proof (cases "zone_for apex s")
  case (Some p)
  obtain z s' where p: "p = (z, s')" by fastforce
  note f = zone_for_ok [OF assms(1) Some [unfolded p]]
  then have z: "agg_ok s'" "fmlookup (as_zones s') apex = Some z" by simp_all
  show ?thesis
    using assms(2) zone_limits [OF z]
    by (auto simp: agg_put_def Some p Let_def zone_size_def keeps_records_def split: option.splits
        intro!: set_zone_ok [OF z] add_stored_ok [OF z])
qed (simp add: agg_put_def assms)

lemma putNSEC3_ok:
  assumes "agg_ok s"
  shows "agg_ok (putNSEC3 L apex r soa s)"
proof (cases "zone_for apex s")
  case (Some p)
  obtain z s' where p: "p = (z, s')" by fastforce
  note f = zone_for_ok [OF assms(1) Some [unfolded p]]
  then have z: "agg_ok s'" "fmlookup (as_zones s') apex = Some z" by simp_all
  show ?thesis
    using assms zone_limits [OF z]
    by (auto simp: putNSEC3_def Some p Let_def zone_size_def split: option.splits
        intro!: set_zone_ok [OF z] add_stored_ok [OF z])
qed (simp add: putNSEC3_def assms)

lemma agg_Put_ok: "agg_ok s \<Longrightarrow> keeps_records srt \<Longrightarrow> agg_ok (agg_Put L S srt denial now s)"
  by (auto simp: agg_Put_def Let_def put_one_def intro!: foldl_invariant [of agg_ok] agg_put_ok putNSEC3_ok split: rdata.splits)

lemma agg_ProveNXDOMAIN_ok: "agg_ok s \<Longrightarrow> agg_ProveNXDOMAIN L S name now s = Some (d, s') \<Longrightarrow> agg_ok s'"
  by (auto simp: agg_ProveNXDOMAIN_def agg_result_def Let_def split: option.splits if_splits prod.splits)

lemma agg_Sweep_ok:
  assumes "agg_ok s"
  shows "agg_ok (snd (agg_Sweep now s))"
proof -
  let ?Z = "as_zones s" and ?W = "fmmap (sweep_zone now) (as_zones s)"
  let ?Y = "fmfilter (\<lambda>k. zone_size (the (fmlookup ?W k)) \<noteq> 0) ?W"
  let ?D = "fset (fmdom ?Z)"
  have le: "zone_size (sweep_zone now z) \<le> zone_size z" for z by (simp add: zone_size_def sweep_zone_def add_mono)
  have W: "fmlookup ?W k = Some (sweep_zone now (the (fmlookup ?Z k)))" if "k \<in> ?D" for k
    using that by (auto simp: fmlookup_dom_iff)
  have sub: "fset (fmdom ?Y) = {k \<in> ?D. zone_size (the (fmlookup ?W k)) \<noteq> 0}" by (auto simp: fmlookup_dom_iff split: if_splits)
  have "(\<Sum>k \<in> fset (fmdom ?Y). zone_size (the (fmlookup ?Y k))) = (\<Sum>k \<in> fset (fmdom ?Y). zone_size (the (fmlookup ?W k)))"
    by (rule sum.cong) (auto simp: sub)
  also have "\<dots> = (\<Sum>k \<in> ?D. zone_size (the (fmlookup ?W k)))"
    by (rule sum.mono_neutral_left) (auto simp: sub)
  also have "\<dots> = (\<Sum>k \<in> ?D. zone_size (sweep_zone now (the (fmlookup ?Z k))))"
    by (rule sum.cong) (simp_all add: W del: fmlookup_map)
  finally have y: "(\<Sum>k \<in> fset (fmdom ?Y). zone_size (the (fmlookup ?Y k))) = (\<Sum>k \<in> ?D. zone_size (sweep_zone now (the (fmlookup ?Z k))))" .
  have x: "(\<Sum>k \<in> ?D. zone_size (the (fmlookup ?Z k)) - zone_size (sweep_zone now (the (fmlookup ?Z k))))
     = agg_Len s - (\<Sum>k \<in> ?D. zone_size (sweep_zone now (the (fmlookup ?Z k))))"
    unfolding agg_Len_def by (rule sum_subtractf_nat) (rule le)
  have l: "(\<Sum>k \<in> ?D. zone_size (sweep_zone now (the (fmlookup ?Z k)))) \<le> agg_Len s"
    unfolding agg_Len_def by (rule sum_mono) (rule le)
  have len: "agg_Len (snd (agg_Sweep now s)) + fst (agg_Sweep now s) = agg_Len s"
    using x y l by (simp add: agg_Sweep_def Let_def agg_Len_def [of "s\<lparr>as_zones := _\<rparr>"])
  have c: "fcard (fmdom ?Y) \<le> fcard (fmdom ?Z)" by (rule fcard_mono) (use sub in \<open>auto simp: less_eq_fset.rep_eq\<close>)
  have "int (length (az_records z)) \<le> ao_MaxRecordsPerZone (as_opts s) \<and> int (length (az_nsec3 z)) \<le> ao_MaxRecordsPerZone (as_opts s)"
    if "fmlookup ?Y k = Some z" for k z
  proof -
    from that obtain z0 where z0: "fmlookup ?Z k = Some z0" "z = sweep_zone now z0" by (auto split: if_splits)
    have "length (az_records z) \<le> length (az_records z0)" "length (az_nsec3 z) \<le> length (az_nsec3 z0)"
      by (simp_all add: z0 sweep_zone_def)
    with zone_limits [OF assms z0(1)] show ?thesis by linarith
  qed
  moreover have "am_Records (as_m (snd (agg_Sweep now s))) = int (agg_Len (snd (agg_Sweep now s)))"
  proof -
    have "am_Records (as_m (snd (agg_Sweep now s))) = int (agg_Len s) - int (fst (agg_Sweep now s))"
      using assms by (simp add: agg_ok_def agg_Sweep_def Let_def del: of_nat_sum)
    with len show ?thesis by linarith
  qed
  ultimately show ?thesis using assms c by (auto simp: agg_ok_def agg_Sweep_def Let_def simp del: of_nat_sum)
qed

inductive agg_reach :: "dnslib \<Rightarrow> seclib \<Rightarrow> slice_sort \<Rightarrow> aoptions \<Rightarrow> astore \<Rightarrow> bool" for L S srt o0 where
  agg_init: "agg_reach L S srt o0 (agg_New o0)"
| agg_store: "agg_reach L S srt o0 s \<Longrightarrow> agg_reach L S srt o0 (agg_Put L S srt denial now s)"
| agg_prove: "agg_reach L S srt o0 s \<Longrightarrow> agg_ProveNXDOMAIN L S name now s = Some (d, s') \<Longrightarrow> agg_reach L S srt o0 s'"
| agg_sweep: "agg_reach L S srt o0 s \<Longrightarrow> agg_reach L S srt o0 (snd (agg_Sweep now s))"


lemma agg_reach_ok: "agg_reach L S srt o0 s \<Longrightarrow> keeps_records srt \<Longrightarrow> agg_ok s"
  by (induction rule: agg_reach.induct) (auto intro: agg_ok_New agg_Put_ok agg_ProveNXDOMAIN_ok agg_Sweep_ok)

lemma agg_reach_opts: "agg_reach L S srt o0 s \<Longrightarrow> as_opts s = as_opts (agg_New o0)"
proof (induction rule: agg_reach.induct)
  case (agg_store s denial now)
  have "as_opts (put_one L S srt apex ds t s' r) = as_opts s'" for apex ds t s' r
    by (auto simp: put_one_def agg_put_def putNSEC3_def zone_for_def set_zone_def add_stored_def Let_def split: rdata.splits option.splits if_splits)
  then have "as_opts (foldl (put_one L S srt apex ds t) s' rs) = as_opts s'" for apex ds t s' rs
    by (induction rs arbitrary: s') simp_all
  with agg_store show ?case by (simp add: agg_Put_def Let_def)
next
  case (agg_prove s name now d s')
  then show ?case
    by (auto simp: agg_ProveNXDOMAIN_def agg_result_def add_miss_def add_synth_def Let_def split: option.splits if_splits prod.splits)
qed (simp_all add: agg_Sweep_def Let_def)

text \<open>In every state the store can reach, it holds records for at most \<open>MaxZones\<close> zones and at most
  \<open>MaxRecordsPerZone\<close> records of each kind per zone, with the defaults in place of limits that are not positive,
  and the gauges for zones and records equal what is held.\<close>

theorem agg_store_bounded:
  assumes "agg_reach L S srt o0 s" "keeps_records srt"
  shows "int (fcard (fmdom (as_zones s))) \<le> (if ao_MaxZones o0 \<le> 0 then 10000 else ao_MaxZones o0)
    \<and> (\<forall>k z. fmlookup (as_zones s) k = Some z \<longrightarrow>
         int (length (az_records z)) \<le> (if ao_MaxRecordsPerZone o0 \<le> 0 then 512 else ao_MaxRecordsPerZone o0)
         \<and> int (length (az_nsec3 z)) \<le> (if ao_MaxRecordsPerZone o0 \<le> 0 then 512 else ao_MaxRecordsPerZone o0))
    \<and> am_Zones (as_m s) = int (fcard (fmdom (as_zones s))) \<and> am_Records (as_m s) = int (agg_Len s)"
  using agg_reach_ok [OF assms] agg_reach_opts [OF assms(1)]
  by (auto simp: agg_ok_def agg_New_def Let_def split: if_splits)

section \<open>Walking up a name\<close>

context name_steps
begin

lemma walk_up_returns: "length suf < n \<Longrightarrow> walk_up L n f suf \<noteq> None"
proof (induction n arbitrary: suf)
  case (Suc n)
  show ?case
    using Suc.IH label_progress [of suf] Suc.prems by (fastforce split: option.splits prod.splits)
qed simp

lemma closest_loop_returns: "length suf < n \<Longrightarrow> closest_loop L S n z apex now nc suf \<noteq> None"
proof (induction n arbitrary: suf nc)
  case (Suc n)
  show ?case
    using Suc.IH label_progress [of suf] Suc.prems by (fastforce split: prod.splits)
qed simp

lemma proveNSEC3_returns: "proveNSEC3 L S z a name now \<noteq> None"
  using closest_loop_returns [of name "length name + 1" S z a now "[]"] by (auto simp: proveNSEC3_def split: option.splits)

end

context dns_names
begin

abbreviation canonical :: "string \<Rightarrow> bool" where
  "canonical s \<equiv> valid s \<and> CanonicalName L s = s"

lemma parent_name:
  assumes "canonical s" "NextLabel L s 0 = (i, False)" "s \<noteq> ''.''"
  shows "canonical (drop i s)" "labels s \<noteq> []" "labels (drop i s) = tl (labels s)" "length (drop i s) < length s" "drop i s \<noteq> ''.''"
proof -
  note n = next_label [of s i]
  show c: "canonical (drop i s)" and t: "labels (drop i s) = tl (labels s)" and "length (drop i s) < length s"
    using assms n by auto
  show "labels s \<noteq> []" using assms labels_Nil by blast
  have "length (labels s) \<noteq> 1" using next_end [of s] assms by auto
  then have "tl (labels s) \<noteq> []" using \<open>labels s \<noteq> []\<close> by (cases "labels s") auto
  then show "drop i s \<noteq> ''.''" using t labels_root by force
qed

text \<open>The walk visits ancestors only, stays inside any zone the name is in, and never reaches the root unless it starts there.\<close>

lemma walk_up_visits:
  "canonical suf \<Longrightarrow> walk_up L n f suf = Some (Some x) \<Longrightarrow>
    \<exists>a. canonical a \<and> suffix (labels a) (labels suf) \<and> (a = ''.'' \<longrightarrow> suf = ''.'') \<and> f a = Some x"
proof (induction n arbitrary: suf)
  case (Suc n)
  show ?case
  proof (cases "f suf")
    case None
    with Suc.prems obtain i where i: "suf \<noteq> ''.''" "NextLabel L suf 0 = (i, False)" "walk_up L n f (drop i suf) = Some (Some x)"
      by (auto split: if_splits prod.splits)
    note p = parent_name [OF Suc.prems(1) i(2,1)]
    from Suc.IH [OF p(1) i(3)] p(3,5) show ?thesis using suffix_order.trans suffix_tl by metis
  qed (use Suc.prems in \<open>auto split: if_splits\<close>)
qed simp

lemma walk_up_nowhere: "canonical suf \<Longrightarrow> walk_up L n f suf \<noteq> None \<Longrightarrow> (\<And>a. a \<noteq> ''.'' \<or> suf = ''.'' \<Longrightarrow> f a = None) \<Longrightarrow> walk_up L n f suf = Some None"
  using walk_up_visits [of suf n f] by (cases "walk_up L n f suf") (auto, metis option.distinct(1) option.exhaust)

lemma suffix_tl_strict: "suffix xs ys \<Longrightarrow> xs \<noteq> ys \<Longrightarrow> suffix xs (tl ys)"
  by (auto simp: suffix_def neq_Nil_conv)

text \<open>The closest encloser is an ancestor, and the next closer name lies on the way to it, inside the zone.\<close>

lemma closest_loop_found:
  assumes "canonical apex"
  shows "canonical suf \<Longrightarrow> suffix (labels apex) (labels suf) \<Longrightarrow> closest_loop L S n z apex now nc suf = Some (Some (c, nc')) \<Longrightarrow>
    canonical c \<and> suffix (labels c) (labels suf) \<and> matching S z c now \<noteq> None
    \<and> (nc' = nc \<and> c = suf \<or> canonical nc' \<and> suffix (labels apex) (labels nc') \<and> suffix (labels nc') (labels suf)
        \<and> labels c = tl (labels nc'))"
proof (induction n arbitrary: suf nc)
  case (Suc n)
  show ?case
  proof (cases "matching S z suf now = None")
    case True
    with Suc.prems obtain i where i: "suf \<noteq> ''.''" "suf \<noteq> apex" "NextLabel L suf 0 = (i, False)"
      "closest_loop L S n z apex now suf (drop i suf) = Some (Some (c, nc'))"
      by (auto split: if_splits prod.splits)
    note p = parent_name [OF Suc.prems(1) i(3,1)]
    have "labels apex \<noteq> labels suf" using labels_inj assms Suc.prems(1) i(2) by blast
    then have a: "suffix (labels apex) (labels (drop i suf))" using suffix_tl_strict Suc.prems(2) p(3) by simp
    from Suc.IH [OF p(1) a i(4)] show ?thesis
      using p(3) Suc.prems(1,2) suffix_order.trans suffix_tl by (metis suffix_order.refl)
  qed (use Suc.prems in auto)
qed simp

end


lemma walk_up_body: "walk_up L n f suf = Some (Some x) \<Longrightarrow> \<exists>a. f a = Some x"
  by (induction n arbitrary: suf) (auto split: if_splits option.splits prod.splits)

declare walk_up.simps [simp del] closest_loop.simps [simp del]

section \<open>Soundness of synthesis\<close>

text \<open>An honest store: \<open>names apex\<close> are the names that exist in the zone, every ancestor inside the zone of an existing name
  exists, no existing name lies inside the interval of a stored NSEC, and no stored NSEC3 without opt-out covers one.\<close>

definition honest_store :: "dnslib \<Rightarrow> seclib \<Rightarrow> (string \<Rightarrow> string list) \<Rightarrow> (string \<Rightarrow> bool) \<Rightarrow> (string \<Rightarrow> string set) \<Rightarrow> astore \<Rightarrow> bool" where
  "honest_store L S labels valid names s \<longleftrightarrow> (\<forall>apex z. fmlookup (as_zones s) apex = Some z \<longrightarrow>
     (\<forall>r \<in> set (az_records z). honest_chain L labels valid (names apex) [nsec_rr r])
     \<and> (\<forall>r \<in> set (az_nsec3 z). \<forall>n \<in> names apex. \<not> optOut (n3r_nsec3 r) \<longrightarrow> \<not> NSEC3Cover S (n3r_hdr r) (n3r_nsec3 r) n)
     \<and> (\<forall>n \<in> names apex. \<forall>m. valid m \<longrightarrow> CanonicalName L m = m \<longrightarrow> suffix (labels apex) (labels m) \<longrightarrow> suffix (labels m) (labels n)
          \<longrightarrow> m \<in> names apex))"

lemma zone_covering_Some: "zone_covering L S z name now = Some r \<Longrightarrow>
    r \<in> set (az_records z) \<and> now < nr_expiry r \<and> NSECCovers L S (nr_hdr r) (nr_next r) name"
  unfolding zone_covering_def Let_def
  by (auto split: if_splits dest!: first_some_SomeD simp: nat_less_iff simp del: first_some.simps intro!: nth_mem)

lemma covering_Some:
  assumes "dns_names L labels valid" "valid name" "CanonicalName L name = name" "covering L S s name now = Some (Some (r, z))"
  shows "\<exists>apex. fmlookup (as_zones s) apex = Some z \<and> suffix (labels apex) (labels name) \<and> r \<in> set (az_records z) \<and> now < nr_expiry r
    \<and> NSECCovers L S (nr_hdr r) (nr_next r) name"
  using dns_names.walk_up_visits [OF assms(1) conjI [OF assms(2,3)] assms(4) [unfolded covering_def]]
  by (auto split: option.splits dest!: zone_covering_Some)

lemma honest_not_covered:
  assumes "dnssec_names L labels valid S" "honest_store L S labels valid names s" "fmlookup (as_zones s) apex = Some z"
    and "r \<in> set (az_records z)" "valid n" "NSECCovers L S (nr_hdr r) (nr_next r) n"
  shows "CanonicalName L n \<notin> names apex"
proof
  assume n: "CanonicalName L n \<in> names apex"
  have dn: "dns_names L labels valid" using assms(1) by (simp add: dnssec_names_def)
  have "honest_chain L labels valid (names apex) [nsec_rr r]" using assms(2-4) by (simp add: honest_store_def)
  then have h: "valid (rh_Name (nr_hdr r))" "valid (nr_next r)"
    "\<not> cyclic (name_key L labels (rh_Name (nr_hdr r))) (name_key L labels (CanonicalName L n)) (name_key L labels (nr_next r))"
    using n by (auto simp: honest_chain_def nsec_rr_def)
  have "name_key L labels (CanonicalName L n) = name_key L labels n"
    using dns_names.canon_idem [OF dn] by (simp add: name_key_def)
  with h dnssec_names.covers_cyclic [OF assms(1) h(1,2) assms(5)] assms(6) show False by simp
qed

text \<open>What a synthesised denial of \<open>name\<close> has to rest on.\<close>

definition denied :: "dnslib \<Rightarrow> (string \<Rightarrow> string list) \<Rightarrow> (string \<Rightarrow> string set) \<Rightarrow> astore \<Rightarrow> string \<Rightarrow> bool" where
  "denied L labels names s name \<longleftrightarrow>
     (\<exists>apex. apex |\<in>| fmdom (as_zones s) \<and> suffix (labels apex) (labels name) \<and> name \<notin> names apex)
     \<and> (\<exists>apex w. apex |\<in>| fmdom (as_zones s) \<and> w \<notin> names apex
          \<and> (w = CanonicalName L (WildcardOf L name) \<or> (\<exists>c. suffix (labels c) (tl (labels name)) \<and> w = ''*.'' @ c)))"

lemma coveringN3_Some: "coveringN3 S z n now = Some r \<Longrightarrow>
    r \<in> set (az_nsec3 z) \<and> now < n3r_expiry r \<and> \<not> optOut (n3r_nsec3 r) \<and> NSEC3Cover S (n3r_hdr r) (n3r_nsec3 r) n"
  by (auto simp: coveringN3_def find_Some_iff)

lemma n3_look_Some: "n3_look L S s name now suf = Some (Some d) \<Longrightarrow>
    \<exists>z. fmlookup (as_zones s) suf = Some z \<and> proveNSEC3 L S z suf name now = Some (Some d)"
  by (auto simp: n3_look_def split: option.splits)

lemma n3_denied:
  assumes "dns_names L labels valid" "honest_store L S labels valid names s" "fmlookup (as_zones s) apex = Some z"
    and "valid name" "CanonicalName L name = name" "valid apex" "CanonicalName L apex = apex" "suffix (labels apex) (labels name)"
    and "proveNSEC3 L S z apex name now = Some (Some d)"
  shows "denied L labels names s name"
proof -
  from assms(9) obtain c nc where l: "closest_loop L S (length name + 1) z apex now [] name = Some (Some (c, nc))"
    and d: "n3_denial L S z name now c nc = Some d"
    by (auto simp: proveNSEC3_def split: if_splits option.splits prod.splits)
  note f = dns_names.closest_loop_found [OF assms(1) _ _ _ l] 
  from f assms(4-8) have f: "suffix (labels c) (labels name)" "nc = [] \<and> c = name \<or> valid nc \<and> CanonicalName L nc = nc
      \<and> suffix (labels apex) (labels nc) \<and> suffix (labels nc) (labels name) \<and> labels c = tl (labels nc)" by blast+
  from d obtain r w where r: "c \<noteq> name" "coveringN3 S z nc now = Some r" "coveringN3 S z (''*.'' @ c) now = Some w"
    by (auto simp: n3_denial_def Let_def split: if_splits option.splits)
  with f have nc: "valid nc" "CanonicalName L nc = nc" "suffix (labels apex) (labels nc)" "suffix (labels nc) (labels name)"
    "labels c = tl (labels nc)" by blast+
  have out: "n \<notin> names apex" if "coveringN3 S z n now = Some r'" for n r'
    using coveringN3_Some [OF that] assms(2,3) by (auto simp: honest_store_def)
  have "name \<notin> names apex"
    using out [OF r(2)] assms(2,3) nc unfolding honest_store_def by blast
  moreover have "suffix (labels c) (tl (labels name))"
    using nc(4,5) by (cases "labels nc"; cases "labels name") (auto simp: suffix_Cons intro: suffix_order.trans dest: suffix_ConsD)
  ultimately show ?thesis
    using assms(3,8) out [OF r(3)] unfolding denied_def by (blast intro: fmdomI)
qed


text \<open>C23. A denial synthesised from the store is sound: if the stored records are honest about their zones, the name does not exist in
  a stored zone that encloses it, nor does the wildcard that would answer for it.\<close>

theorem synthesis_sound:
  assumes "dnssec_names L labels valid S" and "honest_store L S labels valid names s"
    and "valid name" and "valid (WildcardOf L (CanonicalName L name))"
    and "agg_ProveNXDOMAIN L S name now s = Some (Some d, s')"
  shows "denied L labels names s (CanonicalName L name)"
proof -
  have dn: "dns_names L labels valid" using assms(1) by (simp add: dnssec_names_def)
  let ?n = "CanonicalName L name" and ?w = "WildcardOf L (CanonicalName L name)"
  note n = dns_names.canon_valid [OF dn assms(3)] dns_names.canon_idem [OF dn, of name]
  show ?thesis
  proof (cases "covering L S s ?n now")
    case (Some o')
    show ?thesis
    proof (cases o')
      case None
      with Some assms(5) have "proveNSEC3ForName L S s ?n now = Some (Some d)"
        by (auto simp: agg_ProveNXDOMAIN_def Let_def agg_result_def split: option.splits)
      then have "walk_up L (length ?n + 1) (n3_look L S s ?n now) ?n = Some (Some (Some d))"
        by (auto simp: proveNSEC3ForName_def split: option.splits)
      from dns_names.walk_up_visits [OF dn conjI [OF n] this] obtain a z where
        "valid a" "CanonicalName L a = a" "suffix (labels a) (labels ?n)" "fmlookup (as_zones s) a = Some z"
        "proveNSEC3 L S z a ?n now = Some (Some d)" by (auto dest: n3_look_Some)
      then show ?thesis using n3_denied [OF dn assms(2) _ n] by blast
    next
      case (Some p)
      obtain r z where p: "p = (r, z)" by fastforce
      with Some \<open>covering L S s ?n now = Some o'\<close> have c: "covering L S s ?n now = Some (Some (r, z))" by simp
      from covering_Some [OF dn n this] obtain apex where a: "fmlookup (as_zones s) apex = Some z" "suffix (labels apex) (labels ?n)"
        "r \<in> set (az_records z)" "NSECCovers L S (nr_hdr r) (nr_next r) ?n" by blast
      have name: "?n \<notin> names apex" using honest_not_covered [OF assms(1,2) a(1,3) n(1) a(4)] n(2) by simp
      have "\<exists>apex'. apex' |\<in>| fmdom (as_zones s) \<and> CanonicalName L ?w \<notin> names apex'"
      proof (cases "NSECCovers L S (nr_hdr r) (nr_next r) ?w")
        case True
        then show ?thesis using honest_not_covered [OF assms(1,2) a(1,3) assms(4)] a(1) by (blast intro: fmdomI)
      next
        case False
        with c assms(5) obtain w z' where "covering L S s ?w now = Some (Some (w, z'))"
          by (auto simp: agg_ProveNXDOMAIN_def Let_def split: option.splits)
        then obtain apex' where "fmlookup (as_zones s) apex' = Some z'" "w \<in> set (az_records z')" "NSECCovers L S (nr_hdr w) (nr_next w) ?w"
          unfolding covering_def by (auto dest!: walk_up_body zone_covering_Some split: option.splits)
        then show ?thesis using honest_not_covered [OF assms(1,2) _ _ assms(4)] by (blast intro: fmdomI)
      qed
      with name a show ?thesis unfolding denied_def by (blast intro: fmdomI)
    qed
  qed (use assms(5) in \<open>simp add: agg_ProveNXDOMAIN_def Let_def\<close>)
qed

definition lives :: "denial \<Rightarrow> bool" where
  "lives x \<longleftrightarrow> 0 < dn_TTL x \<and> (\<exists>secs. secs \<noteq> 0 \<and> (\<forall>r \<in> set (dn_Authority x). rh_Ttl (rr_hdr r) = secs)
     \<and> (secs = 1 \<or> uint secs * second \<le> dn_TTL x))"

lemma withTTL_lives:
  assumes "0 < ttl"
  shows "lives \<lparr>dn_Authority = agg_withTTL L rrs ttl, dn_TTL = ttl\<rparr>"
proof -
  let ?s = "word_of_int (ttl div second) :: u32"
  have "uint ?s \<le> ttl div second"
    using assms by (simp add: uint_word_of_int second_def) (rule zmod_le_nonneg_dividend, simp add: pos_imp_zdiv_nonneg_iff)
  moreover have "ttl div second * second \<le> ttl" using int_mult_div_le [of second ttl] by (simp add: second_def mult.commute)
  ultimately have "uint ?s * second \<le> ttl" by (simp add: second_def)
  then show ?thesis
    using assms by (auto simp: lives_def agg_withTTL_def set_ttl_def Let_def intro: exI [of _ ?s] exI [of _ "1 :: u32"])
qed

lemma nsec_lives: "nsec_denial L S name now z cov wc = Some x \<Longrightarrow> lives x"
  by (auto simp: nsec_denial_def Let_def simp del: time_Sub_pos split: if_splits intro!: withTTL_lives)

lemma n3_lives: "n3_denial L S z name now c nc = Some x \<Longrightarrow> lives x"
  by (auto simp: n3_denial_def Let_def simp del: time_Sub_pos split: if_splits option.splits intro!: withTTL_lives)

lemma synthesis_total:
  assumes "name_steps L"
  shows "\<exists>d s'. agg_ProveNXDOMAIN L S name now s = Some (d, s')
    \<and> (\<forall>x. d = Some x \<longrightarrow> lives x)"
proof -
  let ?n = "CanonicalName L name" and ?w = "WildcardOf L (CanonicalName L name)"
  have c: "covering L S s m now \<noteq> None" for m
    unfolding covering_def by (rule name_steps.walk_up_returns [OF assms]) simp
  have "n3_look L S s ?n now a \<noteq> Some None" for a
    using name_steps.proveNSEC3_returns [OF assms, of S _ a ?n now]
    by (auto simp: n3_look_def split: option.splits) (metis option.distinct(1))
  then have p: "proveNSEC3ForName L S s ?n now \<noteq> None"
    using name_steps.walk_up_returns [OF assms, of ?n "length ?n + 1" "n3_look L S s ?n now"]
      walk_up_body [of L "length ?n + 1" "n3_look L S s ?n now" ?n None]
    by (auto simp: proveNSEC3ForName_def split: option.splits)
  have d: "lives x" if "proveNSEC3ForName L S s ?n now = Some (Some x)" for x
    using that walk_up_body [of L "length ?n + 1" "n3_look L S s ?n now" ?n "Some x"]
    by (auto simp: proveNSEC3ForName_def proveNSEC3_def dest!: n3_look_Some split: option.splits if_splits intro: n3_lives)
  have r: "\<exists>d. (\<exists>s'. agg_result x s = (d, s')) \<and> (\<forall>y. d = Some y \<longrightarrow> lives y)" if "\<And>y. x = Some y \<Longrightarrow> lives y" for x
    using that by (cases x) (auto simp: agg_result_def)
  have "\<exists>d. (\<exists>s'. agg_ProveNXDOMAIN L S name now s = Some (d, s')) \<and> (\<forall>x. d = Some x \<longrightarrow> lives x)"
    using c [of ?n] c [of ?w] p d
    by (auto simp: agg_ProveNXDOMAIN_def Let_def intro!: r intro: nsec_lives split: option.splits)
  then show ?thesis by blast
qed


text \<open>Proving from the store always returns, whatever it holds, and its answer, if any, lives no longer than its proof:
  its records' TTL is positive, the same for all, and either the one-second floor or within the remaining life of
  every record the proof used.\<close>

theorem synthesis_returns:
  assumes "name_steps L"
  shows "\<exists>d s'. agg_ProveNXDOMAIN L S name now s = Some (d, s')
    \<and> (\<forall>x. d = Some x \<longrightarrow> 0 < dn_TTL x \<and> (\<exists>secs. secs \<noteq> 0 \<and> (\<forall>r \<in> set (dn_Authority x). rh_Ttl (rr_hdr r) = secs)
         \<and> (secs = 1 \<or> uint secs * second \<le> dn_TTL x)))"
  using synthesis_total [OF assms, of S name now s] unfolding lives_def by blast

section \<open>Where the records come from\<close>

text \<open>A property of records that every denial filed has holds of everything the store holds, and of
  what a synthesised denial is made of.\<close>

definition zone_all :: "(rr \<Rightarrow> bool) \<Rightarrow> azone \<Rightarrow> bool" where
  "zone_all P z \<longleftrightarrow> (\<forall>r \<in> set (az_soa z). P r) \<and> (\<forall>x \<in> set (az_records z). \<forall>r \<in> set (nr_rrs x). P r)
     \<and> (\<forall>x \<in> set (az_nsec3 z). \<forall>r \<in> set (n3r_rrs x). P r)"

definition store_all :: "(rr \<Rightarrow> bool) \<Rightarrow> astore \<Rightarrow> bool" where
  "store_all P s \<longleftrightarrow> (\<forall>k z. fmlookup (as_zones s) k = Some z \<longrightarrow> zone_all P z)"

lemma store_all_New: "store_all P (agg_New o0)"
  by (simp add: store_all_def agg_New_def Let_def)

lemma store_all_set_zone: "store_all P s \<Longrightarrow> zone_all P z \<Longrightarrow> store_all P (set_zone apex z s)"
  by (simp add: store_all_def set_zone_def)

lemma store_all_counts [simp]: "store_all P (add_stored s) = store_all P s" "store_all P (add_miss s) = store_all P s"
  "store_all P (add_synth s) = store_all P s"
  by (simp_all add: store_all_def add_stored_def add_miss_def add_synth_def)

lemma zone_for_all: "store_all P s \<Longrightarrow> zone_for apex s = Some (z, s') \<Longrightarrow> store_all P s' \<and> zone_all P z"
  by (auto simp: zone_for_def store_all_def zone_all_def Let_def split: option.splits if_splits)

lemma with_soa_all: "zone_all P z \<Longrightarrow> \<forall>r \<in> set soa. P r \<Longrightarrow> zone_all P (with_soa soa z)"
  by (auto simp: zone_all_def with_soa_def)

lemma zone_all_records:
  "zone_all P z \<Longrightarrow> (\<And>x. x \<in> set rs \<Longrightarrow> x \<in> set (az_records z) \<or> (\<forall>r \<in> set (nr_rrs x). P r)) \<Longrightarrow> zone_all P (z\<lparr>az_records := rs\<rparr>)"
  "zone_all P z \<Longrightarrow> (\<And>x. x \<in> set ns \<Longrightarrow> x \<in> set (az_nsec3 z) \<or> (\<forall>r \<in> set (n3r_rrs x). P r)) \<Longrightarrow> zone_all P (z\<lparr>az_nsec3 := ns\<rparr>)"
  unfolding zone_all_def by (auto, blast+)

lemma store_all_puts:
  assumes "store_all P s" "\<forall>r \<in> set soa. P r"
  shows "keeps_records srt \<Longrightarrow> \<forall>r \<in> set (nr_rrs x). P r \<Longrightarrow> store_all P (agg_put L S srt apex x soa s)"
    and "\<forall>r \<in> set (n3r_rrs y). P r \<Longrightarrow> store_all P (putNSEC3 L apex y soa s)"
  using zone_for_all [OF assms(1), of apex] assms set_update_subset_insert
  by (fastforce simp: agg_put_def putNSEC3_def Let_def keeps_records_def split: option.splits
      intro!: store_all_set_zone with_soa_all zone_all_records)+

lemma recordsFor_subset: "r \<in> set (recordsFor L rrs name t) \<Longrightarrow> r \<in> set rrs"
  by (simp add: recordsFor_def)

lemma store_all_Put:
  assumes "keeps_records srt" "store_all P s" "\<forall>r \<in> set den. P r"
  shows "store_all P (agg_Put L S srt den now s)"
proof -
  have "store_all P (put_one L S srt apex den now s r)" if "store_all P s" for apex s r
    using that assms(1,3) by (auto simp: put_one_def Let_def dest!: recordsFor_subset intro!: store_all_puts split: rdata.split)
  then show ?thesis using assms(2) by (auto simp: agg_Put_def Let_def intro!: foldl_invariant [of "store_all P"])
qed

definition made_of :: "dnslib \<Rightarrow> (rr \<Rightarrow> bool) \<Rightarrow> rr list \<Rightarrow> bool" where
  "made_of L P rs \<longleftrightarrow> (\<forall>r \<in> set rs. \<exists>r0 secs. P r0 \<and> r = set_ttl L secs r0)"

lemma withTTL_made_of: "\<forall>r \<in> set rrs. P r \<Longrightarrow> made_of L P (agg_withTTL L rrs ttl)"
  unfolding made_of_def agg_withTTL_def Let_def by auto

lemma matching_in: "matching S z c now = Some r \<Longrightarrow> r \<in> set (az_nsec3 z)"
  by (auto simp: matching_def find_Some_iff)

lemma n3_denial_all:
  assumes "zone_all P z" "n3_denial L S z name now c nc = Some d" "matching S z c now \<noteq> None"
  shows "made_of L P (dn_Authority d)"
proof -
  from assms(2) obtain r w where r: "coveringN3 S z nc now = Some r" "coveringN3 S z (''*.'' @ c) now = Some w"
    and d: "dn_Authority d = agg_withTTL L (az_soa z @ n3r_rrs (the (matching S z c now)) @ n3r_rrs r @
      (if \<not> sameOwner L (n3r_rrs w) (n3r_rrs (the (matching S z c now))) \<and> \<not> sameOwner L (n3r_rrs w) (n3r_rrs r) then n3r_rrs w else [])) (dn_TTL d)"
    by (auto simp: n3_denial_def Let_def split: if_splits option.splits)
  from assms(3) obtain m where m: "matching S z c now = Some m" by blast
  show ?thesis
    unfolding d using assms(1) m matching_in [OF m] coveringN3_Some [OF r(1)] coveringN3_Some [OF r(2)]
    by (intro withTTL_made_of) (auto simp: zone_all_def split: if_splits)
qed

lemma closest_matches: "closest_loop L S n z apex now nc suf = Some (Some (c, nc')) \<Longrightarrow> matching S z c now \<noteq> None"
proof (induction n arbitrary: nc suf)
  case (Suc n)
  then show ?case by (auto simp: closest_loop.simps split: if_splits prod.splits)
qed (simp add: closest_loop.simps)

lemma nsec_denial_all:
  assumes "zone_all P z" "\<forall>r \<in> set (nr_rrs cov). P r" "\<And>w. wc = Some w \<Longrightarrow> \<forall>r \<in> set (nr_rrs w). P r"
    and "nsec_denial L S name now z cov wc = Some d"
  shows "made_of L P (dn_Authority d)"
proof -
  from assms(4) have "dn_Authority d = agg_withTTL L (az_soa z @ nr_rrs cov @ (case wc of Some w \<Rightarrow> nr_rrs w | None \<Rightarrow> [])) (dn_TTL d)"
    by (auto simp: nsec_denial_def Let_def split: if_splits)
  with assms(1-3) show ?thesis
    by (auto simp: zone_all_def split: option.splits intro!: withTTL_made_of)
qed

lemma covering_all: "store_all P s \<Longrightarrow> covering L S s name now = Some (Some (r, z)) \<Longrightarrow> zone_all P z \<and> (\<forall>x \<in> set (nr_rrs r). P x)"
  unfolding covering_def store_all_def by (auto dest!: walk_up_body zone_covering_Some split: option.splits simp: zone_all_def)

lemma denial_nonempty:
  "nsec_denial L S name now z cov wc = Some d \<Longrightarrow> dn_Authority d \<noteq> []"
  "n3_denial L S z name now c nc = Some d \<Longrightarrow> dn_Authority d \<noteq> []"
  by (auto simp: nsec_denial_def n3_denial_def agg_withTTL_def Let_def split: if_splits option.splits)

lemma ProveNXDOMAIN_nonempty:
  assumes "agg_ProveNXDOMAIN L S name now s = Some (Some d, s')"
  shows "dn_Authority d \<noteq> []"
proof -
  have n3: "dn_Authority d \<noteq> []" if "proveNSEC3ForName L S s m now = Some (Some d)" for m
  proof -
    from that have "walk_up L (length m + 1) (n3_look L S s m now) m = Some (Some (Some d))"
      by (auto simp: proveNSEC3ForName_def split: option.splits)
    then obtain a where "n3_look L S s m now a = Some (Some d)" by (blast dest: walk_up_body)
    then obtain z where "proveNSEC3 L S z a m now = Some (Some d)" by (blast dest: n3_look_Some)
    then show ?thesis by (auto simp: proveNSEC3_def dest: denial_nonempty(2) split: if_splits option.splits)
  qed
  have "agg_result d' s = (Some d, s') \<Longrightarrow> d' = Some d" for d' by (auto simp: agg_result_def split: option.splits)
  with assms n3 show ?thesis
    unfolding agg_ProveNXDOMAIN_def Let_def by (fastforce split: option.splits if_splits prod.splits dest: denial_nonempty(1))
qed

lemma ProveNXDOMAIN_all:
  assumes "store_all P s" "agg_ProveNXDOMAIN L S name now s = Some (d, s')"
  shows "store_all P s' \<and> (\<forall>x. d = Some x \<longrightarrow> made_of L P (dn_Authority x))"
proof -
  have n3: "made_of L P (dn_Authority x)" if "proveNSEC3ForName L S s m now = Some (Some x)" for m x
  proof -
    from that have "walk_up L (length m + 1) (n3_look L S s m now) m = Some (Some (Some x))"
      by (auto simp: proveNSEC3ForName_def split: option.splits)
    then obtain a where "n3_look L S s m now a = Some (Some x)" by (blast dest: walk_up_body)
    then obtain z where z: "fmlookup (as_zones s) a = Some z" "proveNSEC3 L S z a m now = Some (Some x)" by (blast dest: n3_look_Some)
    then obtain c nc where "closest_loop L S (length m + 1) z a now [] m = Some (Some (c, nc))" "n3_denial L S z m now c nc = Some x"
      by (auto simp: proveNSEC3_def split: if_splits option.splits)
    with z(1) assms(1) show ?thesis unfolding store_all_def by (blast intro: n3_denial_all dest: closest_matches)
  qed
  note cov = covering_all [OF assms(1)]
  have nsec: "made_of L P (dn_Authority x)"
    if "covering L S s m now = Some (Some (c, z))" "nsec_denial L S m now z c wc = Some x"
      "wc = None \<or> (\<exists>w z' m'. wc = Some w \<and> covering L S s m' now = Some (Some (w, z')))" for m c z wc x
    using cov [OF that(1)] that(3) by (intro nsec_denial_all [OF _ _ _ that(2)]) (auto dest: cov)
  have r: "agg_result d' s = (d, s') \<Longrightarrow> d' = d \<and> store_all P s'" for d'
    using assms(1) by (auto simp: agg_result_def split: option.splits)
  show ?thesis
    using assms unfolding agg_ProveNXDOMAIN_def Let_def
    by (auto split: option.splits if_splits prod.splits dest!: r intro: n3 nsec)
qed

section \<open>Two shortcomings\<close>

text \<open>The root zone is never consulted: with records of the root only, no name other than the root itself is ever denied from the
  store, since the walk up a name stops at its last label.\<close>

theorem root_zone_unused:
  assumes "dns_names L labels valid" and "name_steps L" and "valid name" and "CanonicalName L name \<noteq> ''.''" and "fmdom (as_zones s) |\<subseteq>| {|''.''|}"
  shows "agg_ProveNXDOMAIN L S name now s = Some (None, add_miss s)"
proof -
  let ?n = "CanonicalName L name"
  have n: "valid ?n \<and> CanonicalName L ?n = ?n"
    using dns_names.canon_valid [OF assms(1,3)] dns_names.canon_idem [OF assms(1), of name] by simp
  have z: "fmlookup (as_zones s) a = None" if "a \<noteq> ''.'' \<or> ?n = ''.''" for a
  proof -
    have "a |\<notin>| fmdom (as_zones s)" using assms(4,5) that by (auto simp: less_eq_fset.rep_eq)
    then show ?thesis by (rule fmdom_notD)
  qed
  note w = dns_names.walk_up_nowhere [OF assms(1) n name_steps.walk_up_returns [OF assms(2)], of "length ?n + 1"]
  have "covering L S s ?n now = Some None" unfolding covering_def by (rule w) (simp_all add: z)
  moreover have "proveNSEC3ForName L S s ?n now = Some None"
    unfolding proveNSEC3ForName_def by (subst w) (simp_all add: z n3_look_def)
  ultimately show ?thesis by (simp add: agg_ProveNXDOMAIN_def agg_result_def)
qed

text \<open>Concrete denials of the zone \<open>z.\<close>, and a sort.\<close>

definition test_soa :: "string \<Rightarrow> rr" where
  "test_soa apex = \<lparr>rr_hdr = \<lparr>rh_Name = apex, rh_Rrtype = TypeSOA, rh_Class = ClassINET, rh_Ttl = 60, rh_Rdlength = 0\<rparr>,
     rr_data = RSOA ''ns'' ''mb'' 60\<rparr>"

definition test_sort :: slice_sort where
  "test_sort lt xs = foldr (\<lambda>x ys. takeWhile (\<lambda>y. lt y x) ys @ x # dropWhile (\<lambda>y. lt y x) ys) xs []"

lemma test_sort_keeps: "keeps_records test_sort"
proof -
  have "set (foldr (\<lambda>x ys. takeWhile (\<lambda>y. lt y x) ys @ x # dropWhile (\<lambda>y. lt y x) ys) xs []) = set xs
    \<and> length (foldr (\<lambda>x ys. takeWhile (\<lambda>y. lt y x) ys @ x # dropWhile (\<lambda>y. lt y x) ys) xs []) = length xs"
    for xs :: "nrecord list" and lt
  proof (induction xs)
    case (Cons x xs)
    have t: "set (takeWhile P ys @ x # dropWhile P ys) = insert x (set ys) \<and> length (takeWhile P ys @ x # dropWhile P ys) = Suc (length ys)"
      for P and ys :: "nrecord list"
    proof -
      have "set (takeWhile P ys) \<union> set (dropWhile P ys) = set ys" by (metis set_append takeWhile_dropWhile_id)
      moreover have "length (takeWhile P ys) + length (dropWhile P ys) = length ys" by (metis length_append takeWhile_dropWhile_id)
      ultimately show ?thesis by simp
    qed
    show ?case using Cons.IH t by simp
  qed simp
  then show ?thesis by (simp add: keeps_records_def test_sort_def)
qed

definition test_denials :: "(string \<times> string) list \<Rightarrow> astore" where
  "test_denials ps = foldl (\<lambda>s (owner, nxt). agg_Put ref_lib ref_sec test_sort [test_soa ''z.'', test_nsec owner nxt] 0 s)
     (agg_New \<lparr>ao_MaxZones = 0, ao_MaxRecordsPerZone = 0\<rparr>) ps"

text \<open>Replacing a record by its next name can lose the order that bisection needs: after four denials of one
  zone, in which a record with a later owner takes the place of another with the same next name, a live record covers the name and
  another its wildcard, and still the name is not denied from the store; with the same records in
  order it is.\<close>

theorem replacement_loses_order:
  "let s = test_denials [(''z.'', ''a.z.''), (''a.z.'', ''y.z.''), (''b.z.'', ''c.z.''), (''d.z.'', ''y.z.'')];
       s' = test_denials [(''z.'', ''a.z.''), (''b.z.'', ''c.z.''), (''d.z.'', ''y.z.'')]
   in map_option fst (agg_ProveNXDOMAIN ref_lib ref_sec ''dd.z.'' 1 s) = Some None
    \<and> map_option (map_option dn_TTL \<circ> fst) (agg_ProveNXDOMAIN ref_lib ref_sec ''dd.z.'' 1 s') = Some (Some (60 * second - 1))
    \<and> list_ex (\<lambda>r. 1 < nr_expiry r \<and> NSECCovers ref_lib ref_sec (nr_hdr r) (nr_next r) ''dd.z.'') (az_records (the (fmlookup (as_zones s) ''z.'')))
    \<and> set (az_records (the (fmlookup (as_zones s) ''z.''))) = set (az_records (the (fmlookup (as_zones s') ''z.'')))"
  by code_simp


lemma test_denials_reach: "agg_reach ref_lib ref_sec test_sort \<lparr>ao_MaxZones = 0, ao_MaxRecordsPerZone = 0\<rparr> (test_denials ps)"
proof -
  have "agg_reach ref_lib ref_sec test_sort o0 (foldl (\<lambda>s (owner, nxt). agg_Put ref_lib ref_sec test_sort [test_soa ''z.'', test_nsec owner nxt] 0 s) s ps)"
    if "agg_reach ref_lib ref_sec test_sort o0 s" for o0 s
    using that by (induction ps arbitrary: s) (auto intro: agg_store)
  then show ?thesis unfolding test_denials_def by (blast intro: agg_init)
qed

theorem agg_store_bounded_witness:
  "am_Records (as_m (test_denials [(''z.'', ''a.z.''), (''b.z.'', ''c.z.'')])) = 2
   \<and> agg_Len (test_denials [(''z.'', ''a.z.''), (''b.z.'', ''c.z.'')]) = 2"
proof -
  have "am_Records (as_m (test_denials [(''z.'', ''a.z.''), (''b.z.'', ''c.z.'')])) = 2" by code_simp
  with agg_store_bounded [OF test_denials_reach test_sort_keeps, of "[(''z.'', ''a.z.''), (''b.z.'', ''c.z.'')]"] show ?thesis by simp
qed

theorem synthesis_sound_witness:
  "\<exists>d s'. agg_ProveNXDOMAIN ref_lib ref_sec ''B.z'' 1 (test_denials [(''z'', ''c.z'')]) = Some (Some d, s')
   \<and> denied ref_lib ref_labels (\<lambda>_. {''z.'', ''c.z.''}) (test_denials [(''z'', ''c.z'')]) ''b.z.''"
proof -
  let ?s = "test_denials [(''z'', ''c.z'')]"
  have z: "as_zones ?s = fmupd ''z.'' \<lparr>az_records = [\<lparr>nr_hdr = rr_hdr (test_nsec ''z'' ''c.z''), nr_next = ''c.z'', nr_types = [TypeA],
      nr_rrs = [test_nsec ''z'' ''c.z''], nr_expiry = 60 * second\<rparr>], az_nsec3 = [], az_soa = [test_soa ''z.'']\<rparr> fmempty"
    by code_simp
  have c: "honest_chain ref_lib ref_labels ref_valid {''z.'', ''c.z.''} [test_nsec ''z'' ''c.z'']"
    unfolding honest_chain_def test_nsec_def by (simp, code_simp)
  have l: "ref_labels ''z.'' = [''z'']" "ref_labels ''c.z.'' = [''c'', ''z'']" by code_simp+
  have up: "m \<in> {''z.'', ''c.z.''}" if "ref_valid m" "CanonicalName ref_lib m = m" "suffix [''z''] (ref_labels m)" "suffix (ref_labels m) (ref_labels n)"
    "n \<in> {''z.'', ''c.z.''}" for m n
  proof -
    have "ref_labels m = [''z''] \<or> ref_labels m = [''c'', ''z'']"
      using that(3-5) l by (auto simp: suffix_def Cons_eq_append_conv append_eq_Cons_conv)
    then have "ref_labels m = ref_labels ''z.'' \<or> ref_labels m = ref_labels ''c.z.''" by (simp add: l)
    moreover have "ref_valid ''z.''" "ref_valid ''c.z.''" "CanonicalName ref_lib ''z.'' = ''z.''" "CanonicalName ref_lib ''c.z.'' = ''c.z.''" by code_simp+
    ultimately show ?thesis using ref.labels_inj that(1,2) by blast
  qed
  have h: "honest_store ref_lib ref_sec ref_labels ref_valid (\<lambda>_. {''z.'', ''c.z.''}) ?s"
    unfolding honest_store_def z using c up [of _ "''z.''"] up [of _ "''c.z.''"] by (auto simp: nsec_rr_def test_nsec_def l)
  have v: "ref_valid ''B.z''" "ref_valid (WildcardOf ref_lib (CanonicalName ref_lib ''B.z''))" "CanonicalName ref_lib ''B.z'' = ''b.z.''" by code_simp+
  have "map_option (\<lambda>x. fst x \<noteq> None) (agg_ProveNXDOMAIN ref_lib ref_sec ''B.z'' 1 ?s) = Some True" by code_simp
  then obtain d s' where p: "agg_ProveNXDOMAIN ref_lib ref_sec ''B.z'' 1 ?s = Some (Some d, s')" by auto
  with synthesis_sound [OF refsec.dnssec_names_axioms h v(1,2) p] v(3) show ?thesis by auto
qed

theorem synthesis_returns_witness:
  "\<exists>d s'. agg_ProveNXDOMAIN ref_lib ref_sec ''B.z'' 1 (test_denials [(''z'', ''c.z'')]) = Some (d, s')"
  using synthesis_returns [OF ref_steps.name_steps_axioms] by blast

theorem root_zone_unused_witness:
  "let s = agg_Put ref_lib ref_sec test_sort [test_soa ''.'', test_nsec ''aa.'' ''zz.''] 0 (agg_New \<lparr>ao_MaxZones = 0, ao_MaxRecordsPerZone = 0\<rparr>)
   in agg_ProveNXDOMAIN ref_lib ref_sec ''bb.'' 1 s = Some (None, add_miss s) \<and> agg_Len s = 1
    \<and> NSECCovers ref_lib ref_sec (rr_hdr (test_nsec ''aa.'' ''zz.'')) ''zz.'' ''bb.''"
proof -
  let ?s = "agg_Put ref_lib ref_sec test_sort [test_soa ''.'', test_nsec ''aa.'' ''zz.''] 0 (agg_New \<lparr>ao_MaxZones = 0, ao_MaxRecordsPerZone = 0\<rparr>)"
  have v: "ref_valid ''bb.''" "CanonicalName ref_lib ''bb.'' \<noteq> ''.''" "fmdom (as_zones ?s) |\<subseteq>| {|''.''|}" by code_simp+
  have "agg_Len ?s = 1 \<and> NSECCovers ref_lib ref_sec (rr_hdr (test_nsec ''aa.'' ''zz.'')) ''zz.'' ''bb.''" by code_simp
  with root_zone_unused [OF ref.dns_names_axioms ref_steps.name_steps_axioms v] show ?thesis by simp
qed

end
