(* ===== verification/Resolver_World.thy ===== *)
theory Resolver_World
  imports Recursive_Secure Cache_Correct Infra Aggressive
begin

text \<open>
  The recursion engine with the components it runs on, as \<open>cmd/cgdns/main.go\<close> wires them: the RRset cache,
  the infrastructure cache and the store of denial proofs. What is left open is the network: what every exchange
  returns, how much time passes, when the context is cancelled, and the random bytes and ids drawn are functions of an arbitrary network
  state, as are the seeded hashes and the orders in which Go visits a map. Queries are served one after the other.

  The locale \<open>world_setup\<close> collects what is assumed of the libraries, the configuration and the clock (whenever it is read, an anchor
  of the root is inside its validity period, when a validator is configured), and is shown to provide the interface \<open>secure_engine\<close>. The theorems then speak of every state that any sequence of queries reaches
  from a fresh start, against any network.
\<close>

record 'n net =
  nt_Exchange :: "proto \<Rightarrow> addr \<Rightarrow> dmsg \<Rightarrow> 'n \<Rightarrow> dmsg option \<times> 'n"
  nt_Rand :: "'n \<Rightarrow> (nat \<Rightarrow> 64 word) \<times> 'n"
  nt_Id :: "'n \<Rightarrow> u16 \<times> 'n"
  nt_Now :: "'n \<Rightarrow> gtime"
  nt_CtxErr :: "'n \<Rightarrow> bool"
  nt_hash :: "ckey \<Rightarrow> 64 word"
  nt_ihash :: "8 word list \<Rightarrow> 64 word"
  nt_sort :: slice_sort
  nt_KeyOrder :: "ckey list \<Rightarrow> ckey list"
  nt_SetOrder :: key_order
  nt_ErrText :: "rerror \<Rightarrow> string"
  nt_SecText :: "sec_error \<Rightarrow> string"

record 'n world =
  wd_cache :: cache
  wd_infra :: infra
  wd_nsec :: astore
  wd_net :: 'n
  wd_sent :: nat

definition wd_now :: "'n net \<Rightarrow> 'n world \<Rightarrow> gtime" where
  "wd_now N w = nt_Now N (wd_net w)"

definition with_cache :: "'n net \<Rightarrow> (gtime \<Rightarrow> cache \<Rightarrow> cache option) \<Rightarrow> ('n world, unit) run" where
  "with_cache N f w = map_option (\<lambda>c. ((), w\<lparr>wd_cache := c\<rparr>)) (f (wd_now N w) (wd_cache w))"

definition with_infra :: "'n net \<Rightarrow> (gtime \<Rightarrow> infra \<Rightarrow> infra option) \<Rightarrow> ('n world, unit) run" where
  "with_infra N f w = map_option (\<lambda>i. ((), w\<lparr>wd_infra := i\<rparr>)) (f (wd_now N w) (wd_infra w))"

definition ask_infra :: "'n net \<Rightarrow> (gtime \<Rightarrow> infra \<Rightarrow> 'a \<times> infra) \<Rightarrow> ('n world, 'a) run" where
  "ask_infra N f w = (let (a, i) = f (wd_now N w) (wd_infra w) in Some (a, w\<lparr>wd_infra := i\<rparr>))"

definition draw :: "('n \<Rightarrow> 'a \<times> 'n) \<Rightarrow> ('n world, 'a) run" where
  "draw f w = (let (a, n) = f (wd_net w) in Some (a, w\<lparr>wd_net := n\<rparr>))"

definition world_env :: "dnslib \<Rightarrow> seclib \<Rightarrow> 'n net \<Rightarrow> 'n world renv" where
  "world_env L S N = \<lparr>
     re_Get = (\<lambda>k w. let (e, c) = cache_Get (nt_hash N) (wd_now N w) k (wd_cache w) in Some (e, w\<lparr>wd_cache := c\<rparr>)),
     re_PutRRset = (\<lambda>k rrs au. with_cache N (\<lambda>t. PutRRset (nt_hash N) t k rrs au)),
     re_PutValidated = (\<lambda>k rrs au. with_cache N (\<lambda>t. PutValidated (nt_hash N) t k rrs au)),
     re_PutNegative = (\<lambda>k rc rrs ttl au. with_cache N (\<lambda>t. PutNegative (nt_hash N) t k rc rrs ttl au)),
     re_Usable = (\<lambda>a. ask_infra N (\<lambda>t. infra_Usable (nt_ihash N) t a)),
     re_RTT = (\<lambda>a. ask_infra N (\<lambda>t. infra_RTT (nt_ihash N) a)),
     re_EDNSBroken = (\<lambda>a. ask_infra N (\<lambda>t. infra_EDNSBroken (nt_ihash N) a)),
     re_MarkEDNSBroken = (\<lambda>a. with_infra N (\<lambda>t. MarkEDNSBroken (nt_ihash N) t a)),
     re_Success = (\<lambda>a rtt. with_infra N (\<lambda>t. infra_Success (nt_ihash N) t a rtt)),
     re_Failure = (\<lambda>a. with_infra N (\<lambda>t. infra_Failure (nt_ihash N) t a)),
     re_ProveNXDOMAIN = (\<lambda>n t w. map_option (\<lambda>(d, s). (map_option dn_Authority d, w\<lparr>wd_nsec := s\<rparr>)) (agg_ProveNXDOMAIN L S n t (wd_nsec w))),
     re_NSECPut = (\<lambda>rrs t w. Some ((), w\<lparr>wd_nsec := agg_Put L S (nt_sort N) rrs t (wd_nsec w)\<rparr>)),
     re_Exchange = (\<lambda>pr a m w. let (r, n) = nt_Exchange N pr a m (wd_net w) in Some (r, w\<lparr>wd_net := n, wd_sent := Suc (wd_sent w)\<rparr>)),
     re_Rand = draw (nt_Rand N),
     re_Id = draw (nt_Id N),
     re_Now = wd_now N,
     re_CtxErr = (\<lambda>w. nt_CtxErr N (wd_net w)),
     re_KeyOrder = nt_KeyOrder N,
     re_SetOrder = nt_SetOrder N,
     re_ErrText = nt_ErrText N,
     re_SecText = nt_SecText N\<rparr>"

section \<open>The invariant\<close>

text \<open>What counts as proved: verified with keys chained to an anchor of the configured validator.\<close>

definition proved_answer :: "dnslib \<Rightarrow> seclib \<Rightarrow> 'n net \<Rightarrow> ropts \<Rightarrow> rr list \<Rightarrow> bool" where
  "proved_answer L S N O' rrs \<longleftrightarrow> (\<exists>V. ro_Validator O' = Some V \<and> answer_verified L S (nt_SetOrder N) V rrs)"

definition proved_denial :: "dnslib \<Rightarrow> seclib \<Rightarrow> 'n net \<Rightarrow> ropts \<Rightarrow> rr list \<Rightarrow> bool" where
  "proved_denial L S N O' rrs \<longleftrightarrow> (\<exists>V. ro_Validator O' = Some V \<and> denial_verified L S (nt_SetOrder N) V rrs)"

definition entries_ok :: "dnslib \<Rightarrow> seclib \<Rightarrow> 'n net \<Rightarrow> ropts \<Rightarrow> cache \<Rightarrow> bool" where
  "entries_ok L S N O' c \<longleftrightarrow> cache_ok (nt_hash N) c \<and> (\<forall>k e. stored (nt_hash N) c k = Some e \<longrightarrow> e_Authenticated e \<longrightarrow>
     entry_proven (proved_answer L S N O') (proved_denial L S N O') e)
     \<and> (\<forall>k e. stored (nt_hash N) c k = Some e \<longrightarrow> e_Kind e = KindNegative \<longrightarrow> \<not> e_Validated e)"

definition world_ok :: "dnslib \<Rightarrow> seclib \<Rightarrow> 'n net \<Rightarrow> ropts \<Rightarrow> 'n world \<Rightarrow> bool" where
  "world_ok L S N O' w \<longleftrightarrow> entries_ok L S N O' (wd_cache w) \<and> infra_ok (wd_infra w) \<and> agg_ok (wd_nsec w)
     \<and> store_all (\<lambda>r. \<exists>den. proved_denial L S N O' den \<and> r \<in> set den) (wd_nsec w)"

text \<open>A denial the store of proofs derives for a name while it holds only records of proved denials.\<close>

definition synthesised :: "dnslib \<Rightarrow> seclib \<Rightarrow> 'n net \<Rightarrow> ropts \<Rightarrow> string \<Rightarrow> rr list \<Rightarrow> bool" where
  "synthesised L S N O' n au \<longleftrightarrow> (\<exists>t s d s'. agg_ok s \<and> store_all (\<lambda>r. \<exists>den. proved_denial L S N O' den \<and> r \<in> set den) s
     \<and> agg_ProveNXDOMAIN L S n t s = Some (Some d, s') \<and> au = dn_Authority d)"

lemma entries_Get:
  assumes "entries_ok L S N O' c" "cache_Get (nt_hash N) t k c = (e, c')"
  shows "entries_ok L S N O' c' \<and> (\<forall>x. e = Some x \<longrightarrow> (e_Authenticated x \<longrightarrow> entry_proven (proved_answer L S N O') (proved_denial L S N O') x)
    \<and> (e_Kind x = KindNegative \<longrightarrow> \<not> e_Validated x))"
proof -
  have ok: "cache_ok (nt_hash N) c" using assms(1) by (simp add: entries_ok_def)
  note G = Get_stored [OF ok, of t k] cache_Get_ok [OF ok, of t k]
  show ?thesis
    using assms G by (auto simp: entries_ok_def Peek_stored purge_def split: option.splits if_splits)
qed

lemma Get_again:
  assumes "cache_ok H c"
  shows "fst (cache_Get H t k (snd (cache_Get H t k c))) = fst (cache_Get H t k c)"
proof -
  have "cache_ok H (snd (cache_Get H t k c))" using cache_Get_ok [OF assms] by simp
  from Get_stored(1) [OF this, of t k] show ?thesis
    using Get_stored [OF assms, of t k] by (auto simp: Peek_stored purge_def dead_def split: option.splits)
qed

lemma entries_Put:
  assumes ok: "entries_ok L S N O' c" and e: "e_Authenticated e \<Longrightarrow> entry_proven (proved_answer L S N O') (proved_denial L S N O') e"
    and n: "e_Kind e = KindNegative \<Longrightarrow> \<not> e_Validated e"
  shows "\<exists>c'. cache_Put (nt_hash N) t k e ttl c = Some c' \<and> entries_ok L S N O' c'"
proof -
  have c: "cache_ok (nt_hash N) c" using ok by (simp add: entries_ok_def)
  obtain c' where c': "cache_Put (nt_hash N) t k e ttl c = Some c'" "cache_ok (nt_hash N) c'" using cache_Put_ok [OF c] by blast
  have "entries_ok L S N O' c'"
  proof (cases "0 < clamp (ca_opts c) (e_Kind e) ttl")
    case True
    have st: "stored (nt_hash N) c' k = Some (e\<lparr>e_Stored := t, e_Expiry := t + clamp (ca_opts c) (e_Kind e) ttl\<rparr>)"
      "\<forall>k'. k' \<noteq> k \<longrightarrow> stored (nt_hash N) c' k' \<in> {stored (nt_hash N) c k', None}"
      using Put_stored [OF c True, of t k] c' by auto
    have "entry_proven p q (e\<lparr>e_Stored := a, e_Expiry := b\<rparr>) = entry_proven p q e" for p q a b
      by (simp add: entry_proven_def split: kind.split)
    then have "entry_proven (proved_answer L S N O') (proved_denial L S N O') x"
      if "stored (nt_hash N) c' k' = Some x" "e_Authenticated x" for k' x
      using that st ok e by (cases "k' = k") (auto simp: entries_ok_def)
    moreover have "\<not> e_Validated x" if "stored (nt_hash N) c' k' = Some x" "e_Kind x = KindNegative" for k' x
      using that st ok n by (cases "k' = k") (auto simp: entries_ok_def)
    ultimately show ?thesis using c'(2) by (simp add: entries_ok_def)
  next
    case False
    with c'(1) ok show ?thesis by (simp add: cache_Put_def Let_def)
  qed
  with c' show ?thesis by blast
qed

section \<open>The components provide the engine's interface\<close>

locale world_setup = name_steps L for L :: dnslib +
  fixes S :: seclib and N :: "'n net" and O' :: ropts
  assumes sort_keeps: "keeps_records (nt_sort N)"
    and order_keeps: "set (nt_SetOrder N ks) = set ks"
    and root_anchors: "ro_Validator O' = Some V \<Longrightarrow> anchored L V (nt_Now N)"
    and max_outbound: "0 \<le> ro_MaxOutbound O'"
begin

lemma runs_with_cache:
  assumes "world_ok L S N O' w" "\<exists>c. f (wd_now N w) (wd_cache w) = Some c \<and> entries_ok L S N O' c"
  shows "runs (with_cache N f) w (\<lambda>_ w'. world_ok L S N O' w' \<and> wd_sent w' = wd_sent w)"
  using assms by (auto simp: runs_def with_cache_def world_ok_def)

lemma runs_with_infra:
  assumes "world_ok L S N O' w" "\<And>t i. \<exists>g. f t i = infra_update (nt_ihash N) t a g i"
  shows "runs (with_infra N f) w (\<lambda>_ w'. world_ok L S N O' w' \<and> wd_sent w' = wd_sent w)"
proof -
  obtain g where "f (wd_now N w) (wd_infra w) = infra_update (nt_ihash N) (wd_now N w) a g (wd_infra w)" using assms(2) by blast
  with assms(1) infra_update_ok [of "wd_infra w" "nt_ihash N" "wd_now N w" a g] show ?thesis
    by (auto simp: runs_def with_infra_def world_ok_def)
qed

lemma runs_ask_infra:
  assumes "world_ok L S N O' w" "\<And>t i. snd (f t i) = snd (infra_Stat (nt_ihash N) a i)"
  shows "runs (ask_infra N f) w (\<lambda>_ w'. world_ok L S N O' w' \<and> wd_sent w' = wd_sent w)"
  using assms(1) assms(2) [of "wd_now N w" "wd_infra w"] infra_Stat_state [of "wd_infra w" "nt_ihash N" a]
  by (cases "f (wd_now N w) (wd_infra w)") (auto simp: runs_def ask_infra_def world_ok_def)

lemma world_entries: "world_ok L S N O' w \<Longrightarrow> entries_ok L S N O' (wd_cache w)"
  by (simp add: world_ok_def)

lemma runs_draw: "world_ok L S N O' w \<Longrightarrow> runs (draw f) w (\<lambda>_ w'. world_ok L S N O' w' \<and> wd_sent w' = wd_sent w)"
  by (cases "f (wd_net w)") (auto simp: runs_def draw_def world_ok_def)

lemma entries_putRRset:
  assumes "entries_ok L S N O' c" "au \<Longrightarrow> proved_answer L S N O' rrs"
  shows "\<exists>c'. putRRset (nt_hash N) t k rrs au v c = Some c' \<and> entries_ok L S N O' c'"
  using assms by (cases rrs) (auto simp: putRRset_def entry_proven_def intro!: entries_Put)

lemma entries_PutNegative:
  assumes "entries_ok L S N O' c" "au \<Longrightarrow> \<exists>den. proved_denial L S N O' den \<and> set rrs \<subseteq> set den"
  shows "\<exists>c'. PutNegative (nt_hash N) t k rc rrs ttl au c = Some c' \<and> entries_ok L S N O' c'"
  unfolding PutNegative_def by (rule entries_Put) (use assms in \<open>auto simp: entry_proven_def\<close>)

lemma made_of_pieced: "made_of L (\<lambda>r. \<exists>den. P den \<and> r \<in> set den) au \<Longrightarrow> pieced L P au"
  unfolding made_of_def pieced_def aged_def set_ttl_def Let_def by blast

lemma runs_prove:
  assumes w: "world_ok L S N O' w"
  shows "runs (re_ProveNXDOMAIN (world_env L S N) n t) w (\<lambda>d w'. (world_ok L S N O' w' \<and> wd_sent w' = wd_sent w)
    \<and> (\<forall>au. d = Some au \<longrightarrow> synthesised L S N O' n au))"
proof -
  obtain d s where p: "agg_ProveNXDOMAIN L S n t (wd_nsec w) = Some (d, s)"
    using synthesis_total [OF name_steps_axioms] by blast
  show ?thesis
    using w agg_ProveNXDOMAIN_ok [OF _ p] ProveNXDOMAIN_all [OF _ p, of "\<lambda>r. \<exists>den. proved_denial L S N O' den \<and> r \<in> set den"] p
    by (auto simp: runs_def world_env_def world_ok_def synthesised_def)
qed

lemma world_anchors: "ro_Validator O' = Some V \<Longrightarrow> anchored L V (wd_now N)"
  using root_anchors by (simp add: anchored_def wd_now_def)

lemma synthesised_pieced: "synthesised L S N O' n au \<Longrightarrow> au \<noteq> [] \<and> pieced L (proved_denial L S N O') au"
  unfolding synthesised_def by (elim exE conjE, simp, intro conjI, erule ProveNXDOMAIN_nonempty)
    (rule made_of_pieced, drule (1) ProveNXDOMAIN_all, simp)

end

text \<open>So the world of the components is an environment for the engine: the laws hold with the components' own invariants.\<close>

sublocale world_setup \<subseteq> secure_engine L "world_env L S N" O' "world_ok L S N O'" wd_sent
    "proved_answer L S N O'" "proved_denial L S N O'" "synthesised L S N O'" S
proof (unfold_locales, goal_cases)
  case (1 w k)
  then show ?case using entries_Get [of L S N O' "wd_cache w" "wd_now N w" k]
    by (auto simp: runs_def world_env_def world_ok_def split: prod.splits)
next
  case (2 w k e w')
  then show ?case using Get_again [of "nt_hash N" "wd_cache w" "wd_now N w" k] world_entries [OF 2(1)]
    by (auto simp: world_env_def wd_now_def entries_ok_def split_beta Let_def)
next
  case (3 w k rrs)
  show ?case
    by (simp add: world_env_def, rule runs_with_cache [OF 3], simp only: PutRRset_def, rule entries_putRRset [OF world_entries [OF 3]]) simp
next
  case (4 au rrs w k)
  show ?case
    by (simp add: world_env_def, rule runs_with_cache [OF 4(2)], simp only: PutValidated_def, rule entries_putRRset [OF world_entries [OF 4(2)] 4(1)])
next
  case (5 au rrs w k rc ttl)
  show ?case
    by (simp add: world_env_def, rule runs_with_cache [OF 5(2)], rule entries_PutNegative [OF world_entries [OF 5(2)] 5(1)])
next
  case (12 w n t)
  then show ?case by (rule runs_prove)
next
  case (13 rrs w t)
  then show ?case using sort_keeps
    by (auto simp: runs_def world_env_def world_ok_def intro!: agg_Put_ok store_all_Put)
next
  case (16 w pr ad m)
  then show ?case by (auto simp: runs_def world_env_def world_ok_def split: prod.splits)
qed (auto simp: world_env_def infra_Usable_def infra_RTT_def infra_EDNSBroken_def MarkEDNSBroken_def infra_Success_def infra_Failure_def
      proved_answer_def proved_denial_def world_anchors max_outbound order_keeps split_beta Let_def
      intro!: runs_ask_infra runs_draw runs_with_infra)

context world_setup
begin

lemma world_serve:
  assumes "world_ok L S N O' (rs_env s)" "m_Question (rq_Msg req) \<noteq> []"
  shows "runs (rec_ServeDNS L S (world_env L S N) O' refresh req) (inh, s) (\<lambda>m (inh', s').
      (m_AuthenticatedData m \<longrightarrow> authentic L S (proved_answer L S N O') (proved_denial L S N O') (synthesised L S N O')
         (CanonicalName L (q_Name (hd (m_Question (rq_Msg req))))) (q_Qtype (hd (m_Question (rq_Msg req)))) (m_Rcode m) (m_Answer m) (m_Ns m))
      \<and> world_ok L S N O' (rs_env s') \<and> int (rm_OutboundQueries (rs_m s')) \<le> int (rm_OutboundQueries (rs_m s)) + ro_MaxOutbound O'
      \<and> int (wd_sent (rs_env s')) \<le> int (wd_sent (rs_env s)) + 3 * ro_MaxOutbound O')"
  by (rule serve_authentic [OF assms])

end

section \<open>Any queries, any network\<close>

definition metrics0 :: rmetrics where
  "metrics0 = \<lparr>rm_AnsweredFromCache = 0, rm_Referrals = 0, rm_BogusReferrals = 0, rm_OutboundQueries = 0, rm_OutboundFailures = 0,
     rm_DepthExceeded = 0, rm_BudgetExceeded = 0, rm_CaseMismatch = 0, rm_GluelessLookups = 0, rm_EDNSDowngrades = 0, rm_TCPFallbacks = 0,
     rm_CNAMEChased = 0, rm_MinimiseFallback = 0, rm_Secure = 0, rm_Insecure = 0, rm_Bogus = 0, rm_ValidationUnavailable = 0,
     rm_SynthesisedDenials = 0\<rparr>"

text \<open>The states of a running resolver: a fresh start, queries served, time passing and sweeps of the denial store.\<close>

inductive world_reach :: "dnslib \<Rightarrow> seclib \<Rightarrow> 'n net \<Rightarrow> ropts \<Rightarrow> 'n world rstate vstate \<Rightarrow> bool" for L S N O' where
  world_start: "cache_New co = Inr c \<Longrightarrow> co_Shards co < 2 ^ 63 \<Longrightarrow> NewInfra io = Inr i \<Longrightarrow> io_Shards io < 2 ^ 63 \<Longrightarrow>
    world_reach L S N O' ({}, \<lparr>rs_env = \<lparr>wd_cache = c, wd_infra = i, wd_nsec = agg_New ao, wd_net = n, wd_sent = 0\<rparr>,
      rs_hints = hints, rs_m = metrics0, rs_q = q\<rparr>)"
| world_query: "world_reach L S N O' st \<Longrightarrow> rec_ServeDNS L S (world_env L S N) O' refresh req st = Some (m, st') \<Longrightarrow> world_reach L S N O' st'"
| world_wait: "world_reach L S N O' (inh, s) \<Longrightarrow> world_reach L S N O' (inh, s\<lparr>rs_env := (rs_env s)\<lparr>wd_net := n\<rparr>\<rparr>)"
| world_sweep: "world_reach L S N O' (inh, s) \<Longrightarrow>
    world_reach L S N O' (inh, s\<lparr>rs_env := (rs_env s)\<lparr>wd_nsec := snd (agg_Sweep t (wd_nsec (rs_env s)))\<rparr>\<rparr>)"

lemma store_all_Sweep: "store_all P s \<Longrightarrow> store_all P (snd (agg_Sweep t s))"
  by (fastforce simp: store_all_def agg_Sweep_def zone_all_def sweep_zone_def Let_def split: if_splits)

lemma world_reach_ok:
  assumes "world_setup L N O'"
  shows "world_reach L S N O' st \<Longrightarrow> world_ok L S N O' (rs_env (snd st))"
proof (induction rule: world_reach.induct)
  case (world_start co c io i ao n hints q)
  then show ?case using cache_ok_New [of co c "nt_hash N"] infra_ok_New [of io i] agg_ok_New store_all_New New_stored [of co c "nt_hash N"]
    by (simp add: world_ok_def entries_ok_def)
next
  case (world_query st refresh req m st')
  obtain inh s where st: "st = (inh, s)" by fastforce
  have "m_Question (rq_Msg req) \<noteq> []" using world_query.hyps(2) by (auto simp: rec_ServeDNS_def)
  from world_setup.world_serve [OF assms _ this, of S s refresh inh] world_query st show ?case
    by (auto simp: runs_def)
next
  case (world_wait inh s n)
  then show ?case by (simp add: world_ok_def)
next
  case (world_sweep inh s t)
  then show ?case by (simp add: world_ok_def agg_Sweep_ok store_all_Sweep)
qed

text \<open>C2. Every query is answered within its budget: in every state that any sequence of queries reaches, against any network, a
  request with a question gets a response, for which at most \<open>MaxOutbound\<close> exchanges are counted and at most three
  messages per exchange are sent, however the servers answer, refer, alias and truncate, and with
  validation included. When a validator is configured, it is assumed that whenever the clock is read one of its anchors for the root is
  inside its validity period, as the shipped anchors are from February 2017 on.\<close>

theorem every_query_answered:
  assumes "world_setup L N O'" and "world_reach L S N O' (inh, s)" and "m_Question (rq_Msg req) \<noteq> []"
  shows "\<exists>m inh' s'. rec_ServeDNS L S (world_env L S N) O' refresh req (inh, s) = Some (m, inh', s')
    \<and> int (rm_OutboundQueries (rs_m s')) \<le> int (rm_OutboundQueries (rs_m s)) + ro_MaxOutbound O'
    \<and> int (wd_sent (rs_env s')) \<le> int (wd_sent (rs_env s)) + 3 * ro_MaxOutbound O'"
  using world_setup.world_serve [OF assms(1) _ assms(3), of S s refresh inh] world_reach_ok [OF assms(1,2)]
  by (auto simp: runs_def)

text \<open>C1. The AD bit is sound over the life of the resolver: a response carries it only in one of three cases. Every RRset of its answer was verified with
  keys linked to a trust anchor by signed DS records, when the answer was fetched or when it was cached. Or it has no answer, its
  authority section is a denial verified with such keys, and that section proves that the name asked for does not exist (when the response says so) or has no
  record of the type. Or it says that the name does not exist and was synthesised for that name by the store of denial proofs, and then its authority section
  is not empty and made of records of such verified denials. When a validator is configured, it is assumed that whenever the clock is read one of its anchors
  for the root is inside its validity period.\<close>

theorem ad_bit_sound:
  assumes "world_setup L N O'" and "world_reach L S N O' st"
    and "rec_ServeDNS L S (world_env L S N) O' refresh req st = Some (m, st')" and "m_AuthenticatedData m"
  shows "let q = hd (m_Question (rq_Msg req)); name = CanonicalName L (q_Name q) in
      (\<exists>rrs. proved_answer L S N O' rrs \<and> (m_Answer m = rrs \<or> list_all2 (aged L) rrs (m_Answer m)))
    \<or> m_Answer m = [] \<and> proved_denial L S N O' (m_Ns m) \<and> denies L S (m_Rcode m) (m_Ns m) name (q_Qtype q)
    \<or> m_Answer m = [] \<and> m_Rcode m = RcodeNameError \<and> synthesised L S N O' name (m_Ns m)
        \<and> m_Ns m \<noteq> [] \<and> pieced L (proved_denial L S N O') (m_Ns m)"
proof -
  obtain inh s where st: "st = (inh, s)" by fastforce
  let ?q = "hd (m_Question (rq_Msg req))"
  have "m_Question (rq_Msg req) \<noteq> []" using assms(3) by (auto simp: rec_ServeDNS_def)
  from world_setup.world_serve [OF assms(1) _ this, of S s refresh inh] world_reach_ok [OF assms(1,2)] assms(3,4) st
  have "authentic L S (proved_answer L S N O') (proved_denial L S N O') (synthesised L S N O') (CanonicalName L (q_Name ?q)) (q_Qtype ?q)
      (m_Rcode m) (m_Answer m) (m_Ns m)" by (auto simp: runs_def)
  then show ?thesis using world_setup.synthesised_pieced [OF assms(1), of S] unfolding authentic_def Let_def by blast
qed

section \<open>A concrete world\<close>

declare trim.simps [code] infra_evict.simps [code]

text \<open>One root server with one self-signed key set, a validator whose anchor for it became valid at time 1, and a clock that starts then
  and ticks with every exchange.\<close>

definition live_validator :: validator where
  "live_validator = \<lparr>va_anchors = [root_anchor\<lparr>an_ValidFrom := 1, an_ValidUntil := 0\<rparr>], va_maxDep = 16, va_sha1 = False\<rparr>"

definition root_server :: "dmsg \<Rightarrow> dmsg" where
  "root_server m = (reply_to m)\<lparr>m_Answer := [dnskey_rr root_key, \<lparr>rr_hdr = fst root_sig, rr_data = RRRSIG (snd root_sig)\<rparr>]\<rparr>"

definition test_net :: "nat net" where
  "test_net = \<lparr>nt_Exchange = (\<lambda>pr a m n. (Some (root_server m), Suc n)), nt_Rand = (\<lambda>n. (\<lambda>_. 0, n)), nt_Id = (\<lambda>n. (7, n)),
     nt_Now = (\<lambda>n. int n + 1), nt_CtxErr = (\<lambda>n. False), nt_hash = (\<lambda>_. 0), nt_ihash = (\<lambda>_. 0), nt_sort = test_sort,
     nt_KeyOrder = (\<lambda>ks. ks), nt_SetOrder = (\<lambda>ks. ks), nt_ErrText = (\<lambda>_. []), nt_SecText = (\<lambda>_. [])\<rparr>"

definition test_ropts :: ropts where
  "test_ropts = \<lparr>ro_MaxDepth = 16, ro_MaxOutbound = 32, ro_MaxCNAME = 8, ro_QueryTimeout = 2 * second, ro_UDPSize = 1232, ro_ServerPort = 53,
     ro_NSEC = False, ro_QNAMEMinimisation = False, ro_CaseRandomisation = False, ro_Validator = Some live_validator,
     ro_UseIPv4 = True, ro_UseIPv6 = True\<rparr>"

definition test_world :: "nat world" where
  "test_world = \<lparr>wd_cache = test_cache, wd_infra = test_infra, wd_nsec = agg_New \<lparr>ao_MaxZones = 0, ao_MaxRecordsPerZone = 0\<rparr>, wd_net = 0, wd_sent = 0\<rparr>"

definition test_state :: "nat world rstate vstate" where
  "test_state = ({}, \<lparr>rs_env = test_world, rs_hints = [\<lparr>ns_Name = ''a.root.'', ns_Addrs = [test_server]\<rparr>], rs_m = metrics0,
     rs_q = \<lparr>qs_outbound = 0, qs_cnames = 0, qs_nsDepth = 0, qs_maxOutTrip = 0\<rparr>\<rparr>)"

definition test_query :: "string \<Rightarrow> u16 \<Rightarrow> request" where
  "test_query n t = \<lparr>rq_Msg = ask_for n t, rq_Client = test_server, rq_Local = test_server, rq_Proto = ProtoUDP, rq_Internal = False,
     rq_Received = 0, rq_MaxResponseSize = 1232\<rparr>"

interpretation test_setup: world_setup ref_lib ref_sec test_net test_ropts
proof unfold_locales
  show "keeps_records (nt_sort test_net)" by (simp add: test_net_def test_sort_keeps)
  show "ro_Validator test_ropts = Some V \<Longrightarrow> anchored ref_lib V (nt_Now test_net)" for V
    by (auto simp: test_ropts_def test_net_def anchored_def AnchorsFor_def live_validator_def root_anchor_def anchor_Valid_def)
qed (simp_all add: test_net_def test_ropts_def)

lemma test_state_reach: "world_reach L S N O' test_state"
proof -
  have "cache_New test_opts = Inr test_cache" by (simp add: cache_New_def test_opts_def test_cache_def second_def)
  then show ?thesis
    unfolding test_state_def test_world_def
    by (intro world_start [of test_opts test_cache test_iopts test_infra] test_infra_New) (simp_all add: test_opts_def test_iopts_def)
qed

text \<open>The shipped anchors (\<open>internal/dnssec/root-anchors.xml\<close>) with a clock in their validity: the second one has been valid since 2 February 2017.\<close>

definition date :: "int \<Rightarrow> gtime" where
  "date unix = (62135596800 + unix) * second"

definition ksk :: "u16 \<Rightarrow> string \<Rightarrow> gtime \<Rightarrow> gtime \<Rightarrow> anchor" where
  "ksk tag digest from until = \<lparr>an_Zone = ''.'', an_KeyTag = tag, an_Algorithm = 8, an_DigestType = 2, an_Digest = digest,
     an_ValidFrom = from, an_ValidUntil = until\<rparr>"

definition shipped_anchors :: "anchor list" where
  "shipped_anchors =
    [ksk 19036 ''49AAC11D7B6F6446702E54A1607371607A1A41855200FD2CE1CDDE32F24E8FB5'' (date 1279152000) (date 1547164800),
     ksk 20326 ''E06D44B80B8F1D39A95C0B0D7C65D08458E880409BBC683457104237C7F8EC8D'' (date 1485993600) 0,
     ksk 38696 ''683D2D0ACB8C9B712A1948B27F741219298D0A450D612C483AF444A4C0FB2B16'' (date 1721260800) 0]"

definition shipped_validator :: validator where
  "shipped_validator = \<lparr>va_anchors = shipped_anchors, va_maxDep = 16, va_sha1 = False\<rparr>"

lemma shipped_anchored: "(\<And>e. date 1485993600 \<le> clock e) \<Longrightarrow> anchored L shipped_validator clock"
proof -
  assume t: "\<And>e. date 1485993600 \<le> clock e"
  let ?a = "ksk 20326 ''E06D44B80B8F1D39A95C0B0D7C65D08458E880409BBC683457104237C7F8EC8D'' (date 1485993600) 0"
  have "?a \<in> set shipped_anchors" by (simp add: shipped_anchors_def)
  moreover have "anchor_Valid ?a (clock e)" for e using t [of e] by (simp add: anchor_Valid_def ksk_def)
  moreover have "an_Zone ?a = ''.''" by (simp add: ksk_def)
  ultimately show ?thesis unfolding anchored_def AnchorsFor_def Let_def filter_empty_conv shipped_validator_def by force
qed

definition shipped_net :: "nat net" where
  "shipped_net = test_net\<lparr>nt_Now := (\<lambda>n. date 1750000000 + int n)\<rparr>"

definition shipped_ropts :: ropts where
  "shipped_ropts = test_ropts\<lparr>ro_Validator := Some shipped_validator\<rparr>"

interpretation shipped_setup: world_setup ref_lib ref_sec shipped_net shipped_ropts
proof unfold_locales
  show "keeps_records (nt_sort shipped_net)" by (simp add: shipped_net_def test_net_def test_sort_keeps)
  show "ro_Validator shipped_ropts = Some V \<Longrightarrow> anchored ref_lib V (nt_Now shipped_net)" for V
    by (auto simp: shipped_ropts_def shipped_net_def date_def second_def intro!: shipped_anchored)
qed (simp_all add: shipped_net_def test_net_def shipped_ropts_def test_ropts_def)

theorem every_query_answered_witness:
  "\<exists>m inh s. rec_ServeDNS ref_lib ref_sec (world_env ref_lib ref_sec shipped_net) shipped_ropts False (test_query ''www.example.'' TypeA) test_state
     = Some (m, inh, s) \<and> wd_sent (rs_env s) \<le> 96"
proof -
  have "m_Question (rq_Msg (test_query ''www.example.'' TypeA)) \<noteq> []" by (simp add: test_query_def ask_for_def)
  from every_query_answered [OF shipped_setup.world_setup_axioms test_state_reach [unfolded test_state_def] this, of ref_sec False]
  show ?thesis by (auto simp: test_state_def test_world_def shipped_ropts_def test_ropts_def)
qed

theorem ad_bit_sound_witness:
  "let r = rec_ServeDNS ref_lib open_sec (world_env ref_lib open_sec test_net) test_ropts False (test_query ''.'' TypeDNSKEY) test_state
   in m_AuthenticatedData (fst (the r)) \<and> (\<exists>rrs. proved_answer ref_lib open_sec test_net test_ropts rrs)"
proof -
  let ?r = "rec_ServeDNS ref_lib open_sec (world_env ref_lib open_sec test_net) test_ropts False (test_query ''.'' TypeDNSKEY) test_state"
  have a: "map_option (\<lambda>(m, _). (m_AuthenticatedData m, m_Answer m)) ?r = Some (True, [dnskey_rr root_key])" by code_simp
  then obtain m st where r: "?r = Some (m, st)" and m: "m_AuthenticatedData m" "m_Answer m = [dnskey_rr root_key]" by auto
  from ad_bit_sound [OF test_setup.world_setup_axioms test_state_reach r m(1)] m r show ?thesis by auto
qed

end
