(* ===== verification/Validation_Limits.thy ===== *)
theory Validation_Limits
  imports Resolver_World
begin

text \<open>
  Where validation stops short: what \<open>ServeDNS\<close> of \<open>resolver/recursive.go\<close> does with a result that \<open>validateDenial\<close>
  cannot place in a zone, and with a validator none of whose anchors is valid.
\<close>

definition fresh_query :: "ropts \<Rightarrow> 'w rstate \<Rightarrow> 'w rstate" where
  "fresh_query O' s = s\<lparr>rs_q := \<lparr>qs_outbound = 0, qs_cnames = 0, qs_nsDepth = 0, qs_maxOutTrip = ro_MaxOutbound O'\<rparr>\<rparr>"

lemma bind_step: "m s = Some (a, s') \<Longrightarrow> bind m f s = f a s'"
  by (simp add: bind_def)

lemma bind_on_state: "on_state m s = Some (a, s') \<Longrightarrow> bind (on_state m) f s = f a s'"
  by (rule bind_step)

lemma bind_maybe: "(if c then on_state m else ret a) s = Some (b, s') \<Longrightarrow> bind (if c then on_state m else ret a) f s = f b s'"
  by (rule bind_step)

lemma bind_validate: "validateResult L S E O' refresh V res n t s = Some ((a, b), s') \<Longrightarrow>
    bind (validateResult L S E O' refresh V res n t) f s = f (a, b) s'"
  by (rule bind_step)

text \<open>A resolvable request, up to its validation.\<close>

lemma serve_validates:
  assumes "ro_Validator O' = Some V" and "m_Question (rq_Msg req) = q # qs" and "q_Qclass q = ClassINET" and "q_Qtype q \<notin> {TypeAXFR, TypeIXFR, TypeOPT}"
    and "resolve L E O' refresh (query_fuel O') (CanonicalName L (q_Name q)) (q_Qtype q) (fresh_query O' s) = Some (Inr res, s1)"
    and "res_secure res = StatusIndeterminate"
  shows "\<exists>s2. rec_ServeDNS L S E O' refresh req (inh, s) =
    bind (validateResult L S E O' refresh V res (CanonicalName L (q_Name q)) (q_Qtype q)) (\<lambda>(status, verr).
      bind (on_state (apply_verdict L E O' (rq_Msg req) q res status verr)) (\<lambda>v. case v of
          Inl m \<Rightarrow> ret m | Inr res' \<Rightarrow> ret (answer_msg L (rq_Msg req) res'))) (inh, s2)"
proof -
  define s2 where "s2 = (if qs_outbound (rs_q s1) = 0 \<and> \<not> rq_Internal req
      then s1\<lparr>rs_m := (rs_m s1)\<lparr>rm_AnsweredFromCache := Suc (rm_AnsweredFromCache (rs_m s1))\<rparr>\<rparr> else s1)"
  have 1: "on_state (start_query O') (inh, s) = Some ((), inh, fresh_query O' s)"
    by (simp add: on_state_def start_query_def modify_run_def fresh_query_def)
  have 2: "on_state (resolve L E O' refresh (query_fuel O') (CanonicalName L (q_Name q)) (q_Qtype q)) (inh, fresh_query O' s) = Some (Inr res, inh, s1)"
    using assms(5) by (simp add: on_state_def)
  have 3: "on_state (get_run (\<lambda>s. qs_outbound (rs_q s))) (inh, s1) = Some (qs_outbound (rs_q s1), inh, s1)"
    by (simp add: on_state_def get_run_def)
  have 4: "(if qs_outbound (rs_q s1) = 0 \<and> \<not> rq_Internal req
      then on_state (count (\<lambda>m. m\<lparr>rm_AnsweredFromCache := Suc (rm_AnsweredFromCache m)\<rparr>)) else ret ()) (inh, s1) = Some ((), inh, s2)"
    by (simp add: on_state_def count_def modify_run_def ret_def s2_def)
  have assoc: "bind (bind m f) g x = bind m (\<lambda>a. bind (f a) g) x" for m f g x
    by (simp add: bind_def split: option.splits)
  have "rec_ServeDNS L S E O' refresh req (inh, s) = bind (validateResult L S E O' refresh V res (CanonicalName L (q_Name q)) (q_Qtype q)) (\<lambda>(status, verr).
      bind (on_state (apply_verdict L E O' (rq_Msg req) q res status verr)) (\<lambda>v. case v of
          Inl m \<Rightarrow> ret m | Inr res' \<Rightarrow> ret (answer_msg L (rq_Msg req) res'))) (inh, s2)"
    using assms(1-4,6) unfolding rec_ServeDNS_def
    by (simp add: bind_on_state [OF 1] bind_on_state [OF 2] bind_on_state [OF 3] bind_maybe [OF 4] assoc split_def)
  then show ?thesis by blast
qed

text \<open>C35. A denial without an SOA record passes validation: with any validator, a response that denies the name and leaves its authority section
  empty, or without an SOA, is served with its response code, as insecure, whether or not the zone is signed.\<close>

theorem bare_denial_passes:
  assumes "ro_Validator O' = Some V" and "m_Question (rq_Msg req) = q # qs" and "q_Qclass q = ClassINET" and "q_Qtype q \<notin> {TypeAXFR, TypeIXFR, TypeOPT}"
    and "resolve L E O' refresh (query_fuel O') (CanonicalName L (q_Name q)) (q_Qtype q) (fresh_query O' s) = Some (Inr res, s1)"
    and "res_secure res = StatusIndeterminate" and "res_answer res = []" and "\<not> list_ex is_SOA_rr (res_authority res)"
  shows "\<exists>st. rec_ServeDNS L S E O' refresh req (inh, s) = Some (answer_msg L (rq_Msg req) (res\<lparr>res_secure := StatusInsecure\<rparr>), st)"
proof -
  have "first_some (\<lambda>r. if is_SOA_rr r then Some (CanonicalName L (rh_Name (rr_hdr r))) else None) (res_authority res) = None"
    using assms(8) by (auto simp: first_some_None list_ex_iff)
  then have "denial_zone L (res_authority res) = []" by (simp add: denial_zone_def)
  then have v: "validateResult L S E O' refresh V res n t st = Some ((StatusInsecure, None), st)" for n t st
    using assms(7) by (simp add: validateResult_def validateDenial_def ret_def)
  obtain s2 where e: "rec_ServeDNS L S E O' refresh req (inh, s) =
    bind (validateResult L S E O' refresh V res (CanonicalName L (q_Name q)) (q_Qtype q)) (\<lambda>(status, verr).
      bind (on_state (apply_verdict L E O' (rq_Msg req) q res status verr)) (\<lambda>v. case v of
          Inl m \<Rightarrow> ret m | Inr res' \<Rightarrow> ret (answer_msg L (rq_Msg req) res'))) (inh, s2)"
    using serve_validates [OF assms(1-6)] by blast
  have a: "on_state (apply_verdict L E O' (rq_Msg req) q res StatusInsecure None) (inh, s2) = Some (Inr (res\<lparr>res_secure := StatusInsecure\<rparr>),
      inh, s2\<lparr>rs_m := (rs_m s2)\<lparr>rm_Insecure := Suc (rm_Insecure (rs_m s2))\<rparr>\<rparr>)"
    using assms(7) by (simp add: on_state_def apply_verdict_def bind_def count_def modify_run_def ret_def)
  show ?thesis unfolding e bind_validate [OF v] prod.case bind_on_state [OF a] sum.case by (simp add: ret_def)
qed

lemma unanchored_keys:
  assumes dn: "dns_names L labels valid" and V: "\<And>t z. AnchorsFor L V t z = []"
  shows "valid zone \<Longrightarrow> CanonicalName L zone = zone \<Longrightarrow> depth + int (length (labels zone)) \<le> va_maxDep V \<Longrightarrow>
    trustedKeys L S ord V clock fetch zone depth s = Some (([], StatusIndeterminate, None), s)"
proof (induction "length (labels zone)" arbitrary: zone depth)
  case 0
  then have "zone = ''.''" using dns_names.labels_Nil [OF dn, of zone] by simp
  with 0 show ?case
    by (cases s) (simp add: trustedKeys.simps [of L S ord V clock fetch "''.''" depth] delegationSigners_def V bind_def get_run_def ret_def)
next
  case (Suc n)
  then have z: "zone \<noteq> ''.''" using dns_names.labels_root [OF dn] by force
  let ?p = "parentZone L zone"
  have p: "valid ?p \<and> CanonicalName L ?p = ?p \<and> length (labels ?p) = n"
  proof (cases "snd (NextLabel L zone 0)")
    case True
    then have "length (labels zone) = 1" using dns_names.next_end [OF dn] Suc.prems z by blast
    with True Suc z dns_names.root_valid [OF dn] dns_names.root_canon [OF dn] dns_names.labels_root [OF dn] show ?thesis
      by (auto simp: parentZone_def split: prod.splits)
  next
    case False
    then obtain i where i: "NextLabel L zone 0 = (i, False)" by (metis (full_types) prod.collapse)
    with dns_names.next_label [OF dn Suc.prems(1,2) i] Suc z show ?thesis
      by (auto simp: parentZone_def)
  qed
  have "trustedKeys L S ord V clock fetch ?p (depth + 1) s = Some (([], StatusIndeterminate, None), s)"
    by (rule Suc.hyps(1)) (use p Suc in auto)
  with Suc.prems Suc.hyps(2) z show ?case
    by (cases s) (simp add: trustedKeys.simps [of L S ord V clock fetch zone depth] delegationSigners_def V bind_def get_run_def ret_def)
qed

lemma visit_some:
  assumes "\<And>ks. set (re_SetOrder E ks) = set ks"
  shows "set (visit E sets) \<subseteq> set sets"
  using assms by (force simp: visit_def dest: weak_map_of_SomeI intro: map_of_SomeD)

text \<open>The zone whose keys \<open>validate\<close> asks for.\<close>

definition set_zone_of :: "dnslib \<Rightarrow> hrrsig list \<Rightarrow> setID \<Rightarrow> string" where
  "set_zone_of L sigs k = (case sigsForSet L sigs k of [] \<Rightarrow> fst k | s # _ \<Rightarrow> CanonicalName L (sig_SignerName (snd s)))"

lemma unanchored_loop:
  assumes dn: "dns_names L labels valid" and V: "\<And>t z. AnchorsFor L V t z = []"
  shows "\<forall>k \<in> fst ` set sets. valid (set_zone_of L sigs k) \<and> int (length (labels (CanonicalName L (set_zone_of L sigs k)))) \<le> va_maxDep V \<Longrightarrow>
    validate_loop L S E O' refresh V sigs sets worst s = Some ((if sets = [] then worst else StatusIndeterminate, None), s)"
proof (induction sets arbitrary: worst)
  case (Cons x sets)
  obtain k g where x: "x = (k, g)" by fastforce
  let ?z = "set_zone_of L sigs k"
  have "trusted L S E O' refresh V ?z s = Some (([], StatusIndeterminate, None), s)"
    unfolding trusted_def TrustedKeys_def option.case
    by (rule unanchored_keys [OF dn V]) (use Cons.prems x dns_names.canon_valid [OF dn] dns_names.canon_idem [OF dn] in auto)
  then have "validate_loop L S E O' refresh V sigs (x # sets) worst s = validate_loop L S E O' refresh V sigs sets StatusIndeterminate s"
    unfolding x validate_loop.simps Let_def set_zone_of_def [symmetric] by (simp add: bind_def downgrade_def)
  with Cons show ?case by simp
qed (simp add: ret_def)

text \<open>A validator without a valid anchor makes the handler panic: when no anchor is valid for any zone, an answer that has to be
  validated brings a verdict of indeterminate without an error, and reading its text is a nil dereference; the client gets no response.\<close>

theorem no_anchor_panics:
  assumes "dns_names L labels valid" and "\<And>t z. AnchorsFor L V t z = []"
    and "ro_Validator O' = Some V" and "m_Question (rq_Msg req) = q # qs" and "q_Qclass q = ClassINET" and "q_Qtype q \<notin> {TypeAXFR, TypeIXFR, TypeOPT}"
    and "resolve L E O' refresh (query_fuel O') (CanonicalName L (q_Name q)) (q_Qtype q) (fresh_query O' s) = Some (Inr res, s1)"
    and "res_secure res = StatusIndeterminate" and "\<exists>r \<in> set (res_answer res). \<not> is_RRSIG r"
    and "\<And>ks. set (re_SetOrder E ks) = set ks"
    and "\<And>k g. (k, g) \<in> set (fst (groupBySet L (res_answer res))) \<Longrightarrow> valid (set_zone_of L (res_sigs res) k) \<and> int (length (labels (CanonicalName L (set_zone_of L (res_sigs res) k)))) \<le> va_maxDep V"
  shows "rec_ServeDNS L S E O' refresh req (inh, s) = None"
proof -
  let ?sets = "fst (groupBySet L (res_answer res))"
  have ne: "?sets \<noteq> []" "res_answer res \<noteq> []" using assms(9) by (auto simp: groupBySet_def Let_def filter_empty_conv)
  have all: "set (visit E ?sets) = set ?sets"
    using visit_all [OF assms(10) group_distinct, of L "res_answer res"] visit_some [OF assms(10), of ?sets] by blast
  with ne have "visit E ?sets \<noteq> []" by auto
  moreover have "\<forall>k \<in> fst ` set (visit E ?sets). valid (set_zone_of L (res_sigs res) k)
      \<and> int (length (labels (CanonicalName L (set_zone_of L (res_sigs res) k)))) \<le> va_maxDep V" using assms(11) unfolding all by force
  ultimately have "validate_loop L S E O' refresh V (res_sigs res) (visit E ?sets) StatusSecure st = Some ((StatusIndeterminate, None), st)" for st
    using unanchored_loop [OF assms(1,2), of "visit E ?sets" "res_sigs res"] by simp
  with ne have "validateResult L S E O' refresh V res n t st = Some ((StatusIndeterminate, None), st)" for n t st
    by (simp add: validateResult_def validate_def Let_def)
  note v = this
  obtain s2 where e: "rec_ServeDNS L S E O' refresh req (inh, s) =
    bind (validateResult L S E O' refresh V res (CanonicalName L (q_Name q)) (q_Qtype q)) (\<lambda>(status, verr).
      bind (on_state (apply_verdict L E O' (rq_Msg req) q res status verr)) (\<lambda>v. case v of
          Inl m \<Rightarrow> ret m | Inr res' \<Rightarrow> ret (answer_msg L (rq_Msg req) res'))) (inh, s2)"
    using serve_validates [OF assms(3-8)] by blast
  have "on_state (apply_verdict L E O' (rq_Msg req) q res StatusIndeterminate None) (inh, s2) = None"
    by (simp add: on_state_def apply_verdict_def bind_def count_def modify_run_def)
  then show ?thesis unfolding e bind_validate [OF v] by (simp add: bind_def [of "on_state _"])
qed

section \<open>Both on a concrete network\<close>

lemma evaluated_result:
  assumes "map_option (\<lambda>(r, _). case r of Inl _ \<Rightarrow> None | Inr res \<Rightarrow> Some (f res)) x = Some (Some y)"
  shows "\<exists>res s. x = Some (Inr res, s) \<and> f res = y"
proof -
  obtain a b where x: "x = Some (a, b)" using assms by (cases x) auto
  with assms show ?thesis by (cases a) auto
qed

definition deny_net :: "nat net" where
  "deny_net = test_net\<lparr>nt_Exchange := (\<lambda>pr a m n. (Some ((reply_to m)\<lparr>m_Rcode := RcodeNameError\<rparr>), Suc n))\<rparr>"

text \<open>The network lies about a name below a signed root, and the resolver has the root's anchor.\<close>

theorem bare_denial_passes_witness:
  "let r = rec_ServeDNS ref_lib open_sec (world_env ref_lib open_sec deny_net) test_ropts False (test_query ''www.example.'' TypeA) test_state
   in r \<noteq> None \<and> m_Rcode (fst (the r)) = RcodeNameError"
proof -
  let ?E = "world_env ref_lib open_sec deny_net" and ?q = "test_query ''www.example.'' TypeA" and ?s = "snd test_state"
  let ?r = "resolve ref_lib ?E test_ropts False (query_fuel test_ropts) (CanonicalName ref_lib ''www.example.'') TypeA (fresh_query test_ropts ?s)"
  have "map_option (\<lambda>(r, _). case r of Inl _ \<Rightarrow> None | Inr res \<Rightarrow> Some (res_secure res, res_answer res, res_authority res, res_rcode res)) ?r
      = Some (Some (StatusIndeterminate, [], [], RcodeNameError))" by code_simp
  from evaluated_result [OF this] obtain res s1 where r: "?r = Some (Inr res, s1)" and res: "res_secure res = StatusIndeterminate" "res_answer res = []"
      "res_authority res = []" "res_rcode res = RcodeNameError"
    by auto
  have st: "test_state = ({}, ?s)" by (simp add: test_state_def)
  have ropts: "ro_Validator test_ropts = Some live_validator" by (simp add: test_ropts_def)
  have "\<exists>st. rec_ServeDNS ref_lib open_sec ?E test_ropts False ?q ({}, ?s)
      = Some (answer_msg ref_lib (rq_Msg ?q) (res\<lparr>res_secure := StatusInsecure\<rparr>), st)"
    by (rule bare_denial_passes [of _ live_validator _ "\<lparr>q_Name = ''www.example.'', q_Qtype = TypeA, q_Qclass = ClassINET\<rparr>" "[]" _ _ _ _ _ s1])
      (use r res in \<open>simp_all add: ropts test_query_def ask_for_def dns_consts\<close>)
  then show ?thesis by (subst st) (auto simp: answer_msg_def res)
qed

definition unanchored_ropts :: ropts where
  "unanchored_ropts = test_ropts\<lparr>ro_Validator := Some (live_validator\<lparr>va_anchors := []\<rparr>)\<rparr>"

theorem no_anchor_panics_witness:
  "rec_ServeDNS ref_lib open_sec (world_env ref_lib open_sec test_net) unanchored_ropts False (test_query ''.'' TypeDNSKEY) test_state = None"
proof -
  let ?E = "world_env ref_lib open_sec test_net" and ?q = "test_query ''.'' TypeDNSKEY" and ?s = "snd test_state"
  let ?r = "resolve ref_lib ?E unanchored_ropts False (query_fuel unanchored_ropts) (CanonicalName ref_lib ''.'') TypeDNSKEY (fresh_query unanchored_ropts ?s)"
  have "map_option (\<lambda>(r, _). case r of Inl _ \<Rightarrow> None | Inr res \<Rightarrow> Some (res_secure res, res_answer res, res_sigs res)) ?r
      = Some (Some (StatusIndeterminate, [dnskey_rr root_key], [root_sig]))" by code_simp
  from evaluated_result [OF this] obtain res s1 where r: "?r = Some (Inr res, s1)" and res: "res_secure res = StatusIndeterminate" "res_answer res = [dnskey_rr root_key]"
      "res_sigs res = [root_sig]"
    by auto
  have g: "map fst (fst (groupBySet ref_lib [dnskey_rr root_key])) = [(''.'', TypeDNSKEY)]" by code_simp
  have z: "set_zone_of ref_lib [root_sig] (''.'', TypeDNSKEY) = ''.''" by code_simp
  have k: "k = (''.'', TypeDNSKEY)" if "(k, g') \<in> set (fst (groupBySet ref_lib [dnskey_rr root_key]))" for k g'
    using g that by (cases "fst (groupBySet ref_lib [dnskey_rr root_key])") auto
  have st: "test_state = ({}, ?s)" by (simp add: test_state_def)
  have ropts: "ro_Validator unanchored_ropts = Some (live_validator\<lparr>va_anchors := []\<rparr>)" by (simp add: unanchored_ropts_def)
  have "rec_ServeDNS ref_lib open_sec ?E unanchored_ropts False ?q ({}, ?s) = None"
    by (rule no_anchor_panics [OF ref.dns_names_axioms, of "live_validator\<lparr>va_anchors := []\<rparr>" _ _ "\<lparr>q_Name = ''.'', q_Qtype = TypeDNSKEY, q_Qclass = ClassINET\<rparr>" "[]" ?E False _ res s1])
      (use r res z k in \<open>auto simp: AnchorsFor_def ropts test_query_def ask_for_def dnskey_rr_def is_RRSIG_def dns_consts world_env_def test_net_def
         ref_valid_def ref_labels_def live_validator_def\<close>)
  then show ?thesis by (subst st)
qed

end
