(* ===== verification/Forward.thy ===== *)
theory Forward
  imports Recursive Cache_Correct "HOL-Library.Multiset"
begin

text \<open>
  \<open>internal/resolver/forward.go\<close>: the forwarding handler, which answers from the cache and asks configured upstreams
  on a miss. The state holds the upstreams with their round-trip estimates and backoff, the rotation counter, the counters, the RRset
  cache itself and the state of the network; a ghost field counts the messages sent. Networks are parameters as in the recursion
  engine. An upstream is a pointer in the source: \<open>order\<close> returns positions in the configured list.
\<close>

record upstream =
  up_addr :: "addr \<times> u16"
  up_srtt :: duration
  up_failures :: int
  up_downUntil :: gtime

record fwd_metrics =
  wm_CacheHits :: nat
  wm_CacheMisses :: nat
  wm_Upstream :: nat
  wm_UpstreamFail :: nat
  wm_TCPFallback :: nat
  wm_ServFail :: nat
  wm_Timeouts :: nat

record fwd_options =
  wo_Upstreams :: "(addr \<times> u16) list"
  wo_QueryTimeout :: duration
  wo_UDPSize :: u16

datatype fwd_error = ErrNoUpstream | DeadlineExceeded | NilResponse | OtherFailure

record 'n fnet =
  fn_Exchange :: "proto \<Rightarrow> addr \<times> u16 \<Rightarrow> dmsg \<Rightarrow> 'n \<Rightarrow> (fwd_error + dmsg option) \<times> 'n"
  fn_Id :: "'n \<Rightarrow> u16 \<times> 'n"
  fn_Now :: "'n \<Rightarrow> gtime"
  fn_CtxErr :: "'n \<Rightarrow> fwd_error option"
  fn_hash :: "ckey \<Rightarrow> 64 word"

record 'n fwd =
  fx_ups :: "upstream list"
  fx_rr :: "64 word"
  fx_m :: fwd_metrics
  fx_cache :: cache
  fx_net :: 'n
  fx_sent :: nat

definition new_upstream :: "addr \<times> u16 \<Rightarrow> upstream" where
  "new_upstream u = \<lparr>up_addr = u, up_srtt = second div 20, up_failures = 0, up_downUntil = 0\<rparr>"

definition NewForwarder :: "fwd_options \<Rightarrow> cache option \<Rightarrow> string option \<Rightarrow> 'n \<Rightarrow> string + fwd_options \<times> 'n fwd" where
  "NewForwarder o0 ca verifyErr n =
     (if length (wo_Upstreams o0) = 0 then Inl ''resolver: at least one upstream is required''
      else case ca of
        None \<Rightarrow> Inl ''resolver: cache is required''
      | Some c \<Rightarrow>
          let o1 = (if wo_QueryTimeout o0 \<le> 0 then o0\<lparr>wo_QueryTimeout := 2 * second\<rparr> else o0);
              o2 = (if wo_UDPSize o1 = 0 then o1\<lparr>wo_UDPSize := 1232\<rparr> else o1)
          in case verifyErr of
               Some e \<Rightarrow> Inl e
             | None \<Rightarrow> Inr (o2, \<lparr>fx_ups = map new_upstream (wo_Upstreams o2), fx_rr = 0,
                 fx_m = \<lparr>wm_CacheHits = 0, wm_CacheMisses = 0, wm_Upstream = 0, wm_UpstreamFail = 0, wm_TCPFallback = 0, wm_ServFail = 0,
                   wm_Timeouts = 0\<rparr>, fx_cache = c, fx_net = n, fx_sent = 0\<rparr>))"

section \<open>Upstreams\<close>

text \<open>The inner loop of the insertion sort, which moves the new element towards the front past larger ones; the sorted prefix is held
  back to front.\<close>

fun sink :: "('a \<Rightarrow> int) \<Rightarrow> 'a \<Rightarrow> 'a list \<Rightarrow> 'a list" where
  "sink key x [] = [x]"
| "sink key x (y # ys) = (if key x < key y then y # sink key x ys else x # y # ys)"

definition insertion_sort :: "('a \<Rightarrow> int) \<Rightarrow> 'a list \<Rightarrow> 'a list" where
  "insertion_sort key xs = rev (foldl (\<lambda>acc x. sink key x acc) [] xs)"

definition fwd_order :: "gtime \<Rightarrow> upstream list \<Rightarrow> 64 word \<Rightarrow> nat list \<times> 64 word" where
  "fwd_order now ups rr =
     (let down = (\<lambda>i. now < up_downUntil (ups ! i));
          live = insertion_sort (\<lambda>i. up_srtt (ups ! i)) (filter (\<lambda>i. \<not> down i) [0..<length ups]);
          backedOff = filter down [0..<length ups];
          rr' = (if length live > 1 then rr + 1 else rr);
          live' = (if length live > 1 \<and> rr' mod 16 = 0 then tl live @ [hd live] else live)
      in (live' @ backedOff, rr'))"

definition succeed :: "duration \<Rightarrow> upstream \<Rightarrow> upstream" where
  "succeed rtt u = (let v = int64_wrap (int64_wrap (up_srtt u * 7) + rtt) in
     u\<lparr>up_srtt := sgn v * (\<bar>v\<bar> div 8), up_failures := 0, up_downUntil := 0\<rparr>)"

definition penalise :: "gtime \<Rightarrow> upstream \<Rightarrow> upstream" where
  "penalise now u =
     (let u1 = u\<lparr>up_failures := up_failures u + 1, up_srtt := min (int64_wrap (up_srtt u * 2)) (5 * second)\<rparr>
      in if up_failures u1 \<ge> 3
         then u1\<lparr>up_downUntil := now + min (second * 2 ^ nat (up_failures u1 - 3)) (30 * second)\<rparr>
         else u1)"

section \<open>Asking upstream\<close>

definition fcount :: "(fwd_metrics \<Rightarrow> fwd_metrics) \<Rightarrow> ('n fwd, unit) run" where
  "fcount f = modify_run (\<lambda>s. s\<lparr>fx_m := f (fx_m s)\<rparr>)"

definition set_up :: "nat \<Rightarrow> (upstream \<Rightarrow> upstream) \<Rightarrow> ('n fwd, unit) run" where
  "set_up i f = modify_run (\<lambda>s. s\<lparr>fx_ups := (fx_ups s)[i := f (fx_ups s ! i)]\<rparr>)"

definition f_now :: "'n fnet \<Rightarrow> ('n fwd, gtime) run" where
  "f_now N = get_run (\<lambda>s. fn_Now N (fx_net s))"

definition f_send :: "'n fnet \<Rightarrow> proto \<Rightarrow> addr \<times> u16 \<Rightarrow> dmsg \<Rightarrow> ('n fwd, fwd_error + dmsg option) run" where
  "f_send N pr a m s = (let (r, n) = fn_Exchange N pr a m (fx_net s) in Some (r, s\<lparr>fx_net := n, fx_sent := Suc (fx_sent s)\<rparr>))"

fun exchange_loop :: "'n fnet \<Rightarrow> dmsg \<Rightarrow> nat list \<Rightarrow> fwd_error \<Rightarrow> ('n fwd, fwd_error + dmsg) run" where
  "exchange_loop N q [] lastErr = ret (Inl lastErr)"
| "exchange_loop N q (i # is) lastErr =
     bind (get_run (\<lambda>s. fn_CtxErr N (fx_net s))) (\<lambda>ctxErr. case ctxErr of Some e \<Rightarrow> ret (Inl e) | None \<Rightarrow>
     bind (f_now N) (\<lambda>start.
     bind (get_run (\<lambda>s. up_addr (fx_ups s ! i))) (\<lambda>a.
     bind (f_send N ProtoUDP a q) (\<lambda>r1.
     bind (case r1 of
             Inr (Some resp) \<Rightarrow>
               if m_Truncated resp
               then bind (fcount (\<lambda>m. m\<lparr>wm_TCPFallback := Suc (wm_TCPFallback m)\<rparr>)) (\<lambda>_. f_send N ProtoTCP a q)
               else ret r1
           | _ \<Rightarrow> ret r1) (\<lambda>r2.
     bind (fcount (\<lambda>m. m\<lparr>wm_Upstream := Suc (wm_Upstream m)\<rparr>)) (\<lambda>_. case r2 of
       Inr (Some resp) \<Rightarrow>
         bind (f_now N) (\<lambda>t.
         bind (set_up i (succeed (time_Sub t start))) (\<lambda>_. ret (Inr resp)))
     | _ \<Rightarrow>
         bind (fcount (\<lambda>m. m\<lparr>wm_UpstreamFail := Suc (wm_UpstreamFail m)\<rparr>)) (\<lambda>_.
         bind (f_now N) (\<lambda>t.
         bind (set_up i (penalise t)) (\<lambda>_.
         exchange_loop N q is (case r2 of Inl e \<Rightarrow> e | Inr _ \<Rightarrow> NilResponse)))))))))) "

definition fwd_exchange :: "dnslib \<Rightarrow> 'n fnet \<Rightarrow> fwd_options \<Rightarrow> dmsg \<Rightarrow> ('n fwd, fwd_error + dmsg) run" where
  "fwd_exchange L N opts req =
     bind (\<lambda>s. let (i, n) = fn_Id N (fx_net s) in Some (i, s\<lparr>fx_net := n\<rparr>)) (\<lambda>mid.
     let q0 = req\<lparr>m_Id := mid, m_RecursionDesired := True\<rparr>;
         q = (if IsEdns0 L q0 = None then SetEdns0 L (wo_UDPSize opts) False q0 else q0)
     in bind (\<lambda>s. let (is, rr) = fwd_order (fn_Now N (fx_net s)) (fx_ups s) (fx_rr s) in Some (is, s\<lparr>fx_rr := rr\<rparr>)) (\<lambda>is.
        exchange_loop N q is ErrNoUpstream))"

section \<open>Answering\<close>

definition finalise :: "dmsg \<Rightarrow> dmsg \<Rightarrow> dmsg" where
  "finalise req resp =
     (let r = resp\<lparr>m_Id := m_Id req, m_Response := True, m_Opcode := m_Opcode req, m_RecursionDesired := m_RecursionDesired req,
            m_RecursionAvailable := True, m_AuthenticatedData := False\<rparr>
      in if length (m_Question resp) = 0 then r\<lparr>m_Question := m_Question req\<rparr> else r)"

definition fromCache :: "dnslib \<Rightarrow> dmsg \<Rightarrow> centry \<Rightarrow> gtime \<Rightarrow> dmsg" where
  "fromCache L req e now =
     (let resp = (SetReply L req)\<lparr>m_Rcode := e_Rcode e, m_RecursionAvailable := True\<rparr>;
          resp1 = (case e_Kind e of
              KindAnswer \<Rightarrow> resp\<lparr>m_Answer := RRsAt L e now\<rparr>
            | KindNegative \<Rightarrow> resp\<lparr>m_Ns := RRsAt L e now\<rparr>)
      in finalise req (resp1\<lparr>m_AuthenticatedData := False\<rparr>))"

definition f_get :: "'n fnet \<Rightarrow> ckey \<Rightarrow> ('n fwd, centry option) run" where
  "f_get N k s = (let (e, c) = cache_Get (fn_hash N) (fn_Now N (fx_net s)) k (fx_cache s) in Some (e, s\<lparr>fx_cache := c\<rparr>))"

definition f_put :: "'n fnet \<Rightarrow> (gtime \<Rightarrow> cache \<Rightarrow> cache option) \<Rightarrow> ('n fwd, unit) run" where
  "f_put N f s = map_option (\<lambda>c. ((), s\<lparr>fx_cache := c\<rparr>)) (f (fn_Now N (fx_net s)) (fx_cache s))"

definition store_negative :: "'n fnet \<Rightarrow> ckey \<Rightarrow> dmsg \<Rightarrow> ('n fwd, unit) run" where
  "store_negative N k resp = (let (soa, ttl) = negativeTTL resp in
     if ttl > 0 then f_put N (\<lambda>t. PutNegative (fn_hash N) t k (m_Rcode resp) soa ttl False) else ret ())"

definition store_matching :: "dnslib \<Rightarrow> ckey \<Rightarrow> dmsg \<Rightarrow> rr list" where
  "store_matching L k resp = filter (\<lambda>r. let h = rr_hdr r in
     rh_Class h = ck_Class k \<and> cache_CanonicalName (rh_Name h) = ck_Name k \<and> (rh_Rrtype h = ck_Type k \<or> rh_Rrtype h = TypeCNAME)) (m_Answer resp)"

definition fwd_store :: "dnslib \<Rightarrow> 'n fnet \<Rightarrow> ckey \<Rightarrow> dmsg \<Rightarrow> ('n fwd, unit) run" where
  "fwd_store L N k resp =
     (if m_Rcode resp = RcodeSuccess
      then if length (m_Answer resp) > 0
           then let matching = store_matching L k resp in
             if length matching > 0 then f_put N (\<lambda>t. PutRRset (fn_hash N) t k matching False) else ret ()
           else store_negative N k resp
      else if m_Rcode resp = RcodeNameError then store_negative N k resp
      else ret ())"

definition fwd_ServeDNS :: "dnslib \<Rightarrow> 'n fnet \<Rightarrow> fwd_options \<Rightarrow> bool \<Rightarrow> request \<Rightarrow> ('n fwd, dmsg) run" where
  "fwd_ServeDNS L N opts refresh req = (case m_Question (rq_Msg req) of
       [] \<Rightarrow> (\<lambda>s. None)
     | q # _ \<Rightarrow>
         if q_Qclass q \<noteq> ClassINET then ret (reply L (rq_Msg req) RcodeRefused)
         else if q_Qtype q \<in> {TypeAXFR, TypeIXFR, TypeOPT} then ret (reply L (rq_Msg req) RcodeRefused)
         else
           let k = NewKey (q_Name q) (q_Qtype q) (q_Qclass q) in
           bind (f_now N) (\<lambda>now.
           bind (f_get N k) (\<lambda>entry.
           if entry \<noteq> None \<and> \<not> refresh
           then bind (fcount (\<lambda>m. m\<lparr>wm_CacheHits := Suc (wm_CacheHits m)\<rparr>)) (\<lambda>_. ret (fromCache L (rq_Msg req) (the entry) now))
           else bind (fcount (\<lambda>m. m\<lparr>wm_CacheMisses := Suc (wm_CacheMisses m)\<rparr>)) (\<lambda>_.
             bind (fwd_exchange L N opts (rq_Msg req)) (\<lambda>r. case r of
               Inl e \<Rightarrow>
                 bind (fcount (\<lambda>m. m\<lparr>wm_ServFail := Suc (wm_ServFail m)\<rparr>)) (\<lambda>_.
                 bind (if e = DeadlineExceeded then fcount (\<lambda>m. m\<lparr>wm_Timeouts := Suc (wm_Timeouts m)\<rparr>) else ret ()) (\<lambda>_.
                 ret (servfail L (rq_Msg req) ExtendedErrorCodeNetworkError ''no upstream answered'')))
             | Inr resp \<Rightarrow>
                 bind (fwd_store L N k resp) (\<lambda>_.
                 ret (finalise (rq_Msg req) (resp\<lparr>m_Id := m_Id (rq_Msg req)\<rparr>)))))))) "

section \<open>The order of the upstreams\<close>

lemma mset_sink [simp]: "mset (sink key x ys) = add_mset x (mset ys)"
  by (induction ys) auto

lemma set_sink [simp]: "set (sink key x ys) = insert x (set ys)"
  by (induction ys) auto

lemma sorted_sink: "sorted (map key (rev ys)) \<Longrightarrow> sorted (map key (rev (sink key x ys)))"
proof (induction ys)
  case (Cons y ys)
  then have "sorted (map key (rev ys))" "\<forall>z \<in> set ys. key z \<le> key y" by (auto simp: sorted_append)
  with Cons.IH show ?case by (auto simp: sorted_append)
qed simp

lemma filter_sink:
  "sorted (map key (rev ys)) \<Longrightarrow> filter (\<lambda>z. k = key z) (rev (sink key x ys)) = filter (\<lambda>z. k = key z) (rev ys @ [x])"
proof (induction ys)
  case (Cons y ys)
  then show ?case by (auto simp: sorted_append)
qed simp

lemma insertion_sort_key: "insertion_sort key xs = sort_key key xs"
proof -
  let ?f = "\<lambda>xs. foldl (\<lambda>acc x. sink key x acc) [] xs"
  have "mset (?f xs) = mset xs \<and> sorted (map key (rev (?f xs)))
    \<and> (\<forall>k. filter (\<lambda>z. k = key z) (rev (?f xs)) = filter (\<lambda>z. k = key z) xs)"
    by (induction xs rule: rev_induct) (auto simp: sorted_sink filter_sink)
  then show ?thesis
    unfolding insertion_sort_def by (intro properties_for_sort_key [symmetric]) auto
qed

lemma length_order: "length (fst (fwd_order now ups rr)) = length ups"
proof -
  have "length (filter P xs) + length (filter (\<lambda>i. \<not> P i) xs) = length xs" for P and xs :: "nat list" by (rule sum_length_filter_compl)
  from this [of "\<lambda>i. now < up_downUntil (ups ! i)" "[0..<length ups]"] show ?thesis
    by (auto simp: fwd_order_def Let_def insertion_sort_key)
qed

text \<open>Upstreams are tried fastest first: the order is the stable sort by smoothed round-trip time of the upstreams that are not backed
  off, with the fastest moved to the end of these on every sixteenth query, followed by those backed off; every upstream
  occurs exactly once, so an outage is still attempted.\<close>

theorem order_fastest_first:
  "let live = sort_key (\<lambda>i. up_srtt (ups ! i)) (filter (\<lambda>i. \<not> now < up_downUntil (ups ! i)) [0..<length ups]);
       (is, rr') = fwd_order now ups rr
   in is = (if length live > 1 \<and> rr' mod 16 = 0 then rotate1 live else live) @ filter (\<lambda>i. now < up_downUntil (ups ! i)) [0..<length ups]
      \<and> mset is = mset [0..<length ups] \<and> rr' = (if length live > 1 then rr + 1 else rr)"
proof -
  have r: "tl xs @ [hd xs] = rotate1 xs" if "1 < length xs" for xs :: "nat list" using that by (cases xs) auto
  have m: "mset (filter (\<lambda>i. \<not> P i) xs) + mset (filter P xs) = mset xs" for P and xs :: "nat list"
    using multiset_partition [of "mset xs" P] by (simp add: add.commute)
  have "mset (rotate1 xs) = mset xs" for xs :: "nat list" by (cases xs) auto
  then show ?thesis
    using m [of "\<lambda>i. now < up_downUntil (ups ! i)" "[0..<length ups]"]
    by (auto simp: fwd_order_def Let_def insertion_sort_key r)
qed

section \<open>What the handler does\<close>

text \<open>A run that changes nothing but the upstreams' statistics, the counters and the network, and sends at most \<open>k\<close> messages.\<close>

definition probes :: "nat \<Rightarrow> ('n fwd, 'a) run \<Rightarrow> bool" where
  "probes k m \<longleftrightarrow> (\<forall>s. runs m s (\<lambda>_ s'. length (fx_ups s') = length (fx_ups s) \<and> fx_cache s' = fx_cache s \<and> fx_sent s' \<le> fx_sent s + k))"

lemma probes_ret [intro]: "probes k (ret x)"
  by (simp add: probes_def)

lemma probes_get [intro]: "probes k (get_run f)"
  by (simp add: probes_def)

lemma probes_fcount [intro]: "probes k (fcount f)"
  by (simp add: probes_def fcount_def)

lemma probes_now [intro]: "probes k (f_now N)"
  by (auto simp: f_now_def)

lemma probes_set_up [intro]: "probes k (set_up i f)"
  by (simp add: probes_def set_up_def)

lemma probes_send [intro]: "probes (Suc k) (f_send N pr a m)"
  by (auto simp: probes_def f_send_def runs_def split: prod.splits)

lemma probes_bind:
  fixes m :: "('n fwd, 'a) run" and f :: "'a \<Rightarrow> ('n fwd, 'b) run"
  assumes m: "probes j m" and f: "\<And>x. probes k (f x)" and n: "j + k \<le> n"
  shows "probes n (bind m f)"
  unfolding probes_def runs_bind
proof
  fix s :: "'n fwd"
  show "runs m s (\<lambda>a s'. runs (f a) s' (\<lambda>_ s''. length (fx_ups s'') = length (fx_ups s) \<and> fx_cache s'' = fx_cache s \<and> fx_sent s'' \<le> fx_sent s + n))"
  proof (rule runs_mono [OF m [unfolded probes_def, rule_format]])
    fix a and s' :: "'n fwd"
    assume s': "length (fx_ups s') = length (fx_ups s) \<and> fx_cache s' = fx_cache s \<and> fx_sent s' \<le> fx_sent s + j"
    show "runs (f a) s' (\<lambda>_ s''. length (fx_ups s'') = length (fx_ups s) \<and> fx_cache s'' = fx_cache s \<and> fx_sent s'' \<le> fx_sent s + n)"
      by (rule runs_mono [OF f [unfolded probes_def, rule_format]]) (use s' n in auto)
  qed
qed

lemma probes_then: "probes 0 m \<Longrightarrow> (\<And>x. probes k (f x)) \<Longrightarrow> probes k (bind m f)"
  by (rule probes_bind [of 0 m k f]) auto

lemma probes_option: "probes k x \<Longrightarrow> (\<And>y. probes k (f y)) \<Longrightarrow> probes k (case v of None \<Rightarrow> x | Some y \<Rightarrow> f y)"
  by (cases v) auto

lemma probes_reply: "probes k x \<Longrightarrow> (\<And>y. probes k (f y)) \<Longrightarrow> probes k (case r of Inr (Some y) \<Rightarrow> f y | _ \<Rightarrow> x)"
  by (auto split: sum.splits option.splits)

lemma probes_loop: "probes (2 * length is) (exchange_loop N q is e)"
proof (induction "is" arbitrary: e)
  case (Cons i "is")
  have again: "probes 1 (case r1 of Inr (Some resp) \<Rightarrow>
      if m_Truncated resp then bind (fcount f) (\<lambda>_. f_send N ProtoTCP a q) else ret r1 | _ \<Rightarrow> ret r1)" for r1 f a
    using probes_then [OF probes_fcount probes_send [of 0]] by (auto split: sum.splits option.splits)
  have fin: "probes (2 * length is) (bind (fcount c) (\<lambda>_. case r2 of Inr (Some resp) \<Rightarrow> bind (f_now N) (\<lambda>t. bind (set_up i (g t)) (\<lambda>_. ret (Inr resp)))
      | _ \<Rightarrow> bind (fcount f) (\<lambda>_. bind (f_now N) (\<lambda>t. bind (set_up i (h t)) (\<lambda>_. exchange_loop N q is e')))))" for c r2 f g h e'
    using Cons by (intro probes_then [OF probes_fcount] probes_reply probes_then [OF probes_now] probes_then [OF probes_set_up]) auto
  show ?case
    unfolding exchange_loop.simps
    by (rule probes_then [OF probes_get], rule probes_option, rule probes_then [OF probes_now], rule probes_then [OF probes_get],
        rule probes_bind [OF probes_send [of 0]], rule probes_bind [OF again], rule fin) auto
qed auto

lemma probes_exchange: "runs (fwd_exchange L N opts req) s (\<lambda>_ s'. length (fx_ups s') = length (fx_ups s) \<and> fx_cache s' = fx_cache s
    \<and> fx_sent s' \<le> fx_sent s + 2 * length (fx_ups s))"
proof -
  obtain i n where i: "fn_Id N (fx_net s) = (i, n)" by fastforce
  obtain js rr where o: "fwd_order (fn_Now N n) (fx_ups s) (fx_rr s) = (js, rr)" by fastforce
  have l: "length js = length (fx_ups s)" using length_order [of "fn_Now N n" "fx_ups s" "fx_rr s"] o by simp
  have "runs (exchange_loop N q js e) (s\<lparr>fx_net := n, fx_rr := rr\<rparr>) (\<lambda>_ s'. length (fx_ups s') = length (fx_ups s) \<and> fx_cache s' = fx_cache s
      \<and> fx_sent s' \<le> fx_sent s + 2 * length (fx_ups s))" for q e
  proof -
    have "probes (2 * length js) (exchange_loop N q js e)" by (rule probes_loop)
    then have "runs (exchange_loop N q js e) (s\<lparr>fx_net := n, fx_rr := rr\<rparr>) (\<lambda>_ s'. length (fx_ups s') = length (fx_ups (s\<lparr>fx_net := n, fx_rr := rr\<rparr>))
      \<and> fx_cache s' = fx_cache (s\<lparr>fx_net := n, fx_rr := rr\<rparr>) \<and> fx_sent s' \<le> fx_sent (s\<lparr>fx_net := n, fx_rr := rr\<rparr>) + 2 * length js)"
      unfolding probes_def by blast
    with l show ?thesis by simp
  qed
  with i o show ?thesis by (simp add: fwd_exchange_def runs_def bind_def Let_def)
qed

text \<open>What may be put under a key: never authenticated; an answer of records owned by the key's name, of its class and of its type or CNAME, or a
  denial with one SOA record, of whatever owner.\<close>

definition fits_key :: "ckey \<Rightarrow> centry \<Rightarrow> bool" where
  "fits_key k e \<longleftrightarrow> \<not> e_Authenticated e
     \<and> (e_Kind e = KindAnswer \<longrightarrow> (\<forall>r \<in> set (e_RRs e). cache_CanonicalName (rh_Name (rr_hdr r)) = ck_Name k \<and> rh_Class (rr_hdr r) = ck_Class k
          \<and> rh_Rrtype (rr_hdr r) \<in> {ck_Type k, TypeCNAME}))
     \<and> (e_Kind e = KindNegative \<longrightarrow> (\<exists>r. e_RRs e = [r] \<and> is_SOA_rr r))"

text \<open>What a put may do to the cache: keep its invariant, leave every other key as it was or evict it.\<close>

definition put_for :: "(ckey \<Rightarrow> 64 word) \<Rightarrow> ckey \<Rightarrow> cache \<Rightarrow> cache \<Rightarrow> bool" where
  "put_for H k c c' \<longleftrightarrow> cache_ok H c' \<and> (\<forall>k'. k' \<noteq> k \<longrightarrow> stored H c' k' \<in> {stored H c k', None})
     \<and> (\<forall>e. stored H c' k = Some e \<longrightarrow> stored H c k = Some e \<or> fits_key k e)"

lemma put_for_refl: "cache_ok H c \<Longrightarrow> put_for H k c c"
  by (simp add: put_for_def)

lemma cache_Put_for:
  assumes ok: "cache_ok H c" and e: "fits_key k e"
  shows "\<exists>c'. cache_Put H t k e ttl c = Some c' \<and> put_for H k c c'"
proof -
  obtain c' where c': "cache_Put H t k e ttl c = Some c'" "cache_ok H c'" using cache_Put_ok [OF ok] by blast
  have "put_for H k c c'"
  proof (cases "0 < clamp (ca_opts c) (e_Kind e) ttl")
    case True
    with Put_stored [OF ok True, of t k] c' e show ?thesis by (auto simp: put_for_def fits_key_def)
  next
    case False
    with c' ok show ?thesis by (simp add: cache_Put_def Let_def put_for_refl)
  qed
  with c' show ?thesis by blast
qed

lemma store_for:
  assumes ok: "cache_ok (fn_hash N) (fx_cache s)"
  shows "runs (fwd_store L N k resp) s (\<lambda>_ s'. length (fx_ups s') = length (fx_ups s) \<and> fx_sent s' = fx_sent s
    \<and> put_for (fn_hash N) k (fx_cache s) (fx_cache s'))"
proof -
  have soa: "soa_ttl r = Some (soa, ttl) \<Longrightarrow> soa = [r] \<and> is_SOA_rr r" for r soa ttl
    by (cases "rr_data r") (auto simp: soa_ttl_def is_SOA_rr_def Let_def)
  have neg: "\<exists>c'. PutNegative (fn_hash N) t k rc (fst (negativeTTL resp)) ttl False (fx_cache s) = Some c' \<and> put_for (fn_hash N) k (fx_cache s) c'"
    if "0 < snd (negativeTTL resp)" for t rc ttl
    unfolding PutNegative_def
    by (rule cache_Put_for [OF ok]) (use that in \<open>auto simp: fits_key_def negativeTTL_def dest!: first_some_SomeD soa split: option.splits\<close>)
  have pos: "\<exists>c'. PutRRset (fn_hash N) t k (store_matching L k resp) False (fx_cache s) = Some c' \<and> put_for (fn_hash N) k (fx_cache s) c'" for t
    unfolding PutRRset_def putRRset_def
    by (cases "store_matching L k resp")
      (auto simp: put_for_refl ok store_matching_def fits_key_def Let_def filter_eq_Cons_iff intro!: cache_Put_for [OF ok])
  have put: "runs (f_put N f) s (\<lambda>_ s'. length (fx_ups s') = length (fx_ups s) \<and> fx_sent s' = fx_sent s
      \<and> put_for (fn_hash N) k (fx_cache s) (fx_cache s'))"
    if "\<And>t. \<exists>c'. f t (fx_cache s) = Some c' \<and> put_for (fn_hash N) k (fx_cache s) c'" for f
    using that [of "fn_Now N (fx_net s)"] by (auto simp: runs_def f_put_def)
  show ?thesis
    unfolding fwd_store_def store_negative_def Let_def
    using put [of "\<lambda>t. PutRRset (fn_hash N) t k (store_matching L k resp) False", OF pos]
      put [of "\<lambda>t. PutNegative (fn_hash N) t k rc (fst (negativeTTL resp)) ttl False" for rc ttl, OF neg]
    by (auto simp: put_for_refl ok split_beta)
qed

text \<open>The handler's contract, along the run of one query for the key \<open>k\<close>.\<close>

definition served :: "'n fnet \<Rightarrow> ckey \<Rightarrow> 'n fwd \<Rightarrow> ('n fwd, dmsg) run \<Rightarrow> bool" where
  "served N k s m \<longleftrightarrow> runs m s (\<lambda>r s'. \<not> m_AuthenticatedData r \<and> length (fx_ups s') = length (fx_ups s)
     \<and> fx_sent s' \<le> fx_sent s + 2 * length (fx_ups s) \<and> put_for (fn_hash N) k (fx_cache s) (fx_cache s'))"

lemma get_for:
  assumes "cache_ok H c" and "cache_Get H t k c = (e, c')"
  shows "put_for H k c c'"
  using Get_stored [OF assms(1), of t k] cache_Get_ok [OF assms(1), of t k] assms(2)
  by (auto simp: put_for_def purge_def split: if_splits option.splits)

lemma put_for_trans: "put_for H k c c' \<Longrightarrow> put_for H k c' c'' \<Longrightarrow> put_for H k c c''"
  unfolding put_for_def by (metis insertCI insertE singletonD)

lemma finalise_AD [simp]: "\<not> m_AuthenticatedData (finalise req resp)"
  by (simp add: finalise_def Let_def)

lemma reply_AD [simp]: "\<not> m_AuthenticatedData (reply L req rc)" "\<not> m_AuthenticatedData (servfail L req c t)"
  by (simp_all add: reply_def servfail_def Let_def)

lemma fwd_served:
  assumes ok: "cache_ok (fn_hash N) (fx_cache s)" and q: "m_Question (rq_Msg req) = q # qs"
  shows "served N (NewKey (q_Name q) (q_Qtype q) (q_Qclass q)) s (fwd_ServeDNS L N opts refresh req)"
proof -
  let ?k = "NewKey (q_Name q) (q_Qtype q) (q_Qclass q)" and ?H = "fn_hash N"
  obtain e c where g: "cache_Get ?H (fn_Now N (fx_net s)) ?k (fx_cache s) = (e, c)" by fastforce
  note gf = get_for [OF ok g]
  then have ok': "cache_ok ?H c" by (simp add: put_for_def)
  define s1 where "s1 = s\<lparr>fx_cache := c, fx_m := (fx_m s)\<lparr>wm_CacheMisses := Suc (wm_CacheMisses (fx_m s))\<rparr>\<rparr>"
  obtain r s2 where x: "fwd_exchange L N opts (rq_Msg req) s1 = Some (r, s2)" "length (fx_ups s2) = length (fx_ups s)" "fx_cache s2 = c"
      "fx_sent s2 \<le> fx_sent s + 2 * length (fx_ups s)"
    using probes_exchange [of L N opts "rq_Msg req" s1] by (auto simp: runs_def s1_def)
  have st: "\<exists>s3. fwd_store L N ?k resp s2 = Some ((), s3) \<and> length (fx_ups s3) = length (fx_ups s) \<and> fx_sent s3 \<le> fx_sent s + 2 * length (fx_ups s)
      \<and> put_for ?H ?k (fx_cache s) (fx_cache s3)" for resp
    using store_for [of N s2 L ?k resp] x ok' put_for_trans [OF gf] by (auto simp: runs_def)
  show ?thesis
  proof (cases "q_Qclass q \<noteq> ClassINET \<or> q_Qtype q \<in> {TypeAXFR, TypeIXFR, TypeOPT} \<or> e \<noteq> None \<and> \<not> refresh")
    case True
    then show ?thesis
      using g gf ok q
      by (auto simp: served_def runs_def fwd_ServeDNS_def Let_def bind_def ret_def f_now_def get_run_def fcount_def modify_run_def fromCache_def f_get_def put_for_refl)
  next
    case False
    have now: "bind (f_now N) f s = f (fn_Now N (fx_net s)) s" for f :: "_ \<Rightarrow> ('a fwd, dmsg) run"
      by (simp add: bind_def f_now_def get_run_def)
    have get: "bind (f_get N ?k) f s = f e (s\<lparr>fx_cache := c\<rparr>)" for f :: "_ \<Rightarrow> ('a fwd, dmsg) run"
      by (simp add: bind_def f_get_def g)
    have ask: "bind (fcount (\<lambda>m. m\<lparr>wm_CacheMisses := Suc (wm_CacheMisses m)\<rparr>)) (\<lambda>_. bind (fwd_exchange L N opts (rq_Msg req)) f) (s\<lparr>fx_cache := c\<rparr>)
        = f r s2" for f :: "_ \<Rightarrow> ('a fwd, dmsg) run"
      using x(1) by (simp add: bind_def fcount_def modify_run_def s1_def)
    have e: "fwd_ServeDNS L N opts refresh req s = (case r of
               Inl e \<Rightarrow>
                 bind (fcount (\<lambda>m. m\<lparr>wm_ServFail := Suc (wm_ServFail m)\<rparr>)) (\<lambda>_.
                 bind (if e = DeadlineExceeded then fcount (\<lambda>m. m\<lparr>wm_Timeouts := Suc (wm_Timeouts m)\<rparr>) else ret ()) (\<lambda>_.
                 ret (servfail L (rq_Msg req) ExtendedErrorCodeNetworkError ''no upstream answered'')))
             | Inr resp \<Rightarrow>
                 bind (fwd_store L N ?k resp) (\<lambda>_.
                 ret (finalise (rq_Msg req) (resp\<lparr>m_Id := m_Id (rq_Msg req)\<rparr>)))) s2"
    proof -
      have c: "(q_Qclass q \<noteq> ClassINET) = False" "(q_Qtype q \<in> {TypeAXFR, TypeIXFR, TypeOPT}) = False" "(e \<noteq> None \<and> \<not> refresh) = False"
        using False by auto
      show ?thesis unfolding fwd_ServeDNS_def q list.case Let_def c(1,2) if_False now get unfolding c(3) if_False ask ..
    qed
    show ?thesis
    proof (cases r)
      case (Inl err)
      then show ?thesis
        using x gf by (simp add: served_def runs_def e bind_def fcount_def modify_run_def ret_def)
    next
      case (Inr resp)
      with st [of resp] show ?thesis by (auto simp: served_def runs_def e bind_def ret_def)
    qed
  qed
qed

section \<open>Any queries, any upstreams\<close>

inductive fwd_reach :: "dnslib \<Rightarrow> 'n fnet \<Rightarrow> fwd_options \<Rightarrow> 'n fwd \<Rightarrow> bool" for L N opts where
  fwd_start: "cache_New co = Inr c \<Longrightarrow> co_Shards co < 2 ^ 63 \<Longrightarrow> NewForwarder o0 (Some c) verr n = Inr (opts, s) \<Longrightarrow> fwd_reach L N opts s"
| fwd_query: "fwd_reach L N opts s \<Longrightarrow> fwd_ServeDNS L N opts refresh req s = Some (m, s') \<Longrightarrow> fwd_reach L N opts s'"
| fwd_wait: "fwd_reach L N opts s \<Longrightarrow> fwd_reach L N opts (s\<lparr>fx_net := n\<rparr>)"

lemma fwd_reach_ok: "fwd_reach L N opts s \<Longrightarrow> cache_ok (fn_hash N) (fx_cache s) \<and> length (fx_ups s) = length (wo_Upstreams opts)"
proof (induction rule: fwd_reach.induct)
  case (fwd_start co c o0 verr n s)
  then show ?case using cache_ok_New [of co c "fn_hash N"]
    by (auto simp: NewForwarder_def Let_def split: if_splits option.splits)
next
  case (fwd_query s refresh req m s')
  then obtain q qs where q: "m_Question (rq_Msg req) = q # qs" by (cases "m_Question (rq_Msg req)") (auto simp: fwd_ServeDNS_def)
  from fwd_served [OF _ q, of N s L opts refresh] fwd_query show ?case by (auto simp: served_def runs_def put_for_def)
qed simp

text \<open>The forwarder answers every query: in every state that any sequence of queries reaches, against any upstreams, a request with a
  question gets a response that does not claim authenticated data, after at most two messages to each configured
  upstream.\<close>

theorem forward_answers:
  assumes "fwd_reach L N opts s" and "m_Question (rq_Msg req) \<noteq> []"
  shows "\<exists>m s'. fwd_ServeDNS L N opts refresh req s = Some (m, s') \<and> \<not> m_AuthenticatedData m
    \<and> fx_sent s' \<le> fx_sent s + 2 * length (wo_Upstreams opts)"
proof -
  obtain q qs where q: "m_Question (rq_Msg req) = q # qs" using assms(2) by (cases "m_Question (rq_Msg req)") auto
  from fwd_served [OF _ q, of N s L opts refresh] fwd_reach_ok [OF assms(1)] show ?thesis by (auto simp: served_def runs_def)
qed

text \<open>C25. The forwarder caches only what was asked: serving a query changes no cache entry but that of the query's own key, evictions apart; a
  new entry there is never marked authenticated; a positive one holds only records owned by the queried name, of the
  queried class and of the queried type or CNAME, whatever else the upstream put into its answer; and a denial holds exactly one SOA record, whose owner
  is not checked.\<close>

theorem forward_caches_asked_only:
  assumes "fwd_reach L N opts s" and "m_Question (rq_Msg req) = q # qs" and "fwd_ServeDNS L N opts refresh req s = Some (m, s')"
    and "k = NewKey (q_Name q) (q_Qtype q) (q_Qclass q)"
  shows "(\<forall>k'. k' \<noteq> k \<longrightarrow> stored (fn_hash N) (fx_cache s') k' \<in> {stored (fn_hash N) (fx_cache s) k', None})
    \<and> (\<forall>e. stored (fn_hash N) (fx_cache s') k = Some e \<longrightarrow> stored (fn_hash N) (fx_cache s) k = Some e
        \<or> \<not> e_Authenticated e \<and> (e_Kind e = KindAnswer \<longrightarrow> (\<forall>r \<in> set (e_RRs e).
            cache_CanonicalName (rh_Name (rr_hdr r)) = ck_Name k \<and> rh_Class (rr_hdr r) = ck_Class k \<and> rh_Rrtype (rr_hdr r) \<in> {ck_Type k, TypeCNAME}))
          \<and> (e_Kind e = KindNegative \<longrightarrow> (\<exists>r. e_RRs e = [r] \<and> is_SOA_rr r)))"
proof -
  have "cache_ok (fn_hash N) (fx_cache s)" using fwd_reach_ok [OF assms(1)] by blast
  from fwd_served [OF this assms(2), of L opts refresh] have "put_for (fn_hash N) k (fx_cache s) (fx_cache s')"
    using assms(3,4) by (simp add: served_def runs_def)
  then show ?thesis unfolding put_for_def fits_key_def by blast
qed

definition test_fnet :: "nat fnet" where
  "test_fnet = \<lparr>fn_Exchange = (\<lambda>pr a m n. (Inr (Some ((reply_to m)\<lparr>m_AuthenticatedData := True\<rparr>)), Suc n)), fn_Id = (\<lambda>n. (7, n)), fn_Now = int,
     fn_CtxErr = (\<lambda>n. None), fn_hash = (\<lambda>_. 0)\<rparr>"

definition test_fwd_opts :: fwd_options where
  "test_fwd_opts = \<lparr>wo_Upstreams = [(AddrV4 1, 53), (AddrV4 2, 53)], wo_QueryTimeout = second, wo_UDPSize = 1232\<rparr>"

definition test_fwd :: "nat fwd" where
  "test_fwd = snd (projr (NewForwarder test_fwd_opts (Some test_cache) None 0))"

definition test_freq :: request where
  "test_freq = \<lparr>rq_Msg = ask_for ''www.example.'' TypeA, rq_Client = AddrV4 9, rq_Local = AddrV4 9, rq_Proto = ProtoUDP, rq_Internal = False,
     rq_Received = 0, rq_MaxResponseSize = 1232\<rparr>"

lemma test_fwd_reach: "fwd_reach L N test_fwd_opts test_fwd"
proof (rule fwd_start)
  show "cache_New test_opts = Inr test_cache" by (simp add: cache_New_def test_opts_def test_cache_def second_def)
  show "NewForwarder test_fwd_opts (Some test_cache) None 0 = Inr (test_fwd_opts, test_fwd)"
    by (simp add: test_fwd_def NewForwarder_def test_fwd_opts_def second_def)
qed (simp add: test_opts_def)

theorem forward_answers_witness:
  "\<exists>m s'. fwd_ServeDNS ref_lib test_fnet test_fwd_opts False test_freq test_fwd = Some (m, s') \<and> \<not> m_AuthenticatedData m \<and> fx_sent s' \<le> 4"
proof -
  have "m_Question (rq_Msg test_freq) \<noteq> []" by (simp add: test_freq_def ask_for_def)
  moreover have "fx_sent test_fwd = 0" "length (wo_Upstreams test_fwd_opts) = 2"
    by (simp_all add: test_fwd_def NewForwarder_def test_fwd_opts_def second_def)
  ultimately show ?thesis using forward_answers [OF test_fwd_reach, of test_freq ref_lib test_fnet False] by simp
qed

declare trim.simps [code]

text \<open>An upstream that adds a record for another name to its answer and claims both authentic: only the asked one is cached.\<close>

definition owned_a :: "string \<Rightarrow> rr" where
  "owned_a n = \<lparr>rr_hdr = \<lparr>rh_Name = n, rh_Rrtype = TypeA, rh_Class = ClassINET, rh_Ttl = 60, rh_Rdlength = 4\<rparr>, rr_data = RA [10, 0, 0, 1]\<rparr>"

definition pushy_fnet :: "nat fnet" where
  "pushy_fnet = test_fnet\<lparr>fn_Exchange := (\<lambda>pr a m n.
     (Inr (Some ((reply_to m)\<lparr>m_AuthenticatedData := True, m_Answer := [owned_a ''bank.example.'', owned_a ''www.example.'']\<rparr>)), Suc n))\<rparr>"

theorem forward_caches_asked_only_witness:
  "let s' = snd (the (fwd_ServeDNS ref_lib pushy_fnet test_fwd_opts False test_freq test_fwd)) in
     (\<exists>e. stored (fn_hash pushy_fnet) (fx_cache s') (NewKey ''www.example.'' TypeA ClassINET) = Some e \<and> e_RRs e = [owned_a ''www.example.''] \<and> \<not> e_Authenticated e)
     \<and> stored (fn_hash pushy_fnet) (fx_cache s') (NewKey ''bank.example.'' TypeA ClassINET) = None"
proof -
  let ?k = "NewKey ''www.example.'' TypeA ClassINET" and ?b = "NewKey ''bank.example.'' TypeA ClassINET"
  let ?q = "\<lparr>q_Name = ''www.example.'', q_Qtype = TypeA, q_Qclass = ClassINET\<rparr>"
  have q: "m_Question (rq_Msg test_freq) = ?q # []" by (simp add: test_freq_def ask_for_def)
  have "map_option (\<lambda>(m, s'). map_option e_RRs (stored (fn_hash pushy_fnet) (fx_cache s') ?k))
      (fwd_ServeDNS ref_lib pushy_fnet test_fwd_opts False test_freq test_fwd) = Some (Some [owned_a ''www.example.''])" by code_simp
  then obtain m s' e where s: "fwd_ServeDNS ref_lib pushy_fnet test_fwd_opts False test_freq test_fwd = Some (m, s')"
    and e: "stored (fn_hash pushy_fnet) (fx_cache s') ?k = Some e" "e_RRs e = [owned_a ''www.example.'']" by auto
  have "\<forall>k. stored (fn_hash pushy_fnet) test_cache k = None"
    using New_stored [of test_opts test_cache] by (simp add: cache_New_def test_opts_def test_cache_def second_def)
  then have "stored (fn_hash pushy_fnet) (fx_cache test_fwd) k = None" for k by (simp add: test_fwd_def NewForwarder_def test_fwd_opts_def)
  moreover have "?b \<noteq> ?k" by code_simp
  ultimately show ?thesis using forward_caches_asked_only [OF test_fwd_reach q s, of ?k] s e by auto
qed

end
