(* ===== verification/Prefetch.thy ===== *)
theory Prefetch
  imports Cache_Correct
begin

text \<open>
  \<open>internal/prefetch/prefetch.go\<close>: the cache decorator that refreshes an entry shortly before it expires. Reads, refreshes and \<open>Close\<close> run in different
  goroutines, so the state is what they share (the marks, the semaphore, the stop channel, the wait group) together with the list of goroutines, each
  at a program point; a step lets any one of them take its next action on the shared state, with the metrics next to it. How long a refresh takes is the moment the environment chooses
  for its return; a panic inside it is recovered and is a return as well. The cache below is a state \<open>'c\<close> with the four operations of \<open>Inner\<close>; \<open>cache_inner\<close> is the
  RRset cache. The \<open>float64\<close> threshold is a rational. The time limit of a refresh only reaches the resolver, and logging is left out.
\<close>

record pf_metrics =
  px_Triggered :: nat
  px_Completed :: nat
  px_Suppressed :: nat
  px_Dropped :: nat
  px_InFlight :: int

record 'c inner =
  in_Get :: "gtime \<Rightarrow> ckey \<Rightarrow> 'c \<Rightarrow> centry option \<times> 'c"
  in_PutRRset :: "gtime \<Rightarrow> ckey \<Rightarrow> rr list \<Rightarrow> bool \<Rightarrow> 'c \<Rightarrow> 'c option"
  in_PutValidated :: "gtime \<Rightarrow> ckey \<Rightarrow> rr list \<Rightarrow> bool \<Rightarrow> 'c \<Rightarrow> 'c option"
  in_PutNegative :: "gtime \<Rightarrow> ckey \<Rightarrow> int \<Rightarrow> rr list \<Rightarrow> duration \<Rightarrow> bool \<Rightarrow> 'c \<Rightarrow> 'c option"

definition cache_inner :: "(ckey \<Rightarrow> 64 word) \<Rightarrow> cache inner" where
  "cache_inner H = \<lparr>in_Get = cache_Get H, in_PutRRset = PutRRset H, in_PutValidated = PutValidated H, in_PutNegative = PutNegative H\<rparr>"

record pf_options =
  po_Threshold :: rat
  po_MinTTL :: duration
  po_MaxConcurrent :: int
  po_Timeout :: duration

text \<open>The points a goroutine can be at, in the order of the code: those of \<open>trigger\<close>, then of \<open>run\<close> with its deferred calls, then of \<open>Close\<close>.\<close>

datatype point = Triggering ckey | Marked ckey | Full ckey | Holding ckey | Stopping ckey | Releasing ckey | Starting ckey
  | Begun ckey | Refreshing ckey | Cancelled ckey | Returning ckey | GivingBack ckey | Unmarking ckey | Leaving
  | Closing | Waiting

record 'c prefetcher =
  pf_inner :: 'c
  pf_opts :: pf_options
  pf_refresh :: bool
  pf_inflight :: "ckey set"
  pf_sem :: nat
  pf_stop :: bool
  pf_wg :: nat
  pf_metrics :: pf_metrics
  pf_threads :: "point list"
  pf_closed :: bool

definition po_fill :: "pf_options \<Rightarrow> pf_options" where
  "po_fill o1 =
     (let o2 = (if po_Threshold o1 \<le> 0 \<or> po_Threshold o1 \<ge> 1 then o1\<lparr>po_Threshold := 1 / 10\<rparr> else o1);
          o3 = (if po_MinTTL o2 \<le> 0 then o2\<lparr>po_MinTTL := 30 * second\<rparr> else o2);
          o4 = (if po_MaxConcurrent o3 \<le> 0 then o3\<lparr>po_MaxConcurrent := 64\<rparr> else o3)
      in if po_Timeout o4 \<le> 0 then o4\<lparr>po_Timeout := 5 * second\<rparr> else o4)"

definition pf_New :: "'c \<Rightarrow> pf_options \<Rightarrow> 'c prefetcher" where
  "pf_New c opts = \<lparr>pf_inner = c, pf_opts = po_fill opts, pf_refresh = False, pf_inflight = {}, pf_sem = 0, pf_stop = False, pf_wg = 0,
     pf_metrics = \<lparr>px_Triggered = 0, px_Completed = 0, px_Suppressed = 0, px_Dropped = 0, px_InFlight = 0\<rparr>, pf_threads = [], pf_closed = False\<rparr>"

definition SetRefresh :: "'c prefetcher \<Rightarrow> 'c prefetcher" where
  "SetRefresh s = s\<lparr>pf_refresh := True\<rparr>"

definition pf_count :: "(pf_metrics \<Rightarrow> pf_metrics) \<Rightarrow> 'c prefetcher \<Rightarrow> 'c prefetcher" where
  "pf_count f s = s\<lparr>pf_metrics := f (pf_metrics s)\<rparr>"

definition due :: "pf_options \<Rightarrow> gtime \<Rightarrow> centry \<Rightarrow> bool" where
  "due opts now e =
     (if e_Kind e \<noteq> KindAnswer then False
      else let original = time_Sub (e_Expiry e) (e_Stored e) in
        if original < po_MinTTL opts then False
        else let remaining = time_Sub (e_Expiry e) now in
          if remaining \<le> 0 then False
          else rat_of_int remaining \<le> rat_of_int original * po_Threshold opts)"

text \<open>\<open>Get\<close>; the call of \<open>trigger\<close> at its end goes on interleaved with everything else.\<close>

definition pf_Get :: "'c inner \<Rightarrow> gtime \<Rightarrow> ckey \<Rightarrow> 'c prefetcher \<Rightarrow> centry option \<times> 'c prefetcher" where
  "pf_Get I now k s =
     (let (e, c) = in_Get I now k (pf_inner s); s1 = s\<lparr>pf_inner := c\<rparr> in
      case e of
        Some x \<Rightarrow> if due (pf_opts s) now x then (e, s1\<lparr>pf_threads := pf_threads s1 @ [Triggering k]\<rparr>) else (e, s1)
      | None \<Rightarrow> (e, s1))"

definition pf_PutRRset :: "'c inner \<Rightarrow> gtime \<Rightarrow> ckey \<Rightarrow> rr list \<Rightarrow> bool \<Rightarrow> 'c prefetcher \<Rightarrow> 'c prefetcher option" where
  "pf_PutRRset I now k rrs authenticated s = map_option (\<lambda>c. s\<lparr>pf_inner := c\<rparr>) (in_PutRRset I now k rrs authenticated (pf_inner s))"

definition pf_PutValidated :: "'c inner \<Rightarrow> gtime \<Rightarrow> ckey \<Rightarrow> rr list \<Rightarrow> bool \<Rightarrow> 'c prefetcher \<Rightarrow> 'c prefetcher option" where
  "pf_PutValidated I now k rrs authenticated s = map_option (\<lambda>c. s\<lparr>pf_inner := c\<rparr>) (in_PutValidated I now k rrs authenticated (pf_inner s))"

definition pf_PutNegative :: "'c inner \<Rightarrow> gtime \<Rightarrow> ckey \<Rightarrow> int \<Rightarrow> rr list \<Rightarrow> duration \<Rightarrow> bool \<Rightarrow> 'c prefetcher \<Rightarrow> 'c prefetcher option" where
  "pf_PutNegative I now k rcode soa ttl authenticated s = map_option (\<lambda>c. s\<lparr>pf_inner := c\<rparr>) (in_PutNegative I now k rcode soa ttl authenticated (pf_inner s))"

definition pf_release :: "ckey \<Rightarrow> 'c prefetcher \<Rightarrow> 'c prefetcher" where
  "pf_release k s = s\<lparr>pf_inflight := pf_inflight s - {k}\<rparr>"

text \<open>The next action of \<open>trigger\<close>. The point after it is \<open>None\<close> when the call returns; the caller of \<open>trigger\<close> ends where \<open>run\<close> begins.\<close>

fun trigger_act :: "point \<Rightarrow> 'c prefetcher \<Rightarrow> (point option \<times> 'c prefetcher) option" where
  "trigger_act (Triggering k) s =
     Some (if \<not> pf_refresh s then (None, s)
           else if k \<in> pf_inflight s then (None, pf_count (\<lambda>m. m\<lparr>px_Suppressed := px_Suppressed m + 1\<rparr>) s)
           else (Some (Marked k), s\<lparr>pf_inflight := insert k (pf_inflight s)\<rparr>))"
| "trigger_act (Marked k) s =
     Some (if int (pf_sem s) < po_MaxConcurrent (pf_opts s) then (Some (Holding k), s\<lparr>pf_sem := pf_sem s + 1\<rparr>) else (Some (Full k), s))"
| "trigger_act (Full k) s = Some (None, pf_count (\<lambda>m. m\<lparr>px_Dropped := px_Dropped m + 1\<rparr>) (pf_release k s))"
| "trigger_act (Holding k) s = Some (if pf_stop s then (Some (Stopping k), s) else (Some (Starting k), s))"
| "trigger_act (Stopping k) s = Some (Some (Releasing k), s\<lparr>pf_sem := pf_sem s - 1\<rparr>)"
| "trigger_act (Releasing k) s = Some (None, pf_release k s)"
| "trigger_act (Starting k) s =
     Some (Some (Begun k), (pf_count (\<lambda>m. m\<lparr>px_Triggered := px_Triggered m + 1\<rparr>) s)\<lparr>pf_wg := pf_wg s + 1\<rparr>)"
| "trigger_act _ s = None"

text \<open>The next action of \<open>run\<close>: at the \<open>select\<close> either the refresh has returned or the stop channel is seen closed.\<close>

datatype ready = Returned | StopSeen

fun run_act :: "ready \<Rightarrow> point \<Rightarrow> 'c prefetcher \<Rightarrow> (point option \<times> 'c prefetcher) option" where
  "run_act rd (Begun k) s = Some (Some (Refreshing k), pf_count (\<lambda>m. m\<lparr>px_InFlight := px_InFlight m + 1\<rparr>) s)"
| "run_act Returned (Refreshing k) s = Some (Some (Returning k), pf_count (\<lambda>m. m\<lparr>px_Completed := px_Completed m + 1\<rparr>) s)"
| "run_act StopSeen (Refreshing k) s = (if pf_stop s then Some (Some (Cancelled k), s) else None)"
| "run_act Returned (Cancelled k) s = Some (Some (Returning k), s)"
| "run_act rd (Returning k) s = Some (Some (GivingBack k), pf_count (\<lambda>m. m\<lparr>px_InFlight := px_InFlight m - 1\<rparr>) s)"
| "run_act rd (GivingBack k) s = Some (Some (Unmarking k), s\<lparr>pf_sem := pf_sem s - 1\<rparr>)"
| "run_act rd (Unmarking k) s = Some (Some Leaving, pf_release k s)"
| "run_act rd Leaving s = Some (None, s\<lparr>pf_wg := pf_wg s - 1\<rparr>)"
| "run_act rd _ s = None"

text \<open>\<open>Close\<close>: it closes the stop channel and returns when the wait group is empty; \<open>pf_closed\<close> records that it has.\<close>

fun close_act :: "point \<Rightarrow> 'c prefetcher \<Rightarrow> (point option \<times> 'c prefetcher) option" where
  "close_act Closing s = Some (Some Waiting, s\<lparr>pf_stop := True\<rparr>)"
| "close_act Waiting s = (if pf_wg s = 0 then Some (None, s\<lparr>pf_closed := True\<rparr>) else None)"
| "close_act _ s = None"

definition pf_act :: "ready \<Rightarrow> point \<Rightarrow> 'c prefetcher \<Rightarrow> (point option \<times> 'c prefetcher) option" where
  "pf_act rd p s = (case trigger_act p s of Some r \<Rightarrow> Some r | None \<Rightarrow> (case run_act rd p s of Some r \<Rightarrow> Some r | None \<Rightarrow> close_act p s))"

definition opt_list :: "'a option \<Rightarrow> 'a list" where
  "opt_list x = (case x of None \<Rightarrow> [] | Some y \<Rightarrow> [y])"

text \<open>One goroutine moves.\<close>

inductive pf_move :: "'c prefetcher \<Rightarrow> 'c prefetcher \<Rightarrow> bool" where
  "pf_threads s = ts @ p # us \<Longrightarrow> pf_act rd p s = Some (q, s') \<Longrightarrow> pf_move s (s'\<lparr>pf_threads := ts @ opt_list q @ us\<rparr>)"

text \<open>Everything that can happen: the operations of the cache, the installation of the refresh, a call of \<open>Close\<close>, and the moves of the goroutines.\<close>

inductive pf_reach :: "'c inner \<Rightarrow> 'c \<Rightarrow> pf_options \<Rightarrow> 'c prefetcher \<Rightarrow> bool" for I c opts where
  pr_New: "pf_reach I c opts (pf_New c opts)"
| pr_Set: "pf_reach I c opts s \<Longrightarrow> pf_reach I c opts (SetRefresh s)"
| pr_Get: "pf_reach I c opts s \<Longrightarrow> pf_reach I c opts (snd (pf_Get I now k s))"
| pr_PutRRset: "pf_reach I c opts s \<Longrightarrow> pf_PutRRset I now k rrs a s = Some s' \<Longrightarrow> pf_reach I c opts s'"
| pr_PutValidated: "pf_reach I c opts s \<Longrightarrow> pf_PutValidated I now k rrs a s = Some s' \<Longrightarrow> pf_reach I c opts s'"
| pr_PutNegative: "pf_reach I c opts s \<Longrightarrow> pf_PutNegative I now k rc rrs ttl a s = Some s' \<Longrightarrow> pf_reach I c opts s'"
| pr_Close: "pf_reach I c opts s \<Longrightarrow> pf_reach I c opts (s\<lparr>pf_threads := pf_threads s @ [Closing]\<rparr>)"
| pr_Move: "pf_reach I c opts s \<Longrightarrow> pf_move s s' \<Longrightarrow> pf_reach I c opts s'"

section \<open>What each goroutine accounts for\<close>

text \<open>The mark a goroutine owns, whether it holds a slot of the semaphore, whether the wait group counts it, and whether its refresh is under way.\<close>

fun mark :: "point \<Rightarrow> ckey list" where
  "mark (Marked k) = [k]" | "mark (Full k) = [k]" | "mark (Holding k) = [k]" | "mark (Stopping k) = [k]" | "mark (Releasing k) = [k]" | "mark (Starting k) = [k]"
| "mark (Begun k) = [k]" | "mark (Refreshing k) = [k]" | "mark (Cancelled k) = [k]" | "mark (Returning k) = [k]" | "mark (GivingBack k) = [k]"
| "mark (Unmarking k) = [k]" | "mark _ = []"

fun slot :: "point \<Rightarrow> bool" where
  "slot (Holding _) = True" | "slot (Stopping _) = True" | "slot (Starting _) = True" | "slot (Begun _) = True" | "slot (Refreshing _) = True"
| "slot (Cancelled _) = True" | "slot (Returning _) = True" | "slot (GivingBack _) = True" | "slot _ = False"

fun member :: "point \<Rightarrow> bool" where
  "member (Begun _) = True" | "member (Refreshing _) = True" | "member (Cancelled _) = True" | "member (Returning _) = True" | "member (GivingBack _) = True"
| "member (Unmarking _) = True" | "member Leaving = True" | "member _ = False"

fun running :: "point \<Rightarrow> ckey list" where
  "running (Refreshing k) = [k]" | "running (Cancelled k) = [k]" | "running _ = []"

abbreviation marks :: "point list \<Rightarrow> ckey list" where
  "marks ts \<equiv> concat (map mark ts)"

fun gauged :: "point \<Rightarrow> bool" where
  "gauged (Refreshing _) = True" | "gauged (Cancelled _) = True" | "gauged (Returning _) = True" | "gauged _ = False"

abbreviation tally :: "(point \<Rightarrow> bool) \<Rightarrow> point list \<Rightarrow> nat" where
  "tally P ts \<equiv> length (filter P ts)"

definition pf_ok :: "'c prefetcher \<Rightarrow> bool" where
  "pf_ok s \<longleftrightarrow> distinct (marks (pf_threads s)) \<and> pf_inflight s = set (marks (pf_threads s))
     \<and> pf_sem s = tally slot (pf_threads s) \<and> int (pf_sem s) \<le> po_MaxConcurrent (pf_opts s)
     \<and> pf_wg s = tally member (pf_threads s) \<and> px_InFlight (pf_metrics s) = int (tally gauged (pf_threads s))"

lemma po_fill_pos: "0 < po_MaxConcurrent (po_fill o1) \<and> 0 < po_MinTTL (po_fill o1) \<and> 0 < po_Threshold (po_fill o1) \<and> po_Threshold (po_fill o1) < 1"
  by (simp add: po_fill_def Let_def second_def not_le)

lemma pf_ok_New: "pf_ok (pf_New c opts)"
  using po_fill_pos [of opts] by (simp add: pf_ok_def pf_New_def)

lemma pf_ok_idle: "pf_ok s \<Longrightarrow> mark p = [] \<Longrightarrow> \<not> slot p \<Longrightarrow> \<not> member p \<Longrightarrow> \<not> gauged p \<Longrightarrow> pf_ok (s\<lparr>pf_threads := pf_threads s @ [p]\<rparr>)"
  by (simp add: pf_ok_def)

lemma pf_ok_inner: "pf_ok (s\<lparr>pf_inner := c\<rparr>) = pf_ok s" "pf_ok (s\<lparr>pf_refresh := b\<rparr>) = pf_ok s"
  by (simp_all add: pf_ok_def)

lemma pf_ok_Get: "pf_ok s \<Longrightarrow> pf_ok (snd (pf_Get I now k s))"
  by (auto simp: pf_Get_def Let_def pf_ok_def split: prod.split option.split)

lemmas pf_simps = pf_act_def pf_count_def pf_release_def opt_list_def

lemma act_frame: "pf_act rd p s = Some (q, s') \<Longrightarrow> pf_opts s' = pf_opts s \<and> pf_threads s' = pf_threads s \<and> pf_inner s' = pf_inner s"
  by (cases p; cases rd; auto simp: pf_simps split: if_splits)

lemma act_slot:
  "pf_act rd p s = Some (q, s') \<Longrightarrow> (slot p \<longrightarrow> 0 < pf_sem s) \<Longrightarrow> int (pf_sem s) \<le> po_MaxConcurrent (pf_opts s) \<Longrightarrow>
    pf_sem s' + tally slot [p] = pf_sem s + tally slot (opt_list q) \<and> int (pf_sem s') \<le> po_MaxConcurrent (pf_opts s)"
  by (cases p; cases rd; auto simp: pf_simps split: if_splits)

lemma act_member:
  "pf_act rd p s = Some (q, s') \<Longrightarrow> (member p \<longrightarrow> 0 < pf_wg s) \<Longrightarrow> pf_wg s' + tally member [p] = pf_wg s + tally member (opt_list q)"
  by (cases p; cases rd; auto simp: pf_simps split: if_splits)

lemma act_gauge:
  "pf_act rd p s = Some (q, s') \<Longrightarrow>
    px_InFlight (pf_metrics s') + int (tally gauged [p]) = px_InFlight (pf_metrics s) + int (tally gauged (opt_list q))"
  by (cases p; cases rd; auto simp: pf_simps split: if_splits)

lemma act_mark:
  "pf_act rd p s = Some (q, s') \<Longrightarrow>
    (\<exists>k. mark p = [] \<and> marks (opt_list q) = [k] \<and> k \<notin> pf_inflight s \<and> pf_inflight s' = insert k (pf_inflight s))
    \<or> marks (opt_list q) = mark p \<and> pf_inflight s' = pf_inflight s
    \<or> (\<exists>k. mark p = [k] \<and> marks (opt_list q) = [] \<and> pf_inflight s' = pf_inflight s - {k})"
  by (cases p; cases rd; auto simp: pf_simps split: if_splits)

lemma pf_ok_move:
  assumes "pf_ok s" and "pf_move s s'"
  shows "pf_ok s' \<and> pf_opts s' = pf_opts s"
  using assms(2)
proof cases
  case (1 ts p us rd q s1)
  note ok = assms(1) [unfolded pf_ok_def 1(2)] and act = 1(3)
  have "pf_sem s1 + tally slot [p] = pf_sem s + tally slot (opt_list q)" "int (pf_sem s1) \<le> po_MaxConcurrent (pf_opts s)"
    using act_slot [OF act] ok by auto
  moreover have "pf_wg s1 + tally member [p] = pf_wg s + tally member (opt_list q)" using act_member [OF act] ok by auto
  moreover note act_gauge [OF act] act_frame [OF act]
  moreover have "distinct (marks (ts @ opt_list q @ us)) \<and> pf_inflight s1 = set (marks (ts @ opt_list q @ us))"
    using act_mark [OF act]
  proof (elim disjE exE conjE)
    fix k assume "mark p = []" "marks (opt_list q) = [k]" "k \<notin> pf_inflight s" "pf_inflight s1 = insert k (pf_inflight s)"
    with ok show ?thesis by auto
  next
    assume "marks (opt_list q) = mark p" "pf_inflight s1 = pf_inflight s"
    with ok show ?thesis by simp
  next
    fix k assume "mark p = [k]" "marks (opt_list q) = []" "pf_inflight s1 = pf_inflight s - {k}"
    with ok show ?thesis by (cases q) (auto simp: opt_list_def)
  qed
  moreover have "tally P (ts @ p # us) + tally P (opt_list q) = tally P (ts @ opt_list q @ us) + tally P [p]" for P by simp
  note this [of slot] this [of member] this [of gauged]
  ultimately show ?thesis using ok 1(1) unfolding pf_ok_def by (simp del: filter_append filter.simps)
qed

lemma pf_reach_ok: "pf_reach I c opts s \<Longrightarrow> pf_ok s \<and> pf_opts s = po_fill opts"
proof (induction rule: pf_reach.induct)
  case (pr_Move s s')
  then show ?case using pf_ok_move by metis
next
  case (pr_Get s now k)
  then show ?case using pf_ok_Get [of s I now k] by (auto simp: pf_Get_def Let_def split: prod.splits option.splits)
qed (auto simp: pf_ok_New pf_New_def pf_ok_inner SetRefresh_def pf_PutRRset_def pf_PutValidated_def pf_PutNegative_def intro: pf_ok_idle pf_ok_New [unfolded pf_New_def])

section \<open>Bounded, single, and only for names in use\<close>

lemma running_slot: "length (concat (map running ts)) \<le> tally slot ts"
proof (induction ts)
  case (Cons p ts)
  then show ?case by (cases p) auto
qed simp

lemma running_mark: "distinct (marks ts) \<Longrightarrow> distinct (concat (map running ts)) \<and> set (concat (map running ts)) \<subseteq> set (marks ts)"
proof (induction ts)
  case (Cons p ts)
  then show ?case by (cases p) auto
qed simp

text \<open>C10. Prefetching stays within its means, whatever the interleaving of reads, refreshes and \<open>Close\<close>: at most \<open>MaxConcurrent\<close> refreshes run at a time and no two
  for the same key; the marks, the semaphore, the wait group and the gauge account exactly for the goroutines there are, so that nothing is
  held once they have ended.\<close>

theorem prefetch_bounded:
  assumes "pf_reach I c opts s"
  shows "int (length (concat (map running (pf_threads s)))) \<le> po_MaxConcurrent (po_fill opts) \<and> distinct (concat (map running (pf_threads s)))
    \<and> px_InFlight (pf_metrics s) = int (tally gauged (pf_threads s))
    \<and> (pf_threads s = [] \<longrightarrow> pf_inflight s = {} \<and> pf_sem s = 0 \<and> pf_wg s = 0 \<and> px_InFlight (pf_metrics s) = 0)"
proof -
  note ok = pf_reach_ok [OF assms, unfolded pf_ok_def]
  have "distinct (concat (map running (pf_threads s)))" using running_mark ok by blast
  moreover have "int (length (concat (map running (pf_threads s)))) \<le> po_MaxConcurrent (po_fill opts)" using running_slot [of "pf_threads s"] ok by auto
  ultimately show ?thesis using ok by simp
qed

text \<open>A read through the decorator returns exactly what the cache below returns, and starts a refresh exactly for a positive entry that is still good, was stored for at least the
  minimum lifetime and is in the last part of it; a denial, an expired entry and a name nobody asks for are never refreshed.\<close>

theorem prefetch_only_due:
  "fst (pf_Get I now k s) = fst (in_Get I now k (pf_inner s)) \<and> pf_inner (snd (pf_Get I now k s)) = snd (in_Get I now k (pf_inner s))
   \<and> pf_threads (snd (pf_Get I now k s)) =
       (if \<exists>e. fst (in_Get I now k (pf_inner s)) = Some e \<and> e_Kind e = KindAnswer \<and> now < e_Expiry e
             \<and> po_MinTTL (pf_opts s) \<le> time_Sub (e_Expiry e) (e_Stored e)
             \<and> rat_of_int (time_Sub (e_Expiry e) now) \<le> rat_of_int (time_Sub (e_Expiry e) (e_Stored e)) * po_Threshold (pf_opts s)
        then pf_threads s @ [Triggering k] else pf_threads s)"
proof -
  obtain r c where g: "in_Get I now k (pf_inner s) = (r, c)" by (cases "in_Get I now k (pf_inner s)")
  have "time_Sub t u \<le> 0 \<longleftrightarrow> \<not> u < t" for t u using time_Sub_pos [of t u] by linarith
  with g show ?thesis by (cases r) (auto simp: pf_Get_def Let_def due_def)
qed

section \<open>Draining and closing\<close>

fun effort :: "point \<Rightarrow> nat" where
  "effort (Triggering _) = 11" | "effort (Marked _) = 10" | "effort (Holding _) = 9" | "effort (Starting _) = 8" | "effort (Begun _) = 7"
| "effort (Refreshing _) = 6" | "effort (Cancelled _) = 5" | "effort (Returning _) = 4" | "effort (GivingBack _) = 3" | "effort (Unmarking _) = 2"
| "effort (Stopping _) = 2" | "effort Closing = 2" | "effort _ = 1"

abbreviation efforts :: "point list \<Rightarrow> nat" where
  "efforts ts \<equiv> sum_list (map effort ts)"

lemma act_effort: "pf_act rd p s = Some (q, s') \<Longrightarrow> efforts (opt_list q) < effort p"
  by (cases p; cases rd; auto simp: pf_simps split: if_splits)

lemma move_effort: "pf_move s s' \<Longrightarrow> efforts (pf_threads s') < efforts (pf_threads s)"
  by (induction rule: pf_move.induct) (simp add: act_effort)

lemma moves_effort: "(pf_move ^^ n) s s' \<Longrightarrow> n + efforts (pf_threads s') \<le> efforts (pf_threads s)"
proof (induction n arbitrary: s')
  case (Suc n)
  then obtain u where "(pf_move ^^ n) s u" "pf_move u s'" by auto
  with Suc.IH move_effort show ?case by fastforce
qed simp

lemma effort_bound: "efforts ts \<le> 11 * length ts"
proof (induction ts)
  case (Cons p ts)
  then show ?case by (cases p) auto
qed simp

lemma act_enabled: "p \<noteq> Waiting \<or> pf_wg s = 0 \<Longrightarrow> \<exists>r. pf_act Returned p s = Some r"
  by (cases p) (auto simp: pf_act_def)

lemma move_enabled:
  assumes "pf_ok s" and "pf_threads s \<noteq> []"
  shows "\<exists>s'. pf_move s s'"
proof -
  obtain p where p: "p \<in> set (pf_threads s)" "p \<noteq> Waiting \<or> pf_wg s = 0"
  proof (cases "set (pf_threads s) \<subseteq> {Waiting}")
    case True
    then have "tally member (pf_threads s) = 0" by (auto simp: filter_empty_conv)
    with assms show ?thesis by (intro that [of "hd (pf_threads s)"]) (simp_all add: pf_ok_def)
  qed blast
  obtain ts us where "pf_threads s = ts @ p # us" using split_list [OF p(1)] by blast
  moreover obtain q s1 where "pf_act Returned p s = Some (q, s1)" using act_enabled [OF p(2)] by auto
  ultimately show ?thesis by (blast intro: pf_move.intros)
qed

text \<open>C21. The goroutines cannot block each other: from every reachable state, when no new read arrives and refreshes return, every
  schedule ends after at most eleven actions per goroutine, and it ends only when all of them have, \<open>Close\<close> included, with nothing marked and no slot taken.\<close>

theorem prefetch_drains:
  assumes "pf_reach I c opts s" and "(pf_move ^^ n) s s'"
  shows "n \<le> 11 * length (pf_threads s)
    \<and> ((\<nexists>u. pf_move s' u) \<longrightarrow> pf_threads s' = [] \<and> pf_inflight s' = {} \<and> pf_sem s' = 0 \<and> pf_wg s' = 0)"
proof -
  have "pf_ok s'" using assms(2)
  proof (induction n arbitrary: s')
    case 0
    then show ?case using pf_reach_ok [OF assms(1)] by simp
  next
    case (Suc n)
    then show ?case using pf_ok_move by fastforce
  qed
  moreover from this have "pf_threads s' = []" if "\<nexists>u. pf_move s' u" using move_enabled that by blast
  ultimately have "(\<nexists>u. pf_move s' u) \<longrightarrow> pf_threads s' = [] \<and> pf_inflight s' = {} \<and> pf_sem s' = 0 \<and> pf_wg s' = 0"
    by (simp add: pf_ok_def)
  with moves_effort [OF assms(2)] effort_bound [of "pf_threads s"] show ?thesis by auto
qed

text \<open>The only goroutine of a state moves.\<close>

lemma move_first:
  "pf_threads s = p # us \<Longrightarrow> pf_act Returned p s = Some (q, s') \<Longrightarrow> pf_move s (s'\<lparr>pf_threads := opt_list q @ us\<rparr>)"
  using pf_move.intros [of s "[]" p us Returned q s'] by simp

text \<open>A read of a due entry has passed the test of the stop channel and not yet joined the wait group.\<close>

definition about_to_start :: "'c \<Rightarrow> 'c \<Rightarrow> pf_options \<Rightarrow> ckey \<Rightarrow> 'c prefetcher" where
  "about_to_start c c' opts k = (pf_New c opts)\<lparr>pf_refresh := True, pf_inner := c', pf_inflight := {k}, pf_sem := 1, pf_threads := [Starting k]\<rparr>"

lemma starting_reached:
  assumes "in_Get I now k c = (Some e, c')" and "due (po_fill opts) now e"
  shows "pf_reach I c opts (about_to_start c c' opts k)"
proof -
  let ?s0 = "pf_New c opts"
  let ?s1 = "?s0\<lparr>pf_refresh := True, pf_inner := c', pf_threads := [Triggering k]\<rparr>"
  let ?s2 = "?s1\<lparr>pf_inflight := {k}, pf_threads := [Marked k]\<rparr>"
  let ?s3 = "?s2\<lparr>pf_sem := 1, pf_threads := [Holding k]\<rparr>"
  have "?s1 = snd (pf_Get I now k (SetRefresh ?s0))" using assms by (simp add: pf_Get_def SetRefresh_def pf_New_def)
  then have "pf_reach I c opts ?s1" by (metis pr_New pr_Set pr_Get)
  moreover have "pf_move ?s1 ?s2" using move_first [of ?s1 "Triggering k" "[]"] by (simp add: pf_simps pf_New_def)
  moreover have "pf_move ?s2 ?s3" using move_first [of ?s2 "Marked k" "[]"] po_fill_pos [of opts] by (simp add: pf_simps pf_New_def)
  moreover have "pf_move ?s3 (about_to_start c c' opts k)" using move_first [of ?s3 "Holding k" "[]"] by (simp add: pf_simps pf_New_def about_to_start_def)
  ultimately show ?thesis by (blast intro: pr_Move)
qed

lemma starting_runs:
  assumes "pf_reach I c opts s" and "pf_threads s = [Starting k]"
  shows "\<exists>s'. pf_reach I c opts s' \<and> pf_threads s' = [Refreshing k] \<and> pf_closed s' = pf_closed s"
proof -
  let ?m = "(pf_metrics s)\<lparr>px_Triggered := px_Triggered (pf_metrics s) + 1\<rparr>"
  let ?u = "s\<lparr>pf_metrics := ?m, pf_wg := pf_wg s + 1, pf_threads := [Begun k]\<rparr>"
  let ?v = "?u\<lparr>pf_metrics := ?m\<lparr>px_InFlight := px_InFlight ?m + 1\<rparr>, pf_threads := [Refreshing k]\<rparr>"
  have "pf_move s ?u" using move_first [OF assms(2)] by (simp add: pf_simps)
  moreover have "pf_move ?u ?v" using move_first [of ?u "Begun k" "[]"] by (simp add: pf_simps)
  ultimately have "pf_reach I c opts ?v" using assms(1) by (blast intro: pr_Move)
  then show ?thesis by (intro exI [of _ ?v]) simp
qed

text \<open>C39. \<open>Close\<close> can return before a refresh starts: a read that has passed the test of the stop channel but not yet joined the wait group is not
  waited for, so for every entry that is due there is a schedule in which \<open>Close\<close> has returned and the refresh of that entry then runs.\<close>

theorem close_misses_refresh:
  assumes "in_Get I now k c = (Some e, c')" and "due (po_fill opts) now e"
  shows "\<exists>s. pf_reach I c opts s \<and> pf_closed s \<and> Refreshing k \<in> set (pf_threads s)"
proof -
  let ?s = "about_to_start c c' opts k"
  let ?s5 = "?s\<lparr>pf_threads := [Starting k, Closing]\<rparr>"
  let ?s6 = "?s5\<lparr>pf_stop := True, pf_threads := [Starting k, Waiting]\<rparr>"
  let ?s7 = "?s6\<lparr>pf_closed := True, pf_threads := [Starting k]\<rparr>"
  have "pf_reach I c opts ?s5" using pr_Close [OF starting_reached [OF assms]] by (simp add: about_to_start_def)
  moreover have "pf_move ?s5 ?s6" using pf_move.intros [of ?s5 "[Starting k]" Closing "[]" Returned "Some Waiting"] by (simp add: pf_simps)
  moreover have "pf_move ?s6 ?s7"
    using pf_move.intros [of ?s6 "[Starting k]" Waiting "[]" Returned None] by (simp add: pf_simps about_to_start_def pf_New_def)
  ultimately have "pf_reach I c opts ?s7" by (blast intro: pr_Move)
  from starting_runs [OF this] show ?thesis by force
qed

section \<open>Over the RRset cache\<close>

text \<open>Decorating the RRset cache keeps it: whatever the decorator and its refreshes do, the cache below is one its own operations reach, so its bounds
  hold, and a read through the decorator in any such state is a read of it.\<close>

theorem prefetch_keeps_cache:
  assumes "pf_reach (cache_inner H) c opts s" and "cache_reach H o1 c"
  shows "cache_reach H o1 (pf_inner s) \<and> fst (pf_Get (cache_inner H) now k s) = fst (cache_Get H now k (pf_inner s))"
proof -
  have "cache_reach H o1 (pf_inner s)" using assms
  proof (induction rule: pf_reach.induct)
    case (pr_Get s now k)
    then have "cache_reach H o1 (snd (cache_Get H now k (pf_inner s)))" by (simp add: reach_Get)
    then show ?case by (auto simp: pf_Get_def Let_def cache_inner_def split: prod.splits option.splits)
  next
    case (pr_Move s s')
    from pr_Move(2) have "pf_inner s' = pf_inner s" by (induction rule: pf_move.induct) (simp add: act_frame)
    with pr_Move show ?case by simp
  qed (auto simp: pf_New_def SetRefresh_def pf_PutRRset_def pf_PutValidated_def pf_PutNegative_def cache_inner_def
        PutRRset_def PutValidated_def PutNegative_def putRRset_def Let_def intro: reach_Put split: if_splits option.splits list.splits)
  then show ?thesis by (auto simp: pf_Get_def Let_def cache_inner_def split: prod.splits option.splits)
qed

section \<open>Witnesses\<close>

definition due_entry :: centry where
  "due_entry = \<lparr>e_RRs = [], e_Kind = KindAnswer, e_Rcode = 0, e_Authenticated = False, e_Validated = False, e_Stored = 0, e_Expiry = 100 * second\<rparr>"

definition one_entry :: "unit inner" where
  "one_entry = \<lparr>in_Get = \<lambda>now k c. (Some due_entry, c), in_PutRRset = \<lambda>_ _ _ _ c. Some c, in_PutValidated = \<lambda>_ _ _ _ c. Some c, in_PutNegative = \<lambda>_ _ _ _ _ _ c. Some c\<rparr>"

definition zero_opts :: pf_options where
  "zero_opts = \<lparr>po_Threshold = 0, po_MinTTL = 0, po_MaxConcurrent = 0, po_Timeout = 0\<rparr>"

lemma due_one: "in_Get one_entry (95 * second) test_key () = (Some due_entry, ())" "due (po_fill zero_opts) (95 * second) due_entry"
  by (simp_all add: one_entry_def due_def due_entry_def po_fill_def zero_opts_def second_def time_Sub_def maxDuration_def minDuration_def Let_def)

theorem prefetch_bounded_witness:
  "\<exists>s. pf_reach one_entry () zero_opts s \<and> pf_threads s = [Refreshing test_key] \<and> px_InFlight (pf_metrics s) = 1"
proof -
  obtain s where s: "pf_reach one_entry () zero_opts s" "pf_threads s = [Refreshing test_key]"
    using starting_runs [OF starting_reached [OF due_one]] by (auto simp: about_to_start_def)
  from prefetch_bounded [OF s(1)] have "px_InFlight (pf_metrics s) = int (tally gauged [Refreshing test_key])" by (simp add: s(2))
  then have "px_InFlight (pf_metrics s) = 1" by simp
  with s show ?thesis by blast
qed

theorem prefetch_drains_witness:
  "\<exists>s. pf_reach one_entry () zero_opts (pf_New () zero_opts\<lparr>pf_threads := [Closing]\<rparr>) \<and> (pf_move ^^ 2) (pf_New () zero_opts\<lparr>pf_threads := [Closing]\<rparr>) s \<and> pf_threads s = []"
proof -
  let ?s = "pf_New () zero_opts\<lparr>pf_threads := [Closing]\<rparr>"
  have r: "pf_reach one_entry () zero_opts ?s" using pr_Close [OF pr_New, of one_entry "()" zero_opts] by (simp add: pf_New_def)
  let ?u = "?s\<lparr>pf_stop := True, pf_threads := [Waiting]\<rparr>" and ?v = "?s\<lparr>pf_stop := True, pf_closed := True, pf_threads := []\<rparr>"
  have "pf_move ?s ?u" using pf_move.intros [of ?s "[]" Closing "[]" Returned "Some Waiting"] by (simp add: pf_simps)
  moreover have "pf_move ?u ?v" using pf_move.intros [of ?u "[]" Waiting "[]" Returned None] by (simp add: pf_simps pf_New_def)
  ultimately have m: "(pf_move ^^ 2) ?s ?v" by (auto simp: numeral_2_eq_2)
  have "\<nexists>x. pf_move ?v x" by (auto elim: pf_move.cases)
  with prefetch_drains [OF r m] r m show ?thesis by blast
qed

theorem close_misses_refresh_witness:
  "\<exists>s. pf_reach one_entry () zero_opts s \<and> pf_closed s \<and> Refreshing test_key \<in> set (pf_threads s)"
  by (rule close_misses_refresh [OF due_one])

theorem prefetch_keeps_cache_witness:
  "cache_reach (\<lambda>_. 0) test_opts test_cache
   \<and> cache_reach (\<lambda>_. 0) test_opts (pf_inner (snd (pf_Get (cache_inner (\<lambda>_. 0)) 7 test_key (pf_New test_cache zero_opts))))"
proof -
  have r: "pf_reach (cache_inner (\<lambda>_. 0)) test_cache zero_opts (snd (pf_Get (cache_inner (\<lambda>_. 0)) 7 test_key (pf_New test_cache zero_opts)))"
    by (intro pr_Get pr_New)
  from prefetch_keeps_cache [OF r test_cache_reach] test_cache_reach show ?thesis by blast
qed

end
