(* ===== verification/Listeners.thy ===== *)
theory Listeners
  imports Transport Netacl "HOL-Library.Sublist"
begin

text \<open>
  \<open>internal/transport\<close>: \<open>udp.go\<close>, \<open>tcp.go\<close> (with DoT), \<open>doh.go\<close> and \<open>doq.go\<close>, from what comes off a socket to what is written to it. What a socket, a TLS or QUIC
  connection or the HTTP server delivers, and whether a write fails, are arguments; so is the clock. A handler may panic: it is a function to an optional
  result, \<open>None\<close> for a panic, with the state it leaves. The wire format is the record \<open>wirelib\<close> of functions of \<open>miekg/dns\<close>; ports are left
  out except in the destination of a datagram, and log lines everywhere.
\<close>

type_synonym 's served = "request \<Rightarrow> 's \<Rightarrow> dmsg option option \<times> 's"

record wirelib =
  wl_Unpack :: "8 word list \<Rightarrow> dmsg option"
  wl_Pack :: "dmsg \<Rightarrow> 8 word list option"
  wl_Len :: "dmsg \<Rightarrow> int"
  wl_Truncate :: "int \<Rightarrow> dmsg \<Rightarrow> dmsg"
  wl_base64url :: "string \<Rightarrow> 8 word list option"

record tmetrics =
  tm_Queries :: nat
  tm_ParseErrors :: nat
  tm_Panics :: nat
  tm_Truncated :: nat
  tm_WriteErrors :: nat
  tm_Dropped :: nat
  tm_TCPAccepted :: nat
  tm_TCPRefused :: nat
  tm_DoQRefused :: nat

definition no_metrics :: tmetrics where
  "no_metrics = \<lparr>tm_Queries = 0, tm_ParseErrors = 0, tm_Panics = 0, tm_Truncated = 0, tm_WriteErrors = 0, tm_Dropped = 0,
     tm_TCPAccepted = 0, tm_TCPRefused = 0, tm_DoQRefused = 0\<rparr>"

abbreviation parse_error :: "tmetrics \<Rightarrow> tmetrics" where
  "parse_error m \<equiv> m\<lparr>tm_ParseErrors := tm_ParseErrors m + 1\<rparr>"

abbreviation write_error :: "tmetrics \<Rightarrow> tmetrics" where
  "write_error m \<equiv> m\<lparr>tm_WriteErrors := tm_WriteErrors m + 1\<rparr>"

definition errorResponse :: "dnslib \<Rightarrow> dmsg \<Rightarrow> int \<Rightarrow> dmsg" where
  "errorResponse L req rcode = (SetRcode L req rcode)\<lparr>m_AuthenticatedData := False\<rparr>"

definition refusedResponse :: "dnslib \<Rightarrow> dmsg \<Rightarrow> dmsg" where
  "refusedResponse L req = errorResponse L req RcodeRefused"

text \<open>\<open>opts.AllowQuery != nil && !opts.AllowQuery.Allows(a)\<close>.\<close>

definition refused :: "acl option \<Rightarrow> addr \<Rightarrow> bool" where
  "refused ac a = (ac \<noteq> None \<and> \<not> acl_Allows ac a)"

text \<open>\<open>req.Response || len(req.Question) != 1\<close> is the negation of this.\<close>

definition is_query :: "dmsg \<Rightarrow> bool" where
  "is_query req = (\<not> m_Response req \<and> length (m_Question req) = 1)"

text \<open>The end of every \<open>dispatch\<close>: the handler under the deferred \<open>recover\<close>.\<close>

definition recovered :: "dnslib \<Rightarrow> 's served \<Rightarrow> request \<Rightarrow> tmetrics \<Rightarrow> 's \<Rightarrow> dmsg option \<times> tmetrics \<times> 's" where
  "recovered L h r m s = (case h r s of
       (Some resp, s') \<Rightarrow> (resp, m, s')
     | (None, s') \<Rightarrow> (Some (errorResponse L (rq_Msg r) RcodeServerFailure), m\<lparr>tm_Panics := tm_Panics m + 1\<rparr>, s'))"

section \<open>UDP\<close>

record packet =
  pk_data :: "8 word list"
  pk_from :: "addr \<times> u16"
  pk_local :: addr
  pk_received :: gtime

record udp_options =
  uo_SocketsPerAddr :: int
  uo_Workers :: int
  uo_QueueDepth :: int
  uo_UDPSize :: u16
  uo_ClientBudget :: duration
  uo_AllowQuery :: "acl option"

definition udp_fill :: "int \<Rightarrow> bool \<Rightarrow> udp_options \<Rightarrow> udp_options" where
  "udp_fill ncpu reusePortSupported o1 =
     (let o2 = (if uo_SocketsPerAddr o1 \<le> 0 then o1\<lparr>uo_SocketsPerAddr := ncpu\<rparr> else o1);
          o3 = (if \<not> reusePortSupported then o2\<lparr>uo_SocketsPerAddr := 1\<rparr> else o2);
          o4 = (if uo_Workers o3 \<le> 0 then o3\<lparr>uo_Workers := 32\<rparr> else o3);
          o5 = (if uo_QueueDepth o4 \<le> 0 then o4\<lparr>uo_QueueDepth := 1024\<rparr> else o4);
          o6 = (if uo_UDPSize o5 = 0 then o5\<lparr>uo_UDPSize := 1232\<rparr> else o5)
      in if uo_ClientBudget o6 \<le> 0 then o6\<lparr>uo_ClientBudget := 5 * second\<rparr> else o6)"

definition networkFor :: "addr \<Rightarrow> string" where
  "networkFor a = (if Is4 a then ''udp4'' else ''udp6'')"

text \<open>\<open>NewUDP\<close>: the sockets by their local address, or the address that could not be bound. \<open>bind\<close> tells whether the \<open>i\<close>-th socket of an address can be.\<close>

datatype bind_error = NoHandler | NoTLS | NoAddrs | BindFailed string addr nat

fun bind_socks :: "(string \<Rightarrow> addr \<Rightarrow> nat \<Rightarrow> bool) \<Rightarrow> addr \<Rightarrow> nat list \<Rightarrow> addr list \<Rightarrow> bind_error + addr list" where
  "bind_socks bind ap [] socks = Inr socks"
| "bind_socks bind ap (i # is) socks =
     (if \<not> bind (networkFor ap) ap i then Inl (BindFailed (networkFor ap) ap i) else bind_socks bind ap is (socks @ [ap]))"

fun bind_addrs :: "(string \<Rightarrow> addr \<Rightarrow> nat \<Rightarrow> bool) \<Rightarrow> nat \<Rightarrow> addr list \<Rightarrow> addr list \<Rightarrow> bind_error + addr list" where
  "bind_addrs bind n [] socks = Inr socks"
| "bind_addrs bind n (ap # aps) socks =
     (case bind_socks bind ap [0..<n] socks of Inl e \<Rightarrow> Inl e | Inr socks' \<Rightarrow> bind_addrs bind n aps socks')"

definition NewUDP :: "int \<Rightarrow> bool \<Rightarrow> (string \<Rightarrow> addr \<Rightarrow> nat \<Rightarrow> bool) \<Rightarrow> bool \<Rightarrow> addr list \<Rightarrow> udp_options \<Rightarrow> bind_error + udp_options \<times> addr list" where
  "NewUDP ncpu reuse bind hasHandler addrs opts =
     (if \<not> hasHandler then Inl NoHandler
      else let o1 = udp_fill ncpu reuse opts in
        case bind_addrs bind (nat (uo_SocketsPerAddr o1)) addrs [] of
          Inl e \<Rightarrow> Inl e
        | Inr socks \<Rightarrow> if socks = [] then Inl NoAddrs else Inr (o1, socks))"

definition udp_dispatch :: "dnslib \<Rightarrow> udp_options \<Rightarrow> 's served \<Rightarrow> gtime \<Rightarrow> dmsg \<Rightarrow> packet \<Rightarrow> tmetrics \<Rightarrow> 's \<Rightarrow> dmsg option \<times> tmetrics \<times> 's" where
  "udp_dispatch L O1 h now req p m s =
     (if \<not> now < pk_received p + uo_ClientBudget O1 then (None, m\<lparr>tm_Dropped := tm_Dropped m + 1\<rparr>, s)
      else recovered L h \<lparr>rq_Msg = req, rq_Client = fst (pk_from p), rq_Local = pk_local p, rq_Proto = ProtoUDP, rq_Internal = False,
             rq_Received = pk_received p, rq_MaxResponseSize = responseSizeFor L req ProtoUDP (uo_UDPSize O1)\<rparr> m s)"

definition udp_handle :: "dnslib \<Rightarrow> wirelib \<Rightarrow> udp_options \<Rightarrow> 's served \<Rightarrow> gtime \<Rightarrow> bool \<Rightarrow> packet \<Rightarrow> tmetrics \<Rightarrow> 's
    \<Rightarrow> ((addr \<times> u16) \<times> 8 word list) list \<times> tmetrics \<times> 's" where
  "udp_handle L W O1 h now writeFails p m0 s =
     (let m = m0\<lparr>tm_Queries := tm_Queries m0 + 1\<rparr> in
      case wl_Unpack W (pk_data p) of
        None \<Rightarrow> ([], parse_error m, s)
      | Some req \<Rightarrow>
          if \<not> is_query req then ([], parse_error m, s)
          else let (resp, m1, s1) = (if refused (uo_AllowQuery O1) (fst (pk_from p)) then (Some (refusedResponse L req), m, s)
                                     else udp_dispatch L O1 h now req p m s) in
            case resp of
              None \<Rightarrow> ([], m1, s1)
            | Some r \<Rightarrow>
                let size = responseSizeFor L req ProtoUDP (uo_UDPSize O1);
                    (r1, m2) = (if wl_Len W r > size then (wl_Truncate W size r, m1\<lparr>tm_Truncated := tm_Truncated m1 + 1\<rparr>) else (r, m1)) in
                case wl_Pack W r1 of
                  None \<Rightarrow> ([], write_error m2, s1)
                | Some out \<Rightarrow> if writeFails then ([], write_error m2, s1) else ([(pk_from p, out)], m2, s1))"

text \<open>One socket: its queue, and what was received and sent on it. Reads stop for good once the socket is closed. The workers of a socket take
  turns: a turn serves one datagram to its end, in the order of the queue.\<close>

datatype udp_read = ReadClosed | ReadFailed | Datagram "8 word list" "addr \<times> u16" gtime

record 's usock =
  so_local :: addr
  so_reading :: bool
  so_queue :: "packet list"
  so_m :: tmetrics
  so_state :: 's
  so_sent :: "((addr \<times> u16) \<times> 8 word list) list"

definition read_turn :: "udp_options \<Rightarrow> udp_read \<Rightarrow> 's usock \<Rightarrow> 's usock" where
  "read_turn O1 rd s =
     (if \<not> so_reading s then s
      else case rd of
          ReadClosed \<Rightarrow> s\<lparr>so_reading := False\<rparr>
        | ReadFailed \<Rightarrow> s
        | Datagram d from now \<Rightarrow>
            let p = \<lparr>pk_data = d, pk_from = from, pk_local = so_local s, pk_received = now\<rparr> in
            if int (length (so_queue s)) < uo_QueueDepth O1 then s\<lparr>so_queue := so_queue s @ [p]\<rparr>
            else s\<lparr>so_m := (so_m s)\<lparr>tm_Dropped := tm_Dropped (so_m s) + 1\<rparr>\<rparr>)"

definition worker_turn :: "dnslib \<Rightarrow> wirelib \<Rightarrow> udp_options \<Rightarrow> 's served \<Rightarrow> gtime \<Rightarrow> bool \<Rightarrow> 's usock \<Rightarrow> 's usock" where
  "worker_turn L W O1 h now writeFails s = (case so_queue s of
       [] \<Rightarrow> s
     | p # q \<Rightarrow> let (out, m, st) = udp_handle L W O1 h now writeFails p (so_m s) (so_state s)
                in s\<lparr>so_queue := q, so_m := m, so_state := st, so_sent := so_sent s @ out\<rparr>)"

datatype udp_event = Read udp_read | Work gtime bool

fun udp_run :: "dnslib \<Rightarrow> wirelib \<Rightarrow> udp_options \<Rightarrow> 's served \<Rightarrow> udp_event list \<Rightarrow> 's usock \<Rightarrow> 's usock" where
  "udp_run L W O1 h [] s = s"
| "udp_run L W O1 h (Read rd # es) s = udp_run L W O1 h es (read_turn O1 rd s)"
| "udp_run L W O1 h (Work now writeFails # es) s = udp_run L W O1 h es (worker_turn L W O1 h now writeFails s)"

section \<open>TCP and DoT\<close>

text \<open>\<open>addrPortOf\<close>; \<open>str\<close> is the \<open>String\<close> method of a \<open>net.Addr\<close>.\<close>

definition addrPortOf :: "parsers \<Rightarrow> (net_addr \<Rightarrow> string) \<Rightarrow> net_addr \<Rightarrow> addr option" where
  "addrPortOf P str a = (case (case a of TCPAddr ip \<Rightarrow> AddrFromSlice ip | UDPAddr ip \<Rightarrow> AddrFromSlice ip | OtherAddr _ \<Rightarrow> None) of
       Some ap \<Rightarrow> Some (Unmap ap)
     | None \<Rightarrow> map_option Unmap (ParseAddrPort P (str a)))"

definition addr_or_zero :: "addr option \<Rightarrow> addr" where
  "addr_or_zero a = (case a of None \<Rightarrow> AddrZero | Some x \<Rightarrow> x)"

record tcp_options =
  to_MaxConns :: int
  to_IdleTimeout :: duration
  to_ClientBudget :: duration
  to_AllowQuery :: "acl option"
  to_TLS :: bool

definition tcp_fill :: "tcp_options \<Rightarrow> tcp_options" where
  "tcp_fill o1 =
     (let o2 = (if to_MaxConns o1 \<le> 0 then o1\<lparr>to_MaxConns := 4096\<rparr> else o1);
          o3 = (if to_IdleTimeout o2 \<le> 0 then o2\<lparr>to_IdleTimeout := 10 * second\<rparr> else o2)
      in if to_ClientBudget o3 \<le> 0 then o3\<lparr>to_ClientBudget := 5 * second\<rparr> else o3)"

fun bind_streams :: "(string \<Rightarrow> addr \<Rightarrow> bool) \<Rightarrow> addr list \<Rightarrow> addr list \<Rightarrow> bind_error + addr list" where
  "bind_streams bind [] lns = Inr lns"
| "bind_streams bind (ap # aps) lns =
     (let network = (if Is4 ap then ''tcp4'' else ''tcp6'') in
      if \<not> bind network ap then Inl (BindFailed network ap 0) else bind_streams bind aps (lns @ [ap]))"

text \<open>\<open>NewTCP\<close>: the options, the protocol label and the local addresses of the listeners.\<close>

definition NewTCP :: "(string \<Rightarrow> addr \<Rightarrow> bool) \<Rightarrow> bool \<Rightarrow> addr list \<Rightarrow> tcp_options \<Rightarrow> bind_error + tcp_options \<times> proto \<times> addr list" where
  "NewTCP bind hasHandler addrs opts =
     (if \<not> hasHandler then Inl NoHandler
      else let o1 = tcp_fill opts in
        case bind_streams bind addrs [] of
          Inl e \<Rightarrow> Inl e
        | Inr lns \<Rightarrow> if lns = [] then Inl NoAddrs else Inr (o1, if to_TLS o1 then ProtoDoT else ProtoTCP, lns))"

text \<open>The accept loop and the ends of connections, as turns on the semaphore (the number of connections being served) and the metrics. A connection that is
  taken is \<open>Some\<close> of its client address.\<close>

datatype accept_turn = AcceptClosed | AcceptFailed | AcceptedConn net_addr

record listener_state =
  ls_accepting :: bool
  ls_sem :: nat
  ls_metrics :: tmetrics

definition tcp_accept :: "parsers \<Rightarrow> (net_addr \<Rightarrow> string) \<Rightarrow> tcp_options \<Rightarrow> bool \<Rightarrow> accept_turn \<Rightarrow> listener_state \<Rightarrow> addr option \<times> listener_state" where
  "tcp_accept P str O1 ctxDone t s =
     (case t of
        AcceptClosed \<Rightarrow> (None, s\<lparr>ls_accepting := False\<rparr>)
      | AcceptFailed \<Rightarrow> (None, if ctxDone then s\<lparr>ls_accepting := False\<rparr> else s)
      | AcceptedConn c \<Rightarrow>
          let from = addr_or_zero (addrPortOf P str c); m = ls_metrics s;
              turned_away = s\<lparr>ls_metrics := m\<lparr>tm_TCPRefused := tm_TCPRefused m + 1\<rparr>\<rparr> in
          if refused (to_AllowQuery O1) from then (None, turned_away)
          else if int (ls_sem s) < to_MaxConns O1
          then (Some from, s\<lparr>ls_sem := ls_sem s + 1, ls_metrics := m\<lparr>tm_TCPAccepted := tm_TCPAccepted m + 1\<rparr>\<rparr>)
          else (None, turned_away))"

definition tcp_finish :: "listener_state \<Rightarrow> listener_state" where
  "tcp_finish s = s\<lparr>ls_sem := ls_sem s - 1\<rparr>"

definition tcp_dispatch :: "dnslib \<Rightarrow> proto \<Rightarrow> 's served \<Rightarrow> dmsg \<Rightarrow> addr \<Rightarrow> addr \<Rightarrow> gtime \<Rightarrow> tmetrics \<Rightarrow> 's \<Rightarrow> dmsg option \<times> tmetrics \<times> 's" where
  "tcp_dispatch L pr h req from loc received m s =
     recovered L h \<lparr>rq_Msg = req, rq_Client = from, rq_Local = loc, rq_Proto = pr, rq_Internal = False, rq_Received = received, rq_MaxResponseSize = MaxMsgSize\<rparr> m s"

text \<open>One turn of the loop of \<open>serveConn\<close>: what the context, the deadlines, the read and the write do.\<close>

datatype conn_read = ConnClosed | ConnFailed | ConnMsg dmsg

record tcp_turn =
  tt_done :: bool
  tt_readDeadline :: bool
  tt_read :: conn_read
  tt_received :: gtime
  tt_writeDeadline :: bool
  tt_write :: bool

text \<open>\<open>serveConn\<close>: the messages written, whether the connection is still open when the turns given are over, and the rest.\<close>

fun tcp_serveConn :: "dnslib \<Rightarrow> proto \<Rightarrow> 's served \<Rightarrow> addr \<Rightarrow> addr \<Rightarrow> tcp_turn list \<Rightarrow> dmsg list \<Rightarrow> tmetrics \<Rightarrow> 's \<Rightarrow> dmsg list \<times> bool \<times> tmetrics \<times> 's" where
  "tcp_serveConn L pr h loc from [] sent m s = (sent, True, m, s)"
| "tcp_serveConn L pr h loc from (t # ts) sent m s =
     (if tt_done t then (sent, False, m, s)
      else if \<not> tt_readDeadline t then (sent, False, m, s)
      else case tt_read t of
          ConnClosed \<Rightarrow> (sent, False, m, s)
        | ConnFailed \<Rightarrow> (sent, False, parse_error m, s)
        | ConnMsg req \<Rightarrow>
            if \<not> is_query req then (sent, False, parse_error m, s)
            else let (resp, m1, s1) = tcp_dispatch L pr h req from loc (tt_received t) (m\<lparr>tm_Queries := tm_Queries m + 1\<rparr>) s in
              case resp of
                None \<Rightarrow> tcp_serveConn L pr h loc from ts sent m1 s1
              | Some r \<Rightarrow>
                  if \<not> tt_writeDeadline t then (sent, False, m1, s1)
                  else if \<not> tt_write t then (sent, False, write_error m1, s1)
                  else tcp_serveConn L pr h loc from ts (sent @ [r]) m1 s1)"

section \<open>DoH\<close>

definition maxDoHBody :: nat where "maxDoHBody = 65535"

record doh_options =
  ho_Path :: string
  ho_MaxConns :: int
  ho_IdleTimeout :: duration
  ho_ClientBudget :: duration
  ho_AllowQuery :: "acl option"
  ho_TrustedProxies :: "prefix list"

text \<open>A bound listener is its address and the source ACL it is wrapped in, if one is configured.\<close>

record doh =
  dh_opts :: doh_options
  dh_trusted :: "unit pmap"
  dh_lns :: "(addr \<times> acl option) list"

definition doh_fill :: "doh_options \<Rightarrow> doh_options" where
  "doh_fill o1 =
     (let o2 = (if ho_Path o1 = [] then o1\<lparr>ho_Path := ''/dns-query''\<rparr> else o1);
          o3 = (if ho_MaxConns o2 \<le> 0 then o2\<lparr>ho_MaxConns := 4096\<rparr> else o2);
          o4 = (if ho_IdleTimeout o3 \<le> 0 then o3\<lparr>ho_IdleTimeout := 30 * second\<rparr> else o3)
      in if ho_ClientBudget o4 \<le> 0 then o4\<lparr>ho_ClientBudget := 5 * second\<rparr> else o4)"

definition NewDoH :: "(string \<Rightarrow> addr \<Rightarrow> bool) \<Rightarrow> bool \<Rightarrow> bool \<Rightarrow> addr list \<Rightarrow> doh_options \<Rightarrow> bind_error + doh" where
  "NewDoH bind hasHandler hasTLS addrs opts =
     (if \<not> hasHandler then Inl NoHandler
      else if \<not> hasTLS then Inl NoTLS
      else let o1 = doh_fill opts; trusted = foldl (\<lambda>m p. pm_Insert p () m) pm_New (ho_TrustedProxies o1) in
        case bind_streams bind addrs [] of
          Inl e \<Rightarrow> Inl e
        | Inr lns \<Rightarrow> if lns = [] then Inl NoAddrs else Inr \<lparr>dh_opts = o1, dh_trusted = trusted, dh_lns = map (\<lambda>a. (a, ho_AllowQuery o1)) lns\<rparr>)"

definition doh_accept :: "parsers \<Rightarrow> addr \<times> acl option \<Rightarrow> ('e + net_addr) list \<Rightarrow> 'e accepted \<times> net_addr list" where
  "doh_accept P ln rs = (case snd ln of
       Some ac \<Rightarrow> acl_Accept P (Some ac) rs
     | None \<Rightarrow> (case rs of [] \<Rightarrow> (AcceptWaiting, []) | Inl e # _ \<Rightarrow> (AcceptErr e, []) | Inr c # _ \<Rightarrow> (AcceptConn c, [])))"

text \<open>A request as \<open>net/http\<close> presents it; a header or parameter that is missing is the empty string, and a body that cannot be read is \<open>None\<close>.\<close>

record http_req =
  hq_Method :: string
  hq_dns :: string
  hq_ContentType :: string
  hq_Body :: "8 word list option"
  hq_RemoteAddr :: string
  hq_XForwardedFor :: string
  hq_XRealIP :: string
  hq_Local :: net_addr

definition readQuery :: "wirelib \<Rightarrow> http_req \<Rightarrow> 8 word list option" where
  "readQuery W r =
     (if hq_Method r = ''GET'' then
        (if hq_dns r = [] then None
         else case wl_base64url W (hq_dns r) of
             None \<Rightarrow> None
           | Some raw \<Rightarrow> if length raw > maxDoHBody then None else Some raw)
      else if hq_Method r = ''POST'' then
        (if hq_ContentType r \<noteq> ''application/dns-message'' then None
         else case hq_Body r of
             None \<Rightarrow> None
           | Some body \<Rightarrow> let raw = take (maxDoHBody + 1) body in if length raw > maxDoHBody then None else Some raw)
      else None)"

definition trimSpace :: "string \<Rightarrow> string" where
  "trimSpace s = (let blank = (\<lambda>c. c = CHR '' '' \<or> c = CHR 0x09) in rev (dropWhile blank (rev (dropWhile blank s))))"

definition forwardedFor :: "parsers \<Rightarrow> http_req \<Rightarrow> addr" where
  "forwardedFor P r =
     (let v = hq_XForwardedFor r;
          first = (if v \<noteq> [] then ParseAddr P (trimSpace (takeWhile (\<lambda>c. c \<noteq> CHR '','') v)) else None) in
      case first of
        Some a \<Rightarrow> Unmap a
      | None \<Rightarrow>
          let w = hq_XRealIP r in
          case (if w \<noteq> [] then ParseAddr P (trimSpace w) else None) of
            Some a \<Rightarrow> Unmap a
          | None \<Rightarrow> AddrZero)"

definition addrPortOf2 :: "parsers \<Rightarrow> string \<Rightarrow> addr option" where
  "addrPortOf2 P hostport = map_option Unmap (ParseAddrPort P hostport)"

definition clientAddr :: "parsers \<Rightarrow> doh \<Rightarrow> http_req \<Rightarrow> addr" where
  "clientAddr P d r = (case addrPortOf2 P (hq_RemoteAddr r) of
       None \<Rightarrow> AddrZero
     | Some peer \<Rightarrow>
         if pm_Len (dh_trusted d) = 0 \<or> \<not> pm_Contains (dh_trusted d) peer then peer
         else let fwd = forwardedFor P r in if IsValid fwd then fwd else peer)"

text \<open>\<open>minTTL\<close>: the loop over the three sections with its running minimum.\<close>

fun ttl_loop :: "rr list \<Rightarrow> u32 option \<Rightarrow> u32 option" where
  "ttl_loop [] acc = acc"
| "ttl_loop (r # rs) acc =
     (if rh_Rrtype (rr_hdr r) = TypeOPT then ttl_loop rs acc
      else let ttl = rh_Ttl (rr_hdr r) in
        ttl_loop rs (case acc of None \<Rightarrow> Some ttl | Some m \<Rightarrow> if ttl < m then Some ttl else Some m))"

definition minTTL :: "dmsg \<Rightarrow> u32" where
  "minTTL resp = (case ttl_loop (m_Extra resp) (ttl_loop (m_Ns resp) (ttl_loop (m_Answer resp) None)) of None \<Rightarrow> 0 | Some m \<Rightarrow> m)"

datatype http_resp = HttpError nat | DnsMessage "8 word list" u32

definition doh_write :: "wirelib \<Rightarrow> bool \<Rightarrow> dmsg \<Rightarrow> tmetrics \<Rightarrow> http_resp \<times> tmetrics" where
  "doh_write W writeFails resp m = (case wl_Pack W resp of
       None \<Rightarrow> (HttpError 500, write_error m)
     | Some packed \<Rightarrow> (DnsMessage packed (minTTL resp), if writeFails then write_error m else m))"

definition doh_dispatch :: "dnslib \<Rightarrow> 's served \<Rightarrow> dmsg \<Rightarrow> addr \<Rightarrow> addr \<Rightarrow> gtime \<Rightarrow> tmetrics \<Rightarrow> 's \<Rightarrow> dmsg option \<times> tmetrics \<times> 's" where
  "doh_dispatch L h req client loc received m s =
     recovered L h \<lparr>rq_Msg = req, rq_Client = client, rq_Local = loc, rq_Proto = ProtoDoH, rq_Internal = False, rq_Received = received, rq_MaxResponseSize = MaxMsgSize\<rparr> m s"

definition serveHTTP :: "dnslib \<Rightarrow> wirelib \<Rightarrow> parsers \<Rightarrow> (net_addr \<Rightarrow> string) \<Rightarrow> doh \<Rightarrow> 's served \<Rightarrow> gtime \<Rightarrow> bool \<Rightarrow> http_req \<Rightarrow> tmetrics \<Rightarrow> 's \<Rightarrow> http_resp \<times> tmetrics \<times> 's" where
  "serveHTTP L W P str d h received writeFails r m s = (case readQuery W r of
       None \<Rightarrow> (HttpError 400, parse_error m, s)
     | Some raw \<Rightarrow> (case wl_Unpack W raw of
           None \<Rightarrow> (HttpError 400, parse_error m, s)
         | Some req \<Rightarrow>
             if \<not> is_query req then (HttpError 400, parse_error m, s)
             else let m1 = m\<lparr>tm_Queries := tm_Queries m + 1\<rparr>; client = clientAddr P d r in
               if refused (ho_AllowQuery (dh_opts d)) client
               then (let (resp, m2) = doh_write W writeFails (refusedResponse L req) m1 in (resp, m2, s))
               else let (resp, m2, s1) = doh_dispatch L h req client (addr_or_zero (addrPortOf P str (hq_Local r))) received m1 s in
                 case resp of
                   None \<Rightarrow> (HttpError 500, m2, s1)
                 | Some rp \<Rightarrow> (let (out, m3) = doh_write W writeFails rp m2 in (out, m3, s1))))"

section \<open>DoQ\<close>

definition doqNoError :: nat where "doqNoError = 0"
definition doqInternalError :: nat where "doqInternalError = 1"
definition doqProtocolError :: nat where "doqProtocolError = 2"

record doq_options =
  qo_MaxIdleTimeout :: duration
  qo_MaxStreamsPerConn :: int
  qo_ClientBudget :: duration
  qo_AllowQuery :: "acl option"

definition doq_fill :: "doq_options \<Rightarrow> doq_options" where
  "doq_fill o1 =
     (let o2 = (if qo_MaxIdleTimeout o1 \<le> 0 then o1\<lparr>qo_MaxIdleTimeout := 30 * second\<rparr> else o1);
          o3 = (if qo_MaxStreamsPerConn o2 \<le> 0 then o2\<lparr>qo_MaxStreamsPerConn := 256\<rparr> else o2)
      in if qo_ClientBudget o3 \<le> 0 then o3\<lparr>qo_ClientBudget := 5 * second\<rparr> else o3)"

text \<open>\<open>NewDoQ\<close>; \<open>bind\<close> tells whether the socket and the QUIC listener on it can be opened.\<close>

fun bind_quic :: "(addr \<Rightarrow> bool) \<Rightarrow> addr list \<Rightarrow> addr list \<Rightarrow> bind_error + addr list" where
  "bind_quic bind [] lns = Inr lns"
| "bind_quic bind (ap # aps) lns = (if \<not> bind ap then Inl (BindFailed ''udp'' ap 0) else bind_quic bind aps (lns @ [ap]))"

definition NewDoQ :: "(addr \<Rightarrow> bool) \<Rightarrow> bool \<Rightarrow> bool \<Rightarrow> addr list \<Rightarrow> doq_options \<Rightarrow> bind_error + doq_options \<times> addr list" where
  "NewDoQ bind hasHandler hasTLS addrs opts =
     (if addrs = [] then Inl NoAddrs
      else if \<not> hasTLS then Inl NoTLS
      else if \<not> hasHandler then Inl NoHandler
      else case bind_quic bind addrs [] of Inl e \<Rightarrow> Inl e | Inr lns \<Rightarrow> Inr (doq_fill opts, lns))"

text \<open>A connection of the accept loop: served, or closed with the code of no error.\<close>

definition doq_admit :: "parsers \<Rightarrow> (net_addr \<Rightarrow> string) \<Rightarrow> doq_options \<Rightarrow> net_addr \<Rightarrow> tmetrics \<Rightarrow> bool \<times> tmetrics" where
  "doq_admit P str O1 c m = (case addrPortOf P str c of
       Some remote \<Rightarrow> if refused (qo_AllowQuery O1) remote then (False, m\<lparr>tm_DoQRefused := tm_DoQRefused m + 1\<rparr>) else (True, m)
     | None \<Rightarrow> (True, m))"

definition Uint16 :: "8 word list \<Rightarrow> u16" where
  "Uint16 b = ucast (b ! 1) OR push_bit 8 (ucast (b ! 0))"

definition PutUint16 :: "u16 \<Rightarrow> 8 word list" where
  "PutUint16 v = [ucast (drop_bit 8 v), ucast v]"

definition readPrefixed :: "8 word list \<Rightarrow> (8 word list \<times> 8 word list) option" where
  "readPrefixed input =
     (if length input < 2 then None
      else let n = unat (Uint16 (take 2 input)); rest = drop 2 input in
        if n = 0 then None else if length rest < n then None else Some (take n rest, drop n rest))"

definition writePrefixed :: "8 word list \<Rightarrow> 8 word list option" where
  "writePrefixed msg = (if length msg > 65535 then None else Some (PutUint16 (of_nat (length msg)) @ msg))"

text \<open>What happens to a stream and its connection: the bytes written, the codes of \<open>CancelRead\<close> and \<open>CancelWrite\<close>, and the code a connection is closed with. The
  stream itself is always closed at the end.\<close>

record doq_end =
  dq_out :: "8 word list"
  dq_cancelRead :: "nat option"
  dq_cancelWrite :: "nat option"
  dq_closeConn :: "nat option"

definition stream_end :: doq_end where
  "stream_end = \<lparr>dq_out = [], dq_cancelRead = None, dq_cancelWrite = None, dq_closeConn = None\<rparr>"

definition has_keepalive :: "dnslib \<Rightarrow> dmsg \<Rightarrow> bool" where
  "has_keepalive L req = (case IsEdns0 L req of
       None \<Rightarrow> False
     | Some i \<Rightarrow> (case rr_data (m_Extra req ! i) of ROPT _ os \<Rightarrow> TCPKeepalive \<in> set os | _ \<Rightarrow> False))"

text \<open>The arguments after the handler: whether the read deadline can be set, whether the write deadline can be, whether the write succeeds, the time, the client and
  local addresses of the connection, and the bytes that arrive on the stream.\<close>

definition serveStream :: "dnslib \<Rightarrow> wirelib \<Rightarrow> 's served \<Rightarrow> bool \<Rightarrow> bool \<Rightarrow> bool \<Rightarrow> gtime \<Rightarrow> addr \<Rightarrow> addr \<Rightarrow> 8 word list \<Rightarrow> tmetrics \<Rightarrow> 's \<Rightarrow> doq_end \<times> tmetrics \<times> 's" where
  "serveStream L W h readDeadline writeDeadline writeOK received remote loc input m s =
     (let bad = (stream_end\<lparr>dq_cancelRead := Some doqProtocolError\<rparr>, parse_error m, s);
          violation = (stream_end\<lparr>dq_closeConn := Some doqProtocolError\<rparr>, parse_error m, s) in
      if \<not> readDeadline then (stream_end, m, s)
      else case readPrefixed input of
        None \<Rightarrow> bad
      | Some (query, _) \<Rightarrow> (case wl_Unpack W query of
          None \<Rightarrow> bad
        | Some req \<Rightarrow>
            if \<not> is_query req then bad
            else if m_Id req \<noteq> 0 then violation
            else if has_keepalive L req then violation
            else let m1 = m\<lparr>tm_Queries := tm_Queries m + 1\<rparr> in
              case h \<lparr>rq_Msg = req, rq_Client = remote, rq_Local = loc, rq_Proto = ProtoDoQ, rq_Internal = False, rq_Received = received,
                       rq_MaxResponseSize = MaxMsgSize\<rparr> s of
                (None, s1) \<Rightarrow> (stream_end\<lparr>dq_cancelWrite := Some doqInternalError\<rparr>, m1\<lparr>tm_Panics := tm_Panics m1 + 1\<rparr>, s1)
              | (Some None, s1) \<Rightarrow> (stream_end, m1\<lparr>tm_Dropped := tm_Dropped m1 + 1\<rparr>, s1)
              | (Some (Some resp), s1) \<Rightarrow>
                  (case wl_Pack W (resp\<lparr>m_Id := m_Id req\<rparr>) of
                     None \<Rightarrow> (stream_end\<lparr>dq_cancelWrite := Some doqInternalError\<rparr>, write_error m1, s1)
                   | Some out \<Rightarrow>
                       if \<not> writeDeadline then (stream_end, m1, s1)
                       else (case writePrefixed out of
                           None \<Rightarrow> (stream_end, write_error m1, s1)
                         | Some framed \<Rightarrow> if writeOK then (stream_end\<lparr>dq_out := framed\<rparr>, m1, s1) else (stream_end, write_error m1, s1)))))"

end
