(* ===== verification/Listeners_Correct.thy ===== *)
theory Listeners_Correct
  imports Listeners Resolver_World
begin

text \<open>
  What the listeners guarantee whatever the bytes, the handler and the scheduling: who gets an answer and how large it is, what reaches the handler, that panics are
  contained, whose address a query carries, how long an HTTP cache may keep an answer, and, with the recursive resolver behind them, that a query from an
  allowed client is answered.
\<close>

section \<open>What is sent over UDP\<close>

text \<open>What is relied on of \<open>Pack\<close>, \<open>Len\<close> and \<open>Truncate\<close>: a message packs to at most its length, and truncation makes it fit, 512 bytes being the least it
  truncates to.\<close>

definition wire_fits :: "wirelib \<Rightarrow> bool" where
  "wire_fits W \<longleftrightarrow> (\<forall>m b. wl_Pack W m = Some b \<longrightarrow> int (length b) \<le> wl_Len W m) \<and> (\<forall>m size. wl_Len W (wl_Truncate W size m) \<le> max 512 size)"

definition answers :: "wirelib \<Rightarrow> udp_options \<Rightarrow> packet \<Rightarrow> (addr \<times> u16) \<times> 8 word list \<Rightarrow> bool" where
  "answers W O1 p out \<longleftrightarrow> fst out = pk_from p \<and> (\<exists>req. wl_Unpack W (pk_data p) = Some req \<and> is_query req)
     \<and> int (length (snd out)) \<le> max 512 (uint (uo_UDPSize O1))"

lemma size_le: "responseSizeFor L msg ProtoUDP limit \<le> max 512 (uint limit)"
  using response_size_bounds [of L msg ProtoUDP limit] by simp

lemma handle_answers:
  assumes "wire_fits W" and "udp_handle L W O1 h now lost p m s = (out, m', s')"
  shows "out = [] \<or> (\<exists>x. out = [x] \<and> answers W O1 p x)"
proof (cases "\<exists>req. wl_Unpack W (pk_data p) = Some req \<and> is_query req")
  case False
  then show ?thesis using assms(2) by (auto simp: udp_handle_def Let_def split: option.splits if_splits)
next
  case True
  then obtain req where req: "wl_Unpack W (pk_data p) = Some req" "is_query req" by blast
  define size where "size = responseSizeFor L req ProtoUDP (uo_UDPSize O1)"
  have fits: "int (length b) \<le> max 512 (uint (uo_UDPSize O1))" if "wl_Pack W (if wl_Len W r > size then wl_Truncate W size r else r) = Some b" for r b
  proof -
    let ?r = "if wl_Len W r > size then wl_Truncate W size r else r"
    have "int (length b) \<le> wl_Len W ?r" using assms(1) that unfolding wire_fits_def by blast
    also have "\<dots> \<le> max 512 size" using assms(1) by (auto simp: wire_fits_def)
    also have "\<dots> \<le> max 512 (uint (uo_UDPSize O1))" using size_le [of L req "uo_UDPSize O1"] by (simp add: size_def)
    finally show ?thesis .
  qed
  have "out = [] \<or> (\<exists>r b. wl_Pack W (if wl_Len W r > size then wl_Truncate W size r else r) = Some b \<and> out = [(pk_from p, b)])"
    using assms(2) req by (auto simp: udp_handle_def Let_def size_def split: option.splits if_splits prod.splits)
  then show ?thesis
  proof (elim disjE exE conjE)
    fix r b assume "wl_Pack W (if wl_Len W r > size then wl_Truncate W size r else r) = Some b" "out = [(pk_from p, b)]"
    with fits [of r b] req have "out = [(pk_from p, b)] \<and> answers W O1 p (pk_from p, b)" by (simp add: answers_def)
    then show ?thesis by blast
  qed simp
qed

text \<open>The datagrams that came in on a socket.\<close>

fun received :: "addr \<Rightarrow> udp_event list \<Rightarrow> packet list" where
  "received loc [] = []"
| "received loc (Read (Datagram d from now) # es) = \<lparr>pk_data = d, pk_from = from, pk_local = loc, pk_received = now\<rparr> # received loc es"
| "received loc (_ # es) = received loc es"

lemma run_sent:
  assumes "wire_fits W" and "s' = udp_run L W O1 h es s" and "int (length (so_queue s)) \<le> max 0 (uo_QueueDepth O1)"
  shows "int (length (so_queue s')) \<le> max 0 (uo_QueueDepth O1)
    \<and> (\<exists>ps outs. so_sent s' = so_sent s @ outs \<and> subseq ps (so_queue s @ received (so_local s) es) \<and> list_all2 (answers W O1) ps outs)"
  using assms(2,3)
proof (induction es arbitrary: s)
  case Nil
  then show ?case by (intro conjI exI [of _ "[]"]) simp_all
next
  case (Cons e es)
  show ?case
  proof (cases e)
    case (Read rd)
    let ?s = "read_turn O1 rd s"
    have l: "so_local ?s = so_local s" "so_sent ?s = so_sent s" by (simp_all add: read_turn_def Let_def split: udp_read.splits)
    have "int (length (so_queue ?s)) \<le> max 0 (uo_QueueDepth O1)" using Cons.prems(2) by (auto simp: read_turn_def Let_def split: udp_read.splits)
    from Cons.IH [OF _ this] Cons.prems(1) Read obtain ps outs where
      i: "int (length (so_queue s')) \<le> max 0 (uo_QueueDepth O1)" "so_sent s' = so_sent s @ outs" "subseq ps (so_queue ?s @ received (so_local s) es)"
        "list_all2 (answers W O1) ps outs" by (auto simp: l)
    have "subseq (so_queue ?s @ received (so_local s) es) (so_queue s @ received (so_local s) (e # es))"
      using Read by (cases rd) (auto simp: read_turn_def Let_def subseq_append')
    with i show ?thesis by (meson subseq_order.trans)
  next
    case (Work now lost)
    let ?s = "worker_turn L W O1 h now lost s"
    show ?thesis
    proof (cases "so_queue s = []")
      case True
      then have "?s = s" by (simp add: worker_turn_def)
      with Cons.IH [of s] Cons.prems Work True show ?thesis by simp
    next
      case False
      then obtain p q where pq: "so_queue s = p # q" by (auto simp: neq_Nil_conv)
      obtain out m st where u: "udp_handle L W O1 h now lost p (so_m s) (so_state s) = (out, m, st)" by (metis prod_cases3)
      have s: "so_queue ?s = q" "so_sent ?s = so_sent s @ out" "so_local ?s = so_local s" using pq u by (simp_all add: worker_turn_def)
      have "int (length (so_queue ?s)) \<le> max 0 (uo_QueueDepth O1)" using Cons.prems(2) pq by (simp add: s)
      from Cons.IH [OF _ this] Cons.prems(1) Work obtain ps outs where
        i: "int (length (so_queue s')) \<le> max 0 (uo_QueueDepth O1)" "so_sent s' = so_sent s @ out @ outs" "subseq ps (q @ received (so_local s) es)"
          "list_all2 (answers W O1) ps outs" by (auto simp: s)
      from handle_answers [OF assms(1) u] show ?thesis
      proof (elim disjE exE conjE)
        assume "out = []"
        with i pq Work show ?thesis by (auto intro!: exI [of _ ps] simp: list_emb_Cons)
      next
        fix x assume "out = [x]" "answers W O1 p x"
        with i pq Work show ?thesis by (auto intro!: exI [of _ "p # ps"])
      qed
    qed
  qed
qed

definition fresh_socket :: "addr \<Rightarrow> 's \<Rightarrow> 's usock" where
  "fresh_socket loc s = \<lparr>so_local = loc, so_reading = True, so_queue = [], so_m = no_metrics, so_state = s, so_sent = []\<rparr>"

text \<open>C8. The UDP listener is no reflector: whatever arrives, in whatever interleaving of reads and workers and whatever the handler returns, every datagram sent answers a
  different received one, in order, that is a query with one question; it goes to the address that one came from and has at most the operator's
  ceiling of bytes, or 512; and the queue never exceeds its depth.\<close>

theorem udp_no_reflection:
  assumes "wire_fits W" and "s' = udp_run L W O1 h es (fresh_socket loc s)"
  shows "int (length (so_queue s')) \<le> max 0 (uo_QueueDepth O1)
    \<and> (\<exists>ps. subseq ps (received loc es) \<and> list_all2 (\<lambda>p out. fst out = pk_from p \<and> (\<exists>req. wl_Unpack W (pk_data p) = Some req \<and> is_query req)
          \<and> int (length (snd out)) \<le> max 512 (uint (uo_UDPSize O1))) ps (so_sent s'))"
  using run_sent [OF assms] unfolding fresh_socket_def answers_def by auto

section \<open>What reaches the handler\<close>

definition admissible :: "acl option \<Rightarrow> proto \<Rightarrow> request \<Rightarrow> bool" where
  "admissible ac pr req \<longleftrightarrow> is_query (rq_Msg req) \<and> \<not> refused ac (rq_Client req) \<and> rq_Proto req = pr \<and> \<not> rq_Internal req
     \<and> rq_MaxResponseSize req \<le> 65535"

lemma recovered_cong: "h r s = h' r s \<Longrightarrow> recovered L h r m s = recovered L h' r m s"
  by (simp add: recovered_def)

lemma udp_agree:
  assumes "\<And>req s. admissible (uo_AllowQuery O1) ProtoUDP req \<Longrightarrow> h req s = h' req s"
  shows "udp_handle L W O1 h now lost p m s = udp_handle L W O1 h' now lost p m s"
proof (cases "\<exists>req. wl_Unpack W (pk_data p) = Some req \<and> is_query req \<and> \<not> refused (uo_AllowQuery O1) (fst (pk_from p))")
  case True
  then obtain req where req: "wl_Unpack W (pk_data p) = Some req" "is_query req" "\<not> refused (uo_AllowQuery O1) (fst (pk_from p))" by blast
  have "responseSizeFor L req ProtoUDP (uo_UDPSize O1) \<le> 65535"
    using size_le [of L req "uo_UDPSize O1"] uint_lt2p [of "uo_UDPSize O1"] by simp
  then have "udp_dispatch L O1 h now req p m s = udp_dispatch L O1 h' now req p m s" for m
    using req unfolding udp_dispatch_def by (intro if_cong refl recovered_cong assms) (simp add: admissible_def)
  then show ?thesis using req by (simp add: udp_handle_def)
next
  case False
  then show ?thesis by (auto simp: udp_handle_def Let_def split: option.splits)
qed

lemma tcp_agree:
  assumes "\<And>req s. admissible ac pr req \<Longrightarrow> h req s = h' req s" and "\<not> refused ac from"
  shows "tcp_serveConn L pr h loc from ts sent m s = tcp_serveConn L pr h' loc from ts sent m s"
proof (induction ts arbitrary: sent m s)
  case (Cons t ts)
  have "tcp_dispatch L pr h req from loc r m s = tcp_dispatch L pr h' req from loc r m s" if "is_query req" for req r m s
    using assms that unfolding tcp_dispatch_def by (intro recovered_cong assms(1)) (simp add: admissible_def MaxMsgSize_def)
  with Cons show ?case by (auto split: conn_read.split prod.split option.split)
qed simp

lemma doh_agree:
  assumes "\<And>req s. admissible (ho_AllowQuery (dh_opts d)) ProtoDoH req \<Longrightarrow> h req s = h' req s"
  shows "serveHTTP L W P str d h now lost r m s = serveHTTP L W P str d h' now lost r m s"
proof -
  have "doh_dispatch L h req (clientAddr P d r) loc now m s = doh_dispatch L h' req (clientAddr P d r) loc now m s"
    if "is_query req" "\<not> refused (ho_AllowQuery (dh_opts d)) (clientAddr P d r)" for req loc m s
    using that unfolding doh_dispatch_def by (intro recovered_cong assms) (simp add: admissible_def MaxMsgSize_def)
  then show ?thesis by (auto simp: serveHTTP_def Let_def split: option.split)
qed

lemma doq_agree:
  assumes "\<And>req s. admissible ac ProtoDoQ req \<and> m_Id (rq_Msg req) = 0 \<Longrightarrow> h req s = h' req s" and "\<not> refused ac remote"
  shows "serveStream L W h rd wd ok now remote loc input m s = serveStream L W h' rd wd ok now remote loc input m s"
proof -
  have "h \<lparr>rq_Msg = req, rq_Client = remote, rq_Local = loc, rq_Proto = ProtoDoQ, rq_Internal = False, rq_Received = now, rq_MaxResponseSize = MaxMsgSize\<rparr> s
      = h' \<lparr>rq_Msg = req, rq_Client = remote, rq_Local = loc, rq_Proto = ProtoDoQ, rq_Internal = False, rq_Received = now, rq_MaxResponseSize = MaxMsgSize\<rparr> s"
    if "is_query req" "m_Id req = 0" for req
    using that assms(2) by (intro assms(1)) (simp add: admissible_def MaxMsgSize_def)
  then show ?thesis by (auto simp: serveStream_def Let_def split: option.split)
qed

text \<open>C9. Nothing but admitted queries reaches the resolver: over each of the four transports the handler is only ever called with a message that is a query with exactly one
  question, from a client the access list admits, labelled with the transport it came by; over DoQ also only with message id zero. (Two handlers that agree on such requests
  cannot be told apart.) Over TCP and DoQ the list is applied when the connection is accepted.\<close>

theorem handler_sees_queries_only:
  assumes "\<forall>pr req s. is_query (rq_Msg req) \<and> \<not> refused ac (rq_Client req) \<and> rq_Proto req = pr \<and> \<not> rq_Internal req \<and> rq_MaxResponseSize req \<le> 65535
      \<and> (pr = ProtoDoQ \<longrightarrow> m_Id (rq_Msg req) = 0) \<longrightarrow> h req s = h' req s"
  shows "(uo_AllowQuery O1 = ac \<longrightarrow> udp_handle L W O1 h now lost p m s = udp_handle L W O1 h' now lost p m s)
    \<and> (tcp_accept P str T ctx t ls = (Some from, ls') \<and> to_AllowQuery T = ac \<and> pr \<in> {ProtoTCP, ProtoDoT} \<longrightarrow>
         tcp_serveConn L pr h loc from ts sent m s = tcp_serveConn L pr h' loc from ts sent m s)
    \<and> (ho_AllowQuery (dh_opts d) = ac \<longrightarrow> serveHTTP L W P str d h now lost r m s = serveHTTP L W P str d h' now lost r m s)
    \<and> (addrPortOf P str c = Some remote \<and> fst (doq_admit P str Q c m) \<and> qo_AllowQuery Q = ac \<longrightarrow>
         serveStream L W h rd wd ok now remote loc input m s = serveStream L W h' rd wd ok now remote loc input m s)"
proof (intro conjI impI)
  have a: "h req s = h' req s" if "admissible ac pr req" "pr = ProtoDoQ \<longrightarrow> m_Id (rq_Msg req) = 0" for pr req s
    using assms that unfolding admissible_def by blast
  show "udp_handle L W O1 h now lost p m s = udp_handle L W O1 h' now lost p m s" if "uo_AllowQuery O1 = ac"
    using that by (intro udp_agree a [of ProtoUDP]) simp_all
  show "serveHTTP L W P str d h now lost r m s = serveHTTP L W P str d h' now lost r m s" if "ho_AllowQuery (dh_opts d) = ac"
    using that by (intro doh_agree a [of ProtoDoH]) simp_all
  show "tcp_serveConn L pr h loc from ts sent m s = tcp_serveConn L pr h' loc from ts sent m s"
    if t: "tcp_accept P str T ctx t ls = (Some from, ls') \<and> to_AllowQuery T = ac \<and> pr \<in> {ProtoTCP, ProtoDoT}"
  proof (rule tcp_agree [of ac])
    show "\<not> refused ac from" using t by (auto simp: tcp_accept_def Let_def split: accept_turn.splits if_splits)
    show "\<And>req s. admissible ac pr req \<Longrightarrow> h req s = h' req s" using t by (intro a [of pr]) auto
  qed
  show "serveStream L W h rd wd ok now remote loc input m s = serveStream L W h' rd wd ok now remote loc input m s"
    if q: "addrPortOf P str c = Some remote \<and> fst (doq_admit P str Q c m) \<and> qo_AllowQuery Q = ac"
  proof (rule doq_agree [of ac])
    show "\<not> refused ac remote" using q by (auto simp: doq_admit_def split: if_splits)
    show "\<And>req s. admissible ac ProtoDoQ req \<and> m_Id (rq_Msg req) = 0 \<Longrightarrow> h req s = h' req s" by (intro a [of ProtoDoQ]) auto
  qed
qed

section \<open>Panics\<close>

text \<open>A panic never leaves the listener: when the handler panics on a query from an admitted client, UDP answers with the server failure response of that query, a stream
  connection writes the same and stays open for the next query, DoH answers with it, and each counts one panic; only DoQ, against the
  rule that a panic becomes a server failure, sends nothing and resets the stream.\<close>

theorem panic_contained:
  assumes "is_query req" and "\<forall>r s. fst (h r s) = None" and "wl_Pack W (errorResponse L req RcodeServerFailure) = Some b"
  shows "(wl_Unpack W (pk_data p) = Some req \<and> \<not> refused (uo_AllowQuery O1) (fst (pk_from p)) \<and> now < pk_received p + uo_ClientBudget O1
            \<and> wl_Len W (errorResponse L req RcodeServerFailure) \<le> responseSizeFor L req ProtoUDP (uo_UDPSize O1) \<longrightarrow>
          fst (udp_handle L W O1 h now False p m s) = [(pk_from p, b)] \<and> tm_Panics (fst (snd (udp_handle L W O1 h now False p m s))) = tm_Panics m + 1)
    \<and> (\<not> tt_done t \<and> tt_readDeadline t \<and> tt_read t = ConnMsg req \<and> tt_writeDeadline t \<and> tt_write t \<longrightarrow>
          (\<exists>m' s'. tcp_serveConn L pr h loc from [t] [] m s = ([errorResponse L req RcodeServerFailure], True, m', s') \<and> tm_Panics m' = tm_Panics m + 1))
    \<and> (readQuery W r = Some raw \<and> wl_Unpack W raw = Some req \<and> \<not> refused (ho_AllowQuery (dh_opts d)) (clientAddr P d r) \<longrightarrow>
          fst (serveHTTP L W P str d h now False r m s) = DnsMessage b (minTTL (errorResponse L req RcodeServerFailure))
          \<and> tm_Panics (fst (snd (serveHTTP L W P str d h now False r m s))) = tm_Panics m + 1)
    \<and> (readPrefixed input = Some (raw, rest) \<and> wl_Unpack W raw = Some req \<and> m_Id req = 0 \<and> \<not> has_keepalive L req \<longrightarrow>
          fst (serveStream L W h True wd ok now remote loc input m s) = stream_end\<lparr>dq_cancelWrite := Some 1\<rparr>
          \<and> tm_Panics (fst (snd (serveStream L W h True wd ok now remote loc input m s))) = tm_Panics m + 1)"
proof -
  have h: "\<exists>s'. h r s = (None, s')" for r s using assms(2) by (metis prod.collapse)
  have rec: "\<exists>s'. recovered L h q m s = (Some (errorResponse L (rq_Msg q) RcodeServerFailure), m\<lparr>tm_Panics := tm_Panics m + 1\<rparr>, s')" for q m s
    using h [of q s] by (auto simp: recovered_def)
  show ?thesis
  proof (intro conjI impI; elim conjE)
    assume a: "wl_Unpack W (pk_data p) = Some req" "\<not> refused (uo_AllowQuery O1) (fst (pk_from p))" "now < pk_received p + uo_ClientBudget O1"
      "wl_Len W (errorResponse L req RcodeServerFailure) \<le> responseSizeFor L req ProtoUDP (uo_UDPSize O1)"
    obtain s' where "udp_dispatch L O1 h now req p (m\<lparr>tm_Queries := tm_Queries m + 1\<rparr>) s
        = (Some (errorResponse L req RcodeServerFailure), m\<lparr>tm_Queries := tm_Queries m + 1, tm_Panics := tm_Panics m + 1\<rparr>, s')"
      using rec [of "\<lparr>rq_Msg = req, rq_Client = fst (pk_from p), rq_Local = pk_local p, rq_Proto = ProtoUDP, rq_Internal = False,
             rq_Received = pk_received p, rq_MaxResponseSize = responseSizeFor L req ProtoUDP (uo_UDPSize O1)\<rparr>" "m\<lparr>tm_Queries := tm_Queries m + 1\<rparr>" s] a(3)
      by (auto simp: udp_dispatch_def)
    with a assms show "fst (udp_handle L W O1 h now False p m s) = [(pk_from p, b)]" "tm_Panics (fst (snd (udp_handle L W O1 h now False p m s))) = tm_Panics m + 1"
      by (simp_all add: udp_handle_def)
  next
    assume "\<not> tt_done t" "tt_readDeadline t" "tt_read t = ConnMsg req" "tt_writeDeadline t" "tt_write t"
    then show "\<exists>m' s'. tcp_serveConn L pr h loc from [t] [] m s = ([errorResponse L req RcodeServerFailure], True, m', s') \<and> tm_Panics m' = tm_Panics m + 1"
      using assms(1) rec [of "\<lparr>rq_Msg = req, rq_Client = from, rq_Local = loc, rq_Proto = pr, rq_Internal = False, rq_Received = tt_received t, rq_MaxResponseSize = MaxMsgSize\<rparr>"
          "m\<lparr>tm_Queries := tm_Queries m + 1\<rparr>" s]
      by (auto simp: tcp_dispatch_def)
  next
    assume a: "readQuery W r = Some raw" "wl_Unpack W raw = Some req" "\<not> refused (ho_AllowQuery (dh_opts d)) (clientAddr P d r)"
    obtain s' where "doh_dispatch L h req (clientAddr P d r) (addr_or_zero (addrPortOf P str (hq_Local r))) now (m\<lparr>tm_Queries := tm_Queries m + 1\<rparr>) s
        = (Some (errorResponse L req RcodeServerFailure), m\<lparr>tm_Queries := tm_Queries m + 1, tm_Panics := tm_Panics m + 1\<rparr>, s')"
      using rec [of "\<lparr>rq_Msg = req, rq_Client = clientAddr P d r, rq_Local = addr_or_zero (addrPortOf P str (hq_Local r)), rq_Proto = ProtoDoH, rq_Internal = False,
          rq_Received = now, rq_MaxResponseSize = MaxMsgSize\<rparr>" "m\<lparr>tm_Queries := tm_Queries m + 1\<rparr>" s] by (auto simp: doh_dispatch_def)
    with a assms show "fst (serveHTTP L W P str d h now False r m s) = DnsMessage b (minTTL (errorResponse L req RcodeServerFailure))"
      "tm_Panics (fst (snd (serveHTTP L W P str d h now False r m s))) = tm_Panics m + 1"
      by (simp_all add: serveHTTP_def doh_write_def)
  next
    assume "readPrefixed input = Some (raw, rest)" "wl_Unpack W raw = Some req" "m_Id req = 0" "\<not> has_keepalive L req"
    then show "fst (serveStream L W h True wd ok now remote loc input m s) = stream_end\<lparr>dq_cancelWrite := Some 1\<rparr>"
      "tm_Panics (fst (snd (serveStream L W h True wd ok now remote loc input m s))) = tm_Panics m + 1"
      using assms(1) h [of "\<lparr>rq_Msg = req, rq_Client = remote, rq_Local = loc, rq_Proto = ProtoDoQ, rq_Internal = False, rq_Received = now, rq_MaxResponseSize = MaxMsgSize\<rparr>" s]
      by (auto simp: serveStream_def doqInternalError_def)
  qed
qed

section \<open>Whose query it is\<close>

text \<open>C20. A DoH client is who it connects as, unless it is a trusted proxy: with the listener as \<open>NewDoH\<close> builds it, the forwarding headers play no part when the peer is in
  none of the configured proxy prefixes (the trie decides exactly their union); for a peer that is, the address is the first one of \<open>X-Forwarded-For\<close>, or else \<open>X-Real-IP\<close>, or else
  the peer; and a peer address that cannot be read stands for no subscriber.\<close>

theorem doh_client_identity:
  assumes "NewDoH bnd hasHandler hasTLS addrs opts = Inr d"
  shows "clientAddr P d r = (case ParseAddrPort P (hq_RemoteAddr r) of
       None \<Rightarrow> AddrZero
     | Some peer \<Rightarrow> if (\<exists>p \<in> set (ho_TrustedProxies opts). covers p peer) \<and> forwardedFor P r \<noteq> AddrZero then forwardedFor P r else Unmap peer)"
proof -
  have t: "dh_trusted d = insert_all (map (\<lambda>p. (p, ())) (ho_TrustedProxies opts))"
    using assms by (auto simp: NewDoH_def Let_def doh_fill_def foldl_map split: if_splits sum.splits)
  have c: "pm_Contains (dh_trusted d) (Unmap a) \<longleftrightarrow> (\<exists>p \<in> set (ho_TrustedProxies opts). covers p a)" for a
    unfolding t pm_Contains_insert_all by simp
  have "pm_Len (dh_trusted d) = 0 \<Longrightarrow> ho_TrustedProxies opts = []" unfolding t prefixmap_len_distinct by simp
  then show ?thesis by (auto simp: clientAddr_def addrPortOf2_def c IsValid_def Let_def split: option.split)
qed

text \<open>C38. Behind a proxy that appends, as proxies do, the client chooses who it is: the header it sends itself comes first and its first
  entry is believed, so through a trusted proxy that adds the client's address after it, any address the client writes is the one its query is
  classified by.\<close>

theorem forwarded_spoof:
  assumes "NewDoH bnd hasHandler hasTLS addrs opts = Inr d" and "p \<in> set (ho_TrustedProxies opts)" and "covers p proxy"
    and "ParseAddrPort P (hq_RemoteAddr r) = Some proxy" and "hq_XForwardedFor r = claimed @ '', '' @ real"
    and "claimed \<noteq> []" and "CHR '','' \<notin> set claimed" and "ParseAddr P (trimSpace claimed) = Some a" and "IsValid a"
  shows "clientAddr P d r = Unmap a"
proof -
  have t: "dh_trusted d = insert_all (map (\<lambda>p. (p, ())) (ho_TrustedProxies opts))"
    using assms(1) by (auto simp: NewDoH_def Let_def doh_fill_def foldl_map split: if_splits sum.splits)
  have "pm_Contains (dh_trusted d) (Unmap proxy)" using assms(2,3) unfolding t pm_Contains_insert_all by auto
  moreover have "pm_Len (dh_trusted d) \<noteq> 0" using assms(2) unfolding t prefixmap_len_distinct by auto
  moreover have "takeWhile (\<lambda>c. c \<noteq> CHR '','') (claimed @ '', '' @ real) = claimed" using assms(7) by (subst takeWhile_append2) auto
  moreover have "Unmap a \<noteq> AddrZero" using assms(9) by (cases a) (auto simp: IsValid_def Unmap_def)
  ultimately show ?thesis using assms(4-8) by (auto simp: clientAddr_def addrPortOf2_def forwardedFor_def IsValid_def Let_def)
qed

section \<open>How long an HTTP cache may keep an answer\<close>

lemma ttl_loop_min:
  "ttl_loop rs acc = Some m \<Longrightarrow> (\<forall>r \<in> set rs. rh_Rrtype (rr_hdr r) \<noteq> TypeOPT \<longrightarrow> m \<le> rh_Ttl (rr_hdr r)) \<and> (\<forall>a. acc = Some a \<longrightarrow> m \<le> a)
    \<and> (acc = Some m \<or> (\<exists>r \<in> set rs. rh_Rrtype (rr_hdr r) \<noteq> TypeOPT \<and> m = rh_Ttl (rr_hdr r)))"
proof (induction rs arbitrary: acc)
  case (Cons r rs)
  show ?case
  proof (cases "rh_Rrtype (rr_hdr r) = TypeOPT")
    case True
    with Cons show ?thesis by auto
  next
    case False
    with Cons.prems Cons.IH [of "case acc of None \<Rightarrow> Some (rh_Ttl (rr_hdr r)) | Some m \<Rightarrow> if rh_Ttl (rr_hdr r) < m then Some (rh_Ttl (rr_hdr r)) else Some m"]
    show ?thesis by (cases acc) (auto simp: Let_def split: if_splits)
  qed
qed simp

lemma ttl_loop_None: "ttl_loop rs acc = None \<longleftrightarrow> acc = None \<and> (\<forall>r \<in> set rs. rh_Rrtype (rr_hdr r) = TypeOPT)"
  by (induction rs arbitrary: acc) (auto simp: Let_def split: option.splits if_splits)

text \<open>The lifetime given to HTTP caches is the smallest TTL of the answer: \<open>max-age\<close> exceeds the TTL of no record of any section, the OPT record aside, and is the TTL of one of
  them, or zero when there are none; so no cache between client and resolver keeps the answer longer than DNS allows.\<close>

theorem doh_max_age:
  assumes "fst (doh_write W lost resp m) = DnsMessage b age"
  shows "wl_Pack W resp = Some b
    \<and> (let rs = filter (\<lambda>r. rh_Rrtype (rr_hdr r) \<noteq> TypeOPT) (m_Answer resp @ m_Ns resp @ m_Extra resp) in
       (\<forall>r \<in> set rs. age \<le> rh_Ttl (rr_hdr r)) \<and> (if rs = [] then age = 0 else \<exists>r \<in> set rs. age = rh_Ttl (rr_hdr r)))"
proof -
  have b: "wl_Pack W resp = Some b" "age = minTTL resp" using assms by (auto simp: doh_write_def split: option.splits)
  show ?thesis
  proof (cases "ttl_loop (m_Extra resp) (ttl_loop (m_Ns resp) (ttl_loop (m_Answer resp) None))")
    case None
    then have "age = 0" using b by (simp add: minTTL_def)
    with None show ?thesis using b by (auto simp: ttl_loop_None filter_empty_conv Let_def)
  next
    case (Some a)
    note x = ttl_loop_min [OF Some]
    have "\<exists>r \<in> set (m_Answer resp @ m_Ns resp @ m_Extra resp). rh_Rrtype (rr_hdr r) \<noteq> TypeOPT \<and> a = rh_Ttl (rr_hdr r)"
      using x ttl_loop_min [of "m_Ns resp" "ttl_loop (m_Answer resp) None" a] ttl_loop_min [of "m_Answer resp" None a] by auto
    moreover have "a \<le> rh_Ttl (rr_hdr r)" if r: "r \<in> set (m_Answer resp @ m_Ns resp @ m_Extra resp)" "rh_Rrtype (rr_hdr r) \<noteq> TypeOPT" for r
    proof (cases "ttl_loop (m_Ns resp) (ttl_loop (m_Answer resp) None)")
      case None
      then show ?thesis using r x by (auto simp: ttl_loop_None)
    next
      case n: (Some c)
      note y = ttl_loop_min [OF n]
      show ?thesis
      proof (cases "ttl_loop (m_Answer resp) None")
        case None
        then show ?thesis using r x y n by (auto simp: ttl_loop_None)
      next
        case (Some e)
        from ttl_loop_min [OF this] r x y n Some show ?thesis by auto
      qed
    qed
    ultimately show ?thesis using b Some by (auto simp: minTTL_def Let_def filter_empty_conv)
  qed
qed

section \<open>Connections\<close>

inductive tcp_reach :: "parsers \<Rightarrow> (net_addr \<Rightarrow> string) \<Rightarrow> tcp_options \<Rightarrow> listener_state \<Rightarrow> bool" for P str T where
  tcp_start: "tcp_reach P str T \<lparr>ls_accepting = True, ls_sem = 0, ls_metrics = m\<rparr>"
| tcp_turn: "tcp_reach P str T s \<Longrightarrow> ls_accepting s \<Longrightarrow> tcp_reach P str T (snd (tcp_accept P str T ctx t s))"
| tcp_end: "tcp_reach P str T s \<Longrightarrow> 0 < ls_sem s \<Longrightarrow> tcp_reach P str T (tcp_finish s)"

text \<open>The stream listeners serve at most \<open>MaxConns\<close> connections at a time, whatever the order in which connections come and end, and take one only from a client the
  access list admits; every connection turned away, for either reason, is counted.\<close>

theorem tcp_conns_bounded:
  assumes "NewTCP bnd hasHandler addrs opts = Inr (T, pr, lns)" and "tcp_reach P str T s"
  shows "int (ls_sem s) \<le> to_MaxConns T
    \<and> (\<forall>ctx c. case tcp_accept P str T ctx (AcceptedConn c) s of
         (Some from, s') \<Rightarrow> \<not> refused (to_AllowQuery T) from \<and> int (ls_sem s') \<le> to_MaxConns T
       | (None, s') \<Rightarrow> ls_sem s' = ls_sem s \<and> tm_TCPRefused (ls_metrics s') = tm_TCPRefused (ls_metrics s) + 1)"
proof -
  have pos: "0 < to_MaxConns T" using assms(1) by (auto simp: NewTCP_def tcp_fill_def Let_def split: if_splits sum.splits)
  have "int (ls_sem s) \<le> to_MaxConns T" using assms(2)
  proof (induction rule: tcp_reach.induct)
    case (tcp_turn s ctx t)
    then show ?case by (auto simp: tcp_accept_def Let_def split: accept_turn.splits)
  qed (use pos in \<open>simp_all add: tcp_finish_def\<close>)
  then show ?thesis by (auto simp: tcp_accept_def Let_def)
qed

section \<open>DoQ\<close>

lemma Uint16_PutUint16 [simp]: "Uint16 (PutUint16 v) = v"
  by (simp add: Uint16_def PutUint16_def) (rule bit_word_eqI, auto simp: bit_simps)

lemma PutUint16_Uint16: "PutUint16 (Uint16 [a, b]) = [a, b]"
proof -
  have "\<not> bit b (8 + n)" for n using bit_imp_le_length [of b "8 + n"] by auto
  then show ?thesis by (simp add: Uint16_def PutUint16_def) (auto intro!: bit_word_eqI simp: bit_simps)
qed

text \<open>The two octet length prefix reads back exactly what was written: \<open>readPrefixed\<close> yields a message exactly when the stream starts with what \<open>writePrefixed\<close> makes of
  it, and no empty message is ever read.\<close>

theorem prefixed_roundtrip:
  "readPrefixed input = Some (msg, rest) \<longleftrightarrow> (\<exists>framed. writePrefixed msg = Some framed \<and> input = framed @ rest \<and> msg \<noteq> [])"
proof
  assume r: "readPrefixed input = Some (msg, rest)"
  then obtain a b tl where i: "input = a # b # tl"
    by (cases input; cases "List.tl input") (auto simp: readPrefixed_def split: if_splits)
  let ?n = "unat (Uint16 [a, b])"
  have n: "?n \<noteq> 0" "?n \<le> length tl" "msg = take ?n tl" "rest = drop ?n tl" using r by (auto simp: readPrefixed_def i Let_def split: if_splits)
  then have l: "length msg = ?n" by simp
  have "?n < 2 ^ 16" using unsigned_less [of "Uint16 [a, b]"] by simp
  with l n(1) have "writePrefixed msg = Some (PutUint16 (Uint16 [a, b]) @ msg)" by (simp add: writePrefixed_def)
  with i n l show "\<exists>framed. writePrefixed msg = Some framed \<and> input = framed @ rest \<and> msg \<noteq> []" by (auto simp: PutUint16_Uint16)
next
  assume "\<exists>framed. writePrefixed msg = Some framed \<and> input = framed @ rest \<and> msg \<noteq> []"
  then have w: "length msg < 2 ^ 16" "input = PutUint16 (of_nat (length msg)) @ msg @ rest" "msg \<noteq> []"
    by (auto simp: writePrefixed_def split: if_splits)
  have u: "unat (of_nat (length msg) :: u16) = length msg" using w(1) by (simp add: unat_of_nat)
  have "take 2 input = PutUint16 (of_nat (length msg))" "drop 2 input = msg @ rest" by (simp_all add: w(2) PutUint16_def)
  with w u show "readPrefixed input = Some (msg, rest)" by (simp add: readPrefixed_def w(2) PutUint16_def [symmetric]) (simp add: PutUint16_def)
qed

text \<open>One exchange per stream, by the rules: what is written on a stream is the framed response to the one query read from it, with message id zero; a query with another
  id or with the keepalive option closes the connection with a protocol error and reaches neither handler nor answer.\<close>

theorem doq_one_exchange:
  assumes "serveStream L W h True True True now remote loc input m s = (e, m', s')"
  shows "(dq_out e \<noteq> [] \<longrightarrow> (\<exists>query rest req resp b. readPrefixed input = Some (query, rest) \<and> wl_Unpack W query = Some req \<and> is_query req \<and> m_Id req = 0
      \<and> \<not> has_keepalive L req \<and> h \<lparr>rq_Msg = req, rq_Client = remote, rq_Local = loc, rq_Proto = ProtoDoQ, rq_Internal = False, rq_Received = now,
          rq_MaxResponseSize = 65535\<rparr> s = (Some (Some resp), s') \<and> wl_Pack W (resp\<lparr>m_Id := 0\<rparr>) = Some b \<and> writePrefixed b = Some (dq_out e)))
    \<and> (\<forall>query rest req. readPrefixed input = Some (query, rest) \<and> wl_Unpack W query = Some req \<and> is_query req \<and> (m_Id req \<noteq> 0 \<or> has_keepalive L req) \<longrightarrow>
         dq_closeConn e = Some 2 \<and> dq_out e = [] \<and> s' = s \<and> tm_ParseErrors m' = tm_ParseErrors m + 1)"
proof (intro conjI impI allI)
  assume "dq_out e \<noteq> []"
  with assms show "\<exists>query rest req resp b. readPrefixed input = Some (query, rest) \<and> wl_Unpack W query = Some req \<and> is_query req \<and> m_Id req = 0
      \<and> \<not> has_keepalive L req \<and> h \<lparr>rq_Msg = req, rq_Client = remote, rq_Local = loc, rq_Proto = ProtoDoQ, rq_Internal = False, rq_Received = now,
          rq_MaxResponseSize = 65535\<rparr> s = (Some (Some resp), s') \<and> wl_Pack W (resp\<lparr>m_Id := 0\<rparr>) = Some b \<and> writePrefixed b = Some (dq_out e)"
    by (auto simp: serveStream_def stream_end_def MaxMsgSize_def Let_def split: option.splits prod.splits if_splits)
qed (use assms in \<open>auto simp: serveStream_def stream_end_def doqProtocolError_def Let_def split: if_splits\<close>)

section \<open>With the resolver behind the socket\<close>

definition resolver_served :: "dnslib \<Rightarrow> seclib \<Rightarrow> 'n net \<Rightarrow> ropts \<Rightarrow> 'n world rstate vstate served" where
  "resolver_served L S N O' req st = (case rec_ServeDNS L S (world_env L S N) O' False req st of
       None \<Rightarrow> (None, st)
     | Some (m, st') \<Rightarrow> (Some (Some m), st'))"

text \<open>C3. From datagram to datagram: with the recursive resolver behind the socket, in every state any sequence of queries reaches and against any network, a datagram that is a query
  from an admitted client, picked up before its deadline, gets exactly one answer to where it came from, the packed response of the resolver or its truncation, when the write
  succeeds; only when that cannot be packed is there no answer and one more write error. The resolver does not panic, and its next state is again a reachable one. When a
  validator is configured, it is assumed that whenever the clock is read one of its anchors for the root is inside its validity period.\<close>

theorem datagram_answered:
  assumes "world_setup L N O'" and "world_reach L S N O' st" and "wl_Unpack W (pk_data p) = Some req" and "is_query req"
    and "\<not> refused (uo_AllowQuery O1) (fst (pk_from p))" and "now < pk_received p + uo_ClientBudget O1"
    and "udp_handle L W O1 (resolver_served L S N O') now False p m st = (out, m', st')"
  shows "(\<exists>r resp. rq_Msg r = req \<and> rq_Client r = fst (pk_from p) \<and> rec_ServeDNS L S (world_env L S N) O' False r st = Some (resp, st')
      \<and> (\<exists>sent \<in> {resp, wl_Truncate W (responseSizeFor L req ProtoUDP (uo_UDPSize O1)) resp}.
           (\<exists>b. wl_Pack W sent = Some b \<and> out = [(pk_from p, b)] \<and> tm_WriteErrors m' = tm_WriteErrors m)
           \<or> wl_Pack W sent = None \<and> out = [] \<and> tm_WriteErrors m' = tm_WriteErrors m + 1))
    \<and> tm_Panics m' = tm_Panics m \<and> world_reach L S N O' st'"
proof -
  let ?r = "\<lparr>rq_Msg = req, rq_Client = fst (pk_from p), rq_Local = pk_local p, rq_Proto = ProtoUDP, rq_Internal = False,
             rq_Received = pk_received p, rq_MaxResponseSize = responseSizeFor L req ProtoUDP (uo_UDPSize O1)\<rparr>"
  obtain inh s where st: "st = (inh, s)" by (cases st)
  have "world_ok L S N O' (rs_env s)" using world_reach_ok [OF assms(1,2)] by (simp add: st)
  moreover have "m_Question (rq_Msg ?r) \<noteq> []" using assms(4) by (auto simp: is_query_def)
  ultimately obtain resp st1 where r: "rec_ServeDNS L S (world_env L S N) O' False ?r st = Some (resp, st1)"
    using world_setup.world_serve [OF assms(1), of S s ?r False inh] by (auto simp: runs_def st)
  then have w: "world_reach L S N O' st1" by (rule world_query [OF assms(2)])
  have "udp_dispatch L O1 (resolver_served L S N O') now req p (m\<lparr>tm_Queries := tm_Queries m + 1\<rparr>) st = (Some resp, m\<lparr>tm_Queries := tm_Queries m + 1\<rparr>, st1)"
    using assms(6) r by (simp add: udp_dispatch_def recovered_def resolver_served_def)
  with assms(3,4,5,7) have o: "st' = st1" "tm_Panics m' = tm_Panics m"
    "\<exists>sent \<in> {resp, wl_Truncate W (responseSizeFor L req ProtoUDP (uo_UDPSize O1)) resp}.
           (\<exists>b. wl_Pack W sent = Some b \<and> out = [(pk_from p, b)] \<and> tm_WriteErrors m' = tm_WriteErrors m)
           \<or> wl_Pack W sent = None \<and> out = [] \<and> tm_WriteErrors m' = tm_WriteErrors m + 1"
    by (auto simp: udp_handle_def Let_def split: option.splits if_splits)
  then show ?thesis using r w by (intro conjI exI [of _ ?r] exI [of _ resp]) simp_all
qed

section \<open>Witnesses\<close>

text \<open>A wire format for one message: anything unpacks to a fixed query, every message packs to three bytes.\<close>

definition one_query :: dmsg where
  "one_query = ask_for ''www.example.'' TypeA"

definition test_wire :: wirelib where
  "test_wire = \<lparr>wl_Unpack = \<lambda>_. Some one_query, wl_Pack = \<lambda>_. Some [1, 2, 3], wl_Len = \<lambda>_. 3, wl_Truncate = \<lambda>_ m. m, wl_base64url = \<lambda>_. Some [0]\<rparr>"

definition test_udp :: udp_options where
  "test_udp = \<lparr>uo_SocketsPerAddr = 1, uo_Workers = 1, uo_QueueDepth = 1, uo_UDPSize = 1232, uo_ClientBudget = 5, uo_AllowQuery = Some (acl_New [\<lparr>pfx_ip = AddrV4 0x0a000000, pfx_bits = 8\<rparr>] False)\<rparr>"

definition test_from :: "addr \<times> u16" where
  "test_from = (AddrV4 0x0a010203, 4000)"

definition crash :: "unit served" where
  "crash r s = (None, s)"

definition echo :: "unit served" where
  "echo r s = (Some (Some (rq_Msg r)), s)"

definition two_in :: "udp_event list" where
  "two_in = [Read (Datagram [7] test_from 0), Read (Datagram [8] test_from 0), Work 1 False, Work 1 False]"

lemma test_wire_fits: "wire_fits test_wire"
  by (auto simp: wire_fits_def test_wire_def)

lemma query_one [simp]: "is_query one_query"
  by (simp add: is_query_def one_query_def ask_for_def)

lemma from_allowed: "\<not> refused (uo_AllowQuery test_udp) (AddrV4 0x0a010203)"
  by (simp add: refused_def test_udp_def acl_Allows_New covers_def Masked_def addr_Prefix_def Let_def v4_of_def)

theorem udp_no_reflection_witness:
  "wire_fits test_wire \<and> int (length (so_queue (udp_run ref_lib test_wire test_udp echo two_in (fresh_socket AddrZero ())))) \<le> 1"
  using udp_no_reflection [OF test_wire_fits refl, of ref_lib test_udp echo two_in AddrZero "()"] test_wire_fits by (simp add: test_udp_def)

theorem handler_sees_queries_only_witness:
  "udp_handle ref_lib test_wire test_udp echo 0 False \<lparr>pk_data = [7], pk_from = test_from, pk_local = AddrZero, pk_received = 0\<rparr> no_metrics ()
   = udp_handle ref_lib test_wire test_udp (\<lambda>r s. if is_query (rq_Msg r) then echo r s else crash r s) 0 False
       \<lparr>pk_data = [7], pk_from = test_from, pk_local = AddrZero, pk_received = 0\<rparr> no_metrics ()"
  by (rule conjunct1 [OF handler_sees_queries_only [where ac = "uo_AllowQuery test_udp"], rule_format]) simp_all

theorem panic_contained_witness:
  "fst (udp_handle ref_lib test_wire test_udp crash 1 False \<lparr>pk_data = [7], pk_from = test_from, pk_local = AddrZero, pk_received = 0\<rparr> no_metrics ())
     = [(test_from, [1, 2, 3])]"
  using conjunct1 [OF panic_contained [of one_query crash test_wire ref_lib "[1, 2, 3]"], of "\<lparr>pk_data = [7], pk_from = test_from, pk_local = AddrZero, pk_received = 0\<rparr>"
      test_udp 1 no_metrics "()"] from_allowed response_size_bounds [of ref_lib one_query ProtoUDP 1232]
  by (simp add: crash_def test_wire_def test_from_def test_udp_def ref_lib_def)

definition proxy_net :: prefix where
  "proxy_net = \<lparr>pfx_ip = AddrV4 0x0a000000, pfx_bits = 8\<rparr>"

definition test_doh :: doh_options where
  "test_doh = \<lparr>ho_Path = [], ho_MaxConns = 0, ho_IdleTimeout = 0, ho_ClientBudget = 0, ho_AllowQuery = None, ho_TrustedProxies = [proxy_net]\<rparr>"

definition built_doh :: doh where
  "built_doh = \<lparr>dh_opts = doh_fill test_doh, dh_trusted = pm_Insert proxy_net () pm_New, dh_lns = [(AddrV4 1, ho_AllowQuery test_doh)]\<rparr>"

definition test_parse :: parsers where
  "test_parse = \<lparr>ParseAddrPort = \<lambda>s. if s = ''proxy'' then Some (AddrV4 0x0a000001) else None, SplitHostPort = \<lambda>_. None,
     ParseAddr = \<lambda>s. if s = ''victim'' then Some (AddrV4 7) else None\<rparr>"

definition spoofing :: http_req where
  "spoofing = \<lparr>hq_Method = ''GET'', hq_dns = ''x'', hq_ContentType = [], hq_Body = None, hq_RemoteAddr = ''proxy'',
     hq_XForwardedFor = ''victim'' @ '', '' @ ''attacker'', hq_XRealIP = [], hq_Local = OtherAddr []\<rparr>"

lemma test_doh_built: "NewDoH (\<lambda>_ _. True) True True [AddrV4 1] test_doh = Inr built_doh"
  by (simp add: NewDoH_def built_doh_def test_doh_def doh_fill_def Let_def)

lemma proxy_covers: "covers proxy_net (AddrV4 0x0a000001)"
  by (simp add: proxy_net_def covers_def Masked_def addr_Prefix_def Let_def v4_of_def)

theorem doh_client_identity_witness:
  "NewDoH (\<lambda>_ _. True) True True [AddrV4 1] test_doh = Inr built_doh
   \<and> clientAddr test_parse built_doh (spoofing\<lparr>hq_RemoteAddr := ''other''\<rparr>) = AddrZero"
  using doh_client_identity [OF test_doh_built, of test_parse "spoofing\<lparr>hq_RemoteAddr := ''other''\<rparr>"] test_doh_built by (simp add: test_parse_def)

theorem forwarded_spoof_witness: "clientAddr test_parse built_doh spoofing = AddrV4 7"
  using forwarded_spoof [OF test_doh_built _ proxy_covers, of test_parse spoofing "''victim''" "''attacker''" "AddrV4 7"]
  by (simp add: test_doh_def spoofing_def test_parse_def trimSpace_def IsValid_def)

theorem doh_max_age_witness:
  "wl_Pack test_wire one_query = Some [1, 2, 3] \<and> fst (doh_write test_wire False one_query no_metrics) = DnsMessage [1, 2, 3] 0"
  using doh_max_age [of test_wire False one_query no_metrics "[1, 2, 3]" 0]
  by (simp add: doh_write_def test_wire_def minTTL_def one_query_def ask_for_def)

definition test_tcp :: tcp_options where
  "test_tcp = \<lparr>to_MaxConns = 1, to_IdleTimeout = 1, to_ClientBudget = 1, to_AllowQuery = None, to_TLS = False\<rparr>"

theorem tcp_conns_bounded_witness:
  "let s = snd (tcp_accept test_parse (\<lambda>_. []) test_tcp False (AcceptedConn (OtherAddr [])) \<lparr>ls_accepting = True, ls_sem = 0, ls_metrics = no_metrics\<rparr>)
   in ls_sem s = 1 \<and> int (ls_sem s) \<le> to_MaxConns test_tcp"
proof -
  have n: "NewTCP (\<lambda>_ _. True) True [AddrV4 1] test_tcp = Inr (test_tcp, ProtoTCP, [AddrV4 1])" by (simp add: NewTCP_def tcp_fill_def test_tcp_def Let_def)
  have "tcp_reach test_parse (\<lambda>_. []) test_tcp (snd (tcp_accept test_parse (\<lambda>_. []) test_tcp False (AcceptedConn (OtherAddr [])) \<lparr>ls_accepting = True, ls_sem = 0, ls_metrics = no_metrics\<rparr>))"
    by (rule tcp_turn [OF tcp_start]) simp
  from tcp_conns_bounded [OF n this] show ?thesis by (simp add: tcp_accept_def test_tcp_def refused_def Let_def)
qed

theorem doq_one_exchange_witness:
  "dq_out (fst (serveStream ref_lib test_wire echo True True True 0 AddrZero AddrZero [0, 1, 5] no_metrics ())) \<noteq> []
   \<and> (\<exists>query rest. readPrefixed [0, 1, 5] = Some (query, rest))"
proof -
  have "readPrefixed [0, 1, 5] = Some ([5], [])" by (simp add: readPrefixed_def Uint16_def)
  then have r: "serveStream ref_lib test_wire echo True True True 0 AddrZero AddrZero [0, 1, 5] no_metrics () = (stream_end\<lparr>dq_out := PutUint16 3 @ [1, 2, 3]\<rparr>, no_metrics\<lparr>tm_Queries := 1\<rparr>, ())"
    by (simp add: serveStream_def test_wire_def echo_def writePrefixed_def has_keepalive_def ref_lib_def one_query_def ask_for_def is_query_def no_metrics_def)
  from doq_one_exchange [OF r] show ?thesis by (auto simp: r)
qed

theorem datagram_answered_witness:
  "\<exists>b. fst (udp_handle ref_lib test_wire test_udp (resolver_served ref_lib ref_sec shipped_net shipped_ropts) 1 False
     \<lparr>pk_data = [7], pk_from = test_from, pk_local = AddrZero, pk_received = 0\<rparr> no_metrics test_state) = [(test_from, b)]"
proof -
  let ?p = "\<lparr>pk_data = [7], pk_from = test_from, pk_local = AddrZero, pk_received = 0\<rparr>"
  obtain out m st where u: "udp_handle ref_lib test_wire test_udp (resolver_served ref_lib ref_sec shipped_net shipped_ropts) 1 False ?p no_metrics test_state = (out, m, st)"
    by (metis prod_cases3)
  have "(\<exists>b. out = [(test_from, b)]) \<or> out = [] \<and> tm_WriteErrors m = 1"
    using datagram_answered [OF shipped_setup.world_setup_axioms test_state_reach _ query_one _ _ u] from_allowed
    by (auto simp: test_wire_def test_from_def test_udp_def no_metrics_def)
  moreover have "tm_WriteErrors m = 0" using u
    by (auto simp: udp_handle_def test_wire_def udp_dispatch_def recovered_def no_metrics_def Let_def split: if_splits option.splits prod.splits)
  ultimately show ?thesis using u by auto
qed

end
