(* ===== verification/Privacy.thy ===== *)
theory Privacy
  imports Gostrings Dns
begin

text \<open>
  \<open>internal/privacy/qname.go\<close>: what a log line may say about a name and about a client. \<open>EffectiveTLDPlusOne\<close> of the public suffix list is
  the parameter \<open>etld1\<close>, \<open>None\<close> its error; the hash and its hexadecimal form are the parameter \<open>sha\<close>.
\<close>

definition Redact :: "(string \<Rightarrow> string option) \<Rightarrow> string \<Rightarrow> string" where
  "Redact etld1 qname =
     (let name = TrimSuffix (map lower qname) ''.'' in
      if name = [] then ''.''
      else case etld1 name of
          None \<Rightarrow> name @ ''.''
        | Some reg \<Rightarrow> reg @ ''.'')"

definition privacy_Hash :: "(string \<Rightarrow> string) \<Rightarrow> string \<Rightarrow> string" where
  "privacy_Hash sha qname = take 12 (sha (map lower qname))"

text \<open>The host part of \<open>host:port\<close> when there is exactly one colon and not at the start.\<close>

definition cut_port :: "string \<Rightarrow> string" where
  "cut_port addr = (if count_list addr (CHR '':'') = 1 \<and> hd addr \<noteq> CHR '':'' then takeWhile (\<lambda>c. c \<noteq> CHR '':'') addr else addr)"

definition RedactAddr :: "string \<Rightarrow> string" where
  "RedactAddr addr0 =
     (let addr = cut_port addr0 in
      if CHR ''.'' \<in> set addr then
        (let parts = split_on (CHR ''.'') addr in
         if length parts = 4 then parts ! 0 @ ''.'' @ parts ! 1 @ ''.'' @ parts ! 2 @ ''.0/24'' else addr)
      else let parts = split_on (CHR '':'') addr in
        if length parts \<ge> 3 then parts ! 0 @ '':'' @ parts ! 1 @ '':'' @ parts ! 2 @ ''::/48'' else addr)"

lemma cut_port_host: "CHR '':'' \<notin> set h \<Longrightarrow> h \<noteq> [] \<Longrightarrow> CHR '':'' \<notin> set p \<Longrightarrow> cut_port (h @ CHR '':'' # p) = h"
  by (auto simp: cut_port_def count_list_append takeWhile_append hd_append)

lemma cut_port_plain: "CHR '':'' \<notin> set h \<Longrightarrow> cut_port h = h"
  by (simp add: cut_port_def)

text \<open>An IPv4 client is logged as its network, with or without a port: the last octet and the port appear nowhere in what is logged, which is the same for
  all 256 hosts of the network.\<close>

theorem redact_v4_network:
  assumes "\<forall>x \<in> set [a, b, c, d, port]. CHR ''.'' \<notin> set x \<and> CHR '':'' \<notin> set x" and "a \<noteq> []"
  shows "RedactAddr (a @ ''.'' @ b @ ''.'' @ c @ ''.'' @ d) = a @ ''.'' @ b @ ''.'' @ c @ ''.0/24''
    \<and> RedactAddr (a @ ''.'' @ b @ ''.'' @ c @ ''.'' @ d @ '':'' @ port) = a @ ''.'' @ b @ ''.'' @ c @ ''.0/24''"
proof -
  let ?h = "a @ CHR ''.'' # b @ CHR ''.'' # c @ CHR ''.'' # d"
  have s: "split_on (CHR ''.'') ?h = [a, b, c, d]" using assms by (simp add: split_on_append split_on_single)
  have "cut_port ?h = ?h" "cut_port (?h @ CHR '':'' # port) = ?h" using assms cut_port_plain [of ?h] cut_port_host [of ?h port] by simp_all
  then have "RedactAddr ?h = a @ ''.'' @ b @ ''.'' @ c @ ''.0/24'' \<and> RedactAddr (?h @ CHR '':'' # port) = a @ ''.'' @ b @ ''.'' @ c @ ''.0/24''"
    unfolding RedactAddr_def Let_def by (simp add: s)
  then show ?thesis by simp
qed

text \<open>An IPv6 client in its usual, shortened form is logged in full: the first three groups are taken as text, so an address written with \<open>::\<close> after its first group and
  a single group after that appears whole in the log, and is not a network at all; the /48 that is documented holds only for addresses written out.\<close>

theorem redact_v6_leaks:
  assumes "\<forall>x \<in> set [a, host]. CHR ''.'' \<notin> set x \<and> CHR '':'' \<notin> set x"
  shows "RedactAddr (a @ ''::'' @ host) = a @ ''::'' @ host @ ''::/48''"
proof -
  let ?h = "a @ CHR '':'' # [] @ CHR '':'' # host"
  have s: "split_on (CHR '':'') ?h = [a, [], host]" using assms by (simp add: split_on_append split_on_single)
  have "CHR ''.'' \<notin> set ?h" "cut_port ?h = ?h" using assms by (auto simp: cut_port_def count_list_append)
  then have "RedactAddr ?h = a @ '':'' @ [] @ '':'' @ host @ ''::/48''" unfolding RedactAddr_def Let_def by (simp add: s [simplified])
  then show ?thesis by simp
qed

text \<open>Names with the same registrable domain are logged alike, whatever their case and whether written with the final dot or not; the labels below the domain do not
  show.\<close>

theorem redact_hides_labels:
  assumes "etld1 (TrimSuffix (map lower n) ''.'') = Some reg" and "etld1 (TrimSuffix (map lower n') ''.'') = Some reg" and "etld1 [] = None"
  shows "Redact etld1 n = Redact etld1 n' \<and> Redact etld1 n = reg @ ''.''"
  using assms by (auto simp: Redact_def Let_def)

theorem redact_v4_network_witness: "RedactAddr ''10.1.2.3:5353'' = ''10.1.2.0/24''"
  using redact_v4_network [of "''10''" "''1''" "''2''" "''3''" "''5353''"] by simp

theorem redact_v6_leaks_witness: "RedactAddr ''fe80::1'' = ''fe80::1::/48''"
  using redact_v6_leaks [of "''fe80''" "''1''"] by simp

theorem redact_hides_labels_witness:
  "Redact (\<lambda>n. if n = [] then None else Some ''example.com'') ''Very.Secret.example.com.'' = ''example.com.''"
proof -
  let ?f = "\<lambda>n. if n = [] then None else Some ''example.com''"
  have "TrimSuffix (map lower ''Very.Secret.example.com.'') ''.'' \<noteq> []" by code_simp
  then have "?f (TrimSuffix (map lower ''Very.Secret.example.com.'') ''.'') = Some ''example.com''" by simp
  from redact_hides_labels [of ?f, OF this this] show ?thesis by simp
qed

end
