(* ===== verification/Spec2Isabelle.thy ===== *)
theory Spec2Isabelle
  imports Netacl Subscriber Policy_Enforcer Policy_Feeds_Correct Cache_Correct Infra Serve_Stale Ratelimit Health
    Publisher_Correct Peer_Correct Mgmt_Correct Route_Agent Resolver_Names Resolver_World Validation_Limits Forward
    Prefetch Listeners_Correct Privacy
begin

text \<open>
  Verification of \<open>cgdns\<close>, a validating, policy-enforcing recursive DNS resolver for access networks.

  \<^bold>\<open>The program.\<close> A node of \<open>cgdns\<close> (\<open>src/cmd/cgdns/main.go\<close> wires the parts under \<open>src/internal\<close>) receives
  queries from its listeners (\<open>transport\<close>) and passes each through a chain of handlers: the rate limiter
  (\<open>ratelimit\<close>), the policy enforcer (\<open>policy\<close>, which asks the subscriber classifier \<open>subscriber\<close> for the
  client's class), the serve-stale handler (\<open>servestale\<close>) and the recursion engine (\<open>resolver\<close>). The engine
  works on the RRset cache and the infrastructure cache (\<open>cache\<close>), validates with \<open>dnssec\<close> and synthesises denials from
  \<open>aggressive\<close>. Beside the query path stand the replicated configuration store (\<open>control\<close>), the link on which
  the two nodes of a pair exchange cache entries and records (\<open>peer\<close>), the management API (\<open>management\<close>), the health
  monitor that advertises and withdraws the anycast prefix (\<open>health\<close>) and the route agent (\<open>routeagent\<close>). The access
  lists of \<open>netacl\<close> and the classifier rest on the radix trie \<open>prefixmap\<close>.

  \<^bold>\<open>The theories.\<close> One theory per component, in the order of the imports; each opens with what it models.

  \<^item> \<open>Prelude\<close>: clock values and durations, facts on lists and maps. \<open>Netip\<close>: the addresses and prefixes of Go's
    \<open>net/netip\<close>. \<open>Gostrings\<close>: the functions of \<open>strings\<close> and \<open>bufio\<close> the text readers use. \<open>Dns\<close>: records and messages, and the functions of \<open>miekg/dns\<close> the program calls, as a
    record \<open>dnslib\<close> of parameters; what the proofs need of it are the locales \<open>dns_names\<close> and \<open>name_steps\<close>, both
    interpreted on the executable \<open>ref_lib\<close>. \<open>Effects\<close>: runs, functions from a state to an optional result and state, and the
    judgement \<open>runs\<close> that a run returns with a property.
  \<^item> \<open>Prefixmap\<close>, \<open>Netacl\<close>, \<open>Subscriber\<close>: \<open>prefixmap.go\<close>, \<open>netacl.go\<close>, \<open>classifier.go\<close>. The trie is a
    longest-prefix match; the ACL and the classifier inherit it.
  \<^item> \<open>Transport\<close>, \<open>Policy_Rules\<close>, \<open>Policy_Enforcer\<close>: the request and handler types of \<open>transport.go\<close>, the rule
    sets and registry of \<open>rule.go\<close>, and the handler of \<open>enforcer.go\<close> with the precedence of mandatory, class and personal rules.
    \<open>Policy_Feeds\<close> and \<open>Policy_Feeds_Correct\<close>: where the rules come from, \<open>rpz.go\<close>, \<open>load.go\<close>, \<open>guard.go\<close>, \<open>fetch.go\<close>.
  \<^item> \<open>Lru\<close>, \<open>Cache\<close>, \<open>Cache_Correct\<close>, \<open>Infra\<close>: \<open>cache.go\<close> and \<open>infra.go\<close> at the level of the linked nodes.
    \<open>Lru\<close> relates the pointer structure to a list, \<open>Cache_Correct\<close> refines a shard to a
    list of entries and derives bounds, freshness and visibility.
  \<^item> \<open>Serve_Stale\<close>, \<open>Ratelimit\<close>, \<open>Health\<close>, \<open>Control_Store\<close>, \<open>Route_Agent\<close>: one theory each; the state machines
    are step functions with \<open>inductive\<close> reachability. \<open>Control_Records\<close>, \<open>Control_Publisher\<close>, \<open>Publisher_Correct\<close>:
    \<open>records.go\<close> and \<open>publisher.go\<close>, from the records of the store to the rules the enforcer reads.
  \<^item> \<open>Peer_Link\<close>, \<open>Peer_Correct\<close>: \<open>protocol.go\<close>, \<open>server.go\<close>, \<open>client.go\<close>, \<open>cache.go\<close> of \<open>peer\<close>, down to the bytes of a frame; the
    client's requests run against the modelled server, and two nodes with a client, a server and a store each run against each other.
  \<^item> \<open>Mgmt_Auth\<close>, \<open>Mgmt_API\<close>, \<open>Mgmt_Correct\<close>: tokens, accounts, one-time codes and sessions (\<open>token.go\<close>, \<open>user.go\<close>, \<open>session.go\<close>), then
    the guard, the handlers and the router (\<open>api.go\<close>, \<open>auth.go\<close>) over the store, and what they guarantee.
  \<^item> \<open>Resolver_Names\<close>: \<open>bailiwick.go\<close>, \<open>qmin.go\<close>, \<open>dns0x20.go\<close>. \<open>Dnssec_Denial\<close>, \<open>Dnssec_Validator\<close>: \<open>denial.go\<close>,
    \<open>validator.go\<close> and the anchor type. \<open>Aggressive\<close>: \<open>aggressive.go\<close>, \<open>nsec3.go\<close>.
  \<^item> \<open>Recursive\<close>: the engine of \<open>recursive.go\<close> with \<open>denial.go\<close> and the reply builders of \<open>forward.go\<close>, over an
    environment of operations. \<open>Recursive_Budget\<close> states what the environment must provide (locale \<open>engine\<close>) and proves
    the budgets; \<open>Recursive_Secure\<close> adds the validator (locale \<open>secure_engine\<close>) and proves that a secure verdict is
    earned. \<open>Resolver_World\<close> builds the environment from the caches and the denial store as modelled here, discharges the
    interface (locale \<open>world_setup\<close>, a sublocale of \<open>secure_engine\<close>) and states the end-to-end
    theorems. \<open>Validation_Limits\<close> proves two of its failures. \<open>Forward\<close>: the other engine, \<open>forward.go\<close>.

  \<^item> \<open>Listeners\<close>, \<open>Listeners_Correct\<close>: the UDP, TCP, DoT, DoH and DoQ listeners of \<open>transport\<close>, from what is read to what is written, alone and with the
    resolver behind them. \<open>Prefetch\<close>: \<open>prefetch.go\<close>, its goroutines interleaved. \<open>Privacy\<close>: \<open>qname.go\<close>.

  \<^bold>\<open>What is shown.\<close> Of the whole resolver: every query in every reachable state gets a response within its outbound
  budget against any network, and the AD bit is set only on data verified with keys chained to an anchor, on verified denials that prove what the response
  says of the question, and on denials synthesised for the name from such. Both assume that whenever the clock is read a configured anchor of the root is inside its validity
  period (without one the handler panics, \<open>no_anchor_panics\<close>); the shipped anchors satisfy it with any clock past 2 February 2017 (\<open>shipped_anchored\<close>). Of the listeners: nothing but queries of admitted clients
  reaches the handler, no answer goes anywhere but to a query's sender or exceeds the ceiling, panics are contained, headers name a client only through a trusted proxy, and with the
  resolver behind the socket every admitted query in time is answered if its answer can be packed. Of prefetching, under every interleaving: bounded, never twice for a name, drained. Of
  DNSSEC: what \<open>VerifyRRset\<close> accepts, that every verdict of the chain walk is justified and the walk returns, that NSEC
  proofs from an honest chain are sound, and that synthesis from the denial store is. Of the caches: bounds on entries and bytes, exact byte accounting, freshness, LRU order,
  backoff. Of the store: convergence of anti-entropy, no resurrection, reopen after flush; from the store to the query path: what is stored is what
  is published, no change is missed, and a mandatory list kept by hand is enforced whatever the client. Of the pair: frames are read as written, any bytes are
  survived, a shared entry does not outlive itself but for the receiver's minimum TTL, and one round of sync leaves both nodes with the same records. Of management: nothing happens without
  authority, scopes are confined, tokens and passwords verify as made, a revocation lasts, a login needs the credentials, and deleting accounts keeps
  an administrator. Of policy, limiter, monitor
  and agent: precedence, rate, the hold-down in force with its doubling and reset, exact reconciliation. Where the code falls short of its own documentation the
  behaviour is stated as it is and proved (\<open>bare_denial_passes\<close>, \<open>no_anchor_panics\<close>,
  \<open>foreign_nsec_accepted\<close>, \<open>existing_wildcard_accepted\<close>, \<open>root_zone_unused\<close>, \<open>replacement_loses_order\<close>,
  \<open>failed_withdraw_not_retried\<close>, \<open>failed_flush_forgotten\<close>, \<open>answer_key_case_sensitive\<close>, \<open>apply_ignores_drift\<close>,
  \<open>protected_subdomain_goes_live\<close>, \<open>root_entry_never_in_force\<close>, \<open>bad_class_freezes\<close>, \<open>reserved_class_replaces_mandatory\<close>,
  \<open>oversized_never_replicates\<close>, \<open>peer_hit_zero_ttl\<close>, \<open>records_leak_users\<close>, \<open>create_demotes_last_admin\<close>, \<open>forwarded_spoof\<close>,
  \<open>close_misses_refresh\<close>, \<open>redact_v6_leaks\<close>).

  \<^bold>\<open>Loops and fuel.\<close> Loops whose end is not evident are \<open>partial_function (option)\<close> (\<open>trim\<close>, \<open>infra_evict\<close>,
  the label walk of \<open>set_Match\<close>, \<open>pow2_loop\<close>), with theorems that they return. \<open>resolve\<close> takes the nesting still allowed as fuel;
  \<open>query_fuel\<close>, \<open>MaxCNAME\<close> plus six, is never used up (the depth of nameserver lookups is at most four), and running out would be the
  value \<open>None\<close> that \<open>every_query_answered\<close> excludes. The label walks of \<open>bestDelegation\<close> and of the denial store are fuelled by the length of
  the name, which every step shortens. \<open>trustedKeys\<close> ends by its depth limit.

  \<^bold>\<open>Idealisations.\<close> Machine integers that index or count in 64 bits are \<open>int\<close> or \<open>nat\<close>; record types, codes, TTLs and
  hashes are words. A \<open>time.Time\<close> is an integer of nanoseconds and the clock an argument. The \<open>float64\<close> credit of the
  limiter is a rational. The order in which Go visits a map and the effect of \<open>sort.Slice\<close> are
  arguments. Error texts are parameters. A panic is \<open>None\<close>. Operations of one component are atomic, as their mutexes make them (the goroutines of the
  prefetcher are interleaved action by action, the workers of a UDP socket datagram by datagram, the two nodes of a pair turn by turn), and queries are served one after the other. Random bytes, hashes and the codecs of JSON, base 32 and base 64 are parameters. Logging is left out.

  \<^bold>\<open>Not modelled.\<close> Sockets, TLS, HTTP, gRPC and netlink I/O (outbound clients, the management server, ACME, BGP client; the listeners take what theirs deliver as arguments), YAML, JSON
  and XML decoding, metric exposition, and the command line tools: what they do is calls
  into libraries that are not part of the repository.
\<close>

end
